(* ===== verification/Prelude.thy ===== *)
theory Prelude
  imports Complex_Main "HOL-Library.List_Lexorder" "HOL-Library.FSet"
begin

text \<open>
  What every component shares: Python strings as lists of code points, the exceptions
  the program raises, computations that may raise, the order-preserving list idioms of
  Python (\<^verbatim>\<open>dict.fromkeys\<close>, stable sort), and the two contracts used by all the
  stateful components: an operation that keeps an invariant, and a row update that keeps a key.
\<close>

named_theorems op_defs \<open>definitions of operations, unfolded in the proofs about one call\<close>

subsection \<open>Strings\<close>

text \<open>
  A Python \<^verbatim>\<open>str\<close> is a sequence of Unicode code points. \<open>lit\<close> embeds an ASCII literal.
\<close>

type_synonym ustr = "nat list"

definition lit :: "string \<Rightarrow> ustr" where
  "lit s = map of_char s"

lemma lit_eq_iff: "lit a = lit b \<longleftrightarrow> a = b"
  by (auto simp: lit_def inj_map_eq_map inj_def)

text \<open>The code points for which \<^verbatim>\<open>str.isspace\<close> holds; \<^verbatim>\<open>str.strip\<close> removes exactly these.\<close>

definition py_space :: "nat \<Rightarrow> bool" where
  "py_space c \<longleftrightarrow>
     (9 \<le> c \<and> c \<le> 13) \<or> (28 \<le> c \<and> c \<le> 32) \<or> c = 133 \<or> c = 160 \<or> c = 5760
     \<or> (8192 \<le> c \<and> c \<le> 8202) \<or> c = 8232 \<or> c = 8233 \<or> c = 8239 \<or> c = 8287 \<or> c = 12288"

definition py_lstrip :: "ustr \<Rightarrow> ustr" where
  "py_lstrip s = dropWhile py_space s"

definition py_rstrip :: "ustr \<Rightarrow> ustr" where
  "py_rstrip s = rev (dropWhile py_space (rev s))"

definition py_strip :: "ustr \<Rightarrow> ustr" where
  "py_strip s = py_rstrip (py_lstrip s)"

lemma length_py_rstrip: "length (py_rstrip s) \<le> length s"
  by (simp add: py_rstrip_def length_dropWhile_le [of py_space "rev s", simplified])

lemma length_py_strip: "length (py_strip s) \<le> length s"
  using length_py_rstrip [of "py_lstrip s"] length_dropWhile_le [of py_space s]
  by (simp add: py_strip_def py_lstrip_def)

lemma py_rstrip_append_space: "py_rstrip s @ rev (takeWhile py_space (rev s)) = s"
  by (metis py_rstrip_def rev_append rev_rev_ident takeWhile_dropWhile_id)

lemma py_rstrip_last: "py_rstrip s \<noteq> [] \<Longrightarrow> \<not> py_space (last (py_rstrip s))"
  by (metis hd_dropWhile last_rev py_rstrip_def rev_is_Nil_conv)

lemma py_rstrip_id: "s = [] \<or> \<not> py_space (last s) \<Longrightarrow> py_rstrip s = s"
  by (cases s rule: rev_cases) (auto simp: py_rstrip_def)

lemma py_lstrip_id: "s = [] \<or> \<not> py_space (hd s) \<Longrightarrow> py_lstrip s = s"
  by (cases s) (auto simp: py_lstrip_def)

lemma py_rstrip_idem: "py_rstrip (py_rstrip s) = py_rstrip s"
  using py_rstrip_last by (intro py_rstrip_id) blast

lemma py_lstrip_hd: "py_lstrip s \<noteq> [] \<Longrightarrow> \<not> py_space (hd (py_lstrip s))"
  unfolding py_lstrip_def by (rule hd_dropWhile)

lemma hd_py_rstrip: "py_rstrip s \<noteq> [] \<Longrightarrow> hd (py_rstrip s) = hd s"
  by (metis hd_append2 py_rstrip_append_space)

lemma py_strip_idem: "py_strip (py_strip s) = py_strip s"
proof -
  have "py_lstrip (py_strip s) = py_strip s"
  proof (rule py_lstrip_id, cases "py_strip s = []")
    case False
    then have "py_lstrip s \<noteq> []" by (auto simp: py_strip_def py_rstrip_def)
    with False show "py_strip s = [] \<or> \<not> py_space (hd (py_strip s))"
      using hd_py_rstrip [of "py_lstrip s"] py_lstrip_hd [of s] by (simp add: py_strip_def)
  qed simp
  then show ?thesis by (simp add: py_strip_def py_rstrip_idem)
qed

lemma py_strip_id: "s \<noteq> [] \<Longrightarrow> \<not> py_space (hd s) \<Longrightarrow> \<not> py_space (last s) \<Longrightarrow> py_strip s = s"
  by (simp add: py_strip_def py_lstrip_id py_rstrip_id)

lemma py_strip_hd: "py_strip s \<noteq> [] \<Longrightarrow> \<not> py_space (hd (py_strip s))"
  unfolding py_strip_def using hd_py_rstrip [of "py_lstrip s"] py_lstrip_hd [of s] by (metis py_rstrip_def dropWhile.simps(1) rev.simps(1))

lemma set_py_rstrip: "set (py_rstrip s) \<subseteq> set s"
  using set_dropWhileD [of _ py_space "rev s"] by (auto simp: py_rstrip_def)

lemma set_py_strip: "set (py_strip s) \<subseteq> set s"
  using set_py_rstrip [of "py_lstrip s"] set_dropWhileD [of _ py_space s]
  by (auto simp: py_strip_def py_lstrip_def)

text \<open>\<^verbatim>\<open>str(n)\<close> of a natural number.\<close>

fun py_str_nat :: "nat \<Rightarrow> ustr" where
  "py_str_nat n = (if n < 10 then [48 + n] else py_str_nat (n div 10) @ [48 + n mod 10])"

declare py_str_nat.simps [simp del]

lemma py_str_nat_digits: "\<forall>c \<in> set (py_str_nat n). 48 \<le> c \<and> c \<le> 57"
  by (induction n rule: py_str_nat.induct) (subst py_str_nat.simps, auto)

lemma py_str_nat_value: "foldl (\<lambda>a c. 10 * a + (c - 48)) 0 (py_str_nat n) = n"
  by (induction n rule: py_str_nat.induct) (subst py_str_nat.simps, auto)

lemma py_str_nat_eq [simp]: "py_str_nat m = py_str_nat n \<longleftrightarrow> m = n"
  by (metis py_str_nat_value)

subsection \<open>Rounding\<close>

text \<open>\<^verbatim>\<open>round(x, n)\<close> on a real number: to \<open>n\<close> decimals, ties to even.\<close>

definition round_even :: "real \<Rightarrow> int" where
  "round_even y = (let f = \<lfloor>y\<rfloor>; r = y - of_int f in if r < 1 / 2 \<or> r = 1 / 2 \<and> even f then f else f + 1)"

definition py_round :: "nat \<Rightarrow> real \<Rightarrow> real" where
  "py_round n x = of_int (round_even (x * 10 ^ n)) / 10 ^ n"

lemma round_even_near: "\<bar>of_int (round_even y) - y\<bar> \<le> 1 / 2"
proof -
  have "of_int \<lfloor>y\<rfloor> \<le> y" "y < of_int \<lfloor>y\<rfloor> + 1" by linarith+
  then show ?thesis by (auto simp: round_even_def Let_def)
qed

lemma round_even_int [simp]: "round_even (of_int k) = k"
  by (simp add: round_even_def)

lemma round_even_mono: "x \<le> y \<Longrightarrow> round_even x \<le> round_even y"
proof -
  assume le: "x \<le> y"
  show ?thesis
  proof (cases "\<lfloor>x\<rfloor> = \<lfloor>y\<rfloor>")
    case True
    with le show ?thesis by (auto simp: round_even_def Let_def)
  next
    case False
    with le have "\<lfloor>x\<rfloor> + 1 \<le> \<lfloor>y\<rfloor>" by linarith
    then show ?thesis by (auto simp: round_even_def Let_def)
  qed
qed

lemma py_round_mono: "x \<le> y \<Longrightarrow> py_round n x \<le> py_round n y"
  by (simp add: py_round_def divide_right_mono round_even_mono mult_right_mono)

lemma py_round_int: "py_round n (of_int k) = of_int k"
  using round_even_int [of "k * 10 ^ n"] by (simp add: py_round_def)

lemma py_round_nonneg: "0 \<le> x \<Longrightarrow> 0 \<le> py_round n x"
  using py_round_mono [of 0 x n] py_round_int [of n 0] by simp

lemma py_round_unit: "0 \<le> x \<Longrightarrow> x \<le> 1 \<Longrightarrow> 0 \<le> py_round n x \<and> py_round n x \<le> 1"
  using py_round_mono [of x 1 n] py_round_int [of n 1] py_round_nonneg by simp

lemma py_round_near: "\<bar>py_round n x - x\<bar> \<le> 1 / (2 * 10 ^ n)"
proof -
  have "py_round n x - x = (of_int (round_even (x * 10 ^ n)) - x * 10 ^ n) / 10 ^ n"
    by (simp add: py_round_def diff_divide_distrib)
  then have "\<bar>py_round n x - x\<bar> = \<bar>of_int (round_even (x * 10 ^ n)) - x * 10 ^ n\<bar> / 10 ^ n" by (simp add: abs_divide)
  also have "\<dots> \<le> (1 / 2) / 10 ^ n" by (intro divide_right_mono round_even_near) simp
  finally show ?thesis by simp
qed

subsection \<open>Exceptions and computations that may raise\<close>

text \<open>
  The exception classes of \<^verbatim>\<open>cyberbrain/core/errors.py\<close>, the built-in ones the modelled
  code raises, and the subclasses declared next to their component (\<^verbatim>\<open>QuotaExceededError\<close>,
  \<^verbatim>\<open>TraversalLimit\<close>). Each carries the message \<^verbatim>\<open>str(exc)\<close>.
\<close>

datatype exn =
    ConfigurationError ustr
  | EmbeddingError ustr
  | StorageError ustr
  | ConflictError ustr
  | SensitiveDataError ustr
  | ProviderUnavailableError ustr
  | ProviderResponseError ustr
  | QuotaExceededError int
  | ValueError ustr
  | TypeError ustr
  | KeyError ustr
  | IndexError ustr
  | AttributeError ustr
  | RuntimeError ustr
  | TraversalLimit ustr

type_synonym 'a result = "exn + 'a"

definition bindE :: "'e + 'a \<Rightarrow> ('a \<Rightarrow> 'e + 'b) \<Rightarrow> 'e + 'b" where
  "bindE m f = (case m of Inl e \<Rightarrow> Inl e | Inr x \<Rightarrow> f x)"

lemma bindE_simps [simp]:
  "bindE (Inl e) f = Inl e"
  "bindE (Inr x) f = f x"
  by (simp_all add: bindE_def)

lemma bindE_eq_Inr [simp]: "bindE m f = Inr y \<longleftrightarrow> (\<exists>x. m = Inr x \<and> f x = Inr y)"
  by (cases m) auto

lemma bindE_eq_Inl: "bindE m f = Inl e \<longleftrightarrow> m = Inl e \<or> (\<exists>x. m = Inr x \<and> f x = Inl e)"
  by (cases m) auto

lemma bindE_assoc: "bindE (bindE m f) g = bindE m (\<lambda>x. bindE (f x) g)"
  by (cases m) auto

text \<open>A comprehension over a call that may raise: the first failure ends it.\<close>

primrec mapE :: "('a \<Rightarrow> 'e + 'b) \<Rightarrow> 'a list \<Rightarrow> 'e + 'b list" where
  "mapE f [] = Inr []"
| "mapE f (x # xs) = bindE (f x) (\<lambda>y. bindE (mapE f xs) (\<lambda>ys. Inr (y # ys)))"

lemma mapE_eq_Inr: "mapE f xs = Inr ys \<longleftrightarrow> list_all2 (\<lambda>x y. f x = Inr y) xs ys"
  by (induction xs arbitrary: ys) (auto simp: list_all2_Cons1)

lemma mapE_Inr_map: "(\<And>x. x \<in> set xs \<Longrightarrow> f x = Inr (g x)) \<Longrightarrow> mapE f xs = Inr (map g xs)"
  by (induction xs) auto

lemma mapE_Inr_id: "(\<And>x. x \<in> set xs \<Longrightarrow> f x = Inr x) \<Longrightarrow> mapE f xs = Inr xs"
  using mapE_Inr_map [of xs f "\<lambda>x. x"] by simp

lemma mapE_length: "mapE f xs = Inr ys \<Longrightarrow> length ys = length xs"
  by (auto simp: mapE_eq_Inr dest: list_all2_lengthD)

lemma mapE_total: "(\<And>x. x \<in> set xs \<Longrightarrow> \<exists>y. f x = Inr y) \<Longrightarrow> \<exists>ys. mapE f xs = Inr ys"
  by (induction xs) auto

lemma mapE_fail: "mapE f xs = Inl e \<Longrightarrow> \<exists>x \<in> set xs. f x = Inl e"
  by (induction xs) (auto simp: bindE_eq_Inl)

lemma mapE_cong: "(\<And>x. x \<in> set xs \<Longrightarrow> f x = g x) \<Longrightarrow> mapE f xs = mapE g xs"
  by (induction xs) auto

lemma mapE_ok: "mapE f xs = Inr ys \<Longrightarrow> x \<in> set xs \<Longrightarrow> \<exists>y. f x = Inr y"
  by (induction xs arbitrary: ys) auto

lemma mapE_source: "mapE f xs = Inr ys \<Longrightarrow> y \<in> set ys \<Longrightarrow> \<exists>x \<in> set xs. f x = Inr y"
  by (induction xs arbitrary: ys) auto

text \<open>\<^verbatim>\<open>x or default\<close> on an optional value.\<close>

definition the_default :: "'a \<Rightarrow> 'a option \<Rightarrow> 'a" where
  "the_default d x = (case x of None \<Rightarrow> d | Some v \<Rightarrow> v)"

lemma the_default_simps [simp]: "the_default d None = d" "the_default d (Some v) = v"
  by (simp_all add: the_default_def)

subsection \<open>Lists\<close>

text \<open>\<^verbatim>\<open>tuple(dict.fromkeys(xs))\<close>: the first occurrence of each element, in order.\<close>

primrec fromkeys :: "'a list \<Rightarrow> 'a list" where
  "fromkeys [] = []"
| "fromkeys (x # xs) = x # filter (\<lambda>y. y \<noteq> x) (fromkeys xs)"

lemma set_fromkeys [simp]: "set (fromkeys xs) = set xs"
  by (induction xs) auto

lemma distinct_fromkeys [simp]: "distinct (fromkeys xs)"
  by (induction xs) auto

lemma fromkeys_distinct: "distinct xs \<Longrightarrow> fromkeys xs = xs"
  by (induction xs) (auto simp: filter_id_conv)

lemma fromkeys_eq_Nil [simp]: "fromkeys xs = [] \<longleftrightarrow> xs = []"
  by (cases xs) auto

lemma length_fromkeys_le: "length (fromkeys xs) \<le> length xs"
  by (metis distinct_card distinct_fromkeys card_length set_fromkeys)

lemma fset_of_list_nonempty [simp]: "fset_of_list xs = {||} \<longleftrightarrow> xs = []"
  by (metis fset_of_list.rep_eq fset_of_list_simps(1) set_empty bot_fset.rep_eq)

lemma fcard_single [simp]: "fcard {|v|} = Suc 0"
  by (simp add: fcard.rep_eq)

lemma fcard_1_iff: "fcard A = 1 \<longleftrightarrow> (\<exists>v. A = {|v|})"
proof
  assume "fcard A = 1"
  then obtain v where "fset A = {v}" by (auto simp: fcard.rep_eq card_1_singleton_iff)
  then have "A = {|v|}" by (metis bot_fset.rep_eq finsert.rep_eq fset_inject)
  then show "\<exists>v. A = {|v|}" ..
qed (auto simp: fcard.rep_eq)

subsection \<open>Two contracts shared by the stateful components\<close>

text \<open>
  A component whose admissible operations keep an invariant keeps it along every sequence of
  calls. \<open>guarded_machine\<close> adds what one call may change: a relation between the state before
  and after that is reflexive and transitive, so it holds between the ends of a run.
\<close>

locale op_machine =
  fixes exec :: "'op \<Rightarrow> 's \<Rightarrow> 's" and ok :: "'op \<Rightarrow> bool" and inv :: "'s \<Rightarrow> bool"
  assumes exec_inv: "ok op \<Longrightarrow> inv s \<Longrightarrow> inv (exec op s)"
begin

lemma run_inv: "list_all ok ops \<Longrightarrow> inv s \<Longrightarrow> inv (fold exec ops s)"
  by (induction ops arbitrary: s) (auto intro: exec_inv)

end

locale guarded_machine = op_machine exec ok inv
  for exec :: "'op \<Rightarrow> 's \<Rightarrow> 's" and ok :: "'op \<Rightarrow> bool" and inv :: "'s \<Rightarrow> bool" +
  fixes rel :: "'s \<Rightarrow> 's \<Rightarrow> bool"
  assumes rel_refl: "rel s s"
    and rel_trans: "rel s t \<Longrightarrow> rel t u \<Longrightarrow> rel s u"
    and exec_rel: "ok op \<Longrightarrow> inv s \<Longrightarrow> rel s (exec op s)"
begin

lemma run_rel: "list_all ok ops \<Longrightarrow> inv s \<Longrightarrow> rel s (fold exec ops s)"
  by (induction ops arbitrary: s) (auto intro: rel_refl rel_trans exec_rel exec_inv)

end

end
