(* ===== verification/Token_Budget.thy ===== *)
theory Token_Budget
  imports Prelude
begin

text \<open>
  The deterministic token estimate and clipping of
  \<^verbatim>\<open>cyberbrain/core/token_budget.py\<close>, and the contract \<open>token_governor\<close> that its users
  (the Working Memory selector) rely on. Python integers are \<open>int\<close>; \<^verbatim>\<open>//\<close> is \<open>div\<close>.
\<close>

record token_counter =
  chars_per_token :: int

text \<open>\<^verbatim>\<open>DeterministicTokenCounter.__post_init__\<close>.\<close>

definition make_counter :: "int \<Rightarrow> token_counter result" where
  "make_counter n =
     (if n \<le> 0 then Inl (ValueError (lit ''chars_per_token must be positive''))
      else Inr \<lparr>chars_per_token = n\<rparr>)"

definition counter_ok :: "token_counter \<Rightarrow> bool" where
  "counter_ok c \<longleftrightarrow> 0 < chars_per_token c"

definition estimate_tokens :: "token_counter \<Rightarrow> ustr \<Rightarrow> int" where
  "estimate_tokens c text =
     (if text = [] then 0
      else let chars = int (length text)
           in max 1 ((chars + chars_per_token c - 1) div chars_per_token c))"

text \<open>The horizontal ellipsis U+2026 that marks a clipped text.\<close>

definition ellipsis :: nat where
  "ellipsis = 8230"

definition clip_to_tokens :: "token_counter \<Rightarrow> ustr \<Rightarrow> int \<Rightarrow> ustr" where
  "clip_to_tokens c text budget_tokens =
     (if budget_tokens \<le> 0 then []
      else let max_chars = budget_tokens * chars_per_token c
           in if int (length text) \<le> max_chars then text
              else if max_chars \<le> 1 then take (nat max_chars) text
              else py_rstrip (take (nat (max_chars - 1)) text) @ [ellipsis])"

lemma make_counter_ok: "make_counter n = Inr c \<Longrightarrow> counter_ok c"
  by (auto simp: make_counter_def counter_ok_def split: if_splits)

lemma estimate_nil [simp]: "estimate_tokens c [] = 0"
  by (simp add: estimate_tokens_def)

lemma estimate_pos: "text \<noteq> [] \<Longrightarrow> 1 \<le> estimate_tokens c text"
  by (simp add: estimate_tokens_def Let_def)

lemma estimate_nonneg: "0 \<le> estimate_tokens c text"
  by (cases "text = []") (use estimate_pos [of "text" c] in auto)

text \<open>A text of at most \<open>b\<close> times the characters per token costs at most \<open>b\<close> tokens.\<close>

lemma estimate_le_budget:
  assumes "counter_ok c" and "int (length text) \<le> b * chars_per_token c" and "1 \<le> b"
  shows "estimate_tokens c text \<le> b"
proof -
  let ?k = "chars_per_token c"
  from assms(1) have k: "0 < ?k" by (simp add: counter_ok_def)
  have "(int (length text) + ?k - 1) div ?k \<le> (b * ?k + (?k - 1)) div ?k"
    using assms(2) k by (intro zdiv_mono1) auto
  also have "\<dots> = b"
    using k by (simp add: div_add1_eq)
  finally show ?thesis
    using assms(3) by (simp add: estimate_tokens_def Let_def)
qed

lemma length_clip:
  assumes "counter_ok c" and "0 < b"
  shows "int (length (clip_to_tokens c text b)) \<le> b * chars_per_token c"
proof -
  let ?m = "b * chars_per_token c"
  have m: "0 < ?m" using assms by (simp add: counter_ok_def)
  have "length (py_rstrip (take (nat (?m - 1)) text)) \<le> nat (?m - 1)"
    using length_py_rstrip [of "take (nat (?m - 1)) text"] by simp
  then have "int (length (py_rstrip (take (nat (?m - 1)) text))) + 1 \<le> ?m"
    using m by linarith
  then show ?thesis
    using assms(2) m by (auto simp: clip_to_tokens_def Let_def)
qed

lemma clip_budget:
  assumes "counter_ok c"
  shows "estimate_tokens c (clip_to_tokens c text b) \<le> max 0 b"
proof (cases "0 < b")
  case True
  then show ?thesis
    using estimate_le_budget [OF assms length_clip [OF assms True]] by simp
qed (simp add: clip_to_tokens_def)

lemma clip_nonempty:
  assumes "counter_ok c" and "0 < b" and "text \<noteq> []"
  shows "clip_to_tokens c text b \<noteq> []"
proof -
  have "0 < b * chars_per_token c" using assms by (simp add: counter_ok_def)
  then show ?thesis using assms(2,3) by (simp add: clip_to_tokens_def Let_def)
qed

text \<open>A text that fits its budget is returned unchanged; so clipping twice changes nothing.\<close>

lemma clip_fits: "0 < b \<Longrightarrow> int (length text) \<le> b * chars_per_token c \<Longrightarrow> clip_to_tokens c text b = text"
  by (simp add: clip_to_tokens_def Let_def)

lemma clip_idem:
  assumes "counter_ok c"
  shows "clip_to_tokens c (clip_to_tokens c text b) b = clip_to_tokens c text b"
proof (cases "0 < b")
  case True
  then show ?thesis by (rule clip_fits [OF _ length_clip [OF assms True]])
qed (simp add: clip_to_tokens_def)

lemma clip_prefix:
  "\<exists>n. clip_to_tokens c text b = take n text \<or> clip_to_tokens c text b = take n text @ [ellipsis]"
proof -
  have r: "\<exists>n. py_rstrip (take m text) = take n text" for m
    by (metis append_eq_conv_conj py_rstrip_append_space take_take)
  have "clip_to_tokens c text b \<in> {take 0 text, take (length text) text,
      take (nat (b * chars_per_token c)) text,
      py_rstrip (take (nat (b * chars_per_token c - 1)) text) @ [ellipsis]}"
    by (simp add: clip_to_tokens_def Let_def)
  with r [of "nat (b * chars_per_token c - 1)"] show ?thesis by (metis insert_iff singletonD)
qed

subsection \<open>The contract of a token governor\<close>

locale token_governor =
  fixes ok :: "'g \<Rightarrow> bool"
    and estimate :: "'g \<Rightarrow> ustr \<Rightarrow> int"
    and clip :: "'g \<Rightarrow> ustr \<Rightarrow> int \<Rightarrow> ustr"
  assumes gov_nil: "estimate g [] = 0"
    and gov_pos: "text \<noteq> [] \<Longrightarrow> 1 \<le> estimate g text"
    and gov_clip: "ok g \<Longrightarrow> estimate g (clip g text b) \<le> max 0 b"
    and gov_nonempty: "ok g \<Longrightarrow> 0 < b \<Longrightarrow> text \<noteq> [] \<Longrightarrow> clip g text b \<noteq> []"
begin

lemma gov_nonneg: "0 \<le> estimate g text"
  by (cases "text = []") (use gov_nil gov_pos [of "text" g] in auto)

lemma gov_clip_within: "ok g \<Longrightarrow> 0 < b \<Longrightarrow> b \<le> r \<Longrightarrow> estimate g (clip g text b) \<le> r"
  using gov_clip [of g "text" b] by simp

end

interpretation counter: token_governor counter_ok estimate_tokens clip_to_tokens
  by unfold_locales (auto intro: estimate_pos clip_budget clip_nonempty dest: estimate_pos clip_nonempty)

subsection \<open>Properties\<close>

text \<open>
  Clipping respects the budget it is given: the estimated cost of the clipped text is at
  most the budget (and zero for a budget that is not positive), for every text and every
  counter that passes validation.
\<close>

theorem clip_within_budget:
  assumes "make_counter n = Inr c"
  shows "estimate_tokens c (clip_to_tokens c text b) \<le> max 0 b
    \<and> clip_to_tokens c (clip_to_tokens c text b) b = clip_to_tokens c text b
    \<and> (\<exists>k. clip_to_tokens c text b = take k text \<or> clip_to_tokens c text b = take k text @ [ellipsis])"
  using clip_budget [OF make_counter_ok [OF assms]] clip_idem [OF make_counter_ok [OF assms]]
    clip_prefix by blast

theorem clip_within_budget_witness:
  "clip_to_tokens \<lparr>chars_per_token = 4\<rparr> [104, 105, 32, 32, 97, 98] 1 = [104, 105, ellipsis]
    \<and> estimate_tokens \<lparr>chars_per_token = 4\<rparr> (clip_to_tokens \<lparr>chars_per_token = 4\<rparr> [104, 105, 32, 32, 97, 98] 1) \<le> 1"
proof -
  have "make_counter 4 = Inr \<lparr>chars_per_token = 4\<rparr>" by (simp add: make_counter_def)
  from clip_within_budget [OF this, of "[104, 105, 32, 32, 97, 98]" 1] show ?thesis
    by (simp add: clip_to_tokens_def py_rstrip_def py_space_def)
qed

end
