(* ===== verification/Error_Model.thy ===== *)
theory Error_Model
  imports Prelude
begin

text \<open>
  The classification of exceptions into the public error envelope,
  \<^verbatim>\<open>cyberbrain/core/error_model.py\<close>. \<^verbatim>\<open>isinstance\<close> follows the class hierarchy of
  \<^verbatim>\<open>cyberbrain/core/errors.py\<close>; \<^verbatim>\<open>QuotaExceededError\<close> extends \<^verbatim>\<open>ConfigurationError\<close>.
  \<^verbatim>\<open>str(KeyError(k))\<close> is the \<^verbatim>\<open>repr\<close> of the key, so \<^verbatim>\<open>repr\<close> is an argument.
\<close>

datatype error_type =
    ET_Authentication | ET_Validation | ET_NotFound | ET_Conflict
  | ET_SensitiveData | ET_Configuration | ET_Unavailable | ET_Internal

record error_envelope =
  ee_type :: error_type
  ee_message :: ustr
  ee_retryable :: bool

fun exn_str :: "(ustr \<Rightarrow> ustr) \<Rightarrow> exn \<Rightarrow> ustr" where
  "exn_str py_repr (KeyError k) = py_repr k"
| "exn_str py_repr (QuotaExceededError _) = lit ''runtime quota exceeded''"
| "exn_str py_repr (ConfigurationError m) = m"
| "exn_str py_repr (EmbeddingError m) = m"
| "exn_str py_repr (StorageError m) = m"
| "exn_str py_repr (ConflictError m) = m"
| "exn_str py_repr (SensitiveDataError m) = m"
| "exn_str py_repr (ProviderUnavailableError m) = m"
| "exn_str py_repr (ProviderResponseError m) = m"
| "exn_str py_repr (IndexError m) = m"
| "exn_str py_repr (AttributeError m) = m"
| "exn_str py_repr (ValueError m) = m"
| "exn_str py_repr (TypeError m) = m"
| "exn_str py_repr (RuntimeError m) = m"
| "exn_str py_repr (TraversalLimit m) = m"

text \<open>The class tests of the chain, one per \<^verbatim>\<open>isinstance\<close>.\<close>

definition is_configuration_error :: "exn \<Rightarrow> bool" where
  "is_configuration_error e \<longleftrightarrow>
     (case e of ConfigurationError _ \<Rightarrow> True | QuotaExceededError _ \<Rightarrow> True | _ \<Rightarrow> False)"

definition is_unavailable_error :: "exn \<Rightarrow> bool" where
  "is_unavailable_error e \<longleftrightarrow>
     (case e of EmbeddingError _ \<Rightarrow> True | StorageError _ \<Rightarrow> True
      | ProviderUnavailableError _ \<Rightarrow> True | _ \<Rightarrow> False)"

definition is_validation_error :: "exn \<Rightarrow> bool" where
  "is_validation_error e \<longleftrightarrow>
     (case e of ValueError _ \<Rightarrow> True | TypeError _ \<Rightarrow> True | KeyError _ \<Rightarrow> True | _ \<Rightarrow> False)"

definition internal_message :: ustr where
  "internal_message = lit ''internal CyberBrain error''"

definition classify_error :: "(ustr \<Rightarrow> ustr) \<Rightarrow> exn \<Rightarrow> error_envelope" where
  "classify_error py_repr e =
     (let m = exn_str py_repr e in
      if (case e of SensitiveDataError _ \<Rightarrow> True | _ \<Rightarrow> False)
      then \<lparr>ee_type = ET_SensitiveData, ee_message = m, ee_retryable = False\<rparr>
      else if (case e of ConflictError _ \<Rightarrow> True | _ \<Rightarrow> False)
      then \<lparr>ee_type = ET_Conflict, ee_message = m, ee_retryable = False\<rparr>
      else if is_configuration_error e
      then \<lparr>ee_type = ET_Configuration, ee_message = m, ee_retryable = False\<rparr>
      else if is_unavailable_error e
      then \<lparr>ee_type = ET_Unavailable, ee_message = m, ee_retryable = True\<rparr>
      else if (case e of ProviderResponseError _ \<Rightarrow> True | _ \<Rightarrow> False)
      then \<lparr>ee_type = ET_Internal, ee_message = m, ee_retryable = False\<rparr>
      else if is_validation_error e
      then \<lparr>ee_type = ET_Validation, ee_message = m, ee_retryable = False\<rparr>
      else \<lparr>ee_type = ET_Internal, ee_message = internal_message, ee_retryable = False\<rparr>)"

definition not_found :: "ustr \<Rightarrow> error_envelope" where
  "not_found m = \<lparr>ee_type = ET_NotFound, ee_message = m, ee_retryable = False\<rparr>"

lemmas exn_class_defs =
  classify_error_def is_configuration_error_def is_unavailable_error_def is_validation_error_def

end
