(* ===== verification/Tenancy_Models.thy ===== *)
theory Tenancy_Models
  imports Prelude
begin

text \<open>
  Identity scopes and authority: \<^verbatim>\<open>cyberbrain/tenancy/normalization.py\<close>,
  \<^verbatim>\<open>models.py\<close> and \<^verbatim>\<open>auth.py\<close>. A \<^verbatim>\<open>frozenset\<close> is an \<open>fset\<close>; where the code
  iterates over one, the model takes the elements in ascending order (Python leaves the order
  open, and no result below depends on it but the text of an error message).
  \<^verbatim>\<open>unicodedata.normalize\<close> and \<^verbatim>\<open>str.casefold\<close> read the Unicode character database, which is
  not part of the program: they are the fields of \<open>unicode_tables\<close>.
\<close>

subsection \<open>Identifiers\<close>

record unicode_tables =
  nfc :: "ustr \<Rightarrow> ustr"
  casefold :: "ustr \<Rightarrow> ustr"

definition reserved_identifiers :: "ustr list" where
  "reserved_identifiers =
     [lit ''*'', lit ''all'', lit ''any'', lit ''__all__'', lit ''__any__'']"

definition normalize_identifier :: "unicode_tables \<Rightarrow> ustr \<Rightarrow> ustr result" where
  "normalize_identifier U value =
     (let normalized = py_strip (nfc U value) in
      if normalized = []
      then Inl (ValueError (lit ''identity identifier must not be empty''))
      else if list_ex (\<lambda>c. c < 32 \<or> c = 127) normalized
      then Inl (ValueError (lit ''identity identifier must not contain control characters''))
      else if casefold U normalized \<in> set reserved_identifiers \<or> 42 \<in> set normalized
      then Inl (ValueError (lit ''wildcard-like identity identifiers are not allowed''))
      else if 128 < length normalized
      then Inl (ValueError (lit ''identity identifier exceeds 128 characters''))
      else Inr normalized)"

text \<open>
  What the code relies on: NFC is idempotent, and a substring of an NFC string is NFC (here:
  stripping white space from one). Both are stability properties of the Unicode standard.
\<close>

definition nfc_stable :: "unicode_tables \<Rightarrow> bool" where
  "nfc_stable U \<longleftrightarrow> (\<forall>s. nfc U (py_strip (nfc U s)) = py_strip (nfc U s))"

text \<open>The code points that ASCII text uses are their own normal form.\<close>

definition ascii_tables :: unicode_tables where
  "ascii_tables = \<lparr>nfc = (\<lambda>s. s), casefold = map (\<lambda>c. if 65 \<le> c \<and> c \<le> 90 then c + 32 else c)\<rparr>"

lemma nfc_stable_ascii [simp]: "nfc_stable ascii_tables"
  by (simp add: nfc_stable_def ascii_tables_def)

definition canonical_id :: "unicode_tables \<Rightarrow> ustr \<Rightarrow> bool" where
  "canonical_id U v \<longleftrightarrow> normalize_identifier U v = Inr v"

lemma normalize_identifier_Inr:
  assumes "normalize_identifier U value = Inr v"
  shows "v = py_strip (nfc U value)" and "v \<noteq> []" and "length v \<le> 128"
    and "42 \<notin> set v" and "c \<in> set v \<Longrightarrow> 32 \<le> c \<and> c \<noteq> 127"
    and "casefold U v \<notin> set reserved_identifiers"
  using assms by (auto simp: normalize_identifier_def Let_def list_ex_iff not_less split: if_splits)

lemma normalize_identifier_idem:
  assumes "nfc_stable U" and "normalize_identifier U value = Inr v"
  shows "canonical_id U v"
proof -
  have v: "v = py_strip (nfc U value)" by (rule normalize_identifier_Inr(1) [OF assms(2)])
  with assms(1) have "nfc U v = v" by (simp add: nfc_stable_def)
  moreover have "py_strip v = v" by (simp add: v py_strip_idem)
  ultimately show ?thesis
    using assms(2) v by (simp add: canonical_id_def normalize_identifier_def Let_def split: if_splits)
qed

subsection \<open>Dimensions and operation classes\<close>

datatype identity_dimension = TENANT | USER | AGENT | PROJECT | SESSION

definition dimension_order :: "identity_dimension list" where
  "dimension_order = [TENANT, USER, AGENT, PROJECT, SESSION]"

lemma set_dimension_order [simp]: "set dimension_order = UNIV"
proof -
  have "d \<in> set dimension_order" for d by (cases d) (simp_all add: dimension_order_def)
  then show ?thesis by blast
qed

lemma distinct_dimension_order [simp]: "distinct dimension_order"
  by (simp add: dimension_order_def)

text \<open>The order of the dimensions is the order of \<^verbatim>\<open>_DIMENSION_ORDER\<close>.\<close>

fun dimension_rank :: "identity_dimension \<Rightarrow> nat" where
  "dimension_rank TENANT = 0"
| "dimension_rank USER = 1"
| "dimension_rank AGENT = 2"
| "dimension_rank PROJECT = 3"
| "dimension_rank SESSION = 4"

lemma dimension_rank_inj [simp]: "dimension_rank a = dimension_rank b \<longleftrightarrow> a = b"
  by (cases a; cases b) simp_all

instantiation identity_dimension :: linorder
begin

definition less_eq_identity_dimension :: "identity_dimension \<Rightarrow> identity_dimension \<Rightarrow> bool" where
  "less_eq_identity_dimension a b \<longleftrightarrow> dimension_rank a \<le> dimension_rank b"

definition less_identity_dimension :: "identity_dimension \<Rightarrow> identity_dimension \<Rightarrow> bool" where
  "less_identity_dimension a b \<longleftrightarrow> dimension_rank a < dimension_rank b"

instance
  by standard (auto simp: less_eq_identity_dimension_def less_identity_dimension_def)

end

fun dimension_value :: "identity_dimension \<Rightarrow> ustr" where
  "dimension_value TENANT = lit ''tenant''"
| "dimension_value USER = lit ''user''"
| "dimension_value AGENT = lit ''agent''"
| "dimension_value PROJECT = lit ''project''"
| "dimension_value SESSION = lit ''session''"

lemma dimension_value_inj [simp]: "dimension_value a = dimension_value b \<longleftrightarrow> a = b"
  by (cases a; cases b) (simp_all add: lit_def)

datatype operation_class = READ | WRITE | ADMIN_REVIEW | BACKGROUND_REASONING

subsection \<open>Scopes\<close>

record identity_scope =
  sc_tenant :: "ustr fset"
  sc_user :: "ustr fset"
  sc_agent :: "ustr fset"
  sc_project :: "ustr fset"
  sc_session :: "ustr fset"

fun scope_values :: "identity_scope \<Rightarrow> identity_dimension \<Rightarrow> ustr fset" where
  "scope_values s TENANT = sc_tenant s"
| "scope_values s USER = sc_user s"
| "scope_values s AGENT = sc_agent s"
| "scope_values s PROJECT = sc_project s"
| "scope_values s SESSION = sc_session s"

definition empty_scope :: identity_scope where
  "empty_scope = \<lparr>sc_tenant = {||}, sc_user = {||}, sc_agent = {||}, sc_project = {||}, sc_session = {||}\<rparr>"

lemma empty_scope_fields [simp]:
  "sc_tenant empty_scope = {||}" "sc_user empty_scope = {||}" "sc_agent empty_scope = {||}"
  "sc_project empty_scope = {||}" "sc_session empty_scope = {||}"
  by (simp_all add: empty_scope_def)

lemma scope_values_empty [simp]: "scope_values empty_scope d = {||}"
  by (cases d) (simp_all add: empty_scope_def)

lemma scope_eqI: "(\<And>d. scope_values s d = scope_values t d) \<Longrightarrow> s = t"
  for s t :: identity_scope
proof -
  assume a: "\<And>d. scope_values s d = scope_values t d"
  from a [of TENANT] a [of USER] a [of AGENT] a [of PROJECT] a [of SESSION] show "s = t"
    by simp
qed

text \<open>\<^verbatim>\<open>_normalize_values\<close>, on the elements in the order they are iterated.\<close>

definition normalize_values :: "unicode_tables \<Rightarrow> ustr list \<Rightarrow> ustr fset result" where
  "normalize_values U values =
     bindE (mapE (normalize_identifier U) values) (\<lambda>vs. Inr (fset_of_list vs))"

text \<open>
  \<^verbatim>\<open>IdentityScope(...)\<close> with its \<^verbatim>\<open>__post_init__\<close>: every dimension is normalized in order,
  and the first value that is refused ends the construction.
\<close>

definition make_scope :: "unicode_tables \<Rightarrow> (identity_dimension \<Rightarrow> ustr list) \<Rightarrow> identity_scope result" where
  "make_scope U raw =
     bindE (normalize_values U (raw TENANT)) (\<lambda>t.
     bindE (normalize_values U (raw USER)) (\<lambda>u.
     bindE (normalize_values U (raw AGENT)) (\<lambda>a.
     bindE (normalize_values U (raw PROJECT)) (\<lambda>p.
     bindE (normalize_values U (raw SESSION)) (\<lambda>s.
       Inr \<lparr>sc_tenant = t, sc_user = u, sc_agent = a, sc_project = p, sc_session = s\<rparr>)))))"

definition scope_wf :: "unicode_tables \<Rightarrow> identity_scope \<Rightarrow> bool" where
  "scope_wf U s \<longleftrightarrow> (\<forall>d v. v |\<in>| scope_values s d \<longrightarrow> canonical_id U v)"

lemma normalize_values_canonical:
  "(\<And>v. v \<in> set vs \<Longrightarrow> canonical_id U v) \<Longrightarrow> normalize_values U vs = Inr (fset_of_list vs)"
  by (simp add: normalize_values_def canonical_id_def mapE_Inr_id)

lemma normalize_values_wf:
  assumes "nfc_stable U" and "normalize_values U vs = Inr fs" and "v |\<in>| fs"
  shows "canonical_id U v"
proof -
  from assms(2) obtain ws where "mapE (normalize_identifier U) vs = Inr ws" "fs = fset_of_list ws"
    by (auto simp: normalize_values_def)
  with assms(3) obtain x where "normalize_identifier U x = Inr v"
    by (auto simp: mapE_eq_Inr fset_of_list_elem in_set_conv_nth list_all2_conv_all_nth)
  with assms(1) show ?thesis by (rule normalize_identifier_idem)
qed

lemma make_scope_values:
  "make_scope U raw = Inr s \<Longrightarrow> normalize_values U (raw d) = Inr (scope_values s d)"
  by (cases d) (auto simp: make_scope_def)

lemma make_scope_wf: "nfc_stable U \<Longrightarrow> make_scope U raw = Inr s \<Longrightarrow> scope_wf U s"
  using make_scope_values normalize_values_wf unfolding scope_wf_def by blast

lemma make_scope_canonical:
  assumes "\<And>d v. v \<in> set (raw d) \<Longrightarrow> canonical_id U v"
  shows "\<exists>s. make_scope U raw = Inr s \<and> (\<forall>d. scope_values s d = fset_of_list (raw d))"
proof -
  have n: "normalize_values U (raw d) = Inr (fset_of_list (raw d))" for d
    using assms by (rule normalize_values_canonical)
  show ?thesis
  proof (intro exI conjI allI)
    show "make_scope U raw = Inr \<lparr>sc_tenant = fset_of_list (raw TENANT),
        sc_user = fset_of_list (raw USER), sc_agent = fset_of_list (raw AGENT),
        sc_project = fset_of_list (raw PROJECT), sc_session = fset_of_list (raw SESSION)\<rparr>"
      by (simp add: make_scope_def n)
  next
    fix d
    show "scope_values \<lparr>sc_tenant = fset_of_list (raw TENANT),
        sc_user = fset_of_list (raw USER), sc_agent = fset_of_list (raw AGENT),
        sc_project = fset_of_list (raw PROJECT), sc_session = fset_of_list (raw SESSION)\<rparr> d
        = fset_of_list (raw d)"
      by (cases d) simp_all
  qed
qed

text \<open>\<^verbatim>\<open>as_dict\<close>: the constrained dimensions in order, each with its values sorted.\<close>

definition sorted_values :: "ustr fset \<Rightarrow> ustr list" where
  "sorted_values vs = sorted_list_of_fset vs"

lemma set_sorted_values [simp]: "set (sorted_values vs) = fset vs"
  by (simp add: sorted_values_def)

lemma sorted_values_eq_Nil [simp]: "sorted_values vs = [] \<longleftrightarrow> vs = {||}"
  by (metis bot_fset.rep_eq fset_inject set_empty set_sorted_values)

lemma sorted_values_empty [simp]: "sorted_values {||} = []"
  by simp

lemma sorted_values_single [simp]: "sorted_values {|v|} = [v]"
  by (simp add: sorted_values_def sorted_list_of_fset.rep_eq)

lemma distinct_sorted_values [simp]: "distinct (sorted_values vs)"
  by (simp add: sorted_values_def sorted_list_of_fset.rep_eq)

lemma sorted_values_inj [simp]: "sorted_values vs = sorted_values ws \<longleftrightarrow> vs = ws"
  by (metis fset_inject set_sorted_values)

lemma fset_of_sorted_values [simp]: "fset_of_list (sorted_values vs) = vs"
  by (metis fset_inject fset_of_list.rep_eq set_sorted_values)

type_synonym scope_dict = "(identity_dimension \<times> ustr list) list"

definition as_dict :: "identity_scope \<Rightarrow> scope_dict" where
  "as_dict s =
     map (\<lambda>d. (d, sorted_values (scope_values s d)))
       (filter (\<lambda>d. scope_values s d \<noteq> {||}) dimension_order)"

lemma as_dict_entry: "(d, vs) \<in> set (as_dict s) \<longleftrightarrow> scope_values s d \<noteq> {||} \<and> vs = sorted_values (scope_values s d)"
  by (auto simp: as_dict_def)

lemma as_dict_eq_Nil: "as_dict s = [] \<longleftrightarrow> (\<forall>d. scope_values s d = {||})"
  by (auto simp: as_dict_def filter_empty_conv)

lemma map_of_as_dict:
  "map_of (as_dict s) d =
     (if scope_values s d = {||} then None else Some (sorted_values (scope_values s d)))"
proof -
  have "map_of (map (\<lambda>d. (d, g d)) xs) d = (if d \<in> set xs then Some (g d) else None)"
    for g :: "identity_dimension \<Rightarrow> ustr list" and xs
    by (induction xs) auto
  then show ?thesis by (simp add: as_dict_def)
qed

lemma as_dict_inj: "as_dict s = as_dict t \<longleftrightarrow> s = t"
proof
  assume "as_dict s = as_dict t"
  then have "map_of (as_dict s) d = map_of (as_dict t) d" for d by simp
  then have "scope_values s d = scope_values t d" for d
    by (metis map_of_as_dict option.distinct(1) option.inject sorted_values_inj)
  then show "s = t" by (rule scope_eqI)
qed simp

subsection \<open>Authority\<close>

record authority_grant =
  gr_scope :: identity_scope
  gr_operations :: "operation_class fset"

definition make_grant :: "identity_scope \<Rightarrow> operation_class fset \<Rightarrow> authority_grant result" where
  "make_grant s ops =
     (if ops = {||} then Inl (ValueError (lit ''authority grant must allow at least one operation''))
      else Inr \<lparr>gr_scope = s, gr_operations = ops\<rparr>)"

datatype deployment_mode = SINGLE_OWNER | AGENT_READY | MULTI_USER

fun minimum_identity_dimensions :: "deployment_mode \<Rightarrow> identity_dimension fset" where
  "minimum_identity_dimensions SINGLE_OWNER = {||}"
| "minimum_identity_dimensions AGENT_READY = {|AGENT|}"
| "minimum_identity_dimensions MULTI_USER = {|TENANT, USER|}"

fun mode_value :: "deployment_mode \<Rightarrow> ustr" where
  "mode_value SINGLE_OWNER = lit ''single_owner''"
| "mode_value AGENT_READY = lit ''agent_ready''"
| "mode_value MULTI_USER = lit ''multi_user''"

record caller_authority =
  ca_mode :: deployment_mode
  ca_grant :: authority_grant

definition required_list :: "identity_dimension fset \<Rightarrow> identity_dimension list" where
  "required_list ds = filter (\<lambda>d. d |\<in>| ds) dimension_order"

lemma set_required_list [simp]: "set (required_list ds) = fset ds"
  by (auto simp: required_list_def)

definition authority_for_authenticated_scope ::
  "deployment_mode \<Rightarrow> identity_scope \<Rightarrow> operation_class fset \<Rightarrow> caller_authority result" where
  "authority_for_authenticated_scope mode s ops =
     (case filter (\<lambda>d. fcard (scope_values s d) \<noteq> 1) (required_list (minimum_identity_dimensions mode)) of
        d # _ \<Rightarrow> Inl (ValueError (lit ''authenticated caller requires exactly one '' @ dimension_value d
                   @ lit '' for deployment mode '' @ mode_value mode))
      | [] \<Rightarrow> bindE (make_grant s ops) (\<lambda>g. Inr \<lparr>ca_mode = mode, ca_grant = g\<rparr>))"

definition all_operations :: "operation_class fset" where
  "all_operations = {|READ, WRITE, ADMIN_REVIEW, BACKGROUND_REASONING|}"

lemma all_operations [simp]: "x |\<in>| all_operations"
  by (cases x) (simp_all add: all_operations_def)

definition caller_wf :: "unicode_tables \<Rightarrow> caller_authority \<Rightarrow> bool" where
  "caller_wf U c \<longleftrightarrow> scope_wf U (gr_scope (ca_grant c)) \<and> gr_operations (ca_grant c) \<noteq> {||}
     \<and> (\<forall>d. d |\<in>| minimum_identity_dimensions (ca_mode c) \<longrightarrow>
          fcard (scope_values (gr_scope (ca_grant c)) d) = 1)"

lemma caller_wf_required:
  "caller_wf U c \<Longrightarrow> d |\<in>| minimum_identity_dimensions (ca_mode c) \<Longrightarrow>
     \<exists>v. scope_values (gr_scope (ca_grant c)) d = {|v|}"
  unfolding caller_wf_def fcard_1_iff by blast

lemma authority_for_scope_Inr:
  "authority_for_authenticated_scope mode s ops = Inr c \<longleftrightarrow>
     (\<forall>d. d |\<in>| minimum_identity_dimensions mode \<longrightarrow> fcard (scope_values s d) = 1)
     \<and> ops \<noteq> {||} \<and> c = \<lparr>ca_mode = mode, ca_grant = \<lparr>gr_scope = s, gr_operations = ops\<rparr>\<rparr>"
proof -
  let ?bad = "filter (\<lambda>d. fcard (scope_values s d) \<noteq> 1) (required_list (minimum_identity_dimensions mode))"
  have "?bad = [] \<longleftrightarrow> (\<forall>d. d |\<in>| minimum_identity_dimensions mode \<longrightarrow> fcard (scope_values s d) = 1)"
    by (auto simp: filter_empty_conv)
  then show ?thesis
    by (cases ?bad) (auto simp: authority_for_authenticated_scope_def make_grant_def)
qed

lemma authority_for_scope_wf:
  "scope_wf U s \<Longrightarrow> authority_for_authenticated_scope mode s ops = Inr c \<Longrightarrow> caller_wf U c"
  by (auto simp: authority_for_scope_Inr caller_wf_def)

lemma authority_rebuild:
  "caller_wf U c \<Longrightarrow>
   authority_for_authenticated_scope (ca_mode c) (gr_scope (ca_grant c)) (gr_operations (ca_grant c)) = Inr c"
  by (auto simp: authority_for_scope_Inr caller_wf_def)

text \<open>The unscoped owner that stands in for a missing authority.\<close>

definition single_owner :: caller_authority where
  "single_owner =
     \<lparr>ca_mode = SINGLE_OWNER, ca_grant = \<lparr>gr_scope = empty_scope, gr_operations = all_operations\<rparr>\<rparr>"

lemma single_owner_wf [simp]: "caller_wf U single_owner"
  by (auto simp: caller_wf_def single_owner_def scope_wf_def all_operations_def)

end
