(* ===== verification/Tenancy_Policy.thy ===== *)
theory Tenancy_Policy
  imports Tenancy_Models
begin

text \<open>
  Authorization and enforcement: \<^verbatim>\<open>cyberbrain/tenancy/policy.py\<close>, \<^verbatim>\<open>filters.py\<close>,
  \<^verbatim>\<open>attribution.py\<close>, \<^verbatim>\<open>enforcement.py\<close>, \<^verbatim>\<open>runtime.py\<close> and
  \<^verbatim>\<open>cyberbrain/storage/scoping.py\<close>. A field name of a filter or an attribution is the
  \<^verbatim>\<open>value\<close> of an identity dimension, so the model uses the dimension itself
  (\<^verbatim>\<open>session_id\<close> is the payload name of SESSION).
\<close>

subsection \<open>Narrowing a grant to a request\<close>

datatype reason_code =
    OPERATION_NOT_ALLOWED
  | SCOPE_WIDENING identity_dimension
  | REQUIRED_SCOPE_MISSING identity_dimension
  | SCOPE_ALLOWED
  | REQUIRED_STORAGE_FILTER_UNAVAILABLE
  | WRITE_ATTRIBUTION_NOT_SINGLETON
  | ENFORCEMENT_ALLOWED

record authorization_decision =
  ad_allow :: bool
  ad_reason :: reason_code
  ad_scope :: "identity_scope option"

definition denied :: "reason_code \<Rightarrow> authorization_decision" where
  "denied r = \<lparr>ad_allow = False, ad_reason = r, ad_scope = None\<rparr>"

text \<open>The loop over the dimensions that fills \<^verbatim>\<open>effective\<close> or returns a refusal.\<close>

fun narrow :: "identity_scope \<Rightarrow> identity_scope \<Rightarrow> identity_dimension list
    \<Rightarrow> reason_code + (identity_dimension \<times> ustr fset) list" where
  "narrow g r [] = Inr []"
| "narrow g r (d # ds) =
     (let allowed_values = scope_values g d; requested_values = scope_values r d in
      if requested_values \<noteq> {||} then
        (if allowed_values = {||} then Inl (SCOPE_WIDENING d)
         else if \<not> requested_values |\<subseteq>| allowed_values then Inl (SCOPE_WIDENING d)
         else bindE (narrow g r ds) (\<lambda>e. Inr ((d, requested_values) # e)))
      else bindE (narrow g r ds) (\<lambda>e. Inr ((d, allowed_values) # e)))"

definition effective_raw :: "(identity_dimension \<times> ustr fset) list \<Rightarrow> identity_dimension \<Rightarrow> ustr list" where
  "effective_raw e d = (case map_of e d of Some vs \<Rightarrow> sorted_values vs | None \<Rightarrow> [])"

definition decide :: "unicode_tables \<Rightarrow> authority_grant \<Rightarrow> identity_scope \<Rightarrow> operation_class
    \<Rightarrow> identity_dimension fset \<Rightarrow> authorization_decision result" where
  "decide U grant requested_scope operation required_dimensions =
     (if operation |\<notin>| gr_operations grant then Inr (denied OPERATION_NOT_ALLOWED)
      else case narrow (gr_scope grant) requested_scope dimension_order of
          Inl r \<Rightarrow> Inr (denied r)
        | Inr e \<Rightarrow> bindE (make_scope U (effective_raw e)) (\<lambda>effective_scope.
            case filter (\<lambda>d. scope_values effective_scope d = {||}) (required_list required_dimensions) of
              d # _ \<Rightarrow> Inr (denied (REQUIRED_SCOPE_MISSING d))
            | [] \<Rightarrow> Inr \<lparr>ad_allow = True, ad_reason = SCOPE_ALLOWED, ad_scope = Some effective_scope\<rparr>))"

text \<open>The effective values of a dimension: the request, or the grant where nothing is requested.\<close>

definition effective_values :: "identity_scope \<Rightarrow> identity_scope \<Rightarrow> identity_dimension \<Rightarrow> ustr fset" where
  "effective_values g r d = (if scope_values r d \<noteq> {||} then scope_values r d else scope_values g d)"

definition within_grant :: "identity_scope \<Rightarrow> identity_scope \<Rightarrow> bool" where
  "within_grant g r \<longleftrightarrow>
     (\<forall>d. scope_values r d \<noteq> {||} \<longrightarrow> scope_values r d |\<subseteq>| scope_values g d)"

lemma narrow_Inr:
  "narrow g r ds = Inr e \<longleftrightarrow>
     (\<forall>d \<in> set ds. scope_values r d \<noteq> {||} \<longrightarrow> scope_values r d |\<subseteq>| scope_values g d)
     \<and> e = map (\<lambda>d. (d, effective_values g r d)) ds"
  by (induction ds arbitrary: e) (auto simp: Let_def effective_values_def split: if_splits)

lemma narrow_Inl:
  "narrow g r ds = Inl c \<Longrightarrow>
     \<exists>d \<in> set ds. c = SCOPE_WIDENING d \<and> \<not> scope_values r d |\<subseteq>| scope_values g d"
  by (induction ds) (auto simp: Let_def bindE_eq_Inl split: if_splits)

lemma effective_raw_map:
  "effective_raw (map (\<lambda>d. (d, f d)) dimension_order) d = sorted_values (f d)"
proof -
  have "map_of (map (\<lambda>d. (d, f d)) ds) d = (if d \<in> set ds then Some (f d) else None)" for ds
    by (induction ds) auto
  from this [of dimension_order] show ?thesis by (simp add: effective_raw_def)
qed

lemma effective_canonical:
  assumes "scope_wf U g" and "scope_wf U r"
  shows "\<exists>s. make_scope U (effective_raw (map (\<lambda>d. (d, effective_values g r d)) dimension_order)) = Inr s
    \<and> (\<forall>d. scope_values s d = effective_values g r d)"
proof -
  have "canonical_id U v" if "v |\<in>| effective_values g r d" for d v
    using assms that by (auto simp: scope_wf_def effective_values_def split: if_splits)
  then have "\<exists>s. make_scope U (effective_raw (map (\<lambda>d. (d, effective_values g r d)) dimension_order)) = Inr s
    \<and> (\<forall>d. scope_values s d = fset_of_list (effective_raw (map (\<lambda>d. (d, effective_values g r d)) dimension_order) d))"
    by (intro make_scope_canonical) (simp add: effective_raw_map)
  then show ?thesis by (simp add: effective_raw_map)
qed

lemma decide_allowed:
  assumes "scope_wf U (gr_scope g)" and "scope_wf U r" and "decide U g r op req = Inr dec"
  shows "ad_allow dec \<longleftrightarrow> op |\<in>| gr_operations g \<and> within_grant (gr_scope g) r
      \<and> (\<forall>d. d |\<in>| req \<longrightarrow> effective_values (gr_scope g) r d \<noteq> {||})"
    and "ad_allow dec \<Longrightarrow> \<exists>s. ad_scope dec = Some s \<and> (\<forall>d. scope_values s d = effective_values (gr_scope g) r d)"
    and "\<not> ad_allow dec \<Longrightarrow> ad_scope dec = None"
proof -
  obtain s where s: "make_scope U (effective_raw (map (\<lambda>d. (d, effective_values (gr_scope g) r d)) dimension_order)) = Inr s"
    and sv: "\<And>d. scope_values s d = effective_values (gr_scope g) r d"
    using effective_canonical [OF assms(1,2)] by blast
  let ?bad = "filter (\<lambda>d. scope_values s d = {||}) (required_list req)"
  have bad: "?bad = [] \<longleftrightarrow> (\<forall>d. d |\<in>| req \<longrightarrow> effective_values (gr_scope g) r d \<noteq> {||})"
    by (auto simp: filter_empty_conv sv)
  have "(ad_allow dec \<longleftrightarrow> op |\<in>| gr_operations g \<and> within_grant (gr_scope g) r
      \<and> (\<forall>d. d |\<in>| req \<longrightarrow> effective_values (gr_scope g) r d \<noteq> {||}))
    \<and> (ad_allow dec \<longrightarrow> ad_scope dec = Some s) \<and> (\<not> ad_allow dec \<longrightarrow> ad_scope dec = None)"
  proof (cases "op |\<in>| gr_operations g")
    case False
    with assms(3) show ?thesis by (auto simp: decide_def denied_def)
  next
    case True
    show ?thesis
    proof (cases "narrow (gr_scope g) r dimension_order")
      case (Inl c)
      with narrow_Inl [OF Inl] True assms(3) show ?thesis
        by (auto simp: decide_def denied_def within_grant_def)
    next
      case (Inr e)
      then have e: "e = map (\<lambda>d. (d, effective_values (gr_scope g) r d)) dimension_order"
        and w: "within_grant (gr_scope g) r"
        by (auto simp: narrow_Inr within_grant_def)
      show ?thesis
      proof (cases ?bad)
        case Nil
        with Inr True assms(3) s w bad show ?thesis by (auto simp: decide_def e)
      next
        case (Cons x xs)
        with bad have "\<not> (\<forall>d. d |\<in>| req \<longrightarrow> effective_values (gr_scope g) r d \<noteq> {||})" by simp
        with Cons Inr True assms(3) s show ?thesis by (auto simp: decide_def e denied_def)
      qed
    qed
  qed
  then show "ad_allow dec \<longleftrightarrow> op |\<in>| gr_operations g \<and> within_grant (gr_scope g) r
      \<and> (\<forall>d. d |\<in>| req \<longrightarrow> effective_values (gr_scope g) r d \<noteq> {||})"
    and "ad_allow dec \<Longrightarrow> \<exists>s. ad_scope dec = Some s \<and> (\<forall>d. scope_values s d = effective_values (gr_scope g) r d)"
    and "\<not> ad_allow dec \<Longrightarrow> ad_scope dec = None"
    using sv by blast+
qed

lemma decide_total:
  assumes "scope_wf U (gr_scope g)" and "scope_wf U r"
  shows "\<exists>dec. decide U g r op req = Inr dec"
proof (cases "op |\<in>| gr_operations g")
  case True
  show ?thesis
  proof (cases "narrow (gr_scope g) r dimension_order")
    case (Inr e)
    then have e: "e = map (\<lambda>d. (d, effective_values (gr_scope g) r d)) dimension_order"
      by (simp add: narrow_Inr)
    obtain s where "make_scope U (effective_raw e) = Inr s"
      using effective_canonical [OF assms] e by blast
    with True Inr show ?thesis by (auto simp: decide_def split: list.split)
  qed (use True in \<open>simp add: decide_def\<close>)
qed (simp add: decide_def)

lemma effective_subset:
  "within_grant g r \<Longrightarrow> effective_values g r d |\<subseteq>| scope_values g d"
  by (auto simp: within_grant_def effective_values_def)

subsection \<open>Storage filters and write attribution\<close>

datatype filter_operator = OP_EQ | OP_IN

record filter_condition =
  fc_field :: identity_dimension
  fc_operator :: filter_operator
  fc_values :: "ustr list"

text \<open>The loop of \<^verbatim>\<open>build_storage_filter\<close>; a missing required dimension raises.\<close>

fun storage_conditions :: "identity_scope \<Rightarrow> identity_dimension fset \<Rightarrow> identity_dimension list
    \<Rightarrow> filter_condition list result" where
  "storage_conditions s required [] = Inr []"
| "storage_conditions s required (d # ds) =
     (let vs = scope_values s d in
      if d |\<in>| required \<and> vs = {||}
      then Inl (ValueError (lit ''required scope missing: '' @ dimension_value d))
      else if vs = {||} then storage_conditions s required ds
      else let sorted_vs = sorted_values vs;
               operator = (if length sorted_vs = 1 then OP_EQ else OP_IN)
           in bindE (storage_conditions s required ds) (\<lambda>cs.
                Inr (\<lparr>fc_field = d, fc_operator = operator, fc_values = sorted_vs\<rparr> # cs)))"

definition build_storage_filter :: "identity_scope \<Rightarrow> identity_dimension fset \<Rightarrow> filter_condition list result" where
  "build_storage_filter s required =
     bindE (storage_conditions s required dimension_order) (\<lambda>cs.
       let missing = filter (\<lambda>d. d \<notin> set (map fc_field cs)) (required_list required) in
       if missing \<noteq> []
       then Inl (ValueError (lit ''storage filter omitted required dimensions: '' @ concat (map dimension_value missing)))
       else Inr cs)"

lemma storage_conditions_set:
  "storage_conditions s req ds = Inr cs \<Longrightarrow>
     set cs = (\<lambda>d. \<lparr>fc_field = d,
        fc_operator = if length (sorted_values (scope_values s d)) = 1 then OP_EQ else OP_IN,
        fc_values = sorted_values (scope_values s d)\<rparr>) ` {d \<in> set ds. scope_values s d \<noteq> {||}}"
proof (induction ds arbitrary: cs)
  case (Cons d ds)
  show ?case
  proof (cases "scope_values s d = {||}")
    case True
    then have "{x \<in> set (d # ds). scope_values s x \<noteq> {||}} = {x \<in> set ds. scope_values s x \<noteq> {||}}"
      by auto
    with True Cons show ?thesis by (auto simp only: storage_conditions.simps Let_def split: if_splits)
  next
    case False
    then have "{x \<in> set (d # ds). scope_values s x \<noteq> {||}} = insert d {x \<in> set ds. scope_values s x \<noteq> {||}}"
      by auto
    moreover from False Cons.prems obtain cs' where "storage_conditions s req ds = Inr cs'"
      and "cs = \<lparr>fc_field = d,
        fc_operator = if length (sorted_values (scope_values s d)) = 1 then OP_EQ else OP_IN,
        fc_values = sorted_values (scope_values s d)\<rparr> # cs'"
      by (auto simp: Let_def)
    ultimately show ?thesis using Cons.IH by simp
  qed
qed simp

lemma storage_conditions_Inr:
  "(\<exists>cs. storage_conditions s req ds = Inr cs) \<longleftrightarrow>
     (\<forall>d \<in> set ds. d |\<in>| req \<longrightarrow> scope_values s d \<noteq> {||})"
  by (induction ds) (auto simp: Let_def)

lemma build_storage_filter_Inr:
  "build_storage_filter s req = Inr cs \<longleftrightarrow> storage_conditions s req dimension_order = Inr cs"
proof (cases "storage_conditions s req dimension_order")
  case (Inr ds)
  from Inr have r: "d |\<in>| req \<Longrightarrow> scope_values s d \<noteq> {||}" for d
    using storage_conditions_Inr [of s req dimension_order] by auto
  have "filter (\<lambda>d. d \<notin> set (map fc_field ds)) (required_list req) = []"
    using r by (auto simp: filter_empty_conv storage_conditions_set [OF Inr] image_image)
  with Inr show ?thesis by (auto simp: build_storage_filter_def)
qed (auto simp: build_storage_filter_def)

text \<open>\<^verbatim>\<open>build_write_attribution\<close>: every constrained dimension must have one value.\<close>

fun attribution_values :: "identity_scope \<Rightarrow> identity_dimension fset \<Rightarrow> identity_dimension list
    \<Rightarrow> (identity_dimension \<times> ustr) list result" where
  "attribution_values s required [] = Inr []"
| "attribution_values s required (d # ds) =
     (let scoped = sorted_values (scope_values s d) in
      if d |\<in>| required \<and> scoped = []
      then Inl (ValueError (lit ''required write attribution missing: '' @ dimension_value d))
      else case scoped of
          [] \<Rightarrow> attribution_values s required ds
        | v # others \<Rightarrow>
            if others \<noteq> []
            then Inl (ValueError (lit ''write attribution must resolve one value for '' @ dimension_value d))
            else bindE (attribution_values s required ds) (\<lambda>vs. Inr ((d, v) # vs)))"

definition build_write_attribution :: "identity_scope \<Rightarrow> identity_dimension fset
    \<Rightarrow> (identity_dimension \<times> ustr) list result" where
  "build_write_attribution s required = attribution_values s required dimension_order"

lemma attribution_map_of:
  "attribution_values s req ds = Inr wa \<Longrightarrow> distinct ds \<Longrightarrow>
     map_of wa d = (if d \<in> set ds \<and> scope_values s d \<noteq> {||}
                    then Some (the_elem (fset (scope_values s d))) else None)
     \<and> (d \<in> set ds \<longrightarrow> scope_values s d \<noteq> {||} \<longrightarrow> (\<exists>v. scope_values s d = {|v|}))"
proof (induction ds arbitrary: wa)
  case (Cons a ds)
  show ?case
  proof (cases "sorted_values (scope_values s a)")
    case Nil
    then have "scope_values s a = {||}" by simp
    with Cons show ?thesis by (auto simp: Let_def split: if_splits)
  next
    case (Cons v others)
    note vs = this
    with Cons.prems obtain ws where ws: "attribution_values s req ds = Inr ws" "wa = (a, v) # ws"
      and "others = []" by (auto simp: Let_def split: if_splits)
    with vs have a: "scope_values s a = {|v|}"
      by (metis fset_of_list_simps fset_of_sorted_values)
    with Cons.IH [OF ws(1)] Cons.prems(2) ws(2) show ?thesis by auto
  qed
qed simp

subsection \<open>Enforcement plans\<close>

datatype tenancy_operation =
    KNOWLEDGE_SEARCH | MEMORY_SEARCH | KNOWLEDGE_GET | MEMORY_GET | KNOWLEDGE_TIMELINE
  | KNOWLEDGE_WRITE | MEMORY_WRITE | BACKGROUND_EVIDENCE_READ

record operation_spec =
  os_class :: operation_class
  os_storage_filter :: bool
  os_write_attribution :: bool

definition mk_spec :: "operation_class \<Rightarrow> bool \<Rightarrow> bool \<Rightarrow> operation_spec" where
  "mk_spec c f w = \<lparr>os_class = c, os_storage_filter = f, os_write_attribution = w\<rparr>"

fun operation_specs :: "tenancy_operation \<Rightarrow> operation_spec" where
  "operation_specs KNOWLEDGE_SEARCH = mk_spec READ True False"
| "operation_specs MEMORY_SEARCH = mk_spec READ True False"
| "operation_specs KNOWLEDGE_GET = mk_spec READ True False"
| "operation_specs MEMORY_GET = mk_spec READ True False"
| "operation_specs KNOWLEDGE_TIMELINE = mk_spec READ True False"
| "operation_specs KNOWLEDGE_WRITE = mk_spec WRITE False True"
| "operation_specs MEMORY_WRITE = mk_spec WRITE False True"
| "operation_specs BACKGROUND_EVIDENCE_READ = mk_spec BACKGROUND_REASONING True False"

record enforcement_plan =
  ep_operation :: tenancy_operation
  ep_class :: operation_class
  ep_allow :: bool
  ep_reason :: reason_code
  ep_required :: "identity_dimension fset"
  ep_scope :: "identity_scope option"
  ep_filter :: "filter_condition list option"
  ep_attribution :: "(identity_dimension \<times> ustr) list option"

definition refused_plan :: "tenancy_operation \<Rightarrow> identity_dimension fset \<Rightarrow> reason_code \<Rightarrow> enforcement_plan" where
  "refused_plan op req r =
     \<lparr>ep_operation = op, ep_class = os_class (operation_specs op), ep_allow = False, ep_reason = r,
      ep_required = req, ep_scope = None, ep_filter = None, ep_attribution = None\<rparr>"

text \<open>
  The storage filter stage and the attribution stage of \<^verbatim>\<open>plan_enforcement\<close>: \<open>Inl\<close> is
  the early return of a refused plan.
\<close>

definition filter_stage :: "operation_spec \<Rightarrow> identity_scope \<Rightarrow> identity_dimension fset
    \<Rightarrow> reason_code + filter_condition list option" where
  "filter_stage spec s req =
     (if os_storage_filter spec then
        (case build_storage_filter s req of
           Inl _ \<Rightarrow> Inl REQUIRED_STORAGE_FILTER_UNAVAILABLE
         | Inr cs \<Rightarrow>
             if \<not> set (required_list req) \<subseteq> set (map fc_field cs)
             then Inl REQUIRED_STORAGE_FILTER_UNAVAILABLE else Inr (Some cs))
      else Inr None)"

definition attribution_stage :: "operation_spec \<Rightarrow> identity_scope \<Rightarrow> identity_dimension fset
    \<Rightarrow> reason_code + (identity_dimension \<times> ustr) list option" where
  "attribution_stage spec s req =
     (if os_write_attribution spec then
        (case build_write_attribution s req of
           Inl _ \<Rightarrow> Inl WRITE_ATTRIBUTION_NOT_SINGLETON
         | Inr wa \<Rightarrow> Inr (Some wa))
      else Inr None)"

definition plan_enforcement :: "unicode_tables \<Rightarrow> caller_authority \<Rightarrow> tenancy_operation
    \<Rightarrow> identity_scope \<Rightarrow> enforcement_plan result" where
  "plan_enforcement U authority op requested_scope =
     (let spec = operation_specs op;
          required_dimensions = minimum_identity_dimensions (ca_mode authority)
      in bindE (decide U (ca_grant authority) requested_scope (os_class spec) required_dimensions) (\<lambda>decision.
        case ad_scope decision of
          None \<Rightarrow> Inr (refused_plan op required_dimensions (ad_reason decision))
        | Some effective_scope \<Rightarrow>
            if \<not> ad_allow decision
            then Inr (refused_plan op required_dimensions (ad_reason decision))
            else case filter_stage spec effective_scope required_dimensions of
                Inl r \<Rightarrow> Inr (refused_plan op required_dimensions r)
              | Inr storage_filter \<Rightarrow>
                  (case attribution_stage spec effective_scope required_dimensions of
                     Inl r \<Rightarrow> Inr (refused_plan op required_dimensions r)
                   | Inr write_attribution \<Rightarrow>
                       Inr \<lparr>ep_operation = op, ep_class = os_class spec, ep_allow = True,
                            ep_reason = ENFORCEMENT_ALLOWED, ep_required = required_dimensions,
                            ep_scope = Some effective_scope, ep_filter = storage_filter,
                            ep_attribution = write_attribution\<rparr>)))"

lemma plan_allowed:
  assumes "caller_wf U c" and "scope_wf U r" and "plan_enforcement U c op r = Inr plan" and "ep_allow plan"
  shows "within_grant (gr_scope (ca_grant c)) r"
    and "os_class (operation_specs op) |\<in>| gr_operations (ca_grant c)"
    and "\<exists>s. ep_scope plan = Some s \<and> (\<forall>d. scope_values s d = effective_values (gr_scope (ca_grant c)) r d)
      \<and> filter_stage (operation_specs op) s (minimum_identity_dimensions (ca_mode c)) = Inr (ep_filter plan)
      \<and> attribution_stage (operation_specs op) s (minimum_identity_dimensions (ca_mode c)) = Inr (ep_attribution plan)"
proof -
  let ?req = "minimum_identity_dimensions (ca_mode c)"
  have wf: "scope_wf U (gr_scope (ca_grant c))" using assms(1) by (simp add: caller_wf_def)
  obtain dec where dec: "decide U (ca_grant c) r (os_class (operation_specs op)) ?req = Inr dec"
    using decide_total [OF wf assms(2)] by blast
  from assms(3,4) dec obtain s where al: "ad_allow dec" and s: "ad_scope dec = Some s"
    and st: "filter_stage (operation_specs op) s ?req = Inr (ep_filter plan)"
      "attribution_stage (operation_specs op) s ?req = Inr (ep_attribution plan)" "ep_scope plan = Some s"
    by (auto simp: plan_enforcement_def Let_def refused_plan_def split: option.splits sum.splits if_splits)
  note d = decide_allowed [OF wf assms(2) dec]
  from al d(1) show "within_grant (gr_scope (ca_grant c)) r"
    and "os_class (operation_specs op) |\<in>| gr_operations (ca_grant c)" by simp_all
  from d(2) [OF al] s st show "\<exists>s. ep_scope plan = Some s \<and> (\<forall>d. scope_values s d = effective_values (gr_scope (ca_grant c)) r d)
      \<and> filter_stage (operation_specs op) s ?req = Inr (ep_filter plan)
      \<and> attribution_stage (operation_specs op) s ?req = Inr (ep_attribution plan)"
    by auto
qed

lemma filter_stage_conditions:
  assumes "filter_stage spec s req = Inr (Some cs)"
  shows "storage_conditions s req dimension_order = Inr cs"
  using assms by (auto simp: filter_stage_def build_storage_filter_Inr split: if_splits sum.splits)

lemma attribution_stage_map_of:
  assumes "attribution_stage spec s req = Inr (Some wa)"
  shows "map_of wa d = (if scope_values s d \<noteq> {||} then Some (the_elem (fset (scope_values s d))) else None)"
    and "scope_values s d \<noteq> {||} \<Longrightarrow> \<exists>v. scope_values s d = {|v|}"
proof -
  have "attribution_values s req dimension_order = Inr wa"
    using assms by (auto simp: attribution_stage_def build_write_attribution_def split: if_splits sum.splits)
  from attribution_map_of [OF this, of d]
  show "map_of wa d = (if scope_values s d \<noteq> {||} then Some (the_elem (fset (scope_values s d))) else None)"
    and "scope_values s d \<noteq> {||} \<Longrightarrow> \<exists>v. scope_values s d = {|v|}"
    by simp_all
qed

lemma filter_stage_total:
  assumes "\<And>d. d |\<in>| req \<Longrightarrow> scope_values s d \<noteq> {||}"
  shows "\<exists>f. filter_stage spec s req = Inr f"
proof -
  obtain cs where cs: "storage_conditions s req dimension_order = Inr cs"
    using storage_conditions_Inr [of s req dimension_order] assms by auto
  have "fset req \<subseteq> fc_field ` set cs"
    using assms by (auto simp: storage_conditions_set [OF cs] image_image)
  with cs show ?thesis by (auto simp: filter_stage_def build_storage_filter_Inr [THEN iffD2])
qed

lemma plan_read_allowed:
  assumes "caller_wf U c" and "os_class (operation_specs op) |\<in>| gr_operations (ca_grant c)"
    and "\<not> os_write_attribution (operation_specs op)"
  shows "\<exists>plan. plan_enforcement U c op empty_scope = Inr plan \<and> ep_allow plan"
proof -
  let ?g = "gr_scope (ca_grant c)" and ?req = "minimum_identity_dimensions (ca_mode c)"
  have wf: "scope_wf U ?g" using assms(1) by (simp add: caller_wf_def)
  have we: "scope_wf U empty_scope" by (simp add: scope_wf_def)
  have eff: "effective_values ?g empty_scope d = scope_values ?g d" for d
    by (simp add: effective_values_def)
  have ne: "scope_values ?g d \<noteq> {||}" if "d |\<in>| ?req" for d
    using caller_wf_required [OF assms(1) that] by auto
  obtain dec where dec: "decide U (ca_grant c) empty_scope (os_class (operation_specs op)) ?req = Inr dec"
    using decide_total [OF wf we] by blast
  note d = decide_allowed [OF wf we dec]
  have al: "ad_allow dec" using d(1) assms(2) ne eff by (auto simp: within_grant_def)
  then obtain s where s: "ad_scope dec = Some s" and sv: "\<And>d. scope_values s d = scope_values ?g d"
    using d(2) eff by auto
  obtain f where f: "filter_stage (operation_specs op) s ?req = Inr f"
    using filter_stage_total [of ?req s "operation_specs op"] ne sv by auto
  have "attribution_stage (operation_specs op) s ?req = Inr None"
    using assms(3) by (simp add: attribution_stage_def)
  with dec al s f show ?thesis by (simp add: plan_enforcement_def Let_def)
qed

subsection \<open>Properties\<close>

text \<open>
  C11. Authorization narrows and never widens: for normalized scopes the decision is always
  produced, it allows the call exactly when the operation is granted, every requested value is
  granted and every required dimension has a value, and then the effective scope is the request
  where there is one and the grant elsewhere, always inside the grant.
\<close>

theorem decide_narrows:
  assumes "scope_wf U (gr_scope g)" and "scope_wf U r"
  shows "\<exists>dec. decide U g r op req = Inr dec
    \<and> (ad_allow dec \<longleftrightarrow> op |\<in>| gr_operations g
          \<and> (\<forall>d. scope_values r d |\<subseteq>| scope_values (gr_scope g) d)
          \<and> (\<forall>d. d |\<in>| req \<longrightarrow> scope_values r d \<noteq> {||} \<or> scope_values (gr_scope g) d \<noteq> {||}))
    \<and> (ad_allow dec \<longrightarrow> (\<exists>s. ad_scope dec = Some s
          \<and> (\<forall>d. scope_values s d = (if scope_values r d \<noteq> {||} then scope_values r d else scope_values (gr_scope g) d)
               \<and> scope_values s d |\<subseteq>| scope_values (gr_scope g) d)))
    \<and> (\<not> ad_allow dec \<longrightarrow> ad_scope dec = None)"
proof -
  obtain dec where dec: "decide U g r op req = Inr dec" using decide_total [OF assms] by blast
  note d = decide_allowed [OF assms dec]
  have w: "within_grant (gr_scope g) r \<longleftrightarrow> (\<forall>d. scope_values r d |\<subseteq>| scope_values (gr_scope g) d)"
    by (auto simp: within_grant_def)
  have e: "effective_values (gr_scope g) r d \<noteq> {||} \<longleftrightarrow> scope_values r d \<noteq> {||} \<or> scope_values (gr_scope g) d \<noteq> {||}" for d
    by (simp add: effective_values_def)
  show ?thesis
  proof (intro exI [of _ dec] conjI dec impI)
    show "ad_allow dec \<longleftrightarrow> op |\<in>| gr_operations g
          \<and> (\<forall>d. scope_values r d |\<subseteq>| scope_values (gr_scope g) d)
          \<and> (\<forall>d. d |\<in>| req \<longrightarrow> scope_values r d \<noteq> {||} \<or> scope_values (gr_scope g) d \<noteq> {||})"
      using d(1) unfolding w e .
    show "ad_scope dec = None" if "\<not> ad_allow dec" using that by (rule d(3))
    assume al: "ad_allow dec"
    with d(1) have wg: "within_grant (gr_scope g) r" by simp
    from d(2) [OF al] obtain s where s: "ad_scope dec = Some s"
      "\<And>d. scope_values s d = effective_values (gr_scope g) r d" by blast
    with effective_subset [OF wg] show "\<exists>s. ad_scope dec = Some s
          \<and> (\<forall>d. scope_values s d = (if scope_values r d \<noteq> {||} then scope_values r d else scope_values (gr_scope g) d)
               \<and> scope_values s d |\<subseteq>| scope_values (gr_scope g) d)"
      by (simp add: effective_values_def)
  qed
qed

definition example_scope :: "ustr \<Rightarrow> ustr \<Rightarrow> identity_scope" where
  "example_scope t u = empty_scope\<lparr>sc_tenant := {|t|}, sc_user := {|u|}\<rparr>"

lemma example_scope_values:
  "scope_values (example_scope t u) d =
     (case d of TENANT \<Rightarrow> {|t|} | USER \<Rightarrow> {|u|} | _ \<Rightarrow> {||})"
  by (cases d) (simp_all add: example_scope_def empty_scope_def)

lemma example_scope_fields [simp]:
  "sc_tenant (example_scope t u) = {|t|}" "sc_user (example_scope t u) = {|u|}"
  "sc_agent (example_scope t u) = {||}" "sc_project (example_scope t u) = {||}"
  "sc_session (example_scope t u) = {||}"
  by (simp_all add: example_scope_def)

lemma canonical_id_ascii: "c \<in> {97..122} \<Longrightarrow> canonical_id ascii_tables [c]"
  by (auto simp: canonical_id_def normalize_identifier_def ascii_tables_def py_strip_def py_lstrip_def
      py_rstrip_def py_space_def reserved_identifiers_def lit_def)

lemma example_scope_wf:
  "t \<in> {97..122} \<Longrightarrow> u \<in> {97..122} \<Longrightarrow> scope_wf ascii_tables (example_scope [t] [u])"
  by (auto simp: scope_wf_def example_scope_values canonical_id_ascii split: identity_dimension.splits)

theorem decide_narrows_witness:
  "(\<exists>dec. decide ascii_tables \<lparr>gr_scope = example_scope [97] [98], gr_operations = {|READ|}\<rparr>
      empty_scope READ {|TENANT|} = Inr dec \<and> ad_allow dec)
   \<and> (\<exists>dec. decide ascii_tables \<lparr>gr_scope = example_scope [97] [98], gr_operations = {|READ|}\<rparr>
      (example_scope [99] [98]) READ {|TENANT|} = Inr dec \<and> \<not> ad_allow dec)"
proof -
  let ?g = "\<lparr>gr_scope = example_scope [97] [98], gr_operations = {|READ|}\<rparr>"
  have wf: "scope_wf ascii_tables (gr_scope ?g)" using example_scope_wf [of 97 98] by simp
  have we: "scope_wf ascii_tables empty_scope" by (simp add: scope_wf_def)
  have wr: "scope_wf ascii_tables (example_scope [99] [98])" using example_scope_wf [of 99 98] by simp
  have n: "\<not> scope_values (example_scope [99] [98]) TENANT |\<subseteq>| scope_values (gr_scope ?g) TENANT" by simp
  obtain d1 where "decide ascii_tables ?g empty_scope READ {|TENANT|} = Inr d1" "ad_allow d1"
    using decide_narrows [OF wf we, of READ "{|TENANT|}"] by auto
  moreover obtain d2 where "decide ascii_tables ?g (example_scope [99] [98]) READ {|TENANT|} = Inr d2"
    "\<not> ad_allow d2"
    using decide_narrows [OF wf wr, of READ "{|TENANT|}"] n by blast
  ultimately show ?thesis by blast
qed

end
