(* ===== verification/Tenancy_Runtime.thy ===== *)
theory Tenancy_Runtime
  imports Tenancy_Policy
begin

text \<open>
  The entry points the services call: \<^verbatim>\<open>enforce_operation\<close>, \<^verbatim>\<open>scoped_values\<close> and
  \<^verbatim>\<open>scope_conditions\<close> of \<^verbatim>\<open>cyberbrain/tenancy/runtime.py\<close> with
  \<^verbatim>\<open>cyberbrain/storage/scoping.py\<close>, and what they promise together: a scoped caller reads
  and writes only inside its grant. The caller is the bound authority (\<^verbatim>\<open>None\<close>: an internal
  call). The identity fields of a record are a map from dimensions to values; its other
  fields play no part here.
\<close>

type_synonym identity_values = "identity_dimension \<rightharpoonup> ustr"

subsection \<open>Enforcement of one operation\<close>

fun normalize_selectors :: "unicode_tables \<Rightarrow> identity_scope \<Rightarrow> identity_values
    \<Rightarrow> identity_dimension list \<Rightarrow> (identity_dimension \<times> ustr) list result" where
  "normalize_selectors U g sel [] = Inr []"
| "normalize_selectors U g sel (d # ds) =
     (case sel d of
        None \<Rightarrow> normalize_selectors U g sel ds
      | Some value \<Rightarrow> bindE (normalize_identifier U value) (\<lambda>normalized.
          bindE (normalize_selectors U g sel ds) (\<lambda>requested.
            Inr (if scope_values g d \<noteq> {||} then (d, normalized) # requested else requested))))"

definition requested_raw :: "(identity_dimension \<times> ustr) list \<Rightarrow> identity_dimension \<Rightarrow> ustr list" where
  "requested_raw req d = (case map_of req d of None \<Rightarrow> [] | Some v \<Rightarrow> [v])"

definition enforce_operation :: "unicode_tables \<Rightarrow> caller_authority option \<Rightarrow> tenancy_operation
    \<Rightarrow> identity_values \<Rightarrow> enforcement_plan option result" where
  "enforce_operation U caller op sel =
     (case caller of
        None \<Rightarrow> Inr None
      | Some c \<Rightarrow>
          bindE (normalize_selectors U (gr_scope (ca_grant c)) sel dimension_order) (\<lambda>requested.
          bindE (make_scope U (requested_raw requested)) (\<lambda>r.
          bindE (plan_enforcement U c op r) (\<lambda>plan.
            if \<not> ep_allow plan
            then Inl (ConfigurationError (lit ''caller scope does not allow this operation''))
            else Inr (Some plan)))))"

text \<open>The selector loop, dimension by dimension.\<close>

lemma normalize_selectors_Inr:
  "normalize_selectors U g sel ds = Inr req \<Longrightarrow> distinct ds \<Longrightarrow>
     (\<forall>d \<in> set ds. \<forall>v. sel d = Some v \<longrightarrow>
        (\<exists>n. normalize_identifier U v = Inr n \<and> map_of req d = (if scope_values g d \<noteq> {||} then Some n else None)))
     \<and> (\<forall>d. d \<notin> set ds \<or> sel d = None \<longrightarrow> map_of req d = None)"
proof (induction ds arbitrary: req)
  case (Cons a ds)
  show ?case
  proof (cases "sel a")
    case None
    with Cons show ?thesis by auto
  next
    case (Some v)
    with Cons.prems obtain n rs where n: "normalize_identifier U v = Inr n"
      and rs: "normalize_selectors U g sel ds = Inr rs"
      and req: "req = (if scope_values g a \<noteq> {||} then (a, n) # rs else rs)" by auto
    from Cons.prems(2) have "distinct ds" "a \<notin> set ds" by auto
    with Cons.IH [OF rs] n req Some show ?thesis by auto
  qed
qed simp

lemma enforce_plan:
  assumes U: "nfc_stable U" and c: "caller_wf U c"
    and e: "enforce_operation U (Some c) op sel = Inr (Some plan)"
  obtains r where "plan_enforcement U c op r = Inr plan" and "ep_allow plan" and "scope_wf U r"
    and "\<And>d. sel d = None \<Longrightarrow> scope_values r d = {||}"
    and "\<And>d v. sel d = Some v \<Longrightarrow> \<exists>n. normalize_identifier U v = Inr n
        \<and> scope_values r d = (if scope_values (gr_scope (ca_grant c)) d \<noteq> {||} then {|n|} else {||})"
proof -
  let ?g = "gr_scope (ca_grant c)"
  from e obtain req r where req: "normalize_selectors U ?g sel dimension_order = Inr req"
    and r: "make_scope U (requested_raw req) = Inr r"
    and p: "plan_enforcement U c op r = Inr plan" "ep_allow plan"
    by (auto simp: enforce_operation_def split: if_splits)
  note s = normalize_selectors_Inr [OF req distinct_dimension_order]
  have wf: "scope_wf U r" by (rule make_scope_wf [OF U r])
  have vals: "normalize_values U (requested_raw req d) = Inr (scope_values r d)" for d
    by (rule make_scope_values [OF r])
  have none: "scope_values r d = {||}" if "map_of req d = None" for d
    using vals [of d] that by (simp add: requested_raw_def normalize_values_def)
  show thesis
  proof (rule that [OF p wf])
    fix d assume "sel d = None"
    with s have "map_of req d = None" by blast
    then show "scope_values r d = {||}" by (rule none)
  next
    fix d v assume "sel d = Some v"
    with s obtain n where n: "normalize_identifier U v = Inr n"
      "map_of req d = (if scope_values ?g d \<noteq> {||} then Some n else None)" by fastforce
    have "canonical_id U n" by (rule normalize_identifier_idem [OF U n(1)])
    then have "normalize_values U [n] = Inr {|n|}"
      using normalize_values_canonical [of "[n]" U] by simp
    then have "scope_values ?g d \<noteq> {||} \<Longrightarrow> scope_values r d = {|n|}"
      using vals [of d] n(2) by (simp add: requested_raw_def)
    with n none [of d] show "\<exists>n. normalize_identifier U v = Inr n
        \<and> scope_values r d = (if scope_values ?g d \<noteq> {||} then {|n|} else {||})"
      by auto
  qed
qed

subsection \<open>Attributed writes\<close>

definition normalize_fields :: "unicode_tables \<Rightarrow> identity_values \<Rightarrow> identity_values result" where
  "normalize_fields U m =
     bindE (mapE (\<lambda>d. case m d of
                        None \<Rightarrow> Inr (d, None)
                      | Some v \<Rightarrow> bindE (normalize_identifier U v) (\<lambda>n. Inr (d, Some n))) dimension_order)
       (\<lambda>ps. Inr (\<lambda>d. Option.bind (map_of ps d) (\<lambda>x. x)))"

definition scoped_values :: "unicode_tables \<Rightarrow> caller_authority option \<Rightarrow> tenancy_operation
    \<Rightarrow> identity_values \<Rightarrow> identity_values result" where
  "scoped_values U caller op values =
     bindE (enforce_operation U caller op values) (\<lambda>plan.
       case plan of
         None \<Rightarrow> Inr values
       | Some p \<Rightarrow>
           (let attributed = (case ep_attribution p of None \<Rightarrow> values | Some wa \<Rightarrow> values ++ map_of wa)
            in normalize_fields U attributed))"

lemma normalize_fields_Inr:
  assumes "normalize_fields U m = Inr m'"
  shows "m d = None \<Longrightarrow> m' d = None"
    and "m d = Some v \<Longrightarrow> \<exists>n. normalize_identifier U v = Inr n \<and> m' d = Some n"
proof -
  let ?f = "\<lambda>d. case m d of None \<Rightarrow> Inr (d, None)
      | Some v \<Rightarrow> bindE (normalize_identifier U v) (\<lambda>n. Inr (d, Some n))"
  have *: "mapE ?f ds = Inr ps \<Longrightarrow> distinct ds \<Longrightarrow> d \<in> set ds \<Longrightarrow>
      (m d = None \<longrightarrow> map_of ps d = Some None)
      \<and> (\<forall>v. m d = Some v \<longrightarrow> (\<exists>n. normalize_identifier U v = Inr n \<and> map_of ps d = Some (Some n)))" for ds ps d
  proof (induction ds arbitrary: ps)
    case (Cons a ds)
    then show ?case by (cases "m a") auto
  qed simp
  from assms obtain ps where ps: "mapE ?f dimension_order = Inr ps"
    and m': "m' = (\<lambda>d. Option.bind (map_of ps d) (\<lambda>x. x))" by (auto simp: normalize_fields_def)
  from * [OF ps distinct_dimension_order] m'
  show "m d = None \<Longrightarrow> m' d = None"
    and "m d = Some v \<Longrightarrow> \<exists>n. normalize_identifier U v = Inr n \<and> m' d = Some n"
    by fastforce+
qed

subsection \<open>Conditions for the repository\<close>

datatype repo_condition = MatchValue identity_dimension ustr | MatchAny identity_dimension "ustr list"

definition repository_condition :: "filter_condition \<Rightarrow> repo_condition result" where
  "repository_condition c =
     (case fc_operator c of
        OP_EQ \<Rightarrow> (case fc_values c of
            [] \<Rightarrow> Inl (IndexError (lit ''tuple index out of range''))
          | v # _ \<Rightarrow> Inr (MatchValue (fc_field c) v))
      | OP_IN \<Rightarrow> Inr (MatchAny (fc_field c) (fc_values c)))"

definition storage_filter_to_repository_filter :: "filter_condition list \<Rightarrow> identity_dimension fset option
    \<Rightarrow> repo_condition list option result" where
  "storage_filter_to_repository_filter cs include_fields =
     bindE (mapE repository_condition
        (filter (\<lambda>c. case include_fields of None \<Rightarrow> True | Some fs \<Rightarrow> fc_field c |\<in>| fs) cs))
       (\<lambda>ks. Inr (if ks = [] then None else Some ks))"

definition scope_conditions :: "enforcement_plan option \<Rightarrow> repo_condition list result" where
  "scope_conditions plan =
     (case plan of
        None \<Rightarrow> Inr []
      | Some p \<Rightarrow>
          (case ep_filter p of
             None \<Rightarrow> Inr []
           | Some cs \<Rightarrow> bindE (storage_filter_to_repository_filter cs None)
               (\<lambda>q. Inr (case q of None \<Rightarrow> [] | Some ks \<Rightarrow> ks))))"

text \<open>
  The repository is a Qdrant server. What the code relies on: a \<^verbatim>\<open>match\<close> condition on a
  keyword field selects exactly the points whose field has (one of) the given values.
\<close>

definition keyword_match :: "(repo_condition \<Rightarrow> identity_values \<Rightarrow> bool) \<Rightarrow> bool" where
  "keyword_match M \<longleftrightarrow>
     (\<forall>d v p. M (MatchValue d v) p \<longleftrightarrow> p d = Some v)
     \<and> (\<forall>d vs p. M (MatchAny d vs) p \<longleftrightarrow> (\<exists>v \<in> set vs. p d = Some v))"

fun payload_match :: "repo_condition \<Rightarrow> identity_values \<Rightarrow> bool" where
  "payload_match (MatchValue d v) p \<longleftrightarrow> p d = Some v"
| "payload_match (MatchAny d vs) p \<longleftrightarrow> list_ex (\<lambda>v. p d = Some v) vs"

lemma keyword_match_payload [simp]: "keyword_match payload_match"
  by (auto simp: keyword_match_def list_ex_iff)

lemma repository_condition_match:
  assumes M: "keyword_match M" and k: "repository_condition c = Inr k"
    and c: "fc_operator c = (if length (fc_values c) = 1 then OP_EQ else OP_IN)"
  shows "M k p \<longleftrightarrow> (\<exists>v \<in> set (fc_values c). p (fc_field c) = Some v)"
proof (cases "length (fc_values c) = 1")
  case True
  then obtain v where "fc_values c = [v]" by (auto simp: length_Suc_conv)
  with k c M show ?thesis by (auto simp: repository_condition_def keyword_match_def)
next
  case False
  with k c have "k = MatchAny (fc_field c) (fc_values c)" by (auto simp: repository_condition_def)
  with M show ?thesis by (simp add: keyword_match_def)
qed

text \<open>What a plan's conditions select: for every constrained dimension, one of its values.\<close>

lemma scope_conditions_select:
  assumes M: "keyword_match M" and f: "filter_stage spec s req = Inr (ep_filter plan)"
    and spec: "os_storage_filter spec" and ks: "scope_conditions (Some plan) = Inr ks"
  shows "(\<forall>k \<in> set ks. M k p) \<longleftrightarrow>
    (\<forall>d. scope_values s d \<noteq> {||} \<longrightarrow> (\<exists>v. p d = Some v \<and> v |\<in>| scope_values s d))"
proof -
  obtain cs where cs: "ep_filter plan = Some cs"
    using f spec by (cases "ep_filter plan") (auto simp: filter_stage_def split: sum.splits if_splits)
  have set_cs: "set cs = (\<lambda>d. \<lparr>fc_field = d,
        fc_operator = if length (sorted_values (scope_values s d)) = 1 then OP_EQ else OP_IN,
        fc_values = sorted_values (scope_values s d)\<rparr>) ` {d. scope_values s d \<noteq> {||}}"
    using storage_conditions_set [OF filter_stage_conditions [OF f [unfolded cs]]] by simp
  from ks cs have "mapE repository_condition cs = Inr ks"
    by (auto simp: scope_conditions_def storage_filter_to_repository_filter_def split: if_splits)
  then have rel: "list_all2 (\<lambda>c k. repository_condition c = Inr k) cs ks" by (simp add: mapE_eq_Inr)
  have "(\<forall>k \<in> set ks. M k p) \<longleftrightarrow> (\<forall>c \<in> set cs. \<exists>v \<in> set (fc_values c). p (fc_field c) = Some v)"
  proof -
    have op: "fc_operator c = (if length (fc_values c) = 1 then OP_EQ else OP_IN)" if "c \<in> set cs" for c
      using that by (auto simp: set_cs)
    have "(\<forall>i < length ks. M (ks ! i) p) \<longleftrightarrow>
        (\<forall>i < length cs. \<exists>v \<in> set (fc_values (cs ! i)). p (fc_field (cs ! i)) = Some v)"
      using rel op repository_condition_match [OF M]
      by (auto simp: list_all2_conv_all_nth) (metis nth_mem)+
    then show ?thesis by (simp add: all_set_conv_all_nth)
  qed
  also have "\<dots> \<longleftrightarrow> (\<forall>d. scope_values s d \<noteq> {||} \<longrightarrow> (\<exists>v. p d = Some v \<and> v |\<in>| scope_values s d))"
    by (auto simp: set_cs)
  finally show ?thesis .
qed

subsection \<open>What a read selects and what a write stores\<close>

text \<open>The scope an enforced call works in, once for reads and once for writes.\<close>

lemma enforced_scope:
  assumes U: "nfc_stable U" and c: "caller_wf U c"
    and e: "enforce_operation U (Some c) op sel = Inr (Some plan)"
  shows "\<exists>s. (\<forall>d. scope_values s d |\<subseteq>| scope_values (gr_scope (ca_grant c)) d)
    \<and> (\<forall>d. scope_values (gr_scope (ca_grant c)) d \<noteq> {||} \<longrightarrow> scope_values s d \<noteq> {||})
    \<and> (\<forall>d. sel d = None \<longrightarrow> scope_values s d = scope_values (gr_scope (ca_grant c)) d)
    \<and> filter_stage (operation_specs op) s (minimum_identity_dimensions (ca_mode c)) = Inr (ep_filter plan)
    \<and> attribution_stage (operation_specs op) s (minimum_identity_dimensions (ca_mode c)) = Inr (ep_attribution plan)
    \<and> ep_scope plan = Some s"
proof -
  let ?g = "gr_scope (ca_grant c)"
  obtain r where p: "plan_enforcement U c op r = Inr plan" "ep_allow plan" and wf: "scope_wf U r"
    and none: "\<And>d. sel d = None \<Longrightarrow> scope_values r d = {||}"
    and some: "\<And>d v. sel d = Some v \<Longrightarrow> \<exists>n. normalize_identifier U v = Inr n
        \<and> scope_values r d = (if scope_values ?g d \<noteq> {||} then {|n|} else {||})"
    by (rule enforce_plan [OF U c e]) (rule that)
  note a = plan_allowed [OF c wf p]
  from a(3) obtain s where s: "\<And>d. scope_values s d = effective_values ?g r d"
    and st: "filter_stage (operation_specs op) s (minimum_identity_dimensions (ca_mode c)) = Inr (ep_filter plan)"
      "attribution_stage (operation_specs op) s (minimum_identity_dimensions (ca_mode c)) = Inr (ep_attribution plan)"
      "ep_scope plan = Some s"
    by auto
  show ?thesis
  proof (intro exI [of _ s] conjI allI impI st)
    show "scope_values s d |\<subseteq>| scope_values ?g d" for d
      using effective_subset [OF a(1)] s by simp
    show "scope_values ?g d \<noteq> {||} \<Longrightarrow> scope_values s d \<noteq> {||}" for d
      by (simp add: s effective_values_def)
    show "sel d = None \<Longrightarrow> scope_values s d = scope_values ?g d" for d
      using none [of d] by (simp add: s effective_values_def)
  qed
qed

definition grants :: "caller_authority \<Rightarrow> identity_dimension \<Rightarrow> ustr fset" where
  "grants c d = scope_values (gr_scope (ca_grant c)) d"

text \<open>A payload inside a caller's grant: each constrained dimension has a granted value.\<close>

definition inside :: "caller_authority \<Rightarrow> identity_values \<Rightarrow> bool" where
  "inside c p \<longleftrightarrow> (\<forall>d. grants c d \<noteq> {||} \<longrightarrow> (\<exists>v. p d = Some v \<and> v |\<in>| grants c d))"

lemma inside_single: "inside c p \<Longrightarrow> grants c d = {|x|} \<Longrightarrow> p d = Some x"
  unfolding inside_def by (drule spec [of _ d]) simp

lemma read_selects_inside:
  assumes "nfc_stable U" and "caller_wf U c" and "keyword_match M"
    and "enforce_operation U (Some c) op sel = Inr plan" and "os_storage_filter (operation_specs op)"
    and "scope_conditions plan = Inr ks" and "\<forall>k \<in> set ks. M k p"
  shows "inside c p"
proof -
  obtain pl where pl: "plan = Some pl"
    using assms(4) by (auto simp: enforce_operation_def split: if_splits)
  obtain s where s: "\<And>d. scope_values s d |\<subseteq>| scope_values (gr_scope (ca_grant c)) d"
    "\<And>d. scope_values (gr_scope (ca_grant c)) d \<noteq> {||} \<Longrightarrow> scope_values s d \<noteq> {||}"
    and f: "filter_stage (operation_specs op) s (minimum_identity_dimensions (ca_mode c)) = Inr (ep_filter pl)"
    using enforced_scope [OF assms(1,2) assms(4) [unfolded pl]] by blast
  have sel: "\<exists>v. p d = Some v \<and> v |\<in>| scope_values s d" if "scope_values s d \<noteq> {||}" for d
    using scope_conditions_select [OF assms(3) f assms(5) assms(6) [unfolded pl], of p] assms(7) that by blast
  show ?thesis
    unfolding inside_def grants_def
  proof (intro allI impI)
    fix d assume "scope_values (gr_scope (ca_grant c)) d \<noteq> {||}"
    from sel [OF s(2) [OF this]] s(1) [of d]
    show "\<exists>v. p d = Some v \<and> v |\<in>| scope_values (gr_scope (ca_grant c)) d" by auto
  qed
qed

lemma unselective_read_selects:
  assumes "nfc_stable U" and "caller_wf U c" and "keyword_match M"
    and "enforce_operation U (Some c) op Map.empty = Inr plan" and "os_storage_filter (operation_specs op)"
    and "scope_conditions plan = Inr ks" and "inside c p"
  shows "\<forall>k \<in> set ks. M k p"
proof -
  obtain pl where pl: "plan = Some pl"
    using assms(4) by (auto simp: enforce_operation_def split: if_splits)
  obtain s where s: "\<And>d. scope_values s d = scope_values (gr_scope (ca_grant c)) d"
    and f: "filter_stage (operation_specs op) s (minimum_identity_dimensions (ca_mode c)) = Inr (ep_filter pl)"
    using enforced_scope [OF assms(1,2) assms(4) [unfolded pl]] by blast
  from scope_conditions_select [OF assms(3) f assms(5) assms(6) [unfolded pl], of p] assms(7) s
  show ?thesis by (simp add: inside_def grants_def)
qed

lemma write_stores_inside:
  assumes U: "nfc_stable U" and c: "caller_wf U c" and w: "os_write_attribution (operation_specs op)"
    and v: "scoped_values U (Some c) op values = Inr stored"
  shows "inside c stored" and "\<And>d x. stored d = Some x \<Longrightarrow> canonical_id U x"
proof -
  let ?g = "gr_scope (ca_grant c)"
  from v obtain po where po: "enforce_operation U (Some c) op values = Inr po"
    by (auto simp: scoped_values_def)
  then obtain plan where "po = Some plan" by (auto simp: enforce_operation_def split: if_splits)
  with po v have e: "enforce_operation U (Some c) op values = Inr (Some plan)"
    and n: "normalize_fields U (case ep_attribution plan of None \<Rightarrow> values | Some wa \<Rightarrow> values ++ map_of wa) = Inr stored"
    by (simp_all add: scoped_values_def Let_def)
  obtain s where sub: "\<And>d. scope_values s d |\<subseteq>| scope_values ?g d"
    and ne: "\<And>d. scope_values ?g d \<noteq> {||} \<Longrightarrow> scope_values s d \<noteq> {||}"
    and a: "attribution_stage (operation_specs op) s (minimum_identity_dimensions (ca_mode c)) = Inr (ep_attribution plan)"
    using enforced_scope [OF U c e] by blast
  obtain wa where wa: "ep_attribution plan = Some wa"
    using a w by (cases "ep_attribution plan") (auto simp: attribution_stage_def split: sum.splits if_splits)
  note am = attribution_stage_map_of [OF a [unfolded wa]]
  show "inside c stored"
    unfolding inside_def grants_def
  proof (intro allI impI)
    fix d assume "scope_values ?g d \<noteq> {||}"
    then have "scope_values s d \<noteq> {||}" by (rule ne)
    then obtain x where x: "scope_values s d = {|x|}" using am(2) by blast
    then have "map_of wa d = Some x" using am(1) [of d] by simp
    then obtain y where y: "normalize_identifier U x = Inr y" "stored d = Some y"
      using normalize_fields_Inr(2) [OF n, of d x] wa by auto
    have "x |\<in>| scope_values ?g d" using sub [of d] x by auto
    moreover from this c have "canonical_id U x" by (auto simp: caller_wf_def scope_wf_def)
    ultimately show "\<exists>v. stored d = Some v \<and> v |\<in>| scope_values ?g d"
      using y by (simp add: canonical_id_def)
  qed
  show "canonical_id U x" if "stored d = Some x" for d x
  proof (cases "(values ++ map_of wa) d")
    case None
    with normalize_fields_Inr(1) [OF n, of d] wa that show ?thesis by simp
  next
    case (Some z)
    with normalize_fields_Inr(2) [OF n, of d z] wa that obtain k
      where "normalize_identifier U z = Inr x" by auto
    with U show ?thesis by (rule normalize_identifier_idem)
  qed
qed

lemma multi_user_owns_tenant_and_user:
  assumes "caller_wf U c" and "ca_mode c = MULTI_USER" and "d = TENANT \<or> d = USER"
  shows "\<exists>v. grants c d = {|v|}"
proof -
  have "fcard (grants c d) = 1" using assms by (auto simp: caller_wf_def grants_def)
  then show ?thesis by (simp only: fcard_1_iff)
qed

lemma requested_raw_Nil: "make_scope U (requested_raw []) = Inr empty_scope"
  by (simp add: make_scope_def requested_raw_def normalize_values_def empty_scope_def)

lemma normalize_selectors_empty: "normalize_selectors U g Map.empty ds = Inr []"
  by (induction ds) simp_all

lemma enforce_read_total:
  assumes "caller_wf U c" and "os_class (operation_specs op) |\<in>| gr_operations (ca_grant c)"
    and "\<not> os_write_attribution (operation_specs op)"
  shows "\<exists>plan. enforce_operation U (Some c) op Map.empty = Inr (Some plan)"
proof -
  obtain plan where p: "plan_enforcement U c op empty_scope = Inr plan" and al: "ep_allow plan"
    using plan_read_allowed [OF assms] by blast
  have "enforce_operation U (Some c) op Map.empty = Inr (Some plan)"
    by (simp add: enforce_operation_def normalize_selectors_empty requested_raw_Nil p al)
  then show ?thesis ..
qed

lemma repository_condition_total:
  "fc_values c \<noteq> [] \<Longrightarrow> \<exists>k. repository_condition c = Inr k"
  by (auto simp: repository_condition_def neq_Nil_conv split: filter_operator.splits)

lemma scope_conditions_total:
  assumes U: "nfc_stable U" and c: "caller_wf U c"
    and e: "enforce_operation U (Some c) op sel = Inr (Some plan)"
  shows "\<exists>ks. scope_conditions (Some plan) = Inr ks"
proof (cases "ep_filter plan")
  case (Some cs)
  obtain s where "filter_stage (operation_specs op) s (minimum_identity_dimensions (ca_mode c)) = Inr (Some cs)"
    using enforced_scope [OF U c e] Some by auto
  from storage_conditions_set [OF filter_stage_conditions [OF this]]
  have "fc_values k \<noteq> []" if "k \<in> set cs" for k using that by auto
  then obtain ks where "mapE repository_condition cs = Inr ks"
    using mapE_total repository_condition_total by metis
  then show ?thesis
    using Some by (auto simp: scope_conditions_def storage_filter_to_repository_filter_def)
qed (simp add: scope_conditions_def)

subsection \<open>Attributing twice\<close>

lemma normalize_selectors_total:
  "(\<And>d v. sel d = Some v \<Longrightarrow> canonical_id U v) \<Longrightarrow> distinct ds \<Longrightarrow>
     \<exists>req. normalize_selectors U g sel ds = Inr req
       \<and> (\<forall>d. map_of req d = (if d \<in> set ds \<and> scope_values g d \<noteq> {||} then sel d else None))"
proof (induction ds)
  case (Cons a ds)
  then obtain rs where rs: "normalize_selectors U g sel ds = Inr rs"
    "\<forall>d. map_of rs d = (if d \<in> set ds \<and> scope_values g d \<noteq> {||} then sel d else None)" by auto
  with Cons.prems show ?case by (cases "sel a") (auto simp: canonical_id_def)
qed simp

lemma attribution_values_total:
  "(\<And>d. d |\<in>| req \<Longrightarrow> scope_values s d \<noteq> {||}) \<Longrightarrow> (\<And>d. scope_values s d \<noteq> {||} \<Longrightarrow> \<exists>v. scope_values s d = {|v|})
   \<Longrightarrow> \<exists>wa. attribution_values s req ds = Inr wa"
proof (induction ds)
  case (Cons a ds)
  then obtain ws where "attribution_values s req ds = Inr ws" by blast
  with Cons.prems(1) [of a] Cons.prems(2) [of a] show ?case
    by (cases "scope_values s a = {||}") (auto simp: Let_def)
qed simp

lemma write_allowed:
  assumes c: "caller_wf U c" and op: "os_class (operation_specs op) |\<in>| gr_operations (ca_grant c)"
    and w: "os_write_attribution (operation_specs op)" and r: "scope_wf U r"
    and rg: "\<And>d. scope_values r d |\<subseteq>| scope_values (gr_scope (ca_grant c)) d"
    and single: "\<And>d. scope_values (gr_scope (ca_grant c)) d \<noteq> {||} \<Longrightarrow> \<exists>v. scope_values r d = {|v|}"
  shows "\<exists>plan wa. plan_enforcement U c op r = Inr plan \<and> ep_allow plan \<and> ep_attribution plan = Some wa
    \<and> (\<forall>d. map_of wa d = (if scope_values r d \<noteq> {||} then Some (the_elem (fset (scope_values r d))) else None))"
proof -
  let ?g = "gr_scope (ca_grant c)" and ?req = "minimum_identity_dimensions (ca_mode c)"
  have wf: "scope_wf U ?g" using c by (simp add: caller_wf_def)
  have eff: "effective_values ?g r d = scope_values r d" for d
    using rg [of d] single [of d] by (auto simp: effective_values_def)
  have ne: "scope_values r d \<noteq> {||}" if "d |\<in>| ?req" for d
    using caller_wf_required [OF c that] single [of d] by auto
  obtain dec where dec: "decide U (ca_grant c) r (os_class (operation_specs op)) ?req = Inr dec"
    using decide_total [OF wf r] by blast
  note d = decide_allowed [OF wf r dec]
  have al: "ad_allow dec" using d(1) op ne eff rg by (auto simp: within_grant_def)
  then obtain s where s: "ad_scope dec = Some s" and sv: "\<And>d. scope_values s d = scope_values r d"
    using d(2) eff by auto
  have s1: "\<exists>v. scope_values s d = {|v|}" if "scope_values s d \<noteq> {||}" for d
    using single [of d] rg [of d] that sv by auto
  obtain f where f: "filter_stage (operation_specs op) s ?req = Inr f"
    using filter_stage_total [of ?req s "operation_specs op"] ne sv by auto
  obtain wa where wa: "attribution_values s ?req dimension_order = Inr wa"
    using attribution_values_total [of ?req s dimension_order] ne sv s1 by auto
  then have "attribution_stage (operation_specs op) s ?req = Inr (Some wa)"
    using w by (simp add: attribution_stage_def build_write_attribution_def)
  with dec al s f attribution_map_of [OF wa distinct_dimension_order] sv show ?thesis
    by (simp add: plan_enforcement_def Let_def)
qed

text \<open>Attributing what was attributed already changes nothing.\<close>

lemma scoped_values_idem:
  assumes U: "nfc_stable U" and c: "\<And>a. ctx = Some a \<Longrightarrow> caller_wf U a"
    and w: "os_write_attribution (operation_specs op)" and v: "scoped_values U ctx op values = Inr stored"
  shows "scoped_values U ctx op stored = Inr stored"
proof (cases ctx)
  case None
  with v show ?thesis by (simp add: scoped_values_def enforce_operation_def)
next
  case (Some a)
  let ?g = "gr_scope (ca_grant a)"
  note cw = c [OF Some] and v' = v [unfolded Some]
  note ins = write_stores_inside [OF U cw w v']
  from v' obtain plan where e: "enforce_operation U (Some a) op values = Inr (Some plan)"
    by (auto simp: scoped_values_def enforce_operation_def split: if_splits)
  have oc: "os_class (operation_specs op) |\<in>| gr_operations (ca_grant a)"
    using enforce_plan [OF U cw e] plan_allowed(2) [OF cw] by metis
  obtain req where req: "normalize_selectors U ?g stored dimension_order = Inr req"
    and rm: "\<And>d. map_of req d = (if scope_values ?g d \<noteq> {||} then stored d else None)"
    using normalize_selectors_total [of stored U dimension_order ?g] ins(2) by auto
  have raw: "canonical_id U x" if "x \<in> set (requested_raw req d)" for d x
    using that ins(2) [of d] by (auto simp: requested_raw_def rm split: option.splits if_splits)
  obtain r where r: "make_scope U (requested_raw req) = Inr r"
    and rv: "\<And>d. scope_values r d = fset_of_list (requested_raw req d)"
    using make_scope_canonical [of "requested_raw req" U] raw by blast
  have one: "\<exists>x. stored d = Some x \<and> scope_values r d = {|x|} \<and> x |\<in>| scope_values ?g d" if "scope_values ?g d \<noteq> {||}" for d
    using ins(1) that rv [of d] by (auto simp: inside_def grants_def requested_raw_def rm split: option.splits)
  have none: "scope_values r d = {||}" if "scope_values ?g d = {||}" for d
    using that rv [of d] by (simp add: requested_raw_def rm)
  have sub: "scope_values r d |\<subseteq>| scope_values ?g d" for d
  proof (cases "scope_values ?g d = {||}")
    case True
    then show ?thesis by (simp add: none)
  next
    case False
    from one [OF this] show ?thesis by (elim exE conjE) simp
  qed
  obtain p wa where p: "plan_enforcement U a op r = Inr p" "ep_allow p" "ep_attribution p = Some wa"
    and wa: "\<And>d. map_of wa d = (if scope_values r d \<noteq> {||} then Some (the_elem (fset (scope_values r d))) else None)"
    using write_allowed [OF cw oc w make_scope_wf [OF U r] sub] one by metis
  have "(stored ++ map_of wa) d = stored d" for d
  proof (cases "scope_values ?g d = {||}")
    case True
    with wa [of d] show ?thesis by (simp add: none map_add_def)
  next
    case False
    from one [OF this] wa [of d] show ?thesis by (elim exE conjE) (simp add: map_add_def)
  qed
  then have "stored ++ map_of wa = stored" by (rule ext)
  moreover have "normalize_fields U stored = Inr stored"
  proof -
    have "mapE (\<lambda>d. case stored d of None \<Rightarrow> Inr (d, None)
        | Some v \<Rightarrow> bindE (normalize_identifier U v) (\<lambda>n. Inr (d, Some n))) dimension_order
      = Inr (map (\<lambda>d. (d, stored d)) dimension_order)"
      using ins(2) by (intro mapE_Inr_map) (auto simp: canonical_id_def split: option.splits)
    moreover have "map_of (map (\<lambda>d. (d, stored d)) dimension_order) d = Some (stored d)" for d
      by (cases d) (simp_all add: dimension_order_def)
    ultimately show ?thesis by (simp add: normalize_fields_def)
  qed
  ultimately show ?thesis
    using Some req r p by (simp add: scoped_values_def enforce_operation_def Let_def)
qed

subsection \<open>Properties\<close>

text \<open>
  C2. A search by a scoped caller, whatever selectors it passes, only selects records inside
  the caller's grant: in every dimension the grant constrains, the record has a granted value.
\<close>

theorem search_stays_in_scope:
  assumes "nfc_stable U" and "caller_wf U c" and "keyword_match M"
    and "os_storage_filter (operation_specs op)"
    and "enforce_operation U (Some c) op selectors = Inr plan"
  shows "\<exists>ks. scope_conditions plan = Inr ks \<and> (\<forall>p. (\<forall>k \<in> set ks. M k p) \<longrightarrow>
    (\<forall>d. grants c d \<noteq> {||} \<longrightarrow> (\<exists>v. p d = Some v \<and> v |\<in>| grants c d)))"
proof -
  obtain pl where pl: "plan = Some pl"
    using assms(5) by (auto simp: enforce_operation_def split: if_splits)
  obtain ks where ks: "scope_conditions plan = Inr ks"
    using scope_conditions_total [OF assms(1,2) assms(5) [unfolded pl]] pl by auto
  from read_selects_inside [OF assms(1-3,5,4) ks] ks show ?thesis
    unfolding inside_def by blast
qed

text \<open>
  C1. Two callers of a multi-user deployment are isolated: when they differ in tenant or in
  user, no record one of them stores is selected by a search of the other, for every set of
  identity values and selectors the two calls pass.
\<close>

theorem tenants_isolated:
  assumes "nfc_stable U" and "keyword_match M" and "caller_wf U a" and "caller_wf U b"
    and "ca_mode a = MULTI_USER" and "ca_mode b = MULTI_USER"
    and "grants a TENANT \<noteq> grants b TENANT \<or> grants a USER \<noteq> grants b USER"
    and "os_write_attribution (operation_specs wop)" and "os_storage_filter (operation_specs rop)"
    and "scoped_values U (Some a) wop values = Inr stored"
    and "enforce_operation U (Some b) rop selectors = Inr plan"
  shows "\<exists>ks. scope_conditions plan = Inr ks \<and> \<not> (\<forall>k \<in> set ks. M k stored)"
proof -
  obtain pl where pl: "plan = Some pl"
    using assms(11) by (auto simp: enforce_operation_def split: if_splits)
  obtain ks where ks: "scope_conditions plan = Inr ks"
    using scope_conditions_total [OF assms(1,4) assms(11) [unfolded pl]] pl by auto
  have "\<not> (\<forall>k \<in> set ks. M k stored)"
  proof
    assume "\<forall>k \<in> set ks. M k stored"
    with read_selects_inside [OF assms(1,4,2,11,9) ks] have b: "inside b stored" by blast
    have a: "inside a stored" by (rule write_stores_inside(1) [OF assms(1,3,8,10)])
    have "grants a d = grants b d" if d: "d = TENANT \<or> d = USER" for d
    proof -
      obtain x y where xy: "grants a d = {|x|}" "grants b d = {|y|}"
        using multi_user_owns_tenant_and_user [OF assms(3,5) d] multi_user_owns_tenant_and_user [OF assms(4,6) d]
        by blast
      from inside_single [OF a xy(1)] inside_single [OF b xy(2)] xy show ?thesis by simp
    qed
    with assms(7) show False by blast
  qed
  with ks show ?thesis by blast
qed

text \<open>
  A caller finds its own records: whatever it stores through an attributed write is
  selected by its own search without selectors, which is always allowed when the caller has
  the read operation.
\<close>

theorem own_writes_visible:
  assumes "nfc_stable U" and "keyword_match M" and "caller_wf U c"
    and "os_write_attribution (operation_specs wop)" and "os_storage_filter (operation_specs rop)"
    and "os_class (operation_specs rop) |\<in>| gr_operations (ca_grant c)"
    and "scoped_values U (Some c) wop values = Inr stored"
  shows "\<exists>plan ks. enforce_operation U (Some c) rop Map.empty = Inr plan
    \<and> scope_conditions plan = Inr ks \<and> (\<forall>k \<in> set ks. M k stored)"
proof -
  have "\<not> os_write_attribution (operation_specs rop)" using assms(5) by (cases rop) (auto simp: mk_spec_def)
  then obtain pl where pl: "enforce_operation U (Some c) rop Map.empty = Inr (Some pl)"
    using enforce_read_total [OF assms(3,6)] by blast
  obtain ks where ks: "scope_conditions (Some pl) = Inr ks"
    using scope_conditions_total [OF assms(1,3) pl] by blast
  from unselective_read_selects [OF assms(1,3,2) pl assms(5) ks
      write_stores_inside(1) [OF assms(1,3,4,7)]] pl ks
  show ?thesis by blast
qed

subsection \<open>Witnesses\<close>

definition example_caller :: "nat \<Rightarrow> caller_authority" where
  "example_caller t = \<lparr>ca_mode = MULTI_USER,
     ca_grant = \<lparr>gr_scope = example_scope [t] [98], gr_operations = all_operations\<rparr>\<rparr>"

lemma example_caller_wf: "t \<in> {97..122} \<Longrightarrow> caller_wf ascii_tables (example_caller t)"
  using example_scope_wf [of t 98]
  by (auto simp: caller_wf_def example_caller_def fcard_1_iff all_operations_def)

lemma example_grants:
  "grants (example_caller t) TENANT = {|[t]|}"
  by (simp add: grants_def example_caller_def)

text \<open>Evaluating the example: an attributed write with no values of its own.\<close>

lemma example_plan:
  assumes "t \<in> {97..122}"
  shows "decide ascii_tables (ca_grant (example_caller t)) empty_scope op {|TENANT, USER|} =
    Inr \<lparr>ad_allow = True, ad_reason = SCOPE_ALLOWED, ad_scope = Some (example_scope [t] [98])\<rparr>"
proof -
  have c: "normalize_identifier ascii_tables [t] = Inr [t]" "normalize_identifier ascii_tables [98] = Inr [98]"
    using canonical_id_ascii [of t] canonical_id_ascii [of 98] assms by (simp_all add: canonical_id_def)
  show ?thesis
    by (simp add: decide_def example_caller_def dimension_order_def effective_raw_def
        make_scope_def normalize_values_def c required_list_def example_scope_def empty_scope_def)
qed

lemma example_write:
  assumes "t \<in> {97..122}"
  shows "scoped_values ascii_tables (Some (example_caller t)) KNOWLEDGE_WRITE Map.empty
    = Inr [TENANT \<mapsto> [t], USER \<mapsto> [98]]"
proof -
  have c: "normalize_identifier ascii_tables [t] = Inr [t]" "normalize_identifier ascii_tables [98] = Inr [98]"
    using canonical_id_ascii [of t] canonical_id_ascii [of 98] assms by (simp_all add: canonical_id_def)
  have m: "ca_mode (example_caller t) = MULTI_USER" by (simp add: example_caller_def)
  have "enforce_operation ascii_tables (Some (example_caller t)) KNOWLEDGE_WRITE Map.empty =
    Inr (Some \<lparr>ep_operation = KNOWLEDGE_WRITE, ep_class = WRITE, ep_allow = True,
      ep_reason = ENFORCEMENT_ALLOWED, ep_required = {|TENANT, USER|},
      ep_scope = Some (example_scope [t] [98]), ep_filter = None,
      ep_attribution = Some [(TENANT, [t]), (USER, [98])]\<rparr>)"
    by (simp add: enforce_operation_def normalize_selectors_empty requested_raw_Nil
        plan_enforcement_def mk_spec_def m example_plan [OF assms] filter_stage_def
        attribution_stage_def build_write_attribution_def dimension_order_def)
  then show ?thesis
    by (auto simp: scoped_values_def normalize_fields_def dimension_order_def c fun_eq_iff)
qed

theorem search_stays_in_scope_witness:
  "\<exists>plan ks. enforce_operation ascii_tables (Some (example_caller 97)) KNOWLEDGE_SEARCH Map.empty = Inr plan
    \<and> scope_conditions plan = Inr ks
    \<and> \<not> (\<forall>k \<in> set ks. payload_match k [TENANT \<mapsto> [99], USER \<mapsto> [98]])"
proof -
  have w: "caller_wf ascii_tables (example_caller 97)" by (rule example_caller_wf) simp
  obtain plan where p: "enforce_operation ascii_tables (Some (example_caller 97)) KNOWLEDGE_SEARCH Map.empty = Inr (Some plan)"
    using enforce_read_total [OF w, of KNOWLEDGE_SEARCH] by (auto simp: mk_spec_def example_caller_def)
  have f: "os_storage_filter (operation_specs KNOWLEDGE_SEARCH)" by (simp add: mk_spec_def)
  obtain ks where ks: "scope_conditions (Some plan) = Inr ks"
    and sel: "\<forall>q. (\<forall>k \<in> set ks. payload_match k q) \<longrightarrow> (\<forall>d. grants (example_caller 97) d \<noteq> {||} \<longrightarrow>
        (\<exists>v. q d = Some v \<and> v |\<in>| grants (example_caller 97) d))"
    using search_stays_in_scope [OF nfc_stable_ascii w keyword_match_payload f p] by blast
  have "\<not> (\<forall>k \<in> set ks. payload_match k [TENANT \<mapsto> [99], USER \<mapsto> [98]])"
  proof
    assume "\<forall>k \<in> set ks. payload_match k [TENANT \<mapsto> [99], USER \<mapsto> [98]]"
    with sel have "grants (example_caller 97) TENANT \<noteq> {||} \<longrightarrow>
        (\<exists>v. [TENANT \<mapsto> [99::nat], USER \<mapsto> [98]] TENANT = Some v \<and> v |\<in>| grants (example_caller 97) TENANT)"
      by blast
    then show False by (simp add: example_grants)
  qed
  with p ks show ?thesis by blast
qed

theorem tenants_isolated_witness:
  "\<exists>stored plan ks. scoped_values ascii_tables (Some (example_caller 97)) KNOWLEDGE_WRITE Map.empty = Inr stored
    \<and> enforce_operation ascii_tables (Some (example_caller 99)) KNOWLEDGE_SEARCH Map.empty = Inr plan
    \<and> scope_conditions plan = Inr ks \<and> \<not> (\<forall>k \<in> set ks. payload_match k stored)"
proof -
  have wa: "caller_wf ascii_tables (example_caller 97)" and wb: "caller_wf ascii_tables (example_caller 99)"
    by (rule example_caller_wf, simp)+
  obtain plan where p: "enforce_operation ascii_tables (Some (example_caller 99)) KNOWLEDGE_SEARCH Map.empty = Inr (Some plan)"
    using enforce_read_total [OF wb, of KNOWLEDGE_SEARCH] by (auto simp: mk_spec_def example_caller_def)
  have w: "scoped_values ascii_tables (Some (example_caller 97)) KNOWLEDGE_WRITE Map.empty
      = Inr [TENANT \<mapsto> [97], USER \<mapsto> [98]]" by (rule example_write) simp
  have "grants (example_caller 97) TENANT \<noteq> grants (example_caller 99) TENANT"
    by (simp add: example_grants)
  with tenants_isolated [OF nfc_stable_ascii keyword_match_payload wa wb _ _ _ _ _ w p] p w
  show ?thesis by (auto simp: example_caller_def mk_spec_def)
qed

theorem own_writes_visible_witness:
  "\<exists>stored plan ks. scoped_values ascii_tables (Some (example_caller 97)) KNOWLEDGE_WRITE Map.empty = Inr stored
    \<and> enforce_operation ascii_tables (Some (example_caller 97)) MEMORY_SEARCH Map.empty = Inr plan
    \<and> scope_conditions plan = Inr ks \<and> (\<forall>k \<in> set ks. payload_match k stored)"
proof -
  have w: "caller_wf ascii_tables (example_caller 97)" by (rule example_caller_wf) simp
  have s: "scoped_values ascii_tables (Some (example_caller 97)) KNOWLEDGE_WRITE Map.empty
      = Inr [TENANT \<mapsto> [97], USER \<mapsto> [98]]" by (rule example_write) simp
  have "READ |\<in>| gr_operations (ca_grant (example_caller 97))" by (simp add: example_caller_def)
  with own_writes_visible [OF nfc_stable_ascii keyword_match_payload w _ _ _ s, of MEMORY_SEARCH] s
  show ?thesis by (auto simp: mk_spec_def)
qed

end
