(* ===== verification/Tenancy_Quota.thy ===== *)
theory Tenancy_Quota
  imports Tenancy_Runtime
begin

text \<open>
  Quotas, \<^verbatim>\<open>cyberbrain/tenancy/quota.py\<close> and \<^verbatim>\<open>cyberbrain/tenancy/limiter.py\<close>: limits and
  policies with their validation, scope keys, the decision, and the durable limiter whose
  \<^verbatim>\<open>reserve\<close> charges every key of a caller in one transaction. The SQLite table is a map from
  its primary key to the other two columns; an exception rolls the transaction back, so a
  failing \<open>reserve\<close> is \<open>Inl\<close> and leaves the table as it was. The clock is a real number of
  seconds (\<^verbatim>\<open>now\<close>), \<^verbatim>\<open>int(stamp)\<close> its floor.
\<close>

subsection \<open>Limits and policies\<close>

datatype quota_resource =
  REQUESTS | WRITES | RECALL_LIMIT | DREAM_ENQUEUE | QUOTA_BACKGROUND_REASONING

record quota_limit =
  ql_resource :: quota_resource
  ql_amount :: int
  ql_window :: "int option"

text \<open>\<^verbatim>\<open>QuotaLimit.__post_init__\<close> on an integer amount and an integer or missing window.\<close>

definition make_quota_limit :: "quota_resource \<Rightarrow> int \<Rightarrow> int option \<Rightarrow> quota_limit result" where
  "make_quota_limit r amount window =
     (if amount < 1 then Inl (ValueError (lit ''quota amount must be positive''))
      else if (case window of Some w \<Rightarrow> w < 1 | None \<Rightarrow> False)
      then Inl (ValueError (lit ''quota window_seconds must be positive''))
      else if r \<in> {REQUESTS, WRITES, DREAM_ENQUEUE, QUOTA_BACKGROUND_REASONING} \<and> window = None
      then Inl (ValueError (lit ''quota window_seconds required''))
      else if r = RECALL_LIMIT \<and> window \<noteq> None
      then Inl (ValueError (lit ''recall_limit quota must not define window_seconds''))
      else Inr \<lparr>ql_resource = r, ql_amount = amount, ql_window = window\<rparr>)"

type_synonym quota_policy = "quota_limit list"

definition make_quota_policy :: "quota_limit list \<Rightarrow> quota_policy result" where
  "make_quota_policy limits =
     (if \<not> distinct (map ql_resource limits)
      then Inl (ValueError (lit ''quota policy must not contain duplicate resources''))
      else Inr limits)"

definition limit_for :: "quota_policy \<Rightarrow> quota_resource \<Rightarrow> quota_limit option" where
  "limit_for policy r = find (\<lambda>l. ql_resource l = r) policy"

text \<open>What the two constructors establish.\<close>

definition limit_ok :: "quota_limit \<Rightarrow> bool" where
  "limit_ok l \<longleftrightarrow> 1 \<le> ql_amount l
     \<and> (case ql_window l of None \<Rightarrow> ql_resource l = RECALL_LIMIT
        | Some w \<Rightarrow> 1 \<le> w \<and> ql_resource l \<noteq> RECALL_LIMIT)"

definition policy_ok :: "quota_policy \<Rightarrow> bool" where
  "policy_ok policy \<longleftrightarrow> list_all limit_ok policy \<and> distinct (map ql_resource policy)"

lemma make_quota_limit_ok: "make_quota_limit r a w = Inr l \<Longrightarrow> limit_ok l"
  by (cases r; cases w) (auto simp: make_quota_limit_def limit_ok_def split: if_splits)

lemma limit_for_SomeD:
  "limit_for policy r = Some l \<Longrightarrow> policy_ok policy \<Longrightarrow> ql_resource l = r \<and> limit_ok l"
  by (auto simp: limit_for_def policy_ok_def find_Some_iff list_all_iff)

lemma limit_window_pos:
  "limit_for policy r = Some l \<Longrightarrow> policy_ok policy \<Longrightarrow> ql_window l = Some w \<Longrightarrow> 1 \<le> w"
  by (auto dest!: limit_for_SomeD simp: limit_ok_def)

subsection \<open>Scope keys\<close>

type_synonym scope_key = "(identity_dimension \<times> ustr) list"

definition make_scope_key :: "unicode_tables \<Rightarrow> scope_key \<Rightarrow> scope_key result" where
  "make_scope_key U pairs =
     (if pairs = [] then Inl (ValueError (lit ''quota scope key must contain at least one identity dimension''))
      else if \<not> distinct (map fst pairs) then Inl (ValueError (lit ''duplicate quota key dimension''))
      else bindE (mapE (\<lambda>(d, v). bindE (normalize_identifier U v) (\<lambda>n. Inr (d, n))) pairs) (\<lambda>ps.
           Inr (List.map_filter (\<lambda>d. map_option (Pair d) (map_of ps d)) dimension_order)))"

fun scope_key_values :: "identity_scope \<Rightarrow> identity_dimension list \<Rightarrow> scope_key result" where
  "scope_key_values s [] = Inr []"
| "scope_key_values s (d # ds) =
     (case sorted_values (scope_values s d) of
        [v] \<Rightarrow> bindE (scope_key_values s ds) (\<lambda>vs. Inr ((d, v) # vs))
      | _ \<Rightarrow> Inl (ValueError (lit ''quota key requires exactly one '' @ dimension_value d)))"

definition derive_quota_scope_key ::
    "unicode_tables \<Rightarrow> identity_scope \<Rightarrow> identity_dimension fset \<Rightarrow> scope_key result" where
  "derive_quota_scope_key U s dimensions =
     (if dimensions = {||} then Inl (ValueError (lit ''quota key dimensions must not be empty''))
      else bindE (scope_key_values s (filter (\<lambda>d. d |\<in>| dimensions) dimension_order)) (make_scope_key U))"

subsection \<open>The decision\<close>

datatype quota_reason = QUOTA_NOT_CONFIGURED | QUOTA_EXCEEDED | QUOTA_ALLOWED

record quota_decision =
  qd_allow :: bool
  qd_reason :: quota_reason
  qd_limit :: "quota_limit option"
  qd_remaining :: "int option"

definition check_decision_input :: "int \<Rightarrow> int \<Rightarrow> unit result" where
  "check_decision_input used requested =
     (if used < 0 then Inl (ValueError (lit ''quota used amount must not be negative''))
      else if requested < 1 then Inl (ValueError (lit ''quota requested amount must be positive''))
      else Inr ())"

definition evaluate_quota :: "quota_policy \<Rightarrow> quota_resource \<Rightarrow> int \<Rightarrow> int \<Rightarrow> quota_decision" where
  "evaluate_quota policy r used requested =
     (case limit_for policy r of
        None \<Rightarrow> \<lparr>qd_allow = True, qd_reason = QUOTA_NOT_CONFIGURED, qd_limit = None, qd_remaining = None\<rparr>
      | Some l \<Rightarrow>
          let projected = used + requested
          in if projected > ql_amount l
             then \<lparr>qd_allow = False, qd_reason = QUOTA_EXCEEDED, qd_limit = Some l,
                   qd_remaining = Some (max (ql_amount l - used) 0)\<rparr>
             else \<lparr>qd_allow = True, qd_reason = QUOTA_ALLOWED, qd_limit = Some l,
                   qd_remaining = Some (ql_amount l - projected)\<rparr>)"

lemma evaluate_allow:
  "limit_for policy r = Some l \<Longrightarrow> qd_allow (evaluate_quota policy r used a) \<longleftrightarrow> used + a \<le> ql_amount l"
  by (auto simp: evaluate_quota_def Let_def)

subsection \<open>The limiter\<close>

type_synonym slot = "scope_key \<times> quota_resource \<times> int"
type_synonym usage_table = "slot \<rightharpoonup> int \<times> int"
type_synonym charges = "(quota_resource \<times> int) list"

definition dict_values :: "scope_dict \<Rightarrow> identity_dimension \<Rightarrow> ustr list" where
  "dict_values dict d = (case map_of dict d of None \<Rightarrow> [] | Some vs \<Rightarrow> vs)"

definition single_owner_id :: ustr where
  "single_owner_id = lit ''__single_owner__''"

text \<open>The keys a caller is charged under: each tenant, each tenant with each user; else the agents.\<close>

definition charge_keys :: "scope_dict \<Rightarrow> scope_key list" where
  "charge_keys dict =
     (let tenants = dict_values dict TENANT;
          keys = map (\<lambda>t. [(TENANT, t)]) tenants
            @ concat (map (\<lambda>u. map (\<lambda>t. case t of None \<Rightarrow> [(USER, u)] | Some t \<Rightarrow> [(TENANT, t), (USER, u)])
                  (if tenants = [] then [None] else map Some tenants))
                (dict_values dict USER))
      in if keys \<noteq> [] then keys
         else let agents = map (\<lambda>v. [(AGENT, v)]) (dict_values dict AGENT)
              in if agents \<noteq> [] then agents else [[(AGENT, single_owner_id)]])"

definition window_start :: "real \<Rightarrow> int option \<Rightarrow> int" where
  "window_start stamp window =
     (case window of None \<Rightarrow> 0 | Some w \<Rightarrow> \<lfloor>stamp / real_of_int w\<rfloor> * w)"

definition purge_expired :: "int \<Rightarrow> usage_table \<Rightarrow> usage_table" where
  "purge_expired now t = (\<lambda>k. case t k of
       None \<Rightarrow> None | Some (used, expires) \<Rightarrow> if expires \<le> now then None else Some (used, expires))"

definition charge_one :: "quota_policy \<Rightarrow> usage_table \<Rightarrow> real \<Rightarrow> scope_key \<times> quota_resource \<times> int
    \<Rightarrow> (slot \<times> int \<times> int) option result" where
  "charge_one policy t stamp = (\<lambda>(key, r, amount).
     case limit_for policy r of
       None \<Rightarrow> Inr None
     | Some l \<Rightarrow>
         let start = window_start stamp (ql_window l);
             used = (case t (key, r, start) of
                 Some (u, _) \<Rightarrow> if ql_window l = None then 0 else u | None \<Rightarrow> 0)
         in bindE (check_decision_input used amount) (\<lambda>_.
            if \<not> qd_allow (evaluate_quota policy r used amount)
            then Inl (QuotaExceededError
                   (max (start + (case ql_window l of None \<Rightarrow> 1 | Some w \<Rightarrow> w) - \<lfloor>stamp\<rfloor>) 1))
            else Inr (case ql_window l of None \<Rightarrow> None
                 | Some w \<Rightarrow> Some ((key, r, start), used + amount, start + w))))"

definition upsert_usage :: "slot \<times> int \<times> int \<Rightarrow> usage_table \<Rightarrow> usage_table" where
  "upsert_usage u t = t(fst u \<mapsto> snd u)"

definition reserve :: "unicode_tables \<Rightarrow> quota_policy \<Rightarrow> caller_authority \<Rightarrow> charges \<Rightarrow> real
    \<Rightarrow> usage_table \<Rightarrow> usage_table result" where
  "reserve U policy caller charges stamp t =
     (if stamp < 0 then Inl (ValueError (lit ''quota time must not be negative''))
      else bindE (mapE (make_scope_key U) (charge_keys (as_dict (gr_scope (ca_grant caller))))) (\<lambda>keys.
        let t1 = purge_expired \<lfloor>stamp\<rfloor> t
        in bindE (mapE (charge_one policy t1 stamp)
               (concat (map (\<lambda>k. map (\<lambda>(r, a). (k, r, a)) charges) keys))) (\<lambda>updates.
           Inr (fold upsert_usage (List.map_filter (\<lambda>x. x) updates) t1))))"

subsection \<open>What one call does\<close>

definition used_in :: "usage_table \<Rightarrow> slot \<Rightarrow> int" where
  "used_in t k = (case t k of None \<Rightarrow> 0 | Some (used, _) \<Rightarrow> used)"

lemma used_in_simps [simp]:
  "t k = None \<Longrightarrow> used_in t k = 0" "t k = Some (u, e) \<Longrightarrow> used_in t k = u"
  by (simp_all add: used_in_def)

text \<open>
  What a call charges a slot: an amount and the end of the slot's window, when the slot's key is
  among the caller's keys, its resource among the charges, and its window is the current one.
\<close>

definition slot_charge :: "quota_policy \<Rightarrow> real \<Rightarrow> scope_key \<times> quota_resource \<times> int \<Rightarrow> int \<Rightarrow> (int \<times> int) option" where
  "slot_charge policy stamp = (\<lambda>(key, r, start) amount.
     case limit_for policy r of
       None \<Rightarrow> None
     | Some l \<Rightarrow> (case ql_window l of None \<Rightarrow> None
         | Some w \<Rightarrow> if window_start stamp (Some w) = start then Some (amount, start + w) else None))"

definition charge_of :: "quota_policy \<Rightarrow> real \<Rightarrow> scope_key list \<Rightarrow> charges \<Rightarrow> slot \<Rightarrow> (int \<times> int) option" where
  "charge_of policy stamp keys charges = (\<lambda>(key, r, start).
     if key \<in> set keys
     then Option.bind (map_of charges r) (slot_charge policy stamp (key, r, start))
     else None)"

lemma charge_one_Inr:
  "charge_one policy t stamp (key, r, a) = Inr y \<longleftrightarrow>
     (case limit_for policy r of
        None \<Rightarrow> y = None
      | Some l \<Rightarrow> 1 \<le> a \<and>
          (case ql_window l of
             None \<Rightarrow> a \<le> ql_amount l \<and> y = None
           | Some w \<Rightarrow>
               0 \<le> used_in t (key, r, window_start stamp (Some w))
               \<and> used_in t (key, r, window_start stamp (Some w)) + a \<le> ql_amount l
               \<and> y = Some ((key, r, window_start stamp (Some w)),
                      used_in t (key, r, window_start stamp (Some w)) + a, window_start stamp (Some w) + w)))"
  by (cases "limit_for policy r")
    (auto simp: charge_one_def Let_def check_decision_input_def evaluate_allow used_in_def
      split: option.splits)

lemma upserts:
  "distinct (map fst us) \<Longrightarrow>
     fold upsert_usage us t k = (case map_of us k of None \<Rightarrow> t k | Some v \<Rightarrow> Some v)"
proof (induction us arbitrary: t)
  case (Cons u us)
  then have "map_of us (fst u) = None" by (auto simp: map_of_eq_None_iff)
  with Cons show ?case by (auto simp: upsert_usage_def split: option.splits)
qed simp

lemma charge_list:
  assumes "list_all2 (\<lambda>x y. charge_one policy t stamp x = Inr y) items ups"
    and "distinct (map (\<lambda>(k, r, a). (k, r)) items)"
  shows "distinct (map fst (List.map_filter (\<lambda>x. x) ups)) \<and>
    (\<forall>u \<in> fst ` set (List.map_filter (\<lambda>x. x) ups). (fst u, fst (snd u)) \<in> (\<lambda>(k, r, a). (k, r)) ` set items) \<and>
    map_of (List.map_filter (\<lambda>x. x) ups) (k, r, start) =
      map_option (\<lambda>(a, e). (used_in t (k, r, start) + a, e))
        (Option.bind (map_of (map (\<lambda>(k, r, a). ((k, r), a)) items) (k, r))
          (slot_charge policy stamp (k, r, start)))"
  using assms
proof (induction items ups rule: list_all2_induct)
  case (Cons x xs y ys)
  obtain k' r' a where x: "x = (k', r', a)" by (cases x)
  from Cons.prems have d: "distinct (map (\<lambda>(k, r, a). (k, r)) xs)" and new: "(k', r') \<notin> (\<lambda>(k, r, a). (k, r)) ` set xs"
    by (auto simp: x)
  have none: "map_of (map (\<lambda>(k, r, a). ((k, r), a)) xs) (k', r') = None"
    using new by (force simp: map_of_eq_None_iff)
  note IH = Cons.IH [OF d]
  show ?case
  proof (cases y)
    case None
    with Cons.hyps(1) x have sc: "slot_charge policy stamp (k', r', start) a = None"
      by (auto simp: charge_one_Inr slot_charge_def split: option.splits)
    from IH None sc none show ?thesis by (auto simp: x map_filter_simps)
  next
    case (Some u)
    with Cons.hyps(1) x obtain l w where l: "limit_for policy r' = Some l" "ql_window l = Some w"
      and u: "u = ((k', r', window_start stamp (Some w)), used_in t (k', r', window_start stamp (Some w)) + a,
          window_start stamp (Some w) + w)"
      by (auto simp: charge_one_Inr split: option.splits)
    have notin: "(k', r', st) \<notin> fst ` set (List.map_filter (\<lambda>x. x) ys)" for st
    proof
      assume "(k', r', st) \<in> fst ` set (List.map_filter (\<lambda>x. x) ys)"
      with IH have "(fst (k', r', st), fst (snd (k', r', st))) \<in> (\<lambda>(k, r, a). (k, r)) ` set xs" by blast
      with new show False by simp
    qed
    define us where "us = List.map_filter (\<lambda>x. x) ys"
    have fs: "List.map_filter (\<lambda>x. x) (y # ys) = u # us" using Some by (simp add: us_def map_filter_simps)
    from notin have no: "map_of us (k', r', st) = None" for st
      by (simp add: map_of_eq_None_iff us_def)
    have 1: "distinct (map fst (u # us))" using IH notin by (simp add: us_def u)
    have 2: "\<forall>v \<in> fst ` set (u # us). (fst v, fst (snd v)) \<in> (\<lambda>(k, r, a). (k, r)) ` set (x # xs)"
      using IH by (simp add: us_def u x)
    have 3: "map_of (u # us) (k, r, start) =
      map_option (\<lambda>(a, e). (used_in t (k, r, start) + a, e))
        (Option.bind (map_of (map (\<lambda>(k, r, a). ((k, r), a)) (x # xs)) (k, r))
          (slot_charge policy stamp (k, r, start)))"
    proof (cases "(k, r) = (k', r')")
      case True
      then show ?thesis using no l by (simp add: u x slot_charge_def)
    next
      case False
      then show ?thesis using IH by (auto simp: us_def u x)
    qed
    from 1 2 3 show ?thesis by (simp only: fs simp_thms)
  qed
qed (simp add: map_filter_simps)

text \<open>The keys of a normalized caller are distinct, and already in their normal form.\<close>

lemma make_scope_key_canonical:
  "canonical_id U v \<Longrightarrow> make_scope_key U [(d, v)] = Inr [(d, v)]"
  "canonical_id U v \<Longrightarrow> canonical_id U w \<Longrightarrow>
     make_scope_key U [(TENANT, v), (USER, w)] = Inr [(TENANT, v), (USER, w)]"
  by (cases d; simp add: make_scope_key_def canonical_id_def dimension_order_def map_filter_simps)+

lemma set_charge_keys:
  "k \<in> set (charge_keys dict) \<Longrightarrow>
     (\<exists>t \<in> set (dict_values dict TENANT). k = [(TENANT, t)])
   \<or> (\<exists>u \<in> set (dict_values dict USER). \<exists>t \<in> set (dict_values dict TENANT). k = [(TENANT, t), (USER, u)])
   \<or> dict_values dict TENANT = [] \<and> (\<exists>u \<in> set (dict_values dict USER). k = [(USER, u)])
   \<or> dict_values dict TENANT = [] \<and> (\<exists>v \<in> set (dict_values dict AGENT). k = [(AGENT, v)])
   \<or> charge_keys dict = [[(AGENT, single_owner_id)]]"
  by (auto simp: charge_keys_def Let_def split: if_splits)

lemma dict_values_as_dict [simp]: "dict_values (as_dict s) d = sorted_values (scope_values s d)"
  by (simp add: dict_values_def map_of_as_dict)

lemma distinct_user_keys:
  fixes us :: "'a list"
  assumes "distinct us" and "distinct ts"
  shows "distinct (concat (map (\<lambda>u. map (\<lambda>t. case t of None \<Rightarrow> [(USER, u)] | Some t \<Rightarrow> [(TENANT, t), (USER, u)]) ts) us))"
  using assms(1)
proof (induction us)
  case (Cons u us)
  have "inj (\<lambda>t :: 'a option. case t of None \<Rightarrow> [(USER, u)] | Some t \<Rightarrow> [(TENANT, t), (USER, u)])"
    by (auto simp: inj_def split: option.splits)
  then have "distinct (map (\<lambda>t. case t of None \<Rightarrow> [(USER, u)] | Some t \<Rightarrow> [(TENANT, t), (USER, u)]) ts)"
    using assms(2) by (auto simp: distinct_map intro: inj_on_subset)
  with Cons show ?case by (auto split: option.splits)
qed simp

lemma distinct_charge_keys: "distinct (charge_keys (as_dict s))"
proof -
  let ?ts = "if sorted_values (scope_values s TENANT) = [] then [None]
    else map Some (sorted_values (scope_values s TENANT))"
  have "distinct ?ts" by (simp add: distinct_map)
  then have u: "distinct (concat (map (\<lambda>u. map (\<lambda>t. case t of None \<Rightarrow> [(USER, u)] | Some t \<Rightarrow> [(TENANT, t), (USER, u)])
      ?ts) (sorted_values (scope_values s USER))))"
    by (intro distinct_user_keys) simp_all
  have m: "distinct (map (\<lambda>t. [(d, t)]) (sorted_values vs))" for d :: identity_dimension and vs
    by (simp add: distinct_map inj_on_def)
  from u m show ?thesis
    by (auto simp del: map_map scope_values.simps simp: charge_keys_def Let_def split: option.splits)
qed

lemma caller_keys:
  assumes "caller_wf U c"
    and "mapE (make_scope_key U) (charge_keys (as_dict (gr_scope (ca_grant c)))) = Inr keys"
  shows "distinct keys"
    and "charge_keys (as_dict (gr_scope (ca_grant c))) \<noteq> [[(AGENT, single_owner_id)]] \<Longrightarrow>
      keys = charge_keys (as_dict (gr_scope (ca_grant c)))"
proof -
  let ?s = "gr_scope (ca_grant c)"
  show keys: "keys = charge_keys (as_dict ?s)" if "charge_keys (as_dict ?s) \<noteq> [[(AGENT, single_owner_id)]]"
  proof -
    have can: "canonical_id U v" if "v \<in> set (sorted_values (scope_values ?s d))" for v d
      using that assms(1) by (auto simp: caller_wf_def scope_wf_def)
    have "make_scope_key U k = Inr k" if "k \<in> set (charge_keys (as_dict ?s))" for k
      using set_charge_keys [OF that] \<open>charge_keys (as_dict ?s) \<noteq> _\<close> can
      by (auto simp del: scope_values.simps simp: make_scope_key_canonical)
    then have "mapE (make_scope_key U) (charge_keys (as_dict ?s)) = Inr (charge_keys (as_dict ?s))"
      by (rule mapE_Inr_id)
    with assms(2) show ?thesis by simp
  qed
  show "distinct keys"
  proof (cases "charge_keys (as_dict ?s) = [[(AGENT, single_owner_id)]]")
    case True
    with mapE_length [OF assms(2)] have "length keys = 1" by simp
    then show ?thesis by (cases keys) auto
  next
    case False
    then show ?thesis using keys distinct_charge_keys by simp
  qed
qed

text \<open>A successful call, slot by slot.\<close>

lemma map_of_items:
  "map_of (map (\<lambda>(k, r, a). ((k, r), a)) (concat (map (\<lambda>k. map (\<lambda>(r, a). (k, r, a)) charges) keys))) (k, r)
   = (if k \<in> set keys then map_of charges r else None)"
proof (induction keys)
  case (Cons k' keys)
  have "map_of (map (\<lambda>(k, r, a). ((k, r), a)) (map (\<lambda>(r, a). (k', r, a)) charges)) (k, r)
      = (if k = k' then map_of charges r else None)"
    by (induction charges) auto
  with Cons show ?case by (auto simp: map_add_def split: option.splits)
qed simp

lemma distinct_items:
  assumes "distinct keys" and "distinct (map fst charges)"
  shows "distinct (map (\<lambda>(k, r, a). (k, r)) (concat (map (\<lambda>k. map (\<lambda>(r, a). (k, r, a)) charges) keys)))"
  using assms(1)
proof (induction keys)
  case (Cons k keys)
  have "distinct (map (Pair k) (map fst charges))"
    using assms(2) by (simp add: distinct_map inj_on_def)
  then have "distinct (map (\<lambda>(k, r, a). (k, r)) (map (\<lambda>(r, a). (k, r, a)) charges))"
    by (simp add: comp_def case_prod_beta)
  with Cons show ?case by auto
qed simp

lemma reserve_Inr:
  assumes "reserve U policy c charges stamp t = Inr t'" and "caller_wf U c" and "distinct (map fst charges)"
  obtains keys where
    "mapE (make_scope_key U) (charge_keys (as_dict (gr_scope (ca_grant c)))) = Inr keys" and "0 \<le> stamp"
    and "\<And>k. t' k = (case charge_of policy stamp keys charges k of
        None \<Rightarrow> purge_expired \<lfloor>stamp\<rfloor> t k
      | Some (a, e) \<Rightarrow> Some (used_in (purge_expired \<lfloor>stamp\<rfloor> t) k + a, e))"
    and "\<And>k r a. k \<in> set keys \<Longrightarrow> (r, a) \<in> set charges \<Longrightarrow>
        \<exists>y. charge_one policy (purge_expired \<lfloor>stamp\<rfloor> t) stamp (k, r, a) = Inr y"
proof -
  let ?t = "purge_expired \<lfloor>stamp\<rfloor> t"
  from assms(1) obtain keys ups where stamp: "0 \<le> stamp"
    and keys: "mapE (make_scope_key U) (charge_keys (as_dict (gr_scope (ca_grant c)))) = Inr keys"
    and ups: "mapE (charge_one policy ?t stamp) (concat (map (\<lambda>k. map (\<lambda>(r, a). (k, r, a)) charges) keys)) = Inr ups"
    and t': "t' = fold upsert_usage (List.map_filter (\<lambda>x. x) ups) ?t"
    by (auto simp: reserve_def Let_def split: if_splits)
  let ?items = "concat (map (\<lambda>k. map (\<lambda>(r, a). (k, r, a)) charges) keys)"
  from ups have all: "list_all2 (\<lambda>x y. charge_one policy ?t stamp x = Inr y) ?items ups"
    by (simp add: mapE_eq_Inr)
  have dk: "distinct keys" by (rule caller_keys [OF assms(2) keys])
  note cl = charge_list [OF all distinct_items [OF dk assms(3)]]
  have slot: "t' (k, r, st) = (case charge_of policy stamp keys charges (k, r, st) of
        None \<Rightarrow> ?t (k, r, st) | Some (a, e) \<Rightarrow> Some (used_in ?t (k, r, st) + a, e))" for k r st
  proof -
    from cl [of k r st] have d: "distinct (map fst (List.map_filter (\<lambda>x. x) ups))" by (rule conjunct1)
    from cl [of k r st] have m: "map_of (List.map_filter (\<lambda>x. x) ups) (k, r, st)
      = map_option (\<lambda>(a, e). (used_in ?t (k, r, st) + a, e)) (charge_of policy stamp keys charges (k, r, st))"
      by (simp only: charge_of_def map_of_items prod.case) simp
    show ?thesis using upserts [OF d, of ?t "(k, r, st)"] m t' by (auto split: option.splits)
  qed
  have ok: "\<exists>y. charge_one policy ?t stamp (k, r, a) = Inr y"
    if "k \<in> set keys" "(r, a) \<in> set charges" for k r a
  proof -
    from that have "(k, r, a) \<in> set ?items" by auto
    with ups show ?thesis by (rule mapE_ok)
  qed
  from slot have "t' k = (case charge_of policy stamp keys charges k of
        None \<Rightarrow> ?t k | Some (a, e) \<Rightarrow> Some (used_in ?t k + a, e))" for k
    by (cases k) (simp only: slot)
  with keys stamp ok that show ?thesis by blast
qed

subsection \<open>Runs\<close>

record quota_call =
  qc_caller :: caller_authority
  qc_charges :: charges
  qc_stamp :: real

definition call_ok :: "unicode_tables \<Rightarrow> quota_call \<Rightarrow> bool" where
  "call_ok U call \<longleftrightarrow> caller_wf U (qc_caller call) \<and> distinct (map fst (qc_charges call))"

definition run_reserve :: "unicode_tables \<Rightarrow> quota_policy \<Rightarrow> quota_call \<Rightarrow> usage_table \<Rightarrow> usage_table result" where
  "run_reserve U policy call t = reserve U policy (qc_caller call) (qc_charges call) (qc_stamp call) t"

definition quota_step :: "unicode_tables \<Rightarrow> quota_policy \<Rightarrow> quota_call \<Rightarrow> usage_table \<Rightarrow> usage_table" where
  "quota_step U policy call t = (case run_reserve U policy call t of Inl _ \<Rightarrow> t | Inr t' \<Rightarrow> t')"

definition quota_inv :: "quota_policy \<Rightarrow> usage_table \<Rightarrow> bool" where
  "quota_inv policy t \<longleftrightarrow> (\<forall>k r start u e. t (k, r, start) = Some (u, e) \<longrightarrow>
     (\<exists>l w. limit_for policy r = Some l \<and> ql_window l = Some w \<and> 1 \<le> u \<and> u \<le> ql_amount l \<and> e = start + w))"

lemma quota_invD:
  "quota_inv policy t \<Longrightarrow> t (k, r, start) = Some (u, e) \<Longrightarrow> limit_for policy r = Some l \<Longrightarrow>
     ql_window l = Some w \<Longrightarrow> 1 \<le> u \<and> u \<le> ql_amount l \<and> e = start + w"
  unfolding quota_inv_def by fastforce

lemma purge_SomeD: "purge_expired now t k = Some (u, e) \<Longrightarrow> t k = Some (u, e) \<and> now < e"
  by (auto simp: purge_expired_def split: option.splits if_splits)

lemma slot_charge_SomeD:
  "slot_charge policy stamp (k, r, start) a' = Some (a, e) \<Longrightarrow>
     a' = a \<and> (\<exists>l w. limit_for policy r = Some l \<and> ql_window l = Some w
       \<and> window_start stamp (Some w) = start \<and> e = start + w)"
  by (cases "limit_for policy r"; cases "ql_window (the (limit_for policy r))")
    (auto simp: slot_charge_def split: if_splits)

lemma charge_of_SomeD:
  assumes "charge_of policy stamp keys charges (k, r, start) = Some (a, e)"
  shows "k \<in> set keys \<and> (r, a) \<in> set charges \<and> (\<exists>l w. limit_for policy r = Some l \<and> ql_window l = Some w
       \<and> window_start stamp (Some w) = start \<and> e = start + w)"
proof -
  from assms obtain a' where "k \<in> set keys" "map_of charges r = Some a'"
    and "slot_charge policy stamp (k, r, start) a' = Some (a, e)"
    by (auto simp: charge_of_def bind_eq_Some_conv split: if_splits)
  with slot_charge_SomeD map_of_SomeD show ?thesis by metis
qed

text \<open>What a successful call leaves in a slot it charged.\<close>

lemma reserve_charged:
  assumes "reserve U policy c charges stamp t = Inr t'" and "caller_wf U c" and "distinct (map fst charges)"
    and keys: "mapE (make_scope_key U) (charge_keys (as_dict (gr_scope (ca_grant c)))) = Inr keys"
    and "charge_of policy stamp keys charges (k, r, start) = Some (a, e)"
    and "limit_for policy r = Some l"
  shows "t' (k, r, start) = Some (used_in (purge_expired \<lfloor>stamp\<rfloor> t) (k, r, start) + a, e)"
    and "1 \<le> a" and "0 \<le> used_in (purge_expired \<lfloor>stamp\<rfloor> t) (k, r, start)"
    and "used_in (purge_expired \<lfloor>stamp\<rfloor> t) (k, r, start) + a \<le> ql_amount l"
proof -
  obtain keys' where keys': "mapE (make_scope_key U) (charge_keys (as_dict (gr_scope (ca_grant c)))) = Inr keys'"
    and slot: "\<And>k. t' k = (case charge_of policy stamp keys' charges k of
        None \<Rightarrow> purge_expired \<lfloor>stamp\<rfloor> t k
      | Some (a, e) \<Rightarrow> Some (used_in (purge_expired \<lfloor>stamp\<rfloor> t) k + a, e))"
    and ok: "\<And>k r a. k \<in> set keys' \<Longrightarrow> (r, a) \<in> set charges \<Longrightarrow>
        \<exists>y. charge_one policy (purge_expired \<lfloor>stamp\<rfloor> t) stamp (k, r, a) = Inr y"
    using reserve_Inr [OF assms(1-3)] by metis
  from keys keys' have [simp]: "keys' = keys" by simp
  from charge_of_SomeD [OF assms(5)] obtain w where c: "k \<in> set keys" "(r, a) \<in> set charges"
    "ql_window l = Some w" "window_start stamp (Some w) = start"
    using assms(6) by auto
  from ok [of k r a] c assms(6) show "1 \<le> a" and "0 \<le> used_in (purge_expired \<lfloor>stamp\<rfloor> t) (k, r, start)"
    and "used_in (purge_expired \<lfloor>stamp\<rfloor> t) (k, r, start) + a \<le> ql_amount l"
    by (auto simp: charge_one_Inr)
  show "t' (k, r, start) = Some (used_in (purge_expired \<lfloor>stamp\<rfloor> t) (k, r, start) + a, e)"
    using slot [of "(k, r, start)"] assms(5) by simp
qed

lemma reserve_uncharged:
  assumes "reserve U policy c charges stamp t = Inr t'" and "caller_wf U c" and "distinct (map fst charges)"
    and keys: "mapE (make_scope_key U) (charge_keys (as_dict (gr_scope (ca_grant c)))) = Inr keys"
    and "charge_of policy stamp keys charges k = None"
  shows "t' k = purge_expired \<lfloor>stamp\<rfloor> t k"
proof -
  obtain keys' where keys': "mapE (make_scope_key U) (charge_keys (as_dict (gr_scope (ca_grant c)))) = Inr keys'"
    and slot: "\<And>k. t' k = (case charge_of policy stamp keys' charges k of
        None \<Rightarrow> purge_expired \<lfloor>stamp\<rfloor> t k
      | Some (a, e) \<Rightarrow> Some (used_in (purge_expired \<lfloor>stamp\<rfloor> t) k + a, e))"
    using reserve_Inr [OF assms(1-3)] by metis
  from keys keys' have [simp]: "keys' = keys" by simp
  show ?thesis using slot [of k] assms(5) by simp
qed

lemma reserve_keys:
  "reserve U policy c charges stamp t = Inr t' \<Longrightarrow>
     \<exists>keys. mapE (make_scope_key U) (charge_keys (as_dict (gr_scope (ca_grant c)))) = Inr keys"
  by (auto simp: reserve_def split: if_splits)

lemma reserve_inv:
  assumes "reserve U policy c charges stamp t = Inr t'" and "caller_wf U c" and "distinct (map fst charges)"
    and "quota_inv policy t"
  shows "quota_inv policy t'"
  unfolding quota_inv_def
proof (intro allI impI)
  fix k r start u e
  assume row: "t' (k, r, start) = Some (u, e)"
  obtain keys where keys: "mapE (make_scope_key U) (charge_keys (as_dict (gr_scope (ca_grant c)))) = Inr keys"
    using reserve_keys [OF assms(1)] by blast
  show "\<exists>l w. limit_for policy r = Some l \<and> ql_window l = Some w \<and> 1 \<le> u \<and> u \<le> ql_amount l \<and> e = start + w"
  proof (cases "charge_of policy stamp keys charges (k, r, start)")
    case None
    from reserve_uncharged [OF assms(1-3) keys None] row
    have "purge_expired \<lfloor>stamp\<rfloor> t (k, r, start) = Some (u, e)" by simp
    then have "t (k, r, start) = Some (u, e)" by (blast dest: purge_SomeD)
    with assms(4) show ?thesis by (simp add: quota_inv_def)
  next
    case (Some v)
    obtain a e' where v: "v = (a, e')" by (cases v)
    from charge_of_SomeD [OF Some [unfolded v]] obtain l w
      where l: "limit_for policy r = Some l" "ql_window l = Some w" "e' = start + w" by blast
    from reserve_charged [OF assms(1-3) keys Some [unfolded v] l(1)] row l show ?thesis by auto
  qed
qed

interpretation quota: op_machine "quota_step U policy" "call_ok U" "quota_inv policy" for U policy
  by unfold_locales (auto simp: quota_step_def run_reserve_def call_ok_def intro: reserve_inv split: sum.splits)

lemma quota_inv_empty: "quota_inv policy Map.empty"
  by (simp add: quota_inv_def)

subsection \<open>Totals over a run\<close>

text \<open>What the successful calls of a run charged one slot.\<close>

definition call_charge :: "unicode_tables \<Rightarrow> quota_policy \<Rightarrow> slot \<Rightarrow> quota_call \<Rightarrow> int" where
  "call_charge U policy k call =
     (case mapE (make_scope_key U) (charge_keys (as_dict (gr_scope (ca_grant (qc_caller call))))) of
        Inl _ \<Rightarrow> 0
      | Inr keys \<Rightarrow> (case charge_of policy (qc_stamp call) keys (qc_charges call) k of
          None \<Rightarrow> 0 | Some (a, _) \<Rightarrow> a))"

fun admitted :: "unicode_tables \<Rightarrow> quota_policy \<Rightarrow> slot \<Rightarrow> quota_call list \<Rightarrow> usage_table \<Rightarrow> int" where
  "admitted U policy k [] t = 0"
| "admitted U policy k (call # calls) t =
     (case run_reserve U policy call t of
        Inl _ \<Rightarrow> admitted U policy k calls t
      | Inr t' \<Rightarrow> call_charge U policy k call + admitted U policy k calls t')"

lemma window_bounds:
  assumes "1 \<le> w"
  shows "window_start stamp (Some w) \<le> \<lfloor>stamp\<rfloor>" and "\<lfloor>stamp\<rfloor> < window_start stamp (Some w) + w"
proof -
  have "window_start stamp (Some w) = \<lfloor>stamp\<rfloor> div w * w"
    using assms by (simp add: window_start_def floor_divide_real_eq_div)
  moreover have "\<lfloor>stamp\<rfloor> div w * w + \<lfloor>stamp\<rfloor> mod w = \<lfloor>stamp\<rfloor>" by simp
  moreover have "0 \<le> \<lfloor>stamp\<rfloor> mod w" "\<lfloor>stamp\<rfloor> mod w < w" using assms by simp_all
  ultimately show "window_start stamp (Some w) \<le> \<lfloor>stamp\<rfloor>"
    and "\<lfloor>stamp\<rfloor> < window_start stamp (Some w) + w" by linarith+
qed

lemma window_later:
  assumes "1 \<le> w" and "window_start stamp (Some w) + w \<le> \<lfloor>stamp'\<rfloor>"
  shows "window_start stamp (Some w) + w \<le> window_start stamp' (Some w)"
proof -
  have e: "window_start x (Some w) = \<lfloor>x\<rfloor> div w * w" for x
    using assms(1) by (simp add: window_start_def floor_divide_real_eq_div)
  have "(\<lfloor>stamp\<rfloor> div w + 1) * w \<le> \<lfloor>stamp'\<rfloor>" using assms(2) by (simp add: e algebra_simps)
  then have "\<lfloor>stamp\<rfloor> div w + 1 \<le> \<lfloor>stamp'\<rfloor> div w"
    using assms(1) by (metis add.commute div_by_1 less_le_trans nonzero_mult_div_cancel_right
        zdiv_mono1 zero_less_one zless_imp_add1_zle not_one_le_zero order_less_imp_le linorder_not_le)
  then have "(\<lfloor>stamp\<rfloor> div w + 1) * w \<le> \<lfloor>stamp'\<rfloor> div w * w" using assms(1) by (intro mult_right_mono) simp_all
  then show ?thesis by (simp add: e algebra_simps)
qed

lemma call_charge_window:
  assumes "call_charge U policy (k, r, start) call \<noteq> 0" and "limit_for policy r = Some l" and "ql_window l = Some w"
  shows "window_start (qc_stamp call) (Some w) = start"
  using assms by (auto simp: call_charge_def split: sum.splits option.splits dest: charge_of_SomeD)

lemma admitted_past:
  assumes "1 \<le> w" and "limit_for policy r = Some l" and "ql_window l = Some w"
    and "\<forall>c \<in> set calls. start + w \<le> \<lfloor>qc_stamp c\<rfloor>"
  shows "admitted U policy (k, r, start) calls t = 0"
  using assms(4)
proof (induction calls arbitrary: t)
  case (Cons c calls)
  have "call_charge U policy (k, r, start) c = 0"
    using call_charge_window [OF _ assms(2,3)] window_bounds(2) [OF assms(1), of "qc_stamp c"] Cons.prems
    by fastforce
  with Cons show ?case by (auto split: sum.splits)
qed simp

lemma used_in_bound:
  assumes "policy_ok policy" and "quota_inv policy t" and "limit_for policy r = Some l" and "ql_window l = Some w"
  shows "used_in t (k, r, start) \<le> ql_amount l"
proof (cases "t (k, r, start)")
  case None
  then show ?thesis using limit_for_SomeD [OF assms(3,1)] by (simp add: limit_ok_def)
next
  case (Some v)
  then show ?thesis using quota_invD [OF assms(2) _ assms(3,4)] by (cases v) fastforce
qed

lemma admitted_bound:
  assumes "policy_ok policy" and "limit_for policy r = Some l" and "ql_window l = Some w"
    and "quota_inv policy t" and "list_all (call_ok U) calls" and "sorted (map qc_stamp calls)"
  shows "admitted U policy (k, r, start) calls t + used_in t (k, r, start) \<le> ql_amount l"
  using assms(4-6)
proof (induction calls arbitrary: t)
  case Nil
  then show ?case using used_in_bound [OF assms(1) _ assms(2,3)] by simp
next
  case (Cons c calls)
  let ?k = "(k, r, start)" and ?p = "purge_expired \<lfloor>qc_stamp c\<rfloor> t"
  have w: "1 \<le> w" by (rule limit_window_pos [OF assms(2,1,3)])
  have ok: "caller_wf U (qc_caller c)" "distinct (map fst (qc_charges c))" "list_all (call_ok U) calls"
    and sorted: "sorted (map qc_stamp calls)" "\<forall>c' \<in> set calls. qc_stamp c \<le> qc_stamp c'"
    using Cons.prems by (simp_all add: call_ok_def [of U c])
  show ?case
  proof (cases "start + w \<le> \<lfloor>qc_stamp c\<rfloor>")
    case True
    with sorted(2) have "\<forall>c' \<in> set (c # calls). start + w \<le> \<lfloor>qc_stamp c'\<rfloor>"
      by (fastforce intro: order_trans floor_mono)
    from admitted_past [OF w assms(2,3) this] used_in_bound [OF assms(1) Cons.prems(1) assms(2,3)]
    show ?thesis by simp
  next
    case False
    show ?thesis
    proof (cases "run_reserve U policy c t")
      case (Inl e)
      then show ?thesis using Cons.IH [OF Cons.prems(1) ok(3) sorted(1)] by simp
    next
      case (Inr t')
      note r = Inr [unfolded run_reserve_def] ok(1,2)
      obtain keys where keys: "mapE (make_scope_key U) (charge_keys (as_dict (gr_scope (ca_grant (qc_caller c))))) = Inr keys"
        using reserve_keys [OF r(1)] by blast
      have same: "?p ?k = t ?k"
        using False quota_invD [OF Cons.prems(1) _ assms(2,3)]
        by (cases "t ?k") (fastforce simp: purge_expired_def)+
      have "call_charge U policy ?k c + used_in t ?k = used_in t' ?k"
      proof (cases "charge_of policy (qc_stamp c) keys (qc_charges c) ?k")
        case None
        then show ?thesis using reserve_uncharged [OF r keys None] same
          by (simp add: call_charge_def keys used_in_def)
      next
        case (Some v)
        then obtain a e where "charge_of policy (qc_stamp c) keys (qc_charges c) ?k = Some (a, e)" by (cases v) auto
        with reserve_charged(1) [OF r keys this assms(2)] same show ?thesis
          by (simp add: call_charge_def keys used_in_def)
      qed
      with Cons.IH [OF reserve_inv [OF r Cons.prems(1)] ok(3) sorted(1)] Inr show ?thesis by simp
    qed
  qed
qed

subsection \<open>Separation and retrying\<close>

lemma charge_one_cong:
  assumes "\<And>start. t (k, r, start) = t' (k, r, start)"
  shows "charge_one policy t stamp (k, r, a) = charge_one policy t' stamp (k, r, a)"
  by (simp add: charge_one_def assms Let_def split: option.split)

lemma reserve_agree:
  assumes "caller_wf U c" and "distinct (map fst charges)"
    and keys: "mapE (make_scope_key U) (charge_keys (as_dict (gr_scope (ca_grant c)))) = Inr keys"
    and agree: "\<And>k r start. k \<in> set keys \<Longrightarrow>
        purge_expired \<lfloor>stamp\<rfloor> t (k, r, start) = purge_expired \<lfloor>stamp\<rfloor> t' (k, r, start)"
  shows "(case reserve U policy c charges stamp t of
      Inl e \<Rightarrow> reserve U policy c charges stamp t' = Inl e
    | Inr u \<Rightarrow> \<exists>u'. reserve U policy c charges stamp t' = Inr u'
        \<and> (\<forall>k \<in> set keys. \<forall>r start. u (k, r, start) = u' (k, r, start)))"
proof -
  have same: "mapE (charge_one policy (purge_expired \<lfloor>stamp\<rfloor> t) stamp) (concat (map (\<lambda>k. map (\<lambda>(r, a). (k, r, a)) charges) keys))
    = mapE (charge_one policy (purge_expired \<lfloor>stamp\<rfloor> t') stamp) (concat (map (\<lambda>k. map (\<lambda>(r, a). (k, r, a)) charges) keys))"
    using agree by (intro mapE_cong) (auto intro: charge_one_cong)
  show ?thesis
  proof (cases "reserve U policy c charges stamp t")
    case (Inl e)
    with same keys show ?thesis
      by (cases "mapE (charge_one policy (purge_expired \<lfloor>stamp\<rfloor> t') stamp)
            (concat (map (\<lambda>k. map (\<lambda>(r, a). (k, r, a)) charges) keys))")
        (auto simp: reserve_def Let_def split: if_splits)
  next
    case (Inr u)
    with same keys obtain u' where u': "reserve U policy c charges stamp t' = Inr u'"
      by (auto simp: reserve_def Let_def split: if_splits)
    have "u (k, r, start) = u' (k, r, start)" if "k \<in> set keys" for k r start
    proof (cases "charge_of policy stamp keys charges (k, r, start)")
      case None
      then show ?thesis
        using reserve_uncharged [OF Inr assms(1,2) keys] reserve_uncharged [OF u' assms(1,2) keys] agree [OF that]
        by simp
    next
      case (Some v)
      then obtain a e where c: "charge_of policy stamp keys charges (k, r, start) = Some (a, e)" by (cases v) auto
      from charge_of_SomeD [OF this] obtain l where l: "limit_for policy r = Some l" by blast
      from reserve_charged(1) [OF Inr assms(1,2) keys c l] reserve_charged(1) [OF u' assms(1,2) keys c l] agree [OF that]
      show ?thesis by (simp add: used_in_def)
    qed
    with Inr u' show ?thesis by auto
  qed
qed

lemma purge_purge: "now \<le> later \<Longrightarrow> purge_expired later (purge_expired now t) = purge_expired later t"
  by (auto simp: purge_expired_def fun_eq_iff split: option.splits)

lemma purge_slot: "t k = t' k \<Longrightarrow> purge_expired now t k = purge_expired now t' k"
  by (simp add: purge_expired_def)

text \<open>A call by one caller leaves the slots of keys it is not charged under to the clock.\<close>

lemma step_other_keys:
  assumes "call_ok U call" and "qc_stamp call \<le> later"
    and "\<And>keys. mapE (make_scope_key U) (charge_keys (as_dict (gr_scope (ca_grant (qc_caller call))))) = Inr keys
      \<Longrightarrow> k \<notin> set keys"
  shows "purge_expired \<lfloor>later\<rfloor> (quota_step U policy call t) (k, r, start) = purge_expired \<lfloor>later\<rfloor> t (k, r, start)"
proof (cases "run_reserve U policy call t")
  case (Inl e)
  then show ?thesis by (simp add: quota_step_def)
next
  case (Inr t')
  note r = Inr [unfolded run_reserve_def]
  have ok: "caller_wf U (qc_caller call)" "distinct (map fst (qc_charges call))"
    using assms(1) by (simp_all add: call_ok_def)
  obtain keys where keys: "mapE (make_scope_key U) (charge_keys (as_dict (gr_scope (ca_grant (qc_caller call))))) = Inr keys"
    using reserve_keys [OF r] by blast
  from assms(3) [OF keys] have "charge_of policy (qc_stamp call) keys (qc_charges call) (k, r, start) = None"
    by (simp add: charge_of_def)
  from reserve_uncharged [OF r ok keys this]
  have "t' (k, r, start) = purge_expired \<lfloor>qc_stamp call\<rfloor> t (k, r, start)" .
  then have "purge_expired \<lfloor>later\<rfloor> t' (k, r, start)
      = purge_expired \<lfloor>later\<rfloor> (purge_expired \<lfloor>qc_stamp call\<rfloor> t) (k, r, start)"
    by (rule purge_slot)
  then show ?thesis using Inr by (simp add: quota_step_def purge_purge [OF floor_mono [OF assms(2)]])
qed

lemma tenant_keys:
  assumes "caller_wf U c" and "scope_values (gr_scope (ca_grant c)) TENANT \<noteq> {||}"
    and "mapE (make_scope_key U) (charge_keys (as_dict (gr_scope (ca_grant c)))) = Inr keys" and "k \<in> set keys"
  shows "\<exists>v. v |\<in>| scope_values (gr_scope (ca_grant c)) TENANT \<and> hd k = (TENANT, v)"
proof -
  let ?d = "as_dict (gr_scope (ca_grant c))"
  have ts: "dict_values ?d TENANT \<noteq> []" using assms(2) by simp
  then have "charge_keys ?d \<noteq> [[(AGENT, single_owner_id)]]"
    by (cases "dict_values ?d TENANT") (auto simp: charge_keys_def Let_def)
  with caller_keys(2) [OF assms(1,3)] assms(4) have "k \<in> set (charge_keys ?d)" by simp
  from set_charge_keys [OF this] ts \<open>charge_keys ?d \<noteq> _\<close> show ?thesis by auto
qed

lemma tenant_keys_canonical:
  assumes "caller_wf U c" and "scope_values (gr_scope (ca_grant c)) TENANT \<noteq> {||}"
  shows "mapE (make_scope_key U) (charge_keys (as_dict (gr_scope (ca_grant c))))
    = Inr (charge_keys (as_dict (gr_scope (ca_grant c))))"
proof (rule mapE_Inr_id)
  let ?d = "as_dict (gr_scope (ca_grant c))"
  fix k assume k: "k \<in> set (charge_keys ?d)"
  have ts: "dict_values ?d TENANT \<noteq> []" using assms(2) by simp
  then have "charge_keys ?d \<noteq> [[(AGENT, single_owner_id)]]"
    by (cases "dict_values ?d TENANT") (auto simp: charge_keys_def Let_def)
  moreover have "canonical_id U v" if "v \<in> set (sorted_values (scope_values (gr_scope (ca_grant c)) d))" for v d
    using that assms(1) by (auto simp: caller_wf_def scope_wf_def)
  ultimately show "make_scope_key U k = Inr k"
    using set_charge_keys [OF k] ts by (auto simp del: scope_values.simps simp: make_scope_key_canonical)
qed

lemma make_scope_key_error: "make_scope_key U k = Inl e \<Longrightarrow> \<exists>m. e = ValueError m"
  by (auto simp: make_scope_key_def bindE_eq_Inl normalize_identifier_def Let_def split: if_splits dest!: mapE_fail)

lemma refused_keys:
  assumes "reserve U policy c charges stamp t = Inl (QuotaExceededError ra)"
  shows "\<exists>keys. mapE (make_scope_key U) (charge_keys (as_dict (gr_scope (ca_grant c)))) = Inr keys"
proof (cases "mapE (make_scope_key U) (charge_keys (as_dict (gr_scope (ca_grant c))))")
  case (Inl e)
  then obtain m where "e = ValueError m" using mapE_fail make_scope_key_error by metis
  with Inl assms show ?thesis by (simp add: reserve_def split: if_splits)
qed blast

text \<open>Rows never start after the present.\<close>

definition rows_until :: "int \<Rightarrow> usage_table \<Rightarrow> bool" where
  "rows_until now t \<longleftrightarrow> (\<forall>k r start v. t (k, r, start) = Some v \<longrightarrow> start \<le> now)"

lemma rows_untilD: "rows_until now t \<Longrightarrow> t (k, r, start) = Some v \<Longrightarrow> start \<le> now"
  unfolding rows_until_def by blast

lemma rows_until_mono: "rows_until now t \<Longrightarrow> now \<le> later \<Longrightarrow> rows_until later t"
  unfolding rows_until_def by (meson order_trans)

lemma reserve_rows_until:
  assumes "policy_ok policy" and "call_ok U call" and "rows_until \<lfloor>qc_stamp call\<rfloor> t"
  shows "rows_until \<lfloor>qc_stamp call\<rfloor> (quota_step U policy call t)"
proof (cases "run_reserve U policy call t")
  case (Inl e)
  with assms(3) show ?thesis by (simp add: quota_step_def)
next
  case (Inr t')
  note r = Inr [unfolded run_reserve_def]
  have ok: "caller_wf U (qc_caller call)" "distinct (map fst (qc_charges call))"
    using assms(2) by (simp_all add: call_ok_def)
  obtain keys where keys: "mapE (make_scope_key U) (charge_keys (as_dict (gr_scope (ca_grant (qc_caller call))))) = Inr keys"
    using reserve_keys [OF r] by blast
  have "start \<le> \<lfloor>qc_stamp call\<rfloor>" if row: "t' (k, r', start) = Some v" for k r' start v
  proof (cases "charge_of policy (qc_stamp call) keys (qc_charges call) (k, r', start)")
    case None
    from reserve_uncharged [OF r ok keys None] row
    have "purge_expired \<lfloor>qc_stamp call\<rfloor> t (k, r', start) = Some v" by simp
    then have "t (k, r', start) = Some v" by (cases v) (blast dest: purge_SomeD)
    with assms(3) show ?thesis by (rule rows_untilD)
  next
    case (Some x)
    then obtain a e where "charge_of policy (qc_stamp call) keys (qc_charges call) (k, r', start) = Some (a, e)"
      by (cases x) auto
    from charge_of_SomeD [OF this] show ?thesis
      using window_bounds(1) limit_window_pos [OF _ assms(1)] by blast
  qed
  with Inr show ?thesis by (simp add: quota_step_def rows_until_def)
qed

lemma run_rows_until:
  assumes "policy_ok policy" and "list_all (call_ok U) calls" and "sorted (map qc_stamp calls)"
    and "\<forall>c \<in> set calls. qc_stamp c \<le> now" and "rows_until \<lfloor>start\<rfloor> t" and "\<forall>c \<in> set calls. start \<le> qc_stamp c"
    and "start \<le> now"
  shows "rows_until \<lfloor>now\<rfloor> (fold (quota_step U policy) calls t)"
  using assms(2-7)
proof (induction calls arbitrary: t start)
  case Nil
  then show ?case using rows_until_mono [OF _ floor_mono [of start now]] by simp
next
  case (Cons c calls)
  from Cons.prems have "rows_until \<lfloor>qc_stamp c\<rfloor> t"
    using rows_until_mono [OF _ floor_mono [of start "qc_stamp c"]] by simp
  from reserve_rows_until [OF assms(1) _ this] Cons.prems
  show ?case by (auto intro!: Cons.IH [of "qc_stamp c"])
qed

lemma reserve_fresh:
  assumes "mapE (make_scope_key U) (charge_keys (as_dict (gr_scope (ca_grant c)))) = Inr keys" and "0 \<le> stamp"
    and "limit_for policy r = Some l" and "1 \<le> a" and "a \<le> ql_amount l"
    and "\<And>k w. k \<in> set keys \<Longrightarrow> ql_window l = Some w \<Longrightarrow>
      purge_expired \<lfloor>stamp\<rfloor> t (k, r, window_start stamp (Some w)) = None"
  shows "\<exists>t'. reserve U policy c [(r, a)] stamp t = Inr t'"
proof -
  have "\<exists>y. charge_one policy (purge_expired \<lfloor>stamp\<rfloor> t) stamp (k, r, a) = Inr y" if "k \<in> set keys" for k
    using assms(3-5) assms(6) [OF that] by (cases "ql_window l") (auto simp: charge_one_Inr)
  then obtain ys where "mapE (charge_one policy (purge_expired \<lfloor>stamp\<rfloor> t) stamp)
      (concat (map (\<lambda>k. map (\<lambda>(r, a). (k, r, a)) [(r, a)]) keys)) = Inr ys"
    using mapE_total [of "concat (map (\<lambda>k. map (\<lambda>(r, a). (k, r, a)) [(r, a)]) keys)"
        "charge_one policy (purge_expired \<lfloor>stamp\<rfloor> t) stamp"] by auto
  with assms(1,2) show ?thesis by (simp add: reserve_def Let_def)
qed

lemma reserve_refused:
  assumes "reserve U policy c [(r, a)] stamp t = Inl (QuotaExceededError ra)"
    and "limit_for policy r = Some l"
    and keys: "mapE (make_scope_key U) (charge_keys (as_dict (gr_scope (ca_grant c)))) = Inr keys"
  shows "0 \<le> stamp" and "1 \<le> a"
    and "ra = max (window_start stamp (ql_window l) + (case ql_window l of None \<Rightarrow> 1 | Some w \<Rightarrow> w) - \<lfloor>stamp\<rfloor>) 1"
    and "ql_window l = None \<Longrightarrow> ql_amount l < a"
proof -
  from assms(1) keys show "0 \<le> stamp" by (auto simp: reserve_def split: if_splits)
  from assms(1) keys have "mapE (charge_one policy (purge_expired \<lfloor>stamp\<rfloor> t) stamp)
      (concat (map (\<lambda>k. map (\<lambda>(r, a). (k, r, a)) [(r, a)]) keys)) = Inl (QuotaExceededError ra)"
    by (auto simp: reserve_def Let_def bindE_eq_Inl split: if_splits)
  from mapE_fail [OF this] obtain k where
    k: "charge_one policy (purge_expired \<lfloor>stamp\<rfloor> t) stamp (k, r, a) = Inl (QuotaExceededError ra)" by auto
  then show "1 \<le> a"
    and "ra = max (window_start stamp (ql_window l) + (case ql_window l of None \<Rightarrow> 1 | Some w \<Rightarrow> w) - \<lfloor>stamp\<rfloor>) 1"
    using assms(2) by (auto simp: charge_one_def Let_def check_decision_input_def bindE_eq_Inl split: if_splits)
  show "ql_amount l < a" if "ql_window l = None"
    using k assms(2) that
    by (auto simp: charge_one_def Let_def check_decision_input_def bindE_eq_Inl evaluate_allow
        split: if_splits option.splits)
qed

subsection \<open>Properties\<close>

text \<open>
  C3. A quota bounds what is admitted. Over any sequence of calls in time order, by any
  callers and with any charges, the amounts that succeed against one key and resource within
  one window add up to at most the limit the policy sets for the resource.
\<close>

theorem quota_window_total:
  assumes "policy_ok policy" and "limit_for policy r = Some l" and "ql_window l = Some w"
    and "list_all (call_ok U) calls" and "sorted (map qc_stamp calls)"
  shows "admitted U policy (k, r, start) calls Map.empty \<le> ql_amount l"
  using admitted_bound [OF assms(1-3) quota_inv_empty assms(4,5), of k start] by simp

text \<open>
  No tenant spends another tenant's quota: after any call of one tenant, an admissible call
  of a caller with other tenants has the outcome it would have had without it, the same
  exception with the same retry time or success, and leaves its own usage rows the same.
\<close>

theorem quota_isolation:
  assumes "call_ok U a" and "call_ok U b" and "qc_stamp a \<le> qc_stamp b"
    and "scope_values (gr_scope (ca_grant (qc_caller a))) TENANT \<noteq> {||}"
    and "scope_values (gr_scope (ca_grant (qc_caller b))) TENANT \<noteq> {||}"
    and "scope_values (gr_scope (ca_grant (qc_caller a))) TENANT |\<inter>| scope_values (gr_scope (ca_grant (qc_caller b))) TENANT = {||}"
  shows "(case run_reserve U policy b (quota_step U policy a t) of
      Inl e \<Rightarrow> run_reserve U policy b t = Inl e
    | Inr u \<Rightarrow> \<exists>u'. run_reserve U policy b t = Inr u'
        \<and> (\<forall>k \<in> set (charge_keys (as_dict (gr_scope (ca_grant (qc_caller b))))).
             \<forall>r start. u (k, r, start) = u' (k, r, start)))"
  unfolding run_reserve_def
proof (rule reserve_agree [OF _ _ tenant_keys_canonical])
  show "caller_wf U (qc_caller b)" "scope_values (gr_scope (ca_grant (qc_caller b))) TENANT \<noteq> {||}"
    using assms(2,5) by (simp_all add: call_ok_def)
  show b: "caller_wf U (qc_caller b)" "distinct (map fst (qc_charges b))"
    using assms(2) by (simp_all add: call_ok_def)
  note keys_b = tenant_keys_canonical [OF b(1) assms(5)]
  have a: "caller_wf U (qc_caller a)" using assms(1) by (simp add: call_ok_def)
  fix k r start assume k: "k \<in> set (charge_keys (as_dict (gr_scope (ca_grant (qc_caller b)))))"
  have "k \<notin> set ks" if ks: "mapE (make_scope_key U) (charge_keys (as_dict (gr_scope (ca_grant (qc_caller a))))) = Inr ks" for ks
  proof
    assume "k \<in> set ks"
    with tenant_keys [OF a assms(4) ks] tenant_keys [OF b(1) assms(5) keys_b k]
    obtain v where "v |\<in>| scope_values (gr_scope (ca_grant (qc_caller a))) TENANT"
      "v |\<in>| scope_values (gr_scope (ca_grant (qc_caller b))) TENANT" by force
    with assms(6) show False by (metis fempty_iff finterI)
  qed
  then show "purge_expired \<lfloor>qc_stamp b\<rfloor> (quota_step U policy a t) (k, r, start)
      = purge_expired \<lfloor>qc_stamp b\<rfloor> t (k, r, start)"
    by (rule step_other_keys [OF assms(1,3)])
qed

text \<open>
  C13. A refusal says when to come back, and coming back then works: after any run of the
  limiter, when a single charge within the limit is refused with some \<^verbatim>\<open>retry_after\<close>, that
  number is at least one second, and the same charge made at least that much later is
  admitted (with no other call in between).
\<close>

theorem quota_retry_succeeds:
  assumes "policy_ok policy" and "limit_for policy r = Some l" and "amount \<le> ql_amount l"
    and "list_all (call_ok U) calls" and "sorted (map qc_stamp calls)" and "\<forall>c \<in> set calls. qc_stamp c \<le> stamp"
    and "reserve U policy c [(r, amount)] stamp (fold (quota_step U policy) calls Map.empty) = Inl (QuotaExceededError retry)"
    and "stamp + real_of_int retry \<le> later"
  shows "1 \<le> retry \<and> (\<exists>t'. reserve U policy c [(r, amount)] later (fold (quota_step U policy) calls Map.empty) = Inr t')"
proof -
  let ?t = "fold (quota_step U policy) calls Map.empty"
  obtain keys where keys: "mapE (make_scope_key U) (charge_keys (as_dict (gr_scope (ca_grant c)))) = Inr keys"
    using refused_keys [OF assms(7)] by blast
  note refused = reserve_refused [OF assms(7,2) keys]
  obtain w where w: "ql_window l = Some w" using refused(4) assms(3) by (cases "ql_window l") auto
  have pos: "1 \<le> w" by (rule limit_window_pos [OF assms(2,1) w])
  have retry: "retry = window_start stamp (Some w) + w - \<lfloor>stamp\<rfloor>" and "1 \<le> retry"
    using refused(3) window_bounds [OF pos, of stamp] w by auto
  have "\<lfloor>stamp\<rfloor> + retry \<le> \<lfloor>later\<rfloor>" using assms(8) by linarith
  then have later: "window_start stamp (Some w) + w \<le> \<lfloor>later\<rfloor>" using retry by simp
  have inv: "quota_inv policy ?t" by (rule quota.run_inv [OF assms(4) quota_inv_empty])
  define first where "first = Min (insert stamp (set (map qc_stamp calls)))"
  have "rows_until \<lfloor>stamp\<rfloor> ?t"
    by (rule run_rows_until [OF assms(1,4,5,6), of first])
      (auto simp: first_def rows_until_def)
  then have no_row: "?t (k, r, window_start later (Some w)) = None" for k
    using window_later [OF pos later] window_bounds(2) [OF pos, of stamp]
    by (cases "?t (k, r, window_start later (Some w))") (fastforce dest: rows_untilD)+
  have "\<exists>t'. reserve U policy c [(r, amount)] later ?t = Inr t'"
  proof (rule reserve_fresh [OF keys _ assms(2) refused(2) assms(3)])
    show "0 \<le> later" using refused(1) \<open>1 \<le> retry\<close> assms(8) by linarith
    show "purge_expired \<lfloor>later\<rfloor> ?t (k, r, window_start later (Some w')) = None"
      if "ql_window l = Some w'" for k w'
      using that w no_row [of k] by (simp add: purge_expired_def)
  qed
  with \<open>1 \<le> retry\<close> show ?thesis by blast
qed

subsection \<open>Witnesses\<close>

text \<open>One request a minute, and callers of two tenants.\<close>

definition example_policy :: quota_policy where
  "example_policy = [\<lparr>ql_resource = REQUESTS, ql_amount = 1, ql_window = Some 60\<rparr>]"

definition example_call :: "nat \<Rightarrow> real \<Rightarrow> quota_call" where
  "example_call v stamp = \<lparr>qc_caller = example_caller v, qc_charges = [(REQUESTS, 1)], qc_stamp = stamp\<rparr>"

lemma example_policy_ok: "policy_ok example_policy" "limit_for example_policy REQUESTS = Some (hd example_policy)"
  "ql_window (hd example_policy) = Some 60" "ql_amount (hd example_policy) = 1"
  by (simp_all add: policy_ok_def example_policy_def limit_ok_def limit_for_def)

lemma example_call_ok: "v \<in> {97..122} \<Longrightarrow> call_ok ascii_tables (example_call v stamp)"
  by (simp add: call_ok_def example_call_def example_caller_wf)

lemma example_keys: "charge_keys (as_dict (gr_scope (ca_grant (example_caller v))))
    = [[(TENANT, [v])], [(TENANT, [v]), (USER, [98])]]"
  by (simp add: charge_keys_def Let_def example_caller_def example_scope_def)

lemma example_first_call:
  assumes "v \<in> {97..122}"
  shows "quota_step ascii_tables example_policy (example_call v 0) Map.empty =
    Map.empty(([(TENANT, [v])], REQUESTS, 0) \<mapsto> (1, 60), ([(TENANT, [v]), (USER, [98])], REQUESTS, 0) \<mapsto> (1, 60))"
proof -
  have "mapE (make_scope_key ascii_tables) (charge_keys (as_dict (gr_scope (ca_grant (example_caller v)))))
      = Inr [[(TENANT, [v])], [(TENANT, [v]), (USER, [98])]]"
    using tenant_keys_canonical [OF example_caller_wf [OF assms]] example_keys [of v]
    by (simp add: example_caller_def example_scope_def)
  then show ?thesis
    by (simp add: quota_step_def run_reserve_def reserve_def example_call_def charge_one_def Let_def
        limit_for_def example_policy_def window_start_def purge_expired_def check_decision_input_def
        evaluate_quota_def map_filter_simps upsert_usage_def)
qed

lemma example_second_call:
  "reserve ascii_tables example_policy (example_caller 97) [(REQUESTS, 1)] 1
     (fold (quota_step ascii_tables example_policy) [example_call 97 0] Map.empty) = Inl (QuotaExceededError 59)"
proof -
  have "mapE (make_scope_key ascii_tables) (charge_keys (as_dict (gr_scope (ca_grant (example_caller 97)))))
      = Inr [[(TENANT, [97])], [(TENANT, [97]), (USER, [98])]]"
    using tenant_keys_canonical [OF example_caller_wf [of 97]] example_keys [of 97]
    by (simp add: example_caller_def example_scope_def)
  moreover have "fold (quota_step ascii_tables example_policy) [example_call 97 0] Map.empty =
    Map.empty(([(TENANT, [97])], REQUESTS, 0) \<mapsto> (1, 60), ([(TENANT, [97]), (USER, [98])], REQUESTS, 0) \<mapsto> (1, 60))"
    using example_first_call [of 97] by simp
  ultimately show ?thesis
    by (simp only: reserve_def) (simp add: charge_one_def Let_def
        limit_for_def example_policy_def window_start_def purge_expired_def check_decision_input_def
        evaluate_quota_def)
qed

theorem quota_window_total_witness:
  "admitted ascii_tables example_policy ([(TENANT, [97])], REQUESTS, 0)
     [example_call 97 0, example_call 99 1, example_call 97 2] Map.empty \<le> 1"
  using quota_window_total [OF example_policy_ok(1-3), of ascii_tables "[example_call 97 0, example_call 99 1, example_call 97 2]"]
    example_call_ok example_policy_ok(4) by (simp add: example_call_def)

theorem quota_isolation_witness:
  "(case run_reserve ascii_tables example_policy (example_call 99 1)
      (quota_step ascii_tables example_policy (example_call 97 0) Map.empty) of
      Inl e \<Rightarrow> run_reserve ascii_tables example_policy (example_call 99 1) Map.empty = Inl e
    | Inr u \<Rightarrow> \<exists>u'. run_reserve ascii_tables example_policy (example_call 99 1) Map.empty = Inr u'
        \<and> u ([(TENANT, [99])], REQUESTS, 0) = u' ([(TENANT, [99])], REQUESTS, 0))"
proof -
  have c: "qc_caller (example_call v s) = example_caller v" "qc_stamp (example_call v s) = s" for v s
    by (simp_all add: example_call_def)
  have t: "scope_values (gr_scope (ca_grant (example_caller v))) TENANT = {|[v]|}" for v
    by (simp add: example_caller_def example_scope_def)
  show ?thesis
    using quota_isolation [OF example_call_ok [of 97 0] example_call_ok [of 99 1], of example_policy Map.empty]
    by (auto simp: c t example_keys simp del: scope_values.simps split: sum.splits)
qed

theorem quota_retry_succeeds_witness:
  "\<exists>t'. reserve ascii_tables example_policy (example_caller 97) [(REQUESTS, 1)] 60
     (fold (quota_step ascii_tables example_policy) [example_call 97 0] Map.empty) = Inr t'"
  using quota_retry_succeeds [OF example_policy_ok(1,2) _ _ _ _ example_second_call, of 60]
    example_call_ok [of 97 0] example_policy_ok(4) by (simp add: example_call_def)

end
