(* ===== verification/Tenancy_Durable.thy ===== *)
theory Tenancy_Durable
  imports Tenancy_Runtime
begin

text \<open>
  Authority snapshots kept with durable jobs, \<^verbatim>\<open>cyberbrain/tenancy/durable.py\<close>: writing
  and restoring a snapshot, and the two tests of visibility the stores use, the Python
  predicate \<^verbatim>\<open>snapshot_visible\<close> and the SQL clause of \<^verbatim>\<open>snapshot_sql_filter\<close>. A snapshot
  text is modelled by the JSON value it denotes; a text that is not JSON fails in
  \<^verbatim>\<open>restore_authority\<close> the way \<open>JNull\<close> does. The context variable holding the bound
  authority is an argument.
\<close>

subsection \<open>JSON values\<close>

datatype json =
    JNull
  | JBool bool
  | JInt int
  | JReal real
  | JStr ustr
  | JArr "json list"
  | JObj "(ustr \<times> json) list"

subsection \<open>Writing a snapshot\<close>

text \<open>\<^verbatim>\<open>json.dumps(..., sort_keys=True)\<close> lists the keys in ascending order.\<close>

definition dimensions_by_name :: "identity_dimension list" where
  "dimensions_by_name = [AGENT, PROJECT, SESSION, TENANT, USER]"

lemma set_dimensions_by_name [simp]: "set dimensions_by_name = UNIV"
proof -
  have "d \<in> set dimensions_by_name" for d by (cases d) (simp_all add: dimensions_by_name_def)
  then show ?thesis by blast
qed

lemma distinct_dimensions_by_name [simp]: "distinct dimensions_by_name"
  by (simp add: dimensions_by_name_def)

fun operation_value :: "operation_class \<Rightarrow> ustr" where
  "operation_value READ = lit ''read''"
| "operation_value WRITE = lit ''write''"
| "operation_value ADMIN_REVIEW = lit ''admin_review''"
| "operation_value BACKGROUND_REASONING = lit ''background_reasoning''"

definition operations_by_name :: "operation_class list" where
  "operations_by_name = [ADMIN_REVIEW, BACKGROUND_REASONING, READ, WRITE]"

lemma set_operations_by_name [simp]: "set operations_by_name = UNIV"
proof -
  have "x \<in> set operations_by_name" for x by (cases x) (simp_all add: operations_by_name_def)
  then show ?thesis by blast
qed

definition scope_json :: "identity_scope \<Rightarrow> json" where
  "scope_json s =
     JObj (map (\<lambda>d. (dimension_value d, JArr (map JStr (sorted_values (scope_values s d)))))
       (filter (\<lambda>d. scope_values s d \<noteq> {||}) dimensions_by_name))"

definition snapshot_of :: "caller_authority \<Rightarrow> json" where
  "snapshot_of c =
     JObj [(lit ''mode'', JStr (mode_value (ca_mode c))),
           (lit ''operations'', JArr (map (\<lambda>x. JStr (operation_value x))
              (filter (\<lambda>x. x |\<in>| gr_operations (ca_grant c)) operations_by_name))),
           (lit ''schema'', JInt 1),
           (lit ''scope'', scope_json (gr_scope (ca_grant c)))]"

definition authority_snapshot :: "caller_authority option \<Rightarrow> caller_authority option \<Rightarrow> json" where
  "authority_snapshot authority current =
     snapshot_of (case authority of Some c \<Rightarrow> c
       | None \<Rightarrow> (case current of Some c \<Rightarrow> c | None \<Rightarrow> single_owner))"

subsection \<open>Restoring a snapshot\<close>

definition enum_lookup :: "('a \<Rightarrow> ustr) \<Rightarrow> 'a list \<Rightarrow> json \<Rightarrow> 'a result" where
  "enum_lookup value members j =
     (case find (\<lambda>m. j = JStr (value m)) members of
        None \<Rightarrow> Inl (ValueError (lit ''not a valid member''))
      | Some m \<Rightarrow> Inr m)"

text \<open>
  \<^verbatim>\<open>as_values\<close> of \<^verbatim>\<open>from_values\<close>: nothing, one string, or an iterable; iterating an
  object yields its keys, and an element that is not a string is refused by
  \<^verbatim>\<open>normalize_identifier\<close>.
\<close>

fun json_strings :: "json \<Rightarrow> ustr list result" where
  "json_strings JNull = Inr []"
| "json_strings (JStr s) = Inr [s]"
| "json_strings (JArr xs) =
     mapE (\<lambda>x. case x of JStr s \<Rightarrow> Inr s
       | _ \<Rightarrow> Inl (TypeError (lit ''identity identifier must be a string''))) xs"
| "json_strings (JObj kvs) = Inr (map fst kvs)"
| "json_strings _ = Inl (TypeError (lit ''object is not iterable''))"

definition scope_from_json :: "unicode_tables \<Rightarrow> (ustr \<times> json) list \<Rightarrow> identity_scope result" where
  "scope_from_json U kvs =
     (if \<not> set (map fst kvs) \<subseteq> dimension_value ` set dimension_order
      then Inl (TypeError (lit ''unexpected keyword argument''))
      else bindE (mapE (\<lambda>d. bindE (case map_of kvs (dimension_value d) of
                                     None \<Rightarrow> Inr [] | Some j \<Rightarrow> json_strings j) (\<lambda>vs. Inr (d, vs)))
                  dimension_order) (\<lambda>raw.
             make_scope U (\<lambda>d. case map_of raw d of None \<Rightarrow> [] | Some vs \<Rightarrow> vs)))"

definition snapshot_keys :: "ustr list" where
  "snapshot_keys = [lit ''schema'', lit ''mode'', lit ''scope'', lit ''operations'']"

definition restore_value :: "unicode_tables \<Rightarrow> json \<Rightarrow> caller_authority result" where
  "restore_value U snapshot =
     (case snapshot of
        JObj kvs \<Rightarrow>
          if set (map fst kvs) \<noteq> set snapshot_keys then Inl (ValueError (lit ''unknown authority snapshot''))
          else if map_of kvs (lit ''schema'') \<noteq> Some (JInt 1)
          then Inl (ValueError (lit ''unknown authority snapshot''))
          else (case (map_of kvs (lit ''scope''), map_of kvs (lit ''operations''), map_of kvs (lit ''mode'')) of
              (Some (JObj scope_kvs), Some (JArr operations), Some mode) \<Rightarrow>
                bindE (scope_from_json U scope_kvs) (\<lambda>scope.
                bindE (mapE (enum_lookup operation_value operations_by_name) operations) (\<lambda>ops.
                bindE (enum_lookup mode_value [SINGLE_OWNER, AGENT_READY, MULTI_USER] mode) (\<lambda>m.
                  authority_for_authenticated_scope m scope (fset_of_list ops))))
            | _ \<Rightarrow> Inl (ValueError (lit ''unknown authority snapshot'')))
      | _ \<Rightarrow> Inl (ValueError (lit ''unknown authority snapshot'')))"

text \<open>Every failure inside becomes the one configuration error.\<close>

definition restore_authority :: "unicode_tables \<Rightarrow> json \<Rightarrow> caller_authority result" where
  "restore_authority U snapshot =
     (case restore_value U snapshot of
        Inl _ \<Rightarrow> Inl (ConfigurationError (lit ''invalid durable authority snapshot''))
      | Inr c \<Rightarrow> Inr c)"

text \<open>\<^verbatim>\<open>bind_job_authority\<close>: the authority a job runs under.\<close>

definition job_authority :: "unicode_tables \<Rightarrow> json option \<Rightarrow> caller_authority result" where
  "job_authority U snapshot =
     (case snapshot of Some j \<Rightarrow> restore_authority U j | None \<Rightarrow> Inr single_owner)"

definition identity_key :: "unicode_tables \<Rightarrow> json \<Rightarrow> json result" where
  "identity_key U snapshot =
     bindE (restore_authority U snapshot) (\<lambda>c. Inr (scope_json (gr_scope (ca_grant c))))"

subsection \<open>Round trip\<close>

lemma map_of_scope_entries:
  "map_of (map (\<lambda>d. (dimension_value d, f d)) ds) (dimension_value d) =
     (if d \<in> set ds then Some (f d) else None)"
  by (induction ds) auto

lemma scope_from_scope_json:
  assumes "scope_wf U s"
  shows "scope_from_json U (map (\<lambda>d. (dimension_value d, JArr (map JStr (sorted_values (scope_values s d)))))
       (filter (\<lambda>d. scope_values s d \<noteq> {||}) dimensions_by_name)) = Inr s"
proof -
  let ?kvs = "map (\<lambda>d. (dimension_value d, JArr (map JStr (sorted_values (scope_values s d)))))
       (filter (\<lambda>d. scope_values s d \<noteq> {||}) dimensions_by_name)"
  have strs: "json_strings (JArr (map JStr vs)) = Inr vs" for vs
    by (induction vs) simp_all
  have one: "(case map_of ?kvs (dimension_value d) of None \<Rightarrow> Inr [] | Some j \<Rightarrow> json_strings j)
      = Inr (sorted_values (scope_values s d))" for d
    by (cases "scope_values s d = {||}") (simp_all add: map_of_scope_entries strs del: json_strings.simps)
  have m: "map_of (map (\<lambda>d. (d, sorted_values (scope_values s d))) dimension_order) d
      = Some (sorted_values (scope_values s d))" for d
  proof -
    have "map_of (map (\<lambda>d. (d, sorted_values (scope_values s d))) ds) d
        = (if d \<in> set ds then Some (sorted_values (scope_values s d)) else None)" for ds
      by (induction ds) auto
    from this [of dimension_order] show ?thesis by simp
  qed
  obtain s' where s': "make_scope U (\<lambda>d. sorted_values (scope_values s d)) = Inr s'"
    "\<And>d. scope_values s' d = scope_values s d"
    using make_scope_canonical [of "\<lambda>d. sorted_values (scope_values s d)" U] assms
    by (auto simp: scope_wf_def)
  then have "s' = s" by (intro scope_eqI)
  have keys: "set (map fst ?kvs) \<subseteq> dimension_value ` set dimension_order" by auto
  have "mapE (\<lambda>d. bindE (case map_of ?kvs (dimension_value d) of None \<Rightarrow> Inr [] | Some j \<Rightarrow> json_strings j)
      (\<lambda>vs. Inr (d, vs))) dimension_order
    = Inr (map (\<lambda>d. (d, sorted_values (scope_values s d))) dimension_order)"
    by (intro mapE_Inr_map) (simp only: one bindE_simps)
  with keys s'(1) m \<open>s' = s\<close> show ?thesis by (simp add: scope_from_json_def)
qed

lemma lookup_operation: "enum_lookup operation_value operations_by_name (JStr (operation_value x)) = Inr x"
  by (cases x) (simp_all add: enum_lookup_def operations_by_name_def lit_def)

lemma lookup_mode:
  "enum_lookup mode_value [SINGLE_OWNER, AGENT_READY, MULTI_USER] (JStr (mode_value m)) = Inr m"
  by (cases m) (simp_all add: enum_lookup_def lit_def)

lemma restore_snapshot:
  assumes "caller_wf U c"
  shows "restore_authority U (snapshot_of c) = Inr c"
proof -
  let ?ops = "filter (\<lambda>x. x |\<in>| gr_operations (ca_grant c)) operations_by_name"
  have ops: "mapE (enum_lookup operation_value operations_by_name) (map (\<lambda>x. JStr (operation_value x)) ?ops) = Inr ?ops"
    by (simp add: mapE_eq_Inr list_all2_map1 lookup_operation list_all2_same)
  have fs: "fset_of_list ?ops = gr_operations (ca_grant c)"
    by (rule fset_eqI) (simp add: fset_of_list_elem)
  have d: "lit ''mode'' \<noteq> lit ''operations''" "lit ''mode'' \<noteq> lit ''schema''" "lit ''mode'' \<noteq> lit ''scope''"
    "lit ''operations'' \<noteq> lit ''schema''" "lit ''operations'' \<noteq> lit ''scope''" "lit ''schema'' \<noteq> lit ''scope''"
    by (simp_all add: lit_def)
  note neq = d d [symmetric]
  have wf: "scope_wf U (gr_scope (ca_grant c))" using assms by (simp add: caller_wf_def)
  have "restore_value U (snapshot_of c) = Inr c"
    using scope_from_scope_json [OF wf] ops fs lookup_mode authority_rebuild [OF assms]
    by (auto simp: restore_value_def snapshot_of_def scope_json_def snapshot_keys_def neq insert_commute)
  then show ?thesis by (simp add: restore_authority_def)
qed

lemma identity_key_snapshot:
  "caller_wf U c \<Longrightarrow> identity_key U (snapshot_of c) = Inr (scope_json (gr_scope (ca_grant c)))"
  by (simp add: identity_key_def restore_snapshot)

lemma scope_json_inj: "scope_json s = scope_json t \<longleftrightarrow> s = t"
proof
  assume "scope_json s = scope_json t"
  then have e: "map_of (map (\<lambda>d. (dimension_value d, JArr (map JStr (sorted_values (scope_values s d)))))
       (filter (\<lambda>d. scope_values s d \<noteq> {||}) dimensions_by_name)) (dimension_value d)
    = map_of (map (\<lambda>d. (dimension_value d, JArr (map JStr (sorted_values (scope_values t d)))))
       (filter (\<lambda>d. scope_values t d \<noteq> {||}) dimensions_by_name)) (dimension_value d)" for d
    by (simp add: scope_json_def)
  have inj: "map JStr xs = map JStr ys \<longleftrightarrow> xs = ys" for xs ys
    by (simp add: inj_map_eq_map inj_def)
  have "scope_values s d = scope_values t d" for d
    using e [of d] by (simp add: map_of_scope_entries inj split: if_splits)
  then show "s = t" by (rule scope_eqI)
qed simp

subsection \<open>Visibility of a durable row\<close>

text \<open>
  \<^verbatim>\<open>snapshot_visible\<close>: may the bound caller see a row with this snapshot? \<open>ctx\<close> is
  \<^verbatim>\<open>current_authority()\<close>. A caller without a constrained dimension sees every row; a scoped
  caller never sees a row without a snapshot.
\<close>

definition snapshot_visible :: "unicode_tables \<Rightarrow> caller_authority option \<Rightarrow> json option \<Rightarrow> bool result" where
  "snapshot_visible U ctx snapshot =
     (case ctx of
        None \<Rightarrow> Inr True
      | Some c \<Rightarrow>
          let dict = as_dict (gr_scope (ca_grant c))
          in if dict = [] then Inr True
             else (case snapshot of
                     None \<Rightarrow> Inr False
                   | Some j \<Rightarrow> bindE (restore_authority U j) (\<lambda>c'.
                       let persisted = gr_scope (ca_grant c')
                       in Inr (list_all (\<lambda>(d, allowed). scope_values persisted d \<noteq> {||}
                            \<and> list_all (\<lambda>v. v \<in> set allowed) (sorted_values (scope_values persisted d))) dict))))"

text \<open>
  \<^verbatim>\<open>snapshot_sql_filter\<close>: the clauses added to a query, one per constrained dimension with
  the values bound to it, and what SQLite's \<^verbatim>\<open>json_array_length\<close> and \<^verbatim>\<open>json_each\<close> make of
  them on a row. A clause over a \<^verbatim>\<open>NULL\<close> column or a missing path is not true; an element
  that is a string is compared with the bound values, a \<^verbatim>\<open>null\<close> element never satisfies
  \<^verbatim>\<open>NOT IN\<close>, a number always does, and a nested value is compared as its JSON text.
\<close>

type_synonym sql_clause = "identity_dimension \<times> ustr list"

definition snapshot_sql_filter :: "caller_authority option \<Rightarrow> sql_clause list" where
  "snapshot_sql_filter ctx =
     (case ctx of None \<Rightarrow> [] | Some c \<Rightarrow> as_dict (gr_scope (ca_grant c)))"

definition json_path :: "json \<Rightarrow> identity_dimension \<Rightarrow> json option" where
  "json_path row d =
     (case row of
        JObj kvs \<Rightarrow> (case map_of kvs (lit ''scope'') of
            Some (JObj scope_kvs) \<Rightarrow> map_of scope_kvs (dimension_value d)
          | _ \<Rightarrow> None)
      | _ \<Rightarrow> None)"

fun sql_not_in :: "(json \<Rightarrow> ustr) \<Rightarrow> ustr list \<Rightarrow> json \<Rightarrow> bool" where
  "sql_not_in json_text allowed (JStr s) = (s \<notin> set allowed)"
| "sql_not_in json_text allowed JNull = False"
| "sql_not_in json_text allowed (JArr xs) = (json_text (JArr xs) \<notin> set allowed)"
| "sql_not_in json_text allowed (JObj kvs) = (json_text (JObj kvs) \<notin> set allowed)"
| "sql_not_in json_text allowed _ = True"

definition clause_holds :: "(json \<Rightarrow> ustr) \<Rightarrow> json option \<Rightarrow> sql_clause \<Rightarrow> bool" where
  "clause_holds json_text column clause =
     (case column of
        None \<Rightarrow> False
      | Some row \<Rightarrow> (case json_path row (fst clause) of
            Some (JArr xs) \<Rightarrow> xs \<noteq> [] \<and> \<not> list_ex (sql_not_in json_text (snd clause)) xs
          | _ \<Rightarrow> False))"

definition sql_visible :: "(json \<Rightarrow> ustr) \<Rightarrow> caller_authority option \<Rightarrow> json option \<Rightarrow> bool" where
  "sql_visible json_text ctx column = list_all (clause_holds json_text column) (snapshot_sql_filter ctx)"

text \<open>What both mean for a row written by the program: its scope is within the caller's.\<close>

definition scope_covers :: "identity_scope \<Rightarrow> identity_scope \<Rightarrow> bool" where
  "scope_covers allowed persisted \<longleftrightarrow>
     (\<forall>d. scope_values allowed d \<noteq> {||} \<longrightarrow>
        scope_values persisted d \<noteq> {||} \<and> scope_values persisted d |\<subseteq>| scope_values allowed d)"

text \<open>Without a caller every row is visible.\<close>

definition no_text :: "json \<Rightarrow> ustr" where
  "no_text j = []"

lemma no_caller_visible [simp]: "snapshot_visible U None row = Inr True" "sql_visible jt None row"
  by (simp_all add: snapshot_visible_def sql_visible_def snapshot_sql_filter_def)

lemma list_all_as_dict:
  "list_all P (as_dict s) \<longleftrightarrow> (\<forall>d. scope_values s d \<noteq> {||} \<longrightarrow> P (d, sorted_values (scope_values s d)))"
  by (auto simp: list_all_iff as_dict_def)

lemma python_visible:
  assumes "caller_wf U c'"
  shows "snapshot_visible U (Some c) (Some (snapshot_of c'))
    = Inr (scope_covers (gr_scope (ca_grant c)) (gr_scope (ca_grant c')))"
proof -
  let ?s = "gr_scope (ca_grant c)" and ?p = "gr_scope (ca_grant c')"
  have all: "list_all (\<lambda>(d, allowed). scope_values ?p d \<noteq> {||}
      \<and> list_all (\<lambda>v. v \<in> set allowed) (sorted_values (scope_values ?p d))) (as_dict ?s) = scope_covers ?s ?p"
    by (simp add: list_all_as_dict) (simp add: scope_covers_def list_all_iff less_eq_fset.rep_eq subset_eq)
  show ?thesis
  proof (cases "as_dict ?s = []")
    case True
    then show ?thesis by (simp add: snapshot_visible_def scope_covers_def as_dict_eq_Nil)
  next
    case False
    then show ?thesis using all by (simp add: snapshot_visible_def restore_snapshot [OF assms])
  qed
qed

lemma no_snapshot_visible:
  "snapshot_visible U (Some c) None = Inr (sql_visible jt (Some c) None)"
  by (cases "as_dict (gr_scope (ca_grant c))")
    (simp_all add: snapshot_visible_def sql_visible_def snapshot_sql_filter_def clause_holds_def)

lemma snapshot_path:
  "json_path (snapshot_of c) d =
     (if scope_values (gr_scope (ca_grant c)) d = {||} then None
      else Some (JArr (map JStr (sorted_values (scope_values (gr_scope (ca_grant c)) d)))))"
  by (simp add: json_path_def snapshot_of_def scope_json_def map_of_scope_entries lit_def)

lemma sql_covers:
  "sql_visible jt (Some c) (Some (snapshot_of c'))
    = scope_covers (gr_scope (ca_grant c)) (gr_scope (ca_grant c'))"
  by (auto simp: sql_visible_def snapshot_sql_filter_def list_all_as_dict clause_holds_def snapshot_path
      scope_covers_def list_ex_iff less_eq_fset.rep_eq subset_iff)

text \<open>A row the program writes has no snapshot, or the snapshot of an authority.\<close>

definition written_snapshot :: "unicode_tables \<Rightarrow> json option \<Rightarrow> bool" where
  "written_snapshot U row \<longleftrightarrow> row = None \<or> (\<exists>c. caller_wf U c \<and> row = Some (snapshot_of c))"

lemma visible_sql:
  assumes "written_snapshot U row"
  shows "snapshot_visible U ctx row = Inr (sql_visible jt ctx row)"
proof (cases ctx)
  case None
  then show ?thesis by (simp add: snapshot_visible_def sql_visible_def snapshot_sql_filter_def)
next
  case (Some c)
  then show ?thesis
    using assms no_snapshot_visible [of U c jt] python_visible [of U _ c] sql_covers [of jt c]
    by (cases row) (auto simp: written_snapshot_def)
qed

subsection \<open>Properties\<close>

text \<open>
  C20. A durable snapshot of an authority restores to that authority, its mode, scope and
  operations unchanged, and two snapshots have the same identity key exactly when their
  scopes are equal, whatever their modes and operations.
\<close>

theorem snapshot_roundtrip:
  assumes "caller_wf U c" and "caller_wf U c'"
  shows "restore_authority U (authority_snapshot (Some c) ctx) = Inr c
    \<and> (identity_key U (snapshot_of c) = identity_key U (snapshot_of c')
       \<longleftrightarrow> gr_scope (ca_grant c) = gr_scope (ca_grant c'))"
  using assms by (simp add: authority_snapshot_def restore_snapshot identity_key_snapshot scope_json_inj)

text \<open>
  C19. The two implementations of row visibility agree on every row the program writes (one
  without a snapshot, or one with the snapshot of some authority): the Python check returns
  what the SQL filter selects, and for a scoped caller that is containment of the row's scope
  in the caller's in every dimension the caller is constrained in.
\<close>

theorem visibility_agrees:
  assumes "written_snapshot U row"
  shows "snapshot_visible U ctx row = Inr (sql_visible jt ctx row)
    \<and> (\<forall>c c'. ctx = Some c \<longrightarrow> row = Some (snapshot_of c') \<longrightarrow>
         sql_visible jt ctx row = scope_covers (gr_scope (ca_grant c)) (gr_scope (ca_grant c')))"
  using visible_sql [OF assms] sql_covers by simp

theorem snapshot_roundtrip_witness:
  "restore_authority ascii_tables (authority_snapshot (Some (example_caller 97)) None) = Inr (example_caller 97)
    \<and> identity_key ascii_tables (snapshot_of (example_caller 97)) \<noteq> identity_key ascii_tables (snapshot_of (example_caller 99))"
proof -
  have w: "caller_wf ascii_tables (example_caller 97)" "caller_wf ascii_tables (example_caller 99)"
    by (simp_all add: example_caller_wf)
  have "gr_scope (ca_grant (example_caller 97)) \<noteq> gr_scope (ca_grant (example_caller 99))"
    by (simp add: example_caller_def example_scope_def empty_scope_def)
  with snapshot_roundtrip [OF w] show ?thesis by blast
qed

theorem visibility_agrees_witness:
  "snapshot_visible ascii_tables (Some (example_caller 97)) (Some (snapshot_of (example_caller 99)))
     = Inr (sql_visible (\<lambda>_. []) (Some (example_caller 97)) (Some (snapshot_of (example_caller 99))))
   \<and> \<not> sql_visible (\<lambda>_. []) (Some (example_caller 97)) (Some (snapshot_of (example_caller 99)))"
proof -
  have w: "caller_wf ascii_tables (example_caller 99)" by (simp add: example_caller_wf)
  have "\<not> scope_covers (gr_scope (ca_grant (example_caller 97))) (gr_scope (ca_grant (example_caller 99)))"
    by (auto simp: scope_covers_def example_caller_def example_scope_def intro!: exI [of _ TENANT])
  moreover have "written_snapshot ascii_tables (Some (snapshot_of (example_caller 99)))"
    using w by (auto simp: written_snapshot_def)
  ultimately show ?thesis
    using visibility_agrees [of ascii_tables "Some (snapshot_of (example_caller 99))"
      "Some (example_caller 97)" "\<lambda>_. []"] by blast
qed

end
