(* ===== verification/Reason_Contracts.thy ===== *)
theory Reason_Contracts
  imports Tenancy_Durable
begin

text \<open>
  The contracts of the micro-reasoning tasks, \<^verbatim>\<open>cyberbrain/reasoner_provider/contracts.py\<close>:
  requests with their evidence, results with their claims, and the checks that a result
  answers its request and cites only evidence it was given. The pydantic models are records;
  what \<^verbatim>\<open>Field(ge=0.0, le=1.0)\<close> rejects is checked by \<open>claim_fields_ok\<close>.
\<close>

datatype classification =
  NEW_KNOWLEDGE | EVOLUTION | CONTEXT_DEPENDENT | CONTRADICTION | REJECTED_APPROACH | INSUFFICIENT_EVIDENCE

datatype task_kind = CURRENT_STATE | SUPERSEDED_OR_REMOVED | DURABLE_LESSON | CAVEAT

record evidence =
  ev_id :: ustr
  ev_record_type :: ustr
  ev_content :: ustr
  ev_score :: "real option"
  ev_event_time :: "int option"
  ev_metadata :: json

record reason_request =
  rq_id :: ustr
  rq_session :: ustr
  rq_topics :: "ustr list"
  rq_start :: int
  rq_end :: int
  rq_version :: ustr
  rq_evidence :: "(ustr \<times> evidence list) list"

record reason_candidate =
  rc_entity_name :: ustr
  rc_entity_type :: ustr
  rc_summary :: ustr
  rc_content :: ustr
  rc_evidence_ids :: "ustr list"
  rc_confidence :: real
  rc_classification :: classification
  rc_negative :: bool
  rc_context :: json

record reason_result =
  rr_request_id :: ustr
  rr_candidates :: "reason_candidate list"
  rr_notes :: "ustr list"

record task_request =
  rt_task_id :: ustr
  rt_request_id :: ustr
  rt_topic :: ustr
  rt_kind :: task_kind
  rt_instruction :: ustr
  rt_evidence :: "evidence list"

record task_claim =
  tc_claim :: ustr
  tc_evidence_ids :: "ustr list"
  tc_confidence :: real

record task_result =
  tr_task_id :: ustr
  tr_claims :: "task_claim list"

definition claim_fields_ok :: "task_claim \<Rightarrow> bool" where
  "claim_fields_ok c \<longleftrightarrow> 0 \<le> tc_confidence c \<and> tc_confidence c \<le> 1"

text \<open>\<^verbatim>\<open>ReasonTaskResult.model_validate\<close>.\<close>

definition make_task_result :: "ustr \<Rightarrow> task_claim list \<Rightarrow> task_result result" where
  "make_task_result task_id claims =
     (if list_all claim_fields_ok claims then Inr \<lparr>tr_task_id = task_id, tr_claims = claims\<rparr>
      else Inl (ValueError (lit ''confidence must be within [0,1]'')))"

definition known_evidence :: "ustr list \<Rightarrow> ustr list \<Rightarrow> bool" where
  "known_evidence allowed cited = list_all (\<lambda>i. i \<in> set allowed) cited"

definition validate_result_against_request :: "reason_request \<Rightarrow> reason_result \<Rightarrow> reason_result result" where
  "validate_result_against_request request res =
     (if rr_request_id res \<noteq> rq_id request
      then Inl (ValueError (lit ''reasoner result request_id does not match request''))
      else let allowed = concat (map (map ev_id \<circ> snd) (rq_evidence request))
           in if list_all (\<lambda>c. known_evidence allowed (rc_evidence_ids c)) (rr_candidates res)
              then Inr res
              else Inl (ValueError (lit ''reasoner result contains unknown evidence ids'')))"

definition validate_task_result :: "task_request \<Rightarrow> task_result \<Rightarrow> task_result result" where
  "validate_task_result request res =
     (if tr_task_id res \<noteq> rt_task_id request
      then Inl (ValueError (lit ''micro reasoner result task_id does not match request''))
      else let allowed = map ev_id (rt_evidence request)
           in if list_all (\<lambda>c. known_evidence allowed (tc_evidence_ids c)) (tr_claims res)
              then Inr res
              else Inl (ValueError (lit ''micro reasoner result contains unknown evidence ids'')))"

text \<open>What an accepted result satisfies.\<close>

definition grounded_result :: "task_request \<Rightarrow> task_result \<Rightarrow> bool" where
  "grounded_result request res \<longleftrightarrow> tr_task_id res = rt_task_id request
     \<and> (\<forall>c \<in> set (tr_claims res). set (tc_evidence_ids c) \<subseteq> ev_id ` set (rt_evidence request)
          \<and> 0 \<le> tc_confidence c \<and> tc_confidence c \<le> 1)"

lemma validated_grounded:
  "make_task_result i claims = Inr m \<Longrightarrow> validate_task_result request m = Inr res \<Longrightarrow>
     res = m \<and> grounded_result request res"
  by (auto simp: make_task_result_def validate_task_result_def grounded_result_def Let_def
      known_evidence_def list_all_iff claim_fields_ok_def subset_iff image_iff split: if_splits)

lemma grounded_validates:
  assumes "grounded_result request res"
  shows "make_task_result (tr_task_id res) (tr_claims res) = Inr res" and "validate_task_result request res = Inr res"
  using assms
  by (auto simp: make_task_result_def validate_task_result_def grounded_result_def Let_def
      known_evidence_def list_all_iff claim_fields_ok_def)

end
