(* ===== verification/Reason_Inbox.thy ===== *)
theory Reason_Inbox
  imports Reason_Contracts
begin

text \<open>
  The durable inbox that hands micro-reasoning tasks to outside consumers,
  \<^verbatim>\<open>cyberbrain/dreaming/reason_task_inbox.py\<close>. The two SQLite tables are lists of rows;
  each write runs in one transaction, so an operation that raises is \<open>Inl\<close> and changes
  nothing. Times are integers of microseconds (their ISO texts order the same way), the
  claim token that \<^verbatim>\<open>uuid4\<close> draws is an argument, and so are the clock and the bound authority.
\<close>

datatype task_status = TASK_PENDING | TASK_CLAIMED | TASK_COMPLETED | TASK_FALLBACK

record task_row =
  tk_id :: ustr
  tk_run :: "ustr option"
  tk_request :: task_request
  tk_status :: task_status
  tk_token :: "ustr option"
  tk_claimed_by :: "ustr option"
  tk_lease :: "int option"
  tk_deadline :: int
  tk_result :: "task_result option"
  tk_route :: "ustr option"
  tk_created :: int
  tk_updated :: int
  tk_authority :: "json option"

record run_row =
  rn_id :: ustr
  rn_request :: json
  rn_expected :: int
  rn_deadline :: int
  rn_created :: int
  rn_updated :: int
  rn_authority :: "json option"
  rn_retired :: "int option"

record inbox =
  ib_tasks :: "task_row list"
  ib_runs :: "run_row list"

record task_lease =
  ls_task :: task_request
  ls_token :: ustr
  ls_claimed_by :: ustr
  ls_until :: int
  ls_deadline :: int

record task_state =
  st_task :: task_request
  st_status :: task_status
  st_route :: "ustr option"
  st_result :: "task_result option"
  st_deadline :: int

definition mcp_route :: ustr where
  "mcp_route = lit ''mcp''"

definition find_task :: "ustr \<Rightarrow> inbox \<Rightarrow> task_row option" where
  "find_task i s = find (\<lambda>r. tk_id r = i) (ib_tasks s)"

definition find_run :: "ustr \<Rightarrow> inbox \<Rightarrow> run_row option" where
  "find_run i s = find (\<lambda>r. rn_id r = i) (ib_runs s)"

definition update_tasks :: "(task_row \<Rightarrow> bool) \<Rightarrow> (task_row \<Rightarrow> task_row) \<Rightarrow> inbox \<Rightarrow> inbox" where
  "update_tasks P f s = s\<lparr>ib_tasks := map (\<lambda>r. if P r then f r else r) (ib_tasks s)\<rparr>"

subsection \<open>Checks shared by the operations\<close>

definition assert_row_visible :: "unicode_tables \<Rightarrow> caller_authority option \<Rightarrow> json option option \<Rightarrow> ustr \<Rightarrow> unit result" where
  "assert_row_visible U ctx row identity =
     (case row of
        None \<Rightarrow> Inl (KeyError identity)
      | Some authority \<Rightarrow> bindE (snapshot_visible U ctx authority) (\<lambda>v.
          if v then Inr () else Inl (KeyError identity)))"

definition assert_not_retired :: "ustr \<Rightarrow> inbox \<Rightarrow> unit result" where
  "assert_not_retired request_id s =
     (case find_run request_id s of
        Some run \<Rightarrow> if rn_retired run \<noteq> None
           then Inl (ValueError (lit ''reason run has been retired; replay is not allowed'')) else Inr ()
      | None \<Rightarrow> Inr ())"

subsection \<open>Publishing\<close>

definition insert_task :: "caller_authority option \<Rightarrow> int \<Rightarrow> ustr \<Rightarrow> int \<Rightarrow> task_request \<Rightarrow> task_row" where
  "insert_task ctx now run deadline m =
     \<lparr>tk_id = rt_task_id m, tk_run = Some run, tk_request = m, tk_status = TASK_PENDING, tk_token = None,
      tk_claimed_by = None, tk_lease = None, tk_deadline = deadline, tk_result = None, tk_route = None,
      tk_created = now, tk_updated = now, tk_authority = Some (authority_snapshot None ctx)\<rparr>"

definition republish_task :: "int \<Rightarrow> ustr \<Rightarrow> int \<Rightarrow> task_request \<Rightarrow> task_row \<Rightarrow> task_row" where
  "republish_task now run deadline m r =
     (let completed = (tk_status r = TASK_COMPLETED)
      in r\<lparr>tk_run := Some run, tk_request := m,
           tk_status := (if completed then TASK_COMPLETED else TASK_PENDING),
           tk_deadline := deadline,
           tk_token := (if completed then tk_token r else None),
           tk_claimed_by := (if completed then tk_claimed_by r else None),
           tk_lease := (if completed then tk_lease r else None),
           tk_result := (if completed then tk_result r else None),
           tk_route := (if completed then tk_route r else None),
           tk_updated := now\<rparr>)"

definition upsert_task :: "unicode_tables \<Rightarrow> caller_authority option \<Rightarrow> int \<Rightarrow> ustr \<Rightarrow> int \<Rightarrow> task_request
    \<Rightarrow> inbox \<Rightarrow> inbox result" where
  "upsert_task U ctx now run deadline m s =
     (case find_task (rt_task_id m) s of
        None \<Rightarrow> Inr (s\<lparr>ib_tasks := ib_tasks s @ [insert_task ctx now run deadline m]\<rparr>)
      | Some existing \<Rightarrow>
          bindE (assert_row_visible U ctx (Some (tk_authority existing)) (rt_task_id m)) (\<lambda>_.
            Inr (update_tasks (\<lambda>r. tk_id r = rt_task_id m) (republish_task now run deadline m) s)))"

fun upsert_tasks :: "unicode_tables \<Rightarrow> caller_authority option \<Rightarrow> int \<Rightarrow> ustr \<Rightarrow> int \<Rightarrow> task_request list
    \<Rightarrow> inbox \<Rightarrow> inbox result" where
  "upsert_tasks U ctx now run deadline [] s = Inr s"
| "upsert_tasks U ctx now run deadline (m # ms) s =
     bindE (upsert_task U ctx now run deadline m s) (upsert_tasks U ctx now run deadline ms)"

definition upsert_run :: "caller_authority option \<Rightarrow> int \<Rightarrow> ustr \<Rightarrow> json \<Rightarrow> int \<Rightarrow> int \<Rightarrow> inbox \<Rightarrow> inbox" where
  "upsert_run ctx now request_id request expected deadline s =
     (if find_run request_id s \<noteq> None
      then s\<lparr>ib_runs := map (\<lambda>r. if rn_id r = request_id
             then r\<lparr>rn_request := request, rn_expected := expected, rn_deadline := deadline, rn_updated := now\<rparr>
             else r) (ib_runs s)\<rparr>
      else s\<lparr>ib_runs := ib_runs s @ [\<lparr>rn_id = request_id, rn_request = request, rn_expected = expected,
             rn_deadline = deadline, rn_created = now, rn_updated = now,
             rn_authority = Some (authority_snapshot None ctx), rn_retired = None\<rparr>]\<rparr>)"

text \<open>The wait is given in microseconds, as \<^verbatim>\<open>timedelta\<close> stores it.\<close>

definition register_run :: "unicode_tables \<Rightarrow> caller_authority option \<Rightarrow> int \<Rightarrow> ustr \<Rightarrow> json
    \<Rightarrow> task_request list \<Rightarrow> int \<Rightarrow> inbox \<Rightarrow> inbox result" where
  "register_run U ctx now request_id request tasks wait s =
     (let run = py_strip request_id in
      if run = [] then Inl (ValueError (lit ''request_id must not be empty''))
      else if wait < 0 then Inl (ValueError (lit ''wait_seconds must be >= 0''))
      else if \<not> distinct (map rt_task_id tasks) then Inl (ValueError (lit ''duplicate reason task IDs in run''))
      else if list_ex (\<lambda>m. rt_request_id m \<noteq> run) tasks
      then Inl (ValueError (lit ''reason tasks do not belong to request''))
      else bindE (assert_not_retired run s) (\<lambda>_.
           bindE (case find_run run s of None \<Rightarrow> Inr ()
                  | Some existing \<Rightarrow> assert_row_visible U ctx (Some (rn_authority existing)) run) (\<lambda>_.
             upsert_tasks U ctx now run (now + wait) tasks
               (upsert_run ctx now run request (int (length tasks)) (now + wait) s))))"

definition publish :: "unicode_tables \<Rightarrow> caller_authority option \<Rightarrow> int \<Rightarrow> task_request \<Rightarrow> int \<Rightarrow> ustr option
    \<Rightarrow> int option \<Rightarrow> inbox \<Rightarrow> inbox result" where
  "publish U ctx now m wait request_id deadline_at s =
     (if wait < 0 then Inl (ValueError (lit ''wait_seconds must be >= 0''))
      else let deadline = (case deadline_at of Some d \<Rightarrow> d | None \<Rightarrow> now + wait);
               run = py_strip (case request_id of Some i \<Rightarrow> if i = [] then rt_request_id m else i
                        | None \<Rightarrow> rt_request_id m)
           in if run = [] then Inl (ValueError (lit ''request_id must not be empty''))
              else bindE (assert_not_retired run s) (\<lambda>_. upsert_task U ctx now run deadline m s))"

subsection \<open>Claiming\<close>

definition task_claimable :: "int \<Rightarrow> task_row \<Rightarrow> bool" where
  "task_claimable now r \<longleftrightarrow> now < tk_deadline r
     \<and> (tk_status r = TASK_PENDING
        \<or> tk_status r = TASK_CLAIMED \<and> (case tk_lease r of None \<Rightarrow> True | Some l \<Rightarrow> l \<le> now))"

definition lease_of :: "task_row \<Rightarrow> task_lease" where
  "lease_of r = \<lparr>ls_task = tk_request r, ls_token = the_default [] (tk_token r),
     ls_claimed_by = the_default [] (tk_claimed_by r), ls_until = the_default 0 (tk_lease r), ls_deadline = tk_deadline r\<rparr>"

definition start_lease :: "ustr \<Rightarrow> ustr \<Rightarrow> int \<Rightarrow> int \<Rightarrow> task_row \<Rightarrow> task_row" where
  "start_lease token consumer until now r = r\<lparr>tk_status := TASK_CLAIMED, tk_token := Some token,
     tk_claimed_by := Some consumer, tk_lease := Some until, tk_updated := now\<rparr>"

definition claim_task :: "unicode_tables \<Rightarrow> (json \<Rightarrow> ustr) \<Rightarrow> caller_authority option \<Rightarrow> int \<Rightarrow> ustr \<Rightarrow> ustr \<Rightarrow> int
    \<Rightarrow> inbox \<Rightarrow> (task_lease option \<times> inbox) result" where
  "claim_task U jt ctx now token claimed_by lease_seconds s =
     (let consumer = py_strip claimed_by; until = now + 1000000 * lease_seconds in
      if consumer = [] then Inl (ValueError (lit ''claimed_by must not be empty''))
      else if lease_seconds < 30 \<or> 3600 < lease_seconds
      then Inl (ValueError (lit ''lease_seconds must be between 30 and 3600''))
      else case sort_key tk_created (sort_key tk_id
                 (filter (\<lambda>r. task_claimable now r \<and> sql_visible jt ctx (tk_authority r)) (ib_tasks s))) of
          [] \<Rightarrow> Inr (None, s)
        | row # _ \<Rightarrow>
            bindE (assert_row_visible U ctx (Some (tk_authority row)) (tk_id row)) (\<lambda>_.
              let hit = (\<lambda>r. tk_id r = tk_id row \<and> task_claimable now r);
                  s' = update_tasks hit (start_lease token consumer until now) s
              in if length (filter hit (ib_tasks s)) \<noteq> 1 then Inr (None, s')
                 else Inr (map_option lease_of (find_task (tk_id row) s'), s')))"

subsection \<open>Completing\<close>

definition submit :: "unicode_tables \<Rightarrow> caller_authority option \<Rightarrow> int \<Rightarrow> ustr \<Rightarrow> ustr \<Rightarrow> task_claim list
    \<Rightarrow> inbox \<Rightarrow> (task_result \<times> inbox) result" where
  "submit U ctx now task_id claim_token claims s =
     (let task_value = py_strip task_id; token_value = py_strip claim_token in
      if task_value = [] \<or> token_value = []
      then Inl (ValueError (lit ''task_id and claim_token must not be empty''))
      else case find_task task_value s of
          None \<Rightarrow> Inl (KeyError task_value)
        | Some row \<Rightarrow>
            bindE (assert_row_visible U ctx (Some (tk_authority row)) task_value) (\<lambda>_.
            if tk_status row \<noteq> TASK_CLAIMED then Inl (ValueError (lit ''reason task is not currently claimed''))
            else if the_default [] (tk_token row) \<noteq> token_value
            then Inl (ValueError (lit ''reason task claim token does not match''))
            else case tk_lease row of
                None \<Rightarrow> Inl (ValueError (lit ''Invalid isoformat string''))
              | Some lease \<Rightarrow>
                  if lease \<le> now then Inl (ValueError (lit ''reason task lease has expired''))
                  else if tk_deadline row \<le> now then Inl (ValueError (lit ''reason task deadline has expired''))
                  else bindE (make_task_result task_value claims) (\<lambda>m.
                       bindE (validate_task_result (tk_request row) m) (\<lambda>_.
                       let hit = (\<lambda>r. tk_id r = task_value \<and> tk_status r = TASK_CLAIMED
                                    \<and> tk_token r = Some token_value \<and> now < tk_deadline r)
                       in if length (filter hit (ib_tasks s)) \<noteq> 1
                          then Inl (ValueError (lit ''reason task changed before MCP submission completed''))
                          else Inr (m, update_tasks hit (\<lambda>r. r\<lparr>tk_status := TASK_COMPLETED, tk_result := Some m,
                                 tk_route := Some mcp_route, tk_updated := now\<rparr>) s)))))"

definition complete_fallback :: "int \<Rightarrow> ustr \<Rightarrow> task_result \<Rightarrow> ustr \<Rightarrow> inbox \<Rightarrow> (task_result \<times> inbox) result" where
  "complete_fallback now task_id res route s =
     (let task_value = py_strip task_id; route_value = py_strip route in
      if task_value = [] then Inl (ValueError (lit ''task_id must not be empty''))
      else if route_value = [] \<or> route_value = mcp_route
      then Inl (ValueError (lit ''fallback route must identify a non-MCP route''))
      else case find_task task_value s of
          None \<Rightarrow> Inl (KeyError task_value)
        | Some row \<Rightarrow>
            if tk_status row = TASK_COMPLETED
            then (case tk_result row of
                None \<Rightarrow> Inl (ValueError (lit ''Expecting value''))
              | Some winner \<Rightarrow> Inr (winner, s))
            else bindE (make_task_result (tr_task_id res) (tr_claims res)) (\<lambda>m.
                 bindE (validate_task_result (tk_request row) m) (\<lambda>_.
                 let hit = (\<lambda>r. tk_id r = task_value \<and> tk_status r \<noteq> TASK_COMPLETED);
                     s' = update_tasks hit (\<lambda>r. r\<lparr>tk_status := TASK_COMPLETED, tk_result := Some m,
                            tk_route := Some route_value, tk_updated := now\<rparr>) s
                 in if length (filter hit (ib_tasks s)) = 1 then Inr (m, s')
                    else (case find_task task_value s' of
                        Some winner \<Rightarrow> (case (tk_status winner, tk_result winner) of
                            (TASK_COMPLETED, Some w) \<Rightarrow> Inr (w, s')
                          | _ \<Rightarrow> Inl (RuntimeError (lit ''reason task fallback lost race without a completed winner'')))
                      | None \<Rightarrow> Inl (RuntimeError (lit ''reason task fallback lost race without a completed winner''))))))"

subsection \<open>Reading\<close>

definition state_from_row :: "task_row \<Rightarrow> task_state" where
  "state_from_row r = \<lparr>st_task = tk_request r, st_status = tk_status r, st_route = tk_route r,
     st_result = tk_result r, st_deadline = tk_deadline r\<rparr>"

definition get_task_state :: "unicode_tables \<Rightarrow> caller_authority option \<Rightarrow> ustr \<Rightarrow> inbox \<Rightarrow> task_state option result" where
  "get_task_state U ctx task_id s =
     (case find_task (py_strip task_id) s of
        None \<Rightarrow> Inr None
      | Some row \<Rightarrow> bindE (snapshot_visible U ctx (tk_authority row)) (\<lambda>v.
          Inr (if v then Some (state_from_row row) else None)))"

definition task_result_of :: "unicode_tables \<Rightarrow> caller_authority option \<Rightarrow> ustr \<Rightarrow> inbox \<Rightarrow> task_result option result" where
  "task_result_of U ctx task_id s =
     bindE (get_task_state U ctx task_id s) (\<lambda>state.
       Inr (case state of None \<Rightarrow> None
            | Some st \<Rightarrow> if st_status st = TASK_COMPLETED then st_result st else None))"

definition run_request :: "unicode_tables \<Rightarrow> caller_authority option \<Rightarrow> ustr \<Rightarrow> inbox \<Rightarrow> json result" where
  "run_request U ctx request_id s =
     (case find_run (py_strip request_id) s of
        None \<Rightarrow> Inl (KeyError request_id)
      | Some run \<Rightarrow> bindE (assert_row_visible U ctx (Some (rn_authority run)) request_id) (\<lambda>_.
          Inr (rn_request run)))"

definition run_tasks :: "unicode_tables \<Rightarrow> caller_authority option \<Rightarrow> ustr \<Rightarrow> inbox \<Rightarrow> task_state list result" where
  "run_tasks U ctx request_id s =
     bindE (run_request U ctx request_id s) (\<lambda>_.
       Inr (map state_from_row (sort_key tk_created (sort_key tk_id
         (filter (\<lambda>r. tk_run r = Some (py_strip request_id)) (ib_tasks s))))))"

definition run_ready :: "unicode_tables \<Rightarrow> caller_authority option \<Rightarrow> int \<Rightarrow> ustr \<Rightarrow> inbox \<Rightarrow> bool result" where
  "run_ready U ctx now request_id s =
     (let run_id = py_strip request_id in
      bindE (run_request U ctx run_id s) (\<lambda>_.
        case find_run run_id s of
          None \<Rightarrow> Inl (KeyError run_id)
        | Some run \<Rightarrow>
            let rows = filter (\<lambda>r. tk_run r = Some run_id) (ib_tasks s)
            in if int (length rows) \<noteq> rn_expected run
               then Inl (RuntimeError (lit ''reason run task count mismatch''))
               else if rn_expected run = 0 then Inr True
               else if list_all (\<lambda>r. tk_status r = TASK_COMPLETED) rows then Inr True
               else Inr (rn_deadline run \<le> now)))"

definition mark_fallback :: "unicode_tables \<Rightarrow> caller_authority option \<Rightarrow> int \<Rightarrow> ustr \<Rightarrow> ustr \<Rightarrow> inbox \<Rightarrow> inbox result" where
  "mark_fallback U ctx now task_id route s =
     bindE (get_task_state U ctx task_id s) (\<lambda>state.
       if state = None then Inl (KeyError task_id)
       else Inr (update_tasks (\<lambda>r. tk_id r = py_strip task_id \<and> tk_status r \<noteq> TASK_COMPLETED)
              (\<lambda>r. r\<lparr>tk_status := TASK_FALLBACK, tk_route := Some route, tk_updated := now\<rparr>) s))"

subsection \<open>Retiring\<close>

record retirement =
  rm_dry_run :: bool
  rm_eligible :: "ustr list"
  rm_blocked :: "ustr list"
  rm_count :: int

definition task_blocks_retirement :: "int \<Rightarrow> int \<Rightarrow> task_row \<Rightarrow> bool" where
  "task_blocks_retirement cutoff instant r \<longleftrightarrow> cutoff \<le> tk_updated r \<or> cutoff \<le> tk_deadline r
     \<or> (case tk_lease r of None \<Rightarrow> False | Some l \<Rightarrow> instant < l)"

definition retirable :: "unicode_tables \<Rightarrow> caller_authority option \<Rightarrow> int \<Rightarrow> int \<Rightarrow> ustr \<Rightarrow> inbox \<Rightarrow> bool result" where
  "retirable U ctx cutoff instant request_id s =
     (case find_run request_id s of
        None \<Rightarrow> Inr False
      | Some run \<Rightarrow> bindE (snapshot_visible U ctx (rn_authority run)) (\<lambda>v.
          if \<not> v \<or> rn_retired run \<noteq> None then Inr False
          else let tasks = filter (\<lambda>r. tk_run r = Some request_id) (ib_tasks s)
               in Inr (\<not> (cutoff \<le> rn_deadline run \<or> cutoff \<le> rn_updated run
                    \<or> int (length tasks) \<noteq> rn_expected run
                    \<or> list_ex (task_blocks_retirement cutoff instant) tasks))))"

definition retire_run :: "int \<Rightarrow> ustr \<Rightarrow> inbox \<Rightarrow> inbox" where
  "retire_run instant request_id s =
     \<lparr>ib_tasks = filter (\<lambda>r. tk_run r \<noteq> Some request_id) (ib_tasks s),
      ib_runs = map (\<lambda>r. if rn_id r = request_id
        then r\<lparr>rn_retired := Some instant, rn_request := JObj [], rn_expected := 0\<rparr> else r) (ib_runs s)\<rparr>"

fun retire_loop :: "unicode_tables \<Rightarrow> caller_authority option \<Rightarrow> int \<Rightarrow> int \<Rightarrow> bool \<Rightarrow> ustr list
    \<Rightarrow> retirement \<times> inbox \<Rightarrow> (retirement \<times> inbox) result" where
  "retire_loop U ctx cutoff instant dry_run [] (out, s) = Inr (out, s)"
| "retire_loop U ctx cutoff instant dry_run (i # ids) (out, s) =
     bindE (retirable U ctx cutoff instant i s) (\<lambda>ok.
       retire_loop U ctx cutoff instant dry_run ids
         (if \<not> ok then (out\<lparr>rm_blocked := rm_blocked out @ [i]\<rparr>, s)
          else (out\<lparr>rm_eligible := rm_eligible out @ [i],
                    rm_count := rm_count out + int (length (filter (\<lambda>r. tk_run r = Some i) (ib_tasks s)))\<rparr>,
                if dry_run then s else retire_run instant i s)))"

text \<open>\<open>before\<close> is \<open>None\<close> for a \<^verbatim>\<open>datetime\<close> without a timezone.\<close>

definition retire_finalized_runs :: "unicode_tables \<Rightarrow> caller_authority option \<Rightarrow> int \<Rightarrow> ustr list \<Rightarrow> int option
    \<Rightarrow> bool \<Rightarrow> inbox \<Rightarrow> (retirement \<times> inbox) result" where
  "retire_finalized_runs U ctx instant request_ids before dry_run s =
     (case before of
        None \<Rightarrow> Inl (ValueError (lit ''before must include a timezone''))
      | Some b \<Rightarrow>
          if instant < b \<and> 3600000000 < b - instant
          then Inl (ValueError (lit ''before must not be in the future''))
          else let cutoff = (if instant < b then instant else b);
                   ids = sort (fromkeys (map py_strip request_ids))
               in if ids = [] \<or> 100 < length ids \<or> list_ex (\<lambda>v. v = []) ids
                  then Inl (ValueError (lit ''provide between 1 and 100 finalized request IDs''))
                  else retire_loop U ctx cutoff instant dry_run ids
                    (\<lparr>rm_dry_run = dry_run, rm_eligible = [], rm_blocked = [], rm_count = 0\<rparr>, s))"

subsection \<open>Calls\<close>

datatype inbox_op =
    RegisterRun ustr json "task_request list" int
  | Publish task_request int "ustr option" "int option"
  | ClaimTask ustr ustr int
  | Submit ustr ustr "task_claim list"
  | CompleteFallback ustr task_result ustr
  | MarkFallback ustr ustr
  | RetireRuns "ustr list" "int option" bool

record inbox_call =
  ic_ctx :: "caller_authority option"
  ic_now :: int
  ic_op :: inbox_op

definition inbox_exec :: "unicode_tables \<Rightarrow> (json \<Rightarrow> ustr) \<Rightarrow> inbox_call \<Rightarrow> inbox \<Rightarrow> inbox result" where
  "inbox_exec U jt call s =
     (let ctx = ic_ctx call; now = ic_now call
      in case ic_op call of
           RegisterRun i request tasks wait \<Rightarrow> register_run U ctx now i request tasks wait s
         | Publish m wait i deadline \<Rightarrow> publish U ctx now m wait i deadline s
         | ClaimTask token consumer seconds \<Rightarrow>
             bindE (claim_task U jt ctx now token consumer seconds s) (\<lambda>(_, s'). Inr s')
         | Submit i token claims \<Rightarrow> bindE (submit U ctx now i token claims s) (\<lambda>(_, s'). Inr s')
         | CompleteFallback i res route \<Rightarrow> bindE (complete_fallback now i res route s) (\<lambda>(_, s'). Inr s')
         | MarkFallback i route \<Rightarrow> mark_fallback U ctx now i route s
         | RetireRuns ids before dry_run \<Rightarrow>
             bindE (retire_finalized_runs U ctx now ids before dry_run s) (\<lambda>(_, s'). Inr s'))"

definition inbox_step :: "unicode_tables \<Rightarrow> (json \<Rightarrow> ustr) \<Rightarrow> inbox_call \<Rightarrow> inbox \<Rightarrow> inbox" where
  "inbox_step U jt call s = (case inbox_exec U jt call s of Inl _ \<Rightarrow> s | Inr s' \<Rightarrow> s')"

subsection \<open>Well-formed inboxes\<close>

text \<open>
  Task and run ids are keys; a task row's request carries its id; a claimed task has its token,
  consumer and lease; a completed one its result, for the task itself, and its route.
\<close>

definition task_wf :: "task_row \<Rightarrow> bool" where
  "task_wf r \<longleftrightarrow> rt_task_id (tk_request r) = tk_id r
     \<and> (tk_status r = TASK_CLAIMED \<longrightarrow> tk_token r \<noteq> None \<and> tk_claimed_by r \<noteq> None \<and> tk_lease r \<noteq> None)
     \<and> (tk_status r = TASK_COMPLETED \<longrightarrow> tk_route r \<noteq> None \<and> (\<exists>res. tk_result r = Some res \<and> tr_task_id res = tk_id r))"

definition inbox_wf :: "inbox \<Rightarrow> bool" where
  "inbox_wf s \<longleftrightarrow> distinct (map tk_id (ib_tasks s)) \<and> distinct (map rn_id (ib_runs s)) \<and> list_all task_wf (ib_tasks s)"

text \<open>What every operation but a retirement keeps of a completed task.\<close>

definition winners_kept :: "inbox \<Rightarrow> inbox \<Rightarrow> bool" where
  "winners_kept s s' \<longleftrightarrow> (\<forall>r \<in> set (ib_tasks s). tk_status r = TASK_COMPLETED \<longrightarrow>
     (\<exists>r' \<in> set (ib_tasks s'). tk_id r' = tk_id r \<and> tk_status r' = TASK_COMPLETED
        \<and> tk_result r' = tk_result r \<and> tk_route r' = tk_route r))"

lemma winners_kept_refl: "winners_kept s s"
  unfolding winners_kept_def by blast

lemma winners_kept_trans: "winners_kept s t \<Longrightarrow> winners_kept t u \<Longrightarrow> winners_kept s u"
  unfolding winners_kept_def by metis

lemma update_tasks_wf:
  assumes "inbox_wf s" and "\<And>r. P r \<Longrightarrow> task_wf r \<Longrightarrow> tk_id (f r) = tk_id r \<and> task_wf (f r)"
  shows "inbox_wf (update_tasks P f s)"
proof -
  have "map tk_id (map (\<lambda>r. if P r then f r else r) (ib_tasks s)) = map tk_id (ib_tasks s)"
    using assms by (auto simp: inbox_wf_def list_all_iff)
  moreover have "list_all task_wf (map (\<lambda>r. if P r then f r else r) (ib_tasks s))"
    using assms by (auto simp: inbox_wf_def list_all_iff)
  ultimately show ?thesis using assms(1) by (simp add: inbox_wf_def update_tasks_def del: map_map)
qed

lemma update_tasks_winners:
  assumes "\<And>r. P r \<Longrightarrow> tk_status r = TASK_COMPLETED \<Longrightarrow> tk_id (f r) = tk_id r \<and> tk_status (f r) = TASK_COMPLETED
      \<and> tk_result (f r) = tk_result r \<and> tk_route (f r) = tk_route r"
  shows "winners_kept s (update_tasks P f s)"
  unfolding winners_kept_def
proof (intro ballI impI)
  fix r assume r: "r \<in> set (ib_tasks s)" "tk_status r = TASK_COMPLETED"
  have "(if P r then f r else r) \<in> set (ib_tasks (update_tasks P f s))"
    using r(1) by (simp add: update_tasks_def)
  moreover have "tk_id (if P r then f r else r) = tk_id r \<and> tk_status (if P r then f r else r) = TASK_COMPLETED
      \<and> tk_result (if P r then f r else r) = tk_result r \<and> tk_route (if P r then f r else r) = tk_route r"
    using assms [OF _ r(2)] r(2) by simp
  ultimately show "\<exists>r' \<in> set (ib_tasks (update_tasks P f s)). tk_id r' = tk_id r \<and> tk_status r' = TASK_COMPLETED
        \<and> tk_result r' = tk_result r \<and> tk_route r' = tk_route r" by blast
qed

lemma update_tasks_in:
  assumes "r \<in> set (ib_tasks s)" and "P r"
  shows "f r \<in> set (ib_tasks (update_tasks P f s))"
proof -
  have "(if P r then f r else r) \<in> set (ib_tasks (update_tasks P f s))"
    using assms(1) by (simp add: update_tasks_def)
  with assms(2) show ?thesis by simp
qed

lemma find_task_Some: "find_task i s = Some r \<Longrightarrow> r \<in> set (ib_tasks s) \<and> tk_id r = i"
  by (auto simp: find_task_def find_Some_iff)

lemma find_task_None: "find_task i s = None \<longleftrightarrow> i \<notin> tk_id ` set (ib_tasks s)"
  by (auto simp: find_task_def find_None_iff)

lemma task_unique: "inbox_wf s \<Longrightarrow> r \<in> set (ib_tasks s) \<Longrightarrow> r' \<in> set (ib_tasks s) \<Longrightarrow> tk_id r = tk_id r' \<Longrightarrow> r = r'"
  by (auto simp: inbox_wf_def distinct_map inj_on_def)

text \<open>One call keeps both: a shorthand for the case analyses below.\<close>

definition task_step :: "inbox \<Rightarrow> inbox \<Rightarrow> bool" where
  "task_step s s' \<longleftrightarrow> inbox_wf s' \<and> winners_kept s s'"

lemma task_step_update:
  assumes "inbox_wf s"
    and "\<And>r. P r \<Longrightarrow> task_wf r \<Longrightarrow> tk_id (f r) = tk_id r \<and> task_wf (f r)"
    and "\<And>r. P r \<Longrightarrow> tk_status r = TASK_COMPLETED \<Longrightarrow> tk_id (f r) = tk_id r \<and> tk_status (f r) = TASK_COMPLETED
      \<and> tk_result (f r) = tk_result r \<and> tk_route (f r) = tk_route r"
  shows "task_step s (update_tasks P f s)"
  using update_tasks_wf [OF assms(1,2)] update_tasks_winners [OF assms(3)] by (simp add: task_step_def)

lemma upsert_task_step:
  assumes "inbox_wf s" and "upsert_task U ctx now run deadline m s = Inr s'"
  shows "task_step s s'"
proof (cases "find_task (rt_task_id m) s")
  case None
  with assms(2) have s': "s' = s\<lparr>ib_tasks := ib_tasks s @ [insert_task ctx now run deadline m]\<rparr>"
    by (simp add: upsert_task_def)
  have "task_wf (insert_task ctx now run deadline m)" by (simp add: task_wf_def insert_task_def)
  with None assms(1) show ?thesis
    by (auto simp: s' task_step_def inbox_wf_def find_task_None winners_kept_def insert_task_def)
next
  case (Some r)
  with assms(2) have "s' = update_tasks (\<lambda>r. tk_id r = rt_task_id m) (republish_task now run deadline m) s"
    by (simp add: upsert_task_def)
  moreover have "task_step s (update_tasks (\<lambda>r. tk_id r = rt_task_id m) (republish_task now run deadline m) s)"
    by (rule task_step_update [OF assms(1)]) (auto simp: republish_task_def Let_def task_wf_def)
  ultimately show ?thesis by simp
qed

lemma task_step_trans: "task_step s t \<Longrightarrow> task_step t u \<Longrightarrow> task_step s u"
  unfolding task_step_def using winners_kept_trans by blast

lemma task_step_refl: "inbox_wf s \<Longrightarrow> task_step s s"
  by (simp add: task_step_def winners_kept_refl)

lemma upsert_tasks_step:
  "upsert_tasks U ctx now run deadline ms s = Inr s' \<Longrightarrow> inbox_wf s \<Longrightarrow> task_step s s'"
proof (induction ms arbitrary: s)
  case (Cons m ms)
  then obtain t where t: "upsert_task U ctx now run deadline m s = Inr t"
    "upsert_tasks U ctx now run deadline ms t = Inr s'" by auto
  from upsert_task_step [OF Cons.prems(2) t(1)] have st: "task_step s t" .
  then have "inbox_wf t" by (simp add: task_step_def)
  from task_step_trans [OF st Cons.IH [OF t(2) this]] show ?case .
qed (simp add: task_step_refl)

lemma upsert_run_ids: "distinct (map rn_id (ib_runs s)) \<Longrightarrow> distinct (map rn_id (ib_runs (upsert_run ctx now i request expected deadline s)))"
proof -
  have "map rn_id (map (\<lambda>r. if rn_id r = i then r\<lparr>rn_request := request, rn_expected := expected,
      rn_deadline := deadline, rn_updated := now\<rparr> else r) rs) = map rn_id rs" for rs :: "run_row list" by auto
  then show "distinct (map rn_id (ib_runs s)) \<Longrightarrow> distinct (map rn_id (ib_runs (upsert_run ctx now i request expected deadline s)))"
    by (auto simp: upsert_run_def find_run_def find_None_iff simp del: map_map)
qed

lemma upsert_run_step: "inbox_wf s \<Longrightarrow> task_step s (upsert_run ctx now i request expected deadline s)"
proof -
  assume wf: "inbox_wf s"
  have "ib_tasks (upsert_run ctx now i request expected deadline s) = ib_tasks s" by (simp add: upsert_run_def)
  with wf upsert_run_ids show ?thesis by (auto simp: task_step_def inbox_wf_def winners_kept_def)
qed

lemma register_run_Inr:
  assumes "register_run U ctx now request_id request tasks wait s = Inr s'"
  shows "upsert_tasks U ctx now (py_strip request_id) (now + wait) tasks
      (upsert_run ctx now (py_strip request_id) request (int (length tasks)) (now + wait) s) = Inr s'"
    and "distinct (map rt_task_id tasks)" and "\<forall>m \<in> set tasks. rt_request_id m = py_strip request_id"
    and "py_strip request_id \<noteq> []" and "0 \<le> wait" and "assert_not_retired (py_strip request_id) s = Inr ()"
  using assms by (auto simp: register_run_def Let_def list_ex_iff split: if_splits)

lemma claim_task_Inr:
  assumes "claim_task U jt ctx now token claimed_by seconds s = Inr (lease, s')"
  shows "s' = s \<and> lease = None \<or> (\<exists>i. s' = update_tasks (\<lambda>r. tk_id r = i \<and> task_claimable now r)
     (start_lease token (py_strip claimed_by) (now + 1000000 * seconds) now) s)"
  using assms by (auto simp: claim_task_def Let_def split: if_splits list.splits)

lemma submit_Inr:
  assumes "submit U ctx now task_id token claims s = Inr (res, s')"
  shows "\<exists>row. find_task (py_strip task_id) s = Some row \<and> assert_row_visible U ctx (Some (tk_authority row)) (py_strip task_id) = Inr ()
    \<and> tk_status row = TASK_CLAIMED
    \<and> the_default [] (tk_token row) = py_strip token \<and> py_strip token \<noteq> []
    \<and> (\<exists>lease. tk_lease row = Some lease \<and> now < lease) \<and> now < tk_deadline row
    \<and> make_task_result (py_strip task_id) claims = Inr res \<and> validate_task_result (tk_request row) res = Inr res
    \<and> s' = update_tasks (\<lambda>r. tk_id r = py_strip task_id \<and> tk_status r = TASK_CLAIMED
             \<and> tk_token r = Some (py_strip token) \<and> now < tk_deadline r)
           (\<lambda>r. r\<lparr>tk_status := TASK_COMPLETED, tk_result := Some res, tk_route := Some mcp_route, tk_updated := now\<rparr>) s"
  using assms
  by (auto simp: submit_def Let_def validate_task_result_def not_le split: if_splits option.splits)

lemma complete_fallback_Inr:
  assumes "complete_fallback now task_id res route s = Inr (out, s')"
  shows "\<exists>row. find_task (py_strip task_id) s = Some row \<and>
    (s' = s \<and> tk_status row = TASK_COMPLETED \<and> tk_result row = Some out
     \<or> (tk_status row \<noteq> TASK_COMPLETED \<and> (\<exists>m. make_task_result (tr_task_id res) (tr_claims res) = Inr m
        \<and> validate_task_result (tk_request row) m = Inr m
        \<and> s' = update_tasks (\<lambda>r. tk_id r = py_strip task_id \<and> tk_status r \<noteq> TASK_COMPLETED)
             (\<lambda>r. r\<lparr>tk_status := TASK_COMPLETED, tk_result := Some m, tk_route := Some (py_strip route), tk_updated := now\<rparr>) s)))"
  using assms
  by (auto simp: complete_fallback_def Let_def validate_task_result_def split: if_splits option.splits task_status.splits)

lemma claim_task_step:
  assumes "inbox_wf s" and "claim_task U jt ctx now token claimed_by seconds s = Inr (lease, s')"
  shows "task_step s s'"
  using claim_task_Inr [OF assms(2)]
proof (elim disjE exE conjE)
  fix i assume "s' = update_tasks (\<lambda>r. tk_id r = i \<and> task_claimable now r)
     (start_lease token (py_strip claimed_by) (now + 1000000 * seconds) now) s"
  then show ?thesis
    by simp (rule task_step_update [OF assms(1)], auto simp: start_lease_def task_wf_def task_claimable_def)
qed (simp add: task_step_refl [OF assms(1)])

lemma result_task_id: "make_task_result i claims = Inr m \<Longrightarrow> tr_task_id m = i"
  by (auto simp: make_task_result_def split: if_splits)

lemma submit_step:
  assumes "inbox_wf s" and "submit U ctx now task_id token claims s = Inr (res, s')"
  shows "task_step s s'"
proof -
  from submit_Inr [OF assms(2)] have s': "s' = update_tasks (\<lambda>r. tk_id r = py_strip task_id \<and> tk_status r = TASK_CLAIMED
             \<and> tk_token r = Some (py_strip token) \<and> now < tk_deadline r)
           (\<lambda>r. r\<lparr>tk_status := TASK_COMPLETED, tk_result := Some res, tk_route := Some mcp_route, tk_updated := now\<rparr>) s"
    and id: "tr_task_id res = py_strip task_id" using result_task_id by auto
  show ?thesis unfolding s'
    by (rule task_step_update [OF assms(1)]) (auto simp: task_wf_def id)
qed

lemma complete_fallback_step:
  assumes "inbox_wf s" and "complete_fallback now task_id res route s = Inr (out, s')"
  shows "task_step s s'"
proof -
  from complete_fallback_Inr [OF assms(2)] obtain row where row: "find_task (py_strip task_id) s = Some row"
    and c: "s' = s \<or> (\<exists>m. validate_task_result (tk_request row) m = Inr m
        \<and> s' = update_tasks (\<lambda>r. tk_id r = py_strip task_id \<and> tk_status r \<noteq> TASK_COMPLETED)
             (\<lambda>r. r\<lparr>tk_status := TASK_COMPLETED, tk_result := Some m, tk_route := Some (py_strip route), tk_updated := now\<rparr>) s)"
    by blast
  have "task_wf row" using find_task_Some [OF row] assms(1) by (simp add: inbox_wf_def list_all_iff)
  then have req: "rt_task_id (tk_request row) = py_strip task_id" using find_task_Some [OF row] by (simp add: task_wf_def)
  from c show ?thesis
  proof (elim disjE exE conjE)
    fix m assume v: "validate_task_result (tk_request row) m = Inr m"
      and s': "s' = update_tasks (\<lambda>r. tk_id r = py_strip task_id \<and> tk_status r \<noteq> TASK_COMPLETED)
             (\<lambda>r. r\<lparr>tk_status := TASK_COMPLETED, tk_result := Some m, tk_route := Some (py_strip route), tk_updated := now\<rparr>) s"
    from v req have id: "tr_task_id m = py_strip task_id" by (auto simp: validate_task_result_def split: if_splits)
    show ?thesis unfolding s' by (rule task_step_update [OF assms(1)]) (auto simp: task_wf_def id)
  qed (simp add: task_step_refl [OF assms(1)])
qed

lemma mark_fallback_step:
  assumes "inbox_wf s" and "mark_fallback U ctx now task_id route s = Inr s'"
  shows "task_step s s'"
proof -
  from assms(2) have s': "s' = update_tasks (\<lambda>r. tk_id r = py_strip task_id \<and> tk_status r \<noteq> TASK_COMPLETED)
              (\<lambda>r. r\<lparr>tk_status := TASK_FALLBACK, tk_route := Some route, tk_updated := now\<rparr>) s"
    by (auto simp: mark_fallback_def split: if_splits)
  show ?thesis unfolding s' by (rule task_step_update [OF assms(1)]) (auto simp: task_wf_def)
qed

lemma publish_step:
  assumes "inbox_wf s" and "publish U ctx now m wait i deadline s = Inr s'"
  shows "task_step s s'"
  using assms(2) upsert_task_step [OF assms(1)] by (auto simp: publish_def Let_def split: if_splits)

lemma register_run_step:
  assumes "inbox_wf s" and "register_run U ctx now i request tasks wait s = Inr s'"
  shows "task_step s s'"
proof -
  let ?t = "upsert_run ctx now (py_strip i) request (int (length tasks)) (now + wait) s"
  have "task_step s ?t" by (rule upsert_run_step [OF assms(1)])
  moreover from this have "inbox_wf ?t" by (simp add: task_step_def)
  ultimately show ?thesis
    using upsert_tasks_step [OF register_run_Inr(1) [OF assms(2)]] task_step_trans by blast
qed

text \<open>Retirement removes a run's rows; without it, or as a dry run, nothing changes.\<close>

lemma retire_run_wf: "inbox_wf s \<Longrightarrow> inbox_wf (retire_run instant i s)"
proof -
  assume wf: "inbox_wf s"
  have "map rn_id (map (\<lambda>r. if rn_id r = i then r\<lparr>rn_retired := Some instant, rn_request := JObj [], rn_expected := 0\<rparr> else r) rs)
      = map rn_id rs" for rs :: "run_row list" by auto
  with wf show "inbox_wf (retire_run instant i s)"
    by (auto simp: inbox_wf_def retire_run_def list_all_iff distinct_map_filter simp del: map_map)
qed

lemma retire_loop_wf:
  "retire_loop U ctx cutoff instant dry ids (out, s) = Inr (out', s') \<Longrightarrow> inbox_wf s \<Longrightarrow> inbox_wf s'"
proof (induction ids arbitrary: out s)
  case (Cons i ids)
  then obtain ok where ok: "retirable U ctx cutoff instant i s = Inr ok" by auto
  with Cons.prems show ?case
    by (auto simp: retire_run_wf split: if_splits intro: Cons.IH)
qed simp

lemma retire_loop_dry:
  "retire_loop U ctx cutoff instant True ids (out, s) = Inr (out', s') \<Longrightarrow> s' = s"
  by (induction ids arbitrary: out) (auto split: if_splits)

lemma retire_Inr:
  assumes "retire_finalized_runs U ctx instant request_ids before dry s = Inr (out, s')"
  shows "\<exists>cutoff. cutoff \<le> instant \<and> retire_loop U ctx cutoff instant dry (sort (fromkeys (map py_strip request_ids)))
      (\<lparr>rm_dry_run = dry, rm_eligible = [], rm_blocked = [], rm_count = 0\<rparr>, s) = Inr (out, s')"
proof -
  from assms obtain b where "before = Some b" by (auto simp: retire_finalized_runs_def split: option.splits)
  with assms show ?thesis
    by (intro exI [of _ "if instant < b then instant else b"])
      (auto simp: retire_finalized_runs_def Let_def split: if_splits)
qed

definition keeps_winners :: "inbox_op \<Rightarrow> bool" where
  "keeps_winners op \<longleftrightarrow> (case op of RetireRuns _ _ dry \<Rightarrow> dry | _ \<Rightarrow> True)"

lemma inbox_exec_step:
  assumes "inbox_wf s" and "inbox_exec U jt call s = Inr s'"
  shows "inbox_wf s'" and "keeps_winners (ic_op call) \<Longrightarrow> task_step s s'"
proof -
  have "inbox_wf s' \<and> (keeps_winners (ic_op call) \<longrightarrow> task_step s s')"
  proof (cases "ic_op call")
    case (RetireRuns ids before dry)
    with assms(2) obtain out where
      r: "retire_finalized_runs U (ic_ctx call) (ic_now call) ids before dry s = Inr (out, s')"
      by (auto simp: inbox_exec_def Let_def)
    from retire_Inr [OF r] obtain cutoff where
      l: "retire_loop U (ic_ctx call) cutoff (ic_now call) dry (sort (fromkeys (map py_strip ids)))
        (\<lparr>rm_dry_run = dry, rm_eligible = [], rm_blocked = [], rm_count = 0\<rparr>, s) = Inr (out, s')" by blast
    have "s' = s" if dry using l that by (simp add: retire_loop_dry)
    with retire_loop_wf [OF l assms(1)] RetireRuns show ?thesis
      by (auto simp: keeps_winners_def task_step_refl)
  next
    case (RegisterRun i request tasks wait)
    with assms(2) register_run_step [OF assms(1), of U "ic_ctx call" "ic_now call" i request tasks wait s']
    show ?thesis by (simp add: inbox_exec_def Let_def task_step_def)
  next
    case (Publish m wait i deadline)
    with assms(2) publish_step [OF assms(1), of U "ic_ctx call" "ic_now call" m wait i deadline s']
    show ?thesis by (simp add: inbox_exec_def Let_def task_step_def)
  next
    case (ClaimTask token consumer seconds)
    with assms(2) obtain lease where
      "claim_task U jt (ic_ctx call) (ic_now call) token consumer seconds s = Inr (lease, s')"
      by (auto simp: inbox_exec_def Let_def)
    from claim_task_step [OF assms(1) this] show ?thesis by (simp add: task_step_def)
  next
    case (Submit i token claims)
    with assms(2) obtain res where "submit U (ic_ctx call) (ic_now call) i token claims s = Inr (res, s')"
      by (auto simp: inbox_exec_def Let_def)
    from submit_step [OF assms(1) this] show ?thesis by (simp add: task_step_def)
  next
    case (CompleteFallback i res route)
    with assms(2) obtain out where "complete_fallback (ic_now call) i res route s = Inr (out, s')"
      by (auto simp: inbox_exec_def Let_def)
    from complete_fallback_step [OF assms(1) this] show ?thesis by (simp add: task_step_def)
  next
    case (MarkFallback i route)
    with assms(2) mark_fallback_step [OF assms(1), of U "ic_ctx call" "ic_now call" i route s']
    show ?thesis by (simp add: inbox_exec_def Let_def task_step_def)
  qed
  then show "inbox_wf s'" and "keeps_winners (ic_op call) \<Longrightarrow> task_step s s'" by blast+
qed

interpretation inbox: op_machine "inbox_step U jt" "\<lambda>_. True" inbox_wf for U jt
  by unfold_locales (auto simp: inbox_step_def inbox_exec_step split: sum.splits)

interpretation winners: guarded_machine "inbox_step U jt" "\<lambda>call. keeps_winners (ic_op call)" inbox_wf winners_kept for U jt
proof unfold_locales
  show "winners_kept s (inbox_step U jt call s)" if "keeps_winners (ic_op call)" "inbox_wf s" for call s
    using inbox_exec_step(2) [OF that(2) _ that(1), of U jt]
    by (auto simp: inbox_step_def task_step_def winners_kept_refl split: sum.splits)
qed (auto simp: winners_kept_refl inbox_step_def inbox_exec_step intro: winners_kept_trans split: sum.splits)

subsection \<open>A lease holds its task\<close>

text \<open>
  A call made before the lease ends that does not register or publish this task again: doing so
  puts a task that is not completed back to pending and ends its lease (\<open>republish_task\<close>).
\<close>

definition within_lease :: "ustr \<Rightarrow> int \<Rightarrow> inbox_call \<Rightarrow> bool" where
  "within_lease i until call \<longleftrightarrow> ic_now call < until \<and>
     (case ic_op call of
        RegisterRun _ _ tasks _ \<Rightarrow> i \<notin> rt_task_id ` set tasks
      | Publish m _ _ _ \<Rightarrow> rt_task_id m \<noteq> i
      | _ \<Rightarrow> True)"

text \<open>No row of the task is pending or free before the time; there is none after its run was retired.\<close>

definition leased :: "ustr \<Rightarrow> int \<Rightarrow> inbox \<Rightarrow> bool" where
  "leased i until s \<longleftrightarrow> (\<forall>r \<in> set (ib_tasks s). tk_id r = i \<longrightarrow> tk_status r \<noteq> TASK_PENDING
     \<and> (\<exists>l. tk_lease r = Some l \<and> until \<le> l))"

lemma leased_not_claimable:
  "leased i until s \<Longrightarrow> now < until \<Longrightarrow> r \<in> set (ib_tasks s) \<Longrightarrow> tk_id r = i \<Longrightarrow> \<not> task_claimable now r"
  unfolding leased_def task_claimable_def by fastforce

lemma leased_update:
  assumes "leased i until s"
    and "\<And>r. r \<in> set (ib_tasks s) \<Longrightarrow> P r \<Longrightarrow> tk_id (f r) = i \<Longrightarrow> tk_id r = i \<and> (tk_status r \<noteq> TASK_PENDING \<longrightarrow>
      tk_status (f r) \<noteq> TASK_PENDING \<and> tk_lease (f r) = tk_lease r)"
  shows "leased i until (update_tasks P f s)"
  unfolding leased_def
proof (intro ballI impI)
  fix x assume "x \<in> set (ib_tasks (update_tasks P f s))" and x: "tk_id x = i"
  then obtain r where r: "r \<in> set (ib_tasks s)" "x = (if P r then f r else r)" by (auto simp: update_tasks_def)
  then have "tk_id r = i" using assms(2) [of r] x by (auto split: if_splits)
  then have "tk_status r \<noteq> TASK_PENDING \<and> (\<exists>l. tk_lease r = Some l \<and> until \<le> l)" using assms(1) r(1) by (simp add: leased_def)
  then show "tk_status x \<noteq> TASK_PENDING \<and> (\<exists>l. tk_lease x = Some l \<and> until \<le> l)"
    using assms(2) [of r] r x by (auto split: if_splits)
qed

lemma upsert_task_other:
  assumes "upsert_task U ctx now run deadline m s = Inr s'" and "r \<in> set (ib_tasks s')" and "tk_id r \<noteq> rt_task_id m"
  shows "r \<in> set (ib_tasks s)"
proof (cases "find_task (rt_task_id m) s")
  case None
  with assms show ?thesis by (auto simp: upsert_task_def insert_task_def)
next
  case (Some x)
  with assms(1) have "s' = update_tasks (\<lambda>r. tk_id r = rt_task_id m) (republish_task now run deadline m) s"
    by (simp add: upsert_task_def)
  moreover have "tk_id (republish_task now run deadline m y) = tk_id y" for y by (simp add: republish_task_def Let_def)
  ultimately show ?thesis using assms(2,3) by (auto simp: update_tasks_def)
qed

lemma upsert_tasks_other:
  "upsert_tasks U ctx now run deadline ms s = Inr s' \<Longrightarrow> r \<in> set (ib_tasks s') \<Longrightarrow>
     tk_id r \<notin> rt_task_id ` set ms \<Longrightarrow> r \<in> set (ib_tasks s)"
proof (induction ms arbitrary: s)
  case (Cons m ms)
  then obtain t where t: "upsert_task U ctx now run deadline m s = Inr t"
    "upsert_tasks U ctx now run deadline ms t = Inr s'" by auto
  from Cons.IH [OF t(2) Cons.prems(2)] Cons.prems(3) have "r \<in> set (ib_tasks t)" by simp
  from upsert_task_other [OF t(1) this] Cons.prems(3) show ?case by simp
qed simp

lemma leased_keep: "leased i until s \<Longrightarrow> (\<And>r. r \<in> set (ib_tasks s') \<Longrightarrow> tk_id r = i \<Longrightarrow> r \<in> set (ib_tasks s)) \<Longrightarrow> leased i until s'"
  unfolding leased_def by blast

lemma upsert_run_tasks [simp]: "ib_tasks (upsert_run ctx now i request expected deadline s) = ib_tasks s"
  by (simp add: upsert_run_def)

lemma retire_loop_subset:
  "retire_loop U ctx cutoff instant dry ids (out, s) = Inr (out', s') \<Longrightarrow> set (ib_tasks s') \<subseteq> set (ib_tasks s)"
proof (induction ids arbitrary: out s)
  case (Cons i ids)
  then obtain ok where ok: "retirable U ctx cutoff instant i s = Inr ok" by auto
  have "set (ib_tasks (retire_run instant i s)) \<subseteq> set (ib_tasks s)" by (auto simp: retire_run_def)
  with Cons ok show ?case by (fastforce split: if_splits)
qed simp

lemma leased_exec:
  assumes "inbox_wf s" and "leased i until s" and "within_lease i until call" and "inbox_exec U jt call s = Inr s'"
  shows "leased i until s'"
proof (cases "ic_op call")
  case (RegisterRun j request tasks wait)
  with assms(4) have r: "register_run U (ic_ctx call) (ic_now call) j request tasks wait s = Inr s'"
    by (simp add: inbox_exec_def Let_def)
  from upsert_tasks_other [OF register_run_Inr(1) [OF r]] assms(3) RegisterRun
  show ?thesis by (intro leased_keep [OF assms(2)]) (auto simp: within_lease_def)
next
  case (Publish m wait j deadline)
  with assms(4) obtain run d where "upsert_task U (ic_ctx call) (ic_now call) run d m s = Inr s'"
    by (auto simp: inbox_exec_def Let_def publish_def split: if_splits)
  from upsert_task_other [OF this] assms(3) Publish
  show ?thesis by (intro leased_keep [OF assms(2)]) (auto simp: within_lease_def)
next
  case (ClaimTask token consumer seconds)
  with assms(4) obtain lease where "claim_task U jt (ic_ctx call) (ic_now call) token consumer seconds s = Inr (lease, s')"
    by (auto simp: inbox_exec_def Let_def)
  from claim_task_Inr [OF this] show ?thesis
  proof (elim disjE exE conjE)
    fix j assume s': "s' = update_tasks (\<lambda>r. tk_id r = j \<and> task_claimable (ic_now call) r)
      (start_lease token (py_strip consumer) (ic_now call + 1000000 * seconds) (ic_now call)) s"
    show "leased i until s'" unfolding s'
    proof (rule leased_update [OF assms(2)])
      fix r assume r: "r \<in> set (ib_tasks s)" "tk_id r = j \<and> task_claimable (ic_now call) r"
        "tk_id (start_lease token (py_strip consumer) (ic_now call + 1000000 * seconds) (ic_now call) r) = i"
      then have "tk_id r = i" by (simp add: start_lease_def)
      then have "\<not> task_claimable (ic_now call) r"
        using leased_not_claimable [OF assms(2) _ r(1)] assms(3) by (simp add: within_lease_def)
      with r(2) show "tk_id r = i \<and> (tk_status r \<noteq> TASK_PENDING \<longrightarrow>
        tk_status (start_lease token (py_strip consumer) (ic_now call + 1000000 * seconds) (ic_now call) r) \<noteq> TASK_PENDING
        \<and> tk_lease (start_lease token (py_strip consumer) (ic_now call + 1000000 * seconds) (ic_now call) r) = tk_lease r)" by simp
    qed
  qed (simp add: assms(2))
next
  case (Submit j token claims)
  with assms(4) obtain res where r: "submit U (ic_ctx call) (ic_now call) j token claims s = Inr (res, s')"
    by (auto simp: inbox_exec_def Let_def)
  from submit_Inr [OF r] show ?thesis by (auto intro!: leased_update [OF assms(2)])
next
  case (CompleteFallback j res route)
  with assms(4) obtain out where r: "complete_fallback (ic_now call) j res route s = Inr (out, s')"
    by (auto simp: inbox_exec_def Let_def)
  from complete_fallback_Inr [OF r] assms(2) show ?thesis by (auto intro!: leased_update [OF assms(2)])
next
  case (MarkFallback j route)
  with assms(4) have r: "mark_fallback U (ic_ctx call) (ic_now call) j route s = Inr s'"
    by (simp add: inbox_exec_def Let_def)
  then have "s' = update_tasks (\<lambda>r. tk_id r = py_strip j \<and> tk_status r \<noteq> TASK_COMPLETED)
      (\<lambda>r. r\<lparr>tk_status := TASK_FALLBACK, tk_route := Some route, tk_updated := ic_now call\<rparr>) s"
    by (auto simp: mark_fallback_def split: if_splits)
  then show ?thesis by (auto intro!: leased_update [OF assms(2)])
next
  case (RetireRuns ids before dry)
  with assms(4) obtain out where
    r: "retire_finalized_runs U (ic_ctx call) (ic_now call) ids before dry s = Inr (out, s')"
    by (auto simp: inbox_exec_def Let_def)
  from retire_Inr [OF r] retire_loop_subset have "set (ib_tasks s') \<subseteq> set (ib_tasks s)" by blast
  then show ?thesis by (intro leased_keep [OF assms(2)]) auto
qed

interpretation leasing: op_machine "inbox_step U jt" "within_lease i until"
    "\<lambda>s. inbox_wf s \<and> leased i until s" for U jt i until
  by unfold_locales (auto simp: inbox_step_def inbox_exec_step(1) leased_exec split: sum.splits)

subsection \<open>A retired run stays retired\<close>

definition run_retired :: "ustr \<Rightarrow> inbox \<Rightarrow> bool" where
  "run_retired i s \<longleftrightarrow> (\<exists>run. find_run i s = Some run \<and> rn_retired run \<noteq> None)"

lemma find_run_map:
  assumes "\<And>r. rn_id (f r) = rn_id r"
  shows "find (\<lambda>r. rn_id r = i) (map f rs) = map_option f (find (\<lambda>r. rn_id r = i) rs)"
  using assms by (induction rs) simp_all

lemma run_retired_map:
  assumes "run_retired i s" and "\<And>r. rn_id (f r) = rn_id r" and "\<And>r. rn_retired r \<noteq> None \<Longrightarrow> rn_retired (f r) \<noteq> None"
  shows "run_retired i (s\<lparr>ib_runs := map f (ib_runs s)\<rparr>)" and "run_retired i \<lparr>ib_tasks = ts, ib_runs = map f (ib_runs s)\<rparr>"
  using assms by (auto simp: run_retired_def find_run_def find_run_map)

lemma find_append: "find P (xs @ ys) = (case find P xs of None \<Rightarrow> find P ys | Some x \<Rightarrow> Some x)"
  by (induction xs) simp_all

lemma upsert_run_retired: "run_retired i s \<Longrightarrow> run_retired i (upsert_run ctx now j request expected deadline s)"
proof (cases "find_run j s = None")
  case True
  assume "run_retired i s"
  with True show ?thesis
    by (auto simp: upsert_run_def run_retired_def find_run_def find_append)
next
  case False
  assume "run_retired i s"
  then have "run_retired i (s\<lparr>ib_runs := map (\<lambda>r. if rn_id r = j then r\<lparr>rn_request := request, rn_expected := expected,
      rn_deadline := deadline, rn_updated := now\<rparr> else r) (ib_runs s)\<rparr>)"
    by (rule run_retired_map(1)) simp_all
  with False show ?thesis by (simp add: upsert_run_def)
qed

lemma upsert_tasks_runs: "upsert_tasks U ctx now run deadline ms s = Inr s' \<Longrightarrow> ib_runs s' = ib_runs s"
proof (induction ms arbitrary: s)
  case (Cons m ms)
  then obtain t where t: "upsert_task U ctx now run deadline m s = Inr t"
    "upsert_tasks U ctx now run deadline ms t = Inr s'" by auto
  have "ib_runs t = ib_runs s"
    using t(1) by (auto simp: upsert_task_def update_tasks_def split: option.splits)
  with Cons.IH [OF t(2)] show ?case by simp
qed simp

lemma run_retired_runs: "run_retired i s \<Longrightarrow> ib_runs s' = ib_runs s \<Longrightarrow> run_retired i s'"
  by (simp add: run_retired_def find_run_def)

lemma update_tasks_runs [simp]: "ib_runs (update_tasks P f s) = ib_runs s"
  by (simp add: update_tasks_def)

lemma retire_run_retired: "run_retired i s \<Longrightarrow> run_retired i (retire_run instant j s)"
  unfolding retire_run_def by (rule run_retired_map(2)) auto

lemma retire_loop_retired:
  "retire_loop U ctx cutoff instant dry ids (out, s) = Inr (out', s') \<Longrightarrow> run_retired i s \<Longrightarrow> run_retired i s'"
proof (induction ids arbitrary: out s)
  case (Cons j ids)
  then obtain ok where ok: "retirable U ctx cutoff instant j s = Inr ok" by auto
  with Cons.prems show ?case by (auto simp: retire_run_retired split: if_splits intro: Cons.IH)
qed simp

lemma retired_exec:
  assumes "run_retired i s" and "inbox_exec U jt call s = Inr s'"
  shows "run_retired i s'"
proof (cases "ic_op call")
  case (RegisterRun j request tasks wait)
  with assms(2) have r: "register_run U (ic_ctx call) (ic_now call) j request tasks wait s = Inr s'"
    by (simp add: inbox_exec_def Let_def)
  show ?thesis
    by (rule run_retired_runs [OF upsert_run_retired [OF assms(1)] upsert_tasks_runs [OF register_run_Inr(1) [OF r]]])
next
  case (Publish m wait j deadline)
  with assms(2) obtain run d where "upsert_task U (ic_ctx call) (ic_now call) run d m s = Inr s'"
    by (auto simp: inbox_exec_def Let_def publish_def split: if_splits)
  then have "upsert_tasks U (ic_ctx call) (ic_now call) run d [m] s = Inr s'" by simp
  from upsert_tasks_runs [OF this] show ?thesis by (rule run_retired_runs [OF assms(1)])
next
  case (RetireRuns ids before dry)
  with assms(2) obtain out where
    r: "retire_finalized_runs U (ic_ctx call) (ic_now call) ids before dry s = Inr (out, s')"
    by (auto simp: inbox_exec_def Let_def)
  from retire_Inr [OF r] retire_loop_retired assms(1) show ?thesis by blast
next
  case (ClaimTask token consumer seconds)
  with assms(2) obtain lease where "claim_task U jt (ic_ctx call) (ic_now call) token consumer seconds s = Inr (lease, s')"
    by (auto simp: inbox_exec_def Let_def)
  from claim_task_Inr [OF this] show ?thesis by (intro run_retired_runs [OF assms(1)]) auto
next
  case (Submit j token claims)
  with assms(2) obtain res where r: "submit U (ic_ctx call) (ic_now call) j token claims s = Inr (res, s')"
    by (auto simp: inbox_exec_def Let_def)
  from submit_Inr [OF r] show ?thesis by (intro run_retired_runs [OF assms(1)]) auto
next
  case (CompleteFallback j res route)
  with assms(2) obtain out where r: "complete_fallback (ic_now call) j res route s = Inr (out, s')"
    by (auto simp: inbox_exec_def Let_def)
  from complete_fallback_Inr [OF r] show ?thesis by (intro run_retired_runs [OF assms(1)]) auto
next
  case (MarkFallback j route)
  with assms(2) have "ib_runs s' = ib_runs s"
    by (auto simp: inbox_exec_def Let_def mark_fallback_def split: if_splits)
  then show ?thesis by (rule run_retired_runs [OF assms(1)])
qed

interpretation retired: op_machine "inbox_step U jt" "\<lambda>_. True" "run_retired i" for U jt i
  by unfold_locales (auto simp: inbox_step_def retired_exec split: sum.splits)

lemma retired_rejects:
  assumes "run_retired i s" and "i \<noteq> []"
  shows "py_strip j = i \<Longrightarrow> \<exists>e. register_run U ctx now j request tasks wait s = Inl e"
    and "py_strip (case req of Some x \<Rightarrow> if x = [] then rt_request_id m else x | None \<Rightarrow> rt_request_id m) = i \<Longrightarrow>
      \<exists>e. publish U ctx now m wait req deadline s = Inl e"
proof -
  have a: "assert_not_retired i s = Inl (ValueError (lit ''reason run has been retired; replay is not allowed''))"
    using assms(1) by (auto simp: run_retired_def assert_not_retired_def)
  show "py_strip j = i \<Longrightarrow> \<exists>e. register_run U ctx now j request tasks wait s = Inl e"
    using a by (auto simp: register_run_def Let_def)
  show "py_strip (case req of Some x \<Rightarrow> if x = [] then rt_request_id m else x | None \<Rightarrow> rt_request_id m) = i \<Longrightarrow>
      \<exists>e. publish U ctx now m wait req deadline s = Inl e"
    using a assms(2) by (simp add: publish_def Let_def)
qed

subsection \<open>The rows of a run\<close>

definition run_ids :: "ustr \<Rightarrow> inbox \<Rightarrow> ustr set" where
  "run_ids run s = tk_id ` {r \<in> set (ib_tasks s). tk_run r = Some run}"

lemma upsert_task_run_ids:
  assumes "upsert_task U ctx now run deadline m s = Inr s'"
  shows "run_ids run s' = insert (rt_task_id m) (run_ids run s)"
proof (cases "find_task (rt_task_id m) s")
  case None
  with assms have "s' = s\<lparr>ib_tasks := ib_tasks s @ [insert_task ctx now run deadline m]\<rparr>"
    by (simp add: upsert_task_def)
  moreover have "run_ids run (s\<lparr>ib_tasks := ib_tasks s @ [x]\<rparr>) = insert (tk_id x) (run_ids run s)"
    if "tk_run x = Some run" for x using that by (auto simp: run_ids_def)
  ultimately show ?thesis by (simp add: insert_task_def)
next
  case (Some x)
  let ?f = "\<lambda>r. if tk_id r = rt_task_id m then republish_task now run deadline m r else r"
  from Some assms have s': "ib_tasks s' = map ?f (ib_tasks s)"
    by (simp add: upsert_task_def update_tasks_def) (auto simp: update_tasks_def)
  have f: "tk_id (?f r) = tk_id r" "tk_run (?f r) = Some run \<longleftrightarrow> tk_run r = Some run \<or> tk_id r = rt_task_id m" for r
    by (simp_all add: republish_task_def Let_def)
  have x: "x \<in> set (ib_tasks s)" "tk_id x = rt_task_id m" using find_task_Some [OF Some] by auto
  show ?thesis
  proof (rule set_eqI)
    fix i
    have "i \<in> run_ids run s' \<longleftrightarrow> (\<exists>r \<in> set (ib_tasks s). tk_run (?f r) = Some run \<and> i = tk_id (?f r))"
      unfolding run_ids_def s' set_map by blast
    also have "\<dots> \<longleftrightarrow> (\<exists>r \<in> set (ib_tasks s). (tk_run r = Some run \<or> tk_id r = rt_task_id m) \<and> i = tk_id r)"
      by (simp only: f)
    also have "\<dots> \<longleftrightarrow> i \<in> insert (rt_task_id m) (run_ids run s)"
      using x by (auto simp: run_ids_def)
    finally show "i \<in> run_ids run s' \<longleftrightarrow> i \<in> insert (rt_task_id m) (run_ids run s)" .
  qed
qed

lemma upsert_tasks_run_ids:
  "upsert_tasks U ctx now run deadline ms s = Inr s' \<Longrightarrow> run_ids run s' = run_ids run s \<union> rt_task_id ` set ms"
proof (induction ms arbitrary: s)
  case (Cons m ms)
  then obtain t where t: "upsert_task U ctx now run deadline m s = Inr t"
    "upsert_tasks U ctx now run deadline ms t = Inr s'" by auto
  from Cons.IH [OF t(2)] upsert_task_run_ids [OF t(1)] show ?case by auto
qed simp

lemma run_rows_count:
  assumes "inbox_wf s"
  shows "length (filter (\<lambda>r. tk_run r = Some run) (ib_tasks s)) = card (run_ids run s)"
proof -
  have inj: "inj_on tk_id (set (ib_tasks s))" and d: "distinct (ib_tasks s)"
    using assms by (simp_all add: inbox_wf_def distinct_map)
  have "card (run_ids run s) = card {r \<in> set (ib_tasks s). tk_run r = Some run}"
    unfolding run_ids_def by (rule card_image, rule inj_on_subset [OF inj]) blast
  also have "\<dots> = length (filter (\<lambda>r. tk_run r = Some run) (ib_tasks s))"
    using distinct_card [of "filter (\<lambda>r. tk_run r = Some run) (ib_tasks s)"] d by simp
  finally show ?thesis by simp
qed

lemma own_snapshot_visible:
  assumes "case ctx of None \<Rightarrow> True | Some c \<Rightarrow> caller_wf U c"
  shows "snapshot_visible U ctx (Some (authority_snapshot None ctx)) = Inr True"
proof (cases ctx)
  case None
  then show ?thesis by (simp add: snapshot_visible_def)
next
  case (Some c)
  with assms python_visible [of U c c] show ?thesis by (simp add: authority_snapshot_def scope_covers_def)
qed

lemma registered_run:
  assumes "register_run U ctx now i request tasks wait s = Inr s'" and "case ctx of None \<Rightarrow> True | Some c \<Rightarrow> caller_wf U c"
  shows "\<exists>run. find_run (py_strip i) s' = Some run \<and> rn_expected run = int (length tasks) \<and> rn_deadline run = now + wait
    \<and> rn_request run = request \<and> snapshot_visible U ctx (rn_authority run) = Inr True"
proof -
  let ?i = "py_strip i"
  have runs: "ib_runs s' = ib_runs (upsert_run ctx now ?i request (int (length tasks)) (now + wait) s)"
    by (rule upsert_tasks_runs [OF register_run_Inr(1) [OF assms(1)]])
  show ?thesis
  proof (cases "find_run ?i s")
    case None
    then have "find_run ?i s' = Some \<lparr>rn_id = ?i, rn_request = request, rn_expected = int (length tasks),
             rn_deadline = now + wait, rn_created = now, rn_updated = now,
             rn_authority = Some (authority_snapshot None ctx), rn_retired = None\<rparr>"
      using runs by (simp add: find_run_def upsert_run_def find_append)
    with own_snapshot_visible [OF assms(2)] show ?thesis by simp
  next
    case (Some run)
    have "rn_id run = ?i" using Some by (auto simp: find_run_def find_Some_iff)
    with Some have "find_run ?i s' = Some (run\<lparr>rn_request := request, rn_expected := int (length tasks),
        rn_deadline := now + wait, rn_updated := now\<rparr>)"
      using runs by (simp add: find_run_def upsert_run_def find_run_map)
    moreover have "snapshot_visible U ctx (rn_authority run) = Inr True"
      using assms(1) Some by (auto simp: register_run_def Let_def assert_row_visible_def split: if_splits)
    ultimately show ?thesis by simp
  qed
qed

subsection \<open>Properties\<close>

text \<open>
  C7. The first result wins for good: once a task is completed, no later sequence of
  registrations, publications, claims, submissions, fallbacks and dry-run retirements changes
  its result or its route, and a fallback that finishes late is handed the winner's result and
  changes nothing.
\<close>

theorem winner_is_final:
  assumes "inbox_wf s" and "list_all (\<lambda>call. keeps_winners (ic_op call)) calls"
    and "r \<in> set (ib_tasks s)" and "tk_status r = TASK_COMPLETED"
  shows "\<exists>r' res. r' \<in> set (ib_tasks (fold (inbox_step U jt) calls s)) \<and> tk_id r' = tk_id r
    \<and> tk_status r' = TASK_COMPLETED \<and> tk_result r = Some res \<and> tk_result r' = Some res \<and> tk_route r' = tk_route r
    \<and> (\<forall>now i other route. py_strip i = tk_id r \<longrightarrow> py_strip i \<noteq> [] \<longrightarrow> py_strip route \<noteq> [] \<longrightarrow> py_strip route \<noteq> mcp_route \<longrightarrow>
         complete_fallback now i other route (fold (inbox_step U jt) calls s) = Inr (res, fold (inbox_step U jt) calls s))"
proof -
  let ?s = "fold (inbox_step U jt) calls s"
  have "winners_kept s ?s" by (rule winners.run_rel [OF assms(2,1)])
  then obtain r' where r': "r' \<in> set (ib_tasks ?s)" "tk_id r' = tk_id r" "tk_status r' = TASK_COMPLETED"
    "tk_result r' = tk_result r" "tk_route r' = tk_route r" using assms(3,4) unfolding winners_kept_def by blast
  have "task_wf r" using assms(1,3) by (simp add: inbox_wf_def list_all_iff)
  then obtain res where res: "tk_result r = Some res" using assms(4) by (auto simp: task_wf_def)
  have wf: "inbox_wf ?s" by (rule inbox.run_inv [OF _ assms(1)]) (simp add: list_all_iff)
  obtain x where x: "find_task (tk_id r) ?s = Some x"
    using find_task_None [of "tk_id r" ?s] imageI [OF r'(1), of tk_id] r'(2)
    by (cases "find_task (tk_id r) ?s") simp_all
  from find_task_Some [OF x] task_unique [OF wf _ r'(1)] r'(2) have "x = r'" by simp
  with x r' res have "complete_fallback now i other route ?s = Inr (res, ?s)"
    if "py_strip i = tk_id r" "py_strip i \<noteq> []" "py_strip route \<noteq> []" "py_strip route \<noteq> mcp_route" for now i other route
    using that by (simp add: complete_fallback_def Let_def)
  then have "\<forall>now i other route. py_strip i = tk_id r \<longrightarrow> py_strip i \<noteq> [] \<longrightarrow> py_strip route \<noteq> [] \<longrightarrow> py_strip route \<noteq> mcp_route \<longrightarrow>
         complete_fallback now i other route ?s = Inr (res, ?s)" by blast
  with r' res show ?thesis by (intro exI [of _ r'] exI [of _ res]) simp
qed

text \<open>
  C8. A submission is accepted only under the current lease and only when grounded: the task
  was visible and claimed with exactly this token, lease and deadline had not passed, the
  stored result is for this task with confidences in the unit interval and cites no evidence
  outside the task's, and only that task's row changes.
\<close>

theorem submit_is_guarded:
  assumes "inbox_wf s" and "submit U ctx now task_id token claims s = Inr (res, s')"
  shows "\<exists>row \<in> set (ib_tasks s). tk_id row = py_strip task_id \<and> snapshot_visible U ctx (tk_authority row) = Inr True
    \<and> tk_status row = TASK_CLAIMED \<and> tk_token row = Some (py_strip token)
    \<and> (\<exists>lease. tk_lease row = Some lease \<and> now < lease) \<and> now < tk_deadline row
    \<and> tr_claims res = claims \<and> grounded_result (tk_request row) res
    \<and> ib_runs s' = ib_runs s
    \<and> ib_tasks s' = map (\<lambda>r. if r = row then r\<lparr>tk_status := TASK_COMPLETED, tk_result := Some res,
        tk_route := Some mcp_route, tk_updated := now\<rparr> else r) (ib_tasks s)"
proof -
  from submit_Inr [OF assms(2)] obtain row where
    row: "find_task (py_strip task_id) s = Some row"
    and vis: "assert_row_visible U ctx (Some (tk_authority row)) (py_strip task_id) = Inr ()"
    and st: "tk_status row = TASK_CLAIMED" "the_default [] (tk_token row) = py_strip token" "py_strip token \<noteq> []"
      "\<exists>lease. tk_lease row = Some lease \<and> now < lease" "now < tk_deadline row"
    and res: "make_task_result (py_strip task_id) claims = Inr res" "validate_task_result (tk_request row) res = Inr res"
    and s': "s' = update_tasks (\<lambda>r. tk_id r = py_strip task_id \<and> tk_status r = TASK_CLAIMED
             \<and> tk_token r = Some (py_strip token) \<and> now < tk_deadline r)
           (\<lambda>r. r\<lparr>tk_status := TASK_COMPLETED, tk_result := Some res, tk_route := Some mcp_route, tk_updated := now\<rparr>) s"
    by blast
  note r = find_task_Some [OF row]
  have tok: "tk_token row = Some (py_strip token)" using st(2,3) by (cases "tk_token row") auto
  have "(tk_id x = py_strip task_id \<and> tk_status x = TASK_CLAIMED \<and> tk_token x = Some (py_strip token) \<and> now < tk_deadline x)
      \<longleftrightarrow> x = row" if "x \<in> set (ib_tasks s)" for x
    using task_unique [OF assms(1) that, of row] r st(1,5) tok by auto
  then have "ib_tasks s' = map (\<lambda>r. if r = row then r\<lparr>tk_status := TASK_COMPLETED, tk_result := Some res,
        tk_route := Some mcp_route, tk_updated := now\<rparr> else r) (ib_tasks s)"
    by (simp add: s' update_tasks_def cong: map_cong)
  moreover have "tr_claims res = claims" using res(1) by (auto simp: make_task_result_def split: if_splits)
  moreover have "snapshot_visible U ctx (tk_authority row) = Inr True"
    using vis by (auto simp: assert_row_visible_def split: if_splits)
  moreover have "grounded_result (tk_request row) res" using validated_grounded [OF res] by simp
  moreover have "ib_runs s' = ib_runs s" by (simp add: s')
  ultimately show ?thesis using r st tok by blast
qed

text \<open>
  C9. Leases exclude each other: after a consumer claims a task, no claim made before the lease
  ends is given the same task, whatever claims, submissions, fallbacks, retirements of runs and
  registrations or publications of other tasks happen in between before that time. Registering or
  publishing the same task again is excepted: it makes an uncompleted task available at once.
\<close>

theorem lease_is_exclusive:
  assumes "inbox_wf s" and "claim_task U jt ctx now token consumer seconds s = Inr (Some lease, s')"
    and "list_all (within_lease (rt_task_id (ls_task lease)) (now + 1000000 * seconds)) calls"
    and "later < now + 1000000 * seconds"
    and "claim_task U jt ctx' later token' consumer' seconds' (fold (inbox_step U jt) calls s') = Inr (Some lease', s'')"
  shows "rt_task_id (ls_task lease') \<noteq> rt_task_id (ls_task lease)"
proof -
  have claimed: "\<exists>i r. r \<in> set (ib_tasks t) \<and> task_claimable n r \<and> tk_id r = i \<and> rt_task_id (ls_task l) = i
      \<and> t' = update_tasks (\<lambda>r. tk_id r = i \<and> task_claimable n r) (start_lease tok (py_strip con) (n + 1000000 * sec) n) t"
    if wf: "inbox_wf t" and c: "claim_task U jt cx n tok con sec t = Inr (Some l, t')" for cx n tok con sec t l t'
  proof -
    from c obtain row rest where
      sorted: "sort_key tk_created (sort_key tk_id (filter (\<lambda>r. task_claimable n r \<and> sql_visible jt cx (tk_authority r)) (ib_tasks t)))
        = row # rest"
      and t': "t' = update_tasks (\<lambda>r. tk_id r = tk_id row \<and> task_claimable n r)
          (start_lease tok (py_strip con) (n + 1000000 * sec) n) t"
      and l: "map_option lease_of (find_task (tk_id row) t') = Some l"
      by (auto simp: claim_task_def Let_def split: if_splits list.splits)
    have "row \<in> set (sort_key tk_created (sort_key tk_id
        (filter (\<lambda>r. task_claimable n r \<and> sql_visible jt cx (tk_authority r)) (ib_tasks t))))"
      unfolding sorted by simp
    then have row: "row \<in> set (ib_tasks t)" "task_claimable n row" by auto
    from l obtain x where x: "find_task (tk_id row) t' = Some x" "l = lease_of x" by auto
    have "inbox_wf t'" using claim_task_step [OF wf c] by (simp add: task_step_def)
    then have "task_wf x" using find_task_Some [OF x(1)] by (simp add: inbox_wf_def list_all_iff)
    then have "rt_task_id (ls_task l) = tk_id row"
      using find_task_Some [OF x(1)] x(2) by (simp add: task_wf_def lease_of_def)
    with row t' show ?thesis by blast
  qed
  let ?i = "rt_task_id (ls_task lease)"
  from claimed [OF assms(1,2)] obtain r where r: "r \<in> set (ib_tasks s)" "task_claimable now r" "tk_id r = ?i"
    and s': "s' = update_tasks (\<lambda>r. tk_id r = ?i \<and> task_claimable now r)
      (start_lease token (py_strip consumer) (now + 1000000 * seconds) now) s" by auto
  have "task_claimable now x" if "x \<in> set (ib_tasks s)" "tk_id x = ?i" for x
    using task_unique [OF assms(1) that(1) r(1)] that(2) r(2,3) by simp
  then have "leased ?i (now + 1000000 * seconds) s'"
    unfolding leased_def s' by (auto simp: update_tasks_def start_lease_def)
  moreover have "inbox_wf s'" using claim_task_step [OF assms(1,2)] by (simp add: task_step_def)
  ultimately have after: "inbox_wf (fold (inbox_step U jt) calls s')"
    "leased ?i (now + 1000000 * seconds) (fold (inbox_step U jt) calls s')"
    using leasing.run_inv [OF assms(3)] by blast+
  from claimed [OF after(1) assms(5)] leased_not_claimable [OF after(2) assms(4)] show ?thesis by metis
qed

text \<open>
  A retired run cannot be replayed: once a run is marked retired, after any further calls
  registering it again or publishing a task into it raises.
\<close>

theorem retired_run_rejects_replay:
  assumes "run_retired i s" and "i \<noteq> []" and "py_strip j = i" and "py_strip (rt_request_id m) = i"
  shows "(\<exists>e. register_run U ctx now j request tasks wait (fold (inbox_step U jt) calls s) = Inl e)
    \<and> (\<exists>e. publish U ctx now m wait None deadline (fold (inbox_step U jt) calls s) = Inl e)"
proof -
  have "run_retired i (fold (inbox_step U jt) calls s)"
    by (rule retired.run_inv [OF _ assms(1)]) (simp add: list_all_iff)
  from retired_rejects [OF this assms(2)] assms(3,4) show ?thesis by simp
qed

text \<open>
  When a registered run is ready: if no task of an earlier registration of the same run is
  left out of the new task set, \<open>run_ready\<close> answers, and says yes exactly when there are no tasks,
  all the run's tasks are completed, or its deadline has passed. A task left over from an
  earlier registration makes it raise the count mismatch instead.
\<close>

theorem run_ready_after_register:
  assumes "inbox_wf s" and "case ctx of None \<Rightarrow> True | Some c \<Rightarrow> caller_wf U c"
    and "register_run U ctx now i request tasks wait s = Inr s'"
  shows "run_ready U ctx later i s' =
    (if \<exists>r \<in> set (ib_tasks s). tk_run r = Some (py_strip i) \<and> tk_id r \<notin> rt_task_id ` set tasks
     then Inl (RuntimeError (lit ''reason run task count mismatch''))
     else Inr (tasks = [] \<or> list_all (\<lambda>r. tk_status r = TASK_COMPLETED)
                 (filter (\<lambda>r. tk_run r = Some (py_strip i)) (ib_tasks s')) \<or> now + wait \<le> later))"
proof -
  let ?i = "py_strip i"
  obtain run where run: "find_run ?i s' = Some run" "rn_expected run = int (length tasks)" "rn_deadline run = now + wait"
    "snapshot_visible U ctx (rn_authority run) = Inr True" using registered_run [OF assms(3,2)] by blast
  have wf: "inbox_wf s'" using register_run_step [OF assms(1,3)] by (simp add: task_step_def)
  have same: "run_ids ?i (upsert_run ctx now ?i request (int (length tasks)) (now + wait) s) = run_ids ?i s"
    by (simp add: run_ids_def)
  have ids: "run_ids ?i s' = run_ids ?i s \<union> rt_task_id ` set tasks"
    using upsert_tasks_run_ids [OF register_run_Inr(1) [OF assms(3)]] same by simp
  have len: "card (rt_task_id ` set tasks) = length tasks"
    using register_run_Inr(2) [OF assms(3)] by (metis distinct_card length_map set_map)
  have fin: "finite (run_ids ?i s)" by (simp add: run_ids_def)
  have "card (run_ids ?i s') = length tasks \<longleftrightarrow> run_ids ?i s \<subseteq> rt_task_id ` set tasks"
  proof
    assume "card (run_ids ?i s') = length tasks"
    then have "rt_task_id ` set tasks = run_ids ?i s'"
      using ids len fin by (intro card_subset_eq) auto
    then show "run_ids ?i s \<subseteq> rt_task_id ` set tasks" using ids by blast
  next
    assume "run_ids ?i s \<subseteq> rt_task_id ` set tasks"
    then have "run_ids ?i s' = rt_task_id ` set tasks" using ids by blast
    then show "card (run_ids ?i s') = length tasks" using len by simp
  qed
  moreover have "run_ids ?i s \<subseteq> rt_task_id ` set tasks \<longleftrightarrow>
      \<not> (\<exists>r \<in> set (ib_tasks s). tk_run r = Some ?i \<and> tk_id r \<notin> rt_task_id ` set tasks)"
    by (auto simp: run_ids_def)
  ultimately have count: "int (length (filter (\<lambda>r. tk_run r = Some ?i) (ib_tasks s'))) = rn_expected run \<longleftrightarrow>
      \<not> (\<exists>r \<in> set (ib_tasks s). tk_run r = Some ?i \<and> tk_id r \<notin> rt_task_id ` set tasks)"
    using run_rows_count [OF wf, of ?i] run(2) by simp
  have ready: "run_ready U ctx later i s' =
    (if int (length (filter (\<lambda>r. tk_run r = Some ?i) (ib_tasks s'))) \<noteq> rn_expected run
     then Inl (RuntimeError (lit ''reason run task count mismatch''))
     else if rn_expected run = 0 then Inr True
     else if list_all (\<lambda>r. tk_status r = TASK_COMPLETED) (filter (\<lambda>r. tk_run r = Some ?i) (ib_tasks s')) then Inr True
     else Inr (rn_deadline run \<le> later))"
    using run by (simp add: run_ready_def Let_def run_request_def assert_row_visible_def py_strip_idem)
  show ?thesis
    unfolding ready count [THEN arg_cong [where f = Not]] using run(2,3) by simp
qed

subsection \<open>Witnesses\<close>

text \<open>One run with one task, claimed at time 0 for thirty seconds and answered.\<close>

definition example_request :: task_request where
  "example_request = \<lparr>rt_task_id = [116], rt_request_id = [114], rt_topic = [], rt_kind = CAVEAT, rt_instruction = [],
     rt_evidence = [\<lparr>ev_id = [101], ev_record_type = [], ev_content = [], ev_score = None, ev_event_time = None,
       ev_metadata = JNull\<rparr>]\<rparr>"

definition example_claim :: task_claim where
  "example_claim = \<lparr>tc_claim = [99], tc_evidence_ids = [[101]], tc_confidence = 1\<rparr>"

definition example_run :: run_row where
  "example_run = \<lparr>rn_id = [114], rn_request = JNull, rn_expected = 1, rn_deadline = 60000000, rn_created = 0,
     rn_updated = 0, rn_authority = Some (authority_snapshot None None), rn_retired = None\<rparr>"

definition example_task :: task_row where
  "example_task = insert_task None 0 [114] 60000000 example_request"

definition example_inbox :: inbox where
  "example_inbox = \<lparr>ib_tasks = [example_task], ib_runs = [example_run]\<rparr>"

definition example_leased :: inbox where
  "example_leased = \<lparr>ib_tasks = [start_lease [107] [99] 30000000 0 example_task], ib_runs = [example_run]\<rparr>"

definition example_answer :: task_result where
  "example_answer = \<lparr>tr_task_id = [116], tr_claims = [example_claim]\<rparr>"

definition example_answered :: inbox where
  "example_answered = \<lparr>ib_tasks = [(start_lease [107] [99] 30000000 0 example_task)\<lparr>tk_status := TASK_COMPLETED,
     tk_result := Some example_answer, tk_route := Some mcp_route, tk_updated := 1\<rparr>], ib_runs = [example_run]\<rparr>"

lemma example_strip: "py_strip [116] = [116]" "py_strip [114] = [114]" "py_strip [107] = [107]" "py_strip [99] = [99]"
  "py_strip [102] = [102]"
  by (simp_all add: py_strip_def py_lstrip_def py_rstrip_def py_space_def)

lemma example_task_simps [simp]:
  "tk_id example_task = [116]" "tk_status example_task = TASK_PENDING" "tk_deadline example_task = 60000000"
  "tk_request example_task = example_request" "rt_task_id example_request = [116]" "tk_created example_task = 0"
  "tk_run example_task = Some [114]" "rt_request_id example_request = [114]"
  by (simp_all add: example_task_def insert_task_def example_request_def)

lemma example_registered:
  "register_run ascii_tables None 0 [114] JNull [example_request] 60000000 \<lparr>ib_tasks = [], ib_runs = []\<rparr> = Inr example_inbox"
  by (simp add: register_run_def Let_def example_strip assert_not_retired_def find_run_def upsert_task_def find_task_def
      upsert_run_def example_inbox_def example_run_def example_task_def)

lemma example_claimed:
  "claim_task ascii_tables no_text None 0 [107] [99] 30 example_inbox = Inr (Some (lease_of (hd (ib_tasks example_leased))), example_leased)"
  by (simp add: claim_task_def example_strip example_inbox_def example_leased_def task_claimable_def Let_def
      assert_row_visible_def update_tasks_def find_task_def start_lease_def)

lemma example_submitted:
  "submit ascii_tables None 1 [116] [107] [example_claim] example_leased = Inr (example_answer, example_answered)"
  by (simp add: submit_def example_strip example_leased_def find_task_def start_lease_def assert_row_visible_def
      make_task_result_def claim_fields_ok_def example_claim_def validate_task_result_def Let_def known_evidence_def
      update_tasks_def example_answered_def example_answer_def) (simp add: example_request_def)

lemma example_wf: "inbox_wf example_inbox" "inbox_wf example_leased" "inbox_wf example_answered"
proof -
  show "inbox_wf example_inbox" by (simp add: inbox_wf_def example_inbox_def task_wf_def)
  then show l: "inbox_wf example_leased" using claim_task_step [OF _ example_claimed] by (simp add: task_step_def)
  show "inbox_wf example_answered" using submit_step [OF l example_submitted] by (simp add: task_step_def)
qed

theorem winner_is_final_witness:
  "complete_fallback 9 [116] \<lparr>tr_task_id = [116], tr_claims = []\<rparr> [102]
     (fold (inbox_step ascii_tables no_text) [\<lparr>ic_ctx = None, ic_now = 5, ic_op = MarkFallback [116] [102]\<rparr>] example_answered)
   = Inr (example_answer, fold (inbox_step ascii_tables no_text)
        [\<lparr>ic_ctx = None, ic_now = 5, ic_op = MarkFallback [116] [102]\<rparr>] example_answered)"
proof -
  let ?r = "hd (ib_tasks example_answered)"
  have r: "?r \<in> set (ib_tasks example_answered)" "tk_status ?r = TASK_COMPLETED" "tk_result ?r = Some example_answer" "tk_id ?r = [116]"
    by (simp_all add: example_answered_def start_lease_def)
  have "[102] \<noteq> mcp_route" by (simp add: mcp_route_def lit_def)
  with winner_is_final [OF example_wf(3) _ r(1,2), of "[\<lparr>ic_ctx = None, ic_now = 5, ic_op = MarkFallback [116] [102]\<rparr>]"
      ascii_tables no_text] r(3,4)
  show ?thesis by (auto simp: keeps_winners_def example_strip)
qed

theorem submit_is_guarded_witness:
  "\<exists>row \<in> set (ib_tasks example_leased). tk_status row = TASK_CLAIMED \<and> grounded_result (tk_request row) example_answer"
  using submit_is_guarded [OF example_wf(2) example_submitted] by blast

theorem lease_is_exclusive_witness:
  "case claim_task ascii_tables no_text None 29000000 [108] [99] 30 example_leased of
     Inr (Some lease', s'') \<Rightarrow> rt_task_id (ls_task lease') \<noteq> [116] | _ \<Rightarrow> True"
proof -
  have "rt_task_id (ls_task (lease_of (hd (ib_tasks example_leased)))) = [116]"
    by (simp add: example_leased_def start_lease_def lease_of_def)
  with lease_is_exclusive [OF example_wf(1) example_claimed, of "[]" 29000000]
  show ?thesis by (auto split: sum.splits option.splits)
qed

theorem retired_run_rejects_replay_witness:
  "\<exists>e. register_run ascii_tables None 5 [114] JNull [] 0
     (fold (inbox_step ascii_tables no_text) [\<lparr>ic_ctx = None, ic_now = 5, ic_op = MarkFallback [116] [102]\<rparr>]
       (retire_run 4 [114] example_answered)) = Inl e"
proof -
  have "run_retired [114] (retire_run 4 [114] example_answered)"
    by (simp add: run_retired_def retire_run_def find_run_def example_answered_def example_run_def)
  from retired_run_rejects_replay [OF this, of "[114]" example_request, THEN conjunct1] show ?thesis
    by (simp only: example_strip example_task_simps not_Cons_self2 list.distinct simp_thms)
qed

theorem run_ready_after_register_witness:
  "run_ready ascii_tables None 59999999 [114] example_inbox = Inr False
   \<and> run_ready ascii_tables None 60000000 [114] example_inbox = Inr True"
  using run_ready_after_register [OF _ _ example_registered, of 59999999]
    run_ready_after_register [OF _ _ example_registered, of 60000000]
  by (simp add: inbox_wf_def example_strip) (simp add: example_inbox_def)

end
