(* ===== verification/Reason_Board.thy ===== *)
theory Reason_Board
  imports Reason_Inbox
begin

text \<open>
  The contract of the reason task inbox (\<^verbatim>\<open>cyberbrain/dreaming/reason_task_inbox.py\<close>) as an
  abstract machine: a board that says of each task whether its answer is still open or
  decided, by which answer and along which route. Tokens, leases, deadlines, times, runs
  and authorities are left out; every operation of the inbox is simulated by one step of the
  board that names only the tasks it may open, the one it may decide, or those it discards.
\<close>

datatype fate = Open | Decided task_result ustr

type_synonym board = "ustr \<rightharpoonup> fate"

definition fate_of :: "task_row \<Rightarrow> fate" where
  "fate_of r = (if tk_status r = TASK_COMPLETED then Decided (the (tk_result r)) (the (tk_route r)) else Open)"

definition board_of :: "inbox \<Rightarrow> board" where
  "board_of s i = map_option fate_of (find_task i s)"

subsection \<open>The abstract operations\<close>

definition open_tasks :: "ustr set \<Rightarrow> board \<Rightarrow> board" where
  "open_tasks ids b i = (if i \<in> ids \<and> b i = None then Some Open else b i)"

definition decides :: "ustr \<Rightarrow> ustr \<Rightarrow> task_claim list \<Rightarrow> board \<Rightarrow> board \<Rightarrow> bool" where
  "decides i route claims b b' \<longleftrightarrow> b i = Some Open \<and> b' = b(i \<mapsto> Decided \<lparr>tr_task_id = i, tr_claims = claims\<rparr> route)"

fun board_step :: "inbox_op \<Rightarrow> board \<Rightarrow> board \<Rightarrow> bool" where
  "board_step (RegisterRun _ _ tasks _) b b' \<longleftrightarrow> b' = open_tasks (rt_task_id ` set tasks) b"
| "board_step (Publish m _ _ _) b b' \<longleftrightarrow> b' = open_tasks {rt_task_id m} b"
| "board_step (ClaimTask _ _ _) b b' \<longleftrightarrow> b' = b"
| "board_step (Submit i _ claims) b b' \<longleftrightarrow> decides (py_strip i) mcp_route claims b b'"
| "board_step (CompleteFallback i res route) b b' \<longleftrightarrow>
     (if \<exists>a route'. b (py_strip i) = Some (Decided a route') then b' = b
      else tr_task_id res = py_strip i \<and> decides (py_strip i) (py_strip route) (tr_claims res) b b')"
| "board_step (MarkFallback _ _) b b' \<longleftrightarrow> b' = b"
| "board_step (RetireRuns _ _ dry_run) b b' \<longleftrightarrow> b' \<subseteq>\<^sub>m b \<and> (dry_run \<longrightarrow> b' = b)"

subsection \<open>The rows of a table as a board\<close>

lemma find_task_map:
  assumes "\<And>r. tk_id (g r) = tk_id r"
  shows "find_task i (s\<lparr>ib_tasks := map g (ib_tasks s)\<rparr>) = map_option g (find_task i s)"
proof -
  have "find (\<lambda>r. tk_id r = i) (map g rs) = map_option g (find (\<lambda>r. tk_id r = i) rs)" for rs
    using assms by (induction rs) simp_all
  then show ?thesis by (simp add: find_task_def)
qed

lemma board_of_update:
  assumes "\<And>r. P r \<Longrightarrow> tk_id (f r) = tk_id r"
  shows "board_of (update_tasks P f s) i = map_option (\<lambda>r. fate_of (if P r then f r else r)) (find_task i s)"
proof -
  have "tk_id (if P r then f r else r) = tk_id r" for r using assms by simp
  from find_task_map [OF this] show ?thesis by (simp add: board_of_def update_tasks_def option.map_comp comp_def)
qed

lemma board_of_same:
  assumes "\<And>r. P r \<Longrightarrow> tk_id (f r) = tk_id r \<and> fate_of (f r) = fate_of r"
  shows "board_of (update_tasks P f s) = board_of s"
proof
  fix i
  have "fate_of (if P r then f r else r) = fate_of r" for r using assms by simp
  then show "board_of (update_tasks P f s) i = board_of s i" using assms by (simp add: board_of_update) (simp add: board_of_def)
qed

lemma board_of_decided:
  assumes "inbox_wf s" and "find_task i s = Some row" and "tk_status row \<noteq> TASK_COMPLETED" and "P row"
    and "\<And>r. P r \<Longrightarrow> tk_id r = i"
    and "\<And>r. tk_id (f r) = tk_id r \<and> tk_status (f r) = TASK_COMPLETED \<and> tk_result (f r) = Some m \<and> tk_route (f r) = Some route"
    and "tr_task_id m = i"
  shows "decides i route (tr_claims m) (board_of s) (board_of (update_tasks P f s))"
proof -
  have "board_of s i = Some Open" using assms(2,3) by (simp add: board_of_def fate_of_def)
  moreover have "board_of (update_tasks P f s) j = ((board_of s)(i \<mapsto> Decided m route)) j" for j
  proof (cases "j = i")
    case True
    then show ?thesis using assms(2,4,6) by (simp add: board_of_update fate_of_def)
  next
    case False
    have "fate_of (if P r then f r else r) = fate_of r" if "find_task j s = Some r" for r
      using find_task_Some [OF that] False assms(5) by auto
    then show ?thesis using False assms(6) by (cases "find_task j s") (simp_all add: board_of_update, simp_all add: board_of_def)
  qed
  moreover have "m = \<lparr>tr_task_id = i, tr_claims = tr_claims m\<rparr>" using assms(7) by simp
  ultimately show ?thesis unfolding decides_def by (metis ext)
qed

lemma board_of_runs: "ib_tasks s = ib_tasks s' \<Longrightarrow> board_of s = board_of s'"
  by (rule ext) (simp add: board_of_def find_task_def)

subsection \<open>Publishing opens tasks\<close>

lemma open_tasks_insert: "open_tasks (insert i ids) b = open_tasks ids (open_tasks {i} b)"
  by (rule ext) (auto simp: open_tasks_def)

lemma upsert_task_board:
  assumes "upsert_task U ctx now run deadline m s = Inr s'"
  shows "board_of s' = open_tasks {rt_task_id m} (board_of s)"
proof (cases "find_task (rt_task_id m) s")
  case None
  with assms have s': "s' = s\<lparr>ib_tasks := ib_tasks s @ [insert_task ctx now run deadline m]\<rparr>" by (simp add: upsert_task_def)
  show ?thesis
  proof
    fix i
    have "find_task i s' = (if i = rt_task_id m then Some (insert_task ctx now run deadline m) else find_task i s)"
      using None by (cases "find_task i s") (auto simp: s' find_task_def find_append insert_task_def)
    then show "board_of s' i = open_tasks {rt_task_id m} (board_of s) i"
      using None by (simp add: board_of_def open_tasks_def fate_of_def insert_task_def)
  qed
next
  case (Some existing)
  with assms have s': "s' = update_tasks (\<lambda>r. tk_id r = rt_task_id m) (republish_task now run deadline m) s" by (simp add: upsert_task_def)
  have "board_of s' = board_of s" unfolding s'
    by (rule board_of_same) (simp add: republish_task_def fate_of_def Let_def)
  moreover have "open_tasks {rt_task_id m} (board_of s) = board_of s"
    using Some by (intro ext) (auto simp: open_tasks_def board_of_def)
  ultimately show ?thesis by simp
qed

lemma upsert_tasks_board:
  "upsert_tasks U ctx now run deadline ms s = Inr s' \<Longrightarrow> board_of s' = open_tasks (rt_task_id ` set ms) (board_of s)"
proof (induction ms arbitrary: s)
  case Nil
  then show ?case by (simp add: open_tasks_def)
next
  case (Cons m ms)
  then obtain t where t: "upsert_task U ctx now run deadline m s = Inr t" "upsert_tasks U ctx now run deadline ms t = Inr s'" by auto
  from Cons.IH [OF t(2)] upsert_task_board [OF t(1)] show ?case
    by (simp add: open_tasks_insert [of _ "rt_task_id ` set ms"])
qed

subsection \<open>Answers and retirement\<close>

lemma result_claims: "make_task_result i claims = Inr m \<Longrightarrow> tr_claims m = claims"
  by (auto simp: make_task_result_def split: if_splits)

lemma submit_board:
  assumes "inbox_wf s" and "submit U ctx now i token claims s = Inr (m, s')"
  shows "decides (py_strip i) mcp_route claims (board_of s) (board_of s')"
  using submit_Inr [OF assms(2)]
proof (elim exE conjE)
  fix row
  let ?i = "py_strip i" and ?t = "py_strip token"
  let ?hit = "\<lambda>r. tk_id r = ?i \<and> tk_status r = TASK_CLAIMED \<and> tk_token r = Some ?t \<and> now < tk_deadline r"
  let ?f = "\<lambda>r. r\<lparr>tk_status := TASK_COMPLETED, tk_result := Some m, tk_route := Some mcp_route, tk_updated := now\<rparr>"
  assume row: "find_task ?i s = Some row" "tk_status row = TASK_CLAIMED" "the_default [] (tk_token row) = ?t" "?t \<noteq> []"
      "now < tk_deadline row"
    and m: "make_task_result ?i claims = Inr m" and s': "s' = update_tasks ?hit ?f s"
  note mm = result_task_id [OF m] result_claims [OF m]
  have "tk_token row = Some ?t" using row(3,4) by (cases "tk_token row") simp_all
  then have "?hit row" using find_task_Some [OF row(1)] row(2,5) by simp
  from board_of_decided [where f = ?f and P = ?hit and m = m and route = mcp_route, OF assms(1) row(1) _ this] row(2)
  show ?thesis unfolding s' by (simp add: mm)
qed

lemma fallback_board:
  assumes "inbox_wf s" and "complete_fallback now i res route s = Inr (m, s')"
  shows "board_step (CompleteFallback i res route) (board_of s) (board_of s')"
  using complete_fallback_Inr [OF assms(2)]
proof (elim exE conjE disjE)
  fix row assume "find_task (py_strip i) s = Some row" "s' = s" "tk_status row = TASK_COMPLETED"
  then show ?thesis by (simp add: board_of_def fate_of_def)
next
  fix row m'
  let ?i = "py_strip i" and ?route = "py_strip route"
  let ?hit = "\<lambda>r. tk_id r = ?i \<and> tk_status r \<noteq> TASK_COMPLETED"
  let ?f = "\<lambda>r. r\<lparr>tk_status := TASK_COMPLETED, tk_result := Some m', tk_route := Some ?route, tk_updated := now\<rparr>"
  assume row: "find_task ?i s = Some row" "tk_status row \<noteq> TASK_COMPLETED"
    and m': "make_task_result (tr_task_id res) (tr_claims res) = Inr m'" "validate_task_result (tk_request row) m' = Inr m'"
    and s': "s' = update_tasks ?hit ?f s"
  note mm = result_task_id [OF m'(1)] result_claims [OF m'(1)]
  have "rt_task_id (tk_request row) = ?i" using assms(1) find_task_Some [OF row(1)] by (auto simp: inbox_wf_def task_wf_def list_all_iff)
  then have id: "tr_task_id res = ?i" using m'(2) mm(1) by (auto simp: validate_task_result_def split: if_splits)
  have "?hit row" using find_task_Some [OF row(1)] row(2) by simp
  from board_of_decided [where f = ?f and P = ?hit and m = m' and route = ?route, OF assms(1) row this]
  have "decides ?i ?route (tr_claims res) (board_of s) (board_of s')" unfolding s' by (simp add: mm id)
  moreover have "board_of s ?i = Some Open" using row by (simp add: board_of_def fate_of_def)
  ultimately show ?thesis using id by simp
qed

lemma filter_board:
  assumes "inbox_wf s" shows "board_of (s\<lparr>ib_tasks := filter P (ib_tasks s)\<rparr>) \<subseteq>\<^sub>m board_of s"
  unfolding map_le_def
proof (intro ballI)
  fix i assume "i \<in> dom (board_of (s\<lparr>ib_tasks := filter P (ib_tasks s)\<rparr>))"
  then obtain r where r: "find_task i (s\<lparr>ib_tasks := filter P (ib_tasks s)\<rparr>) = Some r" by (auto simp: board_of_def)
  from find_task_Some [OF r] have in_s: "r \<in> set (ib_tasks s)" "tk_id r = i" by auto
  then obtain r' where r': "find_task i s = Some r'" using find_task_None [of i s] by (cases "find_task i s") auto
  from find_task_Some [OF r'] in_s task_unique [OF assms] have "r' = r" by auto
  then show "board_of (s\<lparr>ib_tasks := filter P (ib_tasks s)\<rparr>) i = board_of s i" using r r' by (simp add: board_of_def)
qed


lemma retire_loop_board:
  "retire_loop U ctx cutoff instant dry ids (out, s) = Inr (out', s') \<Longrightarrow> inbox_wf s \<Longrightarrow> board_of s' \<subseteq>\<^sub>m board_of s"
proof (induction ids arbitrary: out s)
  case (Cons i ids)
  from Cons.prems(1) obtain ok where ok: "retirable U ctx cutoff instant i s = Inr ok" by auto
  show ?case
  proof (cases "ok \<and> \<not> dry")
    case True
    with Cons.prems(1) ok obtain out1 where "retire_loop U ctx cutoff instant dry ids (out1, retire_run instant i s) = Inr (out', s')" by auto
    from Cons.IH [OF this retire_run_wf [OF Cons.prems(2)]] have "board_of s' \<subseteq>\<^sub>m board_of (retire_run instant i s)" .
    also have "board_of (retire_run instant i s) = board_of (s\<lparr>ib_tasks := filter (\<lambda>r. tk_run r \<noteq> Some i) (ib_tasks s)\<rparr>)"
      by (rule board_of_runs) (simp add: retire_run_def)
    finally show ?thesis using filter_board [OF Cons.prems(2)] map_le_trans by blast
  next
    case False
    with Cons.prems(1) ok obtain out1 where "retire_loop U ctx cutoff instant dry ids (out1, s) = Inr (out', s')" by (cases ok) auto
    from Cons.IH [OF this Cons.prems(2)] show ?thesis .
  qed
qed simp

subsection \<open>The refinement\<close>

text \<open>
  C25. The inbox refines the board: each operation that succeeds is one step of the
  abstract machine. Registering and publishing open exactly the given tasks that are not on
  the board and leave decided ones decided; claiming and marking for fallback change nothing;
  a submission decides an open task by the submitted claims along the MCP route; a fallback
  decides an open task, or leaves a decided one; a retirement only discards tasks.
\<close>

theorem inbox_refines_board:
  assumes "inbox_wf s" and "inbox_exec U jt call s = Inr s'"
  shows "inbox_wf s' \<and> board_step (ic_op call) (board_of s) (board_of s')"
proof
  show "inbox_wf s'" using inbox_exec_step [OF assms] by simp
  show "board_step (ic_op call) (board_of s) (board_of s')"
  proof (cases "ic_op call")
    case (RegisterRun i request tasks wait)
    with assms(2) have "register_run U (ic_ctx call) (ic_now call) i request tasks wait s = Inr s'"
      by (simp add: inbox_exec_def Let_def)
    from upsert_tasks_board [OF register_run_Inr(1) [OF this]] board_of_runs [OF upsert_run_tasks]
    show ?thesis by (simp add: RegisterRun)
  next
    case (Publish m wait i deadline)
    with assms(2) obtain run d where "upsert_task U (ic_ctx call) (ic_now call) run d m s = Inr s'"
      by (auto simp: inbox_exec_def Let_def publish_def split: if_splits)
    from upsert_task_board [OF this] show ?thesis by (simp add: Publish)
  next
    case (ClaimTask token consumer seconds)
    with assms(2) obtain lease where "claim_task U jt (ic_ctx call) (ic_now call) token consumer seconds s = Inr (lease, s')"
      by (auto simp: inbox_exec_def Let_def)
    from claim_task_Inr [OF this] have "board_of s' = board_of s"
    proof (elim disjE exE conjE)
      fix j assume "s' = update_tasks (\<lambda>r. tk_id r = j \<and> task_claimable (ic_now call) r)
        (start_lease token (py_strip consumer) (ic_now call + 1000000 * seconds) (ic_now call)) s"
      then show ?thesis by (simp, intro board_of_same) (auto simp: start_lease_def fate_of_def task_claimable_def)
    qed simp
    then show ?thesis by (simp add: ClaimTask)
  next
    case (Submit i token claims)
    with assms(2) obtain m where "submit U (ic_ctx call) (ic_now call) i token claims s = Inr (m, s')"
      by (auto simp: inbox_exec_def Let_def)
    from submit_board [OF assms(1) this] show ?thesis by (simp add: Submit)
  next
    case (CompleteFallback i res route)
    with assms(2) obtain m where "complete_fallback (ic_now call) i res route s = Inr (m, s')"
      by (auto simp: inbox_exec_def Let_def)
    from fallback_board [OF assms(1) this] show ?thesis unfolding CompleteFallback .
  next
    case (MarkFallback i route)
    with assms(2) have "s' = update_tasks (\<lambda>r. tk_id r = py_strip i \<and> tk_status r \<noteq> TASK_COMPLETED)
        (\<lambda>r. r\<lparr>tk_status := TASK_FALLBACK, tk_route := Some route, tk_updated := ic_now call\<rparr>) s"
      by (auto simp: inbox_exec_def Let_def mark_fallback_def split: if_splits)
    then have "board_of s' = board_of s" by (simp, intro board_of_same) (simp add: fate_of_def)
    then show ?thesis by (simp add: MarkFallback)
  next
    case (RetireRuns ids before dry)
    with assms(2) obtain out where "retire_finalized_runs U (ic_ctx call) (ic_now call) ids before dry s = Inr (out, s')"
      by (auto simp: inbox_exec_def Let_def)
    from retire_Inr [OF this] show ?thesis unfolding RetireRuns board_step.simps
    proof (elim exE conjE, intro conjI impI)
      fix cutoff assume run: "retire_loop U (ic_ctx call) cutoff (ic_now call) dry (sort (fromkeys (map py_strip ids)))
        (\<lparr>rm_dry_run = dry, rm_eligible = [], rm_blocked = [], rm_count = 0\<rparr>, s) = Inr (out, s')"
      show "board_of s' \<subseteq>\<^sub>m board_of s" by (rule retire_loop_board [OF run assms(1)])
      show "board_of s' = board_of s" if dry
        using retire_loop_dry [OF run [unfolded that [THEN eqTrueI]]] by simp
    qed
  qed
qed


theorem inbox_refines_board_witness:
  "inbox_wf example_answered \<and> decides [116] mcp_route [example_claim] (board_of example_leased) (board_of example_answered)"
  using inbox_refines_board [OF example_wf(2), of ascii_tables no_text
      "\<lparr>ic_ctx = None, ic_now = 1, ic_op = Submit [116] [107] [example_claim]\<rparr>" example_answered]
  by (simp add: inbox_exec_def example_submitted example_strip)

end
