(* ===== verification/Salience.thy ===== *)
theory Salience
  imports Prelude "HOL-Library.Multiset" "HOL-Library.Product_Lexorder"
begin

text \<open>
  Deterministic salience, \<^verbatim>\<open>cyberbrain/salience/\<close>: validated signals and weights
  (\<^verbatim>\<open>models.py\<close>, \<^verbatim>\<open>policy.py\<close>), the weighted score (\<^verbatim>\<open>scorer.py\<close>), the advisory
  over one scope (\<^verbatim>\<open>advisor.py\<close>) and the shadow observation (\<^verbatim>\<open>shadow.py\<close>). A finite
  float is a real number, so rounding is left out; metrics are not modelled.
\<close>

subsection \<open>Validated numbers\<close>

text \<open>
  A dynamically typed argument where a number is expected: an \<^verbatim>\<open>int\<close> or finite
  \<^verbatim>\<open>float\<close>, a nan or infinite float, or anything else (a \<^verbatim>\<open>bool\<close> included).
\<close>

datatype py_number = Finite real | NotFinite | NotNumber

definition validated_number :: "ustr \<Rightarrow> py_number \<Rightarrow> real option \<Rightarrow> real result" where
  "validated_number name value maximum =
     (case value of
        NotNumber \<Rightarrow> Inl (ValueError (name @ lit '' must be a finite number''))
      | NotFinite \<Rightarrow> Inl (ValueError (name @ lit '' must be finite''))
      | Finite v \<Rightarrow>
          if v < 0 then Inl (ValueError (name @ lit '' must be >= 0.0''))
          else if (case maximum of Some m \<Rightarrow> m < v | None \<Rightarrow> False)
          then Inl (ValueError (name @ lit '' must be <= 1.0''))
          else Inr v)"

lemma validated_number_Inr:
  "validated_number name value m = Inr v \<Longrightarrow> value = Finite v \<and> 0 \<le> v \<and> (\<forall>b. m = Some b \<longrightarrow> v \<le> b)"
  by (auto simp: validated_number_def split: py_number.splits option.splits if_splits)

subsection \<open>Signals and weights\<close>

datatype salience_reason =
    PREDICTION_ERROR | UNRESOLVEDNESS | CONTRADICTION | NOVELTY
  | RECURRENCE | CONSEQUENCE | USER_EMPHASIS | RECENCY

text \<open>
  \<^verbatim>\<open>SalienceInput\<close> and \<^verbatim>\<open>SalienceConfig\<close> have the same eight fields: optional
  signals in one, weights in the other.
\<close>

record 'v signals =
  prediction_error :: 'v
  unresolvedness :: 'v
  contradiction :: 'v
  novelty :: 'v
  recurrence :: 'v
  consequence :: 'v
  user_emphasis :: 'v
  recency :: 'v

type_synonym salience_input = "real option signals"
type_synonym salience_config = "real signals"

definition signal_order :: "salience_reason list" where
  "signal_order = [PREDICTION_ERROR, UNRESOLVEDNESS, CONTRADICTION, NOVELTY, RECURRENCE,
     CONSEQUENCE, USER_EMPHASIS, RECENCY]"

fun signal_name :: "salience_reason \<Rightarrow> ustr" where
  "signal_name PREDICTION_ERROR = lit ''prediction_error''"
| "signal_name UNRESOLVEDNESS = lit ''unresolvedness''"
| "signal_name CONTRADICTION = lit ''contradiction''"
| "signal_name NOVELTY = lit ''novelty''"
| "signal_name RECURRENCE = lit ''recurrence''"
| "signal_name CONSEQUENCE = lit ''consequence''"
| "signal_name USER_EMPHASIS = lit ''user_emphasis''"
| "signal_name RECENCY = lit ''recency''"

text \<open>\<^verbatim>\<open>getattr(item, signal_name)\<close>.\<close>

fun signal :: "salience_reason \<Rightarrow> 'v signals \<Rightarrow> 'v" where
  "signal PREDICTION_ERROR s = prediction_error s"
| "signal UNRESOLVEDNESS s = unresolvedness s"
| "signal CONTRADICTION s = contradiction s"
| "signal NOVELTY s = novelty s"
| "signal RECURRENCE s = recurrence s"
| "signal CONSEQUENCE s = consequence s"
| "signal USER_EMPHASIS s = user_emphasis s"
| "signal RECENCY s = recency s"

text \<open>The loop over \<^verbatim>\<open>fields(self)\<close> in \<^verbatim>\<open>__post_init__\<close>: the first failure ends it.\<close>

definition traverse_signals :: "(salience_reason \<Rightarrow> 'a \<Rightarrow> 'b result) \<Rightarrow> 'a signals \<Rightarrow> 'b signals result" where
  "traverse_signals f s =
     bindE (f PREDICTION_ERROR (prediction_error s)) (\<lambda>v1.
     bindE (f UNRESOLVEDNESS (unresolvedness s)) (\<lambda>v2.
     bindE (f CONTRADICTION (contradiction s)) (\<lambda>v3.
     bindE (f NOVELTY (novelty s)) (\<lambda>v4.
     bindE (f RECURRENCE (recurrence s)) (\<lambda>v5.
     bindE (f CONSEQUENCE (consequence s)) (\<lambda>v6.
     bindE (f USER_EMPHASIS (user_emphasis s)) (\<lambda>v7.
     bindE (f RECENCY (recency s)) (\<lambda>v8.
       Inr \<lparr>prediction_error = v1, unresolvedness = v2, contradiction = v3, novelty = v4,
         recurrence = v5, consequence = v6, user_emphasis = v7, recency = v8\<rparr>))))))))"

definition make_salience_input :: "py_number option signals \<Rightarrow> salience_input result" where
  "make_salience_input raw = traverse_signals (\<lambda>k value. case value of
       None \<Rightarrow> Inr None
     | Some v \<Rightarrow> bindE (validated_number (signal_name k) v (Some 1)) (\<lambda>x. Inr (Some x))) raw"

definition make_salience_config :: "py_number signals \<Rightarrow> salience_config result" where
  "make_salience_config raw =
     bindE (traverse_signals (\<lambda>k value. validated_number (signal_name k) value None) raw) (\<lambda>c.
       if list_ex (\<lambda>k. 0 < signal k c) signal_order then Inr c
       else Inl (ValueError (lit ''salience config must contain at least one positive weight'')))"

definition reviewed_salience_policy :: salience_config where
  "reviewed_salience_policy = \<lparr>prediction_error = 2, unresolvedness = 3 / 2, contradiction = 2,
     novelty = 1 / 2, recurrence = 1, consequence = 2, user_emphasis = 3 / 2, recency = 1 / 2\<rparr>"

definition input_ok :: "salience_input \<Rightarrow> bool" where
  "input_ok i \<longleftrightarrow> (\<forall>k \<in> set signal_order. case signal k i of None \<Rightarrow> True | Some v \<Rightarrow> 0 \<le> v \<and> v \<le> 1)"

definition config_ok :: "salience_config \<Rightarrow> bool" where
  "config_ok c \<longleftrightarrow> (\<forall>k \<in> set signal_order. 0 \<le> signal k c) \<and> (\<exists>k \<in> set signal_order. 0 < signal k c)"

lemma traverse_signals_Inr:
  "traverse_signals f s = Inr t \<Longrightarrow> f k (signal k s) = Inr (signal k t)"
  by (cases k) (auto simp: traverse_signals_def)

lemma make_salience_input_ok:
  assumes "make_salience_input raw = Inr i"
  shows "input_ok i"
proof -
  have "case signal k i of None \<Rightarrow> True | Some v \<Rightarrow> 0 \<le> v \<and> v \<le> 1" for k
    using traverse_signals_Inr [OF assms [unfolded make_salience_input_def], of k]
    by (auto split: option.splits dest!: validated_number_Inr)
  then show ?thesis by (simp add: input_ok_def)
qed

lemma make_salience_config_ok:
  assumes "make_salience_config raw = Inr c"
  shows "config_ok c"
proof -
  from assms have t: "traverse_signals (\<lambda>k value. validated_number (signal_name k) value None) raw = Inr c"
    and pos: "list_ex (\<lambda>k. 0 < signal k c) signal_order"
    by (auto simp: make_salience_config_def split: if_splits)
  have "0 \<le> signal k c" for k
    using traverse_signals_Inr [OF t, of k] by (auto dest!: validated_number_Inr)
  with pos show ?thesis by (auto simp: config_ok_def list_ex_iff)
qed

lemma reviewed_policy_ok [simp]: "config_ok reviewed_salience_policy"
  by (simp add: config_ok_def reviewed_salience_policy_def signal_order_def)

subsection \<open>The score\<close>

record assessment =
  as_score :: real
  as_reasons :: "salience_reason list"
  as_signals :: "(salience_reason \<times> real) list"

text \<open>The known signals with a weight, as (reason, value, weight).\<close>

definition considered :: "salience_config \<Rightarrow> salience_input \<Rightarrow> (salience_reason \<times> real \<times> real) list" where
  "considered c i = concat (map (\<lambda>k. case signal k i of
       None \<Rightarrow> [] | Some v \<Rightarrow> if signal k c = 0 then [] else [(k, v, signal k c)]) signal_order)"

definition assess :: "salience_config \<Rightarrow> salience_input \<Rightarrow> assessment" where
  "assess c i =
     (let rows = considered c i in
      if rows = [] then \<lparr>as_score = 0, as_reasons = [], as_signals = []\<rparr>
      else let largest = Max (set (map (\<lambda>(k, v, w). w) rows));
               scaled = map (\<lambda>(k, v, w). (k, v, w / largest)) rows;
               total = sum_list (map (\<lambda>(k, v, w). w) scaled);
               weighted = sum_list (map (\<lambda>(k, v, w). v * w) scaled)
           in \<lparr>as_score = min 1 (max 0 (weighted / total)),
               as_reasons = map (\<lambda>(k, v, w). k) (filter (\<lambda>(k, v, w). 0 < v) scaled),
               as_signals = map (\<lambda>(k, v, w). (k, v)) scaled\<rparr>)"

text \<open>What the score means: the mean of the known signals under their weights.\<close>

definition weighted_mean :: "(salience_reason \<times> real \<times> real) list \<Rightarrow> real" where
  "weighted_mean rows = sum_list (map (\<lambda>(k, v, w). v * w) rows) / sum_list (map (\<lambda>(k, v, w). w) rows)"

lemma considered_ok:
  assumes "config_ok c" and "input_ok i" and "(k, v, w) \<in> set (considered c i)"
  shows "0 < w" and "0 \<le> v" and "v \<le> 1" and "signal k i = Some v" and "w = signal k c"
proof -
  from assms(3) have k: "k \<in> set signal_order" "signal k i = Some v" "w = signal k c" "signal k c \<noteq> 0"
    by (auto simp: considered_def split: option.splits if_splits)
  show "signal k i = Some v" "w = signal k c" by (fact k)+
  show "0 \<le> v" "v \<le> 1" using assms(2) k(1,2) by (force simp: input_ok_def split: option.splits)+
  show "0 < w" using assms(1) k(1,3,4) by (force simp: config_ok_def)
qed

lemma sum_pos:
  assumes "\<forall>(k, v, w) \<in> set rows. 0 < w" and "rows \<noteq> []"
  shows "0 < sum_list (map (\<lambda>(k, v, w::real). w) rows)"
  using assms
proof (induction rows)
  case (Cons r rows)
  then show ?case by (cases "rows = []") (auto intro: add_pos_pos)
qed simp

lemma weighted_mean_bounds:
  assumes "\<forall>(k, v, w) \<in> set rows. 0 < w \<and> 0 \<le> v \<and> v \<le> 1" and "rows \<noteq> []"
  shows "0 \<le> weighted_mean rows" and "weighted_mean rows \<le> 1"
proof -
  have pos: "0 < sum_list (map (\<lambda>(k, v, w). w) rows)" using assms by (intro sum_pos) auto
  have "0 \<le> sum_list (map (\<lambda>(k, v, w). v * w) rows)"
    using assms(1) by (intro sum_list_nonneg) (auto intro: mult_nonneg_nonneg less_imp_le)
  with pos show "0 \<le> weighted_mean rows" by (simp add: weighted_mean_def)
  have "sum_list (map (\<lambda>(k, v, w). v * w) rows) \<le> sum_list (map (\<lambda>(k, v, w). w) rows)"
    using assms(1) by (intro sum_list_mono) (auto intro: mult_left_le_one_le less_imp_le)
  with pos show "weighted_mean rows \<le> 1" by (simp add: weighted_mean_def)
qed

lemma weighted_mean_scale:
  assumes "m \<noteq> 0"
  shows "weighted_mean (map (\<lambda>(k, v, w). (k, v, w / m)) rows) = weighted_mean rows"
proof -
  have "sum_list (map (\<lambda>(k, v, w). w / m) rows) = sum_list (map (\<lambda>(k, v, w). w) rows) / m"
    by (induction rows) (auto simp: add_divide_distrib)
  moreover have "sum_list (map (\<lambda>(k, v, w). v * w / m) rows) = sum_list (map (\<lambda>(k, v, w). v * w) rows) / m"
    by (induction rows) (auto simp: add_divide_distrib)
  ultimately show ?thesis
    using assms by (simp add: weighted_mean_def comp_def split_def)
qed

lemma score_is_mean:
  assumes "config_ok c" and "input_ok i"
  shows "as_score (assess c i) = (if considered c i = [] then 0 else weighted_mean (considered c i))"
proof (cases "considered c i = []")
  case False
  let ?rows = "considered c i"
  let ?m = "Max (set (map (\<lambda>(k, v, w). w) ?rows))"
  have ok: "\<forall>(k, v, w) \<in> set ?rows. 0 < w \<and> 0 \<le> v \<and> v \<le> 1"
    using considered_ok [OF assms] by blast
  have "?m \<in> set (map (\<lambda>(k, v, w). w) ?rows)" using False by (intro Max_in) auto
  then have m: "0 < ?m" using ok by auto
  have "as_score (assess c i) = min 1 (max 0 (weighted_mean (map (\<lambda>(k, v, w). (k, v, w / ?m)) ?rows)))"
    using False by (simp add: assess_def Let_def weighted_mean_def)
  also have "\<dots> = weighted_mean ?rows"
    using weighted_mean_scale [of ?m ?rows] m weighted_mean_bounds [OF ok False] by simp
  finally show ?thesis using False by simp
qed (simp add: assess_def)

lemma score_bounds:
  assumes "config_ok c" and "input_ok i"
  shows "0 \<le> as_score (assess c i)" and "as_score (assess c i) \<le> 1"
proof -
  have ok: "\<forall>(k, v, w) \<in> set (considered c i). 0 < w \<and> 0 \<le> v \<and> v \<le> 1"
    using considered_ok [OF assms] by blast
  show "0 \<le> as_score (assess c i)" "as_score (assess c i) \<le> 1"
    using weighted_mean_bounds [OF ok] score_is_mean [OF assms] by auto
qed

text \<open>A signal contributes a reason exactly when it is positive and has a weight.\<close>

lemma reasons_eq: "as_reasons (assess c i) = map fst (filter (\<lambda>(k, v, w). 0 < v) (considered c i))"
  by (simp add: assess_def Let_def filter_map comp_def split_def)

lemma considered_iff: "(k, v, w) \<in> set (considered c i) \<longleftrightarrow> signal k i = Some v \<and> w = signal k c \<and> w \<noteq> 0"
proof -
  have k: "k \<in> set signal_order" by (cases k) (simp_all add: signal_order_def)
  have row: "(k, v, w) \<in> set (case signal j i of
      None \<Rightarrow> [] | Some v \<Rightarrow> if signal j c = 0 then [] else [(j, v, signal j c)])
    \<longleftrightarrow> j = k \<and> signal j i = Some v \<and> w = signal j c \<and> w \<noteq> 0" for j
    by (cases "signal j i") auto
  have "(k, v, w) \<in> set (considered c i) \<longleftrightarrow>
      (\<exists>j \<in> set signal_order. j = k \<and> signal j i = Some v \<and> w = signal j c \<and> w \<noteq> 0)"
    unfolding considered_def by (simp only: set_concat set_map image_image UN_iff row)
  with k show ?thesis by blast
qed

lemma reasons_iff: "k \<in> set (as_reasons (assess c i)) \<longleftrightarrow> (\<exists>v. signal k i = Some v \<and> 0 < v \<and> signal k c \<noteq> 0)"
  by (auto simp: reasons_eq image_iff considered_iff Bex_def)

lemma mean_pos_iff:
  assumes "\<forall>(k, v, w) \<in> set rows. 0 < w \<and> 0 \<le> v" and "rows \<noteq> []"
  shows "0 < weighted_mean rows \<longleftrightarrow> (\<exists>(k, v, w) \<in> set rows. 0 < v)"
proof -
  have pos: "0 < sum_list (map (\<lambda>(k, v, w). w) rows)" using assms by (intro sum_pos) auto
  have nn: "\<forall>x \<in> set (map (\<lambda>(k, v, w). v * w) rows). 0 \<le> x"
    using assms(1) by (auto intro: mult_nonneg_nonneg less_imp_le)
  have "sum_list (map (\<lambda>(k, v, w). v * w) rows) = 0 \<longleftrightarrow> (\<forall>x \<in> set (map (\<lambda>(k, v, w). v * w) rows). x = 0)"
    using nn by (intro sum_list_nonneg_eq_0_iff) auto
  also have "\<dots> \<longleftrightarrow> \<not> (\<exists>(k, v, w) \<in> set rows. 0 < v)"
    using assms(1) by force
  finally show ?thesis
    using pos sum_list_nonneg [of "map (\<lambda>(k, v, w). v * w) rows"] nn
    by (auto simp: weighted_mean_def zero_less_divide_iff less_le)
qed

subsection \<open>The advisory over one candidate set\<close>

record salience_candidate =
  sc_id :: ustr
  sc_scope :: ustr
  sc_signals :: salience_input

definition make_salience_candidate :: "ustr \<Rightarrow> ustr \<Rightarrow> salience_input \<Rightarrow> salience_candidate result" where
  "make_salience_candidate i scope signals =
     (if py_strip i = [] then Inl (ValueError (lit ''salience candidate_id must not be empty''))
      else if py_strip scope = [] then Inl (ValueError (lit ''salience scope_marker must not be empty''))
      else Inr \<lparr>sc_id = i, sc_scope = scope, sc_signals = signals\<rparr>)"

record advisory =
  ad_version :: ustr
  ad_assessments :: "(ustr \<times> assessment) list"
  ad_priority :: "ustr list"

record salience_advisor =
  sa_config :: salience_config
  sa_version :: ustr

definition make_advisor :: "salience_config option \<Rightarrow> ustr \<Rightarrow> salience_advisor result" where
  "make_advisor scorer version =
     (if py_strip version = [] then Inl (ValueError (lit ''salience policy_version must not be empty''))
      else Inr \<lparr>sa_config = the_default reviewed_salience_policy scorer, sa_version = py_strip version\<rparr>)"

text \<open>\<^verbatim>\<open>SalienceScopeError\<close> is a subclass of \<^verbatim>\<open>ValueError\<close>.\<close>

definition advise :: "salience_advisor \<Rightarrow> salience_candidate list \<Rightarrow> advisory result" where
  "advise A candidates =
     (if candidates = [] then Inr \<lparr>ad_version = sa_version A, ad_assessments = [], ad_priority = []\<rparr>
      else if \<not> distinct (map sc_id candidates)
      then Inl (ValueError (lit ''salience candidate IDs must be unique within one advisory set''))
      else if length (fromkeys (map sc_scope candidates)) \<noteq> 1
      then Inl (ValueError (lit ''salience candidates must share one authorized scope''))
      else let assessments = map (\<lambda>c. (sc_id c, assess (sa_config A) (sc_signals c))) candidates;
               indexed = sort_key (\<lambda>(index, i, a). (- as_score a, index)) (enumerate 0 assessments)
           in Inr \<lparr>ad_version = sa_version A, ad_assessments = assessments,
                ad_priority = map (\<lambda>(index, i, a). i) indexed\<rparr>)"

lemma one_scope: "xs \<noteq> [] \<Longrightarrow> length (fromkeys xs) = 1 \<longleftrightarrow> (\<forall>x \<in> set xs. x = hd xs)"
  by (cases xs) (auto simp: filter_empty_conv)

lemma advise_Inr:
  assumes "distinct (map sc_id cs)" and "\<forall>c \<in> set cs. sc_scope c = scope"
  shows "\<exists>p. advise A cs = Inr \<lparr>ad_version = sa_version A,
    ad_assessments = map (\<lambda>c. (sc_id c, assess (sa_config A) (sc_signals c))) cs, ad_priority = p\<rparr>"
proof (cases "cs = []")
  case False
  then have "\<forall>x \<in> set (map sc_scope cs). x = hd (map sc_scope cs)"
    using assms(2) by (auto simp: hd_map)
  with False have "length (fromkeys (map sc_scope cs)) = 1" by (subst one_scope) auto
  with assms(1) False show ?thesis by (simp add: advise_def Let_def)
qed (simp add: advise_def)

lemma map_snd_enumerate: "map (\<lambda>(n, x). f x) (enumerate k xs) = map f xs"
  by (induction xs arbitrary: k) simp_all

lemma priority_perm:
  assumes "advise A cs = Inr ad"
  shows "mset (ad_priority ad) = mset (map sc_id cs)"
proof (cases "cs = []")
  case False
  let ?as = "map (\<lambda>c. (sc_id c, assess (sa_config A) (sc_signals c))) cs"
  have "mset (map (\<lambda>(index, i, a). i) (sort_key k (enumerate 0 ?as))) = mset (map sc_id cs)"
    for k :: "nat \<times> ustr \<times> assessment \<Rightarrow> real \<times> nat"
  proof -
    have "mset (map (\<lambda>(index, i, a). i) (sort_key k (enumerate 0 ?as)))
        = mset (map (\<lambda>(n, x). fst x) (enumerate 0 ?as))"
      by (simp add: split_def)
    also have "\<dots> = mset (map sc_id cs)" by (simp only: map_snd_enumerate) (simp add: comp_def)
    finally show ?thesis .
  qed
  with assms False show ?thesis by (auto simp: advise_def Let_def split: if_splits)
qed (use assms in \<open>auto simp: advise_def\<close>)

subsection \<open>Shadow observation\<close>

record shadow_report =
  sr_count :: int
  sr_non_neutral :: int
  sr_reordered :: bool
  sr_top1_changed :: bool
  sr_mean :: real
  sr_priority :: "ustr list"

definition shadow_observe :: "salience_advisor \<Rightarrow> salience_candidate list \<Rightarrow> shadow_report result" where
  "shadow_observe A candidates =
     bindE (advise A candidates) (\<lambda>ad.
       let original = map sc_id candidates; scores = map (\<lambda>(i, a). as_score a) (ad_assessments ad)
       in Inr \<lparr>sr_count = int (length original),
            sr_non_neutral = int (length (filter (\<lambda>s. 0 < s) scores)),
            sr_reordered = (ad_priority ad \<noteq> original),
            sr_top1_changed = (original \<noteq> [] \<and> ad_priority ad \<noteq> [] \<and> hd original \<noteq> hd (ad_priority ad)),
            sr_mean = (if scores \<noteq> [] then sum_list scores / real (length scores) else 0),
            sr_priority = ad_priority ad\<rparr>)"

lemma shadow_counts:
  assumes "shadow_observe A cs = Inr r"
  shows "sr_count r = int (length cs) \<and> mset (sr_priority r) = mset (map sc_id cs)
    \<and> (\<not> sr_reordered r \<longrightarrow> \<not> sr_top1_changed r)"
  using assms priority_perm by (auto simp: shadow_observe_def Let_def)

subsection \<open>Properties\<close>

text \<open>
  The salience score is the mean of the known signals under their weights: scaling by the
  largest weight and clamping to the unit interval never change it. It lies between 0 and 1,
  is 0 when no weighted signal is known, and is positive exactly when a reason is reported,
  the reasons being the weighted signals with a positive value.
\<close>

theorem salience_score_meaning:
  assumes "make_salience_config raw_config = Inr c" and "make_salience_input raw = Inr i"
  shows "as_score (assess c i) = (if considered c i = [] then 0 else weighted_mean (considered c i))
    \<and> 0 \<le> as_score (assess c i) \<and> as_score (assess c i) \<le> 1
    \<and> (0 < as_score (assess c i) \<longleftrightarrow> as_reasons (assess c i) \<noteq> [])
    \<and> (\<forall>k. k \<in> set (as_reasons (assess c i)) \<longleftrightarrow> (\<exists>v. signal k i = Some v \<and> 0 < v \<and> 0 < signal k c))"
proof -
  note ok = make_salience_config_ok [OF assms(1)] make_salience_input_ok [OF assms(2)]
  have rows: "\<forall>(k, v, w) \<in> set (considered c i). 0 < w \<and> 0 \<le> v"
    using considered_ok [OF ok] by blast
  have "0 < as_score (assess c i) \<longleftrightarrow> as_reasons (assess c i) \<noteq> []"
  proof (cases "considered c i = []")
    case False
    then show ?thesis
      using mean_pos_iff [OF rows False] score_is_mean [OF ok]
      by (auto simp: reasons_eq filter_empty_conv)
  qed (simp add: assess_def)
  moreover have "signal k c \<noteq> 0 \<longleftrightarrow> 0 < signal k c" for k
  proof -
    have "k \<in> set signal_order" by (cases k) (simp_all add: signal_order_def)
    then show ?thesis using ok(1) by (force simp: config_ok_def)
  qed
  ultimately show ?thesis
    using score_is_mean [OF ok] score_bounds [OF ok] by (simp add: reasons_iff)
qed

definition example_signals :: salience_input where
  "example_signals = \<lparr>prediction_error = Some 1, unresolvedness = None, contradiction = None, novelty = Some (1/2),
     recurrence = None, consequence = None, user_emphasis = None, recency = Some 0\<rparr>"

theorem salience_score_meaning_witness:
  "as_score (assess reviewed_salience_policy example_signals) = 3 / 4
    \<and> 0 < as_score (assess reviewed_salience_policy example_signals)"
proof -
  have c: "make_salience_config \<lparr>prediction_error = Finite 2, unresolvedness = Finite (3 / 2), contradiction = Finite 2,
     novelty = Finite (1 / 2), recurrence = Finite 1, consequence = Finite 2, user_emphasis = Finite (3 / 2),
     recency = Finite (1 / 2)\<rparr> = Inr reviewed_salience_policy"
    by (simp add: make_salience_config_def traverse_signals_def validated_number_def signal_order_def
        reviewed_salience_policy_def)
  have i: "make_salience_input \<lparr>prediction_error = Some (Finite 1), unresolvedness = None, contradiction = None,
     novelty = Some (Finite (1/2)), recurrence = None, consequence = None, user_emphasis = None,
     recency = Some (Finite 0)\<rparr> = Inr example_signals"
    by (simp add: make_salience_input_def traverse_signals_def validated_number_def example_signals_def)
  have "considered reviewed_salience_policy example_signals
      = [(PREDICTION_ERROR, 1, 2), (NOVELTY, 1 / 2, 1 / 2), (RECENCY, 0, 1 / 2)]"
    by (simp add: considered_def signal_order_def reviewed_salience_policy_def example_signals_def)
  with salience_score_meaning [OF c i] show ?thesis by (simp add: weighted_mean_def reasons_eq)
qed

end
