(* ===== verification/Working_Memory.thy ===== *)
theory Working_Memory
  imports Salience Token_Budget Tenancy_Models "HOL-Library.AList" "HOL-Library.Sublist"
begin

text \<open>
  Working Memory, \<^verbatim>\<open>cyberbrain/working_memory/\<close>: the domain contracts (\<^verbatim>\<open>models.py\<close>),
  the selection policy that goes from relevance over salience and deduplication to the token
  budget (\<^verbatim>\<open>policy.py\<close>), and the transient service (\<^verbatim>\<open>service.py\<close>) with its
  snapshots, emission ledger, expiry and closeout. SHA-256 (as hexadecimal text of the UTF-8
  bytes) is a parameter \<open>sha\<close>. Times are integers of microseconds, \<open>None\<close> a
  \<^verbatim>\<open>datetime\<close> without a timezone; metrics and the lock are not modelled.
\<close>

subsection \<open>Domain contracts\<close>

datatype wm_kind =
    GOAL | SUBGOAL | ASSUMPTION | HYPOTHESIS | EVIDENCE | CONCEPT_REFERENCE
  | BLOCKER | OPEN_QUESTION | RECENT_DECISION | SELECTED_MEMORY_REFERENCE

fun wm_kind_value :: "wm_kind \<Rightarrow> ustr" where
  "wm_kind_value GOAL = lit ''goal''"
| "wm_kind_value SUBGOAL = lit ''subgoal''"
| "wm_kind_value ASSUMPTION = lit ''assumption''"
| "wm_kind_value HYPOTHESIS = lit ''hypothesis''"
| "wm_kind_value EVIDENCE = lit ''evidence''"
| "wm_kind_value CONCEPT_REFERENCE = lit ''concept_reference''"
| "wm_kind_value BLOCKER = lit ''blocker''"
| "wm_kind_value OPEN_QUESTION = lit ''open_question''"
| "wm_kind_value RECENT_DECISION = lit ''recent_decision''"
| "wm_kind_value SELECTED_MEMORY_REFERENCE = lit ''selected_memory_reference''"

record wm_identity =
  wi_scope :: ustr
  wi_session :: ustr
  wi_task :: ustr

definition make_identity :: "ustr \<Rightarrow> ustr \<Rightarrow> ustr \<Rightarrow> wm_identity result" where
  "make_identity scope session task =
     (if py_strip scope = [] then Inl (ValueError (lit ''working memory scope_marker must not be empty''))
      else if py_strip session = [] then Inl (ValueError (lit ''working memory session_id must not be empty''))
      else if py_strip task = [] then Inl (ValueError (lit ''working memory task_id must not be empty''))
      else Inr \<lparr>wi_scope = py_strip scope, wi_session = py_strip session, wi_task = py_strip task\<rparr>)"

definition wi_key :: "wm_identity \<Rightarrow> ustr \<times> ustr \<times> ustr" where
  "wi_key i = (wi_scope i, wi_session i, wi_task i)"

lemma wi_key_inj: "wi_key i = wi_key j \<longleftrightarrow> i = j"
  by (auto simp: wi_key_def)

record task_relevance =
  tv_score :: real
  tv_codes :: "ustr list"

definition make_task_relevance :: "py_number \<Rightarrow> ustr list \<Rightarrow> task_relevance result" where
  "make_task_relevance score codes =
     (case score of
        NotNumber \<Rightarrow> Inl (ValueError (lit ''task relevance score must be a finite number''))
      | NotFinite \<Rightarrow> Inl (ValueError (lit ''task relevance score must be within [0, 1]''))
      | Finite v \<Rightarrow>
          if \<not> (0 \<le> v \<and> v \<le> 1) then Inl (ValueError (lit ''task relevance score must be within [0, 1]''))
          else let cleaned = map py_strip (filter (\<lambda>c. py_strip c \<noteq> []) codes)
               in if \<not> distinct cleaned
                  then Inl (ValueError (lit ''task relevance reason codes must be unique''))
                  else Inr \<lparr>tv_score = v, tv_codes = cleaned\<rparr>)"

record wm_candidate =
  wc_id :: ustr
  wc_identity :: wm_identity
  wc_kind :: wm_kind
  wc_text :: ustr
  wc_relevance :: task_relevance
  wc_salience :: salience_input
  wc_reference :: "ustr option"
  wc_source :: "ustr option"

definition clean_ref :: "ustr option \<Rightarrow> ustr option" where
  "clean_ref r = (case r of None \<Rightarrow> None | Some v \<Rightarrow> if py_strip v = [] then None else Some (py_strip v))"

definition make_candidate :: "ustr \<Rightarrow> wm_identity \<Rightarrow> wm_kind \<Rightarrow> ustr \<Rightarrow> task_relevance \<Rightarrow> salience_input
    \<Rightarrow> ustr option \<Rightarrow> ustr option \<Rightarrow> wm_candidate result" where
  "make_candidate i identity kind text relevance salience reference source =
     (if py_strip i = [] then Inl (ValueError (lit ''working memory candidate_id must not be empty''))
      else if py_strip text = [] then Inl (ValueError (lit ''working memory candidate text must not be empty''))
      else if kind \<in> {CONCEPT_REFERENCE, SELECTED_MEMORY_REFERENCE} \<and> clean_ref reference = None
      then Inl (ValueError (wm_kind_value kind @ lit '' requires reference_id''))
      else Inr \<lparr>wc_id = py_strip i, wc_identity = identity, wc_kind = kind, wc_text = py_strip text,
        wc_relevance = relevance, wc_salience = salience, wc_reference = clean_ref reference,
        wc_source = clean_ref source\<rparr>)"

text \<open>What the constructors establish of a candidate.\<close>

definition candidate_ok :: "wm_candidate \<Rightarrow> bool" where
  "candidate_ok c \<longleftrightarrow> wc_id c \<noteq> [] \<and> py_strip (wc_id c) = wc_id c \<and> wc_text c \<noteq> []
     \<and> 0 \<le> tv_score (wc_relevance c) \<and> tv_score (wc_relevance c) \<le> 1 \<and> input_ok (wc_salience c)
     \<and> py_strip (wi_scope (wc_identity c)) \<noteq> []"

lemma make_candidate_ok:
  assumes "make_candidate i identity kind text relevance salience reference source = Inr c"
    and "make_identity s se t = Inr identity" and "make_task_relevance score codes = Inr relevance"
    and "make_salience_input raw = Inr salience"
  shows "candidate_ok c"
  using assms make_salience_input_ok [OF assms(4)]
  by (auto simp: make_candidate_def make_identity_def make_task_relevance_def candidate_ok_def py_strip_idem Let_def
      split: if_splits py_number.splits)

text \<open>\<^verbatim>\<open>_SPACE_RE.sub(" ", text)\<close>: each run of white space becomes one space.\<close>

fun squeeze_space :: "bool \<Rightarrow> ustr \<Rightarrow> ustr" where
  "squeeze_space inside [] = []"
| "squeeze_space inside (c # cs) =
     (if py_space c then (if inside then squeeze_space True cs else 32 # squeeze_space True cs)
      else c # squeeze_space False cs)"

text \<open>A reference or source, once cleaned, is not empty, so truthiness is being present.\<close>

definition dedupe_key :: "unicode_tables \<Rightarrow> (ustr \<Rightarrow> ustr) \<Rightarrow> wm_candidate \<Rightarrow> ustr" where
  "dedupe_key U sha c =
     (case wc_reference c of
        Some r \<Rightarrow> lit ''ref:'' @ wm_kind_value (wc_kind c) @ lit '':'' @ r
      | None \<Rightarrow> (case wc_source c of
          Some r \<Rightarrow> lit ''source:'' @ r
        | None \<Rightarrow> lit ''text:'' @ take 24 (sha (casefold U (py_strip (squeeze_space False (wc_text c)))))))"

record wm_item =
  wt_id :: ustr
  wt_kind :: wm_kind
  wt_text :: ustr
  wt_tokens :: int
  wt_relevance :: real
  wt_relevance_codes :: "ustr list"
  wt_salience :: real
  wt_salience_reasons :: "salience_reason list"
  wt_reference :: "ustr option"
  wt_source :: "ustr option"
  wt_fingerprint :: ustr

definition check_item :: "wm_item \<Rightarrow> wm_item result" where
  "check_item t =
     (if wt_tokens t \<le> 0 then Inl (ValueError (lit ''working memory item estimated_tokens must be positive''))
      else if py_strip (wt_fingerprint t) = []
      then Inl (ValueError (lit ''working memory item content_fingerprint must not be empty''))
      else Inr t)"

record selection_report =
  se_input :: int
  se_relevant :: int
  se_duplicates :: int
  se_budget_omitted :: int
  se_selected :: int
  se_tokens :: int
  se_omitted_ids :: "ustr list"

record wm_snapshot =
  ws_identity :: wm_identity
  ws_revision :: int
  ws_items :: "wm_item list"
  ws_tokens :: int
  ws_created :: int
  ws_updated :: int
  ws_expires :: int
  ws_selection :: selection_report

definition total_tokens :: "wm_item list \<Rightarrow> int" where
  "total_tokens items = sum_list (map wt_tokens items)"

definition check_snapshot :: "wm_snapshot \<Rightarrow> wm_snapshot result" where
  "check_snapshot s =
     (if ws_revision s \<le> 0 then Inl (ValueError (lit ''working memory revision must be positive''))
      else if ws_tokens s \<noteq> total_tokens (ws_items s)
      then Inl (ValueError (lit ''working memory snapshot token total is inconsistent''))
      else if ws_expires s \<le> ws_updated s
      then Inl (ValueError (lit ''working memory expires_at must be after updated_at''))
      else if \<not> distinct (map wt_id (ws_items s))
      then Inl (ValueError (lit ''working memory snapshot candidate IDs must be unique''))
      else Inr s)"

record wm_ledger =
  wl_identity :: wm_identity
  wl_fingerprints :: "(ustr \<times> ustr) list"
  wl_tokens :: int

record wm_emission =
  we_identity :: wm_identity
  we_revision :: int
  we_items :: "wm_item list"
  we_tokens :: int
  we_repeated :: int

record wm_closeout =
  wo_identity :: wm_identity
  wo_existed :: bool
  wo_revision :: "int option"
  wo_items :: int
  wo_tokens :: int

subsection \<open>The selection policy\<close>

record wm_policy =
  wp_max_items :: int
  wp_max_tokens :: int
  wp_max_item_tokens :: int
  wp_max_candidates :: int
  wp_minimum_relevance :: real
  wp_ttl :: int

definition make_policy :: "wm_policy \<Rightarrow> wm_policy result" where
  "make_policy p =
     (if wp_max_items p \<le> 0 then Inl (ValueError (lit ''working memory max_items must be positive''))
      else if wp_max_tokens p \<le> 0 then Inl (ValueError (lit ''working memory max_tokens must be positive''))
      else if wp_max_item_tokens p \<le> 0 then Inl (ValueError (lit ''working memory max_item_tokens must be positive''))
      else if wp_max_candidates p \<le> 0 then Inl (ValueError (lit ''working memory max_candidates must be positive''))
      else if wp_ttl p \<le> 0 then Inl (ValueError (lit ''working memory ttl_seconds must be positive''))
      else if wp_max_tokens p < wp_max_item_tokens p
      then Inl (ValueError (lit ''working memory max_item_tokens must not exceed max_tokens''))
      else if wp_max_candidates p < wp_max_items p
      then Inl (ValueError (lit ''working memory max_items must not exceed max_candidates''))
      else if \<not> (0 \<le> wp_minimum_relevance p \<and> wp_minimum_relevance p \<le> 1)
      then Inl (ValueError (lit ''working memory minimum_task_relevance must be within [0, 1]''))
      else Inr p)"

record ranked_candidate =
  rk_candidate :: wm_candidate
  rk_index :: nat
  rk_score :: real
  rk_reasons :: "salience_reason list"

record selector =
  sl_policy :: wm_policy
  sl_counter :: token_counter
  sl_advisor :: salience_advisor

text \<open>The ranked list, from the assessments the advisor returned for the relevant rows.\<close>

definition rank_rows :: "advisory \<Rightarrow> wm_candidate list \<Rightarrow> ranked_candidate list result" where
  "rank_rows ad relevant =
     bindE (mapE (\<lambda>(index, c). case map_of (ad_assessments ad) (wc_id c) of
         None \<Rightarrow> Inl (KeyError (wc_id c))
       | Some a \<Rightarrow> Inr \<lparr>rk_candidate = c, rk_index = index, rk_score = as_score a, rk_reasons = as_reasons a\<rparr>)
       (enumerate 0 relevant)) (\<lambda>ranked.
       Inr (sort_key (\<lambda>r. (- tv_score (wc_relevance (rk_candidate r)), - rk_score r, rk_index r)) ranked))"

text \<open>The deduplication loop: kept rows and the ids of the suppressed ones.\<close>

fun dedupe_rows :: "(wm_candidate \<Rightarrow> ustr) \<Rightarrow> ustr list \<Rightarrow> ranked_candidate list \<Rightarrow> ranked_candidate list \<times> ustr list" where
  "dedupe_rows key seen [] = ([], [])"
| "dedupe_rows key seen (r # rs) =
     (let k = key (rk_candidate r) in
      if k \<in> set seen
      then let (unique, dups) = dedupe_rows key seen rs in (unique, wc_id (rk_candidate r) # dups)
      else let (unique, dups) = dedupe_rows key (k # seen) rs in (r # unique, dups))"

definition item_of :: "(ustr \<Rightarrow> ustr) \<Rightarrow> ranked_candidate \<Rightarrow> ustr \<Rightarrow> int \<Rightarrow> wm_item" where
  "item_of sha r text tokens =
     (let c = rk_candidate r in
      \<lparr>wt_id = wc_id c, wt_kind = wc_kind c, wt_text = text, wt_tokens = tokens,
       wt_relevance = tv_score (wc_relevance c), wt_relevance_codes = tv_codes (wc_relevance c),
       wt_salience = rk_score r, wt_salience_reasons = rk_reasons r,
       wt_reference = wc_reference c, wt_source = wc_source c,
       wt_fingerprint = take 24 (sha (wm_kind_value (wc_kind c) @ lit ''|''
         @ the_default [] (wc_reference c) @ lit ''|'' @ text))\<rparr>)"

text \<open>The budget loop; \<open>chosen\<close> is how many are selected so far.\<close>

fun fill_budget :: "(ustr \<Rightarrow> ustr) \<Rightarrow> wm_policy \<Rightarrow> token_counter \<Rightarrow> int \<Rightarrow> int \<Rightarrow> ranked_candidate list
    \<Rightarrow> (wm_item list \<times> ustr list) result" where
  "fill_budget sha p g chosen remaining [] = Inr ([], [])"
| "fill_budget sha p g chosen remaining (r # rs) =
     (let omit = bindE (fill_budget sha p g chosen remaining rs)
                   (\<lambda>(items, omitted). Inr (items, wc_id (rk_candidate r) # omitted))
      in if wp_max_items p \<le> chosen \<or> remaining \<le> 0 then omit
         else let text = clip_to_tokens g (wc_text (rk_candidate r)) (min (wp_max_item_tokens p) remaining);
                  tokens = estimate_tokens g text
              in if text = [] \<or> tokens \<le> 0 then omit
                 else bindE (check_item (item_of sha r text tokens)) (\<lambda>item.
                      bindE (fill_budget sha p g (chosen + 1) (remaining - tokens) rs)
                        (\<lambda>(items, omitted). Inr (item # items, omitted))))"

definition select :: "unicode_tables \<Rightarrow> (ustr \<Rightarrow> ustr) \<Rightarrow> selector \<Rightarrow> wm_identity \<Rightarrow> wm_candidate list
    \<Rightarrow> (wm_item list \<times> selection_report) result" where
  "select U sha S identity rows =
     (let p = sl_policy S in
      if wp_max_candidates p < int (length rows)
      then Inl (ValueError (lit ''working memory candidate count exceeds max_candidates''))
      else if \<not> distinct (map wc_id rows)
      then Inl (ValueError (lit ''working memory candidate IDs must be unique''))
      else if list_ex (\<lambda>c. wc_identity c \<noteq> identity) rows
      then Inl (ValueError (lit ''working memory candidate identity must match exact working set identity''))
      else let relevant = filter (\<lambda>c. wp_minimum_relevance p \<le> tv_score (wc_relevance c)) rows
           in bindE (mapE (\<lambda>c. make_salience_candidate (wc_id c) (wi_scope identity) (wc_salience c)) relevant) (\<lambda>cs.
              bindE (advise (sl_advisor S) cs) (\<lambda>ad.
              bindE (rank_rows ad relevant) (\<lambda>ranked.
                let (unique, dups) = dedupe_rows (dedupe_key U sha) [] ranked
                in bindE (fill_budget sha p (sl_counter S) 0 (wp_max_tokens p) unique) (\<lambda>(selected, budget).
                   let irrelevant = map wc_id (filter (\<lambda>c. tv_score (wc_relevance c) < wp_minimum_relevance p) rows)
                   in Inr (selected, \<lparr>se_input = int (length rows), se_relevant = int (length relevant),
                        se_duplicates = int (length dups), se_budget_omitted = int (length budget),
                        se_selected = int (length selected), se_tokens = total_tokens selected,
                        se_omitted_ids = irrelevant @ dups @ budget\<rparr>))))))"

subsection \<open>What the selection loops do\<close>

text \<open>\<^verbatim>\<open>hexdigest()\<close> of SHA-256: 64 lower-case hexadecimal digits.\<close>

definition hex_digest :: "(ustr \<Rightarrow> ustr) \<Rightarrow> bool" where
  "hex_digest sha \<longleftrightarrow> (\<forall>x. length (sha x) = 64 \<and> (\<forall>c \<in> set (sha x). (48 \<le> c \<and> c \<le> 57) \<or> (97 \<le> c \<and> c \<le> 102)))"

lemma no_space_strip: "\<forall>c \<in> set s. \<not> py_space c \<Longrightarrow> py_strip s = s"
  by (cases "s = []") (auto simp: py_strip_def py_lstrip_id py_rstrip_id)

lemma digest_nonempty:
  assumes "hex_digest sha"
  shows "py_strip (take 24 (sha x)) \<noteq> []"
proof -
  have len: "length (sha x) = 64" and hex: "\<forall>c \<in> set (sha x). (48 \<le> c \<and> c \<le> 57) \<or> (97 \<le> c \<and> c \<le> 102)"
    using assms by (auto simp: hex_digest_def)
  have "\<forall>c \<in> set (take 24 (sha x)). \<not> py_space c"
    using hex by (auto dest!: in_set_takeD simp: py_space_def)
  then show ?thesis using len by (simp add: no_space_strip) (metis length_0_conv zero_neq_numeral)
qed

abbreviation row_id :: "ranked_candidate \<Rightarrow> ustr" where
  "row_id r \<equiv> wc_id (rk_candidate r)"

lemma dedupe_rows_spec:
  "dedupe_rows key seen rs = (u, d) \<Longrightarrow>
     subseq u rs \<and> distinct (map (\<lambda>r. key (rk_candidate r)) u)
     \<and> (\<forall>r \<in> set u. key (rk_candidate r) \<notin> set seen)
     \<and> (\<forall>r \<in> set rs. key (rk_candidate r) \<in> set seen \<union> (\<lambda>r. key (rk_candidate r)) ` set u)
     \<and> mset (map row_id u) + mset d = mset (map row_id rs)"
proof (induction rs arbitrary: seen u d)
  case (Cons r rs)
  show ?case
  proof (cases "key (rk_candidate r) \<in> set seen")
    case True
    with Cons.prems obtain d' where d': "dedupe_rows key seen rs = (u, d')" "d = row_id r # d'"
      by (auto simp: Let_def split: prod.splits)
    from Cons.IH [OF d'(1)] d'(2) True show ?thesis by auto
  next
    case False
    with Cons.prems obtain u' where u': "dedupe_rows key (key (rk_candidate r) # seen) rs = (u', d)" "u = r # u'"
      by (auto simp: Let_def split: prod.splits)
    from Cons.IH [OF u'(1)] u'(2) False show ?thesis by auto
  qed
qed simp

text \<open>An item made from a ranked row within the bounds of the policy.\<close>

definition made_from :: "(ustr \<Rightarrow> ustr) \<Rightarrow> wm_policy \<Rightarrow> token_counter \<Rightarrow> ranked_candidate \<Rightarrow> wm_item \<Rightarrow> bool" where
  "made_from sha p g r t \<longleftrightarrow> t = item_of sha r (wt_text t) (wt_tokens t)
     \<and> wt_tokens t = estimate_tokens g (wt_text t) \<and> 0 < wt_tokens t \<and> wt_tokens t \<le> wp_max_item_tokens p"

text \<open>
  The texts of the items: each is its row's text clipped to the item limit or to what the items
  before it have left of the budget, whichever is less.
\<close>

fun clipped_texts :: "token_counter \<Rightarrow> int \<Rightarrow> int \<Rightarrow> wm_candidate list \<Rightarrow> wm_item list \<Rightarrow> bool" where
  "clipped_texts g limit left [] [] \<longleftrightarrow> True"
| "clipped_texts g limit left (c # cs) (t # ts) \<longleftrightarrow>
     wt_text t = clip_to_tokens g (wc_text c) (min limit left) \<and> clipped_texts g limit (left - wt_tokens t) cs ts"
| "clipped_texts g limit left _ _ \<longleftrightarrow> False"

lemma total_tokens_simps [simp]: "total_tokens [] = 0" "total_tokens (t # ts) = wt_tokens t + total_tokens ts"
  by (simp_all add: total_tokens_def)

lemma made_total_nonneg: "list_all2 (made_from sha p g) rows items \<Longrightarrow> 0 \<le> total_tokens items"
  by (induction rule: list_all2_induct) (auto simp: made_from_def)

lemma fill_budget_spec:
  assumes "counter_ok g" and "0 < wp_max_item_tokens p" and "hex_digest sha"
    and "\<forall>r \<in> set rs. wc_text (rk_candidate r) \<noteq> []" and "0 \<le> remaining"
  shows "\<exists>items omitted rows. fill_budget sha p g chosen remaining rs = Inr (items, omitted)
    \<and> subseq rows rs \<and> list_all2 (made_from sha p g) rows items
    \<and> clipped_texts g (wp_max_item_tokens p) remaining (map rk_candidate rows) items
    \<and> mset (map row_id rows) + mset omitted = mset (map row_id rs)
    \<and> total_tokens items \<le> remaining
    \<and> (chosen \<le> wp_max_items p \<longrightarrow> chosen + int (length items) \<le> wp_max_items p)
    \<and> (omitted \<noteq> [] \<longrightarrow> wp_max_items p \<le> chosen + int (length items) \<or> total_tokens items = remaining)"
  using assms(4,5)
proof (induction rs arbitrary: chosen remaining)
  case (Cons r rs)
  let ?text = "clip_to_tokens g (wc_text (rk_candidate r)) (min (wp_max_item_tokens p) remaining)"
  let ?tokens = "estimate_tokens g ?text"
  show ?case
  proof (cases "wp_max_items p \<le> chosen \<or> remaining \<le> 0")
    case True
    have "\<forall>q \<in> set rs. wc_text (rk_candidate q) \<noteq> []" using Cons.prems(1) by simp
    from Cons.IH [OF this Cons.prems(2), of chosen] obtain items omitted rows where
      ih: "fill_budget sha p g chosen remaining rs = Inr (items, omitted)" "subseq rows rs"
        "list_all2 (made_from sha p g) rows items"
        "clipped_texts g (wp_max_item_tokens p) remaining (map rk_candidate rows) items" "mset (map row_id rows) + mset omitted = mset (map row_id rs)"
        "total_tokens items \<le> remaining" "chosen \<le> wp_max_items p \<longrightarrow> chosen + int (length items) \<le> wp_max_items p"
        "omitted \<noteq> [] \<longrightarrow> wp_max_items p \<le> chosen + int (length items) \<or> total_tokens items = remaining"
      by blast
    have "0 \<le> total_tokens items" by (rule made_total_nonneg [OF ih(3)])
    then have full: "wp_max_items p \<le> chosen + int (length items) \<or> total_tokens items = remaining"
      using True Cons.prems(2) ih(6) by auto
    have "fill_budget sha p g chosen remaining (r # rs) = Inr (items, row_id r # omitted)"
      using True ih(1) by simp
    then show ?thesis
      using ih full by (intro exI [of _ items] exI [of _ "row_id r # omitted"] exI [of _ rows]) auto
  next
    case False
    then have room: "chosen < wp_max_items p" "0 < remaining" by auto
    have b: "0 < min (wp_max_item_tokens p) remaining" using assms(2) room by simp
    have "wc_text (rk_candidate r) \<noteq> []" using Cons.prems(1) by simp
    then have clipped: "?text \<noteq> []" by (rule counter.gov_nonempty [OF assms(1) b])
    then have pos: "0 < ?tokens" using counter.gov_pos [of ?text g] by simp
    have within: "?tokens \<le> remaining" "?tokens \<le> wp_max_item_tokens p"
      by (rule counter.gov_clip_within [OF assms(1) b], simp)+
    have "\<forall>q \<in> set rs. wc_text (rk_candidate q) \<noteq> []" "0 \<le> remaining - ?tokens"
      using Cons.prems(1) within by simp_all
    from Cons.IH [OF this, of "chosen + 1"] obtain items omitted rows where
      ih: "fill_budget sha p g (chosen + 1) (remaining - ?tokens) rs = Inr (items, omitted)" "subseq rows rs"
        "list_all2 (made_from sha p g) rows items"
        "clipped_texts g (wp_max_item_tokens p) (remaining - ?tokens) (map rk_candidate rows) items" "mset (map row_id rows) + mset omitted = mset (map row_id rs)"
        "total_tokens items \<le> remaining - ?tokens"
        "chosen + 1 \<le> wp_max_items p \<longrightarrow> chosen + 1 + int (length items) \<le> wp_max_items p"
        "omitted \<noteq> [] \<longrightarrow> wp_max_items p \<le> chosen + 1 + int (length items) \<or> total_tokens items = remaining - ?tokens"
      by blast
    let ?item = "item_of sha r ?text ?tokens"
    have shape: "wt_text ?item = ?text" "wt_tokens ?item = ?tokens" "py_strip (wt_fingerprint ?item) \<noteq> []"
      using digest_nonempty [OF assms(3)] by (simp_all add: item_of_def Let_def)
    then have "check_item ?item = Inr ?item" using pos by (simp add: check_item_def)
    then have "fill_budget sha p g chosen remaining (r # rs) = Inr (?item # items, omitted)"
      using room clipped pos ih(1) by (simp add: Let_def)
    moreover have "made_from sha p g r ?item"
      using shape pos within(2) by (simp add: made_from_def)
    moreover have "clipped_texts g (wp_max_item_tokens p) remaining (map rk_candidate (r # rows)) (?item # items)"
      using ih(4) shape(1,2) by simp
    moreover have "omitted \<noteq> [] \<longrightarrow> wp_max_items p \<le> chosen + int (length (?item # items)) \<or> total_tokens (?item # items) = remaining"
      using ih(8) shape(2) by auto
    ultimately show ?thesis
      using ih(2-7) room shape(2)
      by (intro exI [of _ "?item # items"] exI [of _ omitted] exI [of _ "r # rows"]) (auto simp del: fill_budget.simps clipped_texts.simps)
  qed
qed auto

subsection \<open>What a selection is\<close>

definition wm_policy_ok :: "wm_policy \<Rightarrow> bool" where
  "wm_policy_ok p \<longleftrightarrow> make_policy p = Inr p"

lemma wm_policy_okD:
  assumes "wm_policy_ok p"
  shows "0 < wp_max_items p" and "0 < wp_max_tokens p" and "0 < wp_max_item_tokens p" and "0 < wp_ttl p"
  using assms by (auto simp: wm_policy_ok_def make_policy_def split: if_splits)

definition rank_of :: "salience_config \<Rightarrow> nat \<times> wm_candidate \<Rightarrow> ranked_candidate" where
  "rank_of cfg = (\<lambda>(index, c). \<lparr>rk_candidate = c, rk_index = index,
     rk_score = as_score (assess cfg (wc_salience c)), rk_reasons = as_reasons (assess cfg (wc_salience c))\<rparr>)"

definition rank_key :: "ranked_candidate \<Rightarrow> real \<times> real \<times> nat" where
  "rank_key r = (- tv_score (wc_relevance (rk_candidate r)), - rk_score r, rk_index r)"

lemma rank_rows_Inr:
  assumes "ad_assessments ad = map (\<lambda>c. (wc_id c, assess cfg (wc_salience c))) relevant"
    and "distinct (map wc_id relevant)"
  shows "rank_rows ad relevant = Inr (sort_key rank_key (map (rank_of cfg) (enumerate 0 relevant)))"
proof -
  have "map_of (ad_assessments ad) (wc_id c) = Some (assess cfg (wc_salience c))" if "c \<in> set relevant" for c
    using assms that by (auto intro!: map_of_is_SomeI simp: comp_def)
  then have "mapE (\<lambda>(index, c). case map_of (ad_assessments ad) (wc_id c) of
         None \<Rightarrow> Inl (KeyError (wc_id c))
       | Some a \<Rightarrow> Inr \<lparr>rk_candidate = c, rk_index = index, rk_score = as_score a, rk_reasons = as_reasons a\<rparr>)
       (enumerate 0 relevant) = Inr (map (rank_of cfg) (enumerate 0 relevant))"
    by (intro mapE_Inr_map) (auto simp: rank_of_def in_set_enumerate_eq)
  then show ?thesis by (simp add: rank_rows_def rank_key_def [abs_def])
qed

text \<open>An item stands for one relevant row, within the policy.\<close>

definition item_for :: "(ustr \<Rightarrow> ustr) \<Rightarrow> selector \<Rightarrow> wm_candidate \<Rightarrow> wm_item \<Rightarrow> bool" where
  "item_for sha S c t \<longleftrightarrow> wt_id t = wc_id c \<and> wt_kind t = wc_kind c \<and> wt_reference t = wc_reference c
     \<and> wt_source t = wc_source c \<and> wt_relevance t = tv_score (wc_relevance c)
     \<and> wp_minimum_relevance (sl_policy S) \<le> tv_score (wc_relevance c)
     \<and> wt_salience t = as_score (assess (sa_config (sl_advisor S)) (wc_salience c))
     \<and> wt_tokens t = estimate_tokens (sl_counter S) (wt_text t)
     \<and> 0 < wt_tokens t \<and> wt_tokens t \<le> wp_max_item_tokens (sl_policy S)"

lemma list_all2_subset: "list_all2 P xs ys \<Longrightarrow> y \<in> set ys \<Longrightarrow> \<exists>x \<in> set xs. P x y"
  by (induction rule: list_all2_induct) auto

lemma subseq_in: "subseq xs ys \<Longrightarrow> x \<in> set xs \<Longrightarrow> x \<in> set ys"
  by (induction rule: list_emb.induct) auto

lemma subseq_sorted_map:
  assumes "subseq xs ys" and "sorted (map f ys)"
  shows "sorted (map f xs)"
  using assms by (induction rule: list_emb.induct) (auto dest: subseq_in)

lemma subseq_distinct_map:
  assumes "subseq xs ys" and "distinct (map f ys)"
  shows "distinct (map f xs)"
  using assms by (induction rule: list_emb.induct) (auto dest: subseq_in)

lemma mset_irrelevant:
  "mset (map f (filter (\<lambda>c. m \<le> g c) rows)) + mset (map f (filter (\<lambda>c. g c < (m::real)) rows)) = mset (map f rows)"
  by (induction rows) auto

text \<open>The part of a selection that is one row per item: the ranked rows that were kept.\<close>

lemma select_spec:
  assumes pol: "wm_policy_ok (sl_policy S)" and g: "counter_ok (sl_counter S)" and sha: "hex_digest sha"
    and ok: "\<forall>c \<in> set rows. candidate_ok c \<and> wc_identity c = identity"
    and len: "int (length rows) \<le> wp_max_candidates (sl_policy S)" and ids: "distinct (map wc_id rows)"
  defines "relevant \<equiv> filter (\<lambda>c. wp_minimum_relevance (sl_policy S) \<le> tv_score (wc_relevance c)) rows"
    and "cfg \<equiv> sa_config (sl_advisor S)"
  shows "\<exists>items report dups budget kept. select U sha S identity rows = Inr (items, report)
    \<and> list_all2 (made_from sha (sl_policy S) (sl_counter S)) kept items
    \<and> clipped_texts (sl_counter S) (wp_max_item_tokens (sl_policy S)) (wp_max_tokens (sl_policy S)) (map rk_candidate kept) items
    \<and> (\<forall>r \<in> set kept. rk_candidate r \<in> set relevant \<and> rk_score r = as_score (assess cfg (wc_salience (rk_candidate r))))
    \<and> sorted (map rank_key kept) \<and> distinct (map (\<lambda>r. dedupe_key U sha (rk_candidate r)) kept)
    \<and> mset (map row_id kept) + mset dups + mset budget = mset (map wc_id relevant)
    \<and> total_tokens items \<le> wp_max_tokens (sl_policy S) \<and> int (length items) \<le> wp_max_items (sl_policy S)
    \<and> (budget \<noteq> [] \<longrightarrow> int (length items) = wp_max_items (sl_policy S) \<or> total_tokens items = wp_max_tokens (sl_policy S))
    \<and> (budget = [] \<longrightarrow> dedupe_key U sha ` rk_candidate ` set kept = dedupe_key U sha ` set relevant)
    \<and> report = \<lparr>se_input = int (length rows), se_relevant = int (length relevant), se_duplicates = int (length dups),
         se_budget_omitted = int (length budget), se_selected = int (length items), se_tokens = total_tokens items,
         se_omitted_ids = map wc_id (filter (\<lambda>c. tv_score (wc_relevance c) < wp_minimum_relevance (sl_policy S)) rows)
           @ dups @ budget\<rparr>"
proof -
  let ?p = "sl_policy S"
  let ?cs = "map (\<lambda>c. \<lparr>sc_id = wc_id c, sc_scope = wi_scope identity, sc_signals = wc_salience c\<rparr>) relevant"
  have rel: "\<And>c. c \<in> set relevant \<Longrightarrow> candidate_ok c \<and> wc_identity c = identity" "distinct (map wc_id relevant)"
    using ok ids by (auto simp: relevant_def distinct_map inj_on_def)
  have cs: "mapE (\<lambda>c. make_salience_candidate (wc_id c) (wi_scope identity) (wc_salience c)) relevant = Inr ?cs"
    using rel(1) by (intro mapE_Inr_map) (auto simp: make_salience_candidate_def candidate_ok_def)
  have "distinct (map sc_id ?cs)" "\<forall>c \<in> set ?cs. sc_scope c = wi_scope identity"
    using rel(2) by (auto simp: comp_def)
  from advise_Inr [OF this, of "sl_advisor S"] obtain ad where ad: "advise (sl_advisor S) ?cs = Inr ad"
      "ad_assessments ad = map (\<lambda>c. (wc_id c, assess cfg (wc_salience c))) relevant"
    by (auto simp: comp_def cfg_def)
  let ?ranked = "sort_key rank_key (map (rank_of cfg) (enumerate 0 relevant))"
  have ranked: "rank_rows ad relevant = Inr ?ranked" by (rule rank_rows_Inr [OF ad(2) rel(2)])
  have row: "rk_candidate r \<in> set relevant \<and> rk_score r = as_score (assess cfg (wc_salience (rk_candidate r)))"
    if "r \<in> set ?ranked" for r
    using that by (auto simp: rank_of_def in_set_enumerate_eq)
  have "mset (map row_id ?ranked) = mset (map (\<lambda>(n, c). wc_id c) (enumerate 0 relevant))"
    by (simp add: rank_of_def split_def image_mset.compositionality comp_def)
  then have perm: "mset (map row_id ?ranked) = mset (map wc_id relevant)" by (simp only: map_snd_enumerate)
  obtain unique dups where d: "dedupe_rows (dedupe_key U sha) [] ?ranked = (unique, dups)" by fastforce
  note dd = dedupe_rows_spec [OF d]
  have unique: "subseq unique ?ranked" "distinct (map (\<lambda>r. dedupe_key U sha (rk_candidate r)) unique)"
    "mset (map row_id unique) + mset dups = mset (map row_id ?ranked)" using dd by auto
  have "\<forall>r \<in> set unique. wc_text (rk_candidate r) \<noteq> []"
    using row subseq_in [OF unique(1)] rel(1) by (auto simp: candidate_ok_def)
  from fill_budget_spec [OF g wm_policy_okD(3) [OF pol] sha this, of "wp_max_tokens ?p" 0] wm_policy_okD [OF pol]
  obtain items budget kept where f: "fill_budget sha ?p (sl_counter S) 0 (wp_max_tokens ?p) unique = Inr (items, budget)"
    "subseq kept unique" "list_all2 (made_from sha ?p (sl_counter S)) kept items"
    "clipped_texts (sl_counter S) (wp_max_item_tokens ?p) (wp_max_tokens ?p) (map rk_candidate kept) items"
    "mset (map row_id kept) + mset budget = mset (map row_id unique)"
    "total_tokens items \<le> wp_max_tokens ?p" "int (length items) \<le> wp_max_items ?p"
    "budget \<noteq> [] \<longrightarrow> wp_max_items ?p \<le> int (length items) \<or> total_tokens items = wp_max_tokens ?p"
    by force
  have sub: "subseq kept ?ranked" using f(2) unique(1) by (rule subseq_order.trans)
  have srt: "sorted (map rank_key ?ranked)" by simp
  have all: "mset (map row_id kept) + mset dups + mset budget = mset (map wc_id relevant)"
    using f(5) unique(3) perm by (metis (no_types) union_assoc union_commute)
  have "list_ex (\<lambda>c. wc_identity c \<noteq> identity) rows = False" using ok by (auto simp: list_ex_iff)
  then have "select U sha S identity rows = Inr (items, \<lparr>se_input = int (length rows), se_relevant = int (length relevant),
         se_duplicates = int (length dups), se_budget_omitted = int (length budget), se_selected = int (length items),
         se_tokens = total_tokens items,
         se_omitted_ids = map wc_id (filter (\<lambda>c. tv_score (wc_relevance c) < wp_minimum_relevance ?p) rows) @ dups @ budget\<rparr>)"
    using len ids cs ad(1) ranked d f(1) by (simp add: select_def Let_def relevant_def [symmetric])
  moreover have "\<forall>r \<in> set kept. rk_candidate r \<in> set relevant \<and> rk_score r = as_score (assess cfg (wc_salience (rk_candidate r)))"
    using row subseq_in [OF sub] by blast
  moreover have "budget \<noteq> [] \<longrightarrow> int (length items) = wp_max_items ?p \<or> total_tokens items = wp_max_tokens ?p"
    using f(7,8) by auto
  moreover have "budget = [] \<longrightarrow> dedupe_key U sha ` rk_candidate ` set kept = dedupe_key U sha ` set relevant"
  proof
    assume that: "budget = []"
    have "size (mset (map row_id kept)) = size (mset (map row_id unique))" using f(5) that by simp
    then have same: "kept = unique" using subseq_same_length [OF f(2)] by simp
    have rel_set: "set relevant = rk_candidate ` set ?ranked"
    proof -
      have "map rk_candidate (map (rank_of cfg) (enumerate 0 relevant)) = map snd (enumerate 0 relevant)"
        by (simp add: rank_of_def split_def comp_def)
      then have "set (map rk_candidate (map (rank_of cfg) (enumerate 0 relevant))) = set relevant" by (simp add: enumerate_eq_zip del: map_map)
      then show ?thesis by (simp add: image_image)
    qed
    have le: "dedupe_key U sha ` rk_candidate ` set ?ranked \<subseteq> dedupe_key U sha ` rk_candidate ` set unique"
    proof -
      have "\<forall>r \<in> set ?ranked. dedupe_key U sha (rk_candidate r) \<in> set [] \<union> (\<lambda>r. dedupe_key U sha (rk_candidate r)) ` set unique"
        using dd by blast
      then show ?thesis by (simp add: image_image image_subset_iff del: set_sort set_map)
    qed
    have ge: "dedupe_key U sha ` rk_candidate ` set unique \<subseteq> dedupe_key U sha ` rk_candidate ` set ?ranked"
      by (intro image_mono subsetI) (rule subseq_in [OF unique(1)])
    show "dedupe_key U sha ` rk_candidate ` set kept = dedupe_key U sha ` set relevant"
      unfolding same rel_set by (rule subset_antisym [OF ge le])
  qed
  ultimately show ?thesis
    using f(3,4,6,7) all subseq_sorted_map [OF sub srt] subseq_distinct_map [OF f(2) unique(2)]
    by (intro exI conjI) (assumption | rule refl)+
qed

lemma made_fields:
  assumes "made_from sha p g r t"
  shows "wt_id t = row_id r \<and> wt_kind t = wc_kind (rk_candidate r) \<and> wt_reference t = wc_reference (rk_candidate r)
    \<and> wt_source t = wc_source (rk_candidate r) \<and> wt_relevance t = tv_score (wc_relevance (rk_candidate r))
    \<and> wt_salience t = rk_score r"
proof -
  have "\<exists>x n. t = item_of sha r x n" using assms unfolding made_from_def by blast
  then show ?thesis by (auto simp: item_of_def Let_def)
qed

lemma made_item_for:
  assumes "list_all2 (made_from sha (sl_policy S) (sl_counter S)) kept items"
    and "\<forall>r \<in> set kept. wp_minimum_relevance (sl_policy S) \<le> tv_score (wc_relevance (rk_candidate r))
      \<and> rk_score r = as_score (assess (sa_config (sl_advisor S)) (wc_salience (rk_candidate r)))"
  shows "list_all2 (item_for sha S) (map rk_candidate kept) items"
  using assms
proof (induction rule: list_all2_induct)
  case (Cons r rs t ts)
  have "item_for sha S (rk_candidate r) t"
    using made_fields [OF Cons(1)] Cons(1,4) by (simp add: item_for_def made_from_def)
  with Cons show ?case by simp
qed simp

lemma made_ids: "list_all2 (made_from sha p g) kept items \<Longrightarrow> map wt_id items = map row_id kept"
  by (induction rule: list_all2_induct) (auto dest: made_fields)

lemma kept_items_sorted:
  assumes "list_all2 (made_from sha p g) kept items" and "sorted (map rank_key kept)"
  shows "sorted (map (\<lambda>t. (- wt_relevance t, - wt_salience t)) items)"
proof -
  have "sorted_wrt (\<lambda>r q. rank_key r \<le> rank_key q) kept" using assms(2) by (simp add: sorted_map)
  then have "sorted_wrt (\<lambda>r q. (- tv_score (wc_relevance (rk_candidate r)), - rk_score r)
      \<le> (- tv_score (wc_relevance (rk_candidate q)), - rk_score q)) kept"
    by (rule sorted_wrt_mono_rel [rotated]) (auto simp: rank_key_def less_eq_prod_def)
  then have "sorted (map (\<lambda>r. (- tv_score (wc_relevance (rk_candidate r)), - rk_score r)) kept)"
    by (simp add: sorted_map)
  moreover have "map (\<lambda>t. (- wt_relevance t, - wt_salience t)) items
      = map (\<lambda>r. (- tv_score (wc_relevance (rk_candidate r)), - rk_score r)) kept"
    using assms(1)
  proof (induction rule: list_all2_induct)
    case (Cons r rs t ts)
    then show ?case using made_fields [OF Cons(1)] by simp
  qed simp
  ultimately show ?thesis by simp
qed

subsection \<open>The service\<close>

text \<open>
  The state is the dictionary from identity keys to snapshots. A call that raises has no effect
  here: the only raising calls that could have removed an expired snapshot first are those of
  \<open>activate\<close> whose new snapshot fails its own checks, and \<open>activate_Inr\<close> below shows there are none.
\<close>

type_synonym wm_state = "((ustr \<times> ustr \<times> ustr) \<times> wm_snapshot) list"

definition utc :: "int option \<Rightarrow> int result" where
  "utc value = (case value of
     None \<Rightarrow> Inl (ValueError (lit ''working memory timestamps must be timezone-aware''))
   | Some t \<Rightarrow> Inr t)"

definition active_snapshot :: "wm_identity \<Rightarrow> int \<Rightarrow> wm_state \<Rightarrow> wm_snapshot option \<times> wm_state" where
  "active_snapshot identity now st =
     (case map_of st (wi_key identity) of
        None \<Rightarrow> (None, st)
      | Some snap \<Rightarrow> if ws_expires snap \<le> now then (None, AList.delete (wi_key identity) st) else (Some snap, st))"

definition activate :: "unicode_tables \<Rightarrow> (ustr \<Rightarrow> ustr) \<Rightarrow> selector \<Rightarrow> wm_identity \<Rightarrow> wm_candidate list \<Rightarrow> int option
    \<Rightarrow> wm_state \<Rightarrow> (wm_snapshot \<times> wm_state) result" where
  "activate U sha S identity candidates now st =
     bindE (utc now) (\<lambda>instant.
     bindE (select U sha S identity candidates) (\<lambda>(items, report).
       let (previous, st') = active_snapshot identity instant st
       in bindE (check_snapshot \<lparr>ws_identity = identity,
              ws_revision = (case previous of None \<Rightarrow> 1 | Some v \<Rightarrow> ws_revision v + 1),
              ws_items = items, ws_tokens = total_tokens items,
              ws_created = (case previous of None \<Rightarrow> instant | Some v \<Rightarrow> ws_created v),
              ws_updated = instant, ws_expires = instant + 1000000 * wp_ttl (sl_policy S),
              ws_selection = report\<rparr>) (\<lambda>snap.
            Inr (snap, AList.update (wi_key identity) snap st'))))"

definition get_snapshot :: "wm_identity \<Rightarrow> int option \<Rightarrow> wm_state \<Rightarrow> (wm_snapshot option \<times> wm_state) result" where
  "get_snapshot identity now st = bindE (utc now) (\<lambda>instant. Inr (active_snapshot identity instant st))"

text \<open>The loop over the snapshot's items: emitted items, how many were repeated, the ledger.\<close>

fun emit_items :: "wm_item list \<Rightarrow> wm_ledger \<Rightarrow> wm_item list \<times> int \<times> wm_ledger" where
  "emit_items [] L = ([], 0, L)"
| "emit_items (t # ts) L =
     (if map_of (wl_fingerprints L) (wt_id t) = Some (wt_fingerprint t)
      then let (items, repeated, L') = emit_items ts L in (items, repeated + 1, L')
      else let (items, repeated, L') = emit_items ts
             (L\<lparr>wl_fingerprints := AList.update (wt_id t) (wt_fingerprint t) (wl_fingerprints L),
                wl_tokens := wl_tokens L + wt_tokens t\<rparr>)
           in (t # items, repeated, L'))"

definition emission_of :: "wm_identity \<Rightarrow> wm_snapshot option \<Rightarrow> wm_ledger \<Rightarrow> wm_emission \<times> wm_ledger" where
  "emission_of identity snapshot L =
     (case snapshot of
        None \<Rightarrow> (\<lparr>we_identity = identity, we_revision = 0, we_items = [], we_tokens = 0, we_repeated = 0\<rparr>, L)
      | Some snap \<Rightarrow>
          let (items, repeated, L') = emit_items (ws_items snap) L
          in (\<lparr>we_identity = identity, we_revision = ws_revision snap, we_items = items,
               we_tokens = total_tokens items, we_repeated = repeated\<rparr>, L'))"

definition emit :: "wm_identity \<Rightarrow> wm_ledger \<Rightarrow> int option \<Rightarrow> wm_state
    \<Rightarrow> ((wm_emission \<times> wm_ledger) \<times> wm_state) result" where
  "emit identity L now st =
     (if wl_identity L \<noteq> identity then Inl (ValueError (lit ''working memory emission ledger identity mismatch''))
      else bindE (get_snapshot identity now st) (\<lambda>(snapshot, st').
        Inr (emission_of identity snapshot L, st')))"

definition closeout :: "wm_identity \<Rightarrow> int option \<Rightarrow> wm_state \<Rightarrow> (wm_closeout \<times> wm_state) result" where
  "closeout identity now st =
     bindE (utc now) (\<lambda>instant.
       let (snapshot, st') = active_snapshot identity instant st; st'' = AList.delete (wi_key identity) st'
       in Inr (case snapshot of
            None \<Rightarrow> (\<lparr>wo_identity = identity, wo_existed = False, wo_revision = None, wo_items = 0, wo_tokens = 0\<rparr>, st'')
          | Some snap \<Rightarrow> (\<lparr>wo_identity = identity, wo_existed = True, wo_revision = Some (ws_revision snap),
              wo_items = int (length (ws_items snap)), wo_tokens = ws_tokens snap\<rparr>, st'')))"

definition purge_working_sets :: "int option \<Rightarrow> wm_state \<Rightarrow> (int \<times> wm_state) result" where
  "purge_working_sets now st =
     bindE (utc now) (\<lambda>instant.
       let expired = map fst (filter (\<lambda>(k, snap). ws_expires snap \<le> instant) st)
       in Inr (int (length expired), fold AList.delete expired st))"

subsection \<open>Calls\<close>

text \<open>Every call of the service; the ledger of an emission lives with its caller.\<close>

datatype wm_op =
    Activate wm_identity "wm_candidate list"
  | Read wm_identity
  | Emit wm_identity wm_ledger
  | Close wm_identity
  | PurgeExpired

record wm_call =
  mc_now :: "int option"
  mc_op :: wm_op

definition wm_exec :: "unicode_tables \<Rightarrow> (ustr \<Rightarrow> ustr) \<Rightarrow> selector \<Rightarrow> wm_call \<Rightarrow> wm_state \<Rightarrow> wm_state result" where
  "wm_exec U sha S call st =
     (case mc_op call of
        Activate i cs \<Rightarrow> bindE (activate U sha S i cs (mc_now call) st) (\<lambda>(_, st'). Inr st')
      | Read i \<Rightarrow> bindE (get_snapshot i (mc_now call) st) (\<lambda>(_, st'). Inr st')
      | Emit i L \<Rightarrow> bindE (emit i L (mc_now call) st) (\<lambda>(_, st'). Inr st')
      | Close i \<Rightarrow> bindE (closeout i (mc_now call) st) (\<lambda>(_, st'). Inr st')
      | PurgeExpired \<Rightarrow> bindE (purge_working_sets (mc_now call) st) (\<lambda>(_, st'). Inr st'))"

definition wm_step :: "unicode_tables \<Rightarrow> (ustr \<Rightarrow> ustr) \<Rightarrow> selector \<Rightarrow> wm_call \<Rightarrow> wm_state \<Rightarrow> wm_state" where
  "wm_step U sha S call st = (case wm_exec U sha S call st of Inl _ \<Rightarrow> st | Inr st' \<Rightarrow> st')"

text \<open>Well-formed states: one entry per key, each under its identity's key, valid as constructed.\<close>

definition wm_wf :: "wm_state \<Rightarrow> bool" where
  "wm_wf st \<longleftrightarrow> distinct (map fst st)
     \<and> (\<forall>(k, snap) \<in> set st. k = wi_key (ws_identity snap) \<and> check_snapshot snap = Inr snap)"

text \<open>What a read of an identity at a time returns.\<close>

definition snapshot_at :: "wm_identity \<Rightarrow> int \<Rightarrow> wm_state \<Rightarrow> wm_snapshot option" where
  "snapshot_at i now st = (case map_of st (wi_key i) of
     Some snap \<Rightarrow> if ws_expires snap \<le> now then None else Some snap | None \<Rightarrow> None)"

lemma active_snapshot_fst: "fst (active_snapshot i now st) = snapshot_at i now st"
  by (simp add: active_snapshot_def snapshot_at_def split: option.splits)

lemma active_snapshot_map_of:
  "map_of (snd (active_snapshot i now st)) k =
     (if k = wi_key i \<and> snapshot_at i now st = None then None else map_of st k)"
  by (auto simp: active_snapshot_def snapshot_at_def delete_conv' split: option.splits)

lemma fold_delete_map_of: "map_of (fold AList.delete ks st) k = (if k \<in> set ks then None else map_of st k)"
  by (induction ks arbitrary: st) (auto simp: delete_conv')

lemma wm_wf_map_of: "wm_wf st \<Longrightarrow> map_of st k = Some snap \<Longrightarrow> k = wi_key (ws_identity snap) \<and> check_snapshot snap = Inr snap"
  by (auto simp: wm_wf_def dest!: map_of_SomeD)

lemma wm_wf_delete: "wm_wf st \<Longrightarrow> wm_wf (AList.delete k st)"
  using distinct_delete [of st k] by (auto simp: wm_wf_def) (auto simp: AList.delete_eq)

lemma wm_wf_update:
  assumes "wm_wf st" and "k = wi_key (ws_identity snap)" and "check_snapshot snap = Inr snap"
  shows "wm_wf (AList.update k snap st)"
proof -
  have d: "distinct (map fst (AList.update k snap st))" using assms(1) by (simp add: wm_wf_def distinct_update)
  have "j = wi_key (ws_identity x) \<and> check_snapshot x = Inr x" if "(j, x) \<in> set (AList.update k snap st)" for j x
  proof -
    have "map_of (AList.update k snap st) j = Some x" using that d by simp
    then show ?thesis using assms wm_wf_map_of [OF assms(1), of j x] by (auto simp: update_conv' split: if_splits)
  qed
  with d show ?thesis by (auto simp: wm_wf_def)
qed

lemma wm_wf_active: "wm_wf st \<Longrightarrow> wm_wf (snd (active_snapshot i now st))"
  by (auto simp: active_snapshot_def wm_wf_delete split: option.splits)

lemma wm_wf_fold_delete: "wm_wf st \<Longrightarrow> wm_wf (fold AList.delete ks st)"
  by (induction ks arbitrary: st) (simp_all add: wm_wf_delete)

lemma check_snapshot_Inr: "check_snapshot x = Inr y \<Longrightarrow> y = x"
  by (simp add: check_snapshot_def split: if_splits)

text \<open>What a successful activation stores.\<close>

lemma activate_effect:
  assumes "activate U sha S i cs now st = Inr (snap, st')"
  shows "\<exists>t. now = Some t \<and> ws_identity snap = i \<and> check_snapshot snap = Inr snap \<and> ws_updated snap = t
    \<and> ws_expires snap = t + 1000000 * wp_ttl (sl_policy S)
    \<and> st' = AList.update (wi_key i) snap (snd (active_snapshot i t st))"
proof -
  from assms obtain t items report where t: "now = Some t" and a:
    "(let (previous, st1) = active_snapshot i t st
       in bindE (check_snapshot \<lparr>ws_identity = i,
              ws_revision = (case previous of None \<Rightarrow> 1 | Some v \<Rightarrow> ws_revision v + 1),
              ws_items = items, ws_tokens = total_tokens items,
              ws_created = (case previous of None \<Rightarrow> t | Some v \<Rightarrow> ws_created v),
              ws_updated = t, ws_expires = t + 1000000 * wp_ttl (sl_policy S),
              ws_selection = report\<rparr>) (\<lambda>snap. Inr (snap, AList.update (wi_key i) snap st1))) = Inr (snap, st')"
    by (auto simp: activate_def utc_def split: option.splits)
  obtain previous st1 where p: "active_snapshot i t st = (previous, st1)" by fastforce
  from a [unfolded p Let_def prod.case] obtain x where x: "check_snapshot x = Inr snap"
    "x = \<lparr>ws_identity = i, ws_revision = (case previous of None \<Rightarrow> 1 | Some v \<Rightarrow> ws_revision v + 1),
              ws_items = items, ws_tokens = total_tokens items,
              ws_created = (case previous of None \<Rightarrow> t | Some v \<Rightarrow> ws_created v),
              ws_updated = t, ws_expires = t + 1000000 * wp_ttl (sl_policy S), ws_selection = report\<rparr>"
    "st' = AList.update (wi_key i) snap st1"
    unfolding bindE_eq_Inr by blast
  from x(1) have "snap = x" by (rule check_snapshot_Inr)
  with x p t show ?thesis by simp
qed

lemma emit_effect:
  assumes "emit i L now st = Inr (out, st')"
  shows "\<exists>t. now = Some t \<and> wl_identity L = i \<and> out = emission_of i (snapshot_at i t st) L
    \<and> st' = snd (active_snapshot i t st)"
  using assms by (auto simp: emit_def get_snapshot_def utc_def active_snapshot_fst [symmetric] split: if_splits option.splits)

lemma closeout_effect:
  assumes "closeout i now st = Inr (c, st')"
  shows "\<exists>t. now = Some t \<and> st' = AList.delete (wi_key i) (snd (active_snapshot i t st))"
  using assms by (auto simp: closeout_def utc_def Let_def split: option.splits prod.splits)

lemma wm_step_wf: "wm_wf st \<Longrightarrow> wm_wf (wm_step U sha S call st)"
  unfolding wm_step_def
  by (auto simp: wm_exec_def get_snapshot_def purge_working_sets_def Let_def utc_def wm_wf_fold_delete wm_wf_delete
      wm_wf_update wm_wf_active split: sum.splits wm_op.splits option.splits
      dest!: activate_effect emit_effect closeout_effect)
    (metis snd_conv wm_wf_active)

text \<open>A call about another identity, or a purge, made no later than \<open>now\<close>.\<close>

definition other_call :: "wm_identity \<Rightarrow> int \<Rightarrow> wm_call \<Rightarrow> bool" where
  "other_call i now call \<longleftrightarrow> (case mc_now call of None \<Rightarrow> True | Some t \<Rightarrow> t \<le> now)
     \<and> (case mc_op call of Activate j _ \<Rightarrow> j \<noteq> i | Read j \<Rightarrow> j \<noteq> i | Emit j _ \<Rightarrow> j \<noteq> i | Close j \<Rightarrow> j \<noteq> i
        | PurgeExpired \<Rightarrow> True)"

lemma snapshot_at_cong: "map_of st (wi_key i) = map_of st' (wi_key i) \<Longrightarrow> snapshot_at i now st = snapshot_at i now st'"
  by (simp add: snapshot_at_def)

lemma active_other: "j \<noteq> i \<Longrightarrow> map_of (snd (active_snapshot j now st)) (wi_key i) = map_of st (wi_key i)"
  by (simp add: active_snapshot_map_of wi_key_inj)

lemma filtered_key:
  assumes "distinct (map fst xs)" and "map_of xs k = Some v"
  shows "k \<in> set (map fst (filter (\<lambda>(k, v). P v) xs)) \<longleftrightarrow> P v"
proof -
  have "(k, v') \<in> set xs \<longleftrightarrow> v' = v" for v'
    using assms by (metis map_of_SomeD map_of_is_SomeI option.inject)
  then show ?thesis by (auto simp: image_iff Bex_def)
qed

lemma purge_keeps:
  assumes "wm_wf st" and "t \<le> now"
  shows "snapshot_at i now (fold AList.delete (map fst (filter (\<lambda>(k, snap). ws_expires snap \<le> t) st)) st) = snapshot_at i now st"
proof (cases "map_of st (wi_key i)")
  case (Some snap)
  have "distinct (map fst st)" using assms(1) by (simp add: wm_wf_def)
  note filtered_key [OF this Some, of "\<lambda>snap. ws_expires snap \<le> t"]
  then show ?thesis using Some assms(2) by (simp add: snapshot_at_def fold_delete_map_of del: set_map)
qed (simp add: snapshot_at_def fold_delete_map_of)

lemma other_call_keeps:
  assumes "wm_wf st" and "other_call i now call"
  shows "snapshot_at i now (wm_step U sha S call st) = snapshot_at i now st"
proof (cases "wm_exec U sha S call st")
  case (Inr st')
  then have step: "wm_step U sha S call st = st'" by (simp add: wm_step_def)
  have "snapshot_at i now st' = snapshot_at i now st"
  proof (cases "mc_op call")
    case (Activate j cs)
    with Inr assms(2) show ?thesis
      by (auto simp: wm_exec_def other_call_def wi_key_inj update_conv' active_other
          intro!: snapshot_at_cong dest!: activate_effect)
  next
    case (Read j)
    with Inr assms(2) show ?thesis
      by (auto simp: wm_exec_def other_call_def get_snapshot_def utc_def intro!: snapshot_at_cong
          split: option.splits) (metis active_other snd_conv)+
  next
    case (Emit j L)
    with Inr assms(2) show ?thesis
      by (auto simp: wm_exec_def other_call_def active_other intro!: snapshot_at_cong dest!: emit_effect)
  next
    case (Close j)
    with Inr assms(2) show ?thesis
      by (auto simp: wm_exec_def other_call_def wi_key_inj delete_conv' active_other
          intro!: snapshot_at_cong dest!: closeout_effect)
  next
    case PurgeExpired
    with Inr assms show ?thesis
      by (auto simp: wm_exec_def other_call_def purge_working_sets_def utc_def Let_def purge_keeps split: option.splits)
  qed
  with step show ?thesis by simp
qed (simp add: wm_step_def)

interpretation memory: op_machine "wm_step U sha S" "\<lambda>_. True" wm_wf
  for U :: unicode_tables and sha :: "ustr \<Rightarrow> ustr" and S :: selector
  by unfold_locales (rule wm_step_wf)

interpretation sessions: guarded_machine "wm_step U sha S" "other_call i now" wm_wf
    "\<lambda>st st'. snapshot_at i now st' = snapshot_at i now st"
  for U :: unicode_tables and sha :: "ustr \<Rightarrow> ustr" and S :: selector and i :: wm_identity and now :: int
  by unfold_locales (auto simp: wm_step_wf other_call_keeps)

subsection \<open>Emission\<close>

text \<open>The fingerprint the ledger holds for an item is the item's own.\<close>

definition already_emitted :: "wm_ledger \<Rightarrow> wm_item \<Rightarrow> bool" where
  "already_emitted L t \<longleftrightarrow> map_of (wl_fingerprints L) (wt_id t) = Some (wt_fingerprint t)"

lemma emit_items_spec:
  assumes "emit_items ts L = (items, repeated, L')" and "distinct (map wt_id ts)"
  shows "items = filter (\<lambda>t. \<not> already_emitted L t) ts \<and> repeated + int (length items) = int (length ts)
    \<and> wl_tokens L' = wl_tokens L + total_tokens items \<and> wl_identity L' = wl_identity L
    \<and> (\<forall>t \<in> set ts. already_emitted L' t)
    \<and> (\<forall>i. i \<notin> wt_id ` set ts \<longrightarrow> map_of (wl_fingerprints L') i = map_of (wl_fingerprints L) i)"
  using assms
proof (induction ts arbitrary: L items repeated)
  case (Cons t ts)
  show ?case
  proof (cases "already_emitted L t")
    case True
    with Cons.prems(1) obtain rep where e: "emit_items ts L = (items, rep, L')" "repeated = rep + 1"
      by (auto simp: already_emitted_def split: prod.splits)
    have d: "distinct (map wt_id ts)" "wt_id t \<notin> wt_id ` set ts" using Cons.prems(2) by auto
    from Cons.IH [OF e(1) d(1)] True d(2) e(2) show ?thesis by (auto simp: already_emitted_def)
  next
    case False
    let ?L = "L\<lparr>wl_fingerprints := AList.update (wt_id t) (wt_fingerprint t) (wl_fingerprints L),
      wl_tokens := wl_tokens L + wt_tokens t\<rparr>"
    from False Cons.prems(1) obtain rest where e: "emit_items ts ?L = (rest, repeated, L')" "items = t # rest"
      by (auto simp: already_emitted_def split: prod.splits)
    have d: "distinct (map wt_id ts)" "wt_id t \<notin> wt_id ` set ts" using Cons.prems(2) by auto
    have same: "filter (\<lambda>u. \<not> already_emitted ?L u) ts = filter (\<lambda>u. \<not> already_emitted L u) ts"
    proof (intro filter_cong refl)
      fix u assume "u \<in> set ts"
      then have "wt_id u \<noteq> wt_id t" using d(2) by (metis image_eqI)
      then show "(\<not> already_emitted ?L u) = (\<not> already_emitted L u)" by (simp add: already_emitted_def update_conv')
    qed
    from Cons.IH [OF e(1) d(1)] False d(2) e(2) same show ?thesis
      by (auto simp: already_emitted_def update_conv')
  qed
qed simp

lemma emit_items_repeated: "\<forall>t \<in> set ts. already_emitted L t \<Longrightarrow> emit_items ts L = ([], int (length ts), L)"
  by (induction ts) (simp_all add: already_emitted_def)

subsection \<open>Properties\<close>

text \<open>
  C15. A selection keeps the policy: for validated policy, counter, candidates and identity, a
  candidate list within the limits is never refused, and the selected items fit the token
  budget and the item limit; each stands for a different relevant candidate with its scores, and
  its text is that candidate's, clipped to the item limit or to the budget left at its turn; no
  two share a deduplication key; they come in order of falling relevance, then falling salience;
  and a relevant candidate that is no duplicate is left out only when a limit is reached.
\<close>

theorem selection_keeps_policy:
  assumes "make_policy p = Inr (sl_policy S)" and "make_counter n = Inr (sl_counter S)" and "hex_digest sha"
    and "\<forall>c \<in> set rows. candidate_ok c \<and> wc_identity c = identity"
    and "int (length rows) \<le> wp_max_candidates (sl_policy S)" and "distinct (map wc_id rows)"
  shows "\<exists>items report kept. select U sha S identity rows = Inr (items, report)
    \<and> total_tokens items \<le> wp_max_tokens (sl_policy S) \<and> int (length items) \<le> wp_max_items (sl_policy S)
    \<and> list_all2 (item_for sha S) kept items \<and> set kept \<subseteq> set rows
    \<and> clipped_texts (sl_counter S) (wp_max_item_tokens (sl_policy S)) (wp_max_tokens (sl_policy S)) kept items
    \<and> (dedupe_key U sha ` set kept = dedupe_key U sha ` set (filter (\<lambda>c. wp_minimum_relevance (sl_policy S) \<le> tv_score (wc_relevance c)) rows)
        \<or> int (length items) = wp_max_items (sl_policy S) \<or> total_tokens items = wp_max_tokens (sl_policy S))
    \<and> distinct (map (dedupe_key U sha) kept)
    \<and> sorted (map (\<lambda>t. (- wt_relevance t, - wt_salience t)) items)"
proof -
  have pol: "wm_policy_ok (sl_policy S)" using assms(1)
    by (auto simp: wm_policy_ok_def make_policy_def split: if_splits)
  let ?rel = "filter (\<lambda>c. wp_minimum_relevance (sl_policy S) \<le> tv_score (wc_relevance c)) rows"
  from select_spec [OF pol make_counter_ok [OF assms(2)] assms(3,4,5,6), of U]
  obtain items report kept and budget :: "ustr list" where s: "select U sha S identity rows = Inr (items, report)"
    "list_all2 (made_from sha (sl_policy S) (sl_counter S)) kept items"
    "\<forall>r \<in> set kept. rk_candidate r \<in> set ?rel \<and> rk_score r = as_score (assess (sa_config (sl_advisor S)) (wc_salience (rk_candidate r)))"
    "sorted (map rank_key kept)" "distinct (map (\<lambda>r. dedupe_key U sha (rk_candidate r)) kept)"
    "total_tokens items \<le> wp_max_tokens (sl_policy S)" "int (length items) \<le> wp_max_items (sl_policy S)"
    "clipped_texts (sl_counter S) (wp_max_item_tokens (sl_policy S)) (wp_max_tokens (sl_policy S)) (map rk_candidate kept) items"
    and full: "budget \<noteq> [] \<longrightarrow> int (length items) = wp_max_items (sl_policy S) \<or> total_tokens items = wp_max_tokens (sl_policy S)"
    "budget = [] \<longrightarrow> dedupe_key U sha ` rk_candidate ` set kept = dedupe_key U sha ` set ?rel"
    by (elim exE conjE) (rule that; assumption)
  have cover: "dedupe_key U sha ` set (map rk_candidate kept) = dedupe_key U sha ` set ?rel
      \<or> int (length items) = wp_max_items (sl_policy S) \<or> total_tokens items = wp_max_tokens (sl_policy S)"
    using full by (cases "budget = []") simp_all
  have "list_all2 (item_for sha S) (map rk_candidate kept) items"
    using s(3) by (intro made_item_for [OF s(2)]) auto
  moreover have "set (map rk_candidate kept) \<subseteq> set rows" using s(3) by auto
  moreover have "distinct (map (dedupe_key U sha) (map rk_candidate kept))" using s(5) by (simp add: comp_def)
  ultimately show ?thesis using s(1,6-8) cover kept_items_sorted [OF s(2,4)] by blast
qed

text \<open>
  A selection accounts for every candidate: the selected and the omitted ids together are
  exactly the candidates' ids, the report's counts add up, and a candidate is left out for the
  budget only when the item limit is reached or the token budget is used up.
\<close>

theorem selection_accounts:
  assumes "make_policy p = Inr (sl_policy S)" and "make_counter n = Inr (sl_counter S)" and "hex_digest sha"
    and "\<forall>c \<in> set rows. candidate_ok c \<and> wc_identity c = identity"
    and "int (length rows) \<le> wp_max_candidates (sl_policy S)" and "distinct (map wc_id rows)"
    and "select U sha S identity rows = Inr (items, report)"
  shows "mset (map wt_id items) + mset (se_omitted_ids report) = mset (map wc_id rows)
    \<and> se_input report = se_selected report + int (length (se_omitted_ids report))
    \<and> se_relevant report = se_selected report + se_duplicates report + se_budget_omitted report
    \<and> (0 < se_budget_omitted report \<longrightarrow>
        se_selected report = wp_max_items (sl_policy S) \<or> se_tokens report = wp_max_tokens (sl_policy S))"
proof -
  let ?rel = "filter (\<lambda>c. wp_minimum_relevance (sl_policy S) \<le> tv_score (wc_relevance c)) rows"
  let ?irr = "filter (\<lambda>c. tv_score (wc_relevance c) < wp_minimum_relevance (sl_policy S)) rows"
  have "make_policy p = Inr q \<Longrightarrow> wm_policy_ok q" for q
    by (auto simp: wm_policy_ok_def make_policy_def split: if_splits)
  from select_spec [OF this [OF assms(1)] make_counter_ok [OF assms(2)] assms(3,4,5,6), of U] assms(7)
  obtain dups budget kept where s: "list_all2 (made_from sha (sl_policy S) (sl_counter S)) kept items"
    "mset (map row_id kept) + mset dups + mset budget = mset (map wc_id ?rel)"
    "budget \<noteq> [] \<longrightarrow> int (length items) = wp_max_items (sl_policy S) \<or> total_tokens items = wp_max_tokens (sl_policy S)"
    "report = \<lparr>se_input = int (length rows), se_relevant = int (length ?rel), se_duplicates = int (length dups),
         se_budget_omitted = int (length budget), se_selected = int (length items), se_tokens = total_tokens items,
         se_omitted_ids = map wc_id ?irr @ dups @ budget\<rparr>"
    by auto
  have parts: "mset (map wc_id ?rel) + mset (map wc_id ?irr) = mset (map wc_id rows)" by (rule mset_irrelevant)
  have "mset (map wt_id items) + mset (map wc_id ?irr @ dups @ budget)
      = (mset (map row_id kept) + mset dups + mset budget) + mset (map wc_id ?irr)"
    by (simp only: made_ids [OF s(1)] mset_append ac_simps)
  then have all: "mset (map wt_id items) + mset (map wc_id ?irr @ dups @ budget) = mset (map wc_id rows)"
    by (simp only: s(2) parts)
  have "size (mset (map row_id kept) + mset dups + mset budget) = size (mset (map wc_id ?rel))" by (simp only: s(2))
  then have len: "length items + length dups + length budget = length ?rel"
    using list_all2_lengthD [OF s(1)] by (simp only: size_union size_mset length_map)
  have "size (mset (map wc_id ?rel) + mset (map wc_id ?irr)) = size (mset (map wc_id rows))" by (simp only: parts)
  then have "length ?rel + length ?irr = length rows" by (simp only: size_union size_mset length_map)
  with all len s(3) show ?thesis by (auto simp: s(4))
qed

text \<open>
  Activating and reading: an activation of validated candidates succeeds, its snapshot is
  the one every read returns until its time to live has passed and no read returns after; its
  revision is one more than that of the snapshot it replaces, or 1 when none was active.
\<close>

theorem activate_then_read:
  assumes "make_policy p = Inr (sl_policy S)" and "make_counter n = Inr (sl_counter S)" and "hex_digest sha"
    and "\<forall>c \<in> set rows. candidate_ok c \<and> wc_identity c = identity"
    and "int (length rows) \<le> wp_max_candidates (sl_policy S)" and "distinct (map wc_id rows)" and "wm_wf st"
  shows "\<exists>snap st'. activate U sha S identity rows (Some now) st = Inr (snap, st')
    \<and> (\<forall>later. map_sum id fst (get_snapshot identity (Some later) st')
         = Inr (if later < now + 1000000 * wp_ttl (sl_policy S) then Some snap else None))
    \<and> ws_revision snap = (case snapshot_at identity now st of None \<Rightarrow> 1 | Some v \<Rightarrow> ws_revision v + 1)
    \<and> ws_tokens snap = total_tokens (ws_items snap) \<and> ws_tokens snap \<le> wp_max_tokens (sl_policy S)"
proof -
  have "make_policy p = Inr q \<Longrightarrow> wm_policy_ok q" for q
    by (auto simp: wm_policy_ok_def make_policy_def split: if_splits)
  then have pol: "wm_policy_ok (sl_policy S)" using assms(1) .
  from select_spec [OF pol make_counter_ok [OF assms(2)] assms(3,4,5,6), of U]
  obtain items report kept where s: "select U sha S identity rows = Inr (items, report)"
    "list_all2 (made_from sha (sl_policy S) (sl_counter S)) kept items"
    "set (map rk_candidate kept) \<subseteq> set rows"
    "distinct (map (\<lambda>r. dedupe_key U sha (rk_candidate r)) kept)"
    "total_tokens items \<le> wp_max_tokens (sl_policy S)" by auto
  have "inj_on wc_id (set rows)" using assms(6) by (simp add: distinct_map)
  moreover have "distinct (map rk_candidate kept)"
  proof -
    have "distinct (map (dedupe_key U sha) (map rk_candidate kept))" using s(4) by (simp add: comp_def)
    then show ?thesis unfolding distinct_map by blast
  qed
  ultimately have "distinct (map wc_id (map rk_candidate kept))"
    using s(3) by (simp only: distinct_map) (meson inj_on_subset)
  then have ids: "distinct (map wt_id items)" using made_ids [OF s(2)] by (simp add: comp_def)
  obtain previous st1 where prev: "active_snapshot identity now st = (previous, st1)" by fastforce
  have at: "previous = snapshot_at identity now st" using active_snapshot_fst [of identity now st] prev by simp
  let ?rev = "case previous of None \<Rightarrow> 1 | Some v \<Rightarrow> ws_revision v + 1"
  have "ws_revision v \<ge> 1" if "previous = Some v" for v
    using that prev wm_wf_map_of [OF assms(7), of "wi_key identity"]
    by (auto simp: active_snapshot_def check_snapshot_def split: option.splits if_splits)
  then have rev: "0 < ?rev" by (force split: option.splits)
  let ?snap = "\<lparr>ws_identity = identity, ws_revision = ?rev, ws_items = items, ws_tokens = total_tokens items,
     ws_created = (case previous of None \<Rightarrow> now | Some v \<Rightarrow> ws_created v), ws_updated = now,
     ws_expires = now + 1000000 * wp_ttl (sl_policy S), ws_selection = report\<rparr>"
  have "check_snapshot ?snap = Inr ?snap"
    using rev ids wm_policy_okD(4) [OF pol] by (simp add: check_snapshot_def)
  then have act: "activate U sha S identity rows (Some now) st = Inr (?snap, AList.update (wi_key identity) ?snap st1)"
    using s(1) prev by (simp add: activate_def utc_def)
  have "map_sum id fst (get_snapshot identity (Some later) (AList.update (wi_key identity) ?snap st1))
      = Inr (if later < now + 1000000 * wp_ttl (sl_policy S) then Some ?snap else None)" for later
    by (simp add: get_snapshot_def utc_def active_snapshot_def update_conv')
  with act at s(5) show ?thesis by (intro exI conjI) (assumption, simp_all)
qed

text \<open>
  Working sets are isolated: whatever is activated, read, emitted, closed or purged up to a
  time under other identities, what a read of this identity returns at that time is unchanged.
\<close>

theorem sessions_isolated:
  assumes "wm_wf st" and "list_all (other_call i now) calls"
  shows "map_sum id fst (get_snapshot i (Some now) (fold (wm_step U sha S) calls st))
    = map_sum id fst (get_snapshot i (Some now) st)"
  using sessions.run_rel [OF assms(2,1)]
  by (simp add: get_snapshot_def utc_def active_snapshot_fst)

text \<open>
  C16. Nothing is injected twice: an emission returns exactly the items whose fingerprint the
  ledger does not hold yet and charges their tokens to it; while the snapshot stays active,
  whatever other sessions do, the next emission with that ledger returns nothing and changes
  nothing in it.
\<close>

theorem emitted_once:
  assumes "wm_wf st" and "wl_identity L = i" and "snapshot_at i now st = Some snap"
    and "list_all (other_call i later) calls" and "now \<le> later" and "later < ws_expires snap"
  shows "\<exists>e L' st'. emit i L (Some now) st = Inr ((e, L'), st')
    \<and> we_items e = filter (\<lambda>t. \<not> already_emitted L t) (ws_items snap)
    \<and> we_tokens e = total_tokens (we_items e) \<and> wl_tokens L' = wl_tokens L + we_tokens e
    \<and> map_sum id fst (emit i L' (Some later) (fold (wm_step U sha S) calls st')) = Inr
        (\<lparr>we_identity = i, we_revision = ws_revision snap, we_items = [], we_tokens = 0,
          we_repeated = int (length (ws_items snap))\<rparr>, L')"
proof -
  obtain items repeated L' where e: "emit_items (ws_items snap) L = (items, repeated, L')" by (metis prod.exhaust)
  have m: "map_of st (wi_key i) = Some snap" using assms(3) by (auto simp: snapshot_at_def split: option.splits if_splits)
  have "distinct (map wt_id (ws_items snap))"
    using wm_wf_map_of [OF assms(1) m] by (auto simp: check_snapshot_def split: if_splits)
  note spec = emit_items_spec [OF e this]
  have act: "active_snapshot i now st = (Some snap, st)"
    using m assms(5,6) by (simp add: active_snapshot_def)
  have first: "emit i L (Some now) st = Inr ((\<lparr>we_identity = i, we_revision = ws_revision snap, we_items = items,
      we_tokens = total_tokens items, we_repeated = repeated\<rparr>, L'), st)"
    using assms(2) act e by (simp add: emit_def get_snapshot_def utc_def emission_of_def)
  have "snapshot_at i later st = Some snap" using m assms(6) by (simp add: snapshot_at_def)
  then have "snapshot_at i later (fold (wm_step U sha S) calls st) = Some snap"
    using sessions.run_rel [OF assms(4,1)] by metis
  then have "fst (active_snapshot i later (fold (wm_step U sha S) calls st)) = Some snap"
    by (simp add: active_snapshot_fst)
  then obtain st2 where "active_snapshot i later (fold (wm_step U sha S) calls st) = (Some snap, st2)"
    by (metis prod.collapse)
  then have "map_sum id fst (emit i L' (Some later) (fold (wm_step U sha S) calls st)) = Inr
      (\<lparr>we_identity = i, we_revision = ws_revision snap, we_items = [], we_tokens = 0,
        we_repeated = int (length (ws_items snap))\<rparr>, L')"
    using spec assms(2) emit_items_repeated [of "ws_items snap" L']
    by (simp add: emit_def get_snapshot_def utc_def emission_of_def)
  with first spec show ?thesis by (intro exI conjI) (assumption, simp_all)
qed

subsection \<open>Witnesses\<close>

definition zero_digest :: "ustr \<Rightarrow> ustr" where
  "zero_digest x = replicate 64 48"

definition no_signals :: salience_input where
  "no_signals = \<lparr>prediction_error = None, unresolvedness = None, contradiction = None, novelty = None,
     recurrence = None, consequence = None, user_emphasis = None, recency = None\<rparr>"

definition default_policy :: wm_policy where
  "default_policy = \<lparr>wp_max_items = 12, wp_max_tokens = 1200, wp_max_item_tokens = 240, wp_max_candidates = 64,
     wp_minimum_relevance = 1 / 5, wp_ttl = 3600\<rparr>"

definition default_selector :: selector where
  "default_selector = \<lparr>sl_policy = default_policy, sl_counter = \<lparr>chars_per_token = 4\<rparr>,
     sl_advisor = \<lparr>sa_config = reviewed_salience_policy, sa_version = lit ''salience-policy-v1''\<rparr>\<rparr>"

definition sample_identity :: "ustr \<Rightarrow> wm_identity" where
  "sample_identity task = \<lparr>wi_scope = [97], wi_session = [98], wi_task = task\<rparr>"

definition sample_candidate :: "ustr \<Rightarrow> real \<Rightarrow> wm_candidate" where
  "sample_candidate i score = \<lparr>wc_id = i, wc_identity = sample_identity [99], wc_kind = GOAL, wc_text = [104, 105],
     wc_relevance = \<lparr>tv_score = score, tv_codes = []\<rparr>, wc_salience = no_signals, wc_reference = None,
     wc_source = Some i\<rparr>"

definition sample_rows :: "wm_candidate list" where
  "sample_rows = [sample_candidate [120] (1/10), sample_candidate [121] (1/2), sample_candidate [122] 1]"

lemma zero_digest_ok: "hex_digest zero_digest"
  by (simp add: hex_digest_def zero_digest_def)

lemma sample_ok:
  "make_policy default_policy = Inr (sl_policy default_selector)" "make_counter 4 = Inr (sl_counter default_selector)"
  "\<forall>c \<in> set sample_rows. candidate_ok c \<and> wc_identity c = sample_identity [99]"
  "int (length sample_rows) \<le> wp_max_candidates (sl_policy default_selector)" "distinct (map wc_id sample_rows)"
  by (simp_all add: make_policy_def default_policy_def default_selector_def make_counter_def sample_rows_def
      sample_candidate_def candidate_ok_def input_ok_def signal_order_def no_signals_def sample_identity_def
      py_strip_def py_lstrip_def py_rstrip_def py_space_def)

theorem selection_keeps_policy_witness:
  "\<exists>items report. select ascii_tables zero_digest default_selector (sample_identity [99]) sample_rows = Inr (items, report)
    \<and> total_tokens items \<le> 1200 \<and> length items \<le> 12"
  using selection_keeps_policy [OF sample_ok(1,2) zero_digest_ok sample_ok(3-), of ascii_tables]
  by (auto simp: default_selector_def default_policy_def)

lemma sample_selected:
  "select ascii_tables zero_digest default_selector (sample_identity [99]) sample_rows =
     Inr ([item_of zero_digest \<lparr>rk_candidate = sample_candidate [122] 1, rk_index = 1, rk_score = 0, rk_reasons = []\<rparr> [104, 105] 1,
           item_of zero_digest \<lparr>rk_candidate = sample_candidate [121] (1/2), rk_index = 0, rk_score = 0, rk_reasons = []\<rparr> [104, 105] 1],
       \<lparr>se_input = 3, se_relevant = 2, se_duplicates = 0, se_budget_omitted = 0, se_selected = 2, se_tokens = 2,
        se_omitted_ids = [[120]]\<rparr>)"
proof -
  have score: "assess cfg no_signals = \<lparr>as_score = 0, as_reasons = [], as_signals = []\<rparr>" for cfg
    by (simp add: assess_def considered_def signal_order_def no_signals_def)
  let ?a = "sample_candidate [121] (1/2)" and ?b = "sample_candidate [122] 1"
  have relevant: "filter (\<lambda>c. wp_minimum_relevance (sl_policy default_selector) \<le> tv_score (wc_relevance c)) sample_rows = [?a, ?b]"
    by (simp add: sample_rows_def sample_candidate_def default_selector_def default_policy_def)
  have cs: "mapE (\<lambda>c. make_salience_candidate (wc_id c) (wi_scope (sample_identity [99])) (wc_salience c)) [?a, ?b]
      = Inr [\<lparr>sc_id = [121], sc_scope = [97], sc_signals = no_signals\<rparr>, \<lparr>sc_id = [122], sc_scope = [97], sc_signals = no_signals\<rparr>]"
    by (simp add: make_salience_candidate_def sample_candidate_def sample_identity_def
        py_strip_def py_lstrip_def py_rstrip_def py_space_def)
  obtain pr where ad: "advise (sl_advisor default_selector)
      [\<lparr>sc_id = [121], sc_scope = [97], sc_signals = no_signals\<rparr>, \<lparr>sc_id = [122], sc_scope = [97], sc_signals = no_signals\<rparr>]
      = Inr \<lparr>ad_version = lit ''salience-policy-v1'',
          ad_assessments = [([121], assess reviewed_salience_policy no_signals), ([122], assess reviewed_salience_policy no_signals)],
          ad_priority = pr\<rparr>"
    by (simp add: advise_def default_selector_def Let_def)
  have ranked: "rank_rows \<lparr>ad_version = lit ''salience-policy-v1'',
          ad_assessments = [([121], assess reviewed_salience_policy no_signals), ([122], assess reviewed_salience_policy no_signals)],
          ad_priority = pr\<rparr> [?a, ?b]
      = Inr [\<lparr>rk_candidate = ?b, rk_index = 1, rk_score = 0, rk_reasons = []\<rparr>,
             \<lparr>rk_candidate = ?a, rk_index = 0, rk_score = 0, rk_reasons = []\<rparr>]"
    by (simp add: rank_rows_def sample_candidate_def score less_eq_prod_def)
  have dedupe: "dedupe_rows (dedupe_key ascii_tables zero_digest) [] [\<lparr>rk_candidate = ?b, rk_index = 1, rk_score = 0, rk_reasons = []\<rparr>,
             \<lparr>rk_candidate = ?a, rk_index = 0, rk_score = 0, rk_reasons = []\<rparr>]
      = ([\<lparr>rk_candidate = ?b, rk_index = 1, rk_score = 0, rk_reasons = []\<rparr>,
             \<lparr>rk_candidate = ?a, rk_index = 0, rk_score = 0, rk_reasons = []\<rparr>], [])"
    by (simp add: dedupe_key_def sample_candidate_def)
  have fill: "fill_budget zero_digest (sl_policy default_selector) (sl_counter default_selector) 0
      (wp_max_tokens (sl_policy default_selector)) [\<lparr>rk_candidate = ?b, rk_index = 1, rk_score = 0, rk_reasons = []\<rparr>,
             \<lparr>rk_candidate = ?a, rk_index = 0, rk_score = 0, rk_reasons = []\<rparr>]
      = Inr ([item_of zero_digest \<lparr>rk_candidate = ?b, rk_index = 1, rk_score = 0, rk_reasons = []\<rparr> [104, 105] 1,
           item_of zero_digest \<lparr>rk_candidate = ?a, rk_index = 0, rk_score = 0, rk_reasons = []\<rparr> [104, 105] 1], [])"
    using digest_nonempty [OF zero_digest_ok]
    by (simp add: default_selector_def default_policy_def clip_to_tokens_def estimate_tokens_def check_item_def
        item_of_def sample_candidate_def Let_def)
  show ?thesis
    unfolding select_def Let_def relevant cs bindE_simps ad ranked dedupe prod.case fill
    by (simp add: default_selector_def default_policy_def sample_rows_def sample_candidate_def sample_identity_def item_of_def Let_def)
qed

theorem selection_accounts_witness:
  "map wt_id [item_of zero_digest \<lparr>rk_candidate = sample_candidate [122] 1, rk_index = 1, rk_score = 0, rk_reasons = []\<rparr> [104, 105] 1,
           item_of zero_digest \<lparr>rk_candidate = sample_candidate [121] (1/2), rk_index = 0, rk_score = 0, rk_reasons = []\<rparr> [104, 105] 1]
     = [[122], [121]]
   \<and> mset [[122], [121]] + mset [[120]] = mset (map wc_id sample_rows)"
  using selection_accounts [OF sample_ok(1,2) zero_digest_ok sample_ok(3-) sample_selected]
  by (simp add: item_of_def sample_candidate_def)

theorem activate_then_read_witness:
  "\<exists>snap st'. activate ascii_tables zero_digest default_selector (sample_identity [99]) sample_rows (Some 0) [] = Inr (snap, st')
    \<and> map_sum id fst (get_snapshot (sample_identity [99]) (Some 3599999999) st') = Inr (Some snap)
    \<and> map_sum id fst (get_snapshot (sample_identity [99]) (Some 3600000000) st') = Inr None"
proof -
  have "wm_wf []" by (simp add: wm_wf_def)
  from activate_then_read [OF sample_ok(1,2) zero_digest_ok sample_ok(3-) this, of ascii_tables 0]
  obtain snap st' where "activate ascii_tables zero_digest default_selector (sample_identity [99]) sample_rows (Some 0) [] = Inr (snap, st')"
    and read: "\<And>later. map_sum id fst (get_snapshot (sample_identity [99]) (Some later) st')
       = Inr (if later < 3600000000 then Some snap else None)"
    by (auto simp: default_selector_def default_policy_def)
  then show ?thesis using read [of 3599999999] read [of 3600000000] by auto
qed

definition sample_item :: wm_item where
  "sample_item = item_of zero_digest \<lparr>rk_candidate = sample_candidate [122] 1, rk_index = 1, rk_score = 0,
     rk_reasons = []\<rparr> [104, 105] 1"

definition sample_snapshot :: wm_snapshot where
  "sample_snapshot = \<lparr>ws_identity = sample_identity [99], ws_revision = 1, ws_items = [sample_item], ws_tokens = 1,
     ws_created = 0, ws_updated = 0, ws_expires = 100, ws_selection = \<lparr>se_input = 1, se_relevant = 1, se_duplicates = 0,
       se_budget_omitted = 0, se_selected = 1, se_tokens = 1, se_omitted_ids = []\<rparr>\<rparr>"

definition sample_state :: wm_state where
  "sample_state = [(wi_key (sample_identity [99]), sample_snapshot)]"

definition sample_calls :: "wm_call list" where
  "sample_calls = [\<lparr>mc_now = Some 40, mc_op = PurgeExpired\<rparr>, \<lparr>mc_now = Some 45, mc_op = Close (sample_identity [100])\<rparr>]"

lemma sample_state_facts:
  "wm_wf sample_state" "list_all (other_call (sample_identity [99]) 50) sample_calls"
  "snapshot_at (sample_identity [99]) 10 sample_state = Some sample_snapshot" "50 < ws_expires sample_snapshot"
  "wl_identity \<lparr>wl_identity = sample_identity [99], wl_fingerprints = [], wl_tokens = 0\<rparr> = sample_identity [99]"
  by (simp_all add: wm_wf_def sample_state_def sample_snapshot_def check_snapshot_def sample_item_def item_of_def Let_def
      sample_calls_def other_call_def sample_identity_def snapshot_at_def)

theorem sessions_isolated_witness:
  "map_sum id fst (get_snapshot (sample_identity [99]) (Some 50)
     (fold (wm_step ascii_tables zero_digest default_selector) sample_calls sample_state)) = Inr (Some sample_snapshot)"
  using sessions_isolated [OF sample_state_facts(1,2), of ascii_tables zero_digest default_selector]
  by (simp add: get_snapshot_def utc_def active_snapshot_def sample_state_def sample_snapshot_def)

theorem emitted_once_witness:
  "\<exists>e L' st'. emit (sample_identity [99]) \<lparr>wl_identity = sample_identity [99], wl_fingerprints = [], wl_tokens = 0\<rparr>
       (Some 10) sample_state = Inr ((e, L'), st')
    \<and> we_items e = [sample_item]
    \<and> map_sum id (\<lambda>x. we_items (fst (fst x))) (emit (sample_identity [99]) L' (Some 50)
         (fold (wm_step ascii_tables zero_digest default_selector) sample_calls st')) = Inr []"
proof -
  from emitted_once [OF sample_state_facts(1,5,3,2) _ sample_state_facts(4), of ascii_tables zero_digest default_selector]
  obtain e L' st' where e: "emit (sample_identity [99]) \<lparr>wl_identity = sample_identity [99], wl_fingerprints = [], wl_tokens = 0\<rparr>
       (Some 10) sample_state = Inr ((e, L'), st')"
    "we_items e = filter (\<lambda>t. \<not> already_emitted \<lparr>wl_identity = sample_identity [99], wl_fingerprints = [], wl_tokens = 0\<rparr> t)
       (ws_items sample_snapshot)"
    "map_sum id fst (emit (sample_identity [99]) L' (Some 50)
         (fold (wm_step ascii_tables zero_digest default_selector) sample_calls st')) = Inr
        (\<lparr>we_identity = sample_identity [99], we_revision = ws_revision sample_snapshot, we_items = [], we_tokens = 0,
          we_repeated = int (length (ws_items sample_snapshot))\<rparr>, L')" by auto
  have "we_items e = [sample_item]" using e(2) by (simp add: sample_snapshot_def already_emitted_def)
  moreover have "map_sum id (\<lambda>x. we_items (fst (fst x))) m = map_sum id (\<lambda>y. we_items (fst y)) (map_sum id fst m)"
    for m :: "exn + (wm_emission \<times> wm_ledger) \<times> wm_state" by (cases m) simp_all
  ultimately show ?thesis using e(1,3) by (intro exI conjI) (assumption | simp)+
qed

end
