(* ===== verification/Point_Store.thy ===== *)
theory Point_Store
  imports Tenancy_Durable
begin

text \<open>
  Computations over an external point store. The store is outside the program
  (\<^verbatim>\<open>cyberbrain/storage/base.py\<close> declares only its interface), so a component gets its calls
  as a record over an abstract state, with a view of that state as a map from ids to payloads.
  A call that raises keeps the state it has reached, so a failure between two writes is a run
  that stops there.
\<close>

subsection \<open>Computations over the store\<close>

type_synonym ('s, 'a) io = "'s \<Rightarrow> 'a result \<times> 's"

definition bindS :: "('s, 'a) io \<Rightarrow> ('a \<Rightarrow> ('s, 'b) io) \<Rightarrow> ('s, 'b) io" where
  "bindS m f s = (case m s of (Inl e, s') \<Rightarrow> (Inl e, s') | (Inr x, s') \<Rightarrow> f x s')"

definition returnS :: "'a \<Rightarrow> ('s, 'a) io" where
  "returnS x s = (Inr x, s)"

definition raiseS :: "exn \<Rightarrow> ('s, 'a) io" where
  "raiseS e s = (Inl e, s)"

definition liftS :: "'a result \<Rightarrow> ('s, 'a) io" where
  "liftS r s = (r, s)"

text \<open>A loop over a list: the first failure ends it and keeps the state reached.\<close>

primrec forS :: "('a \<Rightarrow> ('s, unit) io) \<Rightarrow> 'a list \<Rightarrow> ('s, unit) io" where
  "forS f [] = returnS ()"
| "forS f (x # xs) = bindS (f x) (\<lambda>_. forS f xs)"

type_synonym uid = ustr
text \<open>A \<^verbatim>\<open>datetime\<close>: an instant in microseconds, or a naive one without a timezone.\<close>

datatype timestamp = Aware int | Naive int

text \<open>A JSON object read as a dictionary.\<close>

type_synonym dict = "ustr \<rightharpoonup> json"

subsection \<open>JSON values as Python uses them\<close>

text \<open>\<^verbatim>\<open>isinstance(v, int | float)\<close> and \<^verbatim>\<open>float(v)\<close>; a \<^verbatim>\<open>bool\<close> is an \<^verbatim>\<open>int\<close>.\<close>

fun json_number :: "json \<Rightarrow> real option" where
  "json_number (JBool b) = Some (if b then 1 else 0)"
| "json_number (JInt i) = Some (of_int i)"
| "json_number (JReal x) = Some x"
| "json_number _ = None"

fun json_truthy :: "json \<Rightarrow> bool" where
  "json_truthy JNull = False"
| "json_truthy (JBool b) = b"
| "json_truthy (JInt i) = (i \<noteq> 0)"
| "json_truthy (JReal x) = (x \<noteq> 0)"
| "json_truthy (JStr s) = (s \<noteq> [])"
| "json_truthy (JArr xs) = (xs \<noteq> [])"
| "json_truthy (JObj kvs) = (kvs \<noteq> [])"

definition json_str :: "(json \<Rightarrow> ustr) \<Rightarrow> json \<Rightarrow> ustr" where
  "json_str py_str v = (case v of JStr s \<Rightarrow> s | _ \<Rightarrow> py_str v)"

text \<open>\<^verbatim>\<open>str(d.get(k) or "")\<close>.\<close>

definition text_or_empty :: "(json \<Rightarrow> ustr) \<Rightarrow> json option \<Rightarrow> ustr" where
  "text_or_empty py_str v = (case v of None \<Rightarrow> [] | Some j \<Rightarrow> if json_truthy j then json_str py_str j else [])"

text \<open>The identity values of a raw payload.\<close>

definition payload_scope :: "dict \<Rightarrow> identity_values" where
  "payload_scope p d = (case p (dimension_value d) of Some (JStr s) \<Rightarrow> Some s | _ \<Rightarrow> None)"

subsection \<open>Reasoning about runs\<close>

text \<open>
  \<open>yields pts m P Q\<close>: from a state that shows \<open>P\<close>, every outcome of \<open>m\<close>, a result or an
  error, and the points it leaves behind meet \<open>Q\<close>.
\<close>

definition yields :: "('s \<Rightarrow> 'v) \<Rightarrow> ('s, 'a) io \<Rightarrow> 'v \<Rightarrow> ('a result \<Rightarrow> 'v \<Rightarrow> bool) \<Rightarrow> bool" where
  "yields pts m P Q \<longleftrightarrow> (\<forall>s r s'. pts s = P \<longrightarrow> m s = (r, s') \<longrightarrow> Q r (pts s'))"

lemma yieldsD: "yields pts m (pts s) Q \<Longrightarrow> m s = (r, s') \<Longrightarrow> Q r (pts s')"
  by (simp add: yields_def)

lemma yields_mono: "yields pts m P Q \<Longrightarrow> (\<And>r P'. Q r P' \<Longrightarrow> Q' r P') \<Longrightarrow> yields pts m P Q'"
  by (simp add: yields_def)

lemma yields_bind:
  assumes "yields pts m P M" and "\<And>x P'. M (Inr x) P' \<Longrightarrow> yields pts (f x) P' Q" and "\<And>e P'. M (Inl e) P' \<Longrightarrow> Q (Inl e) P'"
  shows "yields pts (bindS m f) P Q"
  unfolding yields_def
proof (intro allI impI)
  fix s r s' assume s: "pts s = P" and run: "bindS m f s = (r, s')"
  obtain r1 s1 where m: "m s = (r1, s1)" by fastforce
  with assms(1) s have M: "M r1 (pts s1)" by (simp add: yields_def)
  show "Q r (pts s')"
  proof (cases r1)
    case (Inl e)
    with run m have "r = Inl e" "s' = s1" by (auto simp: bindS_def)
    with M Inl assms(3) show ?thesis by simp
  next
    case (Inr x)
    with run m have "f x s1 = (r, s')" by (simp add: bindS_def)
    with assms(2) M Inr show ?thesis by (simp add: yields_def)
  qed
qed

lemma yields_return: "Q (Inr x) P \<Longrightarrow> yields pts (returnS x) P Q"
  by (simp add: yields_def returnS_def)

lemma yields_raise: "Q (Inl e) P \<Longrightarrow> yields pts (raiseS e) P Q"
  by (simp add: yields_def raiseS_def)

lemma yields_lift: "Q r P \<Longrightarrow> yields pts (liftS r) P Q"
  by (simp add: yields_def liftS_def)

lemma bindS_Inr: "bindS m f s = (Inr y, s') \<longleftrightarrow> (\<exists>x s1. m s = (Inr x, s1) \<and> f x s1 = (Inr y, s'))"
  by (auto simp: bindS_def split: prod.splits sum.splits)

lemma bindS_liftS [simp]: "bindS (liftS (Inr x)) f = f x" "bindS (liftS (Inl e)) f = raiseS e"
  by (auto simp: bindS_def liftS_def raiseS_def fun_eq_iff)

lemma bindS_returnS [simp]: "bindS (returnS x) f = f x" "bindS (raiseS e) f = raiseS e"
  by (auto simp: bindS_def returnS_def raiseS_def fun_eq_iff)

lemma yields_lift_bind:
  assumes "\<And>x. r = Inr x \<Longrightarrow> yields pts (f x) P Q" and "\<And>e. r = Inl e \<Longrightarrow> Q (Inl e) P"
  shows "yields pts (bindS (liftS r) f) P Q"
  using assms by (cases r) (auto intro: yields_raise)

lemma liftS_Inr [simp]: "liftS m s = (r, s') \<longleftrightarrow> m = r \<and> s' = s"
  by (auto simp: liftS_def)

subsection \<open>A store of points\<close>

text \<open>
  The five calls of \<^verbatim>\<open>PointRepository\<close> for payloads \<open>'p\<close>, partial payloads \<open>'d\<close> and
  conditions \<open>'c\<close>. \<open>point_store_ok\<close> is what the code relies on: a write either happens or
  not, whatever it reports, and has happened when it reports success; a read leaves the
  points as they are and answers from them, and a filtered read returns points that meet the
  conditions, without repetition, no more than asked for, and all of them if fewer.
\<close>

record ('s, 'p, 'd, 'c) point_repository =
  pr_upsert :: "uid \<Rightarrow> real list \<Rightarrow> 'p \<Rightarrow> ('s, unit) io"
  pr_set_payload :: "uid \<Rightarrow> 'd \<Rightarrow> ('s, unit) io"
  pr_retrieve :: "uid \<Rightarrow> 'c list \<Rightarrow> ('s, (uid \<times> 'p) option) io"
  pr_search :: "real list \<Rightarrow> nat \<Rightarrow> 'c list \<Rightarrow> real option \<Rightarrow> ('s, (uid \<times> 'p) list) io"
  pr_scroll :: "'c list \<Rightarrow> nat \<Rightarrow> ('s, (uid \<times> 'p) list) io"

definition meets :: "('c \<Rightarrow> 'p \<Rightarrow> bool) \<Rightarrow> 'c list \<Rightarrow> (uid \<rightharpoonup> 'p) \<Rightarrow> (uid \<times> 'p) set" where
  "meets holds cs P = {(i, p). P i = Some p \<and> (\<forall>c \<in> set cs. holds c p)}"

definition read_ok :: "('s \<Rightarrow> uid \<rightharpoonup> 'p) \<Rightarrow> ('c \<Rightarrow> 'p \<Rightarrow> bool) \<Rightarrow> nat \<Rightarrow> 'c list \<Rightarrow> bool
    \<Rightarrow> ('s, (uid \<times> 'p) list) io \<Rightarrow> bool" where
  "read_ok pts holds n cs every m \<longleftrightarrow> (\<forall>s r s'. m s = (r, s') \<longrightarrow> pts s' = pts s
     \<and> (\<forall>xs. r = Inr xs \<longrightarrow> distinct (map fst xs) \<and> set xs \<subseteq> meets holds cs (pts s) \<and> length xs \<le> n
          \<and> (every \<and> length xs < n \<longrightarrow> set xs = meets holds cs (pts s))))"

definition upsert_ok :: "('s \<Rightarrow> uid \<rightharpoonup> 'p) \<Rightarrow> uid \<Rightarrow> 'p \<Rightarrow> ('s, unit) io \<Rightarrow> bool" where
  "upsert_ok pts i p m \<longleftrightarrow> (\<forall>s r s'. m s = (r, s') \<longrightarrow>
     pts s' = (pts s)(i \<mapsto> p) \<or> (r \<noteq> Inr () \<and> pts s' = pts s))"

definition set_payload_ok :: "('s \<Rightarrow> uid \<rightharpoonup> 'p) \<Rightarrow> ('d \<Rightarrow> 'p \<Rightarrow> 'p) \<Rightarrow> uid \<Rightarrow> 'd \<Rightarrow> ('s, unit) io \<Rightarrow> bool" where
  "set_payload_ok pts patch i d m \<longleftrightarrow> (\<forall>s r s'. m s = (r, s') \<longrightarrow>
     pts s' = (pts s)(i := map_option (patch d) (pts s i)) \<or> (r \<noteq> Inr () \<and> pts s' = pts s))"

definition retrieve_ok :: "('s \<Rightarrow> uid \<rightharpoonup> 'p) \<Rightarrow> ('c \<Rightarrow> 'p \<Rightarrow> bool) \<Rightarrow> uid \<Rightarrow> 'c list
    \<Rightarrow> ('s, (uid \<times> 'p) option) io \<Rightarrow> bool" where
  "retrieve_ok pts holds i cs m \<longleftrightarrow> (\<forall>s r s'. m s = (r, s') \<longrightarrow> pts s' = pts s
     \<and> (\<forall>x. r = Inr x \<longrightarrow> x = (case pts s i of None \<Rightarrow> None
          | Some p \<Rightarrow> if \<forall>c \<in> set cs. holds c p then Some (i, p) else None)))"

definition point_store_ok :: "('s, 'p, 'd, 'c) point_repository \<Rightarrow> ('s \<Rightarrow> uid \<rightharpoonup> 'p) \<Rightarrow> ('d \<Rightarrow> 'p \<Rightarrow> 'p)
    \<Rightarrow> ('c \<Rightarrow> 'p \<Rightarrow> bool) \<Rightarrow> bool" where
  "point_store_ok R pts patch holds \<longleftrightarrow>
     (\<forall>i v p. upsert_ok pts i p (pr_upsert R i v p))
   \<and> (\<forall>i d. set_payload_ok pts patch i d (pr_set_payload R i d))
   \<and> (\<forall>i cs. retrieve_ok pts holds i cs (pr_retrieve R i cs))
   \<and> (\<forall>v n cs t. read_ok pts holds n cs (t = None) (pr_search R v n cs t))
   \<and> (\<forall>n cs. read_ok pts holds n cs True (pr_scroll R cs n))"

lemma point_store_laws:
  assumes "point_store_ok R pts patch holds"
  shows upsert_law: "upsert_ok pts i p (pr_upsert R i v p)"
    and set_payload_law: "set_payload_ok pts patch i d (pr_set_payload R i d)"
    and retrieve_law: "retrieve_ok pts holds i cs (pr_retrieve R i cs)"
    and search_law: "read_ok pts holds n cs (t = None) (pr_search R v n cs t)"
    and scroll_law: "read_ok pts holds n cs True (pr_scroll R cs n)"
  using assms by (simp_all add: point_store_ok_def)

lemma yields_upserted:
  "upsert_ok pts i p m \<Longrightarrow> yields pts m P (\<lambda>r P'. P' = P(i \<mapsto> p) \<or> r \<noteq> Inr () \<and> P' = P)"
  by (auto simp: yields_def upsert_ok_def)

lemma yields_patched:
  "set_payload_ok pts patch i d m \<Longrightarrow>
     yields pts m P (\<lambda>r P'. P' = P(i := map_option (patch d) (P i)) \<or> r \<noteq> Inr () \<and> P' = P)"
  by (auto simp: yields_def set_payload_ok_def)

lemma yields_retrieved:
  "retrieve_ok pts holds i cs m \<Longrightarrow>
     yields pts m P (\<lambda>r P'. P' = P \<and> (\<forall>x. r = Inr x \<longrightarrow> x = (case P i of None \<Rightarrow> None
        | Some p \<Rightarrow> if \<forall>c \<in> set cs. holds c p then Some (i, p) else None)))"
  unfolding yields_def retrieve_ok_def by (intro allI impI, drule sym, hypsubst, blast)

lemma yields_listed:
  "read_ok pts holds n cs b m \<Longrightarrow>
     yields pts m P (\<lambda>r P'. P' = P \<and> (\<forall>xs. r = Inr xs \<longrightarrow> distinct (map fst xs)
        \<and> set xs \<subseteq> meets holds cs P \<and> length xs \<le> n \<and> (b \<and> length xs < n \<longrightarrow> set xs = meets holds cs P)))"
  unfolding yields_def read_ok_def by (intro allI impI, drule sym, hypsubst, blast)

subsection \<open>A store in memory\<close>

text \<open>An instance: an association list, newest first, that never fails.\<close>

definition listed_points :: "('c \<Rightarrow> 'p \<Rightarrow> bool) \<Rightarrow> 'c list \<Rightarrow> (uid \<times> 'p) list \<Rightarrow> (uid \<times> 'p) list" where
  "listed_points holds cs s =
     map (\<lambda>i. (i, the (map_of s i))) (filter (\<lambda>i. list_all (\<lambda>c. holds c (the (map_of s i))) cs) (remdups (map fst s)))"

definition in_memory_points :: "('d \<Rightarrow> 'p \<Rightarrow> 'p) \<Rightarrow> ('c \<Rightarrow> 'p \<Rightarrow> bool) \<Rightarrow> ((uid \<times> 'p) list, 'p, 'd, 'c) point_repository" where
  "in_memory_points patch holds =
     \<lparr>pr_upsert = (\<lambda>i v p s. (Inr (), (i, p) # s)),
      pr_set_payload = (\<lambda>i d s. (Inr (), case map_of s i of None \<Rightarrow> s | Some p \<Rightarrow> (i, patch d p) # s)),
      pr_retrieve = (\<lambda>i cs s. (Inr (case map_of s i of None \<Rightarrow> None
         | Some p \<Rightarrow> if list_all (\<lambda>c. holds c p) cs then Some (i, p) else None), s)),
      pr_search = (\<lambda>v n cs t s. (Inr (take n (listed_points holds cs s)), s)),
      pr_scroll = (\<lambda>cs n s. (Inr (take n (listed_points holds cs s)), s))\<rparr>"

lemma listed_points_set: "set (listed_points holds cs s) = meets holds cs (map_of s)"
  by (auto simp: listed_points_def meets_def list_all_iff image_iff weak_map_of_SomeI
      dest: map_of_SomeD) (force dest: map_of_SomeD)+

lemma listed_points_fst: "map fst (listed_points holds cs s)
    = filter (\<lambda>i. list_all (\<lambda>c. holds c (the (map_of s i))) cs) (remdups (map fst s))"
  by (simp add: listed_points_def comp_def)

lemma in_memory_read: "read_ok map_of holds n cs b (\<lambda>s. (Inr (take n (listed_points holds cs s)), s))"
  unfolding read_ok_def
proof (intro allI impI)
  fix s r s' assume "(Inr (take n (listed_points holds cs s)), s) = (r, s')"
  then have r: "r = Inr (take n (listed_points holds cs s))" and s': "s' = s" by auto
  have d: "distinct (map fst (listed_points holds cs s))" by (simp add: listed_points_fst)
  show "map_of s' = map_of s \<and> (\<forall>xs. r = Inr xs \<longrightarrow> distinct (map fst xs) \<and> set xs \<subseteq> meets holds cs (map_of s)
      \<and> length xs \<le> n \<and> (b \<and> length xs < n \<longrightarrow> set xs = meets holds cs (map_of s)))"
    using r s' d listed_points_set [of holds cs s] set_take_subset [of n "listed_points holds cs s"]
    by (auto simp: take_map [symmetric] distinct_take)
qed

lemma in_memory_points_ok: "point_store_ok (in_memory_points patch holds) map_of patch holds"
  unfolding point_store_ok_def in_memory_points_def
  by (auto simp: in_memory_read upsert_ok_def set_payload_ok_def retrieve_ok_def list_all_iff fun_eq_iff
      split: option.splits)

end
