(* ===== verification/Content.thy ===== *)
theory Content
  imports Prelude
begin

text \<open>
  The text of a record, \<^verbatim>\<open>cyberbrain/core/content.py\<close>: how content is normalized before
  it is scanned, hashed and embedded. SHA-256 is a parameter.
\<close>

text \<open>\<^verbatim>\<open>core/content.py\<close>: line ends become newlines, then surrounding space is dropped.\<close>

fun unix_newlines :: "ustr \<Rightarrow> ustr" where
  "unix_newlines [] = []"
| "unix_newlines [c] = [if c = 13 then 10 else c]"
| "unix_newlines (c # d # cs) =
     (if c = 13 \<and> d = 10 then 10 # unix_newlines cs
      else (if c = 13 then 10 else c) # unix_newlines (d # cs))"

definition normalize_content :: "ustr \<Rightarrow> ustr result" where
  "normalize_content content =
     (let normalized = py_strip (unix_newlines content) in
      if normalized = [] then Inl (ValueError (lit ''content must not be empty'')) else Inr normalized)"

definition content_hash :: "(ustr \<Rightarrow> ustr) \<Rightarrow> ustr \<Rightarrow> ustr result" where
  "content_hash sha content = bindE (normalize_content content) (\<lambda>n. Inr (sha n))"

lemma unix_newlines_no_cr: "13 \<notin> set (unix_newlines s)"
  by (induction s rule: unix_newlines.induct) auto

lemma unix_newlines_id: "13 \<notin> set s \<Longrightarrow> unix_newlines s = s"
  by (induction s rule: unix_newlines.induct) auto

lemma normalize_content_idem: "normalize_content c = Inr n \<Longrightarrow> normalize_content n = Inr n"
proof -
  assume n: "normalize_content c = Inr n"
  then have eq: "n = py_strip (unix_newlines c)" "n \<noteq> []" by (auto simp: normalize_content_def Let_def split: if_splits)
  have "13 \<notin> set n" using unix_newlines_no_cr [of c] set_py_strip [of "unix_newlines c"] eq(1) by auto
  then have "unix_newlines n = n" by (rule unix_newlines_id)
  then show ?thesis using eq by (simp add: normalize_content_def py_strip_idem)
qed

end
