(* ===== verification/Knowledge_Evolution.thy ===== *)
theory Knowledge_Evolution
  imports Point_Store Content
begin

text \<open>
  Canonical Knowledge and its staged evolution, \<^verbatim>\<open>cyberbrain/knowledge/evolution.py\<close>
  (with \<^verbatim>\<open>core/content.py\<close> and the \<^verbatim>\<open>KnowledgeRecord\<close> of \<^verbatim>\<open>schemas/models.py\<close>). The
  point store is outside the program: it is a record of five calls over an abstract state, and
  \<open>repository_ok\<close> states what the code relies on. A call that raises keeps the state it has
  reached, so a failure between two writes is a run that stops there. The clock, the id that
  \<^verbatim>\<open>uuid4\<close> draws, the embedding, the secret scanner, SHA-256 and the relation component
  are parameters; the locks are not modelled: one service call runs at a time.
\<close>

subsection \<open>Records and payloads\<close>

datatype knowledge_status = K_ACTIVE | K_SUPERSEDED | K_DEPRECATED | K_REJECTED

fun status_value :: "knowledge_status \<Rightarrow> ustr" where
  "status_value K_ACTIVE = lit ''active''"
| "status_value K_SUPERSEDED = lit ''superseded''"
| "status_value K_DEPRECATED = lit ''deprecated''"
| "status_value K_REJECTED = lit ''rejected''"

datatype record_class = CLASS_KNOWLEDGE | CLASS_HYPOTHESIS | CLASS_QUARANTINE

fun class_value :: "record_class \<Rightarrow> ustr" where
  "class_value CLASS_KNOWLEDGE = lit ''knowledge''"
| "class_value CLASS_HYPOTHESIS = lit ''self_model_hypothesis''"
| "class_value CLASS_QUARANTINE = lit ''migration_quarantine''"

text \<open>The fields a store call passes through to the record.\<close>

record knowledge_meta =
  km_summary :: "ustr option"
  km_identity_trust :: ustr
  km_ordinary_recall :: bool
  km_retention :: ustr
  km_change_reason :: "ustr option"
  km_importance :: "ustr option"
  km_verification :: ustr
  km_confidence :: "real option"
  km_provenance :: "ustr option"
  km_source :: "ustr option"
  km_evidence :: "uid list"
  km_origin :: ustr
  km_dream_run :: "ustr option"
  km_negative :: bool

text \<open>
  A stored payload, with \<open>None\<close> for a key that is missing (or null where the code does not
  tell them apart). Dictionaries are maps, so equality does not depend on the order of keys.
\<close>

record knowledge_payload =
  kp_content :: ustr
  kp_domain :: "ustr option"
  kp_topic :: "ustr option"
  kp_entity_type :: "ustr option"
  kp_entity_name :: "ustr option"
  kp_context :: "dict option"
  kp_scope :: identity_values
  kp_class :: "ustr option"
  kp_status :: "knowledge_status option"
  kp_supersedes :: "uid option"
  kp_superseded_by :: "uid option"
  kp_version :: "int option"
  kp_hash :: "ustr option"
  kp_embedding_version :: "ustr option"
  kp_extensions :: dict
  kp_created :: int
  kp_updated :: int
  kp_meta :: knowledge_meta

text \<open>What \<^verbatim>\<open>KnowledgeRecord.model_validate\<close> refuses of such a payload.\<close>

definition validate_knowledge :: "knowledge_payload \<Rightarrow> knowledge_payload result" where
  "validate_knowledge p =
     (if kp_domain p = None \<or> kp_topic p = None \<or> kp_entity_type p = None \<or> kp_entity_name p = None \<or> kp_hash p = None
      then Inl (ValueError (lit ''field required''))
      else if (case kp_version p of None \<Rightarrow> False | Some v \<Rightarrow> v < 1)
      then Inl (ValueError (lit ''version must be >= 1''))
      else if (case km_confidence (kp_meta p) of None \<Rightarrow> False | Some c \<Rightarrow> c < 0 \<or> 1 < c)
      then Inl (ValueError (lit ''confidence''))
      else Inr p)"

subsection \<open>The point store\<close>

datatype knowledge_field =
    F_DOMAIN | F_TOPIC | F_ENTITY_TYPE | F_ENTITY_NAME | F_STATUS | F_EVOLUTION_STATE
  | F_SCOPE identity_dimension | F_CLASS

datatype knowledge_condition =
    Match knowledge_field ustr
  | IsEmpty knowledge_field
  | Should "knowledge_condition list"

definition evolution_state_key :: ustr where
  "evolution_state_key = lit ''_evolution_state''"

definition evolution_previous_key :: ustr where
  "evolution_previous_key = lit ''_evolution_previous_id''"

definition pending_activation :: ustr where
  "pending_activation = lit ''pending_activation''"

definition committed_state :: ustr where
  "committed_state = lit ''committed''"

fun json_text :: "json \<Rightarrow> ustr option" where
  "json_text (JStr s) = Some s"
| "json_text _ = None"

definition pending_state :: "knowledge_payload \<Rightarrow> ustr option" where
  "pending_state p = Option.bind (kp_extensions p evolution_state_key) json_text"

fun field_text :: "knowledge_field \<Rightarrow> knowledge_payload \<Rightarrow> ustr option" where
  "field_text F_DOMAIN p = kp_domain p"
| "field_text F_TOPIC p = kp_topic p"
| "field_text F_ENTITY_TYPE p = kp_entity_type p"
| "field_text F_ENTITY_NAME p = kp_entity_name p"
| "field_text F_STATUS p = map_option status_value (kp_status p)"
| "field_text F_EVOLUTION_STATE p = pending_state p"
| "field_text (F_SCOPE d) p = kp_scope p d"
| "field_text F_CLASS p = kp_class p"

fun condition_holds :: "knowledge_condition \<Rightarrow> knowledge_payload \<Rightarrow> bool" where
  "condition_holds (Match f v) p = (field_text f p = Some v)"
| "condition_holds (IsEmpty f) p = (field_text f p = None)"
| "condition_holds (Should cs) p = list_ex (\<lambda>c. condition_holds c p) cs"

text \<open>The partial payload of a \<^verbatim>\<open>set_payload\<close>: it replaces the keys it names.\<close>

record knowledge_patch =
  pt_status :: knowledge_status
  pt_superseded_by :: "uid option"
  pt_extensions :: "dict option"
  pt_updated :: int

definition apply_patch :: "knowledge_patch \<Rightarrow> knowledge_payload \<Rightarrow> knowledge_payload" where
  "apply_patch d p = p\<lparr>kp_status := Some (pt_status d),
     kp_superseded_by := (case pt_superseded_by d of None \<Rightarrow> kp_superseded_by p | Some i \<Rightarrow> Some i),
     kp_extensions := the_default (kp_extensions p) (pt_extensions d), kp_updated := pt_updated d\<rparr>"

record 's repository =
  rp_upsert :: "uid \<Rightarrow> real list \<Rightarrow> knowledge_payload \<Rightarrow> ('s, unit) io"
  rp_set_payload :: "uid \<Rightarrow> knowledge_patch \<Rightarrow> ('s, unit) io"
  rp_retrieve :: "uid \<Rightarrow> ('s, (uid \<times> knowledge_payload) option) io"
  rp_search :: "real list \<Rightarrow> nat \<Rightarrow> knowledge_condition list \<Rightarrow> ('s, (uid \<times> knowledge_payload) list) io"
  rp_scroll :: "nat \<Rightarrow> knowledge_condition list \<Rightarrow> ('s, (uid \<times> knowledge_payload) list) io"

text \<open>
  What is relied on, for a view of the state as a map from ids to payloads. A write either
  happens or not, whatever it reports, and has happened when it reports success. A filtered
  read returns points of the store that meet the conditions, without repetition and no more
  than asked for; fewer than asked for only if these are all.
\<close>

definition matching :: "knowledge_condition list \<Rightarrow> (uid \<rightharpoonup> knowledge_payload) \<Rightarrow> (uid \<times> knowledge_payload) set" where
  "matching cs P = {(i, p). P i = Some p \<and> list_all (\<lambda>c. condition_holds c p) cs}"

definition filtered_read_ok :: "('s \<Rightarrow> uid \<rightharpoonup> knowledge_payload) \<Rightarrow> nat \<Rightarrow> knowledge_condition list
    \<Rightarrow> ('s, (uid \<times> knowledge_payload) list) io \<Rightarrow> bool" where
  "filtered_read_ok pts limit cs m \<longleftrightarrow> (\<forall>s r s'. m s = (r, s') \<longrightarrow> pts s' = pts s
     \<and> (\<forall>xs. r = Inr xs \<longrightarrow> distinct (map fst xs) \<and> set xs \<subseteq> matching cs (pts s) \<and> length xs \<le> limit
          \<and> (length xs < limit \<longrightarrow> set xs = matching cs (pts s))))"

definition repository_ok :: "'s repository \<Rightarrow> ('s \<Rightarrow> uid \<rightharpoonup> knowledge_payload) \<Rightarrow> bool" where
  "repository_ok R pts \<longleftrightarrow>
     (\<forall>i v p s r s'. rp_upsert R i v p s = (r, s') \<longrightarrow>
        pts s' = (pts s)(i \<mapsto> p) \<or> (r \<noteq> Inr () \<and> pts s' = pts s))
   \<and> (\<forall>i d s r s'. rp_set_payload R i d s = (r, s') \<longrightarrow>
        pts s' = (pts s)(i := map_option (apply_patch d) (pts s i)) \<or> (r \<noteq> Inr () \<and> pts s' = pts s))
   \<and> (\<forall>i s r s'. rp_retrieve R i s = (r, s') \<longrightarrow> pts s' = pts s
        \<and> (\<forall>x. r = Inr x \<longrightarrow> x = map_option (Pair i) (pts s i)))
   \<and> (\<forall>v n cs. filtered_read_ok pts n cs (rp_search R v n cs))
   \<and> (\<forall>n cs. filtered_read_ok pts n cs (rp_scroll R n cs))"

subsection \<open>Entities\<close>

text \<open>The canonical entity of a record: labels, context, identity fields and record class.\<close>

record entity =
  en_domain :: ustr
  en_topic :: ustr
  en_type :: ustr
  en_name :: ustr
  en_context :: dict
  en_scope :: identity_values
  en_class :: ustr

definition knowledge_class :: ustr where
  "knowledge_class = lit ''knowledge''"

definition same_partition :: "knowledge_payload \<Rightarrow> entity \<Rightarrow> bool" where
  "same_partition p k \<longleftrightarrow> list_all (\<lambda>d. kp_scope p d = en_scope k d) dimension_order
     \<and> the_default knowledge_class (kp_class p) = en_class k"

definition partition_conditions :: "entity \<Rightarrow> knowledge_condition list" where
  "partition_conditions k =
     map (\<lambda>d. case en_scope k d of Some v \<Rightarrow> Match (F_SCOPE d) v | None \<Rightarrow> IsEmpty (F_SCOPE d)) dimension_order
     @ [if en_class k = knowledge_class then Should [Match F_CLASS (en_class k), IsEmpty F_CLASS]
        else Match F_CLASS (en_class k)]"

definition label_conditions :: "entity \<Rightarrow> knowledge_condition list" where
  "label_conditions k = [Match F_DOMAIN (en_domain k), Match F_TOPIC (en_topic k),
     Match F_ENTITY_TYPE (en_type k), Match F_ENTITY_NAME (en_name k)]"

definition active_filter :: "entity \<Rightarrow> knowledge_condition list" where
  "active_filter k = label_conditions k @ [Match F_STATUS (status_value K_ACTIVE)] @ partition_conditions k"

definition pending_filter :: "entity \<Rightarrow> knowledge_condition list" where
  "pending_filter k = label_conditions k @ [Match F_STATUS (status_value K_DEPRECATED),
     Match F_EVOLUTION_STATE pending_activation] @ partition_conditions k"

definition same_context :: "knowledge_payload \<Rightarrow> entity \<Rightarrow> bool" where
  "same_context p k \<longleftrightarrow> the_default Map.empty (kp_context p) = en_context k"

subsection \<open>The service\<close>

datatype evolution_outcome = INSERT_NEW | NO_CHANGE | EVOLVE

record evolution_result =
  er_outcome :: evolution_outcome
  er_id :: uid
  er_record :: knowledge_payload
  er_previous :: "uid option"

datatype relation_status = R_PROPOSED | R_ACCEPTED | R_REJECTED

text \<open>Of the relation component: a bundle's edge states and digest, and the calls made to it.\<close>

record relation_bundle =
  rb_edges :: "relation_status list"
  rb_digest :: ustr

record 's relation_ops =
  rl_key :: "entity \<Rightarrow> ustr result"
  rl_payload_key :: "knowledge_payload \<Rightarrow> ustr result"
  rl_admit :: "entity \<Rightarrow> json \<Rightarrow> ('s, relation_bundle) io"
  rl_dump :: "relation_bundle \<Rightarrow> json"
  rl_bundle :: "dict \<Rightarrow> relation_bundle result"
  rl_project :: "entity \<Rightarrow> dict \<Rightarrow> json result"

record 's evolution_service =
  sv_repository :: "'s repository"
  sv_embed :: "ustr \<Rightarrow> real list result"
  sv_embedding_version :: ustr
  sv_assert_safe :: "ustr option list \<Rightarrow> unit result"
  sv_sha :: "ustr \<Rightarrow> ustr"
  sv_repr :: "dict \<Rightarrow> ustr"
  sv_identity_repr :: "identity_values \<Rightarrow> ustr \<Rightarrow> ustr"
  sv_lower :: "ustr \<Rightarrow> ustr"
  sv_parse_uuid :: "ustr \<Rightarrow> uid result"
  sv_relations :: "'s relation_ops"

definition relations_key :: ustr where
  "relations_key = lit ''relations''"

definition index_key :: ustr where
  "index_key = lit ''_relation_index''"

definition require_review_authority :: "caller_authority option \<Rightarrow> unit result" where
  "require_review_authority ctx =
     (if (case ctx of None \<Rightarrow> True | Some c \<Rightarrow> ADMIN_REVIEW |\<notin>| gr_operations (ca_grant c))
      then Inl (ConfigurationError (lit ''relation review requires authenticated admin_review authority''))
      else Inr ())"

definition staging_extensions :: "dict \<Rightarrow> uid option \<Rightarrow> dict" where
  "staging_extensions ext previous =
     (case previous of None \<Rightarrow> ext
      | Some q \<Rightarrow> ext(evolution_state_key \<mapsto> JStr pending_activation, evolution_previous_key \<mapsto> JStr q))"

definition committed_extensions :: "dict \<Rightarrow> dict" where
  "committed_extensions ext = (ext(evolution_state_key \<mapsto> JStr committed_state))(evolution_previous_key := None)"

definition activate_staged :: "'s evolution_service \<Rightarrow> int \<Rightarrow> uid \<Rightarrow> knowledge_payload \<Rightarrow> ('s, unit) io" where
  "activate_staged V now staged_id payload =
     rp_set_payload (sv_repository V) staged_id \<lparr>pt_status = K_ACTIVE, pt_superseded_by = None,
       pt_extensions = Some (committed_extensions (kp_extensions payload)), pt_updated = now\<rparr>"

definition supersede :: "'s evolution_service \<Rightarrow> int \<Rightarrow> uid \<Rightarrow> uid \<Rightarrow> ('s, unit) io" where
  "supersede V now previous_id staged_id =
     rp_set_payload (sv_repository V) previous_id \<lparr>pt_status = K_SUPERSEDED, pt_superseded_by = Some staged_id,
       pt_extensions = None, pt_updated = now\<rparr>"

text \<open>\<^verbatim>\<open>previous_next not in (None, "", str(staged_id))\<close>.\<close>

definition foreign_successor :: "uid \<Rightarrow> uid option \<Rightarrow> bool" where
  "foreign_successor staged_id n \<longleftrightarrow> n \<noteq> None \<and> n \<noteq> Some [] \<and> n \<noteq> Some staged_id"

definition previous_reference :: "dict \<Rightarrow> ustr option" where
  "previous_reference ext = (case Option.bind (ext evolution_previous_key) json_text of
     None \<Rightarrow> None | Some v \<Rightarrow> if v = [] then None else Some v)"

text \<open>The recovery of the one pending point, once found.\<close>

definition recover_point :: "'s evolution_service \<Rightarrow> int \<Rightarrow> entity \<Rightarrow> uid \<Rightarrow> knowledge_payload \<Rightarrow> ('s, unit) io" where
  "recover_point V now k staged_id payload =
     (case previous_reference (kp_extensions payload) of
        None \<Rightarrow> raiseS (ConflictError (lit ''pending evolution is missing previous knowledge id''))
      | Some raw \<Rightarrow>
          bindS (liftS (sv_parse_uuid V raw)) (\<lambda>previous_id.
          bindS (rp_retrieve (sv_repository V) previous_id) (\<lambda>previous.
          case previous of
            None \<Rightarrow> raiseS (ConflictError (lit ''pending evolution previous knowledge record is missing''))
          | Some (_, q) \<Rightarrow>
              if \<not> same_partition q k
              then raiseS (ConflictError (lit ''pending evolution predecessor scope differs''))
              else if kp_status q = Some K_ACTIVE
              then if foreign_successor staged_id (kp_superseded_by q)
                   then raiseS (ConflictError (lit ''active previous record points to a different successor''))
                   else bindS (supersede V now previous_id staged_id) (\<lambda>_. activate_staged V now staged_id payload)
              else if \<not> (kp_status q = Some K_SUPERSEDED \<and> kp_superseded_by q = Some staged_id)
              then raiseS (ConflictError (lit ''pending evolution previous record is in an inconsistent state''))
              else activate_staged V now staged_id payload)))"

definition recover_pending :: "'s evolution_service \<Rightarrow> int \<Rightarrow> entity \<Rightarrow> ('s, unit) io" where
  "recover_pending V now k =
     bindS (rp_scroll (sv_repository V) 20 (pending_filter k)) (\<lambda>points.
       case filter (\<lambda>(i, p). same_context p k \<and> pending_state p = Some pending_activation \<and> same_partition p k) points of
         [] \<Rightarrow> returnS ()
       | [(staged_id, payload)] \<Rightarrow> recover_point V now k staged_id payload
       | _ \<Rightarrow> raiseS (ConflictError (lit ''multiple pending evolutions exist for canonical entity identity'')))"

text \<open>The lock key of an entity; equal keys count as the same entity in a reconciliation.\<close>

definition entity_key :: "'s evolution_service \<Rightarrow> entity \<Rightarrow> ustr" where
  "entity_key V k = sv_lower V (py_strip (en_domain k)) @ lit ''|'' @ sv_lower V (py_strip (en_topic k)) @ lit ''|''
     @ sv_lower V (py_strip (en_type k)) @ lit ''|'' @ sv_lower V (py_strip (en_name k)) @ lit ''|''
     @ sv_repr V (en_context k) @ lit ''|'' @ sv_identity_repr V (en_scope k) (en_class k)"

definition payload_entity :: "knowledge_payload \<Rightarrow> entity" where
  "payload_entity p = \<lparr>en_domain = py_strip (the_default [] (kp_domain p)), en_topic = py_strip (the_default [] (kp_topic p)),
     en_type = py_strip (the_default [] (kp_entity_type p)), en_name = py_strip (the_default [] (kp_entity_name p)),
     en_context = the_default Map.empty (kp_context p), en_scope = kp_scope p,
     en_class = the_default knowledge_class (kp_class p)\<rparr>"

fun pending_entities :: "'s evolution_service \<Rightarrow> ustr list \<Rightarrow> knowledge_payload list \<Rightarrow> entity list result" where
  "pending_entities V seen [] = Inr []"
| "pending_entities V seen (p # ps) =
     (let k = payload_entity p in
      if en_domain k = [] \<or> en_topic k = [] \<or> en_type k = [] \<or> en_name k = []
      then Inl (ConflictError (lit ''pending evolution is missing canonical identity fields''))
      else if entity_key V k \<in> set seen
      then Inl (ConflictError (lit ''multiple pending evolutions exist for canonical entity identity''))
      else bindE (pending_entities V (entity_key V k # seen) ps) (\<lambda>ks. Inr (k # ks)))"

fun recover_all :: "'s evolution_service \<Rightarrow> int \<Rightarrow> entity list \<Rightarrow> ('s, unit) io" where
  "recover_all V now [] = returnS ()"
| "recover_all V now (k # ks) = bindS (recover_pending V now k) (\<lambda>_. recover_all V now ks)"

definition reconcile_pending :: "'s evolution_service \<Rightarrow> caller_authority option \<Rightarrow> int \<Rightarrow> int \<Rightarrow> ('s, int) io" where
  "reconcile_pending V ctx now max_pending =
     (if (case ctx of None \<Rightarrow> False | Some c \<Rightarrow> list_ex (\<lambda>d. scope_values (gr_scope (ca_grant c)) d \<noteq> {||}) dimension_order)
      then raiseS (ConfigurationError (lit ''global reconciliation is unavailable to scoped callers''))
      else if max_pending < 1 then raiseS (ValueError (lit ''max_pending must be >= 1''))
      else bindS (rp_scroll (sv_repository V) (nat (max_pending + 1))
             [Match F_STATUS (status_value K_DEPRECATED), Match F_EVOLUTION_STATE pending_activation]) (\<lambda>points.
           let pending = filter (\<lambda>p. kp_status p = Some K_DEPRECATED \<and> pending_state p = Some pending_activation) (map snd points)
           in if max_pending < int (length pending)
              then raiseS (ConflictError (lit ''pending evolution reconciliation limit exceeded''))
              else bindS (liftS (pending_entities V [] pending)) (\<lambda>ks.
                   bindS (recover_all V now ks) (\<lambda>_. returnS (int (length ks))))))"

definition commit_staged :: "'s evolution_service \<Rightarrow> int \<Rightarrow> uid \<Rightarrow> knowledge_payload \<Rightarrow> uid \<Rightarrow> knowledge_payload
    \<Rightarrow> ('s, unit) io" where
  "commit_staged V now staged_id staged previous_id previous =
     (if foreign_successor staged_id (kp_superseded_by previous)
      then raiseS (ConflictError (lit ''previous knowledge already points to a different successor''))
      else bindS (supersede V now previous_id staged_id) (\<lambda>_. activate_staged V now staged_id staged))"

subsection \<open>Storing\<close>

record store_request =
  rq_content :: ustr
  rq_domain :: ustr
  rq_topic :: ustr
  rq_type :: ustr
  rq_name :: ustr
  rq_scope :: identity_values
  rq_class :: record_class
  rq_context :: "dict option"
  rq_extensions :: "dict option"
  rq_force :: bool
  rq_expected :: "uid option"
  rq_meta :: knowledge_meta

definition entity_of :: "store_request \<Rightarrow> identity_values \<Rightarrow> entity" where
  "entity_of q scope = \<lparr>en_domain = rq_domain q, en_topic = rq_topic q, en_type = rq_type q, en_name = rq_name q,
     en_context = the_default Map.empty (rq_context q), en_scope = scope, en_class = class_value (rq_class q)\<rparr>"

text \<open>The explicit relations of a request, admitted, and the extensions with their canonical form.\<close>

definition admit_request :: "'s evolution_service \<Rightarrow> store_request \<Rightarrow> entity
    \<Rightarrow> ('s, (relation_bundle \<times> ustr) option \<times> dict) io" where
  "admit_request V q k =
     (let ext = the_default Map.empty (rq_extensions q) in
      if index_key \<in> dom ext then raiseS (ConfigurationError (lit ''relation index is server-owned''))
      else case ext relations_key of
          None \<Rightarrow> returnS (None, ext)
        | Some raw \<Rightarrow>
            if rq_class q \<noteq> CLASS_KNOWLEDGE
            then raiseS (ConfigurationError (lit ''relations require canonical Knowledge''))
            else case rl_key (sv_relations V) k of
                Inl _ \<Rightarrow> raiseS (ConfigurationError (lit ''invalid relation source identity''))
              | Inr key \<Rightarrow> bindS (rl_admit (sv_relations V) k raw) (\<lambda>b.
                  returnS (Some (b, key), ext(relations_key \<mapsto> rl_dump (sv_relations V) b))))"

text \<open>Whether the store changes relations, after the checks on the previous version's.\<close>

definition relations_changed :: "'s evolution_service \<Rightarrow> caller_authority option \<Rightarrow> (relation_bundle \<times> ustr) option
    \<Rightarrow> bool \<Rightarrow> bool \<Rightarrow> (uid \<times> knowledge_payload) option \<Rightarrow> bool result" where
  "relations_changed V ctx bundle same_content force previous =
     bindE (rl_bundle (sv_relations V) (case previous of None \<Rightarrow> Map.empty | Some (_, p) \<Rightarrow> kp_extensions p)) (\<lambda>old.
     bindE (case (bundle, previous) of
         (Some (b, key), Some (_, p)) \<Rightarrow>
           if rb_edges old = [] then Inr ()
           else bindE (rl_payload_key (sv_relations V) p) (\<lambda>old_key.
             if old_key = key then Inr ()
             else Inl (ConflictError (lit ''relation entity context changed; explicit migration required'')))
       | _ \<Rightarrow> Inr ()) (\<lambda>_.
       let changed = (case bundle of Some (b, _) \<Rightarrow> rb_digest b \<noteq> rb_digest old
                      | None \<Rightarrow> (\<not> same_content \<or> force) \<and> rb_edges old \<noteq> [])
       in if changed \<and> list_ex (\<lambda>e. e \<noteq> R_PROPOSED) (rb_edges old)
          then bindE (require_review_authority ctx) (\<lambda>_. Inr changed)
          else Inr changed))"

definition build_record :: "'s evolution_service \<Rightarrow> int \<Rightarrow> store_request \<Rightarrow> entity \<Rightarrow> ustr \<Rightarrow> ustr \<Rightarrow> dict
    \<Rightarrow> (uid \<times> knowledge_payload) option \<Rightarrow> knowledge_payload" where
  "build_record V now q k normalized digest base_ext previous =
     \<lparr>kp_content = normalized, kp_domain = Some (en_domain k), kp_topic = Some (en_topic k),
      kp_entity_type = Some (en_type k), kp_entity_name = Some (en_name k), kp_context = Some (en_context k),
      kp_scope = en_scope k, kp_class = Some (en_class k),
      kp_status = Some (if previous \<noteq> None then K_DEPRECATED else K_ACTIVE),
      kp_supersedes = map_option fst previous, kp_superseded_by = None,
      kp_version = Some (case previous of None \<Rightarrow> 1 | Some (_, p) \<Rightarrow> the_default 0 (kp_version p) + 1),
      kp_hash = Some digest, kp_embedding_version = Some (sv_embedding_version V),
      kp_extensions = staging_extensions base_ext (map_option fst previous),
      kp_created = now, kp_updated = now, kp_meta = rq_meta q\<rparr>"

text \<open>Writing a built record: embed it, stage it, and commit it over the previous version.\<close>

definition stage_version :: "'s evolution_service \<Rightarrow> int \<Rightarrow> uid \<Rightarrow> ustr \<Rightarrow> dict \<Rightarrow> (uid \<times> knowledge_payload) option
    \<Rightarrow> knowledge_payload \<Rightarrow> ('s, evolution_result) io" where
  "stage_version V now new_id normalized base_ext previous staged =
     bindS (liftS (sv_embed V normalized)) (\<lambda>vector.
     bindS (rp_upsert (sv_repository V) new_id vector staged) (\<lambda>_.
     case previous of
       None \<Rightarrow> returnS \<lparr>er_outcome = INSERT_NEW, er_id = new_id, er_record = staged, er_previous = None\<rparr>
     | Some (previous_id, p) \<Rightarrow>
         bindS (commit_staged V now new_id staged previous_id p) (\<lambda>_.
           returnS \<lparr>er_outcome = EVOLVE, er_id = new_id,
             er_record = staged\<lparr>kp_status := Some K_ACTIVE, kp_extensions := committed_extensions base_ext, kp_updated := now\<rparr>,
             er_previous = Some previous_id\<rparr>)))"

text \<open>From the decision to write on: the index, the record, and its writing.\<close>

definition write_version :: "'s evolution_service \<Rightarrow> int \<Rightarrow> uid \<Rightarrow> store_request \<Rightarrow> entity \<Rightarrow> ustr \<Rightarrow> ustr \<Rightarrow> dict
    \<Rightarrow> (uid \<times> knowledge_payload) option \<Rightarrow> ('s, evolution_result) io" where
  "write_version V now new_id q k normalized digest ext previous =
     bindS (if en_class k = knowledge_class
            then liftS (bindE (rl_project (sv_relations V) k ext) (\<lambda>index. Inr (ext(index_key \<mapsto> index))))
            else returnS ext) (\<lambda>base_ext.
     bindS (liftS (validate_knowledge (build_record V now q k normalized digest base_ext previous))) (\<lambda>staged.
       stage_version V now new_id normalized base_ext previous staged))"

text \<open>The decision, given the active points of exactly this entity.\<close>

definition decide_version :: "'s evolution_service \<Rightarrow> caller_authority option \<Rightarrow> int \<Rightarrow> uid \<Rightarrow> store_request \<Rightarrow> entity
    \<Rightarrow> ustr \<Rightarrow> ustr \<Rightarrow> (relation_bundle \<times> ustr) option \<Rightarrow> dict \<Rightarrow> (uid \<times> knowledge_payload) list \<Rightarrow> ('s, evolution_result) io" where
  "decide_version V ctx now new_id q k normalized digest bundle ext exact =
     (if 1 < length exact
      then raiseS (ConflictError (lit ''multiple active versions exist for canonical entity identity''))
      else let previous = (case exact of [] \<Rightarrow> None | x # _ \<Rightarrow> Some x);
               same_content = (case previous of None \<Rightarrow> False | Some (_, p) \<Rightarrow> kp_hash p = Some digest)
           in if rq_expected q \<noteq> None \<and> map_option fst previous \<noteq> rq_expected q
              then raiseS (ConflictError (lit ''Knowledge source version changed; reload before review''))
              else bindS (liftS (relations_changed V ctx bundle same_content (rq_force q) previous)) (\<lambda>changed.
                case previous of
                  Some (i, p) \<Rightarrow>
                    if same_content \<and> \<not> changed \<and> \<not> rq_force q
                    then bindS (liftS (validate_knowledge p)) (\<lambda>v.
                      returnS \<lparr>er_outcome = NO_CHANGE, er_id = i, er_record = v, er_previous = Some i\<rparr>)
                    else write_version V now new_id q k normalized digest ext previous
                | None \<Rightarrow> write_version V now new_id q k normalized digest ext previous))"

text \<open>What happens under the locks: recovery, lookup and the decision.\<close>

definition store_entity :: "'s evolution_service \<Rightarrow> caller_authority option \<Rightarrow> int \<Rightarrow> uid \<Rightarrow> store_request \<Rightarrow> entity
    \<Rightarrow> ustr \<Rightarrow> ustr \<Rightarrow> (relation_bundle \<times> ustr) option \<Rightarrow> dict \<Rightarrow> ('s, evolution_result) io" where
  "store_entity V ctx now new_id q k normalized digest bundle ext =
     bindS (recover_pending V now k) (\<lambda>_.
     bindS (liftS (sv_embed V (rq_topic q @ lit '' '' @ rq_name q))) (\<lambda>lookup.
     bindS (rp_search (sv_repository V) lookup 10 (active_filter k)) (\<lambda>active.
       decide_version V ctx now new_id q k normalized digest bundle ext
         (filter (\<lambda>(i, p). same_context p k \<and> same_partition p k) active))))"

definition store_knowledge :: "unicode_tables \<Rightarrow> 's evolution_service \<Rightarrow> caller_authority option \<Rightarrow> int \<Rightarrow> uid
    \<Rightarrow> store_request \<Rightarrow> ('s, evolution_result) io" where
  "store_knowledge U V ctx now new_id q =
     bindS (liftS (scoped_values U ctx KNOWLEDGE_WRITE (rq_scope q))) (\<lambda>scope.
     bindS (liftS (normalize_content (rq_content q))) (\<lambda>normalized.
     bindS (liftS (sv_assert_safe V [Some normalized, km_summary (rq_meta q), scope PROJECT, km_change_reason (rq_meta q),
         km_source (rq_meta q), Some (sv_repr V (the_default Map.empty (rq_context q))),
         Some (sv_repr V (the_default Map.empty (rq_extensions q)))])) (\<lambda>_.
     bindS (admit_request V q (entity_of q scope)) (\<lambda>(bundle, ext).
     bindS (liftS (content_hash (sv_sha V) normalized)) (\<lambda>digest.
       store_entity V ctx now new_id q (entity_of q scope) normalized digest bundle ext)))))"

subsection \<open>Reasoning about runs\<close>

lemma repository_laws:
  assumes "repository_ok R pts"
  shows "rp_upsert R i v p s = (r, s') \<Longrightarrow> pts s' = (pts s)(i \<mapsto> p) \<or> (r \<noteq> Inr () \<and> pts s' = pts s)"
    and "rp_set_payload R i d s = (r, s') \<Longrightarrow>
      pts s' = (pts s)(i := map_option (apply_patch d) (pts s i)) \<or> (r \<noteq> Inr () \<and> pts s' = pts s)"
    and "rp_retrieve R i s = (q, s') \<Longrightarrow> pts s' = pts s \<and> (\<forall>x. q = Inr x \<longrightarrow> x = map_option (Pair i) (pts s i))"
    and "filtered_read_ok pts n cs (rp_search R w n cs)" and "filtered_read_ok pts n cs (rp_scroll R n cs)"
  using assms by (simp_all only: repository_ok_def simp_thms) blast

lemma yields_set:
  assumes "repository_ok R pts" and "P' = P(i := map_option (apply_patch d) (P i))"
    and "\<And>r. Q r P'" and "\<And>e. Q (Inl e) P"
  shows "yields pts (rp_set_payload R i d) P Q"
  unfolding yields_def
proof (intro allI impI)
  fix s r s' assume "pts s = P" and "rp_set_payload R i d s = (r, s')"
  with repository_laws(2) [OF assms(1)] assms(2) have "pts s' = P' \<or> r \<noteq> Inr () \<and> pts s' = P" by blast
  then show "Q r (pts s')" using assms(3,4) by (cases r) auto
qed

lemma yields_upsert:
  assumes "repository_ok R pts" and "\<And>r. Q r (P(i \<mapsto> p))" and "\<And>e. Q (Inl e) P"
  shows "yields pts (rp_upsert R i v p) P Q"
  unfolding yields_def
proof (intro allI impI)
  fix s r s' assume "pts s = P" and "rp_upsert R i v p s = (r, s')"
  with repository_laws(1) [OF assms(1)] have "pts s' = P(i \<mapsto> p) \<or> r \<noteq> Inr () \<and> pts s' = P" by blast
  then show "Q r (pts s')" using assms(2,3) by (cases r) auto
qed

lemma yields_retrieve:
  assumes "repository_ok R pts" and "Q (Inr (map_option (Pair i) (P i))) P" and "\<And>e. Q (Inl e) P"
  shows "yields pts (rp_retrieve R i) P Q"
  unfolding yields_def
proof (intro allI impI)
  fix s r s' assume "pts s = P" and "rp_retrieve R i s = (r, s')"
  with assms(1) have "pts s' = P \<and> (\<forall>x. r = Inr x \<longrightarrow> x = map_option (Pair i) (P i))"
    using repository_laws(3) [OF assms(1)] by blast
  then show "Q r (pts s')" using assms(2,3) by (cases r) auto
qed

lemma yields_read:
  assumes "filtered_read_ok pts limit cs m" and "finite (matching cs P)" and "card (matching cs P) \<le> limit"
    and "\<And>xs. set xs = matching cs P \<Longrightarrow> distinct (map fst xs) \<Longrightarrow> Q (Inr xs) P" and "\<And>e. Q (Inl e) P"
  shows "yields pts m P Q"
  unfolding yields_def
proof (intro allI impI)
  fix s r s' assume s: "pts s = P" "m s = (r, s')"
  from assms(1) have law: "pts s' = pts s \<and> (\<forall>xs. r = Inr xs \<longrightarrow> distinct (map fst xs) \<and> set xs \<subseteq> matching cs (pts s)
      \<and> length xs \<le> limit \<and> (length xs < limit \<longrightarrow> set xs = matching cs (pts s)))"
    using s(2) unfolding filtered_read_ok_def by blast
  show "Q r (pts s')"
  proof (cases r)
    case (Inr xs)
    with law s(1) have xs: "distinct (map fst xs)" "set xs \<subseteq> matching cs P" "length xs \<le> limit"
      "length xs < limit \<longrightarrow> set xs = matching cs P" by auto
    have "set xs = matching cs P"
    proof (cases "length xs < limit")
      case False
      have "distinct xs" using xs(1) by (simp add: distinct_map)
      then have "card (set xs) = length xs" by (rule distinct_card)
      then show ?thesis using False xs(2) assms(2,3) by (intro card_seteq) auto
    qed (use xs(4) in simp)
    with xs(1) assms(4) Inr law s(1) show ?thesis by simp
  qed (use law s(1) assms(5) in simp)
qed

subsection \<open>The points of an entity\<close>

definition has_labels :: "entity \<Rightarrow> knowledge_payload \<Rightarrow> bool" where
  "has_labels k p \<longleftrightarrow> kp_domain p = Some (en_domain k) \<and> kp_topic p = Some (en_topic k)
     \<and> kp_entity_type p = Some (en_type k) \<and> kp_entity_name p = Some (en_name k)"

definition is_active :: "knowledge_payload \<Rightarrow> bool" where
  "is_active p \<longleftrightarrow> kp_status p = Some K_ACTIVE"

definition is_pending :: "knowledge_payload \<Rightarrow> bool" where
  "is_pending p \<longleftrightarrow> kp_status p = Some K_DEPRECATED \<and> pending_state p = Some pending_activation"

definition has_entity :: "entity \<Rightarrow> knowledge_payload \<Rightarrow> bool" where
  "has_entity k p \<longleftrightarrow> has_labels k p \<and> same_partition p k \<and> same_context p k"

definition active_of :: "entity \<Rightarrow> (uid \<rightharpoonup> knowledge_payload) \<Rightarrow> uid set" where
  "active_of k P = {i. \<exists>p. P i = Some p \<and> has_entity k p \<and> is_active p}"

definition pending_of :: "entity \<Rightarrow> (uid \<rightharpoonup> knowledge_payload) \<Rightarrow> uid set" where
  "pending_of k P = {i. \<exists>p. P i = Some p \<and> has_entity k p \<and> is_pending p}"

text \<open>The live points that share the entity's labels and partition, whatever their context.\<close>

definition neighbours :: "entity \<Rightarrow> (uid \<rightharpoonup> knowledge_payload) \<Rightarrow> uid set" where
  "neighbours k P = {i. \<exists>p. P i = Some p \<and> has_labels k p \<and> same_partition p k \<and> (is_active p \<or> is_pending p)}"

lemma class_condition:
  "condition_holds (if en_class k = knowledge_class then Should [Match F_CLASS (en_class k), IsEmpty F_CLASS]
     else Match F_CLASS (en_class k)) p \<longleftrightarrow> the_default knowledge_class (kp_class p) = en_class k"
  by (cases "kp_class p") auto

lemma scope_condition:
  "condition_holds (case en_scope k d of Some v \<Rightarrow> Match (F_SCOPE d) v | None \<Rightarrow> IsEmpty (F_SCOPE d)) p
     \<longleftrightarrow> kp_scope p d = en_scope k d"
  by (cases "en_scope k d") auto

lemma partition_conditions_iff:
  "list_all (\<lambda>c. condition_holds c p) (partition_conditions k) \<longleftrightarrow> same_partition p k"
  by (simp add: partition_conditions_def same_partition_def class_condition del: condition_holds.simps)
    (simp add: list_all_iff scope_condition)

lemma label_conditions_iff: "list_all (\<lambda>c. condition_holds c p) (label_conditions k) \<longleftrightarrow> has_labels k p"
  by (simp add: label_conditions_def has_labels_def)

lemma status_value_inj: "status_value a = status_value b \<longleftrightarrow> a = b"
  by (cases a; cases b) (simp_all add: lit_def)

lemma status_condition: "condition_holds (Match F_STATUS (status_value v)) p \<longleftrightarrow> kp_status p = Some v"
  by (cases "kp_status p") (simp_all add: status_value_inj)

lemma active_filter_iff:
  "list_all (\<lambda>c. condition_holds c p) (active_filter k) \<longleftrightarrow> has_labels k p \<and> is_active p \<and> same_partition p k"
  unfolding active_filter_def list_all_append label_conditions_iff partition_conditions_iff
  by (auto simp: is_active_def status_condition simp del: condition_holds.simps status_value.simps)

lemma pending_filter_iff:
  "list_all (\<lambda>c. condition_holds c p) (pending_filter k) \<longleftrightarrow> has_labels k p \<and> is_pending p \<and> same_partition p k"
  unfolding pending_filter_def list_all_append label_conditions_iff partition_conditions_iff
  by (auto simp: is_pending_def status_condition [simplified] simp del: status_value.simps)

lemma matching_ids: "matching cs P = (\<lambda>i. (i, the (P i))) ` {i. \<exists>p. P i = Some p \<and> list_all (\<lambda>c. condition_holds c p) cs}"
  by (force simp: matching_def)

lemma card_matching:
  assumes "finite (neighbours k P)" and "cs = active_filter k \<or> cs = pending_filter k"
  shows "finite (matching cs P) \<and> card (matching cs P) \<le> card (neighbours k P)"
proof -
  let ?ids = "{i. \<exists>p. P i = Some p \<and> list_all (\<lambda>c. condition_holds c p) cs}"
  have sub: "?ids \<subseteq> neighbours k P"
    using assms(2) by (auto simp: neighbours_def active_filter_iff pending_filter_iff)
  then have "finite ?ids" using assms(1) by (rule finite_subset)
  moreover have "card ?ids \<le> card (neighbours k P)" using sub assms(1) by (intro card_mono)
  ultimately show ?thesis
    unfolding matching_ids using card_image_le [of ?ids "\<lambda>i. (i, the (P i))"] by auto
qed

subsection \<open>Consistent stores\<close>

text \<open>
  A store is settled for an entity when nothing is pending and at most one version is active,
  with no successor. It is staged between the first and the last write of an evolution: one
  pending version that names the other, which is active and free, or superseded by it.
\<close>

definition free :: "knowledge_payload \<Rightarrow> bool" where
  "free p \<longleftrightarrow> kp_superseded_by p = None \<or> kp_superseded_by p = Some []"

definition settled :: "entity \<Rightarrow> (uid \<rightharpoonup> knowledge_payload) \<Rightarrow> bool" where
  "settled k P \<longleftrightarrow> pending_of k P = {}
     \<and> (\<forall>i \<in> active_of k P. active_of k P = {i} \<and> (\<exists>p. P i = Some p \<and> free p))"

definition staged :: "entity \<Rightarrow> (uid \<rightharpoonup> knowledge_payload) \<Rightarrow> uid \<Rightarrow> uid \<Rightarrow> bool" where
  "staged k P i q \<longleftrightarrow> (\<exists>pn pq. P i = Some pn \<and> P q = Some pq \<and> i \<noteq> q \<and> pending_of k P = {i}
     \<and> previous_reference (kp_extensions pn) = Some q \<and> free pn \<and> has_entity k pq
     \<and> (is_active pq \<and> \<not> foreign_successor i (kp_superseded_by pq) \<and> active_of k P = {q}
        \<or> kp_status pq = Some K_SUPERSEDED \<and> kp_superseded_by pq = Some i \<and> active_of k P = {}))"

definition consistent :: "entity \<Rightarrow> (uid \<rightharpoonup> knowledge_payload) \<Rightarrow> bool" where
  "consistent k P \<longleftrightarrow> settled k P \<or> (\<exists>i q. staged k P i q)"

text \<open>The ids in use are in the form \<^verbatim>\<open>str(UUID)\<close> gives, which reads back as itself.\<close>

definition canonical_ids :: "'s evolution_service \<Rightarrow> uid set \<Rightarrow> bool" where
  "canonical_ids V ids \<longleftrightarrow> (\<forall>i \<in> ids. i \<noteq> [] \<and> sv_parse_uuid V i = Inr i)"

text \<open>Points of other entities stay as they are.\<close>

definition others_kept :: "entity \<Rightarrow> (uid \<rightharpoonup> knowledge_payload) \<Rightarrow> (uid \<rightharpoonup> knowledge_payload) \<Rightarrow> bool" where
  "others_kept k P P' \<longleftrightarrow> (\<forall>i p. P i = Some p \<longrightarrow> \<not> has_entity k p \<longrightarrow> P' i = Some p)"

definition superseded_points :: "int \<Rightarrow> uid \<Rightarrow> uid \<Rightarrow> (uid \<rightharpoonup> knowledge_payload) \<Rightarrow> uid \<rightharpoonup> knowledge_payload" where
  "superseded_points now q i P = P(q := map_option (apply_patch \<lparr>pt_status = K_SUPERSEDED,
     pt_superseded_by = Some i, pt_extensions = None, pt_updated = now\<rparr>) (P q))"

definition activated_points :: "int \<Rightarrow> uid \<Rightarrow> knowledge_payload \<Rightarrow> (uid \<rightharpoonup> knowledge_payload) \<Rightarrow> uid \<rightharpoonup> knowledge_payload" where
  "activated_points now i pn P = P(i := map_option (apply_patch \<lparr>pt_status = K_ACTIVE,
     pt_superseded_by = None, pt_extensions = Some (committed_extensions (kp_extensions pn)), pt_updated = now\<rparr>) (P i))"

lemma has_entity_patch [simp]: "has_entity k (apply_patch d p) \<longleftrightarrow> has_entity k p"
  by (simp add: has_entity_def has_labels_def same_partition_def same_context_def apply_patch_def)

lemma labels_patch [simp]: "has_labels k (apply_patch d p) \<longleftrightarrow> has_labels k p"
  "same_partition (apply_patch d p) k \<longleftrightarrow> same_partition p k"
  by (simp_all add: has_labels_def same_partition_def apply_patch_def)

lemma status_patch [simp]: "kp_status (apply_patch d p) = Some (pt_status d)"
  by (simp add: apply_patch_def)

lemma next_patch: "kp_superseded_by (apply_patch d p) =
    (case pt_superseded_by d of None \<Rightarrow> kp_superseded_by p | Some i \<Rightarrow> Some i)"
  by (simp add: apply_patch_def)

lemma not_both: "is_active p \<Longrightarrow> \<not> is_pending p"
  by (simp add: is_active_def is_pending_def)

lemma pending_entity: "staged k P i q \<Longrightarrow> \<exists>pn. P i = Some pn \<and> has_entity k pn \<and> is_pending pn"
  by (auto simp: staged_def pending_of_def)

text \<open>One point replaced by one of the same entity: what it means for the two sets.\<close>

lemma active_of_upd: "P i = Some p \<Longrightarrow> has_entity k p' \<longleftrightarrow> has_entity k p \<Longrightarrow>
    active_of k (P(i \<mapsto> p')) = (if has_entity k p \<and> is_active p' then insert i (active_of k P) else active_of k P - {i})"
  by (auto simp: active_of_def)

lemma pending_of_upd: "P i = Some p \<Longrightarrow> has_entity k p' \<longleftrightarrow> has_entity k p \<Longrightarrow>
    pending_of k (P(i \<mapsto> p')) = (if has_entity k p \<and> is_pending p' then insert i (pending_of k P) else pending_of k P - {i})"
  by (auto simp: pending_of_def)

text \<open>The first write keeps a staged store staged; the second settles it.\<close>

lemma supersede_staged:
  assumes "staged k P i q" and "P q = Some pq" and "is_active pq"
  shows "staged k (superseded_points now q i P) i q"
proof -
  let ?d = "\<lparr>pt_status = K_SUPERSEDED, pt_superseded_by = Some i, pt_extensions = None, pt_updated = now\<rparr>"
  from assms obtain pn where s: "P i = Some pn" "i \<noteq> q" "pending_of k P = {i}"
    "previous_reference (kp_extensions pn) = Some q" "free pn" "has_entity k pq" "active_of k P = {q}"
    by (auto simp: staged_def is_active_def)
  have P': "superseded_points now q i P = P(q \<mapsto> apply_patch ?d pq)"
    using assms(2) by (simp add: superseded_points_def)
  have "active_of k (P(q \<mapsto> apply_patch ?d pq)) = {}"
    using active_of_upd [of P q pq k "apply_patch ?d pq"] assms(2) s(6,7) by (simp add: is_active_def)
  moreover have "pending_of k (P(q \<mapsto> apply_patch ?d pq)) = {i}"
    using pending_of_upd [of P q pq k "apply_patch ?d pq"] assms(2) s(2,3,6) by (simp add: is_pending_def)
  ultimately show ?thesis
    using s assms(2) by (simp add: staged_def P' next_patch)
qed

lemma activate_settles:
  assumes "staged k P i q" and "P i = Some pn" and "P q = Some pq" and "kp_status pq = Some K_SUPERSEDED"
  shows "settled k (activated_points now i pn P)" and "active_of k (activated_points now i pn P) = {i}"
proof -
  let ?d = "\<lparr>pt_status = K_ACTIVE, pt_superseded_by = None,
    pt_extensions = Some (committed_extensions (kp_extensions pn)), pt_updated = now\<rparr>"
  from assms have s: "i \<noteq> q" "pending_of k P = {i}" "free pn" "active_of k P = {}"
    by (auto simp: staged_def is_active_def)
  have e: "has_entity k pn" using pending_entity [OF assms(1)] assms(2) by auto
  have P': "activated_points now i pn P = P(i \<mapsto> apply_patch ?d pn)"
    using assms(2) by (simp add: activated_points_def)
  show act: "active_of k (activated_points now i pn P) = {i}"
    using active_of_upd [of P i pn k "apply_patch ?d pn"] assms(2) s(4) e by (simp add: P' is_active_def)
  have "pending_of k (P(i \<mapsto> apply_patch ?d pn)) = {}"
    using pending_of_upd [of P i pn k "apply_patch ?d pn"] assms(2) s(2) e by (simp add: is_pending_def)
  moreover have "free (apply_patch ?d pn)" using s(3) by (simp add: free_def next_patch)
  ultimately show "settled k (activated_points now i pn P)"
    using act by (simp add: settled_def P')
qed

subsection \<open>The protocol, call by call\<close>

lemma others_kept_refl: "others_kept k P P"
  by (simp add: others_kept_def)

lemma others_kept_patch: "P i = Some p \<Longrightarrow> has_entity k p \<Longrightarrow> others_kept k P0 P \<Longrightarrow> P0 i = Some p0 \<Longrightarrow> has_entity k p0
    \<Longrightarrow> others_kept k P0 (P(i := x))"
  by (auto simp: others_kept_def)

lemma staged_entities:
  assumes "staged k P i q"
  shows "\<exists>pn pq. P i = Some pn \<and> P q = Some pq \<and> has_entity k pn \<and> has_entity k pq \<and> is_pending pn \<and> i \<noteq> q"
proof -
  from assms obtain pn pq where "P i = Some pn" "P q = Some pq" "i \<noteq> q" "has_entity k pq"
    unfolding staged_def by blast
  with pending_entity [OF assms] show ?thesis by auto
qed

text \<open>What recovery may have done when it stops: nothing, the first write, or both.\<close>

definition finished_points :: "int \<Rightarrow> uid \<Rightarrow> uid \<Rightarrow> knowledge_payload \<Rightarrow> (uid \<rightharpoonup> knowledge_payload) \<Rightarrow> uid \<rightharpoonup> knowledge_payload" where
  "finished_points now i q pn P = (case P q of
     Some pq \<Rightarrow> if is_active pq then activated_points now i pn (superseded_points now q i P) else activated_points now i pn P
   | None \<Rightarrow> P)"

text \<open>The points after a run of the commit, whatever happened: still consistent, and settled on success.\<close>

definition commit_post :: "entity \<Rightarrow> int \<Rightarrow> uid \<Rightarrow> uid \<Rightarrow> knowledge_payload \<Rightarrow> (uid \<rightharpoonup> knowledge_payload)
    \<Rightarrow> unit result \<Rightarrow> (uid \<rightharpoonup> knowledge_payload) \<Rightarrow> bool" where
  "commit_post k now i q pn P r P' \<longleftrightarrow>
     (P' = finished_points now i q pn P \<or> r \<noteq> Inr () \<and> (P' = P \<or> P' = superseded_points now q i P \<and> \<not> (\<exists>pq. P q = Some pq \<and> \<not> is_active pq)))"

lemma finished_settles:
  assumes "staged k P i q" and "P i = Some pn"
  shows "settled k (finished_points now i q pn P)" and "active_of k (finished_points now i q pn P) = {i}"
proof -
  obtain pq where pq: "P q = Some pq" "i \<noteq> q" using staged_entities [OF assms(1)] by blast
  have "settled k (finished_points now i q pn P) \<and> active_of k (finished_points now i q pn P) = {i}"
  proof (cases "is_active pq")
    case True
    note s = supersede_staged [OF assms(1) pq(1) True, of now]
    have "superseded_points now q i P i = Some pn" using pq(2) assms(2) by (simp add: superseded_points_def)
    moreover have "\<exists>p. superseded_points now q i P q = Some p \<and> kp_status p = Some K_SUPERSEDED"
      using pq by (simp add: superseded_points_def)
    ultimately show ?thesis
      using activate_settles [OF s] True pq(1) by (auto simp: finished_points_def)
  next
    case False
    then have "kp_status pq = Some K_SUPERSEDED" using assms(1) pq(1) by (auto simp: staged_def)
    with activate_settles [OF assms(1,2) pq(1)] False pq(1) show ?thesis by (simp add: finished_points_def)
  qed
  then show "settled k (finished_points now i q pn P)" and "active_of k (finished_points now i q pn P) = {i}" by blast+
qed

lemma finished_outside: "x \<noteq> i \<Longrightarrow> x \<noteq> q \<Longrightarrow> finished_points now i q pn P x = P x"
  by (simp add: finished_points_def activated_points_def superseded_points_def split: option.splits)

lemma commit_post_consistent:
  assumes "staged k P i q" and "P i = Some pn" and "commit_post k now i q pn P r P'"
  shows "consistent k P'" and "r = Inr () \<Longrightarrow> settled k P' \<and> active_of k P' = {i}"
    and "x \<noteq> i \<Longrightarrow> x \<noteq> q \<Longrightarrow> P' x = P x" and "dom P' = dom P"
proof -
  obtain pq where pq: "P q = Some pq" using staged_entities [OF assms(1)] by blast
  show "consistent k P'"
    using assms(3) finished_settles [OF assms(1,2), of now] assms(1) supersede_staged [OF assms(1) pq, of now] pq
    unfolding commit_post_def consistent_def by (metis option.inject)
  show "r = Inr () \<Longrightarrow> settled k P' \<and> active_of k P' = {i}"
    using assms(3) finished_settles [OF assms(1,2), of now] by (auto simp: commit_post_def)
  show "x \<noteq> i \<Longrightarrow> x \<noteq> q \<Longrightarrow> P' x = P x"
    using assms(3) finished_outside [of x i q now pn P] by (auto simp: commit_post_def superseded_points_def)
  show "dom P' = dom P"
    using assms(2,3) pq by (auto simp: commit_post_def finished_points_def superseded_points_def activated_points_def
        split: if_splits)
qed

text \<open>The second write, then both writes.\<close>

lemma yields_activate:
  assumes "repository_ok (sv_repository V) pts" and "Q (Inr ()) (activated_points now i pn P)"
    and "\<And>e. Q (Inl e) (activated_points now i pn P)" and "\<And>e. Q (Inl e) P"
  shows "yields pts (activate_staged V now i pn) P Q"
proof -
  have "Q r (activated_points now i pn P)" for r using assms(2,3) by (cases r) auto
  with assms(1,4) show ?thesis
    unfolding activate_staged_def by (intro yields_set) (auto simp: activated_points_def)
qed

lemma yields_both:
  assumes "repository_ok (sv_repository V) pts" and "P q = Some pq" and "is_active pq"
  shows "yields pts (bindS (supersede V now q i) (\<lambda>_. activate_staged V now i pn)) P (commit_post k now i q pn P)"
proof (rule yields_bind [where M = "\<lambda>r P'. P' = superseded_points now q i P \<or> r \<noteq> Inr () \<and> P' = P"])
  show "yields pts (supersede V now q i) P (\<lambda>r P'. P' = superseded_points now q i P \<or> r \<noteq> Inr () \<and> P' = P)"
    unfolding supersede_def by (rule yields_set [OF assms(1)]) (auto simp: superseded_points_def)
next
  fix x :: unit and P' assume "P' = superseded_points now q i P \<or> Inr x \<noteq> Inr () \<and> P' = P"
  then have "P' = superseded_points now q i P" by simp
  then show "yields pts (activate_staged V now i pn) P' (commit_post k now i q pn P)"
    using assms(2,3) by (intro yields_activate [OF assms(1)]) (auto simp: commit_post_def finished_points_def)
next
  fix e :: exn and P' assume "P' = superseded_points now q i P \<or> Inl e \<noteq> Inr () \<and> P' = P"
  then show "commit_post k now i q pn P (Inl e) P'" using assms(2,3) by (auto simp: commit_post_def)
qed

text \<open>Recovery: a settled store is left alone, a staged one is finished as far as the store allows.\<close>

definition recover_post :: "entity \<Rightarrow> int \<Rightarrow> (uid \<rightharpoonup> knowledge_payload) \<Rightarrow> unit result \<Rightarrow> (uid \<rightharpoonup> knowledge_payload) \<Rightarrow> bool" where
  "recover_post k now P r P' \<longleftrightarrow> settled k P \<and> P' = P
     \<or> (\<exists>i q pn. staged k P i q \<and> P i = Some pn \<and> commit_post k now i q pn P r P')"

lemma exact_points:
  assumes "set xs = matching cs P" and "distinct (map fst xs)"
    and "{(i, p). P i = Some p \<and> list_all (\<lambda>c. condition_holds c p) cs \<and> F i p} = A"
  shows "set (filter (\<lambda>(i, p). F i p) xs) = A \<and> distinct (map fst (filter (\<lambda>(i, p). F i p) xs))"
  using assms by (auto simp: matching_def distinct_map_filter)

lemma single_list: "set xs = {x} \<Longrightarrow> distinct (map f xs) \<Longrightarrow> xs = [x]"
  by (cases xs; cases "tl xs") (auto simp: insert_eq_iff)

lemma pending_points:
  "{(i, p). P i = Some p \<and> list_all (\<lambda>c. condition_holds c p) (pending_filter k)
      \<and> (same_context p k \<and> pending_state p = Some pending_activation \<and> same_partition p k)}
   = {(i, p). P i = Some p \<and> i \<in> pending_of k P}"
  by (auto simp: pending_filter_iff pending_of_def has_entity_def is_pending_def)

lemma active_points:
  "{(i, p). P i = Some p \<and> list_all (\<lambda>c. condition_holds c p) (active_filter k) \<and> (same_context p k \<and> same_partition p k)}
   = {(i, p). P i = Some p \<and> i \<in> active_of k P}"
  by (auto simp: active_filter_iff active_of_def has_entity_def)

lemma recover_point_spec:
  assumes "repository_ok (sv_repository V) pts" and st: "staged k P i q" and pn: "P i = Some pn" and "canonical_ids V (dom P)"
  shows "yields pts (recover_point V now k i pn) P (commit_post k now i q pn P)"
proof -
  from st obtain pq where q: "P q = Some pq" "previous_reference (kp_extensions pn) = Some q" "has_entity k pq"
    and stage: "is_active pq \<and> \<not> foreign_successor i (kp_superseded_by pq)
      \<or> kp_status pq = Some K_SUPERSEDED \<and> kp_superseded_by pq = Some i"
    using pn by (auto simp: staged_def)
  have parse: "sv_parse_uuid V q = Inr q" using assms(4) q(1) by (auto simp: canonical_ids_def)
  have part: "same_partition pq k" using q(3) by (simp add: has_entity_def)
  have stop: "commit_post k now i q pn P (Inl e) P" for e by (simp add: commit_post_def)
  have act: "yields pts (activate_staged V now i pn) P (commit_post k now i q pn P)" if "kp_status pq = Some K_SUPERSEDED"
    using that q(1) by (intro yields_activate [OF assms(1)]) (auto simp: commit_post_def finished_points_def is_active_def)
  have rest: "yields pts (if \<not> same_partition pq k
              then raiseS (ConflictError (lit ''pending evolution predecessor scope differs''))
              else if kp_status pq = Some K_ACTIVE
              then if foreign_successor i (kp_superseded_by pq)
                   then raiseS (ConflictError (lit ''active previous record points to a different successor''))
                   else bindS (supersede V now q i) (\<lambda>_. activate_staged V now i pn)
              else if \<not> (kp_status pq = Some K_SUPERSEDED \<and> kp_superseded_by pq = Some i)
              then raiseS (ConflictError (lit ''pending evolution previous record is in an inconsistent state''))
              else activate_staged V now i pn) P (commit_post k now i q pn P)"
    using stage part act yields_both [where P = P and q = q and pq = pq and i = i and pn = pn and k = k and now = now, OF assms(1) q(1)]
    by (auto simp: is_active_def)
  show ?thesis
    unfolding recover_point_def q(2) option.case parse
  proof (rule yields_bind [where M = "\<lambda>r P'. r = Inr q \<and> P' = P"])
    fix x P' assume "Inr x = Inr q \<and> P' = P"
    then have x: "x = q" "P' = P" by auto
    show "yields pts (bindS (rp_retrieve (sv_repository V) x) (\<lambda>previous. case previous of
            None \<Rightarrow> raiseS (ConflictError (lit ''pending evolution previous knowledge record is missing''))
          | Some (_, q) \<Rightarrow>
              if \<not> same_partition q k
              then raiseS (ConflictError (lit ''pending evolution predecessor scope differs''))
              else if kp_status q = Some K_ACTIVE
              then if foreign_successor i (kp_superseded_by q)
                   then raiseS (ConflictError (lit ''active previous record points to a different successor''))
                   else bindS (supersede V now x i) (\<lambda>_. activate_staged V now i pn)
              else if \<not> (kp_status q = Some K_SUPERSEDED \<and> kp_superseded_by q = Some i)
              then raiseS (ConflictError (lit ''pending evolution previous record is in an inconsistent state''))
              else activate_staged V now i pn)) P' (commit_post k now i q pn P)"
      unfolding x
    proof (rule yields_bind [where M = "\<lambda>r P'. P' = P \<and> (\<forall>y. r = Inr y \<longrightarrow> y = Some (q, pq))"])
      show "yields pts (rp_retrieve (sv_repository V) q) P (\<lambda>r P'. P' = P \<and> (\<forall>y. r = Inr y \<longrightarrow> y = Some (q, pq)))"
        by (rule yields_retrieve [OF assms(1)]) (simp_all add: q(1))
    next
      fix y P' assume "P' = P \<and> (\<forall>z. Inr y = Inr z \<longrightarrow> z = Some (q, pq))"
      then have "y = Some (q, pq)" "P' = P" by auto
      with rest show "yields pts (case y of None \<Rightarrow> raiseS (ConflictError (lit ''pending evolution previous knowledge record is missing''))
          | Some (_, qq) \<Rightarrow>
              if \<not> same_partition qq k
              then raiseS (ConflictError (lit ''pending evolution predecessor scope differs''))
              else if kp_status qq = Some K_ACTIVE
              then if foreign_successor i (kp_superseded_by qq)
                   then raiseS (ConflictError (lit ''active previous record points to a different successor''))
                   else bindS (supersede V now q i) (\<lambda>_. activate_staged V now i pn)
              else if \<not> (kp_status qq = Some K_SUPERSEDED \<and> kp_superseded_by qq = Some i)
              then raiseS (ConflictError (lit ''pending evolution previous record is in an inconsistent state''))
              else activate_staged V now i pn) P' (commit_post k now i q pn P)" by simp
    qed (use stop in auto)
  qed (auto intro: yields_lift)
qed

lemma recover_spec:
  assumes R: "repository_ok (sv_repository V) pts" and con: "consistent k P" and ids: "canonical_ids V (dom P)"
    and fin: "finite (neighbours k P)" and card: "card (neighbours k P) \<le> 10"
  shows "yields pts (recover_pending V now k) P (recover_post k now P)"
proof -
  have m: "finite (matching (pending_filter k) P)" "card (matching (pending_filter k) P) \<le> 20"
    using card_matching [OF fin, of "pending_filter k"] card by auto
  have stop: "recover_post k now P (Inl e) P" for e
  proof (cases "settled k P")
    case False
    then obtain i q where "staged k P i q" using con by (auto simp: consistent_def)
    then show ?thesis using pending_entity by (force simp: recover_post_def commit_post_def)
  qed (simp add: recover_post_def)
  show ?thesis
    unfolding recover_pending_def
  proof (rule yields_bind [where M = "\<lambda>r P'. P' = P \<and> (\<forall>xs. r = Inr xs \<longrightarrow> set xs = matching (pending_filter k) P \<and> distinct (map fst xs))"])
    show "yields pts (rp_scroll (sv_repository V) 20 (pending_filter k)) P
       (\<lambda>r P'. P' = P \<and> (\<forall>xs. r = Inr xs \<longrightarrow> set xs = matching (pending_filter k) P \<and> distinct (map fst xs)))"
      by (rule yields_read [OF repository_laws(5) [OF R] m]) auto
  next
    fix xs P' assume "P' = P \<and> (\<forall>ys. Inr xs = Inr ys \<longrightarrow> set ys = matching (pending_filter k) P \<and> distinct (map fst ys))"
    then have P': "P' = P" and xs: "set xs = matching (pending_filter k) P" "distinct (map fst xs)" by auto
    let ?exact = "filter (\<lambda>(i, p). same_context p k \<and> pending_state p = Some pending_activation \<and> same_partition p k) xs"
    have exact: "set ?exact = {(i, p). P i = Some p \<and> i \<in> pending_of k P}" "distinct (map fst ?exact)"
      using exact_points [OF xs pending_points] by auto
    show "yields pts (case ?exact of [] \<Rightarrow> returnS () | [(staged_id, payload)] \<Rightarrow> recover_point V now k staged_id payload
       | _ \<Rightarrow> raiseS (ConflictError (lit ''multiple pending evolutions exist for canonical entity identity''))) P' (recover_post k now P)"
    proof (cases "settled k P")
      case True
      then have "set ?exact = {}" using exact(1) by (simp add: settled_def)
      then have "?exact = []" unfolding set_empty .
      with True P' show ?thesis by (simp add: yields_return recover_post_def)
    next
      case False
      then obtain i q where st: "staged k P i q" using con by (auto simp: consistent_def)
      then obtain pn where pn: "P i = Some pn" using pending_entity by blast
      have "pending_of k P = {i}" using st by (auto simp: staged_def)
      then have "set ?exact = {(i, pn)}" using exact(1) pn by auto
      then have "?exact = [(i, pn)]" by (rule single_list [OF _ exact(2)])
      moreover have "yields pts (recover_point V now k i pn) P (recover_post k now P)"
        using st pn by (intro yields_mono [OF recover_point_spec [OF R st pn ids]]) (auto simp: recover_post_def)
      ultimately show ?thesis using P' by simp
    qed
  next
    fix e :: exn and P' assume "P' = P \<and> (\<forall>xs. Inl e = Inr xs \<longrightarrow> set xs = matching (pending_filter k) P \<and> distinct (map fst xs))"
    then show "recover_post k now P (Inl e) P'" using stop by simp
  qed
qed

subsection \<open>Writing a version\<close>

lemma active_of_new: "P i = None \<Longrightarrow> active_of k (P(i \<mapsto> p)) = (if has_entity k p \<and> is_active p then insert i (active_of k P) else active_of k P)"
  by (auto simp: active_of_def)

lemma pending_of_new: "P i = None \<Longrightarrow> pending_of k (P(i \<mapsto> p)) = (if has_entity k p \<and> is_pending p then insert i (pending_of k P) else pending_of k P)"
  by (auto simp: pending_of_def)

lemma evolution_keys: "evolution_previous_key \<noteq> evolution_state_key"
  by (simp add: evolution_previous_key_def evolution_state_key_def lit_def)

lemma build_record_simps [simp]:
  "has_entity k (build_record V now q k n h ext previous)"
  "kp_status (build_record V now q k n h ext previous) = Some (if previous \<noteq> None then K_DEPRECATED else K_ACTIVE)"
  "free (build_record V now q k n h ext previous)"
  "kp_extensions (build_record V now q k n h ext previous) = staging_extensions ext (map_option fst previous)"
  "kp_hash (build_record V now q k n h ext previous) = Some h"
  "kp_supersedes (build_record V now q k n h ext previous) = map_option fst previous"
  "kp_version (build_record V now q k n h ext previous) =
     Some (case previous of None \<Rightarrow> 1 | Some (_, p) \<Rightarrow> the_default 0 (kp_version p) + 1)"
  by (simp_all add: build_record_def has_entity_def has_labels_def same_partition_def same_context_def free_def list_all_iff)

lemma staging_reference:
  "i \<noteq> [] \<Longrightarrow> previous_reference (staging_extensions ext (Some i)) = Some i"
  by (simp add: previous_reference_def staging_extensions_def)

lemma staging_pending:
  "is_pending (build_record V now q k n h ext (Some x))"
  using evolution_keys by (simp add: is_pending_def pending_state_def staging_extensions_def)

lemma validate_knowledge_Inr: "validate_knowledge p = Inr v \<Longrightarrow> v = p"
  by (simp add: validate_knowledge_def split: if_splits)

lemma sole_active: "active_of k P = {i} \<Longrightarrow> P i = Some p \<Longrightarrow> has_entity k p \<and> is_active p"
proof -
  assume "active_of k P = {i}" and P: "P i = Some p"
  then have "i \<in> active_of k P" by simp
  with P show "has_entity k p \<and> is_active p" by (auto simp: active_of_def)
qed

lemma staging_staged:
  assumes "settled k P" and "P new = None" and "P i = Some p" and "active_of k P = {i}" and "i \<noteq> []"
  shows "staged k (P(new \<mapsto> build_record V now q k n h ext (Some (i, p)))) new i"
proof -
  have ne: "new \<noteq> i" using assms(2,3) by auto
  have p: "free p" "has_entity k p" "is_active p"
    using assms(1,3,4) sole_active [OF assms(4,3)] by (auto simp: settled_def)
  then have "\<not> foreign_successor new (kp_superseded_by p)" by (auto simp: free_def foreign_successor_def)
  moreover have "\<not> is_active (build_record V now q k n h ext (Some (i, p)))" by (simp add: is_active_def)
  ultimately show ?thesis
    using assms ne p staging_pending [of V now q k n h ext "(i, p)"]
    by (simp add: staged_def active_of_new pending_of_new settled_def staging_reference)
qed

text \<open>What a written version looks like in the store, and what became of the one before.\<close>

definition version_written :: "entity \<Rightarrow> ustr \<Rightarrow> uid \<Rightarrow> (uid \<times> knowledge_payload) option \<Rightarrow> (uid \<rightharpoonup> knowledge_payload) \<Rightarrow> bool" where
  "version_written k digest new previous P' \<longleftrightarrow> settled k P' \<and> active_of k P' = {new}
     \<and> (\<exists>p'. P' new = Some p' \<and> kp_hash p' = Some digest \<and> kp_supersedes p' = map_option fst previous
          \<and> kp_version p' = Some (case previous of None \<Rightarrow> 1 | Some (_, p) \<Rightarrow> the_default 0 (kp_version p) + 1))
     \<and> (case previous of None \<Rightarrow> True | Some (i, _) \<Rightarrow>
          \<exists>p'. P' i = Some p' \<and> kp_status p' = Some K_SUPERSEDED \<and> kp_superseded_by p' = Some new)"

definition write_post :: "entity \<Rightarrow> ustr \<Rightarrow> uid \<Rightarrow> (uid \<times> knowledge_payload) option \<Rightarrow> (uid \<rightharpoonup> knowledge_payload)
    \<Rightarrow> evolution_result result \<Rightarrow> (uid \<rightharpoonup> knowledge_payload) \<Rightarrow> bool" where
  "write_post k digest new previous P r P' \<longleftrightarrow> consistent k P'
     \<and> (\<forall>x. x \<noteq> new \<longrightarrow> x \<notin> active_of k P \<longrightarrow> P' x = P x)
     \<and> (\<forall>res. r = Inr res \<longrightarrow> er_id res = new \<and> er_previous res = map_option fst previous
          \<and> er_outcome res = (if previous = None then INSERT_NEW else EVOLVE) \<and> version_written k digest new previous P')"

text \<open>The fields of a staged version and its predecessor after the commit.\<close>

lemma finished_payloads:
  assumes "P i = Some pn" and "P q = Some pq" and "i \<noteq> q" and "is_active pq"
  shows "\<exists>a b. finished_points now i q pn P i = Some a \<and> kp_hash a = kp_hash pn \<and> kp_supersedes a = kp_supersedes pn
    \<and> kp_version a = kp_version pn \<and> finished_points now i q pn P q = Some b \<and> kp_status b = Some K_SUPERSEDED
    \<and> kp_superseded_by b = Some i"
  using assms by (simp add: finished_points_def activated_points_def superseded_points_def apply_patch_def)

lemma commit_written:
  assumes "settled k P" and "P new = None" and "P i = Some p" and "active_of k P = {i}" and "i \<noteq> []"
    and "R0 = build_record V now q k n h ext (Some (i, p))"
    and "commit_post k now new i R0 (P(new \<mapsto> R0)) r P'"
  shows "consistent k P' \<and> (\<forall>x. x \<noteq> new \<longrightarrow> x \<notin> active_of k P \<longrightarrow> P' x = P x)
    \<and> (r = Inr () \<longrightarrow> version_written k h new (Some (i, p)) P')"
proof -
  let ?P = "P(new \<mapsto> R0)"
  have st: "staged k ?P new i" using staging_staged [OF assms(1-5)] assms(6) by simp
  have R0: "?P new = Some R0" by simp
  note post = commit_post_consistent [OF st R0 assms(7)]
  have "P' x = P x" if "x \<noteq> new" "x \<notin> active_of k P" for x
    using post(3) [of x] that assms(4) by auto
  moreover have "version_written k h new (Some (i, p)) P'" if "r = Inr ()"
  proof -
    have P': "P' = finished_points now new i R0 ?P" using assms(7) that by (simp add: commit_post_def)
    have "new \<noteq> i" "?P i = Some p" "is_active p" using assms(2,3) sole_active [OF assms(4,3)] by auto
    from finished_payloads [OF R0 this(2,1,3), of now] obtain a b where
      "P' new = Some a" "kp_hash a = kp_hash R0" "kp_supersedes a = kp_supersedes R0" "kp_version a = kp_version R0"
      "P' i = Some b" "kp_status b = Some K_SUPERSEDED" "kp_superseded_by b = Some new" unfolding P' [symmetric] by blast
    with post(2) [OF that] assms(6) show ?thesis by (simp add: version_written_def)
  qed
  ultimately show ?thesis using post(1) by blast
qed

lemma stage_version_spec:
  assumes R: "repository_ok (sv_repository V) pts" and set: "settled k P" and new: "P new = None"
    and prev: "case previous of None \<Rightarrow> active_of k P = {} | Some (i, p) \<Rightarrow> P i = Some p \<and> active_of k P = {i} \<and> i \<noteq> []"
    and R0: "R0 = build_record V now q k n h base_ext previous"
  shows "yields pts (stage_version V now new n base_ext previous R0) P (write_post k h new previous P)"
proof -
  have stop: "write_post k h new previous P (Inl e) P" for e using set by (simp add: write_post_def consistent_def)
  show ?thesis
    unfolding stage_version_def
  proof (rule yields_bind [where M = "\<lambda>r P'. P' = P"], goal_cases)
    case (2 vector P')
    then have P': "P' = P" by simp
    show ?case
      unfolding P'
    proof (cases previous)
      case None
      have "version_written k h new None (P(new \<mapsto> R0))"
        using set new prev None R0 by (simp add: version_written_def settled_def active_of_new pending_of_new is_active_def is_pending_def)
      moreover have "consistent k (P(new \<mapsto> R0))" using calculation by (simp add: consistent_def version_written_def)
      ultimately show "yields pts (bindS (rp_upsert (sv_repository V) new vector R0) (\<lambda>_.
          case previous of
            None \<Rightarrow> returnS \<lparr>er_outcome = INSERT_NEW, er_id = new, er_record = R0, er_previous = None\<rparr>
          | Some (previous_id, p) \<Rightarrow> bindS (commit_staged V now new R0 previous_id p) (\<lambda>_.
              returnS \<lparr>er_outcome = EVOLVE, er_id = new,
                er_record = R0\<lparr>kp_status := Some K_ACTIVE, kp_extensions := committed_extensions base_ext, kp_updated := now\<rparr>,
                er_previous = Some previous_id\<rparr>))) P (write_post k h new previous P)"
        using stop None
        by (intro yields_bind [where M = "\<lambda>r P'. P' = P(new \<mapsto> R0) \<or> r \<noteq> Inr () \<and> P' = P"])
          (auto simp: write_post_def intro!: yields_upsert [OF R] yields_return)
    next
      case (Some ip)
      obtain i p where ip: "ip = (i, p)" by fastforce
      have P: "P i = Some p" "active_of k P = {i}" "i \<noteq> []" using prev Some ip by auto
      let ?P = "P(new \<mapsto> R0)"
      have ne: "new \<noteq> i" using new P(1) by auto
      have written: "commit_post k now new i R0 ?P r Q \<Longrightarrow> consistent k Q \<and> (\<forall>x. x \<noteq> new \<longrightarrow> x \<notin> active_of k P \<longrightarrow> Q x = P x)
          \<and> (r = Inr () \<longrightarrow> version_written k h new (Some (i, p)) Q)" for r Q
        using commit_written [OF set new P] R0 Some ip by blast
      have "free p" "is_active p" using set P sole_active [OF P(2,1)] by (auto simp: settled_def)
      then have "commit_staged V now new R0 i p = bindS (supersede V now i new) (\<lambda>_. activate_staged V now new R0)"
        by (auto simp: commit_staged_def foreign_successor_def free_def)
      moreover have "?P i = Some p" using ne P(1) by simp
      ultimately have commit: "yields pts (commit_staged V now new R0 i p) ?P (commit_post k now new i R0 ?P)"
        using yields_both [where P = ?P and q = i and pq = p, OF R] \<open>is_active p\<close> by simp
      have "commit_post k now new i R0 ?P (Inl e) ?P" for e by (simp add: commit_post_def)
      from written [OF this] have mid: "write_post k h new previous P (Inl e) ?P" for e by (simp add: write_post_def)
      show "yields pts (bindS (rp_upsert (sv_repository V) new vector R0) (\<lambda>_.
          case previous of
            None \<Rightarrow> returnS \<lparr>er_outcome = INSERT_NEW, er_id = new, er_record = R0, er_previous = None\<rparr>
          | Some (previous_id, p) \<Rightarrow> bindS (commit_staged V now new R0 previous_id p) (\<lambda>_.
              returnS \<lparr>er_outcome = EVOLVE, er_id = new,
                er_record = R0\<lparr>kp_status := Some K_ACTIVE, kp_extensions := committed_extensions base_ext, kp_updated := now\<rparr>,
                er_previous = Some previous_id\<rparr>))) P (write_post k h new previous P)"
      proof (rule yields_bind [where M = "\<lambda>r P'. P' = ?P \<or> r \<noteq> Inr () \<and> P' = P"], goal_cases)
        case 1
        show ?case by (rule yields_upsert [OF R]) auto
      next
        case (2 u P')
        then have P': "P' = ?P" by simp
        show ?case
          unfolding P' Some ip option.case prod.case
          by (rule yields_bind [OF commit])
            (auto dest!: written intro!: yields_return simp: write_post_def)
      next
        case (3 e P')
        then show ?case using stop mid by auto
      qed
    qed
  qed (use stop in \<open>auto intro: yields_lift\<close>)
qed

lemma write_version_spec:
  assumes "repository_ok (sv_repository V) pts" and "settled k P" and "P new = None"
    and "case previous of None \<Rightarrow> active_of k P = {} | Some (i, p) \<Rightarrow> P i = Some p \<and> active_of k P = {i} \<and> i \<noteq> []"
  shows "yields pts (write_version V now new q k n h ext previous) P (write_post k h new previous P)"
proof -
  have stop: "write_post k h new previous P (Inl e) P" for e using assms(2) by (simp add: write_post_def consistent_def)
  show ?thesis
    unfolding write_version_def
  proof (rule yields_bind [where M = "\<lambda>r P'. P' = P"], goal_cases)
    case (2 base_ext P')
    then have P': "P' = P" by simp
    show ?case
      unfolding P'
      by (rule yields_bind [where M = "\<lambda>r P'. P' = P \<and> (\<forall>v. r = Inr v \<longrightarrow> v = build_record V now q k n h base_ext previous)"])
        (use stop in \<open>auto intro!: yields_lift stage_version_spec [OF assms] dest: validate_knowledge_Inr\<close>)
  qed (use stop in \<open>auto intro: yields_lift yields_return\<close>)
qed

subsection \<open>Storing, as a whole\<close>

text \<open>The one active version of a settled store, as the lookup finds it.\<close>

definition current_version :: "entity \<Rightarrow> (uid \<rightharpoonup> knowledge_payload) \<Rightarrow> (uid \<times> knowledge_payload) option \<Rightarrow> bool" where
  "current_version k P previous \<longleftrightarrow> (case previous of None \<Rightarrow> active_of k P = {}
     | Some (i, p) \<Rightarrow> P i = Some p \<and> active_of k P = {i})"

definition unchanged_result :: "uid \<Rightarrow> uid \<Rightarrow> evolution_result \<Rightarrow> bool" where
  "unchanged_result new i res \<longleftrightarrow> er_outcome res = NO_CHANGE \<and> er_id res = i \<and> er_previous res = Some i"

definition decide_post :: "store_request \<Rightarrow> entity \<Rightarrow> ustr \<Rightarrow> uid \<Rightarrow> (uid \<times> knowledge_payload) option
    \<Rightarrow> (uid \<rightharpoonup> knowledge_payload) \<Rightarrow> evolution_result result \<Rightarrow> (uid \<rightharpoonup> knowledge_payload) \<Rightarrow> bool" where
  "decide_post q k digest new previous P r P' \<longleftrightarrow>
     (rq_expected q \<noteq> None \<and> map_option fst previous \<noteq> rq_expected q \<longrightarrow> P' = P \<and> (\<exists>e. r = Inl e))
   \<and> (write_post k digest new previous P r P'
      \<or> P' = P \<and> (\<forall>res. r = Inr res \<longrightarrow> (\<exists>i p. previous = Some (i, p) \<and> kp_hash p = Some digest \<and> unchanged_result new i res)))"

lemma decide_version_spec:
  assumes R: "repository_ok (sv_repository V) pts" and set: "settled k P" and new: "P new = None"
    and prev: "current_version k P previous" and ids: "\<And>i p. P i = Some p \<Longrightarrow> i \<noteq> []"
    and exact: "exact = (case previous of None \<Rightarrow> [] | Some x \<Rightarrow> [x])"
  shows "yields pts (decide_version V ctx now new q k n h bundle ext exact) P (decide_post q k h new previous P)"
proof -
  let ?same = "case previous of None \<Rightarrow> False | Some (_, p) \<Rightarrow> kp_hash p = Some h"
  have stop: "decide_post q k h new previous P (Inl e) P" for e by (simp add: decide_post_def)
  have pr: "(case exact of [] \<Rightarrow> None | x # _ \<Rightarrow> Some x) = previous" "\<not> 1 < length exact"
    using exact by (cases previous; simp)+
  have written: "yields pts (write_version V now new q k n h ext previous) P (write_post k h new previous P)"
    using prev ids by (intro write_version_spec [OF R set new]) (auto simp: current_version_def split: option.splits)
  show ?thesis
  proof (cases "rq_expected q \<noteq> None \<and> map_option fst previous \<noteq> rq_expected q")
    case True
    then show ?thesis
      unfolding decide_version_def pr Let_def using stop by (simp add: pr yields_raise)
  next
    case False
    then have w: "yields pts (write_version V now new q k n h ext previous) P (decide_post q k h new previous P)"
      by (intro yields_mono [OF written]) (auto simp: decide_post_def)
    have same: "yields pts (bindS (liftS (validate_knowledge p)) (\<lambda>v.
        returnS \<lparr>er_outcome = NO_CHANGE, er_id = i, er_record = v, er_previous = Some i\<rparr>)) P (decide_post q k h new previous P)"
      if "previous = Some (i, p)" "kp_hash p = Some h" for i p
      using that False stop
      by (intro yields_bind [where M = "\<lambda>r P'. P' = P"])
        (auto intro!: yields_lift yields_return simp: decide_post_def unchanged_result_def)
    have "decide_version V ctx now new q k n h bundle ext exact =
        bindS (liftS (relations_changed V ctx bundle ?same (rq_force q) previous)) (\<lambda>changed.
          case previous of
            Some (i, p) \<Rightarrow>
              if ?same \<and> \<not> changed \<and> \<not> rq_force q
              then bindS (liftS (validate_knowledge p)) (\<lambda>v.
                returnS \<lparr>er_outcome = NO_CHANGE, er_id = i, er_record = v, er_previous = Some i\<rparr>)
              else write_version V now new q k n h ext previous
          | None \<Rightarrow> write_version V now new q k n h ext previous)"
      using False by (simp only: decide_version_def pr Let_def if_False simp_thms)
    then show ?thesis
      using stop w same
      by (simp only:) (rule yields_bind [where M = "\<lambda>r P'. P' = P"], auto intro!: yields_lift split: option.splits)
  qed
qed

text \<open>What recovery leaves: a settled store, no new neighbours, and other entities as they were.\<close>

lemma recover_post_facts:
  assumes "recover_post k now P r P'" and "consistent k P"
  shows "consistent k P'" and "r = Inr () \<Longrightarrow> settled k P'" and "neighbours k P' \<subseteq> neighbours k P" and "others_kept k P P'"
    and "dom P' = dom P"
proof -
  have "consistent k P' \<and> (r = Inr () \<longrightarrow> settled k P') \<and> neighbours k P' \<subseteq> neighbours k P \<and> others_kept k P P' \<and> dom P' = dom P"
  proof (cases "settled k P \<and> P' = P")
    case True
    then show ?thesis by (simp add: others_kept_refl consistent_def)
  next
    case False
    then obtain i q pn where s: "staged k P i q" "P i = Some pn" "commit_post k now i q pn P r P'"
      using assms(1) unfolding recover_post_def by blast
    obtain pq where e: "P q = Some pq" "has_entity k pn" "has_entity k pq" "is_pending pn"
      using staged_entities [OF s(1)] s(2) by auto
    note post = commit_post_consistent [OF s]
    have qs: "P' q = P q \<or> is_active pq"
    proof (cases "is_active pq")
      case False
      then have "P' = P \<or> P' = activated_points now i pn P"
        using s(3) e(1) by (auto simp: commit_post_def finished_points_def)
      then show ?thesis using staged_entities [OF s(1)] by (auto simp: activated_points_def)
    qed simp
    have "neighbours k P' \<subseteq> neighbours k P"
    proof
      fix x assume x: "x \<in> neighbours k P'"
      show "x \<in> neighbours k P"
        using x qs post(3) [of x] e s(2) by (cases "x = i \<or> x = q") (auto simp: neighbours_def has_entity_def)
    qed
    moreover have "others_kept k P P'"
      using post(3) e s(2) by (auto simp: others_kept_def) (metis option.inject)
    ultimately show ?thesis using post by simp
  qed
  then show "consistent k P'" and "r = Inr () \<Longrightarrow> settled k P'" and "neighbours k P' \<subseteq> neighbours k P"
    and "others_kept k P P'" and "dom P' = dom P" by blast+
qed

text \<open>The whole run: a recovered store, and from there nothing or a decision.\<close>

definition store_post :: "store_request \<Rightarrow> entity \<Rightarrow> ustr \<Rightarrow> int \<Rightarrow> uid \<Rightarrow> (uid \<rightharpoonup> knowledge_payload)
    \<Rightarrow> evolution_result result \<Rightarrow> (uid \<rightharpoonup> knowledge_payload) \<Rightarrow> bool" where
  "store_post q k digest now new P r P' \<longleftrightarrow>
     (\<exists>e. r = Inl e) \<and> (P' = P \<or> (\<exists>r0. recover_post k now P r0 P'))
   \<or> (\<exists>P1 previous. recover_post k now P (Inr ()) P1 \<and> current_version k P1 previous
        \<and> decide_post q k digest new previous P1 r P')"

lemma current_exists:
  assumes "settled k P"
  shows "\<exists>previous. current_version k P previous"
proof (cases "active_of k P = {}")
  case True
  then have "current_version k P None" by (simp add: current_version_def)
  then show ?thesis ..
next
  case False
  then obtain i where "active_of k P = {i}" "\<exists>p. P i = Some p" using assms by (auto simp: settled_def)
  then obtain p where "current_version k P (Some (i, p))" by (auto simp: current_version_def)
  then show ?thesis ..
qed

lemma store_entity_spec:
  assumes R: "repository_ok (sv_repository V) pts" and con: "consistent k P" and ids: "canonical_ids V (dom P)"
    and fin: "finite (neighbours k P)" and card: "card (neighbours k P) \<le> 10" and new: "P new = None"
  shows "yields pts (store_entity V ctx now new q k n h bundle ext) P (store_post q k h now new P)"
proof -
  show ?thesis
    unfolding store_entity_def
  proof (rule yields_bind [OF recover_spec [OF R con ids fin card]], goal_cases)
    case (1 u P1)
    then have rec: "recover_post k now P (Inr ()) P1" by simp
    note facts = recover_post_facts [OF rec con]
    have set: "settled k P1" using facts(2) by simp
    obtain previous where prev: "current_version k P1 previous" using current_exists [OF set] ..
    have "finite (neighbours k P1)" "card (neighbours k P1) \<le> 10"
      using facts(3) fin card by (auto intro: finite_subset order_trans [OF card_mono])
    then have m: "finite (matching (active_filter k) P1)" "card (matching (active_filter k) P1) \<le> 10"
      using card_matching [of k P1 "active_filter k"] by auto
    have new1: "P1 new = None" using facts(5) new by (metis domIff)
    have ids1: "\<And>i p. P1 i = Some p \<Longrightarrow> i \<noteq> []" using facts(5) ids by (auto simp: canonical_ids_def)
    have stop: "store_post q k h now new P (Inl e) P1" for e using rec by (auto simp: store_post_def)
    show ?case
    proof (rule yields_bind [where M = "\<lambda>r P'. P' = P1"], goal_cases)
      case (2 lookup P2)
      then have P2: "P2 = P1" by simp
      show ?case
        unfolding P2
      proof (rule yields_bind [where M = "\<lambda>r P'. P' = P1 \<and> (\<forall>xs. r = Inr xs \<longrightarrow> set xs = matching (active_filter k) P1 \<and> distinct (map fst xs))"], goal_cases)
        case 1
        show ?case by (rule yields_read [OF repository_laws(4) [OF R] m]) auto
      next
        case (2 xs P3)
        then have P3: "P3 = P1" and xs: "set xs = matching (active_filter k) P1" "distinct (map fst xs)" by auto
        let ?exact = "filter (\<lambda>(i, p). same_context p k \<and> same_partition p k) xs"
        have ex: "set ?exact = {(i, p). P1 i = Some p \<and> i \<in> active_of k P1}" "distinct (map fst ?exact)"
          using exact_points [OF xs active_points] by auto
        have "?exact = (case previous of None \<Rightarrow> [] | Some x \<Rightarrow> [x])"
        proof (cases previous)
          case None
          then have "set ?exact = {}" using ex(1) prev by (simp add: current_version_def)
          then have "?exact = []" unfolding set_empty .
          with None show ?thesis by simp
        next
          case (Some ip)
          obtain i p where ip: "ip = (i, p)" by fastforce
          have "set ?exact = {(i, p)}" using ex(1) prev Some ip by (auto simp: current_version_def)
          then have "?exact = [(i, p)]" by (rule single_list [OF _ ex(2)])
          with Some ip show ?thesis by simp
        qed
        from decide_version_spec [OF R set new1 prev ids1 this]
        show ?case unfolding P3 by (rule yields_mono) (use rec prev in \<open>auto simp: store_post_def\<close>)
      qed (use stop in auto)
    qed (use stop in \<open>auto intro: yields_lift\<close>)
  next
    case (2 e P1)
    then show ?case by (auto simp: store_post_def)
  qed
qed

text \<open>Normalizing content twice is normalizing it once, so the stored hash is that of the content.\<close>

text \<open>Admitting relations only reads.\<close>

definition admission_reads :: "'s evolution_service \<Rightarrow> ('s \<Rightarrow> uid \<rightharpoonup> knowledge_payload) \<Rightarrow> bool" where
  "admission_reads V pts \<longleftrightarrow> (\<forall>k raw s. pts (snd (rl_admit (sv_relations V) k raw s)) = pts s)"

lemma admit_request_reads:
  "admission_reads V pts \<Longrightarrow> yields pts (admit_request V q k) P (\<lambda>r P'. P' = P)"
  unfolding admit_request_def
  by (auto simp: Let_def intro!: yields_raise yields_return yields_bind [where M = "\<lambda>r P'. P' = P"] split: option.splits sum.splits)
    (auto simp: yields_def admission_reads_def, metis snd_conv)

lemma store_knowledge_spec:
  assumes R: "repository_ok (sv_repository V) pts" and adm: "admission_reads V pts"
    and scope: "scoped_values U ctx KNOWLEDGE_WRITE (rq_scope q) = Inr scope" and k: "k = entity_of q scope"
    and con: "consistent k P" and ids: "canonical_ids V (dom P)"
    and fin: "finite (neighbours k P)" and card: "card (neighbours k P) \<le> 10" and new: "P new = None"
  shows "yields pts (store_knowledge U V ctx now new q) P
    (store_post q k (sv_sha V (py_strip (unix_newlines (rq_content q)))) now new P)"
proof -
  have stop: "store_post q k h now new P (Inl e) P" for h e by (simp add: store_post_def)
  show ?thesis
    unfolding store_knowledge_def scope k [symmetric]
  proof (rule yields_bind [where M = "\<lambda>r P'. P' = P \<and> r = Inr scope"], goal_cases)
    case (2 sc P1)
    then have eq: "P1 = P" "sc = scope" by auto
    show ?case
      unfolding eq k [symmetric]
    proof (rule yields_bind [where M = "\<lambda>r P'. P' = P \<and> r = normalize_content (rq_content q)"], goal_cases)
      case (2 n P2)
      then have n: "P2 = P" "normalize_content (rq_content q) = Inr n" by auto
      have h: "content_hash (sv_sha V) n = Inr (sv_sha V (py_strip (unix_newlines (rq_content q))))"
        using n(2) normalize_content_idem [OF n(2)] by (auto simp: content_hash_def normalize_content_def Let_def split: if_splits)
      show ?case
        unfolding n(1) h
      proof (rule yields_bind [where M = "\<lambda>r P'. P' = P"], goal_cases)
        case (2 u P3)
        then have P3: "P3 = P" by simp
        show ?case
          unfolding P3
        proof (rule yields_bind [OF admit_request_reads [OF adm]], goal_cases)
          case (1 be P4)
          obtain b e where be: "be = (b, e)" by fastforce
          show ?case
            unfolding 1 be prod.case
            by (rule yields_bind [where M = "\<lambda>r P'. P' = P \<and> r = Inr (sv_sha V (py_strip (unix_newlines (rq_content q))))"])
              (auto intro: yields_lift store_entity_spec [OF R con ids fin card new])
        qed (use stop in auto)
      qed (auto intro: yields_lift stop)
    qed (auto intro: yields_lift stop)
  qed (auto intro: yields_lift)
qed

subsection \<open>A store that answers\<close>

text \<open>No call of the point store raises.\<close>

definition answers :: "'s repository \<Rightarrow> bool" where
  "answers R \<longleftrightarrow> (\<forall>i d s. fst (rp_set_payload R i d s) = Inr ()) \<and> (\<forall>i s. \<exists>x. fst (rp_retrieve R i s) = Inr x)
     \<and> (\<forall>n cs s. \<exists>x. fst (rp_scroll R n cs s) = Inr x)"

text \<open>\<open>reaches\<close>: from every state that shows \<open>P\<close> the computation returns, with points that meet \<open>Q\<close>.\<close>

definition reaches :: "('s \<Rightarrow> uid \<rightharpoonup> knowledge_payload) \<Rightarrow> ('s, 'a) io \<Rightarrow> (uid \<rightharpoonup> knowledge_payload)
    \<Rightarrow> ('a \<Rightarrow> (uid \<rightharpoonup> knowledge_payload) \<Rightarrow> bool) \<Rightarrow> bool" where
  "reaches pts m P Q \<longleftrightarrow> (\<forall>s. pts s = P \<longrightarrow> (\<exists>x s'. m s = (Inr x, s') \<and> Q x (pts s')))"

lemma reaches_bind:
  assumes "reaches pts m P M" and "\<And>x P'. M x P' \<Longrightarrow> reaches pts (f x) P' Q"
  shows "reaches pts (bindS m f) P Q"
  unfolding reaches_def
proof (intro allI impI)
  fix s assume "pts s = P"
  then obtain x s1 where m: "m s = (Inr x, s1)" "M x (pts s1)" using assms(1) unfolding reaches_def by blast
  then show "\<exists>y s'. bindS m f s = (Inr y, s') \<and> Q y (pts s')"
    using assms(2) [OF m(2)] unfolding reaches_def by (simp add: bindS_def)
qed

lemma reaches_answer:
  assumes "yields pts m P (\<lambda>r P'. \<forall>x. r = Inr x \<longrightarrow> Q x P')" and "\<And>s. \<exists>x. fst (m s) = Inr x"
  shows "reaches pts m P Q"
  unfolding reaches_def
proof (intro allI impI)
  fix s assume s: "pts s = P"
  obtain x where "fst (m s) = Inr x" using assms(2) by blast
  then have m: "m s = (Inr x, snd (m s))" by (metis prod.collapse)
  with assms(1) s have "Q x (pts (snd (m s)))" unfolding yields_def by blast
  with m show "\<exists>y s'. m s = (Inr y, s') \<and> Q y (pts s')" by blast
qed

lemma recover_reaches:
  assumes R: "repository_ok (sv_repository V) pts" and A: "answers (sv_repository V)" and st: "staged k P i q"
    and ids: "canonical_ids V (dom P)" and fin: "finite (neighbours k P)" and card: "card (neighbours k P) \<le> 10"
  shows "reaches pts (recover_pending V now k) P (\<lambda>_ P'. P' = finished_points now i q (the (P i)) P)"
proof -
  let ?done = "\<lambda>(_ :: unit) P'. P' = finished_points now i q (the (P i)) P"
  have m: "finite (matching (pending_filter k) P)" "card (matching (pending_filter k) P) \<le> 20"
    using card_matching [OF fin, of "pending_filter k"] card by auto
  obtain pn pq where pn: "P i = Some pn" and pq: "P q = Some pq" "previous_reference (kp_extensions pn) = Some q" "has_entity k pq"
    and stage: "is_active pq \<and> \<not> foreign_successor i (kp_superseded_by pq)
      \<or> kp_status pq = Some K_SUPERSEDED \<and> kp_superseded_by pq = Some i"
    using st by (auto simp: staged_def)
  have set: "\<exists>x. fst (rp_set_payload (sv_repository V) j d s) = Inr x" for j d s using A by (auto simp: answers_def)
  have act: "reaches pts (activate_staged V now i pn) P0 (\<lambda>_ P'. P' = activated_points now i pn P0)" for P0
    unfolding activate_staged_def
    by (rule reaches_answer [OF yields_set [OF R] set]) (auto simp: activated_points_def)
  have sup: "reaches pts (supersede V now q i) P (\<lambda>_ P'. P' = superseded_points now q i P)"
    unfolding supersede_def
    by (rule reaches_answer [OF yields_set [OF R] set]) (auto simp: superseded_points_def)
  have both: "reaches pts (bindS (supersede V now q i) (\<lambda>_. activate_staged V now i pn)) P
      (\<lambda>_ P'. P' = activated_points now i pn (superseded_points now q i P))"
    by (rule reaches_bind [OF sup]) (use act in simp)
  have point: "reaches pts (recover_point V now k i pn) P ?done"
    unfolding recover_point_def pq(2) option.case
  proof (rule reaches_bind [where M = "\<lambda>x P'. x = q \<and> P' = P"], goal_cases)
    case 1
    then show ?case using ids pq(1) by (auto simp: reaches_def liftS_def canonical_ids_def)
  next
    case (2 x P')
    then have eq: "x = q" "P' = P" by auto
    show ?case
      unfolding eq
    proof (rule reaches_bind [where M = "\<lambda>y P'. y = Some (q, pq) \<and> P' = P"], goal_cases)
      case 1
      show ?case
        using A pq(1) by (intro reaches_answer yields_retrieve [OF R]) (auto simp: answers_def)
    next
      case (2 y P'')
      then show ?case
        using stage act [of P] both pq pn
        by (auto simp: has_entity_def is_active_def finished_points_def)
    qed
  qed
  show ?thesis
    unfolding recover_pending_def
  proof (rule reaches_bind [where M = "\<lambda>xs P'. P' = P \<and> set xs = matching (pending_filter k) P \<and> distinct (map fst xs)"], goal_cases)
    case 1
    show ?case
      using A by (intro reaches_answer yields_read [OF repository_laws(5) [OF R] m]) (auto simp: answers_def)
  next
    case (2 xs P')
    let ?exact = "filter (\<lambda>(i, p). same_context p k \<and> pending_state p = Some pending_activation \<and> same_partition p k) xs"
    have exact: "set ?exact = {(i, p). P i = Some p \<and> i \<in> pending_of k P}" "distinct (map fst ?exact)"
      using exact_points [OF _ _ pending_points, of xs] 2 by auto
    have "pending_of k P = {i}" using st by (auto simp: staged_def)
    then have "set ?exact = {(i, pn)}" using exact(1) pn by auto
    then have "?exact = [(i, pn)]" by (rule single_list [OF _ exact(2)])
    with point 2 show ?case by simp
  qed
qed

subsection \<open>Properties\<close>

text \<open>The assumptions about one call: what is relied on outside, and a bounded crowd of neighbours.\<close>

definition store_call_ok :: "'s evolution_service \<Rightarrow> ('s \<Rightarrow> uid \<rightharpoonup> knowledge_payload) \<Rightarrow> entity \<Rightarrow> uid \<Rightarrow> (uid \<rightharpoonup> knowledge_payload) \<Rightarrow> bool" where
  "store_call_ok V pts k new P \<longleftrightarrow> repository_ok (sv_repository V) pts \<and> admission_reads V pts \<and> canonical_ids V (dom P)
     \<and> finite (neighbours k P) \<and> card (neighbours k P) \<le> 10 \<and> P new = None"

text \<open>
  C4. Storing knowledge is crash safe: wherever a store call stops, at any read or write, the
  entity's points stay consistent (settled, or staged with one recoverable pending version)
  and the points of other entities are untouched. When the call returns, the entity is settled
  and the returned id is its one active version, with the hash of the stored content.
\<close>

theorem store_is_crash_safe:
  assumes "store_call_ok V pts k new (pts s)" and "consistent k (pts s)"
    and "scoped_values U ctx KNOWLEDGE_WRITE (rq_scope q) = Inr scope" and "k = entity_of q scope"
    and "store_knowledge U V ctx now new q s = (r, s')"
  shows "consistent k (pts s')
    \<and> (\<forall>i p. pts s i = Some p \<and> \<not> has_entity k p \<longrightarrow> pts s' i = Some p)
    \<and> (\<forall>res. r = Inr res \<longrightarrow> settled k (pts s') \<and> active_of k (pts s') = {er_id res}
         \<and> (\<exists>p. pts s' (er_id res) = Some p \<and> kp_hash p = Some (sv_sha V (py_strip (unix_newlines (rq_content q))))))"
proof -
  let ?h = "sv_sha V (py_strip (unix_newlines (rq_content q)))"
  from assms(1) have ok: "repository_ok (sv_repository V) pts" "admission_reads V pts" "canonical_ids V (dom (pts s))"
    "finite (neighbours k (pts s))" "card (neighbours k (pts s)) \<le> 10" "pts s new = None" by (auto simp: store_call_ok_def)
  have post: "store_post q k ?h now new (pts s) r (pts s')"
    using yieldsD [OF store_knowledge_spec [OF ok(1,2) assms(3,4,2) ok(3-6)] assms(5)] .
  have kept: "others_kept k (pts s) (pts s')" if "recover_post k now (pts s) r0 P1" "write_post k ?h new previous P1 r (pts s')" for r0 P1 previous
    unfolding others_kept_def
  proof (intro allI impI)
    fix i p assume i: "pts s i = Some p" "\<not> has_entity k p"
    have "P1 i = Some p" using recover_post_facts(4) [OF that(1) assms(2)] i by (auto simp: others_kept_def)
    moreover have "i \<noteq> new" using i ok(6) by auto
    moreover have "i \<notin> active_of k P1" using calculation(1) i(2) by (auto simp: active_of_def)
    ultimately show "pts s' i = Some p" using that(2) by (auto simp: write_post_def)
  qed
  have "consistent k (pts s') \<and> others_kept k (pts s) (pts s')
    \<and> (\<forall>res. r = Inr res \<longrightarrow> settled k (pts s') \<and> active_of k (pts s') = {er_id res}
         \<and> (\<exists>p. pts s' (er_id res) = Some p \<and> kp_hash p = Some ?h))"
  proof (cases "(\<exists>e. r = Inl e) \<and> (pts s' = pts s \<or> (\<exists>r0. recover_post k now (pts s) r0 (pts s')))")
    case True
    then have "consistent k (pts s')" "others_kept k (pts s) (pts s')"
      using assms(2) recover_post_facts(1,4) [OF _ assms(2)] others_kept_refl [of k "pts s"] by metis+
    moreover obtain e where "r = Inl e" using True by blast
    ultimately show ?thesis by simp
  next
    case False
    with post obtain P1 previous where rec: "recover_post k now (pts s) (Inr ()) P1" and cur: "current_version k P1 previous"
      and dec: "decide_post q k ?h new previous P1 r (pts s')" unfolding store_post_def by blast
    show ?thesis
    proof (cases "write_post k ?h new previous P1 r (pts s')")
      case True
      then have w: "consistent k (pts s')" "\<forall>res. r = Inr res \<longrightarrow> er_id res = new \<and> version_written k ?h new previous (pts s')"
        unfolding write_post_def by blast+
      have "settled k (pts s') \<and> active_of k (pts s') = {er_id res} \<and> (\<exists>p. pts s' (er_id res) = Some p \<and> kp_hash p = Some ?h)"
        if "r = Inr res" for res
        using w(2) that by (auto simp: version_written_def)
      with w(1) kept [OF rec True] show ?thesis by blast
    next
      case False
      with dec have "pts s' = P1" "\<forall>res. r = Inr res \<longrightarrow> (\<exists>i p. previous = Some (i, p) \<and> kp_hash p = Some ?h \<and> unchanged_result new i res)"
        by (simp_all add: decide_post_def)
      with recover_post_facts [OF rec assms(2)] cur show ?thesis
        by (auto simp: current_version_def unchanged_result_def)
    qed
  qed
  then show ?thesis by (auto simp: others_kept_def)
qed

text \<open>
  C5. Recovery completes: when a store call stopped between its first and last write, the next
  recovery of that entity, by a point store that answers, returns; the staged version is then
  the one active version and its predecessor is superseded by it.
\<close>

theorem recovery_completes:
  assumes "staged k (pts s) i q" and "repository_ok (sv_repository V) pts" and "answers (sv_repository V)"
    and "canonical_ids V (dom (pts s))" and "finite (neighbours k (pts s))" and "card (neighbours k (pts s)) \<le> 10"
  shows "\<exists>s'. recover_pending V now k s = (Inr (), s') \<and> settled k (pts s') \<and> active_of k (pts s') = {i}
    \<and> (\<exists>p. pts s' q = Some p \<and> kp_status p = Some K_SUPERSEDED \<and> kp_superseded_by p = Some i)
    \<and> (\<forall>x. x \<noteq> i \<longrightarrow> x \<noteq> q \<longrightarrow> pts s' x = pts s x)"
proof -
  obtain s' where run: "recover_pending V now k s = (Inr (), s')" "pts s' = finished_points now i q (the (pts s i)) (pts s)"
    using recover_reaches [OF assms(2,3,1,4,5,6), of now] by (auto simp: reaches_def)
  obtain pn pq where p: "pts s i = Some pn" "pts s q = Some pq" "i \<noteq> q" using staged_entities [OF assms(1)] by blast
  have fin: "pts s' = finished_points now i q pn (pts s)" using run(2) p(1) by simp
  have "\<exists>p. pts s' q = Some p \<and> kp_status p = Some K_SUPERSEDED \<and> kp_superseded_by p = Some i"
  proof (cases "is_active pq")
    case True
    then show ?thesis using finished_payloads [OF p(1,2,3), of now] fin by auto
  next
    case False
    then have "kp_status pq = Some K_SUPERSEDED" "kp_superseded_by pq = Some i"
      using assms(1) p(2) by (auto simp: staged_def)
    then show ?thesis using False fin p by (simp add: finished_points_def activated_points_def)
  qed
  then show ?thesis
    using run(1) finished_settles [OF assms(1) p(1), of now] finished_outside [of _ i q now pn "pts s"] fin by auto
qed

text \<open>
  C14. What a returned store call did, from a settled store: \<open>NO_CHANGE\<close> wrote nothing and the
  active version already had that content; \<open>INSERT_NEW\<close> found no active version and wrote
  version 1; \<open>EVOLVE\<close> superseded the active version by one whose number is one more and which
  names it as its predecessor.
\<close>

theorem store_outcomes:
  assumes "store_call_ok V pts k new (pts s)" and "settled k (pts s)"
    and "scoped_values U ctx KNOWLEDGE_WRITE (rq_scope q) = Inr scope" and "k = entity_of q scope"
    and "store_knowledge U V ctx now new q s = (Inr res, s')"
  shows "case er_outcome res of
      NO_CHANGE \<Rightarrow> pts s' = pts s \<and> active_of k (pts s) = {er_id res} \<and> er_previous res = Some (er_id res)
    | INSERT_NEW \<Rightarrow> active_of k (pts s) = {} \<and> er_id res = new \<and> er_previous res = None
        \<and> (\<exists>p. pts s' new = Some p \<and> kp_version p = Some 1 \<and> kp_supersedes p = None)
    | EVOLVE \<Rightarrow> \<exists>i p p' pn. active_of k (pts s) = {i} \<and> er_id res = new \<and> er_previous res = Some i
        \<and> pts s i = Some p \<and> pts s' i = Some p' \<and> kp_status p' = Some K_SUPERSEDED \<and> kp_superseded_by p' = Some new
        \<and> pts s' new = Some pn \<and> kp_supersedes pn = Some i \<and> kp_version pn = Some (the_default 0 (kp_version p) + 1)"
proof -
  let ?h = "sv_sha V (py_strip (unix_newlines (rq_content q)))"
  have con: "consistent k (pts s)" using assms(2) by (simp add: consistent_def)
  from assms(1) have ok: "repository_ok (sv_repository V) pts" "admission_reads V pts" "canonical_ids V (dom (pts s))"
    "finite (neighbours k (pts s))" "card (neighbours k (pts s)) \<le> 10" "pts s new = None" by (auto simp: store_call_ok_def)
  have "store_post q k ?h now new (pts s) (Inr res) (pts s')"
    using yieldsD [OF store_knowledge_spec [OF ok(1,2) assms(3,4) con ok(3-6)] assms(5)] .
  then obtain P1 previous where P1: "recover_post k now (pts s) (Inr ()) P1" "current_version k P1 previous"
    "decide_post q k ?h new previous P1 (Inr res) (pts s')" unfolding store_post_def by blast
  have "pending_of k (pts s) = {}" using assms(2) by (simp add: settled_def)
  then have "P1 = pts s" using P1(1) by (auto simp: recover_post_def staged_def)
  with P1(2,3) have cur: "current_version k (pts s) previous" and post: "decide_post q k ?h new previous (pts s) (Inr res) (pts s')" by auto
  from post consider (written) "write_post k ?h new previous (pts s) (Inr res) (pts s')"
    | (same) i p where "pts s' = pts s" "previous = Some (i, p)" "unchanged_result new i res"
    unfolding decide_post_def by blast
  then show ?thesis
  proof cases
    case written
    then show ?thesis
      using cur by (cases previous) (auto simp: write_post_def version_written_def current_version_def)
  next
    case same
    then show ?thesis using cur by (auto simp: unchanged_result_def current_version_def)
  qed
qed

text \<open>
  Optimistic concurrency: a store call that names the version it reviewed, when that is not
  the active version of a settled entity, ends in an error and writes nothing.
\<close>

theorem stale_review_rejected:
  assumes "store_call_ok V pts k new (pts s)" and "settled k (pts s)"
    and "scoped_values U ctx KNOWLEDGE_WRITE (rq_scope q) = Inr scope" and "k = entity_of q scope"
    and "rq_expected q = Some e" and "active_of k (pts s) \<noteq> {e}"
    and "store_knowledge U V ctx now new q s = (r, s')"
  shows "pts s' = pts s \<and> (\<exists>err. r = Inl err)"
proof -
  let ?h = "sv_sha V (py_strip (unix_newlines (rq_content q)))"
  have con: "consistent k (pts s)" using assms(2) by (simp add: consistent_def)
  from assms(1) have ok: "repository_ok (sv_repository V) pts" "admission_reads V pts" "canonical_ids V (dom (pts s))"
    "finite (neighbours k (pts s))" "card (neighbours k (pts s)) \<le> 10" "pts s new = None" by (auto simp: store_call_ok_def)
  have post: "store_post q k ?h now new (pts s) r (pts s')"
    using yieldsD [OF store_knowledge_spec [OF ok(1,2) assms(3,4) con ok(3-6)] assms(7)] .
  have "pending_of k (pts s) = {}" using assms(2) by (simp add: settled_def)
  then have rec: "recover_post k now (pts s) r0 P1 \<Longrightarrow> P1 = pts s" for r0 P1 by (auto simp: recover_post_def staged_def)
  have stale: "map_option fst previous \<noteq> Some e" if "current_version k (pts s) previous" for previous
    using that assms(6) by (auto simp: current_version_def)
  show ?thesis
  proof (cases "(\<exists>e. r = Inl e) \<and> (pts s' = pts s \<or> (\<exists>r0. recover_post k now (pts s) r0 (pts s')))")
    case True
    then show ?thesis using rec by auto
  next
    case False
    with post obtain P1 previous where P1: "recover_post k now (pts s) (Inr ()) P1" "current_version k P1 previous"
      "decide_post q k ?h new previous P1 r (pts s')" unfolding store_post_def by blast
    then have "P1 = pts s" using rec by simp
    with P1 stale [of previous] assms(5) show ?thesis by (simp add: decide_post_def)
  qed
qed

subsection \<open>Witnesses\<close>

text \<open>A point store in memory, as the test doubles of the repository keep one.\<close>

type_synonym memory = "(uid \<times> knowledge_payload) list"

definition memory_points :: "memory \<Rightarrow> (uid \<times> knowledge_payload) list" where
  "memory_points s = map (\<lambda>i. (i, the (map_of s i))) (fromkeys (map fst s))"

definition memory_read :: "nat \<Rightarrow> knowledge_condition list \<Rightarrow> (memory, (uid \<times> knowledge_payload) list) io" where
  "memory_read n cs s = (Inr (take n (filter (\<lambda>(i, p). list_all (\<lambda>c. condition_holds c p) cs) (memory_points s))), s)"

definition memory_repository :: "memory repository" where
  "memory_repository = \<lparr>rp_upsert = (\<lambda>i v p s. (Inr (), (i, p) # s)),
     rp_set_payload = (\<lambda>i d s. (Inr (), case map_of s i of None \<Rightarrow> s | Some p \<Rightarrow> (i, apply_patch d p) # s)),
     rp_retrieve = (\<lambda>i s. (Inr (map_option (Pair i) (map_of s i)), s)),
     rp_search = (\<lambda>v. memory_read), rp_scroll = memory_read\<rparr>"

lemma memory_points_matching:
  "set (filter (\<lambda>(i, p). list_all (\<lambda>c. condition_holds c p) cs) (memory_points s)) = matching cs (map_of s)"
proof -
  have "(i, p) \<in> set (memory_points s) \<longleftrightarrow> map_of s i = Some p" for i p
  proof -
    have "(i, p) \<in> set (memory_points s) \<longleftrightarrow> i \<in> fst ` set s \<and> p = the (map_of s i)"
      by (auto simp: memory_points_def)
    then show ?thesis by (cases "map_of s i") (auto simp: map_of_eq_None_iff [symmetric] dest: map_of_eq_None_iff [THEN iffD1])
  qed
  then show ?thesis by (auto simp: matching_def)
qed

lemma memory_read_ok: "filtered_read_ok map_of n cs (memory_read n cs)"
proof -
  have d: "distinct (map fst (memory_points s))" for s by (simp add: memory_points_def comp_def)
  show ?thesis
    unfolding filtered_read_ok_def memory_read_def
  proof (intro allI impI)
    fix s r s'
    let ?xs = "filter (\<lambda>(i, p). list_all (\<lambda>c. condition_holds c p) cs) (memory_points s)"
    assume "(Inr (take n ?xs), s) = (r, s')"
    then have eq: "r = Inr (take n ?xs)" "s' = s" by auto
    have "distinct (map fst ?xs)" using d by (rule distinct_map_filter)
    then have "distinct (map fst (take n ?xs))" by (simp only: take_map [symmetric] distinct_take)
    moreover have "set (take n ?xs) \<subseteq> matching cs (map_of s)"
      using set_take_subset [of n ?xs] memory_points_matching [of cs s] by simp
    moreover have "length (take n ?xs) < n \<longrightarrow> set (take n ?xs) = matching cs (map_of s)"
      using memory_points_matching [of cs s] by simp
    ultimately show "map_of s' = map_of s \<and> (\<forall>xs. r = Inr xs \<longrightarrow> distinct (map fst xs) \<and> set xs \<subseteq> matching cs (map_of s)
        \<and> length xs \<le> n \<and> (length xs < n \<longrightarrow> set xs = matching cs (map_of s)))"
      using eq by auto
  qed
qed

lemma memory_repository_ok: "repository_ok memory_repository map_of" and memory_answers: "answers memory_repository"
proof -
  show "repository_ok memory_repository map_of"
    using memory_read_ok by (auto simp: repository_ok_def memory_repository_def fun_eq_iff split: option.splits)
  show "answers memory_repository" by (auto simp: answers_def memory_repository_def memory_read_def)
qed

definition plain_relations :: "memory relation_ops" where
  "plain_relations = \<lparr>rl_key = (\<lambda>k. Inr []), rl_payload_key = (\<lambda>p. Inr []),
     rl_admit = (\<lambda>k raw. raiseS (ConfigurationError [])), rl_dump = (\<lambda>b. JNull),
     rl_bundle = (\<lambda>e. Inr \<lparr>rb_edges = [], rb_digest = []\<rparr>), rl_project = (\<lambda>k e. Inr JNull)\<rparr>"

definition memory_service :: "memory evolution_service" where
  "memory_service = \<lparr>sv_repository = memory_repository, sv_embed = (\<lambda>t. Inr []), sv_embedding_version = [],
     sv_assert_safe = (\<lambda>ts. Inr ()), sv_sha = (\<lambda>t. 35 # t), sv_repr = (\<lambda>d. []), sv_identity_repr = (\<lambda>m c. []), sv_lower = (\<lambda>t. t),
     sv_parse_uuid = (\<lambda>i. Inr i),
     sv_relations = plain_relations\<rparr>"

definition plain_meta :: knowledge_meta where
  "plain_meta = \<lparr>km_summary = None, km_identity_trust = [], km_ordinary_recall = True, km_retention = [],
     km_change_reason = None, km_importance = None, km_verification = [], km_confidence = None, km_provenance = None,
     km_source = None, km_evidence = [], km_origin = [], km_dream_run = None, km_negative = False\<rparr>"

definition plain_request :: store_request where
  "plain_request = \<lparr>rq_content = [104, 105], rq_domain = [100], rq_topic = [116], rq_type = [101], rq_name = [110],
     rq_scope = Map.empty, rq_class = CLASS_KNOWLEDGE, rq_context = None, rq_extensions = None, rq_force = False,
     rq_expected = None, rq_meta = plain_meta\<rparr>"

definition plain_entity :: entity where
  "plain_entity = entity_of plain_request Map.empty"

definition version_one :: knowledge_payload where
  "version_one = build_record memory_service 0 plain_request plain_entity [104, 105] [35, 104, 105] [index_key \<mapsto> JNull] None"

definition version_two :: knowledge_payload where
  "version_two = build_record memory_service 0 plain_request plain_entity [104] [35, 104] [index_key \<mapsto> JNull] (Some ([49], version_one))"

lemma plain_scope: "scoped_values ascii_tables None KNOWLEDGE_WRITE (rq_scope plain_request) = Inr Map.empty"
  by (simp add: scoped_values_def enforce_operation_def plain_request_def)

lemma empty_facts: "store_call_ok memory_service map_of k new (map_of [])" "settled k (map_of [])" "consistent k (map_of [])"
proof -
  show "store_call_ok memory_service map_of k new (map_of [])"
    using memory_repository_ok by (simp add: store_call_ok_def memory_service_def admission_reads_def plain_relations_def raiseS_def
        canonical_ids_def neighbours_def)
  show "settled k (map_of [])" by (simp add: settled_def active_of_def pending_of_def)
  then show "consistent k (map_of [])" by (simp add: consistent_def)
qed

lemma plain_content: "normalize_content [104, 105] = Inr [104, 105]"
  by (simp add: normalize_content_def py_strip_def py_lstrip_def py_rstrip_def py_space_def)

lemma plain_validate: "validate_knowledge version_one = Inr version_one"
  by (simp add: validate_knowledge_def version_one_def build_record_def plain_request_def plain_meta_def)

lemma memory_insert:
  assumes "rq_class q = CLASS_KNOWLEDGE" and "rq_expected q = None" and "rq_scope q = Map.empty"
    and ext: "the_default Map.empty (rq_extensions q) = e" "index_key \<notin> dom e" "e relations_key = None"
    and n: "normalize_content (rq_content q) = Inr n" "normalize_content n = Inr n"
    and made: "build_record memory_service now q (entity_of q Map.empty) n (35 # n) (e(index_key \<mapsto> JNull)) None = p"
    and valid: "validate_knowledge p = Inr p"
  shows "store_knowledge ascii_tables memory_service None now new q []
    = (Inr \<lparr>er_outcome = INSERT_NEW, er_id = new, er_record = p, er_previous = None\<rparr>, [(new, p)])"
proof -
  let ?k = "entity_of q Map.empty"
  have scope: "scoped_values ascii_tables None KNOWLEDGE_WRITE (rq_scope q) = Inr Map.empty"
    by (simp add: scoped_values_def enforce_operation_def assms(3))
  have adm: "admit_request memory_service q ?k = returnS (None, e)"
    using ext by (simp add: admit_request_def)
  have hash: "content_hash (sv_sha memory_service) n = Inr (35 # n)"
    by (simp add: content_hash_def n(2) memory_service_def)
  have rec: "recover_pending memory_service now ?k [] = (Inr (), [])"
    by (simp add: recover_pending_def memory_service_def memory_repository_def memory_read_def memory_points_def
        bindS_def returnS_def)
  have search: "rp_search (sv_repository memory_service) v 10 cs [] = (Inr [], [])" for v cs
    by (simp add: memory_service_def memory_repository_def memory_read_def memory_points_def)
  have embed: "sv_embed memory_service t = Inr []" for t by (simp add: memory_service_def)
  have cls: "en_class ?k = knowledge_class" by (simp add: entity_of_def assms(1) knowledge_class_def)
  have proj: "rl_project (sv_relations memory_service) k e = Inr JNull" "rl_bundle (sv_relations memory_service) e = Inr \<lparr>rb_edges = [], rb_digest = []\<rparr>"
    for k e by (simp_all add: memory_service_def plain_relations_def)
  have "write_version memory_service now new q ?k n (35 # n) e None []
     = (Inr \<lparr>er_outcome = INSERT_NEW, er_id = new, er_record = p, er_previous = None\<rparr>, [(new, p)])"
    unfolding write_version_def stage_version_def
    by (simp add: cls proj liftS_def bindS_def returnS_def made valid)
      (simp add: memory_service_def memory_repository_def bindS_def returnS_def)
  then have "decide_version memory_service None now new q ?k n (35 # n) None e [] []
     = (Inr \<lparr>er_outcome = INSERT_NEW, er_id = new, er_record = p, er_previous = None\<rparr>, [(new, p)])"
    by (simp add: decide_version_def relations_changed_def proj bindS_def liftS_def assms(2))
  then have "store_entity memory_service None now new q ?k n (35 # n) None e []
     = (Inr \<lparr>er_outcome = INSERT_NEW, er_id = new, er_record = p, er_previous = None\<rparr>, [(new, p)])"
    unfolding store_entity_def by (simp add: bindS_def rec liftS_def search embed)
  moreover have "sv_assert_safe memory_service ts = Inr ()" for ts by (simp add: memory_service_def)
  ultimately show ?thesis
    unfolding store_knowledge_def by (simp add: bindS_def liftS_def scope adm returnS_def hash n(1))
qed

lemma plain_store:
  "store_knowledge ascii_tables memory_service None 0 [49] plain_request [] =
     (Inr \<lparr>er_outcome = INSERT_NEW, er_id = [49], er_record = version_one, er_previous = None\<rparr>, [([49], version_one)])"
  by (rule memory_insert [OF _ _ _ _ _ _ _ plain_content _ plain_validate])
    (simp_all add: plain_request_def plain_content version_one_def plain_entity_def)

definition one_version :: "uid \<rightharpoonup> knowledge_payload" where
  "one_version = map_of [([49], version_one)]"

lemma one_version_facts:
  "one_version [49] = Some version_one" "settled plain_entity one_version" "active_of plain_entity one_version = {[49]}"
proof -
  show "one_version [49] = Some version_one" by (simp add: one_version_def)
  have o: "one_version = Map.empty([49] \<mapsto> version_one)" by (simp add: one_version_def)
  have v: "has_entity plain_entity version_one" "is_active version_one" "free version_one"
    by (simp_all add: version_one_def is_active_def)
  have e: "active_of plain_entity Map.empty = {}" "pending_of plain_entity Map.empty = {}"
    by (simp_all add: active_of_def pending_of_def)
  show act: "active_of plain_entity one_version = {[49]}" unfolding o by (simp add: active_of_new v e)
  have "pending_of plain_entity one_version = {}" unfolding o by (simp add: pending_of_new v not_both e)
  with act v show "settled plain_entity one_version" by (simp add: settled_def one_version_def)
qed

theorem store_is_crash_safe_witness:
  "active_of plain_entity one_version = {[49]} \<and> kp_hash version_one = Some [35, 104, 105] \<and> settled plain_entity one_version"
proof -
  have "py_strip (unix_newlines (rq_content plain_request)) = [104, 105]"
    using plain_content by (simp add: plain_request_def normalize_content_def Let_def split: if_splits)
  with store_is_crash_safe [OF empty_facts(1,3) plain_scope plain_entity_def plain_store] one_version_facts(1)
  show ?thesis unfolding one_version_def by (simp add: memory_service_def del: map_of.simps)
qed

theorem store_outcomes_witness:
  "\<exists>p. one_version [49] = Some p \<and> kp_version p = Some 1"
  using store_outcomes [OF empty_facts(1,2) plain_scope plain_entity_def plain_store] by (simp add: one_version_def)

theorem stale_review_rejected_witness:
  "\<exists>err. fst (store_knowledge ascii_tables memory_service None 0 [49] (plain_request\<lparr>rq_expected := Some [55]\<rparr>) []) = Inl err"
proof -
  let ?q = "plain_request\<lparr>rq_expected := Some [55]\<rparr>"
  have k: "plain_entity = entity_of ?q Map.empty" by (simp add: plain_entity_def entity_of_def)
  have sc: "scoped_values ascii_tables None KNOWLEDGE_WRITE (rq_scope ?q) = Inr Map.empty"
    using plain_scope by simp
  have e: "rq_expected ?q = Some [55]" "active_of plain_entity (map_of []) \<noteq> {[55]}" by (simp_all add: active_of_def)
  obtain r s' where run: "store_knowledge ascii_tables memory_service None 0 [49] ?q [] = (r, s')" by fastforce
  from stale_review_rejected [OF empty_facts(1,2) sc k e run] run show ?thesis by simp
qed

lemma staged_state: "staged plain_entity (map_of [([50], version_two), ([49], version_one)]) [50] [49]"
proof -
  have "staged plain_entity (one_version([50] \<mapsto> version_two)) [50] [49]"
    unfolding version_two_def using one_version_facts by (intro staging_staged) (auto simp: one_version_def)
  then show ?thesis by (simp add: one_version_def)
qed

theorem recovery_completes_witness:
  "\<exists>s'. recover_pending memory_service 5 plain_entity [([50], version_two), ([49], version_one)] = (Inr (), s')
    \<and> active_of plain_entity (map_of s') = {[50]}"
proof -
  let ?s = "[([50], version_two), ([49], version_one)]"
  have sub: "neighbours plain_entity (map_of ?s) \<subseteq> {[50], [49]}" by (auto simp: neighbours_def split: if_splits)
  then have "finite (neighbours plain_entity (map_of ?s))" by (rule finite_subset) simp
  moreover have "card (neighbours plain_entity (map_of ?s)) \<le> 10"
    using card_mono [OF _ sub] by (simp add: order_trans)
  moreover have "canonical_ids memory_service (dom (map_of ?s))" by (auto simp: canonical_ids_def memory_service_def)
  moreover have "sv_repository memory_service = memory_repository" by (simp add: memory_service_def)
  ultimately show ?thesis
    using recovery_completes [where V = memory_service and pts = map_of and s = ?s and now = 5, OF staged_state] memory_repository_ok memory_answers by auto
qed

end
