(* ===== verification/Episodic_Memory.thy ===== *)
theory Episodic_Memory
  imports Point_Store Content
begin

text \<open>
  Episodic Memory, \<^verbatim>\<open>cyberbrain/memory/service.py\<close>: canonical episodes
  (\<^verbatim>\<open>EpisodeRecord\<close> of \<^verbatim>\<open>schemas/models.py\<close>), attributed writes and scoped reads over the
  point store. The embedding, the secret scanner, SHA-256 and \<^verbatim>\<open>repr\<close> are parameters, as
  are the clock and the id that \<^verbatim>\<open>uuid4\<close> draws; the embedded vector plays no part.
\<close>

subsection \<open>Episodes\<close>

datatype identity_trust = TRUST_UNSPECIFIED | TRUST_LEGACY | TRUST_AUTHENTICATED | TRUST_SYSTEM_DERIVED

datatype episode_role = ROLE_USER | ROLE_ASSISTANT | ROLE_SYSTEM | ROLE_TOOL | ROLE_SUMMARY | ROLE_OTHER

fun role_value :: "episode_role \<Rightarrow> ustr" where
  "role_value ROLE_USER = lit ''user''"
| "role_value ROLE_ASSISTANT = lit ''assistant''"
| "role_value ROLE_SYSTEM = lit ''system''"
| "role_value ROLE_TOOL = lit ''tool''"
| "role_value ROLE_SUMMARY = lit ''summary''"
| "role_value ROLE_OTHER = lit ''other''"

datatype dream_status = DREAM_PENDING | DREAM_PROCESSING | DREAM_PROCESSED | DREAM_SKIPPED | DREAM_FAILED

fun dream_status_value :: "dream_status \<Rightarrow> ustr" where
  "dream_status_value DREAM_PENDING = lit ''pending''"
| "dream_status_value DREAM_PROCESSING = lit ''processing''"
| "dream_status_value DREAM_PROCESSED = lit ''processed''"
| "dream_status_value DREAM_SKIPPED = lit ''skipped''"
| "dream_status_value DREAM_FAILED = lit ''failed''"

text \<open>A validated episode holds instants. Its five identity fields are one map.\<close>

record episode =
  es_id :: uid
  es_content :: ustr
  es_scope :: identity_values
  es_event_time :: int
  es_channel :: "ustr option"
  es_role :: "episode_role option"
  es_trust :: identity_trust
  es_topic :: "ustr option"
  es_keywords :: "ustr list"
  es_importance :: "ustr option"
  es_source :: "ustr option"
  es_dream_status :: dream_status
  es_dream_run :: "ustr option"
  es_dreamed_at :: "int option"
  es_hash :: ustr
  es_embedding_version :: "ustr option"
  es_recall :: bool
  es_context :: dict
  es_extensions :: dict
  es_created :: int
  es_updated :: int

definition normalize_episode_time :: "timestamp \<Rightarrow> int result" where
  "normalize_episode_time t =
     (case t of Aware i \<Rightarrow> Inr i
      | Naive _ \<Rightarrow> Inl (ValueError (lit ''episode timestamps must include a timezone'')))"

definition validate_session_id :: "ustr option \<Rightarrow> ustr result" where
  "validate_session_id v =
     (case v of None \<Rightarrow> Inl (ValueError (lit ''session_id must be a string''))
      | Some s \<Rightarrow> if py_strip s = [] then Inl (ValueError (lit ''session_id must not be empty'')) else Inr (py_strip s))"

subsection \<open>The episodic collection\<close>

text \<open>
  A stored payload is the dump of an episode, which \<^verbatim>\<open>model_validate\<close> reads back as it
  was, or one that does not validate, of which only the keywords that filters test matter.
\<close>

datatype episode_key = KEY_SCOPE identity_dimension | KEY_CHANNEL | KEY_ROLE | KEY_TOPIC | KEY_DREAM_STATUS | KEY_SOURCE

datatype episode_payload = Canonical episode | Unreadable "episode_key \<rightharpoonup> ustr" "bool option"

definition model_validate :: "episode_payload \<Rightarrow> episode result" where
  "model_validate p =
     (case p of Canonical e \<Rightarrow> Inr e | Unreadable _ _ \<Rightarrow> Inl (ValueError (lit ''validation error for EpisodeRecord'')))"

fun episode_text :: "episode_key \<Rightarrow> episode \<Rightarrow> ustr option" where
  "episode_text (KEY_SCOPE d) e = es_scope e d"
| "episode_text KEY_CHANNEL e = es_channel e"
| "episode_text KEY_ROLE e = map_option role_value (es_role e)"
| "episode_text KEY_TOPIC e = es_topic e"
| "episode_text KEY_DREAM_STATUS e = Some (dream_status_value (es_dream_status e))"
| "episode_text KEY_SOURCE e = es_source e"

fun payload_text :: "episode_key \<Rightarrow> episode_payload \<Rightarrow> ustr option" where
  "payload_text k (Canonical e) = episode_text k e"
| "payload_text k (Unreadable m b) = m k"

text \<open>
  The filter conditions the code builds; \<open>Recallable\<close> is the clause that
  \<^verbatim>\<open>ordinary_recall\<close> is true or missing.
\<close>

datatype episode_condition = HasText episode_key ustr | Scoped repo_condition | Recallable

definition scope_text :: "episode_payload \<Rightarrow> identity_values" where
  "scope_text p d = payload_text (KEY_SCOPE d) p"

fun recallable :: "episode_payload \<Rightarrow> bool" where
  "recallable (Canonical e) = es_recall e"
| "recallable (Unreadable m b) = (b \<noteq> Some False)"

fun episode_meets :: "episode_condition \<Rightarrow> episode_payload \<Rightarrow> bool" where
  "episode_meets (HasText k v) p = (payload_text k p = Some v)"
| "episode_meets (Scoped c) p = payload_match c (scope_text p)"
| "episode_meets Recallable p = recallable p"

text \<open>The partial payload that marks the episodes of a dreamed session.\<close>

record dream_patch =
  dp_status :: dream_status
  dp_run :: "ustr option"
  dp_dreamed_at :: "int option"

definition apply_dream_patch :: "dream_patch \<Rightarrow> episode_payload \<Rightarrow> episode_payload" where
  "apply_dream_patch d p =
     (case p of
        Canonical e \<Rightarrow> Canonical (e\<lparr>es_dream_status := dp_status d,
          es_dream_run := (case dp_run d of None \<Rightarrow> es_dream_run e | Some r \<Rightarrow> Some r),
          es_dreamed_at := (case dp_dreamed_at d of None \<Rightarrow> es_dreamed_at e | Some t \<Rightarrow> Some t)\<rparr>)
      | Unreadable m b \<Rightarrow> Unreadable (m(KEY_DREAM_STATUS \<mapsto> dream_status_value (dp_status d))) b)"

type_synonym 's episode_store = "('s, episode_payload, dream_patch, episode_condition) point_repository"

definition episode_store_ok :: "'s episode_store \<Rightarrow> ('s \<Rightarrow> uid \<rightharpoonup> episode_payload) \<Rightarrow> bool" where
  "episode_store_ok R pts \<longleftrightarrow> point_store_ok R pts apply_dream_patch episode_meets"

subsection \<open>The service\<close>

record 's episodic_service =
  me_repository :: "'s episode_store"
  me_unicode :: unicode_tables
  me_embed :: "ustr \<Rightarrow> real list result"
  me_embedding_version :: ustr
  me_score_threshold :: "real option"
  me_assert_safe :: "ustr option list \<Rightarrow> unit result"
  me_repr :: "dict \<Rightarrow> ustr"
  me_sha :: "ustr \<Rightarrow> ustr"

record memory_request =
  mr_content :: ustr
  mr_scope :: identity_values
  mr_event_time :: timestamp
  mr_channel :: "ustr option"
  mr_role :: "episode_role option"
  mr_trust :: identity_trust
  mr_topic :: "ustr option"
  mr_keywords :: "ustr list"
  mr_importance :: "ustr option"
  mr_source :: "ustr option"
  mr_context :: dict
  mr_extensions :: dict
  mr_point_id :: "uid option"

definition build_episode :: "'s episodic_service \<Rightarrow> int \<Rightarrow> uid \<Rightarrow> memory_request \<Rightarrow> identity_values \<Rightarrow> ustr \<Rightarrow> episode result" where
  "build_episode V now new_id q attribution normalized =
     bindE (validate_session_id (attribution SESSION)) (\<lambda>session.
     bindE (normalize_episode_time (mr_event_time q)) (\<lambda>event_time.
     bindE (content_hash (me_sha V) normalized) (\<lambda>digest.
       Inr \<lparr>es_id = the_default new_id (mr_point_id q), es_content = normalized,
         es_scope = attribution(SESSION \<mapsto> session), es_event_time = event_time,
         es_channel = mr_channel q, es_role = mr_role q, es_trust = mr_trust q, es_topic = mr_topic q,
         es_keywords = mr_keywords q, es_importance = mr_importance q, es_source = mr_source q,
         es_dream_status = DREAM_PENDING, es_dream_run = None, es_dreamed_at = None,
         es_hash = digest, es_embedding_version = Some (me_embedding_version V), es_recall = True,
         es_context = mr_context q, es_extensions = mr_extensions q, es_created = now, es_updated = now\<rparr>)))"

definition memory_store :: "'s episodic_service \<Rightarrow> caller_authority option \<Rightarrow> int \<Rightarrow> uid \<Rightarrow> memory_request
    \<Rightarrow> ('s, episode) io" where
  "memory_store V ctx now new_id q =
     bindS (liftS (scoped_values (me_unicode V) ctx MEMORY_WRITE (mr_scope q))) (\<lambda>attribution.
     bindS (liftS (normalize_content (mr_content q))) (\<lambda>normalized.
     bindS (liftS (me_assert_safe V [Some normalized, mr_source q,
        Some (me_repr V (mr_context q)), Some (me_repr V (mr_extensions q))])) (\<lambda>_.
     bindS (liftS (build_episode V now new_id q attribution normalized)) (\<lambda>record.
     bindS (liftS (me_embed V (es_content record))) (\<lambda>vector.
     bindS (pr_upsert (me_repository V) (es_id record) vector (Canonical record)) (\<lambda>_.
       returnS record))))))"

definition memory_get :: "'s episodic_service \<Rightarrow> caller_authority \<Rightarrow> uid \<Rightarrow> ('s, (uid \<times> episode_payload) option) io" where
  "memory_get V authority i =
     bindS (liftS (enforce_operation (me_unicode V) (Some authority) MEMORY_GET Map.empty)) (\<lambda>plan.
     bindS (liftS (scope_conditions plan)) (\<lambda>conditions.
       pr_retrieve (me_repository V) i (map Scoped conditions)))"

record memory_filter =
  mf_scope :: identity_values
  mf_channel :: "ustr option"
  mf_role :: "ustr option"
  mf_topic :: "ustr option"
  mf_dream_status :: "ustr option"

definition filter_clause :: "episode_key \<Rightarrow> ustr option \<Rightarrow> episode_condition list" where
  "filter_clause k v = (case v of None \<Rightarrow> [] | Some x \<Rightarrow> [HasText k x])"

definition filter_conditions :: "memory_filter \<Rightarrow> episode_condition list" where
  "filter_conditions f =
     filter_clause (KEY_SCOPE SESSION) (mf_scope f SESSION) @ filter_clause KEY_CHANNEL (mf_channel f)
     @ filter_clause KEY_ROLE (mf_role f) @ filter_clause (KEY_SCOPE AGENT) (mf_scope f AGENT)
     @ filter_clause (KEY_SCOPE TENANT) (mf_scope f TENANT) @ filter_clause (KEY_SCOPE USER) (mf_scope f USER)
     @ filter_clause (KEY_SCOPE PROJECT) (mf_scope f PROJECT) @ filter_clause KEY_TOPIC (mf_topic f)
     @ filter_clause KEY_DREAM_STATUS (mf_dream_status f)"

definition memory_search :: "'s episodic_service \<Rightarrow> caller_authority option \<Rightarrow> ustr \<Rightarrow> nat \<Rightarrow> memory_filter
    \<Rightarrow> ('s, (uid \<times> episode_payload) list) io" where
  "memory_search V ctx query limit f =
     bindS (liftS (enforce_operation (me_unicode V) ctx MEMORY_SEARCH (mf_scope f))) (\<lambda>plan.
     bindS (liftS (scope_conditions plan)) (\<lambda>scope.
     bindS (liftS (me_embed V query)) (\<lambda>vector.
       pr_search (me_repository V) vector limit ([Recallable] @ filter_conditions f @ map Scoped scope)
         (me_score_threshold V))))"

subsection \<open>What a store does\<close>

lemma build_episode_fields:
  assumes "build_episode V now i q a n = Inr r"
  shows "es_id r = the_default i (mr_point_id q)" "es_content r = n" "es_source r = mr_source q"
    "es_context r = mr_context q" "es_trust r = mr_trust q" "es_topic r = mr_topic q" "es_channel r = mr_channel q"
    "normalize_episode_time (mr_event_time q) = Inr (es_event_time r)"
    "\<exists>session. validate_session_id (a SESSION) = Inr session \<and> es_scope r = a(SESSION \<mapsto> session)"
  using assms by (auto simp: build_episode_def)

text \<open>A store either wrote the episode it built or left the points alone.\<close>

definition store_outcome :: "'s episodic_service \<Rightarrow> caller_authority option \<Rightarrow> int \<Rightarrow> uid \<Rightarrow> memory_request
    \<Rightarrow> (uid \<rightharpoonup> episode_payload) \<Rightarrow> episode result \<Rightarrow> (uid \<rightharpoonup> episode_payload) \<Rightarrow> bool" where
  "store_outcome V ctx now i q P res P' \<longleftrightarrow>
     (P' = P \<and> (\<exists>e. res = Inl e))
   \<or> (\<exists>a n r. scoped_values (me_unicode V) ctx MEMORY_WRITE (mr_scope q) = Inr a \<and> normalize_content (mr_content q) = Inr n
        \<and> build_episode V now i q a n = Inr r \<and> P' = P(es_id r \<mapsto> Canonical r) \<and> (res = Inr r \<or> (\<exists>e. res = Inl e)))"

lemma store_outcomeI:
  assumes "scoped_values (me_unicode V) ctx MEMORY_WRITE (mr_scope q) = Inr a" and "normalize_content (mr_content q) = Inr n"
    and "build_episode V now i q a n = Inr r" and "P' = P(es_id r \<mapsto> Canonical r)" and "res = Inr r \<or> res = Inl e"
  shows "store_outcome V ctx now i q P res P'"
  using assms by (auto simp: store_outcome_def)

lemma memory_store_yields:
  assumes "episode_store_ok (me_repository V) pts"
  shows "yields pts (memory_store V ctx now i q) P (store_outcome V ctx now i q P)"
proof -
  have up: "upsert_ok pts j p (pr_upsert (me_repository V) j v p)" for j p v
    using upsert_law assms by (simp add: episode_store_ok_def)
  have fail: "store_outcome V ctx now i q P (Inl e) P" for e :: exn by (simp add: store_outcome_def)
  show ?thesis
    unfolding memory_store_def
  proof (intro yields_lift_bind fail)
    fix a n u r v
    assume r: "scoped_values (me_unicode V) ctx MEMORY_WRITE (mr_scope q) = Inr a"
      "normalize_content (mr_content q) = Inr n" "build_episode V now i q a n = Inr r"
    show "yields pts (bindS (pr_upsert (me_repository V) (es_id r) v (Canonical r)) (\<lambda>_. returnS r)) P
        (store_outcome V ctx now i q P)"
    proof (rule yields_bind [OF yields_upserted [OF up]])
      fix x P' assume "P' = P(es_id r \<mapsto> Canonical r) \<or> Inr x \<noteq> Inr () \<and> P' = P"
      then show "yields pts (returnS r) P' (store_outcome V ctx now i q P)"
        by (intro yields_return store_outcomeI [OF r]) auto
    next
      fix e :: exn and P' assume "P' = P(es_id r \<mapsto> Canonical r) \<or> Inl e \<noteq> Inr () \<and> P' = P"
      then show "store_outcome V ctx now i q P (Inl e) P'"
        using store_outcomeI [OF r] fail by blast
    qed
  qed
qed


end
