(* ===== verification/Prediction_Learning.thy ===== *)
theory Prediction_Learning
  imports Episodic_Memory "HOL-Library.AList" "HOL-Library.Product_Lexorder" "HOL-Library.Multiset"
begin

text \<open>
  Predictions and their outcomes, \<^verbatim>\<open>cyberbrain/cognition/prediction.py\<close>, and the calibration
  report over them, \<^verbatim>\<open>cognition/calibration.py\<close>. Both are episodes whose context carries a
  \<^verbatim>\<open>cognition\<close> object. A float is a real number; \<^verbatim>\<open>round(x, 6)\<close> is written out with
  ties to even. \<^verbatim>\<open>uuid5\<close>, \<^verbatim>\<open>json.dumps\<close> and \<^verbatim>\<open>str\<close> of a JSON value that is not a
  string are parameters. The write guard serializes calls and is not modelled.
\<close>

subsection \<open>Numbers\<close>

definition py_round6 :: "real \<Rightarrow> real" where
  "py_round6 x = py_round 6 x"

definition mean6 :: "real list \<Rightarrow> real option" where
  "mean6 vs = (if vs = [] then None else Some (py_round6 (sum_list vs / of_nat (length vs))))"

subsection \<open>Input\<close>

datatype prediction_assessment = CONFIRMED | PARTIALLY_CONFIRMED | CONTRADICTED | INDETERMINATE

fun assessment_value :: "prediction_assessment \<Rightarrow> ustr" where
  "assessment_value CONFIRMED = lit ''confirmed''"
| "assessment_value PARTIALLY_CONFIRMED = lit ''partially_confirmed''"
| "assessment_value CONTRADICTED = lit ''contradicted''"
| "assessment_value INDETERMINATE = lit ''indeterminate''"

definition all_assessments :: "prediction_assessment list" where
  "all_assessments = [CONFIRMED, PARTIALLY_CONFIRMED, CONTRADICTED, INDETERMINATE]"

definition parse_assessment :: "ustr \<Rightarrow> prediction_assessment result" where
  "parse_assessment v =
     (case filter (\<lambda>a. assessment_value a = v) all_assessments of
        [] \<Rightarrow> Inl (ValueError (lit ''not a valid PredictionAssessment''))
      | a # _ \<Rightarrow> Inr a)"

datatype error_class = ERROR_NONE | ERROR_PARTIAL | ERROR_FULL | ERROR_INDETERMINATE

fun error_class_value :: "error_class \<Rightarrow> ustr" where
  "error_class_value ERROR_NONE = lit ''none''"
| "error_class_value ERROR_PARTIAL = lit ''partial''"
| "error_class_value ERROR_FULL = lit ''full''"
| "error_class_value ERROR_INDETERMINATE = lit ''indeterminate''"

definition all_error_classes :: "error_class list" where
  "all_error_classes = [ERROR_NONE, ERROR_PARTIAL, ERROR_FULL, ERROR_INDETERMINATE]"

record prediction_input =
  pi_expected :: "ustr option"
  pi_confidence :: real
  pi_action :: "ustr option"
  pi_rationale :: "ustr option"
  pi_tags :: "ustr list"
  pi_correlation :: "ustr option"

text \<open>The field validator: surrounding space goes, and a blank text becomes \<^verbatim>\<open>None\<close>.\<close>

definition strip_text :: "ustr option \<Rightarrow> ustr option" where
  "strip_text v = (case v of None \<Rightarrow> None | Some s \<Rightarrow> if py_strip s = [] then None else Some (py_strip s))"

definition normalize_strategy_tags :: "ustr list \<Rightarrow> ustr list" where
  "normalize_strategy_tags vs = fromkeys (map py_strip (filter (\<lambda>v. py_strip v \<noteq> []) vs))"

definition longer :: "nat \<Rightarrow> ustr option \<Rightarrow> bool" where
  "longer n v \<longleftrightarrow> (case v of None \<Rightarrow> False | Some s \<Rightarrow> n < length s)"

record prediction_request =
  pq_expected :: ustr
  pq_confidence :: real
  pq_scope :: identity_values
  pq_event_time :: timestamp
  pq_action :: "ustr option"
  pq_rationale :: "ustr option"
  pq_channel :: "ustr option"
  pq_topic :: "ustr option"
  pq_trust :: identity_trust
  pq_tags :: "ustr list"
  pq_keywords :: "ustr list"
  pq_importance :: "ustr option"
  pq_correlation :: "ustr option"

definition make_prediction_input :: "prediction_request \<Rightarrow> prediction_input result" where
  "make_prediction_input q =
     (if pq_expected q = [] \<or> 2000 < length (pq_expected q) \<or> pq_confidence q < 0 \<or> 1 < pq_confidence q
         \<or> longer 1000 (pq_action q) \<or> longer 2000 (pq_rationale q) \<or> 16 < length (pq_tags q)
         \<or> longer 256 (pq_correlation q)
      then Inl (ValueError (lit ''validation error for PredictionInput''))
      else Inr \<lparr>pi_expected = strip_text (Some (pq_expected q)), pi_confidence = pq_confidence q,
        pi_action = strip_text (pq_action q), pi_rationale = strip_text (pq_rationale q),
        pi_tags = normalize_strategy_tags (pq_tags q), pi_correlation = strip_text (pq_correlation q)\<rparr>)"

record outcome_input =
  oi_observed :: ustr
  oi_assessment :: prediction_assessment

definition make_outcome_input :: "ustr \<Rightarrow> ustr \<Rightarrow> outcome_input result" where
  "make_outcome_input observed assessment =
     bindE (parse_assessment assessment) (\<lambda>a.
       if observed = [] \<or> 4000 < length observed
       then Inl (ValueError (lit ''validation error for OutcomeInput''))
       else if py_strip observed = [] then Inl (ValueError (lit ''observed_outcome must not be empty''))
       else Inr \<lparr>oi_observed = py_strip observed, oi_assessment = a\<rparr>)"

subsection \<open>Recording a prediction\<close>

record 's prediction_service =
  ps_memory :: "'s episodic_service"
  ps_uuid5 :: "ustr \<Rightarrow> uid"
  ps_dumps :: "ustr option list \<Rightarrow> ustr"
  ps_str :: "json \<Rightarrow> ustr"
  ps_float :: "ustr \<Rightarrow> real option"

definition ps_repository :: "'s prediction_service \<Rightarrow> 's episode_store" where
  "ps_repository V = me_repository (ps_memory V)"

definition ps_unicode :: "'s prediction_service \<Rightarrow> unicode_tables" where
  "ps_unicode V = me_unicode (ps_memory V)"

definition cognition_key :: ustr where
  "cognition_key = lit ''cognition''"

definition prediction_source :: ustr where
  "prediction_source = lit ''cognitive_prediction''"

definition outcome_source :: ustr where
  "outcome_source = lit ''cognitive_outcome''"

text \<open>\<^verbatim>\<open>record.context.get("cognition")\<close> when it is an object of the given kind.\<close>

definition cognition_of :: "ustr \<Rightarrow> episode \<Rightarrow> dict option" where
  "cognition_of kind record =
     (case es_context record cognition_key of
        Some (JObj kvs) \<Rightarrow> if map_of kvs (lit ''kind'') = Some (JStr kind) then Some (map_of kvs) else None
      | _ \<Rightarrow> None)"

definition prediction_cognition :: "'s prediction_service \<Rightarrow> episode \<Rightarrow> dict result" where
  "prediction_cognition V record =
     (case cognition_of (lit ''prediction'') record of
        None \<Rightarrow> Inl (ValueError (lit ''episode is not a prediction: '' @ es_id record))
      | Some c \<Rightarrow>
          if text_or_empty (ps_str V) (c (lit ''prediction_id'')) \<noteq> es_id record
          then Inl (ValueError (lit ''prediction provenance id does not match episode id''))
          else if py_strip (text_or_empty (ps_str V) (c (lit ''expected_outcome''))) = []
          then Inl (ValueError (lit ''prediction is missing expected_outcome''))
          else case Option.bind (c (lit ''confidence'')) json_number of
              None \<Rightarrow> Inl (ValueError (lit ''prediction confidence is invalid''))
            | Some x \<Rightarrow> if 0 \<le> x \<and> x \<le> 1 then Inr c
                        else Inl (ValueError (lit ''prediction confidence is invalid'')))"

definition optional_entry :: "ustr \<Rightarrow> ustr option \<Rightarrow> (ustr \<times> json) list" where
  "optional_entry k v = (case v of None \<Rightarrow> [] | Some s \<Rightarrow> [(k, JStr s)])"

definition opt_json :: "ustr option \<Rightarrow> json" where
  "opt_json v = (case v of None \<Rightarrow> JNull | Some s \<Rightarrow> JStr s)"

definition prediction_entries :: "uid \<Rightarrow> prediction_input \<Rightarrow> (ustr \<times> json) list" where
  "prediction_entries pid d =
     [(lit ''kind'', JStr (lit ''prediction'')), (lit ''prediction_id'', JStr pid),
      (lit ''expected_outcome'', opt_json (pi_expected d)), (lit ''confidence'', JReal (pi_confidence d))]
     @ optional_entry (lit ''action'') (pi_action d) @ optional_entry (lit ''rationale'') (pi_rationale d)
     @ (if pi_tags d = [] then [] else [(lit ''strategy_tags'', JArr (map JStr (pi_tags d)))])
     @ optional_entry (lit ''correlation_id'') (pi_correlation d)"

text \<open>An f-string shows \<^verbatim>\<open>None\<close> as that word.\<close>

definition show_text :: "ustr option \<Rightarrow> ustr" where
  "show_text v = the_default (lit ''None'') v"

definition prediction_content :: "prediction_input \<Rightarrow> ustr" where
  "prediction_content d =
     (case pi_action d of
        Some a \<Rightarrow> lit ''Prediction for '' @ a @ lit '': '' @ show_text (pi_expected d)
      | None \<Rightarrow> lit ''Prediction: '' @ show_text (pi_expected d))"

definition correlated_id :: "'s prediction_service \<Rightarrow> identity_values \<Rightarrow> ustr \<Rightarrow> uid" where
  "correlated_id V attribution c =
     ps_uuid5 V (lit ''cyberbrain:prediction:v2:'' @ ps_dumps V (map attribution dimension_order @ [Some c]))"

definition attribution_conditions :: "caller_authority option \<Rightarrow> identity_values \<Rightarrow> episode_condition list" where
  "attribution_conditions ctx attribution =
     (case ctx of None \<Rightarrow> [] | Some _ \<Rightarrow> concat (map (\<lambda>d. filter_clause (KEY_SCOPE d) (attribution d)) dimension_order))"

text \<open>What a retry checks of the record it finds.\<close>

definition check_retry :: "'s prediction_service \<Rightarrow> identity_values \<Rightarrow> ustr \<Rightarrow> uid \<Rightarrow> episode_payload \<Rightarrow> episode result" where
  "check_retry V attribution c pid payload =
     bindE (model_validate payload) (\<lambda>record.
     bindE (prediction_cognition V record) (\<lambda>cognition.
       if list_ex (\<lambda>d. es_scope record d \<noteq> attribution d) dimension_order
          \<or> cognition (lit ''correlation_id'') \<noteq> Some (JStr c)
          \<or> es_id record \<noteq> pid \<or> es_source record \<noteq> Some prediction_source
       then Inl (ValueError (lit ''prediction retry identity or provenance mismatch''))
       else Inr record))"

definition prediction_write :: "prediction_request \<Rightarrow> prediction_input \<Rightarrow> identity_values \<Rightarrow> uid \<Rightarrow> memory_request" where
  "prediction_write q d attribution pid =
     \<lparr>mr_content = prediction_content d, mr_scope = attribution, mr_event_time = pq_event_time q,
      mr_channel = pq_channel q, mr_role = None, mr_trust = pq_trust q, mr_topic = pq_topic q,
      mr_keywords = pq_keywords q, mr_importance = pq_importance q, mr_source = Some prediction_source,
      mr_context = [cognition_key \<mapsto> JObj (prediction_entries pid d)], mr_extensions = Map.empty,
      mr_point_id = Some pid\<rparr>"

definition record_prediction :: "'s prediction_service \<Rightarrow> caller_authority option \<Rightarrow> int \<Rightarrow> uid \<Rightarrow> prediction_request
    \<Rightarrow> ('s, episode) io" where
  "record_prediction V ctx now new_id q =
     bindS (liftS (make_prediction_input q)) (\<lambda>d.
     bindS (liftS (scoped_values (ps_unicode V) ctx MEMORY_WRITE (pq_scope q))) (\<lambda>scoped.
     bindS (liftS (validate_session_id (scoped SESSION))) (\<lambda>session.
     bindS (liftS (normalize_episode_time (pq_event_time q))) (\<lambda>_.
       let attribution = scoped(SESSION \<mapsto> session);
           fresh = (\<lambda>pid. memory_store (ps_memory V) ctx now new_id (prediction_write q d attribution pid))
       in case pi_correlation d of
            None \<Rightarrow> fresh new_id
          | Some c \<Rightarrow>
              (let pid = correlated_id V attribution c in
               bindS (pr_retrieve (ps_repository V) pid (attribution_conditions ctx attribution)) (\<lambda>point.
                 case point of
                   None \<Rightarrow> fresh pid
                 | Some (_, payload) \<Rightarrow> liftS (check_retry V attribution c pid payload)))))))"

subsection \<open>Recording an outcome\<close>

definition derive_error :: "prediction_assessment \<Rightarrow> real \<Rightarrow> error_class \<times> real option" where
  "derive_error a confidence =
     (case a of
        CONFIRMED \<Rightarrow> (ERROR_NONE, Some 0)
      | PARTIALLY_CONFIRMED \<Rightarrow> (ERROR_PARTIAL, Some (py_round6 (confidence * (1 / 2))))
      | CONTRADICTED \<Rightarrow> (ERROR_FULL, Some (py_round6 confidence))
      | INDETERMINATE \<Rightarrow> (ERROR_INDETERMINATE, None))"

definition load_prediction :: "'s prediction_service \<Rightarrow> caller_authority option \<Rightarrow> uid \<Rightarrow> ('s, episode) io" where
  "load_prediction V ctx pid =
     bindS (case ctx of
         None \<Rightarrow> pr_retrieve (ps_repository V) pid []
       | Some _ \<Rightarrow>
           bindS (liftS (enforce_operation (ps_unicode V) ctx MEMORY_GET Map.empty)) (\<lambda>plan.
           bindS (liftS (scope_conditions plan)) (\<lambda>cs.
             pr_retrieve (ps_repository V) pid (map Scoped cs)))) (\<lambda>point.
       liftS (case point of
           None \<Rightarrow> Inl (ValueError (lit ''prediction not found: '' @ pid))
         | Some (_, payload) \<Rightarrow>
             (case model_validate payload of
                Inl _ \<Rightarrow> Inl (ValueError (lit ''prediction record is not a valid canonical episode''))
              | Inr record \<Rightarrow> bindE (prediction_cognition V record) (\<lambda>_. Inr record))))"

definition check_required_agent :: "'s prediction_service \<Rightarrow> ustr option \<Rightarrow> episode \<Rightarrow> unit result" where
  "check_required_agent V required prediction =
     (case required of
        None \<Rightarrow> Inr ()
      | Some a \<Rightarrow>
          bindE (normalize_identifier (ps_unicode V) a) (\<lambda>expected.
            case es_scope prediction AGENT of
              None \<Rightarrow> Inl (ValueError (lit ''prediction agent does not match required trusted agent''))
            | Some b \<Rightarrow>
                bindE (normalize_identifier (ps_unicode V) b) (\<lambda>actual.
                  if actual \<noteq> expected
                  then Inl (ValueError (lit ''prediction agent does not match required trusted agent''))
                  else Inr ())))"

definition check_outcome_time :: "timestamp \<Rightarrow> episode \<Rightarrow> unit result" where
  "check_outcome_time t prediction =
     (case t of
        Naive _ \<Rightarrow> Inl (ValueError (lit ''outcome event_time must include a timezone''))
      | Aware i \<Rightarrow> if i < es_event_time prediction
                   then Inl (ValueError (lit ''outcome event_time must not precede prediction event_time''))
                   else Inr ())"

definition outcome_entries :: "'s prediction_service \<Rightarrow> uid \<Rightarrow> dict \<Rightarrow> outcome_input \<Rightarrow> (ustr \<times> json) list" where
  "outcome_entries V pid c d =
     (let confidence = the_default 0 (Option.bind (c (lit ''confidence'')) json_number);
          (ec, ev) = derive_error (oi_assessment d) confidence
      in [(lit ''kind'', JStr (lit ''outcome'')), (lit ''prediction_id'', JStr pid),
          (lit ''expected_outcome'', JStr (text_or_empty (ps_str V) (c (lit ''expected_outcome'')))),
          (lit ''prediction_confidence'', JReal confidence), (lit ''observed_outcome'', JStr (oi_observed d)),
          (lit ''assessment'', JStr (assessment_value (oi_assessment d))),
          (lit ''prediction_error_class'', JStr (error_class_value ec)),
          (lit ''confidence_weighted_error'', case ev of None \<Rightarrow> JNull | Some x \<Rightarrow> JReal x)]
         @ (case c (lit ''action'') of None \<Rightarrow> [] | Some a \<Rightarrow> if json_truthy a then [(lit ''action'', a)] else []))"

definition outcome_write :: "'s prediction_service \<Rightarrow> uid \<Rightarrow> timestamp \<Rightarrow> outcome_input \<Rightarrow> episode \<Rightarrow> dict \<Rightarrow> memory_request" where
  "outcome_write V pid t d p c =
     \<lparr>mr_content = lit ''Outcome: '' @ oi_observed d, mr_scope = es_scope p,
      mr_event_time = t, mr_channel = es_channel p, mr_role = None, mr_trust = es_trust p, mr_topic = es_topic p,
      mr_keywords = es_keywords p, mr_importance = es_importance p, mr_source = Some outcome_source,
      mr_context = [cognition_key \<mapsto> JObj (outcome_entries V pid c d)],
      mr_extensions = Map.empty, mr_point_id = None\<rparr>"

definition record_outcome :: "'s prediction_service \<Rightarrow> caller_authority option \<Rightarrow> int \<Rightarrow> uid \<Rightarrow> uid \<Rightarrow> ustr \<Rightarrow> ustr
    \<Rightarrow> timestamp \<Rightarrow> ustr option \<Rightarrow> ('s, episode) io" where
  "record_outcome V ctx now new_id pid observed assessment event_time required_agent =
     bindS (liftS (make_outcome_input observed assessment)) (\<lambda>d.
     bindS (load_prediction V ctx pid) (\<lambda>prediction.
     bindS (liftS (prediction_cognition V prediction)) (\<lambda>c.
     bindS (liftS (check_required_agent V required_agent prediction)) (\<lambda>_.
     bindS (liftS (check_outcome_time event_time prediction)) (\<lambda>_.
       memory_store (ps_memory V) ctx now new_id (outcome_write V pid event_time d prediction c))))))"

subsection \<open>Reading predictions and outcomes\<close>

record prediction_filter =
  pf_scope :: identity_values
  pf_topic :: "ustr option"

definition prediction_filters :: "prediction_filter \<Rightarrow> episode_condition list" where
  "prediction_filters f =
     filter_clause (KEY_SCOPE SESSION) (pf_scope f SESSION) @ filter_clause (KEY_SCOPE AGENT) (pf_scope f AGENT)
     @ filter_clause (KEY_SCOPE PROJECT) (pf_scope f PROJECT) @ filter_clause KEY_TOPIC (pf_topic f)"

definition readable_cognition :: "ustr \<Rightarrow> uid \<times> episode_payload \<Rightarrow> (episode \<times> dict) list" where
  "readable_cognition kind point =
     (case snd point of
        Unreadable _ _ \<Rightarrow> []
      | Canonical record \<Rightarrow> (case cognition_of kind record of None \<Rightarrow> [] | Some c \<Rightarrow> [(record, c)]))"

definition scroll_cognition :: "'s prediction_service \<Rightarrow> caller_authority option \<Rightarrow> ustr \<Rightarrow> nat \<Rightarrow> prediction_filter
    \<Rightarrow> ('s, (episode \<times> dict) list) io" where
  "scroll_cognition V ctx source limit f =
     bindS (liftS (enforce_operation (ps_unicode V) ctx MEMORY_SEARCH (pf_scope f))) (\<lambda>plan.
     bindS (liftS (scope_conditions plan)) (\<lambda>scope.
     bindS (pr_scroll (ps_repository V) ([HasText KEY_SOURCE source] @ map Scoped scope @ prediction_filters f) limit) (\<lambda>points.
       returnS (concat (map (readable_cognition
         (if source = prediction_source then lit ''prediction'' else lit ''outcome'')) points)))))"

text \<open>The \<^verbatim>\<open>prediction_id\<close> an outcome names.\<close>

definition resolved_id :: "'s prediction_service \<Rightarrow> dict \<Rightarrow> uid" where
  "resolved_id V c = text_or_empty (ps_str V) (c (lit ''prediction_id''))"

text \<open>
  The loop that keeps the latest outcome of every known prediction and counts its outcomes.
  Dictionaries are association lists in insertion order.
\<close>

type_synonym latest_outcomes = "(uid \<times> episode \<times> dict) list"

definition keep_latest :: "uid \<Rightarrow> episode \<Rightarrow> dict \<Rightarrow> latest_outcomes \<Rightarrow> latest_outcomes" where
  "keep_latest pid record c latest =
     (if (case map_of latest pid of None \<Rightarrow> True | Some (current, _) \<Rightarrow> es_event_time current < es_event_time record)
      then AList.update pid (record, c) latest else latest)"

fun collect_outcomes :: "'s prediction_service \<Rightarrow> uid set \<Rightarrow> (episode \<times> dict) list
    \<Rightarrow> latest_outcomes \<times> (uid \<times> int) list \<Rightarrow> latest_outcomes \<times> (uid \<times> int) list" where
  "collect_outcomes V known [] acc = acc"
| "collect_outcomes V known ((record, c) # rest) (latest, counts) =
     (let pid = resolved_id V c in
      if pid \<notin> known then collect_outcomes V known rest (latest, counts)
      else collect_outcomes V known rest
        (keep_latest pid record c latest, AList.update pid (the_default 0 (map_of counts pid) + 1) counts))"

record prediction_observation =
  ob_predictions :: int
  ob_outcomes :: int
  ob_resolved :: int
  ob_unresolved :: int
  ob_duplicates :: int
  ob_mean_confidence :: "real option"
  ob_mean_error :: "real option"
  ob_assessments :: "(prediction_assessment \<times> int) list"
  ob_error_classes :: "(error_class \<times> int) list"
  ob_truncated :: bool
  ob_limit :: int

definition field_is :: "'s prediction_service \<Rightarrow> ustr \<Rightarrow> ustr \<Rightarrow> dict \<Rightarrow> bool" where
  "field_is V k v c \<longleftrightarrow> text_or_empty (ps_str V) (c k) = v"

definition summarize :: "'s prediction_service \<Rightarrow> int \<Rightarrow> (episode \<times> dict) list \<Rightarrow> (episode \<times> dict) list \<Rightarrow> prediction_observation" where
  "summarize V limit predictions outcomes =
     (let rows = fold (\<lambda>(record, c). AList.update (es_id record) (record, c)) predictions [];
          (latest, counts) = collect_outcomes V (fst ` set rows) outcomes ([], []);
          cognitions = map (snd \<circ> snd) latest
      in \<lparr>ob_predictions = int (length rows), ob_outcomes = int (length outcomes),
          ob_resolved = int (length latest), ob_unresolved = max 0 (int (length rows) - int (length latest)),
          ob_duplicates = sum_list (map (\<lambda>(_, n). max 0 (n - 1)) counts),
          ob_mean_confidence = mean6 (List.map_filter (\<lambda>(_, _, c). Option.bind (c (lit ''confidence'')) json_number) rows),
          ob_mean_error = mean6 (List.map_filter (\<lambda>c. Option.bind (c (lit ''confidence_weighted_error'')) json_number) cognitions),
          ob_assessments = map (\<lambda>a. (a, int (length (filter (field_is V (lit ''assessment'') (assessment_value a)) cognitions)))) all_assessments,
          ob_error_classes = map (\<lambda>e. (e, int (length (filter (field_is V (lit ''prediction_error_class'') (error_class_value e)) cognitions)))) all_error_classes,
          ob_truncated = limit \<le> int (length predictions) \<or> limit \<le> int (length outcomes),
          ob_limit = limit\<rparr>)"

definition observe :: "'s prediction_service \<Rightarrow> caller_authority option \<Rightarrow> int \<Rightarrow> prediction_filter
    \<Rightarrow> ('s, prediction_observation) io" where
  "observe V ctx limit f =
     (if limit < 1 \<or> 10000 < limit
      then raiseS (ValueError (lit ''prediction observation limit must be between 1 and 10000''))
      else bindS (scroll_cognition V ctx prediction_source (nat limit) f) (\<lambda>predictions.
           bindS (scroll_cognition V ctx outcome_source (nat limit) f) (\<lambda>outcomes.
             returnS (summarize V limit predictions outcomes))))"

subsection \<open>Calibration\<close>

definition empirical_score :: "'s prediction_service \<Rightarrow> dict \<Rightarrow> real option" where
  "empirical_score V c =
     map_of [(lit ''confirmed'', 1), (lit ''partially_confirmed'', 1 / 2), (lit ''contradicted'', 0)]
       (text_or_empty (ps_str V) (c (lit ''assessment'')))"

definition confidences :: "(episode \<times> dict) list \<Rightarrow> (uid \<times> real) list" where
  "confidences predictions =
     fold (\<lambda>(record, c) acc. case Option.bind (c (lit ''confidence'')) json_number of
        None \<Rightarrow> acc | Some x \<Rightarrow> AList.update (es_id record) x acc) predictions []"

definition samples_of :: "'s prediction_service \<Rightarrow> (episode \<times> dict) list \<Rightarrow> (episode \<times> dict) list \<Rightarrow> (real \<times> real) list \<times> int" where
  "samples_of V predictions outcomes =
     (let confidence = confidences predictions;
          latest = fst (collect_outcomes V (fst ` set confidence) outcomes ([], []))
      in (List.map_filter (\<lambda>(_, _, c). case empirical_score V c of None \<Rightarrow> None
            | Some e \<Rightarrow> map_option (\<lambda>x. (x, e)) (map_of confidence (resolved_id V c))) latest,
          int (length (filter (\<lambda>(_, _, c). field_is V (lit ''assessment'') (lit ''indeterminate'') c) latest))))"

definition calibration_samples :: "'s prediction_service \<Rightarrow> caller_authority option \<Rightarrow> int \<Rightarrow> prediction_filter
    \<Rightarrow> ('s, (real \<times> real) list \<times> int \<times> bool) io" where
  "calibration_samples V ctx limit f =
     (if limit < 1 \<or> 10000 < limit
      then raiseS (ValueError (lit ''calibration sample limit must be between 1 and 10000''))
      else bindS (scroll_cognition V ctx prediction_source (nat limit) f) (\<lambda>predictions.
           bindS (scroll_cognition V ctx outcome_source (nat limit) f) (\<lambda>outcomes.
             let (samples, excluded) = samples_of V predictions outcomes
             in returnS (samples, excluded, limit \<le> int (length predictions) \<or> limit \<le> int (length outcomes)))))"

datatype calibration_assessment = INSUFFICIENT_EVIDENCE | ROUGHLY_CALIBRATED | OVERCONFIDENT | UNDERCONFIDENT

record calibration_report =
  cr_usable :: int
  cr_excluded :: int
  cr_minimum :: int
  cr_mean_confidence :: "real option"
  cr_mean_empirical :: "real option"
  cr_bias :: "real option"
  cr_squared_error :: "real option"
  cr_assessment :: calibration_assessment
  cr_threshold :: real
  cr_incomplete :: bool

definition assess_bias :: "int \<Rightarrow> real \<Rightarrow> int \<Rightarrow> real option \<Rightarrow> calibration_assessment" where
  "assess_bias minimum threshold usable bias =
     (case bias of None \<Rightarrow> INSUFFICIENT_EVIDENCE
      | Some b \<Rightarrow> if usable < minimum then INSUFFICIENT_EVIDENCE
                  else if threshold < b then OVERCONFIDENT
                  else if b < - threshold then UNDERCONFIDENT
                  else ROUGHLY_CALIBRATED)"

definition calibration_report_of :: "int \<Rightarrow> real \<Rightarrow> (real \<times> real) list \<times> int \<times> bool \<Rightarrow> calibration_report" where
  "calibration_report_of minimum threshold r =
     (let samples = fst r; biases = map (\<lambda>(x, e). x - e) samples; usable = int (length samples)
      in \<lparr>cr_usable = usable, cr_excluded = fst (snd r), cr_minimum = minimum,
          cr_mean_confidence = mean6 (map fst samples), cr_mean_empirical = mean6 (map snd samples),
          cr_bias = mean6 biases, cr_squared_error = mean6 (map (\<lambda>b. b * b) biases),
          cr_assessment = assess_bias minimum threshold usable (mean6 biases),
          cr_threshold = threshold, cr_incomplete = snd (snd r)\<rparr>)"

definition observe_calibration :: "'s prediction_service \<Rightarrow> caller_authority option \<Rightarrow> int \<Rightarrow> int \<Rightarrow> real \<Rightarrow> prediction_filter
    \<Rightarrow> ('s, calibration_report) io" where
  "observe_calibration V ctx limit minimum threshold f =
     (if limit < 1 \<or> 10000 < limit
      then raiseS (ValueError (lit ''calibration limit must be between 1 and 10000''))
      else if minimum < 1 \<or> 10000 < minimum
      then raiseS (ValueError (lit ''minimum_samples must be between 1 and 10000''))
      else if threshold < 0 \<or> 1 < threshold
      then raiseS (ValueError (lit ''bias_threshold must be between 0 and 1''))
      else bindS (calibration_samples V ctx limit f) (\<lambda>r. returnS (calibration_report_of minimum threshold r)))"

subsection \<open>Pending predictions\<close>

record pending_prediction =
  pp_id :: uid
  pp_event_time :: int
  pp_expected :: ustr
  pp_confidence :: real
  pp_action :: "ustr option"
  pp_scope :: identity_values
  pp_channel :: "ustr option"
  pp_topic :: "ustr option"
  pp_tags :: "ustr list"
  pp_correlation :: "ustr option"

record pending_list =
  pl_items :: "pending_prediction list"
  pl_returned :: int
  pl_incomplete :: bool
  pl_scan_limit :: int

definition subscript :: "ustr \<Rightarrow> dict \<Rightarrow> json result" where
  "subscript k c = (case c k of None \<Rightarrow> Inl (KeyError k) | Some v \<Rightarrow> Inr v)"

definition json_float :: "'s prediction_service \<Rightarrow> json \<Rightarrow> real result" where
  "json_float V v =
     (case v of
        JStr s \<Rightarrow> (case ps_float V s of None \<Rightarrow> Inl (ValueError (lit ''could not convert string to float'')) | Some x \<Rightarrow> Inr x)
      | _ \<Rightarrow> (case json_number v of None \<Rightarrow> Inl (TypeError (lit ''float() argument'')) | Some x \<Rightarrow> Inr x))"

definition text_unless_none :: "'s prediction_service \<Rightarrow> json option \<Rightarrow> ustr option" where
  "text_unless_none V v = (case v of None \<Rightarrow> None | Some JNull \<Rightarrow> None | Some j \<Rightarrow> Some (json_str (ps_str V) j))"

text \<open>\<^verbatim>\<open>list(tags or [])\<close>, validated as a list of strings.\<close>

definition tag_list :: "json option \<Rightarrow> ustr list result" where
  "tag_list v =
     (case v of None \<Rightarrow> Inr []
      | Some j \<Rightarrow>
          if \<not> json_truthy j then Inr []
          else case j of
              JArr xs \<Rightarrow> mapE (\<lambda>x. case x of JStr s \<Rightarrow> Inr s
                 | _ \<Rightarrow> Inl (ValueError (lit ''validation error for PendingPrediction''))) xs
            | JStr s \<Rightarrow> Inr (map (\<lambda>ch. [ch]) s)
            | JObj kvs \<Rightarrow> Inr (map fst kvs)
            | _ \<Rightarrow> Inl (TypeError (lit ''object is not iterable'')))"

definition pending_item :: "'s prediction_service \<Rightarrow> episode \<times> dict \<Rightarrow> pending_prediction result" where
  "pending_item V p =
     (let record = fst p; c = snd p in
      bindE (subscript (lit ''expected_outcome'') c) (\<lambda>expected.
      bindE (subscript (lit ''confidence'') c) (\<lambda>raw.
      bindE (json_float V raw) (\<lambda>confidence.
      bindE (tag_list (c (lit ''strategy_tags''))) (\<lambda>tags.
        Inr \<lparr>pp_id = es_id record, pp_event_time = es_event_time record,
          pp_expected = json_str (ps_str V) expected, pp_confidence = confidence,
          pp_action = text_unless_none V (c (lit ''action'')), pp_scope = es_scope record,
          pp_channel = es_channel record, pp_topic = es_topic record, pp_tags = tags,
          pp_correlation = text_unless_none V (c (lit ''correlation_id''))\<rparr>)))))"

definition resolved_ids :: "'s prediction_service \<Rightarrow> (episode \<times> dict) list \<Rightarrow> uid list" where
  "resolved_ids V outcomes =
     map (resolved_id V \<circ> snd) (filter (\<lambda>(_, c). case c (lit ''prediction_id'') of None \<Rightarrow> False | Some v \<Rightarrow> json_truthy v) outcomes)"

definition pending_report :: "'s prediction_service \<Rightarrow> int \<Rightarrow> int \<Rightarrow> (episode \<times> dict) list \<Rightarrow> (episode \<times> dict) list \<Rightarrow> pending_list result" where
  "pending_report V limit scan_limit predictions outcomes =
     bindE (mapE (pending_item V) (filter (\<lambda>(record, _). es_id record \<notin> set (resolved_ids V outcomes)) predictions)) (\<lambda>items.
       let selected = take (nat limit) (sort_key (\<lambda>i. (pp_event_time i, pp_id i)) items)
       in Inr \<lparr>pl_items = selected, pl_returned = int (length selected),
            pl_incomplete = limit < int (length items) \<or> scan_limit \<le> int (length predictions)
              \<or> scan_limit \<le> int (length outcomes),
            pl_scan_limit = scan_limit\<rparr>)"

definition pending_predictions :: "'s prediction_service \<Rightarrow> caller_authority option \<Rightarrow> int \<Rightarrow> int \<Rightarrow> prediction_filter
    \<Rightarrow> ('s, pending_list) io" where
  "pending_predictions V ctx limit scan_limit f =
     (if limit < 1 \<or> 1000 < limit
      then raiseS (ValueError (lit ''prediction pending limit must be between 1 and 1000''))
      else if scan_limit < 1 \<or> 10000 < scan_limit
      then raiseS (ValueError (lit ''prediction pending scan limit must be between 1 and 10000''))
      else bindS (scroll_cognition V ctx prediction_source (nat scan_limit) f) (\<lambda>predictions.
           bindS (scroll_cognition V ctx outcome_source (nat scan_limit) f) (\<lambda>outcomes.
             liftS (pending_report V limit scan_limit predictions outcomes))))"

subsection \<open>Retries\<close>

lemma map_of_prediction_entries:
  "map_of (prediction_entries pid d) (lit ''kind'') = Some (JStr (lit ''prediction''))"
  "map_of (prediction_entries pid d) (lit ''prediction_id'') = Some (JStr pid)"
  "map_of (prediction_entries pid d) (lit ''expected_outcome'') = Some (opt_json (pi_expected d))"
  "map_of (prediction_entries pid d) (lit ''confidence'') = Some (JReal (pi_confidence d))"
  "map_of (prediction_entries pid d) (lit ''correlation_id'') = map_option JStr (pi_correlation d)"
  by (auto simp: prediction_entries_def lit_eq_iff optional_entry_def map_add_def split: option.splits)

lemma strip_text_Some: "strip_text v = Some e \<Longrightarrow> e \<noteq> [] \<and> py_strip e = e"
  by (auto simp: strip_text_def py_strip_idem split: option.splits if_splits)

lemma make_prediction_input_Inr:
  assumes "make_prediction_input q = Inr d"
  shows "0 \<le> pi_confidence d \<and> pi_confidence d \<le> 1" "pi_expected d = strip_text (Some (pq_expected q))"
    "pi_correlation d = strip_text (pq_correlation q)"
  using assms by (auto simp: make_prediction_input_def split: if_splits)

lemma written_prediction_valid:
  assumes "es_context r = [cognition_key \<mapsto> JObj (prediction_entries (es_id r) d)]" and "pi_expected d = Some e"
    and "e \<noteq> []" and "py_strip e = e" and "0 \<le> pi_confidence d \<and> pi_confidence d \<le> 1"
  shows "prediction_cognition V r = Inr (map_of (prediction_entries (es_id r) d))"
  using assms
  by (cases "es_id r = []") (simp_all add: prediction_cognition_def cognition_of_def map_of_prediction_entries text_or_empty_def json_str_def opt_json_def)


lemma written_is_retryable:
  assumes scope: "es_scope r = attribution" and "es_source r = Some prediction_source" and "es_id r = pid"
    and "es_context r = [cognition_key \<mapsto> JObj (prediction_entries pid d)]" and "pi_expected d = Some e"
    and "e \<noteq> []" and "py_strip e = e" and "0 \<le> pi_confidence d \<and> pi_confidence d \<le> 1" and "pi_correlation d = Some c"
  shows "check_retry V attribution c pid (Canonical r) = Inr r"
  using assms written_prediction_valid [of r d e V]
  by (simp add: check_retry_def model_validate_def map_of_prediction_entries list_ex_iff)

lemma validate_session_idem:
  "validate_session_id v = Inr x \<Longrightarrow> validate_session_id (Some x) = Inr x"
  by (auto simp: validate_session_id_def py_strip_idem split: option.splits if_splits)

text \<open>The scope a write is attributed to is a fixed point of attribution.\<close>

lemma attribution_fixed:
  assumes "nfc_stable U" and "\<And>a. ctx = Some a \<Longrightarrow> caller_wf U a"
    and sc: "scoped_values U ctx MEMORY_WRITE v = Inr scoped" and se: "validate_session_id (scoped SESSION) = Inr session"
  shows "scoped_values U ctx MEMORY_WRITE (scoped(SESSION \<mapsto> session)) = Inr (scoped(SESSION \<mapsto> session))"
proof (cases ctx)
  case None
  then show ?thesis by (simp add: scoped_values_def enforce_operation_def)
next
  case (Some a)
  have w: "os_write_attribution (operation_specs MEMORY_WRITE)" by (simp add: mk_spec_def)
  from se obtain x where x: "scoped SESSION = Some x" "session = py_strip x"
    by (auto simp: validate_session_id_def split: option.splits if_splits)
  have "canonical_id U x"
    using write_stores_inside(2) [OF assms(1) assms(2) [OF Some] w] sc x(1) Some by blast
  then have "py_strip x = x"
    by (metis canonical_id_def normalize_identifier_Inr(1) py_strip_idem)
  with x have "scoped(SESSION \<mapsto> session) = scoped" by (simp add: fun_upd_idem)
  with scoped_values_idem [OF assms(1,2) w sc] show ?thesis by simp
qed


lemma attribution_conditions_hold:
  "es_scope r = attribution \<Longrightarrow> c \<in> set (attribution_conditions ctx attribution) \<Longrightarrow> episode_meets c (Canonical r)"
  by (auto simp: attribution_conditions_def filter_clause_def split: option.splits)

text \<open>What a successful correlated call leaves: a stored record that a retry accepts.\<close>

lemma correlated_prediction:
  assumes R: "episode_store_ok (ps_repository V) pts" and U: "nfc_stable (ps_unicode V)"
    and ctx: "\<And>a. ctx = Some a \<Longrightarrow> caller_wf (ps_unicode V) a"
    and run: "record_prediction V ctx now i q s = (Inr r, s1)"
    and corr: "strip_text (pq_correlation q) = Some c" and expected: "py_strip (pq_expected q) \<noteq> []"
  obtains scoped session where "scoped_values (ps_unicode V) ctx MEMORY_WRITE (pq_scope q) = Inr scoped"
    and "validate_session_id (scoped SESSION) = Inr session" and "es_scope r = scoped(SESSION \<mapsto> session)"
    and "es_id r = correlated_id V (scoped(SESSION \<mapsto> session)) c" and "pts s1 (es_id r) = Some (Canonical r)"
    and "check_retry V (scoped(SESSION \<mapsto> session)) c (es_id r) (Canonical r) = Inr r"
proof -
  from run obtain d scoped session t where d: "make_prediction_input q = Inr d"
    and sc: "scoped_values (ps_unicode V) ctx MEMORY_WRITE (pq_scope q) = Inr scoped"
    and se: "validate_session_id (scoped SESSION) = Inr session"
    and t: "normalize_episode_time (pq_event_time q) = Inr t"
    by (auto simp: record_prediction_def bindS_Inr)
  note di = make_prediction_input_Inr [OF d]
  define a where "a = scoped(SESSION \<mapsto> session)"
  define pid where "pid = correlated_id V a c"
  from di corr have pc: "pi_correlation d = Some c" by simp
  from run d sc se t pc have "bindS (pr_retrieve (ps_repository V) pid (attribution_conditions ctx a)) (\<lambda>point. case point of
      None \<Rightarrow> memory_store (ps_memory V) ctx now i (prediction_write q d a pid)
    | Some (_, payload) \<Rightarrow> liftS (check_retry V a c pid payload)) s = (Inr r, s1)"
    unfolding a_def pid_def by (simp add: record_prediction_def Let_def)
  then obtain point s0 where
    look: "pr_retrieve (ps_repository V) pid (attribution_conditions ctx a) s = (Inr point, s0)"
    and rest: "(case point of None \<Rightarrow> memory_store (ps_memory V) ctx now i (prediction_write q d a pid)
       | Some (_, payload) \<Rightarrow> liftS (check_retry V a c pid payload)) s0 = (Inr r, s1)"
    by (auto simp: bindS_Inr)
  have rl: "retrieve_ok pts episode_meets pid (attribution_conditions ctx a) (pr_retrieve (ps_repository V) pid (attribution_conditions ctx a))"
    using retrieve_law R by (simp add: episode_store_ok_def)
  have found: "es_scope r = a \<and> es_id r = pid \<and> pts s1 pid = Some (Canonical r) \<and> check_retry V a c pid (Canonical r) = Inr r"
  proof (cases point)
    case (Some ip)
    then obtain j payload where ip: "point = Some (j, payload)" by (cases ip) auto
    with rest have ck: "check_retry V a c pid payload = Inr r" and s1: "s1 = s0" by auto
    from rl look ip have st: "pts s0 pid = Some payload" unfolding retrieve_ok_def
      by (fastforce split: option.splits if_splits)
    from ck have p: "payload = Canonical r"
      by (auto simp: check_retry_def model_validate_def split: episode_payload.splits if_splits)
    with ck have "es_id r = pid" "es_scope r d = a d" for d
      by (auto simp: check_retry_def model_validate_def list_ex_iff split: if_splits)
    with ck p st s1 show ?thesis by auto
  next
    case None
    let ?q = "prediction_write q d a pid"
    have me: "episode_store_ok (me_repository (ps_memory V)) pts" using R by (simp add: ps_repository_def)
    from None rest have "memory_store (ps_memory V) ctx now i ?q s0 = (Inr r, s1)" by simp
    from yieldsD [OF memory_store_yields [OF me] this] obtain a' n where
      a': "scoped_values (ps_unicode V) ctx MEMORY_WRITE a = Inr a'" and b: "build_episode (ps_memory V) now i ?q a' n = Inr r"
      and st: "pts s1 = (pts s0)(es_id r \<mapsto> Canonical r)"
      by (auto simp: store_outcome_def prediction_write_def ps_unicode_def)
    have "a' = a" using attribution_fixed [OF U ctx sc se] a' by (simp add: a_def)
    note f = build_episode_fields [OF b]
    have sess: "validate_session_id (a SESSION) = Inr session" using validate_session_idem [OF se] by (simp add: a_def)
    from f(9) sess \<open>a' = a\<close> have scope: "es_scope r = a" by (auto simp: a_def)
    have id: "es_id r = pid" using f(1) by (simp add: prediction_write_def)
    obtain e where e: "pi_expected d = Some e" using di(2) expected by (auto simp: strip_text_def)
    have "check_retry V a c pid (Canonical r) = Inr r"
      using written_is_retryable [OF scope _ id _ e _ _ di(1) pc, of V] strip_text_Some [of _ e] di(2) e f(3,4)
      by (simp add: prediction_write_def)
    with scope id st show ?thesis by simp
  qed
  show thesis
    by (rule that [OF sc se]) (use found in \<open>simp_all add: a_def pid_def\<close>)
qed


subsection \<open>Outcomes\<close>

lemma py_round6_near: "\<bar>py_round6 x - x\<bar> \<le> 1 / 2000000"
  using py_round_near [of 6 x] by (simp add: py_round6_def)

lemma py_round6_unit:
  assumes "0 \<le> x" and "x \<le> 1"
  shows "0 \<le> py_round6 x" and "py_round6 x \<le> 1"
  using py_round_unit [OF assms, of 6] by (simp_all add: py_round6_def)

lemma scope_text_canonical [simp]: "scope_text (Canonical p) = es_scope p"
  by (simp add: scope_text_def fun_eq_iff)

lemma prediction_cognition_Inr:
  assumes "prediction_cognition V r = Inr c"
  shows "cognition_of (lit ''prediction'') r = Some c" and "\<exists>x. Option.bind (c (lit ''confidence'')) json_number = Some x \<and> 0 \<le> x \<and> x \<le> 1"
  using assms by (auto simp: prediction_cognition_def split: option.splits if_splits)

lemma load_prediction_yields:
  assumes R: "episode_store_ok (ps_repository V) pts" and U: "nfc_stable (ps_unicode V)"
    and ctx: "\<And>a. ctx = Some a \<Longrightarrow> caller_wf (ps_unicode V) a"
  shows "yields pts (load_prediction V ctx pid) P (\<lambda>r P'. P' = P \<and> (\<forall>p. r = Inr p \<longrightarrow> P pid = Some (Canonical p)
    \<and> (\<forall>a. ctx = Some a \<longrightarrow> inside a (es_scope p)) \<and> (\<exists>c. prediction_cognition V p = Inr c)))"
proof -
  have rl: "retrieve_ok pts episode_meets pid cs (pr_retrieve (ps_repository V) pid cs)" for cs
    using retrieve_law R by (simp add: episode_store_ok_def)
  let ?Q = "\<lambda>r P'. P' = P \<and> (\<forall>j p. r = Inr (Some (j, p)) \<longrightarrow> P pid = Some p
      \<and> (\<forall>a. ctx = Some a \<longrightarrow> inside a (scope_text p)))"
  show ?thesis
    unfolding load_prediction_def
  proof (rule yields_bind [where M = ?Q])
    show "yields pts (case ctx of None \<Rightarrow> pr_retrieve (ps_repository V) pid []
       | Some _ \<Rightarrow> bindS (liftS (enforce_operation (ps_unicode V) ctx MEMORY_GET Map.empty)) (\<lambda>plan.
           bindS (liftS (scope_conditions plan)) (\<lambda>cs. pr_retrieve (ps_repository V) pid (map Scoped cs)))) P ?Q"
    proof (cases ctx)
      case None
      then show ?thesis by simp (rule yields_mono [OF yields_retrieved [OF rl]], auto split: option.splits)
    next
      case (Some a)
      have "yields pts (pr_retrieve (ps_repository V) pid (map Scoped cs)) P ?Q"
        if "enforce_operation (ps_unicode V) ctx MEMORY_GET Map.empty = Inr plan" "scope_conditions plan = Inr cs" for plan cs
      proof (rule yields_mono [OF yields_retrieved [OF rl]])
        fix r P' assume h: "P' = P \<and> (\<forall>x. r = Inr x \<longrightarrow> x = (case P pid of None \<Rightarrow> None
          | Some p \<Rightarrow> if \<forall>c \<in> set (map Scoped cs). episode_meets c p then Some (pid, p) else None))"
        have "inside a (scope_text p)" if "\<forall>c \<in> set (map Scoped cs). episode_meets c p" for p
          using read_selects_inside [OF U ctx [OF Some] keyword_match_payload] that
            \<open>enforce_operation _ _ _ _ = Inr plan\<close> \<open>scope_conditions plan = Inr cs\<close> Some by (simp add: mk_spec_def)
        with h Some show "?Q r P'" by (auto split: option.splits if_splits)
      qed
      with Some show ?thesis by (auto intro!: yields_lift_bind)
    qed
  next
    fix x P' assume "?Q (Inr x) P'"
    then show "yields pts (liftS (case x of None \<Rightarrow> Inl (ValueError (lit ''prediction not found: '' @ pid))
         | Some (_, payload) \<Rightarrow> (case model_validate payload of
              Inl _ \<Rightarrow> Inl (ValueError (lit ''prediction record is not a valid canonical episode''))
            | Inr record \<Rightarrow> bindE (prediction_cognition V record) (\<lambda>_. Inr record)))) P'
      (\<lambda>r P'. P' = P \<and> (\<forall>p. r = Inr p \<longrightarrow> P pid = Some (Canonical p)
        \<and> (\<forall>a. ctx = Some a \<longrightarrow> inside a (es_scope p)) \<and> (\<exists>c. prediction_cognition V p = Inr c)))"
      by (intro yields_lift) (auto simp: model_validate_def split: option.splits episode_payload.splits)
  qed auto
qed


definition severity :: "prediction_assessment \<Rightarrow> real option" where
  "severity a = (case a of CONFIRMED \<Rightarrow> Some 0 | PARTIALLY_CONFIRMED \<Rightarrow> Some (1 / 2) | CONTRADICTED \<Rightarrow> Some 1
     | INDETERMINATE \<Rightarrow> None)"

lemma derive_error_value:
  assumes "0 \<le> x" and "x \<le> 1"
  shows "case snd (derive_error a x) of None \<Rightarrow> severity a = None
    | Some e \<Rightarrow> 0 \<le> e \<and> e \<le> 1 \<and> (\<exists>w. severity a = Some w \<and> \<bar>e - w * x\<bar> \<le> 1 / 2000000)"
  using assms py_round6_near [of x] py_round6_near [of "x * (1 / 2)"] py_round6_unit [of x] py_round6_unit [of "x * (1 / 2)"]
  by (cases a) (auto simp: derive_error_def severity_def intro: exI [of _ "1 / 2"])

lemma map_of_outcome_entries:
  assumes "Option.bind (c (lit ''confidence'')) json_number = Some x"
  shows "map_of (outcome_entries V pid c d) (lit ''kind'') = Some (JStr (lit ''outcome''))"
    and "map_of (outcome_entries V pid c d) (lit ''prediction_id'') = Some (JStr pid)"
    and "map_of (outcome_entries V pid c d) (lit ''assessment'') = Some (JStr (assessment_value (oi_assessment d)))"
    and "map_of (outcome_entries V pid c d) (lit ''confidence_weighted_error'')
      = Some (case snd (derive_error (oi_assessment d) x) of None \<Rightarrow> JNull | Some e \<Rightarrow> JReal e)"
  using assms by (simp_all add: outcome_entries_def Let_def lit_eq_iff split: prod.split)

lemma make_outcome_input_Inr:
  "make_outcome_input observed assessment = Inr d \<Longrightarrow> assessment_value (oi_assessment d) = assessment"
  by (auto simp: make_outcome_input_def parse_assessment_def filter_eq_Cons_iff split: list.splits if_splits)

text \<open>
  What an outcome \<open>out\<close> recorded at \<open>t\<close> for the prediction \<open>pid\<close> owes to it, in the points
  \<open>P\<close> before the call.
\<close>

definition grounded_outcome :: "caller_authority option \<Rightarrow> (uid \<rightharpoonup> episode_payload) \<Rightarrow> uid \<Rightarrow> uid \<Rightarrow> timestamp \<Rightarrow> ustr
    \<Rightarrow> episode \<Rightarrow> bool" where
  "grounded_outcome ctx P pid new t assessment out \<longleftrightarrow>
     (\<exists>p i a x pc c. P pid = Some (Canonical p) \<and> es_id out = new
       \<and> (\<forall>k. ctx = Some k \<longrightarrow> inside k (es_scope p) \<and> inside k (es_scope out))
       \<and> t = Aware i \<and> es_event_time out = i \<and> es_event_time p \<le> i
       \<and> cognition_of (lit ''prediction'') p = Some pc
       \<and> Option.bind (pc (lit ''confidence'')) json_number = Some x \<and> 0 \<le> x \<and> x \<le> 1
       \<and> cognition_of (lit ''outcome'') out = Some c \<and> c (lit ''prediction_id'') = Some (JStr pid)
       \<and> assessment = assessment_value a \<and> c (lit ''assessment'') = Some (JStr assessment)
       \<and> (case severity a of None \<Rightarrow> c (lit ''confidence_weighted_error'') = Some JNull
          | Some w \<Rightarrow> \<exists>e. c (lit ''confidence_weighted_error'') = Some (JReal e)
              \<and> 0 \<le> e \<and> e \<le> 1 \<and> \<bar>e - w * x\<bar> \<le> 1 / 2000000))"

definition outcome_post :: "caller_authority option \<Rightarrow> (uid \<rightharpoonup> episode_payload) \<Rightarrow> uid \<Rightarrow> uid \<Rightarrow> timestamp \<Rightarrow> ustr
    \<Rightarrow> episode result \<Rightarrow> (uid \<rightharpoonup> episode_payload) \<Rightarrow> bool" where
  "outcome_post ctx P pid new t assessment r P' \<longleftrightarrow>
     (\<forall>i. i \<noteq> new \<longrightarrow> P' i = P i)
   \<and> (\<forall>out. r = Inr out \<longrightarrow> P' = P(new \<mapsto> Canonical out) \<and> grounded_outcome ctx P pid new t assessment out)"

lemma attributed_inside:
  assumes "nfc_stable U" and "\<And>a. ctx = Some a \<Longrightarrow> caller_wf U a"
    and "scoped_values U ctx MEMORY_WRITE v = Inr scoped" and "validate_session_id (scoped SESSION) = Inr session"
    and "ctx = Some k"
  shows "inside k (scoped(SESSION \<mapsto> session))"
proof -
  have w: "os_write_attribution (operation_specs MEMORY_WRITE)" by (simp add: mk_spec_def)
  have "scoped_values U ctx MEMORY_WRITE (scoped(SESSION \<mapsto> session)) = Inr (scoped(SESSION \<mapsto> session))"
    by (rule attribution_fixed [OF assms(1-4)])
  then show ?thesis using write_stores_inside(1) [OF assms(1) assms(2) [OF assms(5)] w] assms(5) by simp
qed

lemma stored_outcome_grounded:
  assumes "nfc_stable U" and "\<And>a. ctx = Some a \<Longrightarrow> caller_wf U a"
    and p: "P pid = Some (Canonical p)" "\<And>k. ctx = Some k \<Longrightarrow> inside k (es_scope p)"
    and c: "prediction_cognition V p = Inr c" and tm: "check_outcome_time t p = Inr u"
    and sc: "scoped_values U ctx MEMORY_WRITE v = Inr scoped"
    and b: "build_episode M now new (outcome_write V pid t d p c) scoped n = Inr out"
  shows "grounded_outcome ctx P pid new t (assessment_value (oi_assessment d)) out"
proof -
  obtain x where x: "Option.bind (c (lit ''confidence'')) json_number = Some x" "0 \<le> x" "x \<le> 1"
    and cp: "cognition_of (lit ''prediction'') p = Some c"
    using prediction_cognition_Inr [OF c] by auto
  let ?c = "map_of (outcome_entries V pid c d)"
  note f = build_episode_fields [OF b] and m = map_of_outcome_entries [where c = c and V = V and pid = pid and d = d, OF x(1)]
  obtain i where i: "t = Aware i" "es_event_time out = i" "es_event_time p \<le> i"
    using f(8) tm by (auto simp: outcome_write_def normalize_episode_time_def check_outcome_time_def split: timestamp.splits if_splits)
  have ins: "inside k (es_scope out)" if k: "ctx = Some k" for k
    using f(9) attributed_inside [OF assms(1,2) sc _ k] by auto
  have "cognition_of (lit ''outcome'') out = Some ?c"
    using f(4) m(1) by (simp add: cognition_of_def outcome_write_def)
  moreover have "case severity (oi_assessment d) of None \<Rightarrow> ?c (lit ''confidence_weighted_error'') = Some JNull
    | Some w \<Rightarrow> \<exists>e. ?c (lit ''confidence_weighted_error'') = Some (JReal e)
        \<and> 0 \<le> e \<and> e \<le> 1 \<and> \<bar>e - w * x\<bar> \<le> 1 / 2000000"
    using m(4) derive_error_value [OF x(2,3), of "oi_assessment d"] by (auto split: option.splits)
  ultimately show ?thesis
    using p i ins x cp m(2,3) f(1) by (auto simp: grounded_outcome_def outcome_write_def)
qed

lemma record_outcome_yields:
  assumes "episode_store_ok (ps_repository V) pts" and "nfc_stable (ps_unicode V)"
    and "\<And>a. ctx = Some a \<Longrightarrow> caller_wf (ps_unicode V) a"
  shows "yields pts (record_outcome V ctx now new pid observed assessment t agent) P (outcome_post ctx P pid new t assessment)"
proof -
  let ?Q = "outcome_post ctx P pid new t assessment"
  have me: "episode_store_ok (me_repository (ps_memory V)) pts" using assms(1) by (simp add: ps_repository_def)
  have fail: "?Q (Inl e) P" for e :: exn by (simp add: outcome_post_def)
  have store: "yields pts (memory_store (ps_memory V) ctx now new (outcome_write V pid t d p c)) P ?Q"
    if "P pid = Some (Canonical p)" "\<And>k. ctx = Some k \<Longrightarrow> inside k (es_scope p)"
      "prediction_cognition V p = Inr c" "check_outcome_time t p = Inr u" "assessment_value (oi_assessment d) = assessment"
    for d p c u
  proof (rule yields_mono [OF memory_store_yields [OF me]])
    fix r P1 assume so: "store_outcome (ps_memory V) ctx now new (outcome_write V pid t d p c) P r P1"
    show "?Q r P1"
    proof (cases "P1 = P \<and> (\<exists>e. r = Inl e)")
      case False
      with so obtain sc n out where
        sc: "scoped_values (ps_unicode V) ctx MEMORY_WRITE (mr_scope (outcome_write V pid t d p c)) = Inr sc"
        and b: "build_episode (ps_memory V) now new (outcome_write V pid t d p c) sc n = Inr out"
        and P1: "P1 = P(es_id out \<mapsto> Canonical out)" "r = Inr out \<or> (\<exists>e. r = Inl e)"
        by (auto simp: store_outcome_def ps_unicode_def)
      have "grounded_outcome ctx P pid new t assessment out"
        using stored_outcome_grounded [where P = P and pid = pid and ctx = ctx, OF assms(2,3) that(1-4) sc b] that(5) by simp
      with P1 show ?thesis by (auto simp: outcome_post_def grounded_outcome_def)
    qed (auto simp: outcome_post_def)
  qed
  show ?thesis
    unfolding record_outcome_def
  proof (intro yields_lift_bind fail)
    fix d assume d: "make_outcome_input observed assessment = Inr d"
    show "yields pts (bindS (load_prediction V ctx pid) (\<lambda>prediction.
       bindS (liftS (prediction_cognition V prediction)) (\<lambda>c.
       bindS (liftS (check_required_agent V agent prediction)) (\<lambda>_.
       bindS (liftS (check_outcome_time t prediction)) (\<lambda>_.
         memory_store (ps_memory V) ctx now new (outcome_write V pid t d prediction c)))))) P ?Q"
      by (rule yields_bind [OF load_prediction_yields [OF assms]])
        (auto intro!: yields_lift_bind fail store make_outcome_input_Inr [OF d])
  qed
qed

subsection \<open>Adding up\<close>

lemma update_keys: "map fst (AList.update k v al) = (if k \<in> set (map fst al) then map fst al else map fst al @ [k])"
  by (induction al) auto

lemma count_update:
  "sum_list (map snd (AList.update k (the_default 0 (map_of al k) + 1) al)) = sum_list (map snd al) + (1 :: int)"
  by (induction al) auto

lemma in_update: "x \<in> set (AList.update k v al) \<Longrightarrow> x = (k, v) \<or> x \<in> set al"
  by (induction al) (auto split: if_splits)

lemma counted_update:
  "\<forall>n \<in> set (map snd al). 1 \<le> n \<Longrightarrow> \<forall>n \<in> set (map snd (AList.update k (the_default 0 (map_of al k) + 1) al)). (1 :: int) \<le> n"
proof -
  assume a: "\<forall>n \<in> set (map snd al). 1 \<le> n"
  have "the_default 0 (map_of al k) \<ge> 0" using a by (cases "map_of al k") (force dest: map_of_SomeD)+
  then show ?thesis using a by (auto dest: in_update)
qed

lemma keep_latest_keys:
  "map fst (keep_latest pid r c latest) = (if pid \<in> set (map fst latest) then map fst latest else map fst latest @ [pid])"
  by (cases "pid \<in> set (map fst latest)")
    (auto simp: keep_latest_def update_keys map_of_eq_None_iff [THEN iffD2] split: option.splits)

text \<open>
  What the loop over the outcomes keeps after \<open>n\<close> outcomes of known predictions: one entry,
  and one positive count, per prediction that has an outcome.
\<close>

definition collected :: "uid set \<Rightarrow> int \<Rightarrow> latest_outcomes \<Rightarrow> (uid \<times> int) list \<Rightarrow> bool" where
  "collected known n latest counts \<longleftrightarrow> map fst latest = map fst counts \<and> distinct (map fst latest)
     \<and> set (map fst latest) \<subseteq> known \<and> (\<forall>k \<in> set (map snd counts). 1 \<le> k) \<and> sum_list (map snd counts) = n"

lemma collected_Nil: "collected known 0 [] []"
  by (simp add: collected_def)

lemma collectedD:
  assumes "collected known n latest counts"
  shows "map fst latest = map fst counts" and "distinct (map fst latest)" and "set (map fst latest) \<subseteq> known"
    and "\<forall>k \<in> set (map snd counts). 1 \<le> k" and "sum_list (map snd counts) = n"
  using assms unfolding collected_def by blast+

lemma collected_step:
  assumes "collected known n latest counts" and "pid \<in> known"
  shows "collected known (n + 1) (keep_latest pid r c latest)
    (AList.update pid (the_default 0 (map_of counts pid) + 1) counts)"
proof -
  note e = collectedD(1) [OF assms(1)] and d = collectedD(2) [OF assms(1)] and k = collectedD(3) [OF assms(1)]
    and p = collectedD(4) [OF assms(1)] and n = collectedD(5) [OF assms(1)]
  have "distinct (map fst (keep_latest pid r c latest))" "set (map fst (keep_latest pid r c latest)) \<subseteq> known"
    unfolding keep_latest_keys using d k assms(2) by auto
  then show ?thesis
    unfolding collected_def using counted_update [OF p] n by (simp only: keep_latest_keys update_keys e count_update) simp
qed

lemma collect_outcomes_spec:
  "collect_outcomes V known outcomes acc = (latest', counts') \<Longrightarrow> collected known n (fst acc) (snd acc) \<Longrightarrow>
     collected known (n + int (length (filter (\<lambda>(r, c). resolved_id V c \<in> known) outcomes))) latest' counts'"
proof (induction V known outcomes acc arbitrary: n rule: collect_outcomes.induct)
  case (2 V known r c rest latest counts)
  show ?case
  proof (cases "resolved_id V c \<in> known")
    case False
    with 2(1) [OF refl False, of n] 2(3,4) show ?thesis by simp
  next
    case True
    from 2(2) [OF refl, of "n + 1"] collected_step [of known n latest counts "resolved_id V c" r c] 2(3,4) True
    show ?thesis by (simp add: Let_def ac_simps)
  qed
qed auto

lemma counts_by_value:
  "distinct vs \<Longrightarrow> sum_list (map (\<lambda>v. length (filter (\<lambda>x. g x = v) xs)) vs) \<le> length xs"
proof (induction xs)
  case (Cons x xs)
  have "sum_list (map (\<lambda>v. length (filter (\<lambda>y. g y = v) (x # xs))) vs)
      = sum_list (map (\<lambda>v. length (filter (\<lambda>y. g y = v) xs)) vs) + sum_list (map (\<lambda>v. if g x = v then 1 else 0) vs)"
    by (induction vs) auto
  moreover have "sum_list (map (\<lambda>v. if g x = v then 1 else 0) vs) \<le> (1 :: nat)"
    using Cons.prems by (induction vs) (auto simp: sum_list_eq_0_iff)
  ultimately show ?case using Cons by simp
qed simp


lemma duplicates_of_counts:
  "\<forall>k \<in> set (map snd counts). (1 :: int) \<le> k \<Longrightarrow>
     sum_list (map (\<lambda>(_, n). max 0 (n - 1)) counts) = sum_list (map snd counts) - int (length counts)"
  by (induction counts) auto

lemma fold_update_distinct:
  "distinct (map fst acc) \<Longrightarrow> distinct (map fst (fold (\<lambda>x. AList.update (f x) (g x)) xs acc))"
  by (induction xs arbitrary: acc) (simp_all add: update_keys)

lemma update_key_set: "fst ` set (AList.update k v al) = insert k (fst ` set al)"
  by (induction al) auto

lemma fold_update_keys:
  "fst ` set (fold (\<lambda>p. AList.update (f p) p) xs acc) = fst ` set acc \<union> f ` set xs"
  by (induction xs arbitrary: acc) (simp_all add: update_key_set)

lemma counts_by_label:
  assumes "distinct (map label vs)"
  shows "sum_list (map snd (map (\<lambda>v. (v, int (length (filter (field_is V k (label v)) xs)))) vs)) \<le> int (length xs)"
proof -
  have "sum_list (map (\<lambda>v. length (filter (\<lambda>c. text_or_empty (ps_str V) (c k) = v) xs)) (map label vs)) \<le> length xs"
    using assms by (rule counts_by_value)
  then have "sum_list (map (\<lambda>v. length (filter (field_is V k (label v)) xs)) vs) \<le> length xs"
    by (simp add: comp_def field_is_def [abs_def])
  moreover have "sum_list (map snd (map (\<lambda>v. (v, int (length (filter (field_is V k (label v)) xs)))) vs))
      = int (sum_list (map (\<lambda>v. length (filter (field_is V k (label v)) xs)) vs))"
    by (induction vs) auto
  ultimately show ?thesis by simp
qed

lemma summarize_spec:
  assumes ob_def: "ob = summarize V limit predictions outcomes"
  shows "ob_resolved ob + ob_unresolved ob = ob_predictions ob" and "0 \<le> ob_unresolved ob" and "0 \<le> ob_duplicates ob"
    and "ob_resolved ob + ob_duplicates ob = int (length (filter (\<lambda>(_, c). resolved_id V c \<in> es_id ` fst ` set predictions) outcomes))"
    and "sum_list (map snd (ob_assessments ob)) \<le> ob_resolved ob" and "sum_list (map snd (ob_error_classes ob)) \<le> ob_resolved ob"
proof -
  define rows where "rows = fold (\<lambda>p. AList.update (es_id (fst p)) p) predictions []"
  obtain latest counts where c: "collect_outcomes V (fst ` set rows) outcomes ([], []) = (latest, counts)" by fastforce
  have rows: "rows = fold (\<lambda>(record, c). AList.update (es_id record) (record, c)) predictions []"
    by (simp add: rows_def case_prod_unfold)
  have ks: "fst ` set rows = es_id ` fst ` set predictions" using fold_update_keys [of "es_id \<circ> fst" predictions "[]"] by (simp add: rows_def image_comp comp_def)
  have inv: "collected (fst ` set rows) (int (length (filter (\<lambda>(_, c). resolved_id V c \<in> es_id ` fst ` set predictions) outcomes))) latest counts"
    using collect_outcomes_spec [OF c, of 0] collected_Nil by (simp add: ks)
  note col = collectedD [OF inv]
  have len: "length latest = length counts" using arg_cong [OF col(1), of length] by simp
  have "card (set (map fst latest)) \<le> card (fst ` set rows)" using col(3) by (intro card_mono) simp_all
  moreover have "card (set (map fst latest)) = length latest" using distinct_card [OF col(2)] by simp
  moreover have "card (fst ` set rows) \<le> length rows" by (metis card_length length_map list.set_map)
  ultimately have le: "length latest \<le> length rows" by simp
  have du: "sum_list (map (\<lambda>(_, n). max 0 (n - 1)) counts) = sum_list (map snd counts) - int (length counts)"
    by (rule duplicates_of_counts [OF col(4)])
  have sm: "sum_list (map snd counts) = int (length (filter (\<lambda>(_, c). resolved_id V c \<in> es_id ` fst ` set predictions) outcomes))"
    by (rule col(5))
  have nn: "0 \<le> sum_list (map (\<lambda>(_, n). max 0 (n - 1)) counts)" for counts :: "(uid \<times> int) list"
    by (induction counts) auto
  have ob: "ob_resolved ob = int (length latest)" "ob_predictions ob = int (length rows)"
    "ob_unresolved ob = max 0 (int (length rows) - int (length latest))"
    "ob_duplicates ob = sum_list (map (\<lambda>(_, n). max 0 (n - 1)) counts)"
    "ob_assessments ob = map (\<lambda>a. (a, int (length (filter (field_is V (lit ''assessment'') (assessment_value a)) (map (snd \<circ> snd) latest))))) all_assessments"
    "ob_error_classes ob = map (\<lambda>e. (e, int (length (filter (field_is V (lit ''prediction_error_class'') (error_class_value e)) (map (snd \<circ> snd) latest))))) all_error_classes"
    by (simp_all add: ob_def summarize_def Let_def c flip: rows)
  show "ob_resolved ob + ob_unresolved ob = ob_predictions ob" "0 \<le> ob_unresolved ob" using le by (simp_all add: ob)
  show "0 \<le> ob_duplicates ob" unfolding ob by (rule nn)
  show "ob_resolved ob + ob_duplicates ob = int (length (filter (\<lambda>(_, c). resolved_id V c \<in> es_id ` fst ` set predictions) outcomes))"
    by (simp add: ob du sm len)
  show "sum_list (map snd (ob_assessments ob)) \<le> ob_resolved ob"
    unfolding ob using counts_by_label [of assessment_value all_assessments V _ "map (snd \<circ> snd) latest"]
    by (simp add: all_assessments_def lit_eq_iff)
  show "sum_list (map snd (ob_error_classes ob)) \<le> ob_resolved ob"
    unfolding ob using counts_by_label [of error_class_value all_error_classes V _ "map (snd \<circ> snd) latest"]
    by (simp add: all_error_classes_def lit_eq_iff)
qed


subsection \<open>Scans\<close>

text \<open>The conditions of a scan, and the points it can show.\<close>

definition scan_conditions :: "'s prediction_service \<Rightarrow> caller_authority option \<Rightarrow> ustr \<Rightarrow> prediction_filter
    \<Rightarrow> episode_condition list result" where
  "scan_conditions V ctx source f =
     bindE (enforce_operation (ps_unicode V) ctx MEMORY_SEARCH (pf_scope f)) (\<lambda>plan.
     bindE (scope_conditions plan) (\<lambda>scope.
       Inr ([HasText KEY_SOURCE source] @ map Scoped scope @ prediction_filters f)))"

definition kind_of_source :: "ustr \<Rightarrow> ustr" where
  "kind_of_source source = (if source = prediction_source then lit ''prediction'' else lit ''outcome'')"

definition scanned :: "(uid \<rightharpoonup> episode_payload) \<Rightarrow> ustr \<Rightarrow> episode_condition list \<Rightarrow> (uid \<times> episode_payload) list \<Rightarrow> nat \<Rightarrow> bool" where
  "scanned P kind cs xs n \<longleftrightarrow> distinct (map fst xs) \<and> set xs \<subseteq> meets episode_meets cs P \<and> length xs \<le> n
     \<and> (length xs < n \<longrightarrow> set xs = meets episode_meets cs P)"

lemma scroll_cognition_yields:
  assumes "episode_store_ok (ps_repository V) pts"
  shows "yields pts (scroll_cognition V ctx source n f) P (\<lambda>r P'. P' = P \<and> (\<forall>rows. r = Inr rows \<longrightarrow>
    (\<exists>cs xs. scan_conditions V ctx source f = Inr cs \<and> rows = concat (map (readable_cognition (kind_of_source source)) xs)
       \<and> scanned P (kind_of_source source) cs xs n)))"
  unfolding scroll_cognition_def
proof (intro yields_lift_bind)
  fix plan scope
  assume "enforce_operation (ps_unicode V) ctx MEMORY_SEARCH (pf_scope f) = Inr plan" and "scope_conditions plan = Inr scope"
  then have cs: "scan_conditions V ctx source f = Inr ([HasText KEY_SOURCE source] @ map Scoped scope @ prediction_filters f)"
    by (simp add: scan_conditions_def)
  have law: "read_ok pts episode_meets n cs True (pr_scroll (ps_repository V) cs n)" for cs
    using scroll_law assms by (simp add: episode_store_ok_def)
  show "yields pts (bindS (pr_scroll (ps_repository V) ([HasText KEY_SOURCE source] @ map Scoped scope @ prediction_filters f) n)
      (\<lambda>points. returnS (concat (map (readable_cognition (if source = prediction_source then lit ''prediction'' else lit ''outcome'')) points)))) P
    (\<lambda>r P'. P' = P \<and> (\<forall>rows. r = Inr rows \<longrightarrow>
      (\<exists>cs xs. scan_conditions V ctx source f = Inr cs \<and> rows = concat (map (readable_cognition (kind_of_source source)) xs)
         \<and> scanned P (kind_of_source source) cs xs n)))"
    by (rule yields_bind [OF yields_listed [OF law]])
      (auto simp: cs kind_of_source_def scanned_def intro!: yields_return)
qed auto

text \<open>Two scans in a row, as every report makes them.\<close>

lemma two_scans_yields:
  assumes "episode_store_ok (ps_repository V) pts"
    and "\<And>pc oc ps os. scan_conditions V ctx prediction_source f = Inr pc \<Longrightarrow> scan_conditions V ctx outcome_source f = Inr oc
      \<Longrightarrow> scanned P (lit ''prediction'') pc ps n \<Longrightarrow> scanned P (lit ''outcome'') oc os n
      \<Longrightarrow> yields pts (k (concat (map (readable_cognition (lit ''prediction'')) ps)) (concat (map (readable_cognition (lit ''outcome'')) os))) P Q"
    and "\<And>e. Q (Inl e) P"
  shows "yields pts (bindS (scroll_cognition V ctx prediction_source n f) (\<lambda>ps.
    bindS (scroll_cognition V ctx outcome_source n f) (\<lambda>os. k ps os))) P Q"
proof (rule yields_bind [OF scroll_cognition_yields [OF assms(1)]], goal_cases)
  case (1 rows P')
  have kinds: "kind_of_source prediction_source = lit ''prediction''" "kind_of_source outcome_source = lit ''outcome''"
    by (simp_all add: kind_of_source_def prediction_source_def outcome_source_def lit_eq_iff)
  from 1 have P': "P' = P" by simp
  from 1 obtain pc ps where p: "scan_conditions V ctx prediction_source f = Inr pc" "scanned P (lit ''prediction'') pc ps n"
    "rows = concat (map (readable_cognition (lit ''prediction'')) ps)" using kinds by auto
  show ?case
    unfolding P'
  proof (rule yields_bind [OF scroll_cognition_yields [OF assms(1)]], goal_cases)
    case (1 orows P2)
    then show ?case using assms(2) [OF p(1) _ p(2)] p(3) kinds by auto
  qed (use assms(3) in auto)
qed (use assms(3) in auto)

lemma rows_length: "length (concat (map (readable_cognition kind) xs)) \<le> length xs"
  by (induction xs) (auto simp: readable_cognition_def split: episode_payload.splits option.splits)

text \<open>Every point of the two sources is a canonical episode with its cognition, under its own id.\<close>

definition readable_store :: "(uid \<rightharpoonup> episode_payload) \<Rightarrow> bool" where
  "readable_store P \<longleftrightarrow> (\<forall>i p source. P i = Some p \<longrightarrow> payload_text KEY_SOURCE p = Some source \<longrightarrow>
     source = prediction_source \<or> source = outcome_source \<longrightarrow>
     i \<noteq> [] \<and> (\<exists>r c. p = Canonical r \<and> es_id r = i \<and> cognition_of (kind_of_source source) r = Some c))"

lemma scan_conditions_source:
  "scan_conditions V ctx source f = Inr cs \<Longrightarrow> (i, p) \<in> meets episode_meets cs P \<Longrightarrow> P i = Some p \<and> payload_text KEY_SOURCE p = Some source"
  by (auto simp: scan_conditions_def meets_def)

text \<open>On such a store a scan loses nothing: each point it shows is one row.\<close>

lemma readable_rows:
  assumes "readable_store P" and "scan_conditions V ctx source f = Inr cs" and "source = prediction_source \<or> source = outcome_source"
    and "set xs \<subseteq> meets episode_meets cs P"
  shows "length (concat (map (readable_cognition (kind_of_source source)) xs)) = length xs"
    and "set (concat (map (readable_cognition (kind_of_source source)) xs))
      = {(r, c). (es_id r, Canonical r) \<in> set xs \<and> cognition_of (kind_of_source source) r = Some c}"
    and "map (es_id \<circ> fst) (concat (map (readable_cognition (kind_of_source source)) xs)) = map fst xs"
proof -
  have one: "\<exists>r c. x = (es_id r, Canonical r) \<and> cognition_of (kind_of_source source) r = Some c" if "x \<in> set xs" for x
    using assms(1,3,4) that scan_conditions_source [OF assms(2), of "fst x" "snd x" P]
    unfolding readable_store_def by (cases x) fastforce
  then have single: "\<exists>r c. readable_cognition (kind_of_source source) x = [(r, c)] \<and> x = (es_id r, Canonical r)
      \<and> cognition_of (kind_of_source source) r = Some c" if "x \<in> set xs" for x
    using that by (fastforce simp: readable_cognition_def)
  show "length (concat (map (readable_cognition (kind_of_source source)) xs)) = length xs"
    using single by (induction xs) fastforce+
  show "map (es_id \<circ> fst) (concat (map (readable_cognition (kind_of_source source)) xs)) = map fst xs"
    using single by (induction xs) fastforce+
  show "set (concat (map (readable_cognition (kind_of_source source)) xs))
      = {(r, c). (es_id r, Canonical r) \<in> set xs \<and> cognition_of (kind_of_source source) r = Some c}"
  proof (intro set_eqI, clarify, intro iffI)
    fix r c assume "(r, c) \<in> set (concat (map (readable_cognition (kind_of_source source)) xs))"
    then obtain x where x: "x \<in> set xs" "(r, c) \<in> set (readable_cognition (kind_of_source source) x)" by auto
    with single [OF x(1)] show "(r, c) \<in> {(r, c). (es_id r, Canonical r) \<in> set xs \<and> cognition_of (kind_of_source source) r = Some c}"
      by auto
  next
    fix r c assume "(r, c) \<in> {(r, c). (es_id r, Canonical r) \<in> set xs \<and> cognition_of (kind_of_source source) r = Some c}"
    then have "(es_id r, Canonical r) \<in> set xs" "(r, c) \<in> set (readable_cognition (kind_of_source source) (es_id r, Canonical r))"
      by (auto simp: readable_cognition_def)
    then show "(r, c) \<in> set (concat (map (readable_cognition (kind_of_source source)) xs))" by auto
  qed
qed


definition unresolved :: "'s prediction_service \<Rightarrow> (uid \<rightharpoonup> episode_payload) \<Rightarrow> episode_condition list \<Rightarrow> episode_condition list \<Rightarrow> uid set" where
  "unresolved V P pc oc = {i. (\<exists>p. (i, p) \<in> meets episode_meets pc P)
     \<and> \<not> (\<exists>j q c. (j, Canonical q) \<in> meets episode_meets oc P \<and> cognition_of (lit ''outcome'') q = Some c \<and> resolved_id V c = i)}"

lemma pending_item_id: "pending_item V x = Inr y \<Longrightarrow> pp_id y = es_id (fst x)"
  by (auto simp: pending_item_def Let_def)

lemma pending_item_ids: "mapE (pending_item V) xs = Inr ys \<Longrightarrow> map pp_id ys = map (es_id \<circ> fst) xs"
  by (induction xs arbitrary: ys) (auto dest: pending_item_id)

lemma pending_report_Inr:
  assumes "pending_report V limit scan predictions outcomes = Inr pl" and "1 \<le> limit"
  obtains items where "mapE (pending_item V) (filter (\<lambda>(record, _). es_id record \<notin> set (resolved_ids V outcomes)) predictions) = Inr items"
    and "sorted (map (\<lambda>i. (pp_event_time i, pp_id i)) (pl_items pl))" and "int (length (pl_items pl)) \<le> limit"
    and "mset (pl_items pl) \<subseteq># mset items"
    and "\<not> pl_incomplete pl \<longrightarrow> mset (pl_items pl) = mset items \<and> int (length predictions) < scan \<and> int (length outcomes) < scan"
proof -
  let ?key = "\<lambda>i :: pending_prediction. (pp_event_time i, pp_id i)"
  from assms(1) obtain items where i: "mapE (pending_item V) (filter (\<lambda>(record, _). es_id record \<notin> set (resolved_ids V outcomes)) predictions) = Inr items"
    and pl: "pl_items pl = take (nat limit) (sort_key ?key items)"
      "pl_incomplete pl \<longleftrightarrow> limit < int (length items) \<or> scan \<le> int (length predictions) \<or> scan \<le> int (length outcomes)"
    by (auto simp: pending_report_def Let_def)
  show thesis
  proof (rule that [OF i])
    have "sorted (take (nat limit) (map ?key (sort_key ?key items)))" by (intro sorted_wrt_take) simp
    then show "sorted (map ?key (pl_items pl))" by (simp only: pl(1) take_map)
    show "int (length (pl_items pl)) \<le> limit" using assms(2) by (simp add: pl(1))
    have "mset (take (nat limit) (sort_key ?key items)) \<subseteq># mset (sort_key ?key items)"
      by (metis append_take_drop_id mset_append mset_subset_eq_add_left)
    then show "mset (pl_items pl) \<subseteq># mset items" by (simp add: pl(1))
    show "\<not> pl_incomplete pl \<longrightarrow> mset (pl_items pl) = mset items \<and> int (length predictions) < scan \<and> int (length outcomes) < scan"
    proof
      assume "\<not> pl_incomplete pl"
      then have "length items \<le> nat limit" "int (length predictions) < scan" "int (length outcomes) < scan"
        by (auto simp: pl(2))
      then show "mset (pl_items pl) = mset items \<and> int (length predictions) < scan \<and> int (length outcomes) < scan"
        by (simp add: pl(1))
    qed
  qed
qed

lemma resolved_ids_set:
  "i \<noteq> [] \<Longrightarrow> i \<in> set (resolved_ids V outcomes) \<longleftrightarrow> (\<exists>q c. (q, c) \<in> set outcomes \<and> resolved_id V c = i)"
  by (auto simp: resolved_ids_def resolved_id_def text_or_empty_def image_iff split: option.splits if_splits)


lemma distinct_submset: "distinct ys \<Longrightarrow> mset xs \<subseteq># mset ys \<Longrightarrow> distinct xs"
  by (metis distinct_append mset_append mset_eq_imp_distinct_iff ex_mset subset_mset.le_iff_add)

lemma pending_rows:
  assumes P: "readable_store P" and pc: "scan_conditions V ctx prediction_source f = Inr pc"
    and oc: "scan_conditions V ctx outcome_source f = Inr oc"
    and ps: "scanned P (lit ''prediction'') pc ps (nat scan)" and os: "scanned P (lit ''outcome'') oc os (nat scan)"
    and lim: "1 \<le> limit" "1 \<le> scan"
    and pl: "pending_report V limit scan (concat (map (readable_cognition (lit ''prediction'')) ps))
      (concat (map (readable_cognition (lit ''outcome'')) os)) = Inr pl"
  shows "sorted (map (\<lambda>i. (pp_event_time i, pp_id i)) (pl_items pl)) \<and> distinct (map pp_id (pl_items pl))
    \<and> int (length (pl_items pl)) \<le> limit
    \<and> (\<forall>i \<in> set (map pp_id (pl_items pl)). \<exists>p. (i, p) \<in> meets episode_meets pc P)
    \<and> (\<not> pl_incomplete pl \<longrightarrow> set (map pp_id (pl_items pl)) = unresolved V P pc oc)"
proof -
  have kinds: "kind_of_source prediction_source = lit ''prediction''" "kind_of_source outcome_source = lit ''outcome''"
    by (simp_all add: kind_of_source_def prediction_source_def outcome_source_def lit_eq_iff)
  let ?ps = "concat (map (readable_cognition (lit ''prediction'')) ps)" and ?os = "concat (map (readable_cognition (lit ''outcome'')) os)"
  have subs: "set ps \<subseteq> meets episode_meets pc P" "set os \<subseteq> meets episode_meets oc P" "distinct (map fst ps)"
    using ps os by (auto simp: scanned_def)
  note rp = readable_rows [OF P pc _ subs(1), unfolded kinds, OF disjI1 [OF refl]]
  note ro = readable_rows [OF P oc _ subs(2), unfolded kinds, OF disjI2 [OF refl]]
  obtain items where it: "mapE (pending_item V) (filter (\<lambda>(record, _). es_id record \<notin> set (resolved_ids V ?os)) ?ps) = Inr items"
    and so: "sorted (map (\<lambda>i. (pp_event_time i, pp_id i)) (pl_items pl))" "int (length (pl_items pl)) \<le> limit"
    and sub: "mset (pl_items pl) \<subseteq># mset items"
    and all: "\<not> pl_incomplete pl \<longrightarrow> mset (pl_items pl) = mset items \<and> int (length ?ps) < scan \<and> int (length ?os) < scan"
    by (rule pending_report_Inr [OF pl lim(1)])
  have "filter (\<lambda>(record, _). es_id record \<notin> set (resolved_ids V ?os)) ?ps = filter ((\<lambda>i. i \<notin> set (resolved_ids V ?os)) \<circ> (es_id \<circ> fst)) ?ps"
    by (rule filter_cong) auto
  then have ids: "map pp_id items = filter (\<lambda>i. i \<notin> set (resolved_ids V ?os)) (map fst ps)"
    using pending_item_ids [OF it] rp(3) by (simp add: filter_map [symmetric])
  then have di: "distinct (map pp_id items)" using subs(3) by simp
  have "image_mset pp_id (mset (pl_items pl)) \<subseteq># image_mset pp_id (mset items)" by (rule image_mset_subseteq_mono [OF sub])
  then have "mset (map pp_id (pl_items pl)) \<subseteq># mset (map pp_id items)" by simp
  then have dp: "distinct (map pp_id (pl_items pl))" and sp: "set (map pp_id (pl_items pl)) \<subseteq> set (map pp_id items)"
    using distinct_submset [OF di] set_mset_mono by fastforce+
  have vis: "\<exists>p. (i, p) \<in> meets episode_meets pc P" if "i \<in> set (map pp_id items)" for i
    using that subs(1) by (auto simp: ids)
  have "set (map pp_id (pl_items pl)) = unresolved V P pc oc" if "\<not> pl_incomplete pl"
  proof -
    note a = all [rule_format, OF that]
    have ps_all: "set ps = meets episode_meets pc P" and os_all: "set os = meets episode_meets oc P"
      using a rp(1) ro(1) ps os lim by (auto simp: scanned_def)
    have res: "i \<in> set (resolved_ids V ?os) \<longleftrightarrow> (\<exists>j q c. (j, Canonical q) \<in> meets episode_meets oc P
        \<and> cognition_of (lit ''outcome'') q = Some c \<and> resolved_id V c = i)" if i: "(i, p) \<in> meets episode_meets pc P" for i p
    proof -
      have ne: "i \<noteq> []" using scan_conditions_source [OF pc i] P by (auto simp: readable_store_def)
      have own: "j = es_id q" if "(j, Canonical q) \<in> meets episode_meets oc P" for j q
        using scan_conditions_source [OF oc that] P unfolding readable_store_def by fastforce
      have "(q, c) \<in> set ?os \<longleftrightarrow> (es_id q, Canonical q) \<in> meets episode_meets oc P \<and> cognition_of (lit ''outcome'') q = Some c" for q c
        unfolding ro(2) os_all by simp
      then show ?thesis unfolding resolved_ids_set [OF ne] using own by metis
    qed
    have "set (map pp_id (pl_items pl)) = set (map pp_id items)" using a by (metis mset_map set_mset_mset)
    also have "\<dots> = {i \<in> fst ` meets episode_meets pc P. i \<notin> set (resolved_ids V ?os)}" by (auto simp: ids ps_all)
    also have "\<dots> = unresolved V P pc oc"
      unfolding unresolved_def
    proof (rule Collect_cong)
      fix i
      have "i \<in> fst ` meets episode_meets pc P \<longleftrightarrow> (\<exists>p. (i, p) \<in> meets episode_meets pc P)" by force
      with res [of i] show "i \<in> fst ` meets episode_meets pc P \<and> i \<notin> set (resolved_ids V ?os) \<longleftrightarrow>
          (\<exists>p. (i, p) \<in> meets episode_meets pc P) \<and> \<not> (\<exists>j q c. (j, Canonical q) \<in> meets episode_meets oc P
             \<and> cognition_of (lit ''outcome'') q = Some c \<and> resolved_id V c = i)" by blast
    qed
    finally show ?thesis .
  qed
  with so dp sp vis show ?thesis by blast
qed

subsection \<open>Properties\<close>

text \<open>
  C17. Recording a prediction is idempotent under a correlation id: when a call with a readable
  expectation has succeeded, every later call with the same id and the same identity values
  returns the record of the first one and writes nothing, whatever the rest of the call says,
  as long as nobody has changed that point and the store answers.
\<close>

theorem prediction_retry_returns_first:
  assumes "episode_store_ok (ps_repository V) pts" and "nfc_stable (ps_unicode V)"
    and "\<And>a. ctx = Some a \<Longrightarrow> caller_wf (ps_unicode V) a"
    and "record_prediction V ctx now new_id q s = (Inr r, s1)"
    and "strip_text (pq_correlation q) = Some c" and "py_strip (pq_expected q) \<noteq> []"
    and "pq_scope q' = pq_scope q" and "strip_text (pq_correlation q') = Some c"
    and "make_prediction_input q' = Inr d'" and "pq_event_time q' = Aware t"
    and "pts s2 (es_id r) = pts s1 (es_id r)"
    and "\<And>i cs. \<exists>x s'. pr_retrieve (ps_repository V) i cs s2 = (Inr x, s')"
    and "record_prediction V ctx now' new_id' q' s2 = (res, s3)"
  shows "res = Inr r \<and> pts s3 = pts s2"
proof -
  obtain scoped session where sc: "scoped_values (ps_unicode V) ctx MEMORY_WRITE (pq_scope q) = Inr scoped"
    and se: "validate_session_id (scoped SESSION) = Inr session" and scope: "es_scope r = scoped(SESSION \<mapsto> session)"
    and id: "es_id r = correlated_id V (scoped(SESSION \<mapsto> session)) c" and st: "pts s1 (es_id r) = Some (Canonical r)"
    and ck: "check_retry V (scoped(SESSION \<mapsto> session)) c (es_id r) (Canonical r) = Inr r"
    by (rule correlated_prediction [OF assms(1-6)])
  let ?a = "scoped(SESSION \<mapsto> session)" and ?R = "ps_repository V"
  have pc: "pi_correlation d' = Some c" using make_prediction_input_Inr(3) [OF assms(9)] assms(8) by simp
  obtain x s0 where look: "pr_retrieve ?R (es_id r) (attribution_conditions ctx ?a) s2 = (Inr x, s0)"
    using assms(12) by blast
  have "retrieve_ok pts episode_meets (es_id r) (attribution_conditions ctx ?a) (pr_retrieve ?R (es_id r) (attribution_conditions ctx ?a))"
    using retrieve_law assms(1) by (simp add: episode_store_ok_def)
  with look have p0: "pts s0 = pts s2" and "x = (case pts s2 (es_id r) of None \<Rightarrow> None
      | Some p \<Rightarrow> if \<forall>k \<in> set (attribution_conditions ctx ?a). episode_meets k p then Some (es_id r, p) else None)"
    unfolding retrieve_ok_def by blast+
  then have x: "x = Some (es_id r, Canonical r)"
    using st assms(11) attribution_conditions_hold [OF scope] by simp
  have "record_prediction V ctx now' new_id' q' s2 = (Inr r, s0)"
    using assms(7,9,10) sc se pc look x ck id
    by (simp add: record_prediction_def Let_def normalize_episode_time_def bindS_def liftS_def)
  with assms(13) p0 show ?thesis by simp
qed

text \<open>
  C18. An outcome is grounded in its prediction: a call that records one found a prediction the
  caller may read, is not earlier than it, writes exactly one new point in the caller's scope
  that names the prediction, and its error is the stated confidence weighted by how far the
  assessment is from a confirmation, up to rounding (and absent for an indeterminate one). No
  other point changes, whether the call succeeds or fails.
\<close>

theorem outcome_is_grounded:
  assumes "episode_store_ok (ps_repository V) pts" and "nfc_stable (ps_unicode V)"
    and "\<And>a. ctx = Some a \<Longrightarrow> caller_wf (ps_unicode V) a"
    and "record_outcome V ctx now new pid observed assessment t agent s = (res, s')"
  shows "(\<forall>i. i \<noteq> new \<longrightarrow> pts s' i = pts s i)
    \<and> (\<forall>out. res = Inr out \<longrightarrow> pts s' = (pts s)(new \<mapsto> Canonical out)
         \<and> grounded_outcome ctx (pts s) pid new t assessment out)"
  using yieldsD [OF record_outcome_yields [OF assms(1-3)] assms(4)] by (simp add: outcome_post_def)

text \<open>
  The figures of an observation add up: every scanned prediction is either resolved or
  unresolved, the resolved ones and the duplicates never exceed the outcomes scanned, each
  resolved prediction is counted in at most one assessment and at most one error class, and the
  scan is bounded and only reads.
\<close>

theorem observation_adds_up:
  assumes "episode_store_ok (ps_repository V) pts" and "observe V ctx limit f s = (Inr ob, s')"
  shows "pts s' = pts s \<and> ob_predictions ob = ob_resolved ob + ob_unresolved ob \<and> 0 \<le> ob_unresolved ob
    \<and> 0 \<le> ob_duplicates ob \<and> ob_resolved ob + ob_duplicates ob \<le> ob_outcomes ob
    \<and> sum_list (map snd (ob_assessments ob)) \<le> ob_resolved ob
    \<and> sum_list (map snd (ob_error_classes ob)) \<le> ob_resolved ob
    \<and> ob_outcomes ob \<le> limit \<and> 1 \<le> limit \<and> limit \<le> 10000"
proof -
  have lim: "1 \<le> limit" "limit \<le> 10000" using assms(2) by (auto simp: observe_def raiseS_def split: if_splits)
  let ?Q = "\<lambda>r P'. P' = pts s \<and> (\<forall>ob. r = Inr ob \<longrightarrow> (\<exists>ps os. ob = summarize V limit ps os \<and> int (length os) \<le> limit))"
  have "yields pts (observe V ctx limit f) (pts s) ?Q"
  proof -
    have len: "int (length (concat (map (readable_cognition kind) xs))) \<le> limit" if "scanned P kind cs xs (nat limit)" for P kind cs xs
    proof -
      from that have "length xs \<le> nat limit" by (simp add: scanned_def)
      with rows_length [of kind xs] lim show ?thesis by linarith
    qed
    have "\<not> (limit < 1 \<or> 10000 < limit)" using lim by simp
    then show ?thesis
      unfolding observe_def if_not_P [OF \<open>\<not> _\<close>]
    proof (intro two_scans_yields [OF assms(1)] yields_return, goal_cases)
      case (1 pc oc ps os)
      with len [OF 1(5)] show ?case by blast
    qed simp
  qed
  from yieldsD [OF this assms(2)] obtain ps os where ob: "pts s' = pts s" "ob = summarize V limit ps os" "int (length os) \<le> limit"
    by auto
  have "ob_outcomes ob = int (length os)" by (simp add: ob(2) summarize_def Let_def split: prod.split)
  moreover have "length (filter g os) \<le> length os" for g by simp
  ultimately show ?thesis using summarize_spec [OF ob(2)] ob lim by (smt (verit) of_nat_mono)
qed


text \<open>
  The pending list is sound and, unless it says otherwise, complete: on a store whose
  predictions and outcomes are readable it is ordered by time, without repetition and no longer
  than asked for, lists only predictions the caller's scan can see, and when it is not marked
  incomplete it lists exactly those that no visible outcome names.
\<close>

theorem pending_exactly_unresolved:
  assumes "episode_store_ok (ps_repository V) pts" and "readable_store (pts s)"
    and "pending_predictions V ctx limit scan f s = (Inr pl, s')"
  shows "\<exists>pc oc. scan_conditions V ctx prediction_source f = Inr pc \<and> scan_conditions V ctx outcome_source f = Inr oc
    \<and> pts s' = pts s \<and> sorted (map (\<lambda>i. (pp_event_time i, pp_id i)) (pl_items pl)) \<and> distinct (map pp_id (pl_items pl))
    \<and> int (length (pl_items pl)) \<le> limit
    \<and> (\<forall>i \<in> set (map pp_id (pl_items pl)). \<exists>p. (i, p) \<in> meets episode_meets pc (pts s))
    \<and> (\<not> pl_incomplete pl \<longrightarrow> set (map pp_id (pl_items pl)) = unresolved V (pts s) pc oc)"
    (is "\<exists>pc oc. ?ok pc oc (pts s') pl")
proof -
  have lim: "\<not> (limit < 1 \<or> 1000 < limit)" "\<not> (scan < 1 \<or> 10000 < scan)"
    using assms(3) by (auto simp: pending_predictions_def raiseS_def split: if_splits)
  let ?Q = "\<lambda>r P'. \<forall>pl. r = Inr pl \<longrightarrow> (\<exists>pc oc. ?ok pc oc P' pl)"
  have "yields pts (pending_predictions V ctx limit scan f) (pts s) ?Q"
    unfolding pending_predictions_def if_not_P [OF lim(1)] if_not_P [OF lim(2)]
  proof (intro two_scans_yields [OF assms(1)] yields_lift, goal_cases)
    case (1 pc oc ps os)
    have l: "1 \<le> limit" "1 \<le> scan" using lim by auto
    show ?case
    proof (intro allI impI exI conjI)
      fix pl assume "pending_report V limit scan (concat (map (readable_cognition (lit ''prediction'')) ps))
          (concat (map (readable_cognition (lit ''outcome'')) os)) = Inr pl"
      note r = pending_rows [OF assms(2) 1 l this]
      show "scan_conditions V ctx prediction_source f = Inr pc" "scan_conditions V ctx outcome_source f = Inr oc" by (fact 1)+
      show "pts s = pts s" by (rule refl)
      from r show "sorted (map (\<lambda>i. (pp_event_time i, pp_id i)) (pl_items pl))" "distinct (map pp_id (pl_items pl))"
        "int (length (pl_items pl)) \<le> limit" "\<forall>i \<in> set (map pp_id (pl_items pl)). \<exists>p. (i, p) \<in> meets episode_meets pc (pts s)"
        by blast+
      from r show "set (map pp_id (pl_items pl)) = unresolved V (pts s) pc oc" if "\<not> pl_incomplete pl" using that by blast
    qed
  qed simp
  from yieldsD [OF this assms(3)] show ?thesis by blast
qed

text \<open>
  An expectation of white space passes the input model, is stored as \<^verbatim>\<open>None\<close>, and makes a
  prediction that no later call accepts.
\<close>

lemma blank_expectation_unresolvable:
  assumes "pq_expected q = [32]" and "make_prediction_input q = Inr d"
    and "es_context r = [cognition_key \<mapsto> JObj (prediction_entries (es_id r) d)]"
  shows "prediction_cognition V r = Inl (ValueError (lit ''prediction is missing expected_outcome''))"
proof -
  have "pi_expected d = None"
    using make_prediction_input_Inr(2) [OF assms(2)] assms(1)
    by (simp add: strip_text_def py_strip_def py_lstrip_def py_rstrip_def py_space_def)
  then show ?thesis
    using assms(3)
    by (cases "es_id r = []") (simp_all add: prediction_cognition_def cognition_of_def map_of_prediction_entries
        text_or_empty_def json_str_def opt_json_def py_strip_def py_lstrip_def py_rstrip_def)
qed

subsection \<open>Witnesses\<close>

definition sample_memory :: "(uid \<times> episode_payload) list episodic_service" where
  "sample_memory = \<lparr>me_repository = in_memory_points apply_dream_patch episode_meets, me_unicode = ascii_tables,
     me_embed = (\<lambda>_. Inr []), me_embedding_version = [], me_score_threshold = None, me_assert_safe = (\<lambda>_. Inr ()),
     me_repr = (\<lambda>_. []), me_sha = (\<lambda>s. s)\<rparr>"

definition sample_predictions :: "(uid \<times> episode_payload) list prediction_service" where
  "sample_predictions = \<lparr>ps_memory = sample_memory, ps_uuid5 = (\<lambda>s. s), ps_dumps = (\<lambda>vs. concat (map (the_default []) vs)),
     ps_str = (\<lambda>_. []), ps_float = (\<lambda>_. None)\<rparr>"

definition sample_request :: prediction_request where
  "sample_request = \<lparr>pq_expected = [104, 105], pq_confidence = 1 / 2, pq_scope = [SESSION \<mapsto> [115]],
     pq_event_time = Aware 3, pq_action = None, pq_rationale = None, pq_channel = None, pq_topic = None,
     pq_trust = TRUST_UNSPECIFIED, pq_tags = [], pq_keywords = [], pq_importance = None, pq_correlation = Some [99]\<rparr>"

definition sample_input :: prediction_input where
  "sample_input = \<lparr>pi_expected = Some [104, 105], pi_confidence = 1 / 2, pi_action = None, pi_rationale = None,
     pi_tags = [], pi_correlation = Some [99]\<rparr>"

definition sample_id :: uid where
  "sample_id = correlated_id sample_predictions [SESSION \<mapsto> [115]] [99]"

definition sample_episode :: episode where
  "sample_episode = \<lparr>es_id = sample_id, es_content = prediction_content sample_input, es_scope = [SESSION \<mapsto> [115]],
     es_event_time = 3, es_channel = None, es_role = None, es_trust = TRUST_UNSPECIFIED, es_topic = None, es_keywords = [],
     es_importance = None, es_source = Some prediction_source, es_dream_status = DREAM_PENDING, es_dream_run = None,
     es_dreamed_at = None, es_hash = prediction_content sample_input, es_embedding_version = Some [], es_recall = True,
     es_context = [cognition_key \<mapsto> JObj (prediction_entries sample_id sample_input)], es_extensions = Map.empty,
     es_created = 7, es_updated = 7\<rparr>"

lemma sample_store_ok: "episode_store_ok (ps_repository sample_predictions) map_of"
  by (simp add: episode_store_ok_def ps_repository_def sample_predictions_def sample_memory_def in_memory_points_ok)

lemma sample_unicode: "nfc_stable (ps_unicode sample_predictions)"
  by (simp add: ps_unicode_def sample_predictions_def sample_memory_def nfc_stable_ascii)

lemma sample_make_input: "make_prediction_input sample_request = Inr sample_input"
  by (simp add: make_prediction_input_def sample_request_def sample_input_def strip_text_def longer_def
      normalize_strategy_tags_def py_strip_def py_lstrip_def py_rstrip_def py_space_def)

lemma sample_content: "normalize_content (prediction_content sample_input) = Inr (prediction_content sample_input)"
  by (simp add: normalize_content_def prediction_content_def sample_input_def show_text_def lit_def Let_def
      py_strip_def py_lstrip_def py_rstrip_def py_space_def)

lemma sample_session: "validate_session_id (Some [115]) = Inr [115]"
  by (simp add: validate_session_id_def py_strip_def py_lstrip_def py_rstrip_def py_space_def)

lemma sample_write:
  "memory_store (ps_memory sample_predictions) None 7 [9] (prediction_write sample_request sample_input [SESSION \<mapsto> [115]] sample_id) []
    = (Inr sample_episode, [(sample_id, Canonical sample_episode)])"
  by (simp add: memory_store_def scoped_values_def enforce_operation_def prediction_write_def build_episode_def sample_content
      content_hash_def sample_session normalize_episode_time_def sample_request_def sample_predictions_def sample_memory_def
      sample_episode_def in_memory_points_def bindS_def returnS_def liftS_def)

lemma sample_lookup: "pr_retrieve (ps_repository sample_predictions) i cs s = (Inr (case map_of s i of None \<Rightarrow> None
    | Some p \<Rightarrow> if list_all (\<lambda>c. episode_meets c p) cs then Some (i, p) else None), s)"
  by (simp add: ps_repository_def sample_predictions_def sample_memory_def in_memory_points_def)

lemma sample_first_call:
  "record_prediction sample_predictions None 7 [9] sample_request [] = (Inr sample_episode, [(sample_id, Canonical sample_episode)])"
proof -
  have "pi_correlation sample_input = Some [99]" "pq_scope sample_request = [SESSION \<mapsto> [115]]"
    "normalize_episode_time (pq_event_time sample_request) = Inr 3"
    by (simp_all add: sample_input_def sample_request_def normalize_episode_time_def)
  then show ?thesis
    using sample_write
    by (simp add: record_prediction_def sample_make_input scoped_values_def enforce_operation_def Let_def sample_session
        sample_lookup sample_id_def bindS_def liftS_def)
qed

definition sample_retry :: prediction_request where
  "sample_retry = sample_request\<lparr>pq_expected := [111, 107], pq_confidence := 1, pq_event_time := Aware 8\<rparr>"

theorem prediction_retry_returns_first_witness:
  "\<exists>r s1 s3. record_prediction sample_predictions None 7 [9] sample_request [] = (Inr r, s1)
    \<and> record_prediction sample_predictions None 8 [10] sample_retry s1 = (Inr r, s3) \<and> map_of s3 = map_of s1"
proof -
  let ?s1 = "[(sample_id, Canonical sample_episode)]"
  obtain res s3 where run: "record_prediction sample_predictions None 8 [10] sample_retry ?s1 = (res, s3)" by fastforce
  have "make_prediction_input sample_retry = Inr \<lparr>pi_expected = Some [111, 107], pi_confidence = 1, pi_action = None,
      pi_rationale = None, pi_tags = [], pi_correlation = Some [99]\<rparr>"
    by (simp add: make_prediction_input_def sample_retry_def sample_request_def strip_text_def longer_def
        normalize_strategy_tags_def py_strip_def py_lstrip_def py_rstrip_def py_space_def)
  moreover have "strip_text (pq_correlation sample_request) = Some [99]" "py_strip (pq_expected sample_request) \<noteq> []"
    by (simp_all add: sample_request_def strip_text_def py_strip_def py_lstrip_def py_rstrip_def py_space_def)
  ultimately have "res = Inr sample_episode \<and> map_of s3 = map_of ?s1"
    by (intro prediction_retry_returns_first [OF sample_store_ok sample_unicode _ sample_first_call _ _ _ _ _ _ refl _ run])
      (simp_all add: sample_retry_def sample_request_def sample_lookup)
  with sample_first_call run show ?thesis by blast
qed

lemma sample_readable: "readable_store (map_of [(sample_id, Canonical sample_episode)])"
proof -
  have "sample_id \<noteq> []" by (simp add: sample_id_def correlated_id_def sample_predictions_def lit_def)
  moreover have "cognition_of (lit ''prediction'') sample_episode = Some (map_of (prediction_entries sample_id sample_input))"
    by (simp add: cognition_of_def sample_episode_def map_of_prediction_entries)
  ultimately show ?thesis
    by (simp add: readable_store_def sample_episode_def kind_of_source_def)
qed

lemma sample_scan:
  assumes "f = \<lparr>pf_scope = Map.empty, pf_topic = None\<rparr>"
  shows "scroll_cognition sample_predictions None source n f s = (Inr (concat (map (readable_cognition (kind_of_source source))
    (take n (listed_points episode_meets [HasText KEY_SOURCE source] s)))), s)"
  by (simp add: assms scroll_cognition_def enforce_operation_def scope_conditions_def prediction_filters_def filter_clause_def
      ps_repository_def sample_predictions_def sample_memory_def in_memory_points_def bindS_def returnS_def liftS_def kind_of_source_def)

lemma sample_cognition:
  "prediction_cognition sample_predictions sample_episode = Inr (map_of (prediction_entries sample_id sample_input))"
proof -
  have "es_id sample_episode = sample_id" by (simp add: sample_episode_def)
  then show ?thesis
    using written_prediction_valid [of sample_episode sample_input "[104, 105]" sample_predictions]
    by (simp add: sample_episode_def sample_input_def py_strip_def py_lstrip_def py_rstrip_def py_space_def)
qed

lemma sample_outcome_input:
  "make_outcome_input [111, 107] (lit ''contradicted'') = Inr \<lparr>oi_observed = [111, 107], oi_assessment = CONTRADICTED\<rparr>"
  by (simp add: make_outcome_input_def parse_assessment_def all_assessments_def lit_eq_iff py_strip_def py_lstrip_def py_rstrip_def py_space_def)

lemma sample_store_total:
  assumes "py_strip (unix_newlines (mr_content q)) \<noteq> []" and "mr_scope q SESSION = Some [115]" and "mr_event_time q = Aware t"
  shows "\<exists>r s'. memory_store (ps_memory sample_predictions) None now i q s = (Inr r, s')"
proof -
  from assms(1) obtain n where n: "normalize_content (mr_content q) = Inr n" by (auto simp: normalize_content_def Let_def)
  show ?thesis
    using assms(2,3) n normalize_content_idem [OF n]
    by (simp add: memory_store_def scoped_values_def enforce_operation_def build_episode_def content_hash_def sample_session
        normalize_episode_time_def sample_predictions_def sample_memory_def in_memory_points_def bindS_def returnS_def liftS_def)
qed

theorem outcome_is_grounded_witness:
  "\<exists>out s2. record_outcome sample_predictions None 8 [11] sample_id [111, 107] (lit ''contradicted'') (Aware 5) None
      [(sample_id, Canonical sample_episode)] = (Inr out, s2)
    \<and> grounded_outcome None (map_of [(sample_id, Canonical sample_episode)]) sample_id [11] (Aware 5) (lit ''contradicted'') out"
proof -
  let ?s = "[(sample_id, Canonical sample_episode)]"
  let ?c = "map_of (prediction_entries sample_id sample_input)" and ?d = "\<lparr>oi_observed = [111, 107], oi_assessment = CONTRADICTED\<rparr>"
  obtain out s2 where store: "memory_store (ps_memory sample_predictions) None 8 [11]
      (outcome_write sample_predictions sample_id (Aware 5) ?d sample_episode ?c) ?s = (Inr out, s2)"
    using sample_store_total [of "outcome_write sample_predictions sample_id (Aware 5) ?d sample_episode ?c" 5 8 "[11]" ?s]
    by (auto simp: outcome_write_def sample_episode_def lit_def py_strip_def py_lstrip_def py_rstrip_def py_space_def)
  have "check_outcome_time (Aware 5) sample_episode = Inr ()" by (simp add: check_outcome_time_def sample_episode_def)
  with store have run: "record_outcome sample_predictions None 8 [11] sample_id [111, 107] (lit ''contradicted'') (Aware 5) None ?s = (Inr out, s2)"
    by (simp add: record_outcome_def sample_outcome_input load_prediction_def sample_lookup model_validate_def sample_cognition
        check_required_agent_def bindS_def liftS_def)
  from outcome_is_grounded [OF sample_store_ok sample_unicode _ run] run show ?thesis by auto
qed

lemma sample_no_filter: "scan_conditions sample_predictions None source \<lparr>pf_scope = Map.empty, pf_topic = None\<rparr> = Inr [HasText KEY_SOURCE source]"
  by (simp add: scan_conditions_def enforce_operation_def scope_conditions_def prediction_filters_def filter_clause_def)

theorem observation_adds_up_witness:
  "\<exists>ob s'. observe sample_predictions None 5 \<lparr>pf_scope = Map.empty, pf_topic = None\<rparr> [(sample_id, Canonical sample_episode)] = (Inr ob, s')
    \<and> ob_predictions ob = ob_resolved ob + ob_unresolved ob"
proof -
  obtain ob s' where run: "observe sample_predictions None 5 \<lparr>pf_scope = Map.empty, pf_topic = None\<rparr> [(sample_id, Canonical sample_episode)] = (Inr ob, s')"
    by (simp add: observe_def sample_scan bindS_def returnS_def)
  from observation_adds_up [OF sample_store_ok run] run show ?thesis by blast
qed

lemma sample_scan_rows:
  "concat (map (readable_cognition (kind_of_source prediction_source)) (take 9 (listed_points episode_meets
     [HasText KEY_SOURCE prediction_source] [(sample_id, Canonical sample_episode)])))
     = [(sample_episode, map_of (prediction_entries sample_id sample_input))]"
  "concat (map (readable_cognition (kind_of_source outcome_source)) (take 9 (listed_points episode_meets
     [HasText KEY_SOURCE outcome_source] [(sample_id, Canonical sample_episode)]))) = []"
  by (simp_all add: listed_points_def readable_cognition_def cognition_of_def sample_episode_def kind_of_source_def
      map_of_prediction_entries prediction_source_def outcome_source_def lit_eq_iff)

theorem pending_exactly_unresolved_witness:
  "\<exists>pl s'. pending_predictions sample_predictions None 4 9 \<lparr>pf_scope = Map.empty, pf_topic = None\<rparr> [(sample_id, Canonical sample_episode)] = (Inr pl, s')
    \<and> \<not> pl_incomplete pl \<and> sample_id \<in> set (map pp_id (pl_items pl))"
proof -
  let ?s = "[(sample_id, Canonical sample_episode)]" and ?f = "\<lparr>pf_scope = Map.empty, pf_topic = None\<rparr>"
  have tags: "map_of (prediction_entries sample_id sample_input) (lit ''strategy_tags'') = None"
    by (simp add: prediction_entries_def sample_input_def optional_entry_def lit_eq_iff)
  have run: "\<exists>pl. pending_predictions sample_predictions None 4 9 ?f ?s = (Inr pl, ?s) \<and> \<not> pl_incomplete pl"
    by (simp add: pending_predictions_def sample_scan sample_scan_rows bindS_def liftS_def pending_report_def pending_item_def subscript_def
        map_of_prediction_entries json_float_def tags tag_list_def Let_def resolved_ids_def)
  then obtain pl where pl: "pending_predictions sample_predictions None 4 9 ?f ?s = (Inr pl, ?s)" "\<not> pl_incomplete pl" by blast
  from pending_exactly_unresolved [OF sample_store_ok sample_readable pl(1)] obtain pc oc where
    sc: "scan_conditions sample_predictions None prediction_source ?f = Inr pc" "scan_conditions sample_predictions None outcome_source ?f = Inr oc"
    and eq: "\<not> pl_incomplete pl \<longrightarrow> set (map pp_id (pl_items pl)) = unresolved sample_predictions (map_of ?s) pc oc" by blast
  have "pc = [HasText KEY_SOURCE prediction_source]" "oc = [HasText KEY_SOURCE outcome_source]"
    using sc sample_no_filter by simp_all
  then have "sample_id \<in> unresolved sample_predictions (map_of ?s) pc oc"
    by (auto simp: unresolved_def meets_def sample_episode_def prediction_source_def outcome_source_def lit_eq_iff)
  with eq pl show ?thesis by metis
qed

end
