(* ===== verification/Lifecycle.thy ===== *)
theory Lifecycle
  imports Point_Store
begin

text \<open>
  Memory lifecycle, \<^verbatim>\<open>cyberbrain/lifecycle/\<close>: validated signals, policy and decisions
  (\<^verbatim>\<open>models.py\<close>), the retention score and the reversible decisions
  (\<^verbatim>\<open>evaluator.py\<close>), and the service that evaluates stored payloads and writes decisions
  back (\<^verbatim>\<open>service.py\<close>). A finite float is a real number. Parsing and printing of ISO
  timestamps, \<^verbatim>\<open>str\<close> and \<^verbatim>\<open>int\<close> of JSON values are parameters.
\<close>

subsection \<open>Contracts\<close>

datatype lifecycle_state = LC_ACTIVE | LC_SUPPRESSED

fun state_value :: "lifecycle_state \<Rightarrow> ustr" where
  "state_value LC_ACTIVE = lit ''active''"
| "state_value LC_SUPPRESSED = lit ''suppressed''"

datatype retention_directive = RETAIN_DEFAULT | RETAIN_KEEP

fun directive_value :: "retention_directive \<Rightarrow> ustr" where
  "directive_value RETAIN_DEFAULT = lit ''default''"
| "directive_value RETAIN_KEEP = lit ''keep''"

datatype decision_kind = KEEP_ACTIVE | SUPPRESS | REMAIN_SUPPRESSED | REACTIVATE

datatype lifecycle_reason =
    EXPLICIT_KEEP | RECENT | FREQUENTLY_ACCESSED | HIGH_SALIENCE | CONCEPT_LINKED | UNRESOLVED
  | EXPLICIT_RELEVANCE | STALE | NEVER_ACCESSED | SUPERSEDED_OR_CONTRADICTED | STORAGE_PRESSURE
  | BELOW_SUPPRESSION_THRESHOLD | ABOVE_REACTIVATION_THRESHOLD

fun reason_value :: "lifecycle_reason \<Rightarrow> ustr" where
  "reason_value EXPLICIT_KEEP = lit ''explicit_keep''"
| "reason_value RECENT = lit ''recent''"
| "reason_value FREQUENTLY_ACCESSED = lit ''frequently_accessed''"
| "reason_value HIGH_SALIENCE = lit ''high_salience''"
| "reason_value CONCEPT_LINKED = lit ''concept_linked''"
| "reason_value UNRESOLVED = lit ''unresolved''"
| "reason_value EXPLICIT_RELEVANCE = lit ''explicit_relevance''"
| "reason_value STALE = lit ''stale''"
| "reason_value NEVER_ACCESSED = lit ''never_accessed''"
| "reason_value SUPERSEDED_OR_CONTRADICTED = lit ''superseded_or_contradicted''"
| "reason_value STORAGE_PRESSURE = lit ''storage_pressure''"
| "reason_value BELOW_SUPPRESSION_THRESHOLD = lit ''below_suppression_threshold''"
| "reason_value ABOVE_REACTIVATION_THRESHOLD = lit ''above_reactivation_threshold''"

record lifecycle_signals =
  ls_record_id :: ustr
  ls_state :: lifecycle_state
  ls_directive :: retention_directive
  ls_age_days :: real
  ls_access_count :: int
  ls_days_since_access :: "real option"
  ls_salience :: real
  ls_superseded :: bool
  ls_concept_linked :: bool
  ls_unresolved :: bool
  ls_pressure :: real
  ls_relevance :: bool

text \<open>The arguments before validation: a float may be infinite or nan, a count may be no integer.\<close>

datatype raw_float = FiniteFloat real | NonFiniteFloat

record raw_signals =
  rs_record_id :: ustr
  rs_state :: lifecycle_state
  rs_directive :: retention_directive
  rs_age_days :: raw_float
  rs_access_count :: "int option"
  rs_days_since_access :: "raw_float option"
  rs_salience :: raw_float
  rs_superseded :: bool
  rs_concept_linked :: bool
  rs_unresolved :: bool
  rs_pressure :: raw_float
  rs_relevance :: bool

definition finite_float :: "string \<Rightarrow> raw_float \<Rightarrow> real result" where
  "finite_float name v =
     (case v of FiniteFloat x \<Rightarrow> Inr x
      | NonFiniteFloat \<Rightarrow> Inl (ValueError (lit ''lifecycle '' @ lit name @ lit '' must be finite'')))"

definition days_since :: "raw_float option \<Rightarrow> real option result" where
  "days_since v =
     (case v of None \<Rightarrow> Inr None
      | Some (FiniteFloat x) \<Rightarrow>
          if x < 0 then Inl (ValueError (lit ''lifecycle days_since_last_access must be non-negative'')) else Inr (Some x)
      | Some NonFiniteFloat \<Rightarrow> Inl (ValueError (lit ''lifecycle days_since_last_access must be non-negative'')))"

definition make_signals :: "raw_signals \<Rightarrow> lifecycle_signals result" where
  "make_signals r =
     (if py_strip (rs_record_id r) = [] then Inl (ValueError (lit ''lifecycle record_id must not be empty''))
      else bindE (finite_float ''age_days'' (rs_age_days r)) (\<lambda>age.
           bindE (finite_float ''salience_score'' (rs_salience r)) (\<lambda>salience.
           bindE (finite_float ''storage_pressure'' (rs_pressure r)) (\<lambda>pressure.
             if age < 0 then Inl (ValueError (lit ''lifecycle age_days must not be negative''))
             else if salience < 0 \<or> 1 < salience
             then Inl (ValueError (lit ''lifecycle salience_score must be within [0, 1]''))
             else if pressure < 0 \<or> 1 < pressure
             then Inl (ValueError (lit ''lifecycle storage_pressure must be within [0, 1]''))
             else case rs_access_count r of
                 None \<Rightarrow> Inl (ValueError (lit ''lifecycle access_count must be an integer''))
               | Some n \<Rightarrow>
                   if n < 0 then Inl (ValueError (lit ''lifecycle access_count must not be negative''))
                   else bindE (days_since (rs_days_since_access r)) (\<lambda>last.
                     Inr \<lparr>ls_record_id = py_strip (rs_record_id r), ls_state = rs_state r,
                       ls_directive = rs_directive r, ls_age_days = age, ls_access_count = n,
                       ls_days_since_access = last, ls_salience = salience, ls_superseded = rs_superseded r,
                       ls_concept_linked = rs_concept_linked r, ls_unresolved = rs_unresolved r,
                       ls_pressure = pressure, ls_relevance = rs_relevance r\<rparr>)))))"

record lifecycle_policy =
  lp_suppression :: real
  lp_reactivation :: real
  lp_recent_days :: real
  lp_stale_days :: real
  lp_frequent :: int

definition default_lifecycle_policy :: lifecycle_policy where
  "default_lifecycle_policy = \<lparr>lp_suppression = 35 / 100, lp_reactivation = 65 / 100, lp_recent_days = 30,
     lp_stale_days = 180, lp_frequent = 8\<rparr>"

definition make_lifecycle_policy :: "lifecycle_policy \<Rightarrow> lifecycle_policy result" where
  "make_lifecycle_policy p =
     (if \<not> (0 < lp_suppression p \<and> lp_suppression p < lp_reactivation p \<and> lp_reactivation p < 1)
      then Inl (ValueError (lit ''lifecycle thresholds must satisfy 0 < suppress < reactivate < 1''))
      else if lp_recent_days p \<le> 0 \<or> lp_stale_days p \<le> lp_recent_days p
      then Inl (ValueError (lit ''lifecycle stale_days must exceed recent_days''))
      else if lp_frequent p < 1 then Inl (ValueError (lit ''lifecycle frequent_access_count must be positive''))
      else Inr p)"

record lifecycle_decision =
  ld_record_id :: ustr
  ld_decision :: decision_kind
  ld_score :: real
  ld_reasons :: "lifecycle_reason list"

definition make_decision :: "ustr \<Rightarrow> decision_kind \<Rightarrow> real \<Rightarrow> lifecycle_reason list \<Rightarrow> lifecycle_decision result" where
  "make_decision i k score reasons =
     (if score < 0 \<or> 1 < score then Inl (ValueError (lit ''lifecycle retention_score must be within [0, 1]''))
      else if reasons = [] then Inl (ValueError (lit ''lifecycle decision requires reason codes''))
      else if \<not> distinct reasons then Inl (ValueError (lit ''lifecycle decision reason codes must be unique''))
      else Inr \<lparr>ld_record_id = i, ld_decision = k, ld_score = score, ld_reasons = reasons\<rparr>)"

subsection \<open>The evaluator\<close>

definition given :: "bool \<Rightarrow> 'a \<Rightarrow> 'a list" where
  "given b x = (if b then [x] else [])"

text \<open>The reasons \<^verbatim>\<open>_score\<close> appends, in order.\<close>

definition score_reasons :: "lifecycle_policy \<Rightarrow> lifecycle_signals \<Rightarrow> lifecycle_reason list" where
  "score_reasons p s =
     given (ls_age_days s \<le> lp_recent_days p) RECENT
     @ given (ls_days_since_access s = None) NEVER_ACCESSED
     @ given (lp_frequent p \<le> ls_access_count s) FREQUENTLY_ACCESSED
     @ given (7 / 10 \<le> ls_salience s) HIGH_SALIENCE
     @ given (ls_concept_linked s) CONCEPT_LINKED
     @ given (ls_unresolved s) UNRESOLVED
     @ given (lp_stale_days p \<le> ls_age_days s) STALE
     @ given (ls_superseded s) SUPERSEDED_OR_CONTRADICTED
     @ given (1 / 2 \<le> ls_pressure s) STORAGE_PRESSURE"

definition retention_score :: "lifecycle_policy \<Rightarrow> lifecycle_signals \<Rightarrow> real" where
  "retention_score p s =
     (let recency = max 0 (1 - ls_age_days s / lp_stale_days p);
          last_access = (case ls_days_since_access s of None \<Rightarrow> 0 | Some d \<Rightarrow> max 0 (1 - d / lp_stale_days p));
          access = min 1 (ln (1 + of_int (ls_access_count s)) / ln (1 + of_int (lp_frequent p)));
          raw = 10 / 100 + 18 / 100 * recency + 12 / 100 * last_access + 15 / 100 * access
            + 22 / 100 * ls_salience s + (if ls_concept_linked s then 10 / 100 else 0)
            + (if ls_unresolved s then 15 / 100 else 0) - (if ls_superseded s then 20 / 100 else 0)
            - 12 / 100 * ls_pressure s
      in min 1 (max 0 raw))"

definition evaluate :: "lifecycle_policy \<Rightarrow> lifecycle_signals \<Rightarrow> lifecycle_decision result" where
  "evaluate p s =
     (if ls_directive s = RETAIN_KEEP
      then make_decision (ls_record_id s) (if ls_state s = LC_SUPPRESSED then REACTIVATE else KEEP_ACTIVE) 1 [EXPLICIT_KEEP]
      else
        let score = retention_score p s; reasons = score_reasons p s in
        if ls_state s = LC_SUPPRESSED then
          if ls_relevance s \<or> ls_unresolved s \<or> lp_reactivation p \<le> ls_salience s \<or> lp_reactivation p \<le> score
          then make_decision (ls_record_id s) REACTIVATE score
                 (fromkeys (reasons @ given (ls_relevance s) EXPLICIT_RELEVANCE @ [ABOVE_REACTIVATION_THRESHOLD]))
          else make_decision (ls_record_id s) REMAIN_SUPPRESSED score (fromkeys reasons)
        else if ls_relevance s \<or> ls_unresolved s
        then make_decision (ls_record_id s) KEEP_ACTIVE (max score (lp_suppression p))
               (fromkeys (reasons @ given (ls_relevance s) EXPLICIT_RELEVANCE @ given (ls_unresolved s) UNRESOLVED))
        else if score < lp_suppression p
        then make_decision (ls_record_id s) SUPPRESS score (fromkeys (reasons @ [BELOW_SUPPRESSION_THRESHOLD]))
        else make_decision (ls_record_id s) KEEP_ACTIVE score (fromkeys reasons))"

subsection \<open>The service\<close>

type_synonym 's payload_store = "('s, dict, dict, unit) point_repository"

definition payload_store_ok :: "'s payload_store \<Rightarrow> ('s \<Rightarrow> uid \<rightharpoonup> dict) \<Rightarrow> bool" where
  "payload_store_ok R pts \<longleftrightarrow> point_store_ok R pts (\<lambda>d p. p ++ d) (\<lambda>_ _. True)"

record 's lifecycle_service =
  lv_repository :: "'s payload_store"
  lv_policy :: lifecycle_policy
  lv_parse_time :: "ustr \<Rightarrow> timestamp option"
  lv_isoformat :: "int \<Rightarrow> ustr"
  lv_str :: "json \<Rightarrow> ustr"
  lv_int :: "ustr \<Rightarrow> int option"

definition lifecycle_aware :: "timestamp \<Rightarrow> int result" where
  "lifecycle_aware t =
     (case t of Aware i \<Rightarrow> Inr i
      | Naive _ \<Rightarrow> Inl (ValueError (lit ''lifecycle timestamps must include a timezone'')))"

definition payload_time :: "'s lifecycle_service \<Rightarrow> dict \<Rightarrow> string \<Rightarrow> int option" where
  "payload_time V payload key =
     (case payload (lit key) of
        None \<Rightarrow> None
      | Some JNull \<Rightarrow> None
      | Some v \<Rightarrow> (case lv_parse_time V (json_str (lv_str V) v) of Some (Aware i) \<Rightarrow> Some i | _ \<Rightarrow> None))"

text \<open>\<^verbatim>\<open>int(payload.get("access_count", 0) or 0)\<close>.\<close>

definition payload_count :: "'s lifecycle_service \<Rightarrow> dict \<Rightarrow> int result" where
  "payload_count V payload =
     (case payload (lit ''access_count'') of
        None \<Rightarrow> Inr 0
      | Some v \<Rightarrow>
          if \<not> json_truthy v then Inr 0
          else case v of
              JInt i \<Rightarrow> Inr i
            | JBool b \<Rightarrow> Inr 1
            | JReal x \<Rightarrow> Inr (if 0 \<le> x then \<lfloor>x\<rfloor> else \<lceil>x\<rceil>)
            | JStr s \<Rightarrow> (case lv_int V s of None \<Rightarrow> Inl (ValueError (lit ''invalid literal for int()'')) | Some i \<Rightarrow> Inr i)
            | _ \<Rightarrow> Inl (TypeError (lit ''int() argument'')))"

definition payload_state :: "dict \<Rightarrow> lifecycle_state result" where
  "payload_state payload =
     (case payload (lit ''lifecycle_state'') of
        None \<Rightarrow> Inr LC_ACTIVE
      | Some v \<Rightarrow> if v = JStr (state_value LC_ACTIVE) then Inr LC_ACTIVE
                  else if v = JStr (state_value LC_SUPPRESSED) then Inr LC_SUPPRESSED
                  else Inl (ValueError (lit ''not a valid LifecycleState'')))"

definition payload_directive :: "dict \<Rightarrow> retention_directive result" where
  "payload_directive payload =
     (case payload (lit ''retention_directive'') of
        None \<Rightarrow> Inr RETAIN_DEFAULT
      | Some v \<Rightarrow> if v = JStr (directive_value RETAIN_DEFAULT) then Inr RETAIN_DEFAULT
                  else if v = JStr (directive_value RETAIN_KEEP) then Inr RETAIN_KEEP
                  else Inl (ValueError (lit ''not a valid RetentionDirective'')))"

definition payload_contradicted :: "dict \<Rightarrow> bool result" where
  "payload_contradicted payload =
     (case payload (lit ''context'') of
        None \<Rightarrow> Inr False
      | Some v \<Rightarrow>
          if \<not> json_truthy v then Inr False
          else case v of
              JObj kvs \<Rightarrow> (case map_of kvs (lit ''cognition'') of
                 Some (JObj cs) \<Rightarrow> Inr (map_of cs (lit ''assessment'') = Some (JStr (lit ''contradicted'')))
               | _ \<Rightarrow> Inr False)
            | _ \<Rightarrow> Inl (AttributeError (lit ''object has no attribute get'')))"

definition retired_statuses :: "ustr list" where
  "retired_statuses = [lit ''superseded'', lit ''deprecated'', lit ''rejected'']"

record lifecycle_inputs =
  li_salience :: raw_float
  li_concept_linked :: bool
  li_unresolved :: bool
  li_pressure :: raw_float
  li_relevance :: bool

definition no_inputs :: lifecycle_inputs where
  "no_inputs = \<lparr>li_salience = FiniteFloat 0, li_concept_linked = False, li_unresolved = False,
     li_pressure = FiniteFloat 0, li_relevance = False\<rparr>"

definition days_between :: "int \<Rightarrow> int \<Rightarrow> real" where
  "days_between later earlier = max 0 (of_int (later - earlier) / 1000000 / 86400)"

definition payload_signals :: "'s lifecycle_service \<Rightarrow> uid \<Rightarrow> dict \<Rightarrow> timestamp \<Rightarrow> lifecycle_inputs \<Rightarrow> lifecycle_signals result" where
  "payload_signals V point_id payload now_arg inputs =
     bindE (lifecycle_aware now_arg) (\<lambda>now.
     case (case payload_time V payload ''created_at'' of Some t \<Rightarrow> Some t | None \<Rightarrow> payload_time V payload ''event_time'') of
       None \<Rightarrow> Inl (ValueError (lit ''lifecycle payload requires created_at or event_time''))
     | Some created \<Rightarrow>
         bindE (payload_state payload) (\<lambda>state.
         bindE (payload_directive payload) (\<lambda>directive.
         bindE (payload_contradicted payload) (\<lambda>contradicted.
         bindE (payload_count V payload) (\<lambda>count.
           make_signals \<lparr>rs_record_id = point_id, rs_state = state, rs_directive = directive,
             rs_age_days = FiniteFloat (days_between now created), rs_access_count = Some count,
             rs_days_since_access = map_option (\<lambda>t. FiniteFloat (days_between now t)) (payload_time V payload ''last_accessed_at''),
             rs_salience = li_salience inputs,
             rs_superseded = (case payload (lit ''status'') of None \<Rightarrow> False
                 | Some v \<Rightarrow> json_truthy v \<and> json_str (lv_str V) v \<in> set retired_statuses) \<or> contradicted,
             rs_concept_linked = li_concept_linked inputs, rs_unresolved = li_unresolved inputs,
             rs_pressure = li_pressure inputs, rs_relevance = li_relevance inputs\<rparr>)))))"

definition evaluate_payload :: "'s lifecycle_service \<Rightarrow> uid \<Rightarrow> dict \<Rightarrow> timestamp \<Rightarrow> lifecycle_inputs \<Rightarrow> lifecycle_decision result" where
  "evaluate_payload V point_id payload now inputs =
     bindE (payload_signals V point_id payload now inputs) (evaluate (lv_policy V))"

record lifecycle_shadow_report =
  sr_scanned :: nat
  sr_keep_active :: nat
  sr_suppress :: nat
  sr_remain_suppressed :: nat
  sr_reactivate :: nat
  sr_decisions :: "lifecycle_decision list"

definition count_kind :: "decision_kind \<Rightarrow> lifecycle_decision list \<Rightarrow> nat" where
  "count_kind k ds = length (filter (\<lambda>d. ld_decision d = k) ds)"

definition shadow :: "'s lifecycle_service \<Rightarrow> (uid \<times> dict) list \<Rightarrow> timestamp \<Rightarrow> (uid \<rightharpoonup> lifecycle_inputs) \<Rightarrow> lifecycle_shadow_report result" where
  "shadow V points now overrides =
     bindE (mapE (\<lambda>(i, payload). evaluate_payload V i payload now (the_default no_inputs (overrides i))) points) (\<lambda>ds.
       Inr \<lparr>sr_scanned = length ds, sr_keep_active = count_kind KEEP_ACTIVE ds, sr_suppress = count_kind SUPPRESS ds,
         sr_remain_suppressed = count_kind REMAIN_SUPPRESSED ds, sr_reactivate = count_kind REACTIVATE ds,
         sr_decisions = ds\<rparr>)"

fun decided_state :: "decision_kind \<Rightarrow> lifecycle_state \<times> bool" where
  "decided_state SUPPRESS = (LC_SUPPRESSED, False)"
| "decided_state REACTIVATE = (LC_ACTIVE, True)"
| "decided_state REMAIN_SUPPRESSED = (LC_SUPPRESSED, False)"
| "decided_state KEEP_ACTIVE = (LC_ACTIVE, True)"

definition decision_patch :: "'s lifecycle_service \<Rightarrow> lifecycle_decision \<Rightarrow> int \<Rightarrow> dict" where
  "decision_patch V d now =
     [lit ''lifecycle_state'' \<mapsto> JStr (state_value (fst (decided_state (ld_decision d)))),
      lit ''ordinary_recall'' \<mapsto> JBool (snd (decided_state (ld_decision d))),
      lit ''retention_score'' \<mapsto> JReal (ld_score d),
      lit ''lifecycle_updated_at'' \<mapsto> JStr (lv_isoformat V now),
      lit ''lifecycle_reason_codes'' \<mapsto> JArr (map (\<lambda>r. JStr (reason_value r)) (ld_reasons d)),
      lit ''updated_at'' \<mapsto> JStr (lv_isoformat V now)]"

definition apply_decision :: "'s lifecycle_service \<Rightarrow> uid \<Rightarrow> lifecycle_decision \<Rightarrow> timestamp \<Rightarrow> ('s, unit) io" where
  "apply_decision V point_id d now_arg =
     bindS (liftS (lifecycle_aware now_arg)) (\<lambda>now.
       if point_id \<noteq> ld_record_id d then raiseS (ValueError (lit ''lifecycle decision point ID mismatch''))
       else pr_set_payload (lv_repository V) point_id (decision_patch V d now))"

definition record_access :: "'s lifecycle_service \<Rightarrow> uid \<Rightarrow> timestamp \<Rightarrow> ('s, int) io" where
  "record_access V point_id now_arg =
     bindS (liftS (lifecycle_aware now_arg)) (\<lambda>now.
     bindS (pr_retrieve (lv_repository V) point_id []) (\<lambda>point.
       case point of
         None \<Rightarrow> raiseS (KeyError point_id)
       | Some (_, payload) \<Rightarrow>
           bindS (liftS (payload_count V payload)) (\<lambda>n.
           bindS (pr_set_payload (lv_repository V) point_id
              [lit ''access_count'' \<mapsto> JInt (n + 1), lit ''last_accessed_at'' \<mapsto> JStr (lv_isoformat V now),
               lit ''updated_at'' \<mapsto> JStr (lv_isoformat V now)]) (\<lambda>_.
             returnS (n + 1)))))"

subsection \<open>What the evaluator decides\<close>

definition signals_ok :: "lifecycle_signals \<Rightarrow> bool" where
  "signals_ok s \<longleftrightarrow> 0 \<le> ls_age_days s \<and> 0 \<le> ls_access_count s \<and> 0 \<le> ls_salience s \<and> ls_salience s \<le> 1
     \<and> 0 \<le> ls_pressure s \<and> ls_pressure s \<le> 1 \<and> (\<forall>d. ls_days_since_access s = Some d \<longrightarrow> 0 \<le> d)"

definition lifecycle_policy_ok :: "lifecycle_policy \<Rightarrow> bool" where
  "lifecycle_policy_ok p \<longleftrightarrow> 0 < lp_suppression p \<and> lp_suppression p < lp_reactivation p \<and> lp_reactivation p < 1
     \<and> 0 < lp_recent_days p \<and> lp_recent_days p < lp_stale_days p \<and> 1 \<le> lp_frequent p"

lemma make_signals_ok:
  assumes "make_signals r = Inr s"
  shows "signals_ok s" and "ls_record_id s = py_strip (rs_record_id r)"
    and "ls_unresolved s = rs_unresolved r" and "ls_relevance s = rs_relevance r" and "ls_directive s = rs_directive r"
  using assms by (auto simp: make_signals_def signals_ok_def days_since_def
      split: if_splits option.splits raw_float.splits)

lemma make_lifecycle_policy_ok: "make_lifecycle_policy q = Inr p \<Longrightarrow> lifecycle_policy_ok p"
  by (simp add: make_lifecycle_policy_def lifecycle_policy_ok_def not_le not_less split: if_split_asm)

lemma clamped: "0 \<le> min 1 (max 0 x)" "min 1 (max 0 x) \<le> (1 :: real)"
  by auto

lemma retention_score_unit: "0 \<le> retention_score p s" "retention_score p s \<le> 1"
  unfolding retention_score_def Let_def by (rule clamped)+

lemma given_eq_Nil [simp]: "given b x = [] \<longleftrightarrow> \<not> b"
  by (simp add: given_def)

lemma set_given [simp]: "set (given b x) = (if b then {x} else {})"
  by (cases b) (simp_all add: given_def)

text \<open>The signals about which the evaluator has nothing to say.\<close>

definition silent :: "lifecycle_policy \<Rightarrow> lifecycle_signals \<Rightarrow> bool" where
  "silent p s \<longleftrightarrow> ls_directive s = RETAIN_DEFAULT \<and> lp_recent_days p < ls_age_days s \<and> ls_age_days s < lp_stale_days p
     \<and> ls_days_since_access s \<noteq> None \<and> ls_access_count s < lp_frequent p \<and> ls_salience s < 7 / 10
     \<and> \<not> ls_concept_linked s \<and> \<not> ls_unresolved s \<and> \<not> ls_superseded s \<and> ls_pressure s < 1 / 2 \<and> \<not> ls_relevance s
     \<and> (if ls_state s = LC_SUPPRESSED then ls_salience s < lp_reactivation p \<and> retention_score p s < lp_reactivation p
        else lp_suppression p \<le> retention_score p s)"

definition decision_ok :: "lifecycle_policy \<Rightarrow> lifecycle_signals \<Rightarrow> lifecycle_decision \<Rightarrow> bool" where
  "decision_ok p s d \<longleftrightarrow> ld_record_id d = ls_record_id s \<and> 0 \<le> ld_score d \<and> ld_score d \<le> 1
     \<and> ld_reasons d \<noteq> [] \<and> distinct (ld_reasons d)
     \<and> (if ls_state s = LC_SUPPRESSED then ld_decision d \<in> {REMAIN_SUPPRESSED, REACTIVATE} else ld_decision d \<in> {KEEP_ACTIVE, SUPPRESS})
     \<and> (ld_decision d = SUPPRESS \<longrightarrow> ld_score d < lp_suppression p)
     \<and> (ld_decision d = REMAIN_SUPPRESSED \<longrightarrow> ld_score d < lp_reactivation p)
     \<and> (ld_decision d \<in> {SUPPRESS, REMAIN_SUPPRESSED} \<longrightarrow>
          ls_directive s = RETAIN_DEFAULT \<and> \<not> ls_relevance s \<and> \<not> ls_unresolved s)"

lemma make_decision_fromkeys:
  "0 \<le> score \<Longrightarrow> score \<le> 1 \<Longrightarrow> make_decision i k score (fromkeys rs) =
     (if rs = [] then Inl (ValueError (lit ''lifecycle decision requires reason codes''))
      else Inr \<lparr>ld_record_id = i, ld_decision = k, ld_score = score, ld_reasons = fromkeys rs\<rparr>)"
  by (simp add: make_decision_def)

lemma evaluate_cases:
  assumes "lifecycle_policy_ok p"
  shows "if silent p s then evaluate p s = Inl (ValueError (lit ''lifecycle decision requires reason codes''))
    else \<exists>d. evaluate p s = Inr d \<and> decision_ok p s d"
proof (cases "ls_directive s = RETAIN_KEEP")
  case True
  then show ?thesis by (simp add: silent_def evaluate_def make_decision_def decision_ok_def)
next
  case False
  then have d: "ls_directive s = RETAIN_DEFAULT" by (cases "ls_directive s") auto
  have p: "lp_suppression p \<le> 1" using assms by (simp add: lifecycle_policy_ok_def)
  have rs: "score_reasons p s = [] \<longleftrightarrow> lp_recent_days p < ls_age_days s \<and> ls_age_days s < lp_stale_days p
     \<and> ls_days_since_access s \<noteq> None \<and> ls_access_count s < lp_frequent p \<and> ls_salience s < 7 / 10
     \<and> \<not> ls_concept_linked s \<and> \<not> ls_unresolved s \<and> \<not> ls_superseded s \<and> ls_pressure s < 1 / 2"
    by (auto simp: score_reasons_def)
  note sc = retention_score_unit [of p s]
  have mx: "0 \<le> max (retention_score p s) (lp_suppression p)" "max (retention_score p s) (lp_suppression p) \<le> 1"
    using sc p by auto
  show ?thesis
  proof (cases "ls_state s")
    case LC_ACTIVE
    then have ev: "evaluate p s =
        (if ls_relevance s \<or> ls_unresolved s
         then make_decision (ls_record_id s) KEEP_ACTIVE (max (retention_score p s) (lp_suppression p))
           (fromkeys (score_reasons p s @ given (ls_relevance s) EXPLICIT_RELEVANCE @ given (ls_unresolved s) UNRESOLVED))
         else if retention_score p s < lp_suppression p
         then make_decision (ls_record_id s) SUPPRESS (retention_score p s) (fromkeys (score_reasons p s @ [BELOW_SUPPRESSION_THRESHOLD]))
         else make_decision (ls_record_id s) KEEP_ACTIVE (retention_score p s) (fromkeys (score_reasons p s)))"
      using d by (simp add: evaluate_def Let_def)
    have sl: "silent p s \<longleftrightarrow> score_reasons p s = [] \<and> \<not> ls_relevance s \<and> lp_suppression p \<le> retention_score p s"
      using d LC_ACTIVE rs by (auto simp: silent_def)
    have un: "score_reasons p s = [] \<Longrightarrow> \<not> ls_unresolved s" using rs by blast
    show ?thesis
      unfolding ev sl make_decision_fromkeys [OF sc] make_decision_fromkeys [OF mx]
      using d LC_ACTIVE sc mx un
      by (cases "ls_relevance s \<or> ls_unresolved s"; cases "retention_score p s < lp_suppression p"; cases "score_reasons p s = []")
        (simp_all add: decision_ok_def del: max.bounded_iff max_less_iff_conj)
  next
    case LC_SUPPRESSED
    then have ev: "evaluate p s =
        (if ls_relevance s \<or> ls_unresolved s \<or> lp_reactivation p \<le> ls_salience s \<or> lp_reactivation p \<le> retention_score p s
         then make_decision (ls_record_id s) REACTIVATE (retention_score p s)
           (fromkeys (score_reasons p s @ given (ls_relevance s) EXPLICIT_RELEVANCE @ [ABOVE_REACTIVATION_THRESHOLD]))
         else make_decision (ls_record_id s) REMAIN_SUPPRESSED (retention_score p s) (fromkeys (score_reasons p s)))"
      using d by (simp add: evaluate_def Let_def)
    have sl: "silent p s \<longleftrightarrow> score_reasons p s = [] \<and> \<not> ls_relevance s \<and> \<not> ls_unresolved s
        \<and> ls_salience s < lp_reactivation p \<and> retention_score p s < lp_reactivation p"
      using d LC_SUPPRESSED rs by (auto simp: silent_def)
    show ?thesis
      unfolding ev sl make_decision_fromkeys [OF sc]
      using d LC_SUPPRESSED sc
      by (cases "ls_relevance s \<or> ls_unresolved s \<or> lp_reactivation p \<le> ls_salience s \<or> lp_reactivation p \<le> retention_score p s";
          cases "score_reasons p s = []") (simp_all add: decision_ok_def not_le)
  qed
qed

text \<open>
  C22. Every evaluation of valid signals under a valid policy ends in one of two ways. If some
  reason applies, the decision is well formed: it is about the record, its score is in
  $[0, 1]$, its reasons are distinct and present, it fits the state the record is in, and a
  record is only suppressed, or left suppressed, below the threshold, without an explicit
  directive to keep it and when it is neither relevant nor unresolved. If none applies, and
  exactly then, the evaluation raises: the decision type refuses an empty list of reasons.
\<close>

theorem evaluation_well_formed:
  assumes "make_signals r = Inr s" and "make_lifecycle_policy q = Inr p"
  shows "(evaluate p s = Inl (ValueError (lit ''lifecycle decision requires reason codes'')) \<longleftrightarrow> silent p s)
    \<and> (\<not> silent p s \<longrightarrow> (\<exists>d. evaluate p s = Inr d \<and> decision_ok p s d \<and> ld_record_id d = py_strip (rs_record_id r)))"
proof (cases "silent p s")
  case True
  with evaluate_cases [OF make_lifecycle_policy_ok [OF assms(2)], of s] show ?thesis by simp
next
  case False
  with evaluate_cases [OF make_lifecycle_policy_ok [OF assms(2)], of s] obtain d where "evaluate p s = Inr d" "decision_ok p s d" by auto
  moreover from this have "ld_record_id d = py_strip (rs_record_id r)"
    using make_signals_ok(2) [OF assms(1)] by (simp add: decision_ok_def)
  ultimately show ?thesis using False by simp
qed

definition plain_signals :: raw_signals where
  "plain_signals = \<lparr>rs_record_id = [97], rs_state = LC_ACTIVE, rs_directive = RETAIN_DEFAULT, rs_age_days = FiniteFloat 60,
     rs_access_count = Some 0, rs_days_since_access = Some (FiniteFloat 10), rs_salience = FiniteFloat (1 / 2), rs_superseded = False,
     rs_concept_linked = False, rs_unresolved = False, rs_pressure = FiniteFloat 0, rs_relevance = False\<rparr>"

lemma plain_made: "make_signals plain_signals = Inr \<lparr>ls_record_id = [97], ls_state = LC_ACTIVE, ls_directive = RETAIN_DEFAULT,
    ls_age_days = 60, ls_access_count = 0, ls_days_since_access = Some 10, ls_salience = 1 / 2, ls_superseded = False,
    ls_concept_linked = False, ls_unresolved = False, ls_pressure = 0, ls_relevance = False\<rparr>"
  by (simp add: make_signals_def plain_signals_def finite_float_def days_since_def py_strip_def py_lstrip_def py_rstrip_def py_space_def)

lemma default_made: "make_lifecycle_policy default_lifecycle_policy = Inr default_lifecycle_policy"
  by (simp add: make_lifecycle_policy_def default_lifecycle_policy_def)

text \<open>An ordinary record of two months is one of those about which there is nothing to say.\<close>

lemma plain_silent: "silent default_lifecycle_policy \<lparr>ls_record_id = [97], ls_state = LC_ACTIVE, ls_directive = RETAIN_DEFAULT,
    ls_age_days = 60, ls_access_count = 0, ls_days_since_access = Some 10, ls_salience = 1 / 2, ls_superseded = False,
    ls_concept_linked = False, ls_unresolved = False, ls_pressure = 0, ls_relevance = False\<rparr>"
proof -
  have "retention_score default_lifecycle_policy \<lparr>ls_record_id = [97], ls_state = LC_ACTIVE, ls_directive = RETAIN_DEFAULT,
    ls_age_days = 60, ls_access_count = 0, ls_days_since_access = Some 10, ls_salience = 1 / 2, ls_superseded = False,
    ls_concept_linked = False, ls_unresolved = False, ls_pressure = 0, ls_relevance = False\<rparr> = 133 / 300"
    by (simp add: retention_score_def default_lifecycle_policy_def)
  then show ?thesis by (simp add: silent_def) (simp add: default_lifecycle_policy_def)
qed

theorem evaluation_well_formed_witness:
  "\<exists>s. make_signals plain_signals = Inr s
    \<and> evaluate default_lifecycle_policy s = Inl (ValueError (lit ''lifecycle decision requires reason codes''))"
  using evaluation_well_formed [OF plain_made default_made] plain_made plain_silent by blast


subsection \<open>What the service writes\<close>

definition lifecycle_keys :: "ustr set" where
  "lifecycle_keys = lit ` {''lifecycle_state'', ''ordinary_recall'', ''retention_score'', ''lifecycle_updated_at'',
     ''lifecycle_reason_codes'', ''updated_at''}"

lemma decision_patch_dom: "dom (decision_patch V d now) = lifecycle_keys"
  by (auto simp: decision_patch_def lifecycle_keys_def)

lemma patched_recall:
  "(p ++ decision_patch V d now) (lit ''ordinary_recall'') = Some (JBool (snd (decided_state (ld_decision d))))"
  "(p ++ decision_patch V d now) (lit ''lifecycle_state'') = Some (JStr (state_value (fst (decided_state (ld_decision d)))))"
  by (simp_all add: decision_patch_def lit_eq_iff map_add_def)

lemma payload_signals_Inr:
  assumes "payload_signals V i payload now inputs = Inr s"
  shows "signals_ok s" and "ls_unresolved s = li_unresolved inputs" and "ls_relevance s = li_relevance inputs"
    and "payload_directive payload = Inr (ls_directive s)"
  using assms make_signals_ok
  by (auto simp: payload_signals_def split: option.splits)

lemma apply_decision_effect:
  assumes "payload_store_ok (lv_repository V) pts" and "apply_decision V i d now s = (r, s')"
  shows "pts s' = pts s \<and> r \<noteq> Inr () \<or> (\<exists>t. pts s' = (pts s)(i := map_option (\<lambda>p. p ++ decision_patch V d t) (pts s i)))"
proof -
  let ?Q = "\<lambda>r P'. P' = pts s \<and> r \<noteq> Inr () \<or> (\<exists>t. P' = (pts s)(i := map_option (\<lambda>p. p ++ decision_patch V d t) (pts s i)))"
  have law: "set_payload_ok pts (\<lambda>d p. p ++ d) i (decision_patch V d t) (pr_set_payload (lv_repository V) i (decision_patch V d t))" for t
    using set_payload_law assms(1) by (simp add: payload_store_ok_def)
  have "yields pts (apply_decision V i d now) (pts s) ?Q"
    unfolding apply_decision_def
  proof (intro yields_lift_bind)
    fix t
    show "yields pts (if i \<noteq> ld_record_id d then raiseS (ValueError (lit ''lifecycle decision point ID mismatch''))
        else pr_set_payload (lv_repository V) i (decision_patch V d t)) (pts s) ?Q"
    proof (cases "i = ld_record_id d")
      case True
      have "yields pts (pr_set_payload (lv_repository V) i (decision_patch V d t)) (pts s) ?Q"
        by (rule yields_mono [OF yields_patched [OF law]]) blast
      with True show ?thesis by simp
    qed (simp add: yields_raise)
  qed simp
  from yieldsD [OF this assms(2)] show ?thesis .
qed

text \<open>
  C21. Lifecycle writes only change availability. Applying the decision evaluated for a stored
  record changes no other point and none of its keys but the lifecycle metadata: content,
  status, evidence and provenance stay. A record that is to be kept by directive, is relevant or
  unresolved is in ordinary recall afterwards, and recall is withheld only from records in
  state suppressed whose score is below the reactivation threshold.
\<close>

theorem lifecycle_writes_metadata_only:
  assumes "payload_store_ok (lv_repository V) pts" and "lifecycle_policy_ok (lv_policy V)"
    and "pts s i = Some payload" and "evaluate_payload V i payload now inputs = Inr d"
    and "apply_decision V i d now' s = (r, s')"
  shows "(\<forall>j. j \<noteq> i \<longrightarrow> pts s' j = pts s j)
    \<and> (\<exists>payload'. pts s' i = Some payload'
        \<and> (\<forall>k. k \<notin> lifecycle_keys \<longrightarrow> payload' k = payload k)
        \<and> (r = Inr () \<longrightarrow>
             (payload_directive payload = Inr RETAIN_KEEP \<or> li_relevance inputs \<or> li_unresolved inputs
                \<longrightarrow> payload' (lit ''ordinary_recall'') = Some (JBool True))
           \<and> (payload' (lit ''ordinary_recall'') \<noteq> Some (JBool True) \<longrightarrow>
                payload' (lit ''ordinary_recall'') = Some (JBool False)
                \<and> payload' (lit ''lifecycle_state'') = Some (JStr (lit ''suppressed''))
                \<and> ld_score d < lp_reactivation (lv_policy V))))"
proof -
  from assms(4) obtain sg where sg: "payload_signals V i payload now inputs = Inr sg" and ev: "evaluate (lv_policy V) sg = Inr d"
    by (auto simp: evaluate_payload_def)
  have ok: "decision_ok (lv_policy V) sg d" using evaluate_cases [OF assms(2), of sg] ev by (auto split: if_splits)
  note ps = payload_signals_Inr [OF sg]
  have recall: "snd (decided_state (ld_decision d)) \<longleftrightarrow> ld_decision d \<notin> {SUPPRESS, REMAIN_SUPPRESSED}"
    by (cases "ld_decision d") auto
  have below: "ld_score d < lp_reactivation (lv_policy V) \<and> decided_state (ld_decision d) = (LC_SUPPRESSED, False)
      \<and> payload_directive payload \<noteq> Inr RETAIN_KEEP \<and> \<not> li_relevance inputs \<and> \<not> li_unresolved inputs"
    if "ld_decision d \<in> {SUPPRESS, REMAIN_SUPPRESSED}"
    using that ok ps assms(2) by (auto simp: decision_ok_def lifecycle_policy_ok_def)
  from apply_decision_effect [OF assms(1,5)] show ?thesis
  proof (elim disjE exE conjE)
    fix t assume p': "pts s' = (pts s)(i := map_option (\<lambda>p. p ++ decision_patch V d t) (pts s i))"
    have "(payload ++ decision_patch V d t) k = payload k" if "k \<notin> lifecycle_keys" for k
      using that decision_patch_dom [of V d t] by (simp add: map_add_dom_app_simps(3))
    with p' assms(3) recall below show ?thesis
      by (cases "ld_decision d \<in> {SUPPRESS, REMAIN_SUPPRESSED}") (auto simp: patched_recall)
  qed (use assms(3) in auto)
qed

definition plain_lifecycle :: "(uid \<times> dict) list lifecycle_service" where
  "plain_lifecycle = \<lparr>lv_repository = in_memory_points (\<lambda>d p. p ++ d) (\<lambda>_ _. True), lv_policy = default_lifecycle_policy,
     lv_parse_time = (\<lambda>_. Some (Aware 0)), lv_isoformat = (\<lambda>_. []), lv_str = (\<lambda>_. []), lv_int = (\<lambda>_. None)\<rparr>"

definition plain_payload :: dict where
  "plain_payload = [lit ''created_at'' \<mapsto> JStr [48], lit ''content'' \<mapsto> JStr [104], lit ''lifecycle_state'' \<mapsto> JStr (lit ''suppressed'')]"

text \<open>A relevant record that had been suppressed comes back into recall with its content.\<close>

theorem lifecycle_writes_metadata_only_witness:
  "\<exists>d s' payload'. evaluate_payload plain_lifecycle [97] plain_payload (Aware 0) (no_inputs\<lparr>li_relevance := True\<rparr>) = Inr d
    \<and> apply_decision plain_lifecycle [97] d (Aware 1) [([97], plain_payload)] = (Inr (), s')
    \<and> map_of s' [97] = Some payload' \<and> payload' (lit ''ordinary_recall'') = Some (JBool True)
    \<and> payload' (lit ''content'') = Some (JStr [104])"
proof -
  let ?in = "no_inputs\<lparr>li_relevance := True\<rparr>" and ?s = "[([97], plain_payload)]"
  have ok: "payload_store_ok (lv_repository plain_lifecycle) map_of"
    by (simp add: payload_store_ok_def plain_lifecycle_def in_memory_points_ok)
  have pol: "lifecycle_policy_ok (lv_policy plain_lifecycle)" by (simp add: plain_lifecycle_def lifecycle_policy_ok_def default_lifecycle_policy_def)
  obtain sg where sg: "payload_signals plain_lifecycle [97] plain_payload (Aware 0) ?in = Inr sg" "ls_relevance sg" "ls_record_id sg = [97]"
    by (simp add: payload_signals_def lifecycle_aware_def payload_time_def plain_payload_def lit_eq_iff json_str_def plain_lifecycle_def
        payload_state_def payload_directive_def payload_contradicted_def payload_count_def make_signals_def finite_float_def
        no_inputs_def days_between_def days_since_def py_strip_def py_lstrip_def py_rstrip_def py_space_def)
  then have "\<not> silent default_lifecycle_policy sg" by (simp add: silent_def)
  with evaluate_cases [OF pol, of sg] obtain d where d: "evaluate default_lifecycle_policy sg = Inr d" "ld_record_id d = [97]"
    using sg(3) by (auto simp: plain_lifecycle_def decision_ok_def)
  then have ev: "evaluate_payload plain_lifecycle [97] plain_payload (Aware 0) ?in = Inr d"
    using sg(1) by (simp add: evaluate_payload_def plain_lifecycle_def)
  obtain s' where run: "apply_decision plain_lifecycle [97] d (Aware 1) ?s = (Inr (), s')"
    using d(2) by (simp add: apply_decision_def lifecycle_aware_def plain_lifecycle_def in_memory_points_def)
  have key: "lit ''content'' \<notin> lifecycle_keys" by (auto simp: lifecycle_keys_def lit_eq_iff)
  from lifecycle_writes_metadata_only [OF ok pol _ ev run] obtain payload' where
    "map_of s' [97] = Some payload'" "\<forall>k. k \<notin> lifecycle_keys \<longrightarrow> payload' k = plain_payload k"
    "payload' (lit ''ordinary_recall'') = Some (JBool True)"
    by (auto simp: no_inputs_def)
  with ev run key show ?thesis by (auto simp: plain_payload_def lit_eq_iff)
qed

end
