(* ===== verification/Regex.thy ===== *)
theory Regex
  imports Prelude
begin

text \<open>
  The part of Python's \<^verbatim>\<open>re\<close> module that the program's patterns use: backtracking
  matching with greedy repetition, word boundaries and one group. A pattern matches a text from
  a position in several ways; they are listed in the order in which the engine tries them, so
  the first is the match it reports. What a word character, a decimal digit and a
  case-insensitive match of two characters are comes from the Unicode tables of the
  interpreter, and is a parameter, as is \<^verbatim>\<open>str.casefold\<close>.
\<close>

record text_tables =
  tt_casefold :: "ustr \<Rightarrow> ustr"
  tt_word :: "nat \<Rightarrow> bool"
  tt_digit :: "nat \<Rightarrow> bool"
  tt_same :: "nat \<Rightarrow> nat \<Rightarrow> bool"

datatype pattern =
    Chars "nat \<Rightarrow> bool"
  | Boundary
  | Empty
  | Seq pattern pattern
  | Alt pattern pattern
  | Star pattern
  | Group pattern

text \<open>A position together with the span of the group; \<open>\b\<close> holds between a word and a non-word character.\<close>

type_synonym place = "nat \<times> (nat \<times> nat)"

definition word_at :: "text_tables \<Rightarrow> ustr \<Rightarrow> nat \<Rightarrow> bool" where
  "word_at T s i \<longleftrightarrow> i < length s \<and> tt_word T (s ! i)"

definition boundary_at :: "text_tables \<Rightarrow> ustr \<Rightarrow> nat \<Rightarrow> bool" where
  "boundary_at T s i \<longleftrightarrow> (0 < i \<and> word_at T s (i - 1)) \<noteq> word_at T s i"

function (sequential) matches :: "text_tables \<Rightarrow> ustr \<Rightarrow> pattern \<Rightarrow> place \<Rightarrow> place list" where
  "matches T s (Chars P) x = (if fst x < length s \<and> P (s ! fst x) then [(Suc (fst x), snd x)] else [])"
| "matches T s Boundary x = (if boundary_at T s (fst x) then [x] else [])"
| "matches T s Empty x = [x]"
| "matches T s (Seq p q) x = concat (map (\<lambda>y. matches T s q y) (matches T s p x))"
| "matches T s (Alt p q) x = matches T s p x @ matches T s q x"
| "matches T s (Star p) x =
     concat (map (\<lambda>y. if fst x < fst y \<and> fst y \<le> length s then matches T s (Star p) y else []) (matches T s p x)) @ [x]"
| "matches T s (Group p) x = map (\<lambda>y. (fst y, (fst x, fst y))) (matches T s p x)"
  by pat_completeness auto

termination
  by (relation "measures [\<lambda>(T, s, p, x). size p, \<lambda>(T, s, p, x). length s - fst x]") auto

text \<open>\<^verbatim>\<open>finditer\<close>: the matches from left to right, each as its start, its end and its group.\<close>

function find_from :: "text_tables \<Rightarrow> pattern \<Rightarrow> ustr \<Rightarrow> nat \<Rightarrow> (nat \<times> place) list" where
  "find_from T p s i =
     (if length s < i then []
      else case matches T s p (i, (i, i)) of
          [] \<Rightarrow> find_from T p s (Suc i)
        | y # _ \<Rightarrow> (i, y) # find_from T p s (if i < fst y then fst y else Suc i))"
  by pat_completeness auto

termination
  by (relation "measure (\<lambda>(T, p, s, i). Suc (length s) - i)") auto

declare find_from.simps [simp del]

definition slice :: "nat \<Rightarrow> nat \<Rightarrow> 'a list \<Rightarrow> 'a list" where
  "slice a b xs = take (b - a) (drop a xs)"

definition findall :: "text_tables \<Rightarrow> pattern \<Rightarrow> ustr \<Rightarrow> ustr list" where
  "findall T p s = map (\<lambda>(i, y). slice i (fst y) s) (find_from T p s 0)"

definition findall_group :: "text_tables \<Rightarrow> pattern \<Rightarrow> ustr \<Rightarrow> ustr list" where
  "findall_group T p s = map (\<lambda>(i, y). slice (fst (snd y)) (snd (snd y)) s) (find_from T p s 0)"

definition search_group :: "text_tables \<Rightarrow> pattern \<Rightarrow> ustr \<Rightarrow> ustr option" where
  "search_group T p s = (case findall_group T p s of [] \<Rightarrow> None | g # _ \<Rightarrow> Some g)"

definition searches :: "text_tables \<Rightarrow> pattern \<Rightarrow> ustr \<Rightarrow> bool" where
  "searches T p s \<longleftrightarrow> find_from T p s 0 \<noteq> []"

text \<open>Repetition at least once, literals, and literals that ignore case.\<close>

definition Plus :: "pattern \<Rightarrow> pattern" where
  "Plus p = Seq p (Star p)"

definition Literal :: "ustr \<Rightarrow> pattern" where
  "Literal s = foldr (\<lambda>c p. Seq (Chars (\<lambda>d. d = c)) p) s Empty"

definition Caseless :: "text_tables \<Rightarrow> ustr \<Rightarrow> pattern" where
  "Caseless T s = foldr (\<lambda>c p. Seq (Chars (tt_same T c)) p) s Empty"

definition Choice :: "pattern list \<Rightarrow> pattern" where
  "Choice ps = foldr Alt (butlast ps) (last ps)"

definition lower_alnum :: "nat \<Rightarrow> bool" where
  "lower_alnum c \<longleftrightarrow> (97 \<le> c \<and> c \<le> 122) \<or> (48 \<le> c \<and> c \<le> 57)"

definition ascii_digit :: "nat \<Rightarrow> bool" where
  "ascii_digit c \<longleftrightarrow> 48 \<le> c \<and> c \<le> 57"

text \<open>\<^verbatim>\<open>str.splitlines\<close> and \<^verbatim>\<open>sep.join\<close>.\<close>

definition line_break :: "nat \<Rightarrow> bool" where
  "line_break c \<longleftrightarrow> (10 \<le> c \<and> c \<le> 13) \<or> (28 \<le> c \<and> c \<le> 30) \<or> c = 133 \<or> c = 8232 \<or> c = 8233"

fun line_breaks_from :: "ustr \<Rightarrow> ustr \<Rightarrow> ustr list" where
  "line_breaks_from acc [] = (if acc = [] then [] else [rev acc])"
| "line_breaks_from acc (c # cs) =
     (if c = 13 \<and> take 1 cs = [10] then rev acc # line_breaks_from [] (drop 1 cs)
      else if line_break c then rev acc # line_breaks_from [] cs
      else line_breaks_from (c # acc) cs)"

definition splitlines :: "ustr \<Rightarrow> ustr list" where
  "splitlines s = line_breaks_from [] s"

primrec join :: "ustr \<Rightarrow> ustr list \<Rightarrow> ustr" where
  "join sep [] = []"
| "join sep (x # xs) = (if xs = [] then x else x @ sep @ join sep xs)"

text \<open>\<^verbatim>\<open>needle in text\<close>.\<close>

fun contains :: "ustr \<Rightarrow> ustr \<Rightarrow> bool" where
  "contains needle [] = (needle = [])"
| "contains needle (c # cs) = (take (length needle) (c # cs) = needle \<or> contains needle cs)"

lemma length_join_snoc: "length (join sep (xs @ [x])) = length (join sep xs) + (if xs = [] then 0 else length sep) + length x"
  by (induction xs) auto

lemma join_eq_Nil: "join sep xs = [] \<Longrightarrow> x \<in> set xs \<Longrightarrow> x = []"
  by (induction xs) (auto split: if_splits)

lemma contains_iff: "contains n s \<longleftrightarrow> (\<exists>a b. s = a @ n @ b)"
proof (induction s)
  case (Cons c cs)
  have "take (length n) (c # cs) = n \<longleftrightarrow> (\<exists>b. c # cs = n @ b)"
    by (metis append_eq_conv_conj append_take_drop_id)
  then show ?case by (auto simp: Cons.IH Cons_eq_append_conv)
qed auto

end
