(* ===== verification/Dream_Relevance.thy ===== *)
theory Dream_Relevance
  imports Regex Reason_Contracts Point_Store "HOL-Library.Sublist"
begin

text \<open>
  The lexical guard of the dreaming component, \<^verbatim>\<open>cyberbrain/dreaming/relevance.py\<close>: which
  evidence and which claims belong to a topic, and the bounded excerpt of a long text around
  its topic. \<^verbatim>\<open>str\<close> of a JSON value and the text of a timestamp are parameters, with the
  character tables of \<open>Regex\<close>.
\<close>

record dream_tables = text_tables +
  dx_str :: "json \<Rightarrow> ustr"
  dx_iso :: "int \<Rightarrow> ustr"

subsection \<open>Patterns and word lists\<close>

text \<open>\<^verbatim>\<open>[a-z0-9]+\<close>.\<close>

definition token_pattern :: pattern where
  "token_pattern = Plus (Chars lower_alnum)"

text \<open>\<^verbatim>\<open>\bphase[\s._-]*(\d+)\b\<close>, ignoring case.\<close>

definition phase_pattern :: "'a text_tables_scheme \<Rightarrow> pattern" where
  "phase_pattern T =
     Seq Boundary (Seq (Caseless (text_tables.truncate T) (lit ''phase''))
       (Seq (Star (Chars (\<lambda>c. py_space c \<or> c = 46 \<or> c = 95 \<or> c = 45)))
         (Seq (Group (Plus (Chars (tt_digit T)))) Boundary)))"

text \<open>\<^verbatim>\<open>\b(?:[a-z0-9-]+\.)+[a-z]{2,}\b\<close>, ignoring case.\<close>

definition hostname_pattern :: "'a text_tables_scheme \<Rightarrow> pattern" where
  "hostname_pattern T =
     (let letter = Chars (\<lambda>c. \<exists>d \<in> {97..122}. tt_same T d c);
          label_char = Chars (\<lambda>c. c = 45 \<or> (48 \<le> c \<and> c \<le> 57) \<or> (\<exists>d \<in> {97..122}. tt_same T d c))
      in Seq Boundary (Seq (Plus (Seq (Plus label_char) (Chars (\<lambda>c. c = 46))))
           (Seq letter (Seq (Plus letter) Boundary))))"

definition outcome_words :: "ustr list" where
  "outcome_words = [lit ''result'', lit ''results'', lit ''conclusion'', lit ''confirmed'', lit ''verified'', lit ''resolved'',
      lit ''ready'', lit ''passed'', lit ''failed'', lit ''root cause'']"

definition outcome_marks :: "ustr list" where
  "outcome_marks =
     [[273, 227, 32, 114, 245],
      [107, 7871, 116, 32, 113, 117, 7843],
      [107, 7871, 116, 32, 108, 117, 7853, 110],
      [120, 225, 99, 32, 110, 104, 7853, 110],
      [104, 111, 224, 110, 32, 116, 7845, 116],
      [104, 111, 224, 110, 32, 116, 104, 224, 110, 104],
      [116, 104, 7921, 99, 32, 99, 104, 7845, 116],
      [109, 7845, 117, 32, 99, 104, 7889, 116],
      [116, 243, 109, 32, 108, 7841, 105],
      [273, 250, 110, 103, 32, 108, 224],
      [8594],
      lit ''=>'',
      lit ''='']"

definition outcome_pattern :: "'a text_tables_scheme \<Rightarrow> pattern" where
  "outcome_pattern T =
     (let same = text_tables.truncate T
      in Choice (map (\<lambda>w. Seq Boundary (Seq (Caseless same w) Boundary)) outcome_words @ map (Caseless same) outcome_marks))"

text \<open>\<^verbatim>\<open>(?=.*[a-z])(?=.*\d)[a-z0-9]{6,}\<close> as a full match of a token.\<close>

definition identifier_like :: "ustr \<Rightarrow> bool" where
  "identifier_like t \<longleftrightarrow> 6 \<le> length t \<and> list_all lower_alnum t
     \<and> list_ex (\<lambda>c. 97 \<le> c \<and> c \<le> 122) t \<and> list_ex ascii_digit t"

definition generic_tokens :: "ustr list" where
  "generic_tokens =
     [lit ''a'', lit ''an'', lit ''and'', lit ''after'', lit ''before'', lit ''for'', lit ''from'', lit ''gate'',
      lit ''gates'', lit ''in'', lit ''mcp'', lit ''of'', lit ''on'', lit ''phase'', lit ''project'', lit ''quality'',
      lit ''slnctrz'', lit ''the'', lit ''to'', lit ''with'']"

definition anchor_aliases :: "ustr \<Rightarrow> ustr list" where
  "anchor_aliases anchor =
     (case map_of
        [(lit ''oauth'', [lit ''authorization'', lit ''authorisation'', lit ''oauth'']),
         (lit ''persistence'', [lit ''autostart'', lit ''persist'', lit ''persistence'', lit ''persistent'']),
         (lit ''reboot'', [lit ''boot'', lit ''reboot'', lit ''restart'', lit ''restarted'', lit ''restarting'']),
         (lit ''standalone'', [lit ''sea'', lit ''standalone'']),
         (lit ''write'', [lit ''write'', lit ''writes'', lit ''writing''])] anchor of
        None \<Rightarrow> [anchor] | Some as \<Rightarrow> as)"

definition tokens_of :: "'a text_tables_scheme \<Rightarrow> ustr \<Rightarrow> ustr list" where
  "tokens_of T s = findall (text_tables.truncate T) token_pattern (tt_casefold T s)"

definition anchors :: "'a text_tables_scheme \<Rightarrow> ustr \<Rightarrow> ustr list" where
  "anchors T topic = fromkeys (filter (\<lambda>t. \<not> list_all ascii_digit t \<and> t \<notin> set generic_tokens) (tokens_of T topic))"

definition anchor_matches :: "ustr \<Rightarrow> ustr list \<Rightarrow> bool" where
  "anchor_matches anchor tokens \<longleftrightarrow>
     list_ex (\<lambda>a. a \<in> set tokens) (anchor_aliases anchor)
     \<or> 6 \<le> length anchor \<and> list_ex (\<lambda>t. 6 \<le> length t \<and> take 5 t = take 5 anchor) tokens"

definition phase_of :: "'a text_tables_scheme \<Rightarrow> ustr \<Rightarrow> ustr option" where
  "phase_of T s = search_group (text_tables.truncate T) (phase_pattern T) s"

definition phases :: "'a text_tables_scheme \<Rightarrow> ustr \<Rightarrow> ustr list" where
  "phases T s = findall_group (text_tables.truncate T) (phase_pattern T) s"

definition intent_anchors :: "'a text_tables_scheme \<Rightarrow> ustr \<Rightarrow> ustr list \<Rightarrow> ustr list" where
  "intent_anchors T topic anchor_list =
     (let hosts = findall (text_tables.truncate T) (hostname_pattern T) (tt_casefold T topic);
          host_tokens = concat (map (findall (text_tables.truncate T) token_pattern) hosts)
      in if host_tokens \<noteq> [] then filter (\<lambda>a. \<not> anchor_matches a host_tokens) anchor_list
         else if length anchor_list \<le> 1 then anchor_list else tl anchor_list)"

definition multi_anchor_coverage :: "'a text_tables_scheme \<Rightarrow> ustr \<Rightarrow> ustr list \<Rightarrow> ustr list \<Rightarrow> bool" where
  "multi_anchor_coverage T topic anchor_list matched \<longleftrightarrow>
     (let intent = intent_anchors T topic anchor_list;
          hits = length (filter (\<lambda>a. a \<in> set intent) matched)
      in 2 \<le> hits \<or> 3 \<le> length matched \<and> 1 \<le> hits)"

subsection \<open>Relevance of a text and of a claim\<close>

definition text_relevant :: "'a text_tables_scheme \<Rightarrow> ustr \<Rightarrow> ustr \<Rightarrow> bool" where
  "text_relevant T topic text \<longleftrightarrow>
     (let as = anchors T topic; tokens = tokens_of T text; ids = filter identifier_like as;
          matched = filter (\<lambda>a. anchor_matches a tokens) as
      in if as = [] then True
         else if ids \<noteq> [] then list_all (\<lambda>i. i \<in> set tokens) ids
         else if length as = 1 \<and> phase_of T topic = None then True
         else if (case phase_of T topic of Some p \<Rightarrow> p \<notin> set (phases T text) | None \<Rightarrow> False) then False
         else if matched = [] \<or> hd matched \<noteq> hd as then False
         else if 5 \<le> length as then multi_anchor_coverage T topic as matched
         else (if length as = 1 then 1 else 2) \<le> length matched)"

definition claim_relevant :: "'a text_tables_scheme \<Rightarrow> ustr \<Rightarrow> ustr \<Rightarrow> bool" where
  "claim_relevant T topic text \<longleftrightarrow>
     (let as = anchors T topic; tokens = tokens_of T text; ids = filter identifier_like as;
          matched = filter (\<lambda>a. anchor_matches a tokens) as
      in if as = [] then True
         else if ids \<noteq> [] then list_all (\<lambda>i. i \<in> set tokens) ids
         else if length as = 1 \<and> phase_of T topic = None then True
         else case phase_of T topic of
             Some p \<Rightarrow> p \<in> set (phases T text) \<and> list_ex (\<lambda>a. anchor_matches a tokens) as
           | None \<Rightarrow>
               if 5 \<le> length as then multi_anchor_coverage T topic as matched
               else (if length as \<le> 3 then 1 else 2) \<le> length matched)"

subsection \<open>The excerpt of a long text\<close>

type_synonym window = "nat \<times> nat"

definition window_around :: "nat \<Rightarrow> nat \<Rightarrow> nat \<Rightarrow> window" where
  "window_around n_lines context index = (index - context, min n_lines (index + context + 1))"

definition overlaps :: "window \<Rightarrow> window list \<Rightarrow> bool" where
  "overlaps w selected \<longleftrightarrow> list_ex (\<lambda>(ps, pe). \<not> (snd w \<le> ps \<or> pe \<le> fst w)) selected"

definition sorted_windows :: "window list \<Rightarrow> window list" where
  "sorted_windows ws = sort_key fst (sort_key snd ws)"

definition window_text :: "ustr list \<Rightarrow> window \<Rightarrow> ustr" where
  "window_text lines w = join [10] (slice (fst w) (snd w) lines)"

definition gap :: ustr where
  "gap = [10] @ lit ''...'' @ [10]"

definition line_score :: "'a text_tables_scheme \<Rightarrow> ustr \<Rightarrow> ustr \<Rightarrow> nat" where
  "line_score T topic line =
     (let as = anchors T topic; tokens = tokens_of T line
      in (case phase_of T topic of Some p \<Rightarrow> if p \<in> set (phases T line) then 8 else 0 | None \<Rightarrow> 0)
         + 12 * length (filter (\<lambda>i. i \<in> set tokens) (filter identifier_like as))
         + sum_list (map (\<lambda>(k, a). if anchor_matches a tokens then (if k = 0 then 10 else 6) else 0) (enumerate 0 as)))"

definition ranked_lines :: "'a text_tables_scheme \<Rightarrow> ustr \<Rightarrow> ustr list \<Rightarrow> (nat \<times> nat) list" where
  "ranked_lines T topic lines =
     filter (\<lambda>(score, i). score \<noteq> 0) (map (\<lambda>(i, line). (line_score T topic line, i)) (enumerate 0 lines))"

fun pick_windows :: "(window list \<Rightarrow> bool) \<Rightarrow> nat \<Rightarrow> nat \<Rightarrow> nat \<Rightarrow> (nat \<times> nat) list \<Rightarrow> window list \<Rightarrow> window list" where
  "pick_windows enough n_lines context max_windows [] selected = selected"
| "pick_windows enough n_lines context max_windows ((score, i) # rest) selected =
     (let w = window_around n_lines context i
      in if overlaps w selected then pick_windows enough n_lines context max_windows rest selected
         else if enough (selected @ [w]) \<or> max_windows \<le> length (selected @ [w]) then selected @ [w]
         else pick_windows enough n_lines context max_windows rest (selected @ [w]))"

definition outcome_window :: "'a text_tables_scheme \<Rightarrow> ustr \<Rightarrow> ustr list \<Rightarrow> nat \<Rightarrow> window list \<Rightarrow> window \<Rightarrow> bool" where
  "outcome_window T topic lines latest_end selected w \<longleftrightarrow>
     (let as = anchors T topic; text = window_text lines w; tokens = tokens_of T text;
          local = filter (\<lambda>a. anchor_matches a tokens) as; ids = filter identifier_like as
      in latest_end \<le> fst w \<and> fst w - latest_end \<le> 80 \<and> \<not> overlaps w selected
         \<and> searches (text_tables.truncate T) (outcome_pattern T) text
         \<and> (ids \<noteq> [] \<and> list_all (\<lambda>i. i \<in> set tokens) ids
            \<or> (case phase_of T topic of Some p \<Rightarrow> p \<in> set (phases T text) \<and> local \<noteq> [] | None \<Rightarrow> False)
            \<or> 2 \<le> length local \<and> (length as < 3 \<or> list_ex (\<lambda>a. a \<in> set local) (drop 2 as))))"

definition add_outcome :: "'a text_tables_scheme \<Rightarrow> ustr \<Rightarrow> ustr list \<Rightarrow> nat \<Rightarrow> (nat \<times> nat) list \<Rightarrow> window list \<Rightarrow> window list" where
  "add_outcome T topic lines context ranked selected =
     (let latest_end = foldr max (map snd selected) 0
      in case find (outcome_window T topic lines latest_end selected)
                (map (\<lambda>(score, i). window_around (length lines) context i) (sort_key snd ranked)) of
           None \<Rightarrow> selected
         | Some w \<Rightarrow> selected @ [w])"

text \<open>The windows are joined while the budget lasts; \<open>used\<close> counts the characters so far.\<close>

definition separator_length :: "ustr list \<Rightarrow> nat" where
  "separator_length parts = (if parts = [] then 0 else length gap)"

definition clipped :: "nat \<Rightarrow> ustr \<Rightarrow> ustr" where
  "clipped room part = (if room < length part then py_rstrip (take room part) else part)"

fun fill_parts :: "nat \<Rightarrow> ustr list \<Rightarrow> window list \<Rightarrow> ustr list \<Rightarrow> nat \<Rightarrow> ustr list" where
  "fill_parts max_chars lines [] parts used = parts"
| "fill_parts max_chars lines (w # ws) parts used =
     (if max_chars \<le> used + separator_length parts then parts
      else let part = clipped (max_chars - used - separator_length parts) (window_text lines w)
           in if part = [] then fill_parts max_chars lines ws parts used
              else fill_parts max_chars lines ws (parts @ [part]) (used + separator_length parts + length part))"

definition nonblank_lines :: "ustr \<Rightarrow> ustr list" where
  "nonblank_lines s = filter (\<lambda>l. l \<noteq> []) (map py_strip (splitlines s))"

definition excerpt_windows :: "'a text_tables_scheme \<Rightarrow> ustr \<Rightarrow> ustr list \<Rightarrow> nat \<Rightarrow> nat \<Rightarrow> bool \<Rightarrow> window list" where
  "excerpt_windows T topic lines context max_windows include_outcome =
     (let ranked = ranked_lines T topic lines;
          enough = (\<lambda>ws. text_relevant T topic (join gap (map (window_text lines) (sorted_windows ws))));
          selected = pick_windows enough (length lines) context max_windows
            (sort_key (\<lambda>r. - int (fst r)) (sort_key snd ranked)) []
      in if selected \<noteq> [] \<and> include_outcome \<and> 2 \<le> length (anchors T topic) \<and> length selected < max_windows
         then add_outcome T topic lines context ranked selected else selected)"

definition topic_excerpt :: "'a text_tables_scheme \<Rightarrow> ustr \<Rightarrow> ustr \<Rightarrow> nat \<Rightarrow> nat \<Rightarrow> nat \<Rightarrow> bool \<Rightarrow> ustr option" where
  "topic_excerpt T topic text max_chars context max_windows include_outcome =
     (let value = py_strip text in
      if value = [] then None
      else if length value \<le> max_chars then (if text_relevant T topic value then Some value else None)
      else let lines = nonblank_lines value in
        if lines = [] \<or> ranked_lines T topic lines = [] then None
        else let excerpt = join gap (fill_parts max_chars lines
                   (sorted_windows (excerpt_windows T topic lines context max_windows include_outcome)) [] 0)
             in if excerpt = [] \<or> \<not> text_relevant T topic excerpt then None else Some excerpt)"

subsection \<open>Filtering evidence\<close>

definition meta_get :: "evidence \<Rightarrow> string \<Rightarrow> json option" where
  "meta_get e key = (case ev_metadata e of JObj kvs \<Rightarrow> map_of kvs (lit key) | _ \<Rightarrow> None)"

text \<open>\<^verbatim>\<open>str(item.metadata.get(key) or "")\<close>.\<close>

definition meta_text :: "'a dream_tables_scheme \<Rightarrow> evidence \<Rightarrow> string \<Rightarrow> ustr" where
  "meta_text D e key = text_or_empty (dx_str D) (meta_get e key)"

definition json_put :: "ustr \<Rightarrow> json \<Rightarrow> json \<Rightarrow> json" where
  "json_put k v obj =
     (case obj of
        JObj kvs \<Rightarrow> JObj (if k \<in> fst ` set kvs then map (\<lambda>(k', v'). (k', if k' = k then v else v')) kvs else kvs @ [(k, v)])
      | _ \<Rightarrow> obj)"

definition evidence_relevant :: "'a dream_tables_scheme \<Rightarrow> ustr \<Rightarrow> evidence \<Rightarrow> bool" where
  "evidence_relevant D topic e =
     text_relevant D topic (join [32] (filter (\<lambda>v. v \<noteq> [])
       [ev_content e, meta_text D e ''domain'', meta_text D e ''topic'', meta_text D e ''entity_name'']))"

definition guarded_item :: "'a dream_tables_scheme \<Rightarrow> ustr \<Rightarrow> evidence \<Rightarrow> evidence option" where
  "guarded_item D topic e =
     (if length (ev_content e) \<le> 3600 then (if evidence_relevant D topic e then Some e else None)
      else map_option (\<lambda>excerpt. e\<lparr>ev_content := excerpt, ev_metadata := json_put (lit ''topic_excerpt'') (JBool True) (ev_metadata e)\<rparr>)
             (topic_excerpt D topic (ev_content e) 3600 3 1 False))"

definition filter_evidence :: "'a dream_tables_scheme \<Rightarrow> ustr \<Rightarrow> evidence list \<Rightarrow> evidence list" where
  "filter_evidence D topic items = List.map_filter (guarded_item D topic) items"

subsection \<open>What an excerpt is\<close>

definition apart :: "window \<Rightarrow> window \<Rightarrow> bool" where
  "apart u v \<longleftrightarrow> snd u \<le> fst v \<or> snd v \<le> fst u"

definition windows_ok :: "nat \<Rightarrow> window list \<Rightarrow> bool" where
  "windows_ok n ws \<longleftrightarrow> (\<forall>w \<in> set ws. fst w < snd w \<and> snd w \<le> n) \<and> sorted_wrt apart ws"

lemma windows_ok_snoc:
  "windows_ok n ws \<Longrightarrow> \<not> overlaps w ws \<Longrightarrow> fst w < snd w \<Longrightarrow> snd w \<le> n \<Longrightarrow> windows_ok n (ws @ [w])"
  by (auto simp: windows_ok_def sorted_wrt_append overlaps_def apart_def list_ex_iff)

lemma window_around_ok: "i < n \<Longrightarrow> fst (window_around n c i) < snd (window_around n c i) \<and> snd (window_around n c i) \<le> n"
  by (auto simp: window_around_def)

lemma pick_windows_ok:
  assumes "windows_ok n ws" and "\<forall>r \<in> set ranked. snd r < n" and "length ws < max 1 m"
  shows "windows_ok n (pick_windows enough n c m ranked ws) \<and> length (pick_windows enough n c m ranked ws) \<le> max 1 m"
  using assms
proof (induction ranked arbitrary: ws)
  case (Cons r ranked)
  obtain score i where r: "r = (score, i)" by (cases r)
  let ?w = "window_around n c i"
  have w: "fst ?w < snd ?w \<and> snd ?w \<le> n" using Cons.prems(2) r by (intro window_around_ok) simp
  show ?case
  proof (cases "overlaps ?w ws")
    case True
    then show ?thesis using Cons r by simp
  next
    case False
    then have ok: "windows_ok n (ws @ [?w])" using Cons.prems(1) w by (intro windows_ok_snoc) auto
    show ?thesis
    proof (cases "enough (ws @ [?w]) \<or> m \<le> length (ws @ [?w])")
      case True
      then have "pick_windows enough n c m (r # ranked) ws = ws @ [?w]" using False r by (simp add: Let_def)
      then show ?thesis using ok Cons.prems(3) by simp
    next
      case more: False
      then have "pick_windows enough n c m (r # ranked) ws = pick_windows enough n c m ranked (ws @ [?w])"
        using False r by (simp add: Let_def)
      moreover have "length (ws @ [?w]) < max 1 m" using more by simp
      ultimately show ?thesis using Cons.IH [OF ok] Cons.prems(2) by simp
    qed
  qed
qed (simp add: less_imp_le)

lemma ranked_lines_index: "r \<in> set (ranked_lines T topic lines) \<Longrightarrow> snd r < length lines"
  by (auto simp: ranked_lines_def in_set_enumerate_eq)

lemma find_SomeD: "find P xs = Some x \<Longrightarrow> x \<in> set xs \<and> P x"
  by (induction xs) (auto split: if_splits)

lemma add_outcome_ok:
  assumes "windows_ok (length lines) ws" and "\<forall>r \<in> set ranked. snd r < length lines"
  shows "windows_ok (length lines) (add_outcome T topic lines c ranked ws)
    \<and> length (add_outcome T topic lines c ranked ws) \<le> Suc (length ws)"
proof (cases "find (outcome_window T topic lines (foldr max (map snd ws) 0) ws)
      (map (\<lambda>(score, i). window_around (length lines) c i) (sort_key snd ranked))")
  case None
  then show ?thesis using assms(1) by (simp add: add_outcome_def)
next
  case (Some w)
  then have "outcome_window T topic lines (foldr max (map snd ws) 0) ws w"
    and "w \<in> set (map (\<lambda>(score, i). window_around (length lines) c i) (sort_key snd ranked))"
    by (auto dest!: find_SomeD)
  then have "\<not> overlaps w ws" and "fst w < snd w \<and> snd w \<le> length lines"
    using assms(2) window_around_ok by (auto simp: outcome_window_def Let_def)
  then show ?thesis using Some assms(1) windows_ok_snoc by (simp add: add_outcome_def)
qed

lemma excerpt_windows_ok:
  "windows_ok (length lines) (excerpt_windows T topic lines c m b) \<and> length (excerpt_windows T topic lines c m b) \<le> max 1 m"
proof -
  let ?enough = "\<lambda>ws. text_relevant T topic (join gap (map (window_text lines) (sorted_windows ws)))"
  let ?ws = "pick_windows ?enough (length lines) c m
    (sort_key (\<lambda>r. - int (fst r)) (sort_key snd (ranked_lines T topic lines))) []"
  have ok: "windows_ok (length lines) ?ws \<and> length ?ws \<le> max 1 m"
    by (rule pick_windows_ok) (use ranked_lines_index in \<open>auto simp: windows_ok_def\<close>)
  have out: "windows_ok (length lines) (add_outcome T topic lines c (ranked_lines T topic lines) ?ws)
    \<and> length (add_outcome T topic lines c (ranked_lines T topic lines) ?ws) \<le> Suc (length ?ws)"
    by (rule add_outcome_ok) (use ok ranked_lines_index in auto)
  show ?thesis using ok out unfolding excerpt_windows_def Let_def by auto
qed

lemma sorted_windows_apart:
  assumes "windows_ok n ws"
  shows "sorted_wrt (\<lambda>u v. snd u \<le> fst v) (sorted_windows ws)"
proof -
  let ?s = "sorted_windows ws"
  have mem: "set ?s = set ws" by (simp add: sorted_windows_def)
  have fst_sorted: "sorted_wrt (\<lambda>u v. fst u \<le> fst v) ?s"
    using sorted_sort_key [of fst "sort_key snd ws"] by (simp add: sorted_windows_def sorted_wrt_map)
  have near: "u = v \<or> apart u v" if "u \<in> set ws" "v \<in> set ws" for u v
    using that assms unfolding windows_ok_def sorted_wrt_iff_nth_less apart_def in_set_conv_nth
    by (metis linorder_neqE_nat)
  have wide: "fst u < snd u" if "u \<in> set ws" for u using assms that by (simp add: windows_ok_def)
  have "distinct ws" unfolding distinct_conv_nth
  proof (intro allI impI)
    fix i j assume ij: "i < length ws" "j < length ws" "i \<noteq> j"
    have step: "apart (ws ! i) (ws ! j)" if "i < j" "j < length ws" for i j
      using assms that by (simp add: windows_ok_def sorted_wrt_iff_nth_less)
    then have "apart (ws ! i) (ws ! j) \<or> apart (ws ! j) (ws ! i)" using ij by (cases "i < j") auto
    then show "ws ! i \<noteq> ws ! j" using wide [OF nth_mem [OF ij(1)]] by (auto simp: apart_def)
  qed
  then have dist: "distinct ?s" by (simp add: sorted_windows_def)
  show ?thesis unfolding sorted_wrt_iff_nth_less
  proof (intro allI impI)
    fix i j assume ij: "i < j" "j < length ?s"
    then have i: "?s ! i \<in> set ws" and j: "?s ! j \<in> set ws" using mem nth_mem [of _ ?s] by auto
    have "?s ! i \<noteq> ?s ! j" using dist ij by (simp add: nth_eq_iff_index_eq)
    with near [OF i j] have "apart (?s ! i) (?s ! j)" by simp
    moreover have "fst (?s ! i) \<le> fst (?s ! j)" using fst_sorted ij by (simp add: sorted_wrt_iff_nth_less)
    ultimately show "snd (?s ! i) \<le> fst (?s ! j)" using wide [OF j] by (auto simp: apart_def)
  qed
qed

lemma length_clipped: "length (clipped n part) \<le> n"
  using length_py_rstrip [of "take n part"] by (auto simp: clipped_def)

lemma prefix_py_rstrip: "prefix (py_rstrip xs) xs"
  by (rule prefixI [OF sym [OF py_rstrip_append_space]])

lemma prefix_clipped: "prefix (clipped n part) part"
  using prefix_order.trans [OF prefix_py_rstrip take_is_prefix, of n part] by (simp add: clipped_def)

lemma fill_parts_length:
  "length (join gap parts) = used \<Longrightarrow> used \<le> n \<Longrightarrow> length (join gap (fill_parts n lines ws parts used)) \<le> n"
proof (induction ws arbitrary: parts used)
  case (Cons w ws)
  let ?part = "clipped (n - used - separator_length parts) (window_text lines w)"
  have "length (join gap (parts @ [?part])) = used + separator_length parts + length ?part"
    using Cons.prems(1) by (simp add: length_join_snoc separator_length_def)
  then show ?case
    using Cons.IH [of parts used] Cons.IH [of "parts @ [?part]" "used + separator_length parts + length ?part"]
      Cons.prems length_clipped [of "n - used - separator_length parts" "window_text lines w"]
    by (simp add: Let_def)
qed simp

lemma fill_parts_passages:
  "\<exists>rest ws'. fill_parts n lines ws parts used = parts @ rest \<and> subseq ws' ws
     \<and> list_all2 (\<lambda>p w. p \<noteq> [] \<and> prefix p (window_text lines w)) rest ws'"
proof (induction ws arbitrary: parts used)
  case (Cons w ws)
  let ?part = "clipped (n - used - separator_length parts) (window_text lines w)"
  consider "n \<le> used + separator_length parts" | "\<not> n \<le> used + separator_length parts" "?part = []"
    | "\<not> n \<le> used + separator_length parts" "?part \<noteq> []" by blast
  then show ?case
  proof cases
    case 1
    then show ?thesis by (intro exI [of _ "[]"]) auto
  next
    case 2
    then show ?thesis using Cons.IH [of parts used] by auto
  next
    case 3
    then have eq: "fill_parts n lines (w # ws) parts used
        = fill_parts n lines ws (parts @ [?part]) (used + separator_length parts + length ?part)"
      by (simp add: Let_def)
    obtain rest ws' where rest: "fill_parts n lines ws (parts @ [?part]) (used + separator_length parts + length ?part) = (parts @ [?part]) @ rest"
      and "subseq ws' ws" and "list_all2 (\<lambda>p w. p \<noteq> [] \<and> prefix p (window_text lines w)) rest ws'"
      using Cons.IH [of "parts @ [?part]"] by blast
    then show ?thesis unfolding eq rest
      using 3(2) prefix_clipped by (intro exI [of _ "?part # rest"] exI [of _ "w # ws'"]) simp
  qed
qed auto

lemma sorted_wrt_subseq: "subseq xs ys \<Longrightarrow> sorted_wrt P ys \<Longrightarrow> sorted_wrt P xs"
  by (induction rule: list_emb.induct) (auto dest: list_emb_set)

text \<open>
  An excerpt is not empty, fits the character budget and is itself relevant to the topic.
  A text that fits is returned whole. The excerpt of a longer text is a sequence of passages,
  at most as many as the window limit allows, each a beginning of consecutive non-blank lines of the text,
  from windows that do not overlap and are in the order of the text.
\<close>

theorem excerpt_is_faithful:
  assumes "topic_excerpt T topic text max_chars context max_windows outcome = Some e"
  shows "e \<noteq> [] \<and> length e \<le> max_chars \<and> text_relevant T topic e
    \<and> (if length (py_strip text) \<le> max_chars then e = py_strip text
       else \<exists>passages ws. e = join gap passages \<and> length passages \<le> max 1 max_windows
         \<and> sorted_wrt (\<lambda>u v. snd u \<le> fst v) ws
         \<and> list_all2 (\<lambda>p w. p \<noteq> [] \<and> prefix p (window_text (nonblank_lines (py_strip text)) w)) passages ws)"
proof (cases "length (py_strip text) \<le> max_chars")
  case True
  then show ?thesis using assms by (auto simp: topic_excerpt_def Let_def split: if_splits)
next
  case False
  let ?lines = "nonblank_lines (py_strip text)"
  let ?ws = "sorted_windows (excerpt_windows T topic ?lines context max_windows outcome)"
  let ?parts = "fill_parts max_chars ?lines ?ws [] 0"
  have e: "e = join gap ?parts" "e \<noteq> []" "text_relevant T topic e"
    using assms False by (auto simp: topic_excerpt_def Let_def split: if_splits)
  have len: "length (join gap ?parts) \<le> max_chars" by (rule fill_parts_length) auto
  obtain ws' where ws': "subseq ws' ?ws" "list_all2 (\<lambda>p w. p \<noteq> [] \<and> prefix p (window_text ?lines w)) ?parts ws'"
    using fill_parts_passages [of max_chars ?lines ?ws "[]" 0] by auto
  have ok: "windows_ok (length ?lines) (excerpt_windows T topic ?lines context max_windows outcome)
      \<and> length (excerpt_windows T topic ?lines context max_windows outcome) \<le> max 1 max_windows"
    by (rule excerpt_windows_ok)
  have "length ?parts \<le> max 1 max_windows"
    using list_all2_lengthD [OF ws'(2)] list_emb_length [OF ws'(1)] ok by (simp add: sorted_windows_def)
  moreover have "sorted_wrt (\<lambda>u v. snd u \<le> fst v) ws'"
    using sorted_wrt_subseq [OF ws'(1)] sorted_windows_apart ok by blast
  ultimately show ?thesis using False e len ws'(2) by auto
qed

subsection \<open>A concrete excerpt\<close>

definition sample_tables :: dream_tables where
  "sample_tables = \<lparr>tt_casefold = (\<lambda>s. s), tt_word = lower_alnum, tt_digit = ascii_digit, tt_same = (\<lambda>a b. a = b),
     dx_str = (\<lambda>_. []), dx_iso = (\<lambda>_. [])\<rparr>"

lemma sample_phase: "phase_of sample_tables [97, 98, 99] = None" by code_simp
lemma sample_anchors: "anchors sample_tables [97, 98, 99] = [[97, 98, 99]]" by code_simp
lemma sample_relevant: "text_relevant sample_tables [97, 98, 99] x"
  by (simp add: text_relevant_def sample_anchors sample_phase identifier_like_def)

lemma sample_score: "line_score sample_tables [97, 98, 99] [97, 98, 99] = 10"
proof -
  have "tokens_of sample_tables [97, 98, 99] = [[97, 98, 99]]" by code_simp
  moreover have "anchor_aliases [97, 98, 99] = [[97, 98, 99]]" by code_simp
  ultimately show ?thesis by (simp add: line_score_def sample_anchors sample_phase identifier_like_def anchor_matches_def)
qed

lemma sample_excerpt: "topic_excerpt sample_tables [97, 98, 99] [97, 98, 99, 10, 97, 98, 99] 5 0 1 False = Some [97, 98, 99]"
proof -
  have strip: "py_strip [97, 98, 99, 10, 97, 98, 99] = [97, 98, 99, 10, 97, 98, 99]" "py_strip [97, 98, 99] = [97, 98, 99]"
    by (simp_all add: py_strip_def py_lstrip_def py_rstrip_def py_space_def)
  have lines: "nonblank_lines [97, 98, 99, 10, 97, 98, 99] = [[97, 98, 99], [97, 98, 99]]"
    by (simp add: nonblank_lines_def splitlines_def line_break_def strip)
  have ranked: "ranked_lines sample_tables [97, 98, 99] [[97, 98, 99], [97, 98, 99]] = [(10, 0), (10, 1)]"
    by (simp add: ranked_lines_def sample_score)
  have "excerpt_windows sample_tables [97, 98, 99] [[97, 98, 99], [97, 98, 99]] 0 1 False = [(0, 1)]"
    by (simp add: excerpt_windows_def ranked overlaps_def window_around_def sample_relevant)
  then show ?thesis
    by (simp add: topic_excerpt_def strip lines ranked sorted_windows_def separator_length_def clipped_def window_text_def slice_def sample_relevant)
qed

theorem excerpt_is_faithful_witness:
  "\<exists>e. topic_excerpt sample_tables [97, 98, 99] [97, 98, 99, 10, 97, 98, 99] 5 0 1 False = Some e \<and> e \<noteq> [] \<and> length e \<le> 5"
  using excerpt_is_faithful [OF sample_excerpt] sample_excerpt by blast

end
