(* ===== verification/Dream_Planner.thy ===== *)
theory Dream_Planner
  imports Dream_Relevance
begin

text \<open>
  What a dream run reasons about: the topics and time buckets of a session
  (\<^verbatim>\<open>dreaming/planner.py\<close>), the bounded association search
  (\<^verbatim>\<open>dreaming/associative.py\<close>) and the collection of evidence for each topic
  (\<^verbatim>\<open>dreaming/engine.py\<close>). The retriever and the relation search are parameters: calls over
  an abstract state, as the protocols of \<^verbatim>\<open>engine.py\<close> declare them.
\<close>

subsection \<open>Planning a session\<close>

record snippet =
  sn_content :: ustr
  sn_time :: timestamp
  sn_project :: "ustr option"
  sn_evidence :: "ustr option"

record bucket =
  bk_name :: ustr
  bk_start :: "int option"
  bk_end :: int

record dream_plan =
  dp_topics :: "ustr list"
  dp_buckets :: "bucket list"
  dp_start :: int
  dp_end :: int

definition stopwords :: "ustr list" where
  "stopwords =
     [lit ''about'', lit ''above'', lit ''after'', lit ''again'', lit ''all'', lit ''also'', lit ''and'', lit ''any'', lit ''are'',
      lit ''been'', lit ''before'', lit ''being'', lit ''below'', lit ''between'', lit ''both'', lit ''but'', lit ''can'', lit ''down'',
      lit ''during'', lit ''each'', lit ''for'', lit ''from'', lit ''further'', lit ''had'', lit ''has'', lit ''have'', lit ''her'',
      lit ''here'', lit ''his'', lit ''how'', lit ''into'', lit ''its'', lit ''just'', lit ''more'', lit ''most'', lit ''need'',
      lit ''not'', lit ''once'', lit ''only'', lit ''other'', lit ''our'', lit ''out'', lit ''over'', lit ''same'', lit ''some'',
      lit ''such'', lit ''than'', lit ''that'', lit ''the'', lit ''then'', lit ''there'', lit ''these'', lit ''they'', lit ''this'',
      lit ''those'', lit ''through'', lit ''under'', lit ''until'', lit ''using'', lit ''very'', lit ''was'', lit ''were'', lit ''what'',
      lit ''when'', lit ''where'', lit ''which'', lit ''while'', lit ''who'', lit ''why'', lit ''will'', lit ''with'', lit ''would'',
      lit ''you'', lit ''your'']"

text \<open>\<^verbatim>\<open>[A-Za-z0-9][A-Za-z0-9_.-]{2,}\<close>.\<close>

definition ascii_alnum :: "nat \<Rightarrow> bool" where
  "ascii_alnum c \<longleftrightarrow> lower_alnum c \<or> (65 \<le> c \<and> c \<le> 90)"

definition topic_pattern :: pattern where
  "topic_pattern =
     (let more = Chars (\<lambda>c. ascii_alnum c \<or> c = 95 \<or> c = 46 \<or> c = 45)
      in Seq (Chars ascii_alnum) (Seq more (Plus more)))"

definition topic_occurrences :: "'a text_tables_scheme \<Rightarrow> ustr list \<Rightarrow> ustr list \<Rightarrow> (ustr \<times> ustr) list" where
  "topic_occurrences T stop texts =
     filter (\<lambda>(normal, token). normal \<notin> set stop \<and> \<not> list_all ascii_digit normal)
       (map (\<lambda>token. (tt_casefold T token, token)) (concat (map (findall (text_tables.truncate T) topic_pattern) texts)))"

definition extract_topics :: "'a text_tables_scheme \<Rightarrow> ustr list \<Rightarrow> ustr list \<Rightarrow> nat \<Rightarrow> ustr list" where
  "extract_topics T stop texts limit =
     (let found = topic_occurrences T stop texts;
          frequency = (\<lambda>k. int (length (filter (\<lambda>p. fst p = k) found)));
          ranked = sort_key (\<lambda>k. - frequency k) (sort_key (\<lambda>k. k) (fromkeys (map fst found)))
      in map (\<lambda>k. the_default [] (map_of found k)) (take limit ranked))"

definition days_before :: "int \<Rightarrow> int \<Rightarrow> int" where
  "days_before now n = now - n * 86400000000"

definition build_buckets :: "int \<Rightarrow> bucket list" where
  "build_buckets now =
     [\<lparr>bk_name = lit ''older_than_1y'', bk_start = None, bk_end = days_before now 365\<rparr>,
      \<lparr>bk_name = lit ''6_to_12_months'', bk_start = Some (days_before now 365), bk_end = days_before now 180\<rparr>,
      \<lparr>bk_name = lit ''3_to_6_months'', bk_start = Some (days_before now 180), bk_end = days_before now 90\<rparr>,
      \<lparr>bk_name = lit ''1_to_3_months'', bk_start = Some (days_before now 90), bk_end = days_before now 28\<rparr>,
      \<lparr>bk_name = lit ''1_to_4_weeks'', bk_start = Some (days_before now 28), bk_end = days_before now 7\<rparr>,
      \<lparr>bk_name = lit ''last_week'', bk_start = Some (days_before now 7), bk_end = now\<rparr>]"

definition snippet_time :: "timestamp \<Rightarrow> int result" where
  "snippet_time t =
     (case t of Aware i \<Rightarrow> Inr i
      | Naive _ \<Rightarrow> Inl (ValueError (lit ''episode event_time must be timezone-aware'')))"

definition plan_session :: "'a text_tables_scheme \<Rightarrow> ustr list \<Rightarrow> snippet list \<Rightarrow> nat \<Rightarrow> dream_plan result" where
  "plan_session T stop episodes topic_limit =
     (if episodes = [] then Inl (ValueError (lit ''cannot build a dream plan from an empty session''))
      else bindE (mapE (\<lambda>e. snippet_time (sn_time e)) episodes) (\<lambda>times.
        let topics = extract_topics T stop (map sn_content episodes) topic_limit; last_time = Max (set times)
        in if topics = [] then Inl (ValueError (lit ''session did not contain usable focal topics''))
           else Inr \<lparr>dp_topics = topics, dp_buckets = build_buckets last_time,
                  dp_start = Min (set times), dp_end = last_time\<rparr>))"

subsection \<open>Associative recall\<close>

record 's associative =
  as_recall :: "ustr \<Rightarrow> bucket \<Rightarrow> nat \<Rightarrow> ('s, evidence list) io"
  as_depth :: nat
  as_query_limit :: nat
  as_total_limit :: nat

definition make_associative :: "(ustr \<Rightarrow> bucket \<Rightarrow> nat \<Rightarrow> ('s, evidence list) io) \<Rightarrow> int \<Rightarrow> int \<Rightarrow> int \<Rightarrow> 's associative result" where
  "make_associative recall depth per_query max_items =
     (if depth < 0 \<or> 2 < depth then Inl (ValueError (lit ''max_depth must be between 0 and 2''))
      else if per_query < 1 then Inl (ValueError (lit ''per_query_limit must be >= 1''))
      else if max_items < 1 then Inl (ValueError (lit ''total_limit must be >= 1''))
      else Inr \<lparr>as_recall = recall, as_depth = nat depth, as_query_limit = nat per_query, as_total_limit = nat max_items\<rparr>)"

definition query_values :: "'a dream_tables_scheme \<Rightarrow> evidence list \<Rightarrow> ustr list" where
  "query_values D items =
     filter (\<lambda>v. v \<noteq> []) (concat (map (\<lambda>e. [py_strip (meta_text D e ''entity_name''), py_strip (meta_text D e ''topic'')]) items))"

fun association_queries :: "'a dream_tables_scheme \<Rightarrow> ustr list \<Rightarrow> ustr list \<Rightarrow> ustr list \<times> ustr list" where
  "association_queries D [] seen = ([], seen)"
| "association_queries D (v # vs) seen =
     (if tt_casefold D v \<in> set seen then association_queries D vs seen
      else let (queries, seen') = association_queries D vs (tt_casefold D v # seen) in (v # queries, seen'))"

definition tag_association :: "nat \<Rightarrow> ustr \<Rightarrow> evidence \<Rightarrow> evidence" where
  "tag_association depth query e =
     e\<lparr>ev_metadata := json_put (lit ''association_query'') (JStr query)
        (json_put (lit ''association_depth'') (JInt (int depth)) (ev_metadata e))\<rparr>"

text \<open>The state of the search: the ids seen, the result and the next frontier; a full result ends it.\<close>

record expansion =
  ex_seen :: "ustr list"
  ex_result :: "evidence list"
  ex_next :: "evidence list"
  ex_full :: bool

fun take_recalled :: "nat \<Rightarrow> nat \<Rightarrow> ustr \<Rightarrow> evidence list \<Rightarrow> expansion \<Rightarrow> expansion" where
  "take_recalled max_items depth query [] x = x"
| "take_recalled max_items depth query (e # es) x =
     (if ev_id e \<in> set (ex_seen x) then take_recalled max_items depth query es x
      else let tagged = tag_association depth query e;
               x' = x\<lparr>ex_seen := ev_id e # ex_seen x, ex_result := ex_result x @ [tagged], ex_next := ex_next x @ [tagged]\<rparr>
           in if max_items \<le> length (ex_result x') then x'\<lparr>ex_full := True\<rparr>
              else take_recalled max_items depth query es x')"

fun expand_queries :: "'s associative \<Rightarrow> bucket \<Rightarrow> nat \<Rightarrow> ustr list \<Rightarrow> expansion \<Rightarrow> ('s, expansion) io" where
  "expand_queries A b depth [] x = returnS x"
| "expand_queries A b depth (q # qs) x =
     bindS (as_recall A q b (as_query_limit A)) (\<lambda>recalled.
       let x' = take_recalled (as_total_limit A) depth q recalled x
       in if ex_full x' then returnS x' else expand_queries A b depth qs x')"

fun expand_levels :: "'a dream_tables_scheme \<Rightarrow> 's associative \<Rightarrow> bucket \<Rightarrow> nat list \<Rightarrow> evidence list \<Rightarrow> ustr list
    \<Rightarrow> expansion \<Rightarrow> ('s, expansion) io" where
  "expand_levels D A b [] frontier queried x = returnS x"
| "expand_levels D A b (depth # depths) frontier queried x =
     (let (queries, queried') = association_queries D (query_values D frontier) queried
      in if queries = [] then returnS x
         else bindS (expand_queries A b depth queries (x\<lparr>ex_next := []\<rparr>)) (\<lambda>x'.
           if ex_full x' \<or> ex_next x' = [] then returnS x'
           else expand_levels D A b depths (ex_next x') queried' x'))"

definition expand :: "'a dream_tables_scheme \<Rightarrow> 's associative \<Rightarrow> evidence list \<Rightarrow> bucket \<Rightarrow> ('s, evidence list) io" where
  "expand D A seed b =
     (if as_depth A = 0 \<or> seed = [] then returnS []
      else bindS (expand_levels D A b [1..<Suc (as_depth A)] seed []
             \<lparr>ex_seen = map ev_id seed, ex_result = [], ex_next = [], ex_full = False\<rparr>) (\<lambda>x. returnS (ex_result x)))"

subsection \<open>The evidence of a run\<close>

record 's engine =
  en_recall :: "ustr \<Rightarrow> bucket \<Rightarrow> nat \<Rightarrow> ('s, evidence list) io"
  en_associate :: "(evidence list \<Rightarrow> bucket \<Rightarrow> ('s, evidence list) io) option"
  en_relate :: "(evidence list \<Rightarrow> bucket \<Rightarrow> ('s, evidence list) io) option"
  en_limit :: nat

definition session_item :: "'a dream_tables_scheme \<Rightarrow> ustr \<Rightarrow> ustr \<Rightarrow> snippet \<Rightarrow> evidence option" where
  "session_item D session_id topic e =
     (let evidence_id = py_strip (the_default [] (sn_evidence e))
      in if evidence_id = [] then None
         else case topic_excerpt D topic (sn_content e) 3600 3 4 True of
             None \<Rightarrow> None
           | Some excerpt \<Rightarrow> Some \<lparr>ev_id = evidence_id, ev_record_type = lit ''episode'', ev_content = excerpt,
               ev_score = Some 1,
               ev_event_time = (case sn_time e of Aware i \<Rightarrow> Some i | Naive i \<Rightarrow> Some i),
               ev_metadata = JObj ([(lit ''session_id'', JStr session_id), (lit ''source'', JStr (lit ''session_episode'')),
                 (lit ''direct_session'', JBool True)]
                 @ (case sn_project e of None \<Rightarrow> [] | Some p \<Rightarrow> if p = [] then [] else [(lit ''project'', JStr p)]))\<rparr>)"

definition session_evidence :: "'a dream_tables_scheme \<Rightarrow> snippet list \<Rightarrow> ustr \<Rightarrow> ustr \<Rightarrow> evidence list" where
  "session_evidence D episodes session_id topic = List.map_filter (session_item D session_id topic) episodes"

definition normalize_topics :: "'a text_tables_scheme \<Rightarrow> ustr list \<Rightarrow> ustr list result" where
  "normalize_topics T topics =
     (let named = map (\<lambda>v. (tt_casefold T v, v)) (filter (\<lambda>v. v \<noteq> []) (map py_strip topics));
          kept = map (\<lambda>k. the_default [] (map_of named k)) (fromkeys (map fst named))
      in if kept = [] then Inl (ValueError (lit ''focal_topics override must contain at least one non-empty topic''))
         else Inr kept)"

definition stable_session_project :: "'a text_tables_scheme \<Rightarrow> snippet list \<Rightarrow> ustr option" where
  "stable_session_project T episodes =
     (let named = map (\<lambda>v. (tt_casefold T v, v))
            (filter (\<lambda>v. v \<noteq> []) (map (\<lambda>e. py_strip (the_default [] (sn_project e))) episodes))
      in case fromkeys (map fst named) of [k] \<Rightarrow> map_of named k | _ \<Rightarrow> None)"

definition project_of :: "'a dream_tables_scheme \<Rightarrow> evidence \<Rightarrow> ustr" where
  "project_of D e = py_strip (meta_text D e ''project'')"

definition filter_project_scope :: "'a dream_tables_scheme \<Rightarrow> ustr option \<Rightarrow> evidence list \<Rightarrow> evidence list" where
  "filter_project_scope D session_project items =
     (case session_project of
        None \<Rightarrow> items
      | Some p \<Rightarrow> if p = [] then items
          else filter (\<lambda>e. project_of D e = [] \<or> tt_casefold D (project_of D e) = tt_casefold D p) items)"

fun dedupe_evidence :: "ustr list \<Rightarrow> evidence list \<Rightarrow> evidence list" where
  "dedupe_evidence seen [] = []"
| "dedupe_evidence seen (e # es) =
     (if ev_id e \<in> set seen then dedupe_evidence seen es else e # dedupe_evidence (ev_id e # seen) es)"

text \<open>A loop that collects a list from each element.\<close>

primrec gatherS :: "('a \<Rightarrow> ('s, 'b list) io) \<Rightarrow> 'a list \<Rightarrow> ('s, 'b list) io" where
  "gatherS f [] = returnS []"
| "gatherS f (x # xs) = bindS (f x) (\<lambda>ys. bindS (gatherS f xs) (\<lambda>zs. returnS (ys @ zs)))"

definition expanded :: "(evidence list \<Rightarrow> bucket \<Rightarrow> ('s, evidence list) io) option \<Rightarrow> evidence list \<Rightarrow> bucket \<Rightarrow> ('s, evidence list) io" where
  "expanded x seed b = (case x of None \<Rightarrow> returnS [] | Some f \<Rightarrow> f seed b)"

definition bucket_evidence :: "'a dream_tables_scheme \<Rightarrow> 's engine \<Rightarrow> ustr option \<Rightarrow> ustr \<Rightarrow> bucket \<Rightarrow> ('s, evidence list) io" where
  "bucket_evidence D E project topic b =
     bindS (en_recall E topic b (en_limit E)) (\<lambda>recalled.
       let direct = filter_evidence D topic (filter_project_scope D project recalled)
       in bindS (expanded (en_associate E) direct b) (\<lambda>near.
          bindS (expanded (en_relate E) direct b) (\<lambda>related.
            returnS (direct @ filter_evidence D topic (filter_project_scope D project near)
              @ filter_project_scope D project related))))"

definition topic_evidence :: "'a dream_tables_scheme \<Rightarrow> 's engine \<Rightarrow> snippet list \<Rightarrow> ustr \<Rightarrow> bucket list \<Rightarrow> ustr
    \<Rightarrow> ('s, (ustr \<times> evidence list) list) io" where
  "topic_evidence D E episodes session_id buckets topic =
     bindS (gatherS (bucket_evidence D E (stable_session_project D episodes) topic) buckets) (\<lambda>found.
       returnS [(topic, dedupe_evidence [] (session_evidence D episodes session_id topic @ found))])"

text \<open>\<^verbatim>\<open>prepare_request\<close>; the fresh id \<^verbatim>\<open>str(uuid4())\<close> is an argument.\<close>

definition run_topics :: "'a dream_tables_scheme \<Rightarrow> dream_plan \<Rightarrow> ustr list \<Rightarrow> ustr list result" where
  "run_topics D plan focal_topics = (if focal_topics \<noteq> [] then normalize_topics D focal_topics else Inr (dp_topics plan))"

definition prepare_request :: "'a dream_tables_scheme \<Rightarrow> 's engine \<Rightarrow> ustr \<Rightarrow> snippet list \<Rightarrow> ustr \<Rightarrow> nat \<Rightarrow> ustr list
    \<Rightarrow> ('s, reason_request) io" where
  "prepare_request D E fresh episodes session_id topic_limit focal_topics =
     bindS (liftS (plan_session D stopwords episodes topic_limit)) (\<lambda>plan.
     bindS (liftS (run_topics D plan focal_topics)) (\<lambda>topics.
     bindS (gatherS (topic_evidence D E episodes session_id (dp_buckets plan)) topics) (\<lambda>found.
       returnS \<lparr>rq_id = fresh, rq_session = session_id, rq_topics = topics, rq_start = dp_start plan,
         rq_end = dp_end plan, rq_version = lit ''1'', rq_evidence = found\<rparr>)))"
subsection \<open>What a plan and its evidence satisfy\<close>

text \<open>A recalled time lies in a bucket after its start and up to its end.\<close>

definition in_bucket :: "int \<Rightarrow> bucket \<Rightarrow> bool" where
  "in_bucket t b \<longleftrightarrow> (case bk_start b of None \<Rightarrow> True | Some a \<Rightarrow> a < t) \<and> t \<le> bk_end b"

lemma buckets_partition: "length (filter (in_bucket t) (build_buckets now)) = (if t \<le> now then 1 else 0)"
  by (simp add: build_buckets_def in_bucket_def days_before_def)

lemma take_recalled_inv:
  assumes "length (ex_result x) < n" and "distinct (map ev_id (ex_result x))" and "ev_id ` set (ex_result x) \<subseteq> set (ex_seen x)"
    and "I \<subseteq> set (ex_seen x)" and "ev_id ` set (ex_result x) \<inter> I = {}" and "\<not> ex_full x"
  shows "let y = take_recalled n depth q es x in length (ex_result y) \<le> n \<and> distinct (map ev_id (ex_result y))
    \<and> ev_id ` set (ex_result y) \<subseteq> set (ex_seen y) \<and> I \<subseteq> set (ex_seen y) \<and> ev_id ` set (ex_result y) \<inter> I = {}
    \<and> (\<not> ex_full y \<longrightarrow> length (ex_result y) < n)"
  using assms
proof (induction es arbitrary: x)
  case (Cons e es)
  let ?x = "x\<lparr>ex_seen := ev_id e # ex_seen x, ex_result := ex_result x @ [tag_association depth q e],
    ex_next := ex_next x @ [tag_association depth q e]\<rparr>"
  have id: "ev_id (tag_association depth q e) = ev_id e" by (simp add: tag_association_def)
  show ?case
  proof (cases "ev_id e \<in> set (ex_seen x)")
    case True
    then show ?thesis using Cons by (simp add: Let_def)
  next
    case False
    have inv: "distinct (map ev_id (ex_result ?x))" "ev_id ` set (ex_result ?x) \<subseteq> set (ex_seen ?x)"
      "I \<subseteq> set (ex_seen ?x)" "ev_id ` set (ex_result ?x) \<inter> I = {}"
      using False Cons.prems id by auto
    show ?thesis
    proof (cases "n \<le> length (ex_result ?x)")
      case True
      then show ?thesis using False Cons.prems inv by (simp add: Let_def)
    next
      case more: False
      have "length (ex_result ?x) < n" using more by (simp only: not_le)
      from Cons.IH [OF this inv] show ?thesis using False more Cons.prems(6) by (simp add: Let_def)
    qed
  qed
qed (simp add: Let_def)

definition expansion_ok :: "nat \<Rightarrow> ustr set \<Rightarrow> expansion \<Rightarrow> bool" where
  "expansion_ok n I x \<longleftrightarrow> length (ex_result x) \<le> n \<and> distinct (map ev_id (ex_result x))
    \<and> ev_id ` set (ex_result x) \<subseteq> set (ex_seen x) \<and> I \<subseteq> set (ex_seen x) \<and> ev_id ` set (ex_result x) \<inter> I = {}
    \<and> (\<not> ex_full x \<longrightarrow> length (ex_result x) < n)"

lemma take_recalled_ok: "expansion_ok n I x \<Longrightarrow> \<not> ex_full x \<Longrightarrow> expansion_ok n I (take_recalled n depth q es x)"
  using take_recalled_inv [of x n I depth q es] by (simp add: expansion_ok_def Let_def)

lemma expand_queries_ok:
  "expand_queries A b depth qs x s = (Inr y, s') \<Longrightarrow> expansion_ok (as_total_limit A) I x \<Longrightarrow> \<not> ex_full x
     \<Longrightarrow> expansion_ok (as_total_limit A) I y"
proof (induction qs arbitrary: x s)
  case (Cons q qs)
  then obtain recalled s1 where run: "(let x' = take_recalled (as_total_limit A) depth q recalled x
      in if ex_full x' then returnS x' else expand_queries A b depth qs x') s1 = (Inr y, s')"
    by (auto simp: bindS_Inr)
  have ok: "expansion_ok (as_total_limit A) I (take_recalled (as_total_limit A) depth q recalled x)"
    using Cons.prems by (intro take_recalled_ok)
  show ?case
    using run ok Cons.IH [OF _ ok] by (auto simp: Let_def returnS_def split: if_splits)
qed (auto simp: returnS_def)

lemma expand_levels_ok:
  "expand_levels D A b depths frontier queried x s = (Inr y, s') \<Longrightarrow> expansion_ok (as_total_limit A) I x \<Longrightarrow> \<not> ex_full x
     \<Longrightarrow> expansion_ok (as_total_limit A) I y"
proof (induction depths arbitrary: frontier queried x s)
  case (Cons depth depths)
  obtain queries queried' where q: "association_queries D (query_values D frontier) queried = (queries, queried')" by fastforce
  show ?case
  proof (cases "queries = []")
    case True
    then show ?thesis using Cons.prems q by (auto simp: returnS_def)
  next
    case False
    then obtain x' s1 where x': "expand_queries A b depth queries (x\<lparr>ex_next := []\<rparr>) s = (Inr x', s1)"
      and run: "(if ex_full x' \<or> ex_next x' = [] then returnS x'
         else expand_levels D A b depths (ex_next x') queried' x') s1 = (Inr y, s')"
      using Cons.prems(1) q by (auto simp: bindS_Inr)
    have "expansion_ok (as_total_limit A) I (x\<lparr>ex_next := []\<rparr>)" using Cons.prems(2) by (simp add: expansion_ok_def)
    then have ok: "expansion_ok (as_total_limit A) I x'" using expand_queries_ok [OF x'] Cons.prems(3) by simp
    show ?thesis using run ok Cons.IH [OF _ ok] by (auto simp: returnS_def split: if_splits)
  qed
qed (auto simp: returnS_def)

lemma expand_bounded:
  assumes "expand D A seed b s = (Inr items, s')" and "1 \<le> as_total_limit A"
  shows "length items \<le> as_total_limit A \<and> distinct (map ev_id items) \<and> ev_id ` set items \<inter> ev_id ` set seed = {}"
proof (cases "as_depth A = 0 \<or> seed = []")
  case True
  then show ?thesis using assms(1) by (auto simp: expand_def returnS_def)
next
  case False
  let ?x = "\<lparr>ex_seen = map ev_id seed, ex_result = [], ex_next = [], ex_full = False\<rparr>"
  obtain x s1 where run: "expand_levels D A b [1..<Suc (as_depth A)] seed [] ?x s = (Inr x, s1)" and items: "items = ex_result x"
    using assms(1) False by (auto simp: expand_def bindS_Inr returnS_def)
  have "expansion_ok (as_total_limit A) (ev_id ` set seed) ?x" using assms(2) by (simp add: expansion_ok_def)
  from expand_levels_ok [OF run this] show ?thesis by (simp add: items expansion_ok_def)
qed

lemma gatherS_Inr:
  "gatherS f xs s = (Inr zs, s') \<Longrightarrow> z \<in> set zs \<Longrightarrow> \<exists>x \<in> set xs. \<exists>t ys t'. f x t = (Inr ys, t') \<and> z \<in> set ys"
  by (induction xs arbitrary: s zs) (fastforce simp: bindS_Inr returnS_def)+

lemma dedupe_evidence_set: "e \<in> set (dedupe_evidence seen es) \<Longrightarrow> e \<in> set es \<and> ev_id e \<notin> set seen"
  by (induction es arbitrary: seen) (fastforce split: if_splits)+

lemma dedupe_evidence_distinct: "distinct (map ev_id (dedupe_evidence seen es))"
  by (induction es arbitrary: seen) (auto dest: dedupe_evidence_set)

lemma meta_get_put: "k \<noteq> key \<Longrightarrow> meta_get (e\<lparr>ev_content := c, ev_metadata := json_put (lit k) v (ev_metadata e)\<rparr>) key = meta_get e key"
proof -
  assume k: "k \<noteq> key"
  have "map_of (map (\<lambda>(k', v'). (k', if k' = lit k then v else v')) kvs) (lit key) = map_of kvs (lit key)" for kvs
    using k by (induction kvs) (auto simp: lit_eq_iff)
  then show ?thesis using k
    by (cases "ev_metadata e") (auto simp: meta_get_def json_put_def map_add_def lit_eq_iff split: option.split)
qed

definition of_project :: "'a dream_tables_scheme \<Rightarrow> ustr \<Rightarrow> evidence \<Rightarrow> bool" where
  "of_project D p e \<longleftrightarrow> project_of D e = [] \<or> tt_casefold D (project_of D e) = tt_casefold D p"

lemma filter_evidence_project:
  assumes "\<forall>e \<in> set es. of_project D p e" and "e \<in> set (filter_evidence D topic es)"
  shows "of_project D p e"
proof -
  from assms(2) obtain e0 where e0: "e0 \<in> set es" "guarded_item D topic e0 = Some e"
    by (auto simp: filter_evidence_def List.map_filter_def)
  then have "project_of D e = project_of D e0"
    by (auto simp: guarded_item_def project_of_def meta_text_def meta_get_put split: if_splits)
  then show ?thesis using assms(1) e0(1) by (simp add: of_project_def)
qed

lemma filter_project_scope_project:
  "p \<noteq> [] \<Longrightarrow> e \<in> set (filter_project_scope D (Some p) es) \<Longrightarrow> of_project D p e"
  by (auto simp: filter_project_scope_def of_project_def)

lemma stable_project:
  assumes "stable_session_project D episodes = Some p"
  shows "p \<noteq> []" and "e \<in> set episodes \<Longrightarrow> sn_project e = Some q \<Longrightarrow> py_strip q = [] \<or> tt_casefold D (py_strip q) = tt_casefold D p"
proof -
  define vs where "vs = filter (\<lambda>v. v \<noteq> []) (map (\<lambda>e. py_strip (the_default [] (sn_project e))) episodes)"
  define named where "named = map (\<lambda>v. (tt_casefold D v, v)) vs"
  from assms obtain k where k: "fromkeys (map fst named) = [k]" "map_of named k = Some p"
    by (auto simp: stable_session_project_def Let_def named_def vs_def split: list.splits)
  from map_of_SomeD [OF k(2)] have p: "p \<in> set vs" "k = tt_casefold D p" by (auto simp: named_def)
  have all: "tt_casefold D v = k" if "v \<in> set vs" for v
  proof -
    have "tt_casefold D v \<in> set (fromkeys (map fst named))" using that by (simp add: named_def image_image)
    then show ?thesis using k(1) by simp
  qed
  show "p \<noteq> []" using p(1) by (simp add: vs_def)
  show "py_strip q = [] \<or> tt_casefold D (py_strip q) = tt_casefold D p" if "e \<in> set episodes" "sn_project e = Some q"
    using all [of "py_strip q"] p(2) that by (force simp: vs_def)
qed

lemma session_evidence_project:
  assumes "stable_session_project D episodes = Some p" and "e \<in> set (session_evidence D episodes session_id topic)"
  shows "of_project D p e"
proof -
  from assms(2) obtain sn where sn: "sn \<in> set episodes" "session_item D session_id topic sn = Some e"
    by (auto simp: session_evidence_def List.map_filter_def)
  have "project_of D e = (case sn_project sn of None \<Rightarrow> [] | Some q \<Rightarrow> py_strip q)"
    using sn(2) by (auto simp: session_item_def Let_def project_of_def meta_text_def meta_get_def text_or_empty_def json_str_def
        lit_eq_iff py_strip_def py_lstrip_def py_rstrip_def split: if_splits option.splits)
  then show ?thesis using stable_project(2) [OF assms(1) sn(1)] by (auto simp: of_project_def split: option.splits)
qed

lemma bucket_evidence_project:
  assumes "bucket_evidence D E (Some p) topic b s = (Inr es, s')" and "p \<noteq> []" and "e \<in> set es"
  shows "of_project D p e"
proof -
  from assms(1) obtain recalled near related where
    "es = filter_evidence D topic (filter_project_scope D (Some p) recalled)
       @ filter_evidence D topic (filter_project_scope D (Some p) near) @ filter_project_scope D (Some p) related"
    by (auto simp: bucket_evidence_def bindS_Inr returnS_def Let_def)
  moreover have scope: "\<forall>e \<in> set (filter_project_scope D (Some p) xs). of_project D p e" for xs
    using filter_project_scope_project [OF assms(2)] by blast
  moreover have "\<forall>e \<in> set (filter_evidence D topic (filter_project_scope D (Some p) xs)). of_project D p e" for xs
    using filter_evidence_project [OF scope] by blast
  ultimately show ?thesis using assms(3) by auto
qed

lemma gatherS_single:
  assumes "gatherS f xs s = (Inr zs, s')" and "\<And>x t ys t'. f x t = (Inr ys, t') \<Longrightarrow> map fst ys = [x]"
  shows "map fst zs = xs"
  using assms(1)
proof (induction xs arbitrary: s zs)
  case (Cons x xs)
  then obtain ys t ws where "f x s = (Inr ys, t)" "gatherS f xs t = (Inr ws, s')" "zs = ys @ ws"
    by (auto simp: bindS_Inr returnS_def)
  then show ?case using Cons.IH assms(2) by simp
qed (simp add: returnS_def)

lemma distinct_named:
  assumes "\<And>k v. (k, v) \<in> set named \<Longrightarrow> k = f v" and "distinct ks" and "set ks \<subseteq> fst ` set named"
  shows "distinct (map (\<lambda>k. the_default [] (map_of named k)) ks)"
proof -
  have "f (the_default [] (map_of named k)) = k" if "k \<in> set ks" for k
  proof -
    from that assms(3) have "k \<in> fst ` set named" by blast
    then obtain v where v: "map_of named k = Some v" by (metis map_of_eq_None_iff not_None_eq)
    then show ?thesis using assms(1) [OF map_of_SomeD [OF v]] by simp
  qed
  then have "inj_on (\<lambda>k. the_default [] (map_of named k)) (set ks)" by (rule inj_on_inverseI)
  then show ?thesis using assms(2) by (simp add: distinct_map)
qed

lemma extract_topics_distinct: "distinct (extract_topics T stop texts limit)"
  unfolding extract_topics_def Let_def
  by (rule distinct_named [where f = "tt_casefold T"]) (auto simp: topic_occurrences_def image_iff dest: in_set_takeD)

lemma normalize_topics_distinct:
  assumes "normalize_topics T topics = Inr ts"
  shows "distinct ts \<and> ts \<noteq> []"
proof -
  let ?named = "map (\<lambda>v. (tt_casefold T v, v)) (filter (\<lambda>v. v \<noteq> []) (map py_strip topics))"
  have ts: "ts = map (\<lambda>k. the_default [] (map_of ?named k)) (fromkeys (map fst ?named))" "ts \<noteq> []"
    using assms unfolding normalize_topics_def Let_def by (auto split: if_split_asm)
  have "distinct (map (\<lambda>k. the_default [] (map_of ?named k)) (fromkeys (map fst ?named)))"
  proof (rule distinct_named [where f = "tt_casefold T"])
    show "set (fromkeys (map fst ?named)) \<subseteq> fst ` set ?named" by (simp only: set_fromkeys set_map order_refl)
  qed auto
  then show ?thesis using ts by blast
qed

text \<open>
  C27. A prepared request lists evidence for exactly its topics, which are distinct and not
  empty, and no topic cites an id twice. When all episodes of the session that name a project
  name the same one, up to case, no item of another project is in the request: not from
  the session, the retriever, the association search or the relation search.
\<close>

theorem request_stays_in_project:
  assumes "prepare_request D E fresh episodes session_id topic_limit focal s = (Inr rq, s')"
  shows "map fst (rq_evidence rq) = rq_topics rq \<and> rq_topics rq \<noteq> [] \<and> distinct (rq_topics rq) \<and> rq_start rq \<le> rq_end rq
    \<and> (\<forall>(topic, items) \<in> set (rq_evidence rq). distinct (map ev_id items)
         \<and> (\<forall>p. stable_session_project D episodes = Some p \<longrightarrow> (\<forall>e \<in> set items. of_project D p e)))"
proof -
  from assms obtain plan topics found where plan: "plan_session D stopwords episodes topic_limit = Inr plan"
    and topics: "run_topics D plan focal = Inr topics"
    and found: "gatherS (topic_evidence D E episodes session_id (dp_buckets plan)) topics s = (Inr found, s')"
    and rq: "rq_evidence rq = found" "rq_topics rq = topics" "rq_start rq = dp_start plan" "rq_end rq = dp_end plan"
    by (auto simp: prepare_request_def bindS_Inr returnS_def)
  obtain times where ts: "mapE (\<lambda>e. snippet_time (sn_time e)) episodes = Inr times" "episodes \<noteq> []"
    and times: "dp_start plan = Min (set times)" "dp_end plan = Max (set times)"
    "dp_topics plan = extract_topics D stopwords (map sn_content episodes) topic_limit" "dp_topics plan \<noteq> []"
    using plan by (auto simp: plan_session_def Let_def split: if_splits)
  have "times \<noteq> []" using mapE_length [OF ts(1)] ts(2) by auto
  then have order: "Min (set times) \<le> Max (set times)" by (metis List.finite_set Max_ge Min_in set_empty)
  have one: "map fst ys = [topic]" if "topic_evidence D E episodes session_id bs topic t = (Inr ys, t')" for bs topic t ys t'
    using that by (auto simp: topic_evidence_def bindS_Inr returnS_def)
  have named: "distinct topics \<and> topics \<noteq> []"
  proof (cases "focal = []")
    case True
    then have "topics = dp_topics plan" using topics by (simp add: run_topics_def)
    then show ?thesis using times(3,4) extract_topics_distinct [of D stopwords "map sn_content episodes" topic_limit] by metis
  next
    case False
    then show ?thesis using topics normalize_topics_distinct [of D focal topics] by (simp add: run_topics_def)
  qed
  have items: "distinct (map ev_id items) \<and> (\<forall>p. stable_session_project D episodes = Some p \<longrightarrow> (\<forall>e \<in> set items. of_project D p e))"
    if mem: "(topic, items) \<in> set found" for topic items
  proof -
    obtain t ys t' where "topic_evidence D E episodes session_id (dp_buckets plan) topic t = (Inr ys, t')" "(topic, items) \<in> set ys"
      using gatherS_Inr [OF found mem] one by fastforce
    then obtain t1 es where es: "gatherS (bucket_evidence D E (stable_session_project D episodes) topic) (dp_buckets plan) t = (Inr es, t1)"
      and items: "items = dedupe_evidence [] (session_evidence D episodes session_id topic @ es)"
      by (auto simp: topic_evidence_def bindS_Inr returnS_def)
    have "of_project D p e" if p: "stable_session_project D episodes = Some p" and e: "e \<in> set items" for p e
    proof -
      from e items have "e \<in> set (session_evidence D episodes session_id topic) \<or> e \<in> set es" by (auto dest: dedupe_evidence_set)
      then show ?thesis
      proof
        assume "e \<in> set es"
        with gatherS_Inr [OF es] obtain b t ys t' where
          "bucket_evidence D E (Some p) topic b t = (Inr ys, t')" "e \<in> set ys" unfolding p by blast
        then show ?thesis by (rule bucket_evidence_project [OF _ stable_project(1) [OF p]])
      qed (rule session_evidence_project [OF p])
    qed
    moreover have "distinct (map ev_id items)" unfolding items by (rule dedupe_evidence_distinct)
    ultimately show ?thesis by blast
  qed
  have fst: "map fst found = topics" by (rule gatherS_single [OF found one])
  have order: "dp_start plan \<le> dp_end plan" using order times(1,2) by simp
  show ?thesis unfolding rq
  proof (intro conjI)
    show "\<forall>(topic, items) \<in> set found. distinct (map ev_id items)
        \<and> (\<forall>p. stable_session_project D episodes = Some p \<longrightarrow> (\<forall>e \<in> set items. of_project D p e))"
      using items by blast
  qed (use fst order named in blast)+
qed
subsection \<open>A concrete run\<close>

definition sample_evidence :: "nat \<Rightarrow> ustr \<Rightarrow> evidence" where
  "sample_evidence i project = \<lparr>ev_id = [i], ev_record_type = lit ''episode'', ev_content = lit ''abc'', ev_score = None,
     ev_event_time = Some 5, ev_metadata = JObj [(lit ''project'', JStr project)]\<rparr>"

definition sample_engine :: "unit engine" where
  "sample_engine = \<lparr>en_recall = (\<lambda>_ _ _. returnS [sample_evidence 3 [112], sample_evidence 4 [113]]), en_associate = None,
     en_relate = None, en_limit = 5\<rparr>"

definition sample_snippet :: snippet where
  "sample_snippet = \<lparr>sn_content = lit ''abc'', sn_time = Aware 7, sn_project = Some [112], sn_evidence = Some [101]\<rparr>"

lemma sample_topics: "extract_topics sample_tables stopwords [[97, 98, 99]] 3 = [[97, 98, 99]]" by code_simp

lemma sample_project: "project_of sample_tables (sample_evidence i p) = py_strip p"
  by (simp add: project_of_def meta_text_def meta_get_def text_or_empty_def json_str_def sample_evidence_def lit_eq_iff py_strip_def
      py_lstrip_def py_rstrip_def)

lemma sample_scoped: "filter_project_scope sample_tables (Some [112]) [sample_evidence 3 [112], sample_evidence 4 [113]] = [sample_evidence 3 [112]]"
  by (simp add: filter_project_scope_def sample_project py_strip_def py_lstrip_def py_rstrip_def py_space_def)
    (simp add: sample_tables_def)

lemma sample_kept: "filter_evidence sample_tables [97, 98, 99] [sample_evidence 3 [112]] = [sample_evidence 3 [112]]"
  by (simp add: filter_evidence_def List.map_filter_def guarded_item_def evidence_relevant_def sample_relevant)
    (simp add: sample_evidence_def lit_def)

lemma sample_bucket: "bucket_evidence sample_tables sample_engine (Some [112]) [97, 98, 99] b () = (Inr [sample_evidence 3 [112]], ())"
proof -
  have none: "filter_project_scope sample_tables (Some [112]) [] = []" "filter_evidence sample_tables [97, 98, 99] [] = []"
    by (simp_all add: filter_project_scope_def filter_evidence_def List.map_filter_def)
  show ?thesis by (simp add: bucket_evidence_def sample_engine_def expanded_def sample_scoped sample_kept none, simp add: returnS_def)
qed

lemma sample_stable: "stable_session_project sample_tables [sample_snippet] = Some [112]"
  by (simp add: stable_session_project_def sample_snippet_def py_strip_def py_lstrip_def py_rstrip_def py_space_def)

lemma sample_plan: "plan_session sample_tables stopwords [sample_snippet] 3
    = Inr \<lparr>dp_topics = [[97, 98, 99]], dp_buckets = build_buckets 7, dp_start = 7, dp_end = 7\<rparr>"
  by (simp add: plan_session_def sample_snippet_def snippet_time_def lit_def sample_topics)

theorem request_stays_in_project_witness:
  "\<exists>rq items. prepare_request sample_tables sample_engine [114] [sample_snippet] [115] 3 [] () = (Inr rq, ())
     \<and> rq_evidence rq = [([97, 98, 99], items)] \<and> sample_evidence 3 [112] \<in> set items \<and> list_all (of_project sample_tables [112]) items"
proof -
  have g: "gatherS (bucket_evidence sample_tables sample_engine (Some [112]) [97, 98, 99]) (build_buckets 7) ()
      = (Inr [sample_evidence 3 [112], sample_evidence 3 [112], sample_evidence 3 [112], sample_evidence 3 [112], sample_evidence 3 [112], sample_evidence 3 [112]], ())"
    unfolding build_buckets_def by (simp add: bindS_def returnS_def sample_bucket)
  obtain e where se: "session_evidence sample_tables [sample_snippet] [115] [97, 98, 99] = [e]" "ev_id e = [101]"
    by (simp add: session_evidence_def List.map_filter_def session_item_def sample_snippet_def lit_def topic_excerpt_def Let_def
        sample_relevant py_strip_def py_lstrip_def py_rstrip_def py_space_def)
  have run: "prepare_request sample_tables sample_engine [114] [sample_snippet] [115] 3 [] ()
      = (Inr \<lparr>rq_id = [114], rq_session = [115], rq_topics = [[97, 98, 99]], rq_start = 7, rq_end = 7, rq_version = lit ''1'',
          rq_evidence = [([97, 98, 99], [e, sample_evidence 3 [112]])]\<rparr>, ())"
    unfolding prepare_request_def sample_plan bindS_liftS run_topics_def
    by (simp add: topic_evidence_def sample_stable bindS_def returnS_def g se, simp add: sample_evidence_def se(2))
  from request_stays_in_project [OF run] have "list_all (of_project sample_tables [112]) [e, sample_evidence 3 [112]]"
    using sample_stable by (simp add: list_all_iff)
  with run show ?thesis by simp
qed

end
