(* ===== verification/Dream_Reasoning.thy ===== *)
theory Dream_Reasoning
  imports Dream_Planner Reason_Inbox
begin

text \<open>
  Reasoning over a prepared request: the decomposition into small tasks and the assembly of
  their results (\<^verbatim>\<open>dreaming/orchestration.py\<close>, \<^verbatim>\<open>dreaming/reasoner.py\<close>), and the run that offers
  the tasks in the inbox, waits for consumers and falls back for what is left
  (\<^verbatim>\<open>dreaming/run_reasoner.py\<close>). The other parties, the passing of time and the fallback
  reasoner act on the same world and are parameters. A task and its serialized form
  hold the same fields and are one record. Durations are real numbers of seconds.
\<close>

subsection \<open>Decomposition into tasks\<close>

record multipass_policy =
  mp_evidence :: nat
  mp_current :: nat
  mp_lesson :: nat
  mp_caveat :: nat

definition default_multipass :: multipass_policy where
  "default_multipass = \<lparr>mp_evidence = 4, mp_current = 2, mp_lesson = 2, mp_caveat = 2\<rparr>"

definition replacement_markers :: "ustr list" where
  "replacement_markers =
     [lit ''removed'',
      lit ''replaced'',
      lit ''deprecated'',
      [108, 111, 7841, 105, 32, 98, 7887],
      [116, 104, 97, 121, 32, 98, 7857, 110, 103],
      [107, 104, 244, 110, 103, 32, 100, 249, 110, 103, 32, 110, 7919, 97]]"

definition caveat_markers :: "ustr list" where
  "caveat_markers =
     [lit ''caveat'',
      [108, 432, 117, 32, 253],
      lit ''unresolved'',
      [273, 97, 110, 103, 32, 116, 7855, 116],
      lit ''fail'',
      lit ''failed'',
      [107, 104, 244, 110, 103, 32, 112, 104, 7843, 105, 32, 114, 101, 103, 114, 101, 115, 115, 105, 111, 110]]"

definition validation_markers :: "ustr list" where
  "validation_markers =
     [lit ''validate'',
      lit ''validation'',
      lit ''validated'',
      lit ''production_mode'',
      lit ''production mode'']"

definition decision_markers :: "ustr list" where
  "decision_markers =
     [lit ''decision'',
      [113, 117, 121, 7871, 116, 32, 273, 7883, 110, 104],
      lit ''llm'',
      lit ''script'',
      lit ''engine'',
      lit ''architecture'',
      [107, 105, 7871, 110, 32, 116, 114, 250, 99]]"

fun kind_value :: "task_kind \<Rightarrow> ustr" where
  "kind_value CURRENT_STATE = lit ''current_state''"
| "kind_value SUPERSEDED_OR_REMOVED = lit ''superseded_or_removed''"
| "kind_value DURABLE_LESSON = lit ''durable_lesson''"
| "kind_value CAVEAT = lit ''caveat''"

fun instruction_of :: "task_kind \<Rightarrow> ustr" where
  "instruction_of CURRENT_STATE = lit ''Extract one current supported fact. No advice or future plan.''"
| "instruction_of SUPERSEDED_OR_REMOVED =
     lit ''State one explicit removed, replaced, or superseded fact and its replacement if present.''"
| "instruction_of DURABLE_LESSON =
     lit ''Infer one established durable lesson supported by the supplied evidence. Do not recommend future work.''"
| "instruction_of CAVEAT =
     lit ''Extract only the unresolved caveat explicitly present in this evidence. Do not interpret completed work as unresolved.''"

text \<open>Oldest first; items without a time come last.\<close>

definition ordered_evidence :: "'a dream_tables_scheme \<Rightarrow> evidence list \<Rightarrow> evidence list" where
  "ordered_evidence D es =
     sort_key (\<lambda>e. if ev_event_time e = None then 1 else 0 :: nat)
       (sort_key (\<lambda>e. case ev_event_time e of None \<Rightarrow> [] | Some t \<Rightarrow> dx_iso D t) es)"

definition matching_evidence :: "'a text_tables_scheme \<Rightarrow> evidence list \<Rightarrow> ustr list \<Rightarrow> evidence list" where
  "matching_evidence T es markers = filter (\<lambda>e. list_ex (\<lambda>m. contains m (tt_casefold T (ev_content e))) markers) es"

definition pairwise_evidence :: "evidence list \<Rightarrow> nat \<Rightarrow> evidence list list" where
  "pairwise_evidence items limit =
     (case items of [] \<Rightarrow> [] | [e] \<Rightarrow> [[e]]
      | _ \<Rightarrow> map (\<lambda>i. [items ! i, items ! Suc i]) [0..<min limit (length items - 1)])"

definition lesson_pairs :: "multipass_policy \<Rightarrow> evidence list \<Rightarrow> evidence list list" where
  "lesson_pairs p sources = (if 2 \<le> length sources then pairwise_evidence sources (mp_lesson p) else [])"

definition topic_tasks :: "'a dream_tables_scheme \<Rightarrow> multipass_policy \<Rightarrow> evidence list \<Rightarrow> (task_kind \<times> evidence list) list" where
  "topic_tasks D p es =
     (if es = [] then []
      else let ordered = ordered_evidence D es; latest = take (mp_evidence p) (rev ordered);
             replacement = matching_evidence D ordered replacement_markers;
             sources = dedupe_evidence [] (matching_evidence D ordered decision_markers
               @ matching_evidence D ordered validation_markers @ latest)
        in map (\<lambda>i. (CURRENT_STATE, take 2 (drop i latest))) [0..<min (mp_current p) (length latest)]
           @ (if replacement = [] then [] else [(SUPERSEDED_OR_REMOVED, take (mp_evidence p) replacement)])
           @ map (\<lambda>pair. (DURABLE_LESSON, pair)) (lesson_pairs p sources)
           @ map (\<lambda>e. (CAVEAT, [e])) (take (mp_caveat p) (matching_evidence D ordered caveat_markers)))"

definition task_name :: "ustr \<Rightarrow> nat \<Rightarrow> task_kind \<Rightarrow> ustr" where
  "task_name request_id n kind = request_id @ [58] @ py_str_nat n @ [58] @ kind_value kind"

definition make_task :: "reason_request \<Rightarrow> nat \<times> ustr \<times> task_kind \<times> evidence list \<Rightarrow> task_request" where
  "make_task rq = (\<lambda>(n, topic, kind, es).
     \<lparr>rt_task_id = task_name (rq_id rq) n kind, rt_request_id = rq_id rq, rt_topic = topic, rt_kind = kind,
      rt_instruction = instruction_of kind, rt_evidence = es\<rparr>)"

definition evidence_for :: "reason_request \<Rightarrow> ustr \<Rightarrow> evidence list" where
  "evidence_for rq topic = the_default [] (map_of (rq_evidence rq) topic)"

definition build_tasks :: "'a dream_tables_scheme \<Rightarrow> multipass_policy \<Rightarrow> reason_request \<Rightarrow> task_request list" where
  "build_tasks D p rq =
     map (make_task rq) (enumerate 1 (concat (map (\<lambda>topic. map (\<lambda>spec. (topic, spec)) (topic_tasks D p (evidence_for rq topic)))
       (rq_topics rq))))"

subsection \<open>Assembly of the results\<close>

definition check_claim :: "task_request \<Rightarrow> task_claim \<Rightarrow> unit result" where
  "check_claim t c =
     (if py_strip (tc_claim c) = [] then Inl (ValueError (lit ''micro reasoner returned an empty claim''))
      else if \<not> (0 \<le> tc_confidence c \<and> tc_confidence c \<le> 1)
      then Inl (ValueError (lit ''micro reasoner confidence must be within [0,1]''))
      else if tc_evidence_ids c = [] then Inl (ValueError (lit ''micro reasoner claim must cite evidence''))
      else if \<not> set (tc_evidence_ids c) \<subseteq> ev_id ` set (rt_evidence t)
      then Inl (ValueError (lit ''micro reasoner fabricated evidence IDs''))
      else Inr ())"

definition advice_markers :: "ustr list" where
  "advice_markers =
     [[110, 234, 110, 32],
      [273, 7873, 32, 120, 117, 7845, 116],
      lit ''recommend'',
      lit ''should '']"

definition contains_advice :: "'a text_tables_scheme \<Rightarrow> ustr \<Rightarrow> bool" where
  "contains_advice T claim = list_ex (\<lambda>m. contains m (tt_casefold T claim)) advice_markers"

text \<open>Runs of other characters become one underscore, and none is left at the ends.\<close>

definition entity_label :: "'a text_tables_scheme \<Rightarrow> ustr \<Rightarrow> task_kind \<Rightarrow> nat \<Rightarrow> ustr" where
  "entity_label T topic kind index =
     (let words = tokens_of T topic; parts = filter (\<lambda>w. w \<notin> set stopwords) words;
          base = (if parts \<noteq> [] then join [95] parts else if words \<noteq> [] then join [95] words else lit ''topic'');
          named = (if base \<in> set stopwords \<or> length base < 2 then lit ''topic'' else base)
      in named @ [95] @ kind_value kind @ [95] @ py_str_nat (index + 1))"

fun candidate_class :: "task_kind \<Rightarrow> ustr \<times> classification \<times> bool" where
  "candidate_class CURRENT_STATE = (lit ''fact'', NEW_KNOWLEDGE, False)"
| "candidate_class SUPERSEDED_OR_REMOVED = (lit ''rejected_approach'', REJECTED_APPROACH, True)"
| "candidate_class DURABLE_LESSON = (lit ''lesson'', NEW_KNOWLEDGE, False)"
| "candidate_class CAVEAT = (lit ''caveat'', CONTEXT_DEPENDENT, False)"

definition candidate_of :: "'a text_tables_scheme \<Rightarrow> task_request \<Rightarrow> nat \<Rightarrow> task_claim \<Rightarrow> reason_candidate" where
  "candidate_of T t index c =
     (case candidate_class (rt_kind t) of (entity_type, classified, negative) \<Rightarrow>
       \<lparr>rc_entity_name = entity_label T (rt_topic t) (rt_kind t) index, rc_entity_type = entity_type,
        rc_summary = take 180 (tc_claim c), rc_content = tc_claim c, rc_evidence_ids = tc_evidence_ids c,
        rc_confidence = tc_confidence c, rc_classification = classified, rc_negative = negative,
        rc_context = JObj [(lit ''reasoning_section'', JStr (kind_value (rt_kind t))),
          (lit ''task_id'', JStr (rt_task_id t)), (lit ''topic'', JStr (rt_topic t))]\<rparr>)"

datatype judged = Kept reason_candidate | Advice | Irrelevant

definition judge_claim :: "'a text_tables_scheme \<Rightarrow> task_request \<Rightarrow> nat \<times> task_claim \<Rightarrow> judged result" where
  "judge_claim T t = (\<lambda>(index, c). bindE (check_claim t c) (\<lambda>_.
     Inr (if contains_advice T (tc_claim c) then Advice
          else if \<not> claim_relevant T (rt_topic t) (tc_claim c) then Irrelevant
          else Kept (candidate_of T t index c))))"

definition judge_task :: "'a text_tables_scheme \<Rightarrow> task_result list \<Rightarrow> task_request \<Rightarrow> judged list result" where
  "judge_task T results t =
     (case find (\<lambda>r. tr_task_id r = rt_task_id t) results of
        None \<Rightarrow> Inl (KeyError (rt_task_id t))
      | Some r \<Rightarrow> mapE (judge_claim T t) (enumerate 0 (tr_claims r)))"

definition count_note :: "string \<Rightarrow> nat \<Rightarrow> ustr list" where
  "count_note label n = (if n = 0 then [] else [lit label @ [61] @ py_str_nat n])"

definition kept_candidates :: "judged list \<Rightarrow> reason_candidate list" where
  "kept_candidates js = concat (map (\<lambda>j. case j of Kept c \<Rightarrow> [c] | _ \<Rightarrow> []) js)"

definition assemble :: "'a text_tables_scheme \<Rightarrow> reason_request \<Rightarrow> task_request list \<Rightarrow> task_result list \<Rightarrow> reason_result result" where
  "assemble T rq tasks results =
     (if \<not> distinct (map rt_task_id tasks) then Inl (ValueError (lit ''duplicate reasoning task IDs''))
      else if \<not> distinct (map tr_task_id results) then Inl (ValueError (lit ''duplicate micro reasoner result task IDs''))
      else if set (map rt_task_id tasks) \<noteq> set (map tr_task_id results)
      then Inl (ValueError (lit ''micro reasoner result task set mismatch''))
      else bindE (mapE (judge_task T results) tasks) (\<lambda>judged.
        let js = concat judged
        in Inr \<lparr>rr_request_id = rq_id rq, rr_candidates = kept_candidates js,
             rr_notes = [lit ''multipass_tasks='' @ py_str_nat (length tasks)]
               @ count_note ''dropped_advice_claims'' (length (filter (\<lambda>j. j = Advice) js))
               @ count_note ''dropped_irrelevant_claims'' (length (filter (\<lambda>j. j = Irrelevant) js))\<rparr>))"

text \<open>A list comprehension over calls that act on a state.\<close>

primrec mapS :: "('a \<Rightarrow> ('s, 'b) io) \<Rightarrow> 'a list \<Rightarrow> ('s, 'b list) io" where
  "mapS f [] = returnS []"
| "mapS f (x # xs) = bindS (f x) (\<lambda>y. bindS (mapS f xs) (\<lambda>ys. returnS (y # ys)))"

text \<open>\<^verbatim>\<open>MultipassDreamReasoner.reason\<close> with a micro reasoner that answers every task.\<close>

definition multipass_reason :: "'a dream_tables_scheme \<Rightarrow> multipass_policy \<Rightarrow> (task_request \<Rightarrow> ('s, task_result) io)
    \<Rightarrow> reason_request \<Rightarrow> ('s, reason_result) io" where
  "multipass_reason D p micro rq =
     (let tasks = build_tasks D p rq
      in bindS (mapS micro tasks) (\<lambda>results. liftS (assemble D rq tasks results)))"

subsection \<open>A run: the inbox first, then the fallback\<close>

record dream_world =
  dw_inbox :: inbox
  dw_mono :: real
  dw_now :: int

text \<open>
  \<open>mr_pass d\<close> is what happens while at least \<open>d\<close> seconds pass: other parties use the inbox,
  the clocks advance. It separates any two steps of the run. \<open>mr_json\<close> serializes the request.
\<close>

record mcp_reasoner =
  mr_tables :: dream_tables
  mr_policy :: multipass_policy
  mr_unicode :: unicode_tables
  mr_ctx :: "caller_authority option"
  mr_json :: "reason_request \<Rightarrow> json"
  mr_wait :: real
  mr_poll :: real
  mr_pass :: "real \<Rightarrow> dream_world \<Rightarrow> dream_world"
  mr_fallback :: "task_request \<Rightarrow> (dream_world, task_result) io"

definition make_mcp_reasoner :: "mcp_reasoner \<Rightarrow> mcp_reasoner result" where
  "make_mcp_reasoner R =
     (if mr_wait R < 0 then Inl (ValueError (lit ''wait_seconds must be >= 0''))
      else if mr_poll R \<le> 0 then Inl (ValueError (lit ''poll_seconds must be > 0''))
      else Inr R)"

definition read_clock :: "mcp_reasoner \<Rightarrow> dream_world \<Rightarrow> real \<times> dream_world" where
  "read_clock R w = (let w' = mr_pass R 0 w in (dw_mono w', w'))"

text \<open>A call of the inbox, and one that only reads it.\<close>

definition call_inbox :: "mcp_reasoner \<Rightarrow> (int \<Rightarrow> inbox \<Rightarrow> ('a \<times> inbox) result) \<Rightarrow> (dream_world, 'a) io" where
  "call_inbox R f w =
     (let w' = mr_pass R 0 w
      in case f (dw_now w') (dw_inbox w') of
           Inl e \<Rightarrow> (Inl e, w')
         | Inr (x, inbox') \<Rightarrow> (Inr x, w'\<lparr>dw_inbox := inbox'\<rparr>))"

definition read_inbox :: "mcp_reasoner \<Rightarrow> (inbox \<Rightarrow> 'a result) \<Rightarrow> (dream_world, 'a) io" where
  "read_inbox R f = call_inbox R (\<lambda>now s. bindE (f s) (\<lambda>x. Inr (x, s)))"

definition all_completed :: "mcp_reasoner \<Rightarrow> ustr \<Rightarrow> (dream_world, bool) io" where
  "all_completed R request_id =
     bindS (read_inbox R (run_tasks (mr_unicode R) (mr_ctx R) request_id)) (\<lambda>states.
       returnS (states \<noteq> [] \<and> list_all (\<lambda>st. st_status st = TASK_COMPLETED) states))"

text \<open>The wait, which returns nothing when it does not end.\<close>

partial_function (option) wait_loop :: "mcp_reasoner \<Rightarrow> ustr \<Rightarrow> real \<Rightarrow> dream_world \<Rightarrow> (unit result \<times> dream_world) option" where
  "wait_loop R request_id deadline w =
     (let (t1, w1) = read_clock R w
      in if \<not> t1 < deadline then Some (Inr (), w1)
         else case all_completed R request_id w1 of
             (Inl e, w2) \<Rightarrow> Some (Inl e, w2)
           | (Inr completed, w2) \<Rightarrow>
               if completed then Some (Inr (), w2)
               else let (t3, w3) = read_clock R w2; remaining = deadline - t3
                    in if remaining \<le> 0 then Some (Inr (), w3)
                       else wait_loop R request_id deadline (mr_pass R (min (mr_poll R) remaining) w3))"

definition fallback_route :: ustr where
  "fallback_route = lit ''fallback-router''"

definition resolve_state :: "mcp_reasoner \<Rightarrow> task_request \<Rightarrow> task_state \<Rightarrow> (dream_world, task_result) io" where
  "resolve_state R t st =
     (if st_status st = TASK_COMPLETED \<and> st_result st \<noteq> None then returnS (the (st_result st))
      else bindS (mr_fallback R t) (\<lambda>r.
             call_inbox R (\<lambda>now. complete_fallback now (rt_task_id t) r fallback_route)))"

definition resolve_task :: "mcp_reasoner \<Rightarrow> task_request \<Rightarrow> (dream_world, task_result) io" where
  "resolve_task R t =
     bindS (read_inbox R (get_task_state (mr_unicode R) (mr_ctx R) (rt_task_id t))) (\<lambda>state.
       case state of
         None \<Rightarrow> raiseS (RuntimeError (lit ''reason task disappeared from inbox''))
       | Some st \<Rightarrow> resolve_state R t st)"

text \<open>\<^verbatim>\<open>timedelta(seconds=x)\<close> in microseconds, ties to even.\<close>

definition timedelta_us :: "real \<Rightarrow> int" where
  "timedelta_us x =
     round_even (x * 1000000)"

definition resolve_tasks :: "mcp_reasoner \<Rightarrow> reason_request \<Rightarrow> task_request list \<Rightarrow> (dream_world, reason_result) io" where
  "resolve_tasks R rq tasks =
     bindS (mapS (resolve_task R) tasks) (\<lambda>results.
       liftS (assemble (mr_tables R) rq tasks results))"

definition register_tasks :: "mcp_reasoner \<Rightarrow> reason_request \<Rightarrow> task_request list \<Rightarrow> (dream_world, unit) io" where
  "register_tasks R rq tasks =
     call_inbox R (\<lambda>now s. bindE (register_run (mr_unicode R) (mr_ctx R) now (rq_id rq) (mr_json R rq) tasks
       (timedelta_us (mr_wait R)) s) (\<lambda>s'. Inr ((), s')))"

definition reason :: "mcp_reasoner \<Rightarrow> reason_request \<Rightarrow> dream_world \<Rightarrow> (reason_result result \<times> dream_world) option" where
  "reason R rq w =
     (let tasks = build_tasks (mr_tables R) (mr_policy R) rq
      in case register_tasks R rq tasks w of
           (Inl e, w1) \<Rightarrow> Some (Inl e, w1)
         | (Inr _, w1) \<Rightarrow>
             let (t, w2) = read_clock R w1
             in case (if tasks = [] then Some (Inr (), w2) else wait_loop R (rq_id rq) (t + mr_wait R) w2) of
                  None \<Rightarrow> None
                | Some (Inl e, w3) \<Rightarrow> Some (Inl e, w3)
                | Some (Inr _, w3) \<Rightarrow> Some (resolve_tasks R rq tasks w3))"
subsection \<open>The tasks of a request\<close>

lemma task_name_eq: "task_name i m k = task_name i n k' \<Longrightarrow> m = n"
proof -
  assume "task_name i m k = task_name i n k'"
  then have eq: "py_str_nat m @ 58 # kind_value k = py_str_nat n @ 58 # kind_value k'" by (simp add: task_name_def)
  have t: "takeWhile (\<lambda>c. c \<noteq> 58) (py_str_nat j @ 58 # x) = py_str_nat j" for j x
    using py_str_nat_digits [of j] by (subst takeWhile_append2) fastforce+
  from arg_cong [OF eq, of "takeWhile (\<lambda>c. c \<noteq> 58)"] show "m = n" unfolding t by simp
qed

lemma task_name_strip: "py_strip i = i \<Longrightarrow> i \<noteq> [] \<Longrightarrow> py_strip (task_name i n k) = task_name i n k"
proof (rule py_strip_id)
  assume i: "py_strip i = i" "i \<noteq> []"
  then show "\<not> py_space (hd (task_name i n k))" using py_strip_hd [of i] by (simp add: task_name_def)
  show "\<not> py_space (last (task_name i n k))" by (cases k) (simp_all add: task_name_def lit_def py_space_def)
qed (simp add: task_name_def)

lemma build_tasks_request: "t \<in> set (build_tasks D p rq) \<Longrightarrow> rt_request_id t = rq_id rq"
  by (auto simp: build_tasks_def make_task_def)

lemma build_tasks_distinct: "distinct (map rt_task_id (build_tasks D p rq))"
proof -
  let ?xs = "concat (map (\<lambda>topic. map (\<lambda>spec. (topic, spec)) (topic_tasks D p (evidence_for rq topic))) (rq_topics rq))"
  have "inj_on (\<lambda>x. rt_task_id (make_task rq x)) (set (enumerate 1 ?xs))"
  proof (rule inj_onI)
    fix x y assume xy: "x \<in> set (enumerate 1 ?xs)" "y \<in> set (enumerate 1 ?xs)"
      "rt_task_id (make_task rq x) = rt_task_id (make_task rq y)"
    obtain m a b c n a' b' c' where s: "x = (m, a, b, c)" "y = (n, a', b', c')" by (cases x; cases y) auto
    from xy(3) have "m = n" by (simp add: s make_task_def task_name_eq)
    with xy(1,2) show "x = y" by (auto simp: s in_set_enumerate_eq)
  qed
  then show ?thesis by (simp add: build_tasks_def distinct_map comp_def)
qed

lemma enumerate_mem: "(n, x) \<in> set (enumerate k xs) \<Longrightarrow> x \<in> set xs"
  unfolding enumerate_eq_zip by (rule set_zip_rightD)

lemma set_matching: "set (matching_evidence T es ms) \<subseteq> set es"
  by (auto simp: matching_evidence_def)

lemma set_ordered [simp]: "set (ordered_evidence D es) = set es"
  by (simp add: ordered_evidence_def)

lemma pairwise_many: "2 \<le> length items \<Longrightarrow>
    pairwise_evidence items n = map (\<lambda>i. [items ! i, items ! Suc i]) [0..<min n (length items - 1)]"
  by (cases items; cases "tl items") (simp_all add: pairwise_evidence_def)

lemma pairwise_bounds:
  assumes "2 \<le> length items" and "pair \<in> set (pairwise_evidence items n)"
  shows "pair \<noteq> [] \<and> length pair \<le> 2 \<and> set pair \<subseteq> set items"
  using assms(2) unfolding pairwise_many [OF assms(1)] by auto

lemma length_pairwise: "2 \<le> length items \<Longrightarrow> length (pairwise_evidence items n) \<le> n"
  by (simp add: pairwise_many)

lemma topic_tasks_bounds:
  assumes "(kind, ev) \<in> set (topic_tasks D p es)" and "1 \<le> mp_evidence p"
  shows "ev \<noteq> [] \<and> length ev \<le> max 2 (mp_evidence p) \<and> set ev \<subseteq> set es"
proof -
  let ?o = "ordered_evidence D es"
  let ?latest = "take (mp_evidence p) (rev ?o)"
  let ?src = "dedupe_evidence [] (matching_evidence D ?o decision_markers @ matching_evidence D ?o validation_markers @ ?latest)"
  have latest: "set ?latest \<subseteq> set es" using set_take_subset [of "mp_evidence p" "rev ?o"] by simp
  have sub: "set (matching_evidence D ?o ms) \<subseteq> set es" for ms using set_matching [of D ?o ms] by simp
  have src: "set ?src \<subseteq> set es" 
  proof
    fix e assume "e \<in> set ?src"
    from dedupe_evidence_set [OF this] have "e \<in> set (matching_evidence D ?o decision_markers) \<union> set (matching_evidence D ?o validation_markers)
        \<union> set ?latest" by auto
    then show "e \<in> set es" using latest sub by blast
  qed
  from assms(1) consider
      (current) i where "i < length ?latest" "ev = take 2 (drop i ?latest)"
    | (replacement) "matching_evidence D ?o replacement_markers \<noteq> []" "ev = take (mp_evidence p) (matching_evidence D ?o replacement_markers)"
    | (lesson) "ev \<in> set (lesson_pairs p ?src)"
    | (caveat) e where "e \<in> set (take (mp_caveat p) (matching_evidence D ?o caveat_markers))" "ev = [e]"
    by (auto simp: topic_tasks_def Let_def split: if_splits)
  then show ?thesis
  proof cases
    case current
    have "set ev \<subseteq> set ?latest" unfolding current(2) by (meson set_drop_subset set_take_subset subset_trans)
    moreover have "ev \<noteq> []" "length ev \<le> 2" using current by auto
    ultimately show ?thesis using latest by auto
  next
    case replacement
    have "set ev \<subseteq> set (matching_evidence D ?o replacement_markers)" unfolding replacement(2) by (rule set_take_subset)
    moreover have "ev \<noteq> []" "length ev \<le> mp_evidence p" using replacement assms(2) by auto
    ultimately show ?thesis using sub by fastforce
  next
    case lesson
    then have "2 \<le> length ?src" "ev \<in> set (pairwise_evidence ?src (mp_lesson p))" by (auto simp: lesson_pairs_def split: if_splits)
    from pairwise_bounds [OF this] show ?thesis using src by (meson max.coboundedI1 subset_trans)
  next
    case caveat
    then have "e \<in> set (matching_evidence D ?o caveat_markers)" by (auto dest: in_set_takeD)
    then show ?thesis using caveat(2) sub assms(2) by auto
  qed
qed

lemma length_lesson_pairs: "length (lesson_pairs p sources) \<le> mp_lesson p"
  using length_pairwise by (simp add: lesson_pairs_def)

lemma one_case: "length (if r = [] then [] else [x]) \<le> 1"
  by simp

lemma length_topic_tasks: "length (topic_tasks D p es) \<le> mp_current p + 1 + mp_lesson p + mp_caveat p"
proof -
  have bound: "min (mp_current p) n + (length (if r = [] then [] else [(SUPERSEDED_OR_REMOVED, take (mp_evidence p) r)])
      + (length (lesson_pairs p src) + min m (mp_caveat p))) \<le> mp_current p + 1 + mp_lesson p + mp_caveat p" for n m r src
    using length_lesson_pairs [of p src] min.cobounded1 [of "mp_current p" n] min.cobounded2 [of m "mp_caveat p"]
      one_case [of r "(SUPERSEDED_OR_REMOVED, take (mp_evidence p) r)"] by linarith
  show ?thesis
  proof (cases "es = []")
    case False
    show ?thesis
      unfolding topic_tasks_def Let_def if_not_P [OF False] length_append length_map length_upt diff_zero
      by (subst length_take [of "mp_caveat p"]) (rule bound)
  qed (simp add: topic_tasks_def)
qed

lemma build_tasks_grounded:
  assumes "1 \<le> mp_evidence p" and "t \<in> set (build_tasks D p rq)"
  shows "rt_request_id t = rq_id rq \<and> rt_topic t \<in> set (rq_topics rq)
    \<and> rt_evidence t \<noteq> [] \<and> length (rt_evidence t) \<le> max 2 (mp_evidence p)
    \<and> set (rt_evidence t) \<subseteq> set (evidence_for rq (rt_topic t))"
proof -
  let ?xs = "concat (map (\<lambda>topic. map (\<lambda>spec. (topic, spec)) (topic_tasks D p (evidence_for rq topic))) (rq_topics rq))"
  from assms(2) obtain n x where x: "(n, x) \<in> set (enumerate 1 ?xs)" "t = make_task rq (n, x)" by (auto simp: build_tasks_def)
  from x(1) have "x \<in> set ?xs" by (rule enumerate_mem)
  then obtain topic kind ev where "x = (topic, kind, ev)" "topic \<in> set (rq_topics rq)" "(kind, ev) \<in> set (topic_tasks D p (evidence_for rq topic))"
    by auto
  with topic_tasks_bounds [OF _ assms(1)] x(2) show ?thesis by (simp add: make_task_def)
qed

lemma length_build_tasks:
  "length (build_tasks D p rq) \<le> length (rq_topics rq) * (mp_current p + 1 + mp_lesson p + mp_caveat p)"
proof -
  have "length (concat (map (\<lambda>topic. map (\<lambda>spec. (topic, spec)) (topic_tasks D p (evidence_for rq topic))) ts))
      \<le> length ts * (mp_current p + 1 + mp_lesson p + mp_caveat p)" for ts
  proof (induction ts)
    case (Cons a ts)
    then show ?case using add_mono [OF length_topic_tasks [of D p "evidence_for rq a"] Cons.IH] by simp
  qed simp
  then show ?thesis by (simp only: build_tasks_def length_map length_enumerate)
qed

text \<open>
  The decomposition is bounded and grounded: at most seven tasks a topic under the default
  policy, each with its own id, the id of the request, one of its topics, and between one and
  four items of the evidence gathered for that topic.
\<close>

theorem tasks_are_bounded:
  assumes "1 \<le> mp_evidence p"
  shows "length (build_tasks D p rq) \<le> length (rq_topics rq) * (mp_current p + 1 + mp_lesson p + mp_caveat p)
    \<and> distinct (map rt_task_id (build_tasks D p rq))
    \<and> (\<forall>t \<in> set (build_tasks D p rq). rt_request_id t = rq_id rq \<and> rt_topic t \<in> set (rq_topics rq)
        \<and> rt_evidence t \<noteq> [] \<and> length (rt_evidence t) \<le> max 2 (mp_evidence p)
        \<and> set (rt_evidence t) \<subseteq> set (evidence_for rq (rt_topic t)))"
proof (rule conjI [OF length_build_tasks conjI [OF build_tasks_distinct ballI]])
  fix t assume "t \<in> set (build_tasks D p rq)"
  from build_tasks_grounded [OF assms this] show "rt_request_id t = rq_id rq \<and> rt_topic t \<in> set (rq_topics rq)
      \<and> rt_evidence t \<noteq> [] \<and> length (rt_evidence t) \<le> max 2 (mp_evidence p)
      \<and> set (rt_evidence t) \<subseteq> set (evidence_for rq (rt_topic t))" .
qed

subsection \<open>The wait ends\<close>

definition time_passes :: "mcp_reasoner \<Rightarrow> bool" where
  "time_passes R \<longleftrightarrow> (\<forall>d w. 0 \<le> d \<longrightarrow> dw_mono w + d \<le> dw_mono (mr_pass R d w))"

lemma mono_pass: "time_passes R \<Longrightarrow> 0 \<le> d \<Longrightarrow> dw_mono w + d \<le> dw_mono (mr_pass R d w)"
  by (simp add: time_passes_def)

lemma read_clock_mono: "time_passes R \<Longrightarrow> read_clock R w = (t, w') \<Longrightarrow> t = dw_mono w' \<and> dw_mono w \<le> dw_mono w'"
  using mono_pass [of R 0 w] by (auto simp: read_clock_def Let_def)

lemma call_inbox_mono: "time_passes R \<Longrightarrow> call_inbox R f w = (r, w') \<Longrightarrow> dw_mono w \<le> dw_mono w'"
  using mono_pass [of R 0 w] by (auto simp: call_inbox_def Let_def split: sum.splits prod.splits)

lemma all_completed_mono: "time_passes R \<Longrightarrow> all_completed R i w = (r, w') \<Longrightarrow> dw_mono w \<le> dw_mono w'"
  by (auto simp: all_completed_def read_inbox_def bindS_def returnS_def split: prod.splits sum.splits dest: call_inbox_mono)

lemma wait_loop_returns:
  assumes "time_passes R" and "0 < mr_poll R" and "deadline - dw_mono w \<le> real n * mr_poll R"
  shows "\<exists>r w'. wait_loop R i deadline w = Some (r, w')"
  using assms(3)
proof (induction n arbitrary: w)
  case 0
  obtain t1 w1 where c: "read_clock R w = (t1, w1)" by fastforce
  with read_clock_mono [OF assms(1) c] 0 have "\<not> t1 < deadline" by simp
  then show ?case by (subst wait_loop.simps) (simp add: c)
next
  case (Suc n)
  obtain t1 w1 where c1: "read_clock R w = (t1, w1)" by fastforce
  obtain a w2 where c2: "all_completed R i w1 = (a, w2)" by fastforce
  obtain t3 w3 where c3: "read_clock R w2 = (t3, w3)" by fastforce
  have mono: "dw_mono w \<le> dw_mono w3" "t3 = dw_mono w3"
    using read_clock_mono [OF assms(1) c1] all_completed_mono [OF assms(1) c2] read_clock_mono [OF assms(1) c3] by auto
  let ?w4 = "mr_pass R (min (mr_poll R) (deadline - t3)) w3"
  have next_round: "\<exists>r w'. wait_loop R i deadline ?w4 = Some (r, w')" if rem: "0 < deadline - t3"
  proof (rule Suc.IH)
    have adv: "dw_mono w3 + min (mr_poll R) (deadline - t3) \<le> dw_mono ?w4"
      using mono_pass [OF assms(1), of "min (mr_poll R) (deadline - t3)" w3] rem assms(2) by simp
    show "deadline - dw_mono ?w4 \<le> real n * mr_poll R"
    proof (cases "mr_poll R \<le> deadline - t3")
      case True
      then have "dw_mono w + mr_poll R \<le> dw_mono ?w4" using adv mono by simp
      then show ?thesis using Suc.prems by (simp add: algebra_simps)
    next
      case False
      then have "deadline \<le> dw_mono ?w4" using adv mono by simp
      moreover have "0 \<le> real n * mr_poll R" using assms(2) by simp
      ultimately show ?thesis by simp
    qed
  qed
  show ?case
  proof (cases a)
    case (Inl e)
    then show ?thesis by (subst wait_loop.simps) (simp add: c1 c2)
  next
    case (Inr b)
    then show ?thesis using next_round by (subst wait_loop.simps) (simp add: c1 c2 c3 Let_def)
  qed
qed

text \<open>
  C24. A run returns: whatever the other parties do to the inbox and however the fallback
  answers, if sleeping lets at least the asked time pass and clocks never go back, the
  wait ends and the run comes back with a result or an error.
\<close>

theorem reason_terminates:
  assumes "make_mcp_reasoner R0 = Inr R" and "time_passes R"
  shows "\<exists>r w'. reason R rq w = Some (r, w')"
proof -
  have poll: "0 < mr_poll R" using assms(1) by (auto simp: make_mcp_reasoner_def split: if_splits)
  have loop: "\<exists>r w'. wait_loop R i d v = Some (r, w')" for i d v
  proof -
    obtain n :: nat where "(d - dw_mono v) / mr_poll R \<le> real n" using real_arch_simple by blast
    then have "d - dw_mono v \<le> real n * mr_poll R" using poll by (simp add: pos_divide_le_eq)
    then show ?thesis using wait_loop_returns [OF assms(2) poll] by blast
  qed
  obtain a w1 where reg: "register_tasks R rq (build_tasks (mr_tables R) (mr_policy R) rq) w = (a, w1)" by fastforce
  obtain t w2 where clock: "read_clock R w1 = (t, w2)" by fastforce
  obtain b w3 where wait: "wait_loop R (rq_id rq) (t + mr_wait R) w2 = Some (b, w3)" using loop by blast
  have "reason R rq w \<noteq> None" unfolding reason_def Let_def reg by (cases a; cases b) (simp_all add: clock wait)
  then show ?thesis by (metis not_None_eq surj_pair)
qed

subsection \<open>The result of a run\<close>

text \<open>
  The other parties use the inbox through its operations, none of which retires runs, and so
  does the fallback: each keeps the tables well formed and every completed task.
\<close>

definition parties_ok :: "mcp_reasoner \<Rightarrow> bool" where
  "parties_ok R \<longleftrightarrow> (\<forall>d w. inbox_wf (dw_inbox w) \<longrightarrow> task_step (dw_inbox w) (dw_inbox (mr_pass R d w)))
    \<and> (\<forall>t w r w'. mr_fallback R t w = (r, w') \<longrightarrow> inbox_wf (dw_inbox w) \<longrightarrow> task_step (dw_inbox w) (dw_inbox w'))"

definition world_step :: "dream_world \<Rightarrow> dream_world \<Rightarrow> bool" where
  "world_step w w' \<longleftrightarrow> (inbox_wf (dw_inbox w) \<longrightarrow> task_step (dw_inbox w) (dw_inbox w'))"

lemma world_step_refl [simp]: "world_step w w"
  by (simp add: world_step_def task_step_def winners_kept_refl)

lemma world_step_trans: "world_step u v \<Longrightarrow> world_step v w \<Longrightarrow> world_step u w"
  unfolding world_step_def task_step_def using winners_kept_trans by blast

lemma pass_step: "parties_ok R \<Longrightarrow> world_step w (mr_pass R d w)"
  by (simp add: parties_ok_def world_step_def)

lemma call_inbox_step:
  assumes "parties_ok R" and "\<And>now s x s'. inbox_wf s \<Longrightarrow> f now s = Inr (x, s') \<Longrightarrow> task_step s s'"
    and "call_inbox R f w = (r, w')"
  shows "world_step w w'"
proof (cases "f (dw_now (mr_pass R 0 w)) (dw_inbox (mr_pass R 0 w))")
  case (Inl e)
  then show ?thesis using assms(3) pass_step [OF assms(1)] by (auto simp: call_inbox_def Let_def)
next
  case (Inr p)
  obtain x s' where p: "p = (x, s')" by fastforce
  then have w': "w' = (mr_pass R 0 w)\<lparr>dw_inbox := s'\<rparr>" using assms(3) Inr by (simp add: call_inbox_def Let_def)
  have "world_step (mr_pass R 0 w) w'" using assms(2) Inr p by (simp add: world_step_def w')
  with pass_step [OF assms(1)] show ?thesis by (rule world_step_trans)
qed

lemma read_inbox_step: "parties_ok R \<Longrightarrow> read_inbox R f w = (r, w') \<Longrightarrow> world_step w w'"
  unfolding read_inbox_def by (erule call_inbox_step) (auto simp: task_step_def winners_kept_refl)

lemma read_inbox_Inr: "read_inbox R f w = (Inr x, w') \<Longrightarrow> f (dw_inbox w') = Inr x"
  by (auto simp: read_inbox_def call_inbox_def Let_def split: sum.splits)

lemma read_clock_step: "parties_ok R \<Longrightarrow> read_clock R w = (t, w') \<Longrightarrow> world_step w w'"
  using pass_step [of R w 0] by (auto simp: read_clock_def Let_def)

lemma all_completed_step: "parties_ok R \<Longrightarrow> all_completed R i w = (r, w') \<Longrightarrow> world_step w w'"
  by (auto simp: all_completed_def bindS_def returnS_def split: prod.splits sum.splits dest: read_inbox_step)

lemma wait_loop_step:
  assumes "wait_loop R i deadline w = Some y" and "parties_ok R"
  shows "world_step w (snd y)"
proof -
  have "parties_ok R \<longrightarrow> world_step w (snd y)"
    using assms(1)
  proof (rule wait_loop.raw_induct [where P = "\<lambda>R i deadline w y. parties_ok R \<longrightarrow> world_step w (snd y)", rotated])
    fix loop R i deadline w y
    assume IH: "\<And>R i deadline w y. loop R i deadline w = Some y \<Longrightarrow> parties_ok R \<longrightarrow> world_step w (snd y)"
      and run: "(let (t1, w1) = read_clock R w
        in if \<not> t1 < deadline then Some (Inr (), w1)
           else case all_completed R i w1 of
               (Inl e, w2) \<Rightarrow> Some (Inl e, w2)
             | (Inr completed, w2) \<Rightarrow>
                 if completed then Some (Inr (), w2)
                 else let (t3, w3) = read_clock R w2; remaining = deadline - t3
                      in if remaining \<le> 0 then Some (Inr (), w3)
                         else loop R i deadline (mr_pass R (min (mr_poll R) remaining) w3)) = Some y"
    show "parties_ok R \<longrightarrow> world_step w (snd y)"
    proof
      assume ok: "parties_ok R"
  obtain t1 w1 where c1: "read_clock R w = (t1, w1)" by fastforce
  obtain a w2 where c2: "all_completed R i w1 = (a, w2)" by fastforce
  obtain t3 w3 where c3: "read_clock R w2 = (t3, w3)" by fastforce
  have s1: "world_step w w1" by (rule read_clock_step [OF ok c1])
  have s2: "world_step w w2" by (rule world_step_trans [OF s1 all_completed_step [OF ok c2]])
  have s3: "world_step w w3" by (rule world_step_trans [OF s2 read_clock_step [OF ok c3]])
  let ?w4 = "mr_pass R (min (mr_poll R) (deadline - t3)) w3"
  have "world_step w (snd y)" if "loop R i deadline ?w4 = Some y"
    using IH [OF that] ok world_step_trans [OF world_step_trans [OF s3 pass_step [OF ok]]] by blast
  then show "world_step w (snd y)"
    using run s1 s2 s3 by (auto simp: c1 c2 c3 Let_def split: if_splits sum.splits)
    qed
  qed
  with assms(2) show ?thesis by blast
qed

definition answered :: "inbox \<Rightarrow> ustr \<Rightarrow> task_result \<Rightarrow> bool" where
  "answered s i r \<longleftrightarrow> (\<exists>row \<in> set (ib_tasks s). tk_id row = py_strip i \<and> tk_status row = TASK_COMPLETED \<and> tk_result row = Some r)"

lemma answered_kept: "world_step w w' \<Longrightarrow> inbox_wf (dw_inbox w) \<Longrightarrow> answered (dw_inbox w) i r \<Longrightarrow> answered (dw_inbox w') i r"
  unfolding world_step_def task_step_def winners_kept_def answered_def by metis

lemma complete_fallback_answers:
  assumes "complete_fallback now i res route s = Inr (out, s')"
  shows "answered s' i out"
proof -
  let ?i = "py_strip i"
  obtain row where row: "find_task ?i s = Some row" using complete_fallback_Inr [OF assms] by blast
  show ?thesis
  proof (cases "tk_status row = TASK_COMPLETED")
    case True
    then show ?thesis using assms find_task_Some [OF row]
      by (auto simp: complete_fallback_def Let_def row answered_def split: if_splits option.splits)
  next
    case False
    then obtain m where m: "make_task_result (tr_task_id res) (tr_claims res) = Inr m" using complete_fallback_Inr [OF assms] row by auto
    let ?hit = "\<lambda>r. tk_id r = ?i \<and> tk_status r \<noteq> TASK_COMPLETED"
    let ?s' = "update_tasks ?hit (\<lambda>r. r\<lparr>tk_status := TASK_COMPLETED, tk_result := Some m, tk_route := Some (py_strip route), tk_updated := now\<rparr>) s"
    have "?hit row" using find_task_Some [OF row] False by simp
    then have upd: "row\<lparr>tk_status := TASK_COMPLETED, tk_result := Some m, tk_route := Some (py_strip route), tk_updated := now\<rparr> \<in> set (ib_tasks ?s')"
      using update_tasks_in [OF conjunct1 [OF find_task_Some [OF row]], of ?hit "\<lambda>r. r\<lparr>tk_status := TASK_COMPLETED, tk_result := Some m,
          tk_route := Some (py_strip route), tk_updated := now\<rparr>"] by simp
    from assms False m consider "out = m" "s' = ?s'"
      | winner where "find_task ?i ?s' = Some winner" "tk_status winner = TASK_COMPLETED" "tk_result winner = Some out" "s' = ?s'"
      by (auto simp: complete_fallback_def Let_def row validate_task_result_def split: if_splits option.splits task_status.splits)
    then show ?thesis
    proof cases
      case 1
      then show ?thesis using upd find_task_Some [OF row] unfolding answered_def by (intro bexI [OF _ upd [folded 1(2)]]) simp
    next
      case 2
      then show ?thesis using find_task_Some [OF 2(1)] unfolding answered_def by (metis 2(4))
    qed
  qed
qed
lemma resolve_task_answers:
  assumes "parties_ok R" and "resolve_task R t w = (Inr r, w')" and "inbox_wf (dw_inbox w)"
  shows "world_step w w' \<and> answered (dw_inbox w') (rt_task_id t) r"
proof -
  from assms(2) obtain st w1 where rd: "read_inbox R (get_task_state (mr_unicode R) (mr_ctx R) (rt_task_id t)) w = (Inr (Some st), w1)"
    and rest: "resolve_state R t st w1 = (Inr r, w')"
    by (auto simp: resolve_task_def bindS_Inr raiseS_def split: option.splits)
  have s1: "world_step w w1" by (rule read_inbox_step [OF assms(1) rd])
  have wf1: "inbox_wf (dw_inbox w1)" using s1 assms(3) by (simp add: world_step_def task_step_def)
  from read_inbox_Inr [OF rd] obtain row where row: "find_task (py_strip (rt_task_id t)) (dw_inbox w1) = Some row" "st = state_from_row row"
    by (auto simp: get_task_state_def split: option.splits if_splits)
  show ?thesis
  proof (cases "st_status st = TASK_COMPLETED \<and> st_result st = Some r \<and> w' = w1")
    case True
    then have "answered (dw_inbox w1) (rt_task_id t) r"
      using find_task_Some [OF row(1)] row(2) unfolding answered_def by (intro bexI [of _ row]) (simp_all add: state_from_row_def)
    then show ?thesis using True s1 by simp
  next
    case False
    then obtain q w2 where fb: "mr_fallback R t w1 = (Inr q, w2)"
      and cf: "call_inbox R (\<lambda>now. complete_fallback now (rt_task_id t) q fallback_route) w2 = (Inr r, w')"
      using rest by (auto simp: resolve_state_def bindS_Inr returnS_def split: if_splits)
    have s2: "world_step w1 w2" using assms(1) fb by (simp add: parties_ok_def world_step_def)
    have s3: "world_step w2 w'" by (rule call_inbox_step [OF assms(1) _ cf]) (rule complete_fallback_step)
    have "answered (dw_inbox w') (rt_task_id t) r"
      using cf complete_fallback_answers by (fastforce simp: call_inbox_def Let_def split: sum.splits)
    then show ?thesis using world_step_trans [OF s1 world_step_trans [OF s2 s3]] by simp
  qed
qed

lemma gather_answers:
  assumes "parties_ok R"
  shows "mapS (resolve_task R) tasks w = (Inr rs, w') \<Longrightarrow> inbox_wf (dw_inbox w)
    \<Longrightarrow> world_step w w' \<and> list_all2 (\<lambda>t r. answered (dw_inbox w') (rt_task_id t) r) tasks rs"
proof (induction tasks arbitrary: w rs)
  case (Cons t tasks)
  from Cons.prems(1) obtain r w1 rs1 where r: "resolve_task R t w = (Inr r, w1)"
    and rs1: "mapS (resolve_task R) tasks w1 = (Inr rs1, w')" and rs: "rs = r # rs1"
    by (auto simp: bindS_Inr returnS_def)
  have s1: "world_step w w1" and a1: "answered (dw_inbox w1) (rt_task_id t) r"
    using resolve_task_answers [OF assms r Cons.prems(2)] by auto
  have wf1: "inbox_wf (dw_inbox w1)" using s1 Cons.prems(2) by (simp add: world_step_def task_step_def)
  from Cons.IH [OF rs1 wf1] have s2: "world_step w1 w'" and rest: "list_all2 (\<lambda>t r. answered (dw_inbox w') (rt_task_id t) r) tasks rs1" by auto
  show ?case using world_step_trans [OF s1 s2] rest answered_kept [OF s2 wf1 a1] rs by simp
qed (simp add: returnS_def)

text \<open>What the assembly lets through.\<close>

definition grounded_candidate :: "'a text_tables_scheme \<Rightarrow> reason_request \<Rightarrow> reason_candidate \<Rightarrow> bool" where
  "grounded_candidate T rq c \<longleftrightarrow> (\<exists>topic \<in> set (rq_topics rq).
     rc_evidence_ids c \<noteq> [] \<and> set (rc_evidence_ids c) \<subseteq> ev_id ` set (evidence_for rq topic)
     \<and> 0 \<le> rc_confidence c \<and> rc_confidence c \<le> 1 \<and> py_strip (rc_content c) \<noteq> []
     \<and> \<not> contains_advice T (rc_content c) \<and> claim_relevant T topic (rc_content c))"

lemma kept_grounded:
  assumes "judge_claim T t x = Inr (Kept c)" and "rt_topic t \<in> set (rq_topics rq)"
    and "set (rt_evidence t) \<subseteq> set (evidence_for rq (rt_topic t))"
  shows "grounded_candidate T rq c"
proof -
  obtain n q where x: "x = (n, q)" by (cases x)
  from assms(1) have c: "c = candidate_of T t n q" "check_claim t q = Inr ()" "\<not> contains_advice T (tc_claim q)" "claim_relevant T (rt_topic t) (tc_claim q)"
    by (auto simp: x judge_claim_def split: if_splits)
  obtain e k g where cls: "candidate_class (rt_kind t) = (e, k, g)" by (metis prod_cases3)
  have "ev_id ` set (rt_evidence t) \<subseteq> ev_id ` set (evidence_for rq (rt_topic t))" using assms(3) by blast
  with c(2) have "py_strip (tc_claim q) \<noteq> []" "0 \<le> tc_confidence q" "tc_confidence q \<le> 1" "tc_evidence_ids q \<noteq> []"
    "set (tc_evidence_ids q) \<subseteq> ev_id ` set (evidence_for rq (rt_topic t))"
    unfolding check_claim_def by (auto split: if_splits)
  then show ?thesis unfolding grounded_candidate_def
    using assms(2) c(1,3,4) by (intro bexI [of _ "rt_topic t"]) (simp_all add: candidate_of_def cls)
qed

lemma assemble_grounded:
  assumes "assemble T rq tasks results = Inr res" and "c \<in> set (rr_candidates res)"
    and "\<And>t. t \<in> set tasks \<Longrightarrow> rt_topic t \<in> set (rq_topics rq) \<and> set (rt_evidence t) \<subseteq> set (evidence_for rq (rt_topic t))"
  shows "grounded_candidate T rq c"
proof -
  from assms(1) obtain judged where j: "mapE (judge_task T results) tasks = Inr judged" and cs: "rr_candidates res = kept_candidates (concat judged)"
    unfolding assemble_def Let_def by (auto split: if_splits)
  from assms(2) cs obtain js where js: "js \<in> set judged" "Kept c \<in> set js"
    by (auto simp: kept_candidates_def split: judged.splits)
  from mapE_source [OF j js(1)] obtain t where t: "t \<in> set tasks" "judge_task T results t = Inr js" by blast
  then obtain r :: task_result where "mapE (judge_claim T t) (enumerate 0 (tr_claims r)) = Inr js"
    by (auto simp: judge_task_def split: option.splits)
  from mapE_source [OF this js(2)] obtain x where "judge_claim T t x = Inr (Kept c)" by blast
  then show ?thesis using kept_grounded assms(3) [OF t(1)] by blast
qed
lemma register_tasks_step: "parties_ok R \<Longrightarrow> register_tasks R rq tasks w = (r, w') \<Longrightarrow> world_step w w'"
  unfolding register_tasks_def by (erule call_inbox_step) (auto dest: register_run_step)

lemma registered_id: "register_run U ctx now i request tasks wait s = Inr s' \<Longrightarrow> t \<in> set tasks \<Longrightarrow> py_strip i \<noteq> [] \<and> rt_request_id t = py_strip i"
  by (auto simp: register_run_def Let_def list_ex_iff split: if_splits)

text \<open>
  C23. The candidates of a run are those of the inbox. When a run ends with a result, every task
  of the request is completed in the inbox, by a consumer or by the fallback, the result is
  assembled from exactly these recorded answers, one for each task, and it carries the request's
  id. Every candidate cites evidence, all of it gathered for its topic, has a confidence
  in $[0, 1]$ and a relevant text that is not blank and gives no advice.
\<close>

theorem reason_uses_winners:
  assumes "parties_ok R" and "1 \<le> mp_evidence (mr_policy R)" and "inbox_wf (dw_inbox w)"
    and "reason R rq w = Some (Inr res, w')"
  shows "rr_request_id res = rq_id rq
    \<and> (\<exists>results. assemble (mr_tables R) rq (build_tasks (mr_tables R) (mr_policy R) rq) results = Inr res
         \<and> list_all2 (\<lambda>t r. \<exists>row \<in> set (ib_tasks (dw_inbox w')). tk_id row = rt_task_id t
              \<and> tk_status row = TASK_COMPLETED \<and> tk_result row = Some r)
             (build_tasks (mr_tables R) (mr_policy R) rq) results)
    \<and> (\<forall>c \<in> set (rr_candidates res). grounded_candidate (mr_tables R) rq c)"
proof -
  let ?tasks = "build_tasks (mr_tables R) (mr_policy R) rq"
  from assms(4) obtain w1 where reg: "register_tasks R rq ?tasks w = (Inr (), w1)"
    by (auto simp: reason_def Let_def split: prod.splits sum.splits)
  obtain t w2 where clock: "read_clock R w1 = (t, w2)" by fastforce
  from assms(4) reg clock obtain w3 where wait: "(if ?tasks = [] then Some (Inr (), w2) else wait_loop R (rq_id rq) (t + mr_wait R) w2) = Some (Inr (), w3)"
    and res: "resolve_tasks R rq ?tasks w3 = (Inr res, w')"
    by (auto simp: reason_def Let_def split: prod.splits sum.splits option.splits if_splits)
  have "world_step w2 w3" using wait wait_loop_step [OF _ assms(1)] by (fastforce split: if_splits)
  then have s3: "world_step w w3"
    using world_step_trans [OF world_step_trans [OF register_tasks_step [OF assms(1) reg] read_clock_step [OF assms(1) clock]]] by blast
  then have wf3: "inbox_wf (dw_inbox w3)" using assms(3) by (simp add: world_step_def task_step_def)
  from res obtain rs where rs: "mapS (resolve_task R) ?tasks w3 = (Inr rs, w')" and asm: "assemble (mr_tables R) rq ?tasks rs = Inr res"
    by (auto simp: resolve_tasks_def bindS_Inr)
  have ids: "py_strip (rt_task_id u) = rt_task_id u" if u: "u \<in> set ?tasks" for u
  proof -
    from reg obtain s s' now where "register_run (mr_unicode R) (mr_ctx R) now (rq_id rq) (mr_json R rq) ?tasks (timedelta_us (mr_wait R)) s = Inr s'"
      by (auto simp: register_tasks_def call_inbox_def Let_def split: sum.splits)
    from registered_id [OF this u] have "py_strip (rq_id rq) = rq_id rq" "rq_id rq \<noteq> []" using build_tasks_request [OF u] by auto
    moreover obtain n k where "rt_task_id u = task_name (rq_id rq) n k" using u by (auto simp: build_tasks_def make_task_def)
    ultimately show ?thesis by (simp add: task_name_strip)
  qed
  have "list_all2 (\<lambda>t r. answered (dw_inbox w') (rt_task_id t) r) ?tasks rs" using gather_answers [OF assms(1) rs wf3] by blast
  then have "list_all2 (\<lambda>t r. \<exists>row \<in> set (ib_tasks (dw_inbox w')). tk_id row = rt_task_id t
      \<and> tk_status row = TASK_COMPLETED \<and> tk_result row = Some r) ?tasks rs"
    by (rule list.rel_mono_strong) (simp add: answered_def ids)
  moreover have "rr_request_id res = rq_id rq" using asm by (auto simp: assemble_def Let_def split: if_splits)
  moreover have "grounded_candidate (mr_tables R) rq c" if "c \<in> set (rr_candidates res)" for c
    using assemble_grounded [OF asm that] build_tasks_grounded [OF assms(2)] by blast
  ultimately show ?thesis using asm by blast
qed

subsection \<open>A concrete run\<close>

definition sample_dream :: reason_request where
  "sample_dream = \<lparr>rq_id = [114], rq_session = [115], rq_topics = [[97, 98, 99]], rq_start = 7, rq_end = 7, rq_version = [49],
     rq_evidence = [([97, 98, 99], [sample_evidence 3 [112]])]\<rparr>"

definition sample_task :: task_request where
  "sample_task = make_task sample_dream (1, [97, 98, 99], CURRENT_STATE, [sample_evidence 3 [112]])"

definition sample_claim :: task_claim where
  "sample_claim = \<lparr>tc_claim = [97, 98, 99], tc_evidence_ids = [[3]], tc_confidence = 1\<rparr>"

definition sample_answer :: task_result where
  "sample_answer = \<lparr>tr_task_id = rt_task_id sample_task, tr_claims = [sample_claim]\<rparr>"

definition sample_reasoner :: mcp_reasoner where
  "sample_reasoner = \<lparr>mr_tables = sample_tables, mr_policy = default_multipass, mr_unicode = ascii_tables, mr_ctx = None,
     mr_json = (\<lambda>_. JNull), mr_wait = 0, mr_poll = 1, mr_pass = (\<lambda>d w. w\<lparr>dw_mono := dw_mono w + d\<rparr>),
     mr_fallback = (\<lambda>t. returnS sample_answer)\<rparr>"

definition sample_world :: dream_world where
  "sample_world = \<lparr>dw_inbox = \<lparr>ib_tasks = [], ib_runs = []\<rparr>, dw_mono = 0, dw_now = 0\<rparr>"

lemma sample_unmarked: "matching_evidence sample_tables [sample_evidence 3 [112]] replacement_markers = []"
  "matching_evidence sample_tables [sample_evidence 3 [112]] caveat_markers = []"
  "matching_evidence sample_tables [sample_evidence 3 [112]] decision_markers = []"
  "matching_evidence sample_tables [sample_evidence 3 [112]] validation_markers = []"
  by (simp_all add: matching_evidence_def replacement_markers_def caveat_markers_def decision_markers_def validation_markers_def
      sample_evidence_def sample_tables_def lit_def)

lemma sample_tasks: "build_tasks sample_tables default_multipass sample_dream = [sample_task]"
proof -
  have "ordered_evidence sample_tables [sample_evidence 3 [112]] = [sample_evidence 3 [112]]" by (simp add: ordered_evidence_def)
  then have "topic_tasks sample_tables default_multipass [sample_evidence 3 [112]] = [(CURRENT_STATE, [sample_evidence 3 [112]])]"
    by (simp add: topic_tasks_def sample_unmarked default_multipass_def lesson_pairs_def)
  then show ?thesis by (simp add: build_tasks_def sample_dream_def evidence_for_def sample_task_def)
qed

lemma sample_ids: "rq_id sample_dream = [114]" "py_strip [114] = [114]" "rt_request_id sample_task = [114]"
  "py_strip (rt_task_id sample_task) = rt_task_id sample_task" "rt_task_id sample_task \<noteq> []" "rt_topic sample_task = [97, 98, 99]"
  "rt_evidence sample_task = [sample_evidence 3 [112]]" "py_strip fallback_route = fallback_route" "fallback_route \<noteq> mcp_route" "fallback_route \<noteq> []"
proof -
  show s: "py_strip [114] = [114]" by (simp add: example_strip)
  show "py_strip (rt_task_id sample_task) = rt_task_id sample_task"
    by (simp add: sample_task_def make_task_def sample_dream_def task_name_strip s)
  show "py_strip fallback_route = fallback_route" by (rule py_strip_id) (simp_all add: fallback_route_def lit_def py_space_def)
  show "fallback_route \<noteq> mcp_route" by (simp add: fallback_route_def mcp_route_def lit_eq_iff)
  show "fallback_route \<noteq> []" by (simp add: fallback_route_def lit_def)
qed (simp_all add: sample_task_def make_task_def sample_dream_def task_name_def)

definition sample_row :: task_row where
  "sample_row = insert_task None 0 [114] 0 sample_task"

definition sample_end :: dream_world where
  "sample_end = sample_world\<lparr>dw_inbox := \<lparr>ib_tasks = [sample_row\<lparr>tk_status := TASK_COMPLETED, tk_result := Some sample_answer,
       tk_route := Some fallback_route, tk_updated := 0\<rparr>],
     ib_runs = ib_runs (upsert_run None 0 [114] JNull 1 0 \<lparr>ib_tasks = [], ib_runs = []\<rparr>)\<rparr>\<rparr>"

lemma sample_assembled: "\<exists>res. assemble sample_tables sample_dream [sample_task] [sample_answer] = Inr res
    \<and> rr_candidates res = [candidate_of sample_tables sample_task 0 sample_claim]"
proof -
  have adv: "\<not> contains_advice sample_tables [97, 98, 99]"
    by (simp add: contains_advice_def advice_markers_def sample_tables_def lit_def)
  have rel: "claim_relevant sample_tables [97, 98, 99] [97, 98, 99]" by (simp add: claim_relevant_def sample_anchors sample_phase identifier_like_def)
  have strip: "py_strip [97, 98, 99] = [97, 98, 99]" by (simp add: py_strip_def py_lstrip_def py_rstrip_def py_space_def)
  have chk: "check_claim sample_task sample_claim = Inr ()"
    by (simp add: check_claim_def sample_claim_def strip sample_ids) (simp add: sample_evidence_def)
  have "judge_task sample_tables [sample_answer] sample_task = Inr [Kept (candidate_of sample_tables sample_task 0 sample_claim)]"
    by (simp add: judge_task_def sample_answer_def judge_claim_def chk) (simp add: sample_claim_def adv rel sample_ids)
  then show ?thesis by (simp add: assemble_def sample_answer_def kept_candidates_def)
qed

lemma sample_row_simps [simp]: "tk_id sample_row = rt_task_id sample_task" "tk_status sample_row = TASK_PENDING"
  "tk_request sample_row = sample_task" "tk_authority sample_row = Some (authority_snapshot None None)"
  by (simp_all add: sample_row_def insert_task_def)

definition sample_runs :: "run_row list" where
  "sample_runs = ib_runs (upsert_run None 0 [114] JNull 1 0 \<lparr>ib_tasks = [], ib_runs = []\<rparr>)"

lemma sample_registered: "register_run ascii_tables None 0 [114] JNull [sample_task] 0 \<lparr>ib_tasks = [], ib_runs = []\<rparr>
    = Inr \<lparr>ib_tasks = [sample_row], ib_runs = sample_runs\<rparr>"
  by (simp add: register_run_def Let_def sample_ids assert_not_retired_def find_run_def upsert_task_def find_task_def
      upsert_run_def sample_runs_def sample_row_def)

lemma sample_fallback: "complete_fallback 0 (rt_task_id sample_task) sample_answer fallback_route \<lparr>ib_tasks = [sample_row], ib_runs = sample_runs\<rparr>
    = Inr (sample_answer, dw_inbox sample_end)"
proof -
  have "make_task_result (tr_task_id sample_answer) (tr_claims sample_answer) = Inr sample_answer"
    by (simp add: make_task_result_def sample_answer_def claim_fields_ok_def sample_claim_def)
  moreover have "validate_task_result sample_task sample_answer = Inr sample_answer"
    by (simp add: validate_task_result_def sample_answer_def sample_claim_def Let_def known_evidence_def sample_ids) (simp add: sample_evidence_def)
  ultimately show ?thesis
    by (simp add: complete_fallback_def sample_ids Let_def find_task_def update_tasks_def sample_end_def sample_runs_def sample_world_def)
qed

lemma sample_run: "\<exists>res. reason sample_reasoner sample_dream sample_world = Some (Inr res, sample_end)
    \<and> rr_candidates res = [candidate_of sample_tables sample_task 0 sample_claim]"
proof -
  let ?w = "sample_world\<lparr>dw_inbox := \<lparr>ib_tasks = [sample_row], ib_runs = sample_runs\<rparr>\<rparr>"
  obtain res where res: "assemble sample_tables sample_dream [sample_task] [sample_answer] = Inr res"
    "rr_candidates res = [candidate_of sample_tables sample_task 0 sample_claim]" using sample_assembled by blast
  have fields: "mr_tables sample_reasoner = sample_tables" "mr_policy sample_reasoner = default_multipass" "mr_wait sample_reasoner = 0"
    by (simp_all add: sample_reasoner_def)
  have reg: "register_tasks sample_reasoner sample_dream [sample_task] sample_world = (Inr (), ?w)"
    using sample_registered by (simp add: register_tasks_def call_inbox_def sample_reasoner_def sample_world_def timedelta_us_def round_even_def sample_ids(1))
  have clock: "read_clock sample_reasoner ?w = (0, ?w)" by (simp add: read_clock_def sample_reasoner_def sample_world_def)
  have wait: "wait_loop sample_reasoner [114] 0 ?w = Some (Inr (), ?w)" by (subst wait_loop.simps) (simp add: clock)
  have state: "get_task_state ascii_tables None (rt_task_id sample_task) \<lparr>ib_tasks = [sample_row], ib_runs = sample_runs\<rparr>
      = Inr (Some (state_from_row sample_row))"
    by (simp add: get_task_state_def find_task_def sample_ids)
  have one: "resolve_task sample_reasoner sample_task ?w = (Inr sample_answer, sample_end)"
    using state sample_fallback
    by (simp add: resolve_task_def resolve_state_def read_inbox_def call_inbox_def bindS_def returnS_def sample_reasoner_def
        sample_world_def state_from_row_def, simp add: sample_end_def sample_world_def)
  have "resolve_tasks sample_reasoner sample_dream [sample_task] ?w = (Inr res, sample_end)"
    using res(1) by (simp add: resolve_tasks_def bindS_def returnS_def one liftS_def) (simp add: sample_reasoner_def)
  then have "reason sample_reasoner sample_dream sample_world = Some (Inr res, sample_end)"
    by (simp add: reason_def fields sample_tasks reg clock wait sample_ids(1))
  with res(2) show ?thesis by blast
qed

lemma sample_parties: "parties_ok sample_reasoner"
  by (auto simp: parties_ok_def sample_reasoner_def task_step_def winners_kept_refl returnS_def)
text \<open>The run returns, and its one candidate is the fallback's answer recorded in the inbox.\<close>

theorem reason_terminates_witness: "\<exists>r w'. reason sample_reasoner sample_dream sample_world = Some (r, w')"
  by (rule reason_terminates [of sample_reasoner]) (simp_all add: make_mcp_reasoner_def sample_reasoner_def time_passes_def)

theorem reason_uses_winners_witness:
  "\<exists>res. reason sample_reasoner sample_dream sample_world = Some (Inr res, sample_end)
     \<and> rr_request_id res = [114] \<and> length (rr_candidates res) = 1 \<and> list_all (grounded_candidate sample_tables sample_dream) (rr_candidates res)"
proof -
  obtain res where run: "reason sample_reasoner sample_dream sample_world = Some (Inr res, sample_end)"
    and one: "rr_candidates res = [candidate_of sample_tables sample_task 0 sample_claim]" using sample_run by blast
  have "1 \<le> mp_evidence (mr_policy sample_reasoner)" by (simp add: sample_reasoner_def default_multipass_def)
  moreover have "inbox_wf (dw_inbox sample_world)" by (simp add: sample_world_def inbox_wf_def)
  ultimately have "rr_request_id res = rq_id sample_dream
      \<and> (\<forall>c \<in> set (rr_candidates res). grounded_candidate (mr_tables sample_reasoner) sample_dream c)"
    using reason_uses_winners [OF sample_parties _ _ run] by blast
  then show ?thesis using run one sample_ids(1) by (auto simp: list_all_iff sample_reasoner_def)
qed

theorem tasks_are_bounded_witness:
  "length (build_tasks sample_tables default_multipass sample_dream) \<le> 7
     \<and> rt_evidence (hd (build_tasks sample_tables default_multipass sample_dream)) \<noteq> []"
  using tasks_are_bounded [of default_multipass sample_tables sample_dream] sample_tasks
  by (simp add: default_multipass_def sample_dream_def)

end
