(* ===== verification/Dream_Gate.thy ===== *)
theory Dream_Gate
  imports Dream_Reasoning
begin

text \<open>
  The evidence gate, \<^verbatim>\<open>cyberbrain/dreaming/gate.py\<close>: duplicates and near duplicates of one run
  are merged into their first occurrence, and each candidate is promoted, held for review or
  rejected by the strength of its evidence. The gate replaces merged candidates in the
  result it is given, so \<open>gate\<close> returns the candidates as well. Scores are real numbers;
  \<^verbatim>\<open>json.dumps\<close> with sorted keys is a parameter.
\<close>

datatype promotion_decision = PROMOTE | REVIEW | REJECT

fun decision_value :: "promotion_decision \<Rightarrow> ustr" where
  "decision_value PROMOTE = lit ''promote''"
| "decision_value REVIEW = lit ''review''"
| "decision_value REJECT = lit ''reject''"

record promotion_policy =
  pp_promote :: real
  pp_review :: real
  pp_minimum :: nat
  pp_jaccard :: real
  pp_tokens :: nat
  pp_strong :: "ustr list"

definition default_promotion :: promotion_policy where
  "default_promotion = \<lparr>pp_promote = 78 / 100, pp_review = 45 / 100, pp_minimum = 2, pp_jaccard = 72 / 100, pp_tokens = 5,
     pp_strong = [lit ''user_confirmed'', lit ''tested'', lit ''observed'']\<rparr>"

record gate_decision =
  gd_index :: nat
  gd_decision :: promotion_decision
  gd_reasoner :: real
  gd_strength :: real
  gd_promotion :: real
  gd_evidence_ids :: "ustr list"
  gd_reasons :: "ustr list"

record gate_tables = dream_tables +
  gt_dumps :: "json \<Rightarrow> ustr"

fun classification_value :: "classification \<Rightarrow> ustr" where
  "classification_value NEW_KNOWLEDGE = lit ''new_knowledge''"
| "classification_value EVOLUTION = lit ''evolution''"
| "classification_value CONTEXT_DEPENDENT = lit ''context_dependent''"
| "classification_value CONTRADICTION = lit ''contradiction''"
| "classification_value REJECTED_APPROACH = lit ''rejected_approach''"
| "classification_value INSUFFICIENT_EVIDENCE = lit ''insufficient_evidence''"

text \<open>A later item with the same id replaces an earlier one.\<close>

definition evidence_by_id :: "reason_request \<Rightarrow> ustr \<rightharpoonup> evidence" where
  "evidence_by_id rq = map_of (rev (map (\<lambda>e. (ev_id e, e)) (concat (map snd (rq_evidence rq)))))"

subsection \<open>Strength of evidence\<close>

definition distinct_values :: "('a \<Rightarrow> 'b) \<Rightarrow> 'a list \<Rightarrow> nat" where
  "distinct_values f xs = length (fromkeys (map f xs))"

definition verification_text :: "'a dream_tables_scheme \<Rightarrow> evidence \<Rightarrow> ustr" where
  "verification_text D e = tt_casefold D (py_strip (meta_text D e ''verification''))"

definition evidence_strength :: "'a dream_tables_scheme \<Rightarrow> promotion_policy \<Rightarrow> evidence list \<Rightarrow> real" where
  "evidence_strength D p es =
     (let count_score = min 1 (real (distinct_values ev_id es) / 3);
          diversity = min 1 (real (distinct_values ev_record_type es) / 2);
          strong = length (filter (\<lambda>e. verification_text D e \<in> set (pp_strong p)) es);
          verified = length (filter (\<lambda>e. verification_text D e \<noteq> []) es);
          verification = (if es = [] then 0 else (7 / 10 * real strong + 3 / 10 * real verified) / real (length es))
      in max 0 (min 1 (45 / 100 * count_score + 4 / 10 * verification + 15 / 100 * diversity)))"

definition promotion_confidence :: "real \<Rightarrow> real \<Rightarrow> real" where
  "promotion_confidence reasoner strength =
     max 0 (min 1 (35 / 100 * max 0 (min 1 reasoner) + 65 / 100 * strength))"

definition gate_result :: "nat \<Rightarrow> reason_candidate \<Rightarrow> promotion_decision \<Rightarrow> real \<Rightarrow> real \<Rightarrow> ustr list \<Rightarrow> gate_decision" where
  "gate_result i c d strength promotion reasons =
     \<lparr>gd_index = i, gd_decision = d, gd_reasoner = rc_confidence c, gd_strength = strength, gd_promotion = promotion,
      gd_evidence_ids = rc_evidence_ids c, gd_reasons = reasons\<rparr>"

definition evaluate_candidate :: "'a dream_tables_scheme \<Rightarrow> promotion_policy \<Rightarrow> (ustr \<rightharpoonup> evidence) \<Rightarrow> nat \<Rightarrow> reason_candidate
    \<Rightarrow> gate_decision" where
  "evaluate_candidate D p by_id i c =
     (let es = List.map_filter by_id (rc_evidence_ids c)
      in if list_ex (\<lambda>k. by_id k = None) (rc_evidence_ids c) then gate_result i c REJECT 0 0 [lit ''unknown_evidence_ids'']
         else if length es < pp_minimum p then gate_result i c REJECT 0 0 [lit ''insufficient_evidence_count'']
         else if rc_classification c = INSUFFICIENT_EVIDENCE
         then gate_result i c REJECT (evidence_strength D p es) 0 [lit ''reasoner_classified_insufficient_evidence'']
         else let strength = evidence_strength D p es; promotion = promotion_confidence (rc_confidence c) strength
         in if rc_classification c = CONTRADICTION
            then gate_result i c REVIEW strength promotion [lit ''contradiction_requires_review'']
            else if rc_classification c = CONTEXT_DEPENDENT
            then gate_result i c REVIEW strength promotion [lit ''context_dependent_requires_review'']
            else if pp_promote p \<le> promotion then gate_result i c PROMOTE strength promotion [lit ''promotion_threshold_met'']
            else if pp_review p \<le> promotion
            then gate_result i c REVIEW strength promotion [lit ''promotion_confidence_requires_review'']
            else gate_result i c REJECT strength promotion [lit ''promotion_confidence_too_low''])"

subsection \<open>Duplicates\<close>

text \<open>\<^verbatim>\<open>context.get("legacy_domain") or context.get("domain")\<close>, when the context is a dictionary.\<close>

definition context_domain :: "json option \<Rightarrow> json" where
  "context_domain context =
     (case context of
        Some (JObj kvs) \<Rightarrow>
          (case map_of kvs (lit ''legacy_domain'') of
             Some v \<Rightarrow> if json_truthy v then v else the_default JNull (map_of kvs (lit ''domain''))
           | None \<Rightarrow> the_default JNull (map_of kvs (lit ''domain'')))
      | _ \<Rightarrow> JNull)"

definition evidence_domain :: "evidence \<Rightarrow> json" where
  "evidence_domain e =
     (case meta_get e ''domain'' of
        Some v \<Rightarrow> if v \<noteq> JNull then v else context_domain (meta_get e ''context'')
      | None \<Rightarrow> context_domain (meta_get e ''context''))"

definition partition_text :: "'a gate_tables_scheme \<Rightarrow> evidence \<Rightarrow> ustr" where
  "partition_text G e =
     gt_dumps G (JArr (map (\<lambda>k. the_default JNull (meta_get e k)) [''tenant'', ''user'', ''agent'', ''project''] @ [evidence_domain e]))"

fun collapse_spaces :: "ustr \<Rightarrow> ustr" where
  "collapse_spaces [] = []"
| "collapse_spaces (c # cs) =
     (if py_space c then (case cs of d # ds \<Rightarrow> if py_space d then collapse_spaces cs else 32 # collapse_spaces cs | [] \<Rightarrow> [32])
      else c # collapse_spaces cs)"

definition candidate_text :: "'a text_tables_scheme \<Rightarrow> reason_candidate \<Rightarrow> ustr" where
  "candidate_text T c = py_strip (tt_casefold T (if rc_content c \<noteq> [] then rc_content c else rc_summary c))"

definition semantic_context :: "reason_candidate \<Rightarrow> json" where
  "semantic_context c =
     (case rc_context c of
        JObj kvs \<Rightarrow> JObj (filter (\<lambda>(k, v). k \<noteq> lit ''task_id'' \<and> k \<noteq> lit ''reasoning_section'') kvs)
      | v \<Rightarrow> v)"

definition folded :: "'a text_tables_scheme \<Rightarrow> ustr \<Rightarrow> ustr" where
  "folded T s = py_strip (tt_casefold T s)"

definition partitions_of :: "'a gate_tables_scheme \<Rightarrow> (ustr \<rightharpoonup> evidence) \<Rightarrow> reason_candidate \<Rightarrow> ustr list" where
  "partitions_of G by_id c = map (partition_text G) (List.map_filter by_id (rc_evidence_ids c))"

definition unknown_ids :: "(ustr \<rightharpoonup> evidence) \<Rightarrow> reason_candidate \<Rightarrow> ustr list" where
  "unknown_ids by_id c = filter (\<lambda>k. by_id k = None) (rc_evidence_ids c)"

text \<open>\<^verbatim>\<open>sorted(set(xs))\<close>.\<close>

definition sorted_set :: "ustr list \<Rightarrow> ustr list" where
  "sorted_set xs = sort (fromkeys xs)"

definition fingerprint :: "'a gate_tables_scheme \<Rightarrow> (ustr \<rightharpoonup> evidence) \<Rightarrow> reason_candidate \<Rightarrow> ustr" where
  "fingerprint G by_id c =
     gt_dumps G (JArr [JStr (collapse_spaces (candidate_text G c)), JStr (folded G (rc_entity_type c)),
       JStr (folded G (classification_value (rc_classification c))), JBool (rc_negative c), semantic_context c,
       JArr (map JStr (sorted_set (partitions_of G by_id c))), JArr (map JStr (sorted_set (unknown_ids by_id c)))])"

type_synonym signature = "ustr \<times> ustr \<times> ustr \<times> bool \<times> ustr \<times> ustr"

definition signature_of :: "'a gate_tables_scheme \<Rightarrow> (ustr \<rightharpoonup> evidence) \<Rightarrow> reason_candidate \<Rightarrow> signature" where
  "signature_of G by_id c =
     (folded G (rc_entity_type c), folded G (classification_value (rc_classification c)), gt_dumps G (semantic_context c), rc_negative c,
      gt_dumps G (JArr (map JStr (sort (partitions_of G by_id c)))),
      gt_dumps G (JArr (map JStr (sorted_set (unknown_ids by_id c)))))"

definition candidate_tokens :: "'a text_tables_scheme \<Rightarrow> reason_candidate \<Rightarrow> ustr list" where
  "candidate_tokens T c = fromkeys (findall (text_tables.truncate T) token_pattern (candidate_text T c))"

definition jaccard :: "ustr list \<Rightarrow> ustr list \<Rightarrow> real" where
  "jaccard xs ys =
     (let common = length (filter (\<lambda>x. x \<in> set ys) xs) in real common / real (length xs + length ys - common))"

definition near_duplicate :: "'a gate_tables_scheme \<Rightarrow> promotion_policy \<Rightarrow> (ustr \<rightharpoonup> evidence) \<Rightarrow> reason_candidate
    \<Rightarrow> (nat \<times> signature \<times> ustr list) list \<Rightarrow> nat option" where
  "near_duplicate G p by_id c kept =
     (let tokens = candidate_tokens G c
      in if length tokens < pp_tokens p then None
         else map_option fst (find (\<lambda>(i, sig, ts). sig = signature_of G by_id c \<and> pp_tokens p \<le> length ts
                \<and> tokens @ ts \<noteq> [] \<and> pp_jaccard p \<le> jaccard tokens ts) kept))"

subsection \<open>The gate\<close>

record gate_state =
  gs_candidates :: "reason_candidate list"
  gs_seen :: "(ustr \<times> nat) list"
  gs_kept :: "(nat \<times> signature \<times> ustr list) list"
  gs_decisions :: "gate_decision list"

definition merged_candidate :: "reason_candidate \<Rightarrow> reason_candidate \<Rightarrow> reason_candidate" where
  "merged_candidate first c = first\<lparr>rc_evidence_ids := fromkeys (rc_evidence_ids first @ rc_evidence_ids c),
     rc_confidence := max (rc_confidence first) (rc_confidence c)\<rparr>"

definition merge_into :: "'a dream_tables_scheme \<Rightarrow> promotion_policy \<Rightarrow> (ustr \<rightharpoonup> evidence) \<Rightarrow> nat \<Rightarrow> ustr \<Rightarrow> nat
    \<Rightarrow> reason_candidate \<Rightarrow> gate_state \<Rightarrow> gate_state" where
  "merge_into D p by_id first label i c g =
     (let merged = merged_candidate (gs_candidates g ! first) c;
          again = evaluate_candidate D p by_id first merged;
          reasons = (if label \<in> set (gd_reasons again) then gd_reasons again else gd_reasons again @ [label])
      in g\<lparr>gs_candidates := (gs_candidates g)[first := merged],
           gs_decisions := (gs_decisions g)[first := again\<lparr>gd_evidence_ids := rc_evidence_ids merged, gd_reasons := reasons\<rparr>]
             @ [gate_result i c REJECT 0 0 [lit ''duplicate_candidate_in_run'', lit ''merged_into_index_'' @ py_str_nat first]]\<rparr>)"

definition gate_step :: "'a gate_tables_scheme \<Rightarrow> promotion_policy \<Rightarrow> (ustr \<rightharpoonup> evidence) \<Rightarrow> nat \<times> reason_candidate
    \<Rightarrow> gate_state \<Rightarrow> gate_state" where
  "gate_step G p by_id = (\<lambda>(i, c) g.
     case map_of (gs_seen g) (fingerprint G by_id c) of
       Some first \<Rightarrow> merge_into G p by_id first (lit ''evidence_merged_from_duplicate'') i c g
     | None \<Rightarrow>
         (case near_duplicate G p by_id c (gs_kept g) of
            Some first \<Rightarrow> merge_into G p by_id first (lit ''evidence_merged_from_near_duplicate'') i c g
          | None \<Rightarrow> g\<lparr>gs_seen := (fingerprint G by_id c, i) # gs_seen g,
              gs_kept := gs_kept g @ [(i, signature_of G by_id c, candidate_tokens G c)],
              gs_decisions := gs_decisions g @ [evaluate_candidate G p by_id i c]\<rparr>))"

record gate_outcome =
  go_request_id :: ustr
  go_decisions :: "gate_decision list"
  go_candidates :: "reason_candidate list"

definition gate :: "'a gate_tables_scheme \<Rightarrow> promotion_policy \<Rightarrow> reason_request \<Rightarrow> reason_result \<Rightarrow> gate_outcome result" where
  "gate G p rq res =
     (if rr_request_id res \<noteq> rq_id rq then Inl (ValueError (lit ''Dream result request_id does not match request''))
      else let g = fold (gate_step G p (evidence_by_id rq)) (enumerate 0 (rr_candidates res))
             \<lparr>gs_candidates = rr_candidates res, gs_seen = [], gs_kept = [], gs_decisions = []\<rparr>
           in Inr \<lparr>go_request_id = rq_id rq, go_decisions = gs_decisions g, go_candidates = gs_candidates g\<rparr>)"

subsection \<open>The invariant of a run\<close>

text \<open>A decision as it was evaluated, with the labels of later merges after its reasons.\<close>

definition with_reasons :: "ustr list \<Rightarrow> gate_decision \<Rightarrow> gate_decision" where
  "with_reasons labels d = d\<lparr>gd_reasons := gd_reasons d @ labels\<rparr>"

lemma with_reasons_Nil: "with_reasons [] d = d"
  by (simp add: with_reasons_def)

lemma evaluate_candidate_simps [simp]:
  "gd_index (evaluate_candidate D p by_id i c) = i"
  "gd_evidence_ids (evaluate_candidate D p by_id i c) = rc_evidence_ids c"
  by (simp_all add: evaluate_candidate_def gate_result_def Let_def)

definition gate_entry :: "'a dream_tables_scheme \<Rightarrow> promotion_policy \<Rightarrow> (ustr \<rightharpoonup> evidence) \<Rightarrow> reason_candidate list
    \<Rightarrow> reason_candidate list \<Rightarrow> nat \<Rightarrow> gate_decision \<Rightarrow> bool" where
  "gate_entry D p by_id orig cands j d \<longleftrightarrow> gd_index d = j \<and>
     ((gd_decision d = REJECT \<and> hd (gd_reasons d) = lit ''duplicate_candidate_in_run''
        \<and> (\<exists>k<j. set (rc_evidence_ids (orig ! j)) \<subseteq> set (rc_evidence_ids (cands ! k))))
      \<or> (\<exists>labels. d = with_reasons labels (evaluate_candidate D p by_id j (cands ! j))))"

lemma gate_entryI_duplicate:
  assumes "gd_index d = j" "gd_decision d = REJECT" "hd (gd_reasons d) = lit ''duplicate_candidate_in_run''" "k < j"
    "set (rc_evidence_ids (orig ! j)) \<subseteq> set (rc_evidence_ids (cands ! k))"
  shows "gate_entry D p by_id orig cands j d"
  using assms unfolding gate_entry_def by blast

lemma gate_entryI_evaluated: "gate_entry D p by_id orig cands j (with_reasons labels (evaluate_candidate D p by_id j (cands ! j)))"
  unfolding gate_entry_def by (rule conjI, simp add: with_reasons_def, rule disjI2, rule exI, rule refl)

lemmas gate_entryI = gate_entryI_duplicate gate_entryI_evaluated

definition gate_inv :: "'a dream_tables_scheme \<Rightarrow> promotion_policy \<Rightarrow> (ustr \<rightharpoonup> evidence) \<Rightarrow> reason_candidate list
    \<Rightarrow> nat \<Rightarrow> gate_state \<Rightarrow> bool" where
  "gate_inv D p by_id orig i g \<longleftrightarrow>
     i \<le> length orig \<and> length (gs_candidates g) = length orig \<and> length (gs_decisions g) = i
     \<and> (\<forall>j. i \<le> j \<longrightarrow> j < length orig \<longrightarrow> gs_candidates g ! j = orig ! j)
     \<and> (\<forall>j<i. gate_entry D p by_id orig (gs_candidates g) j (gs_decisions g ! j))
     \<and> (\<forall>x \<in> set (gs_seen g). snd x < i) \<and> (\<forall>x \<in> set (gs_kept g). fst x < i)
     \<and> (\<forall>j < length orig. rc_content (gs_candidates g ! j) = rc_content (orig ! j)
          \<and> rc_classification (gs_candidates g ! j) = rc_classification (orig ! j)
          \<and> set (rc_evidence_ids (orig ! j)) \<subseteq> set (rc_evidence_ids (gs_candidates g ! j)))"

lemma evaluate_candidate_ids:
  "(evaluate_candidate D p by_id i c)\<lparr>gd_evidence_ids := rc_evidence_ids c, gd_reasons := reasons\<rparr>
     = (evaluate_candidate D p by_id i c)\<lparr>gd_reasons := reasons\<rparr>"
  by (simp add: evaluate_candidate_def gate_result_def Let_def)

lemma near_duplicate_kept:
  assumes "near_duplicate G p by_id c kept = Some first"
  shows "\<exists>x \<in> set kept. first = fst x"
proof -
  from assms obtain P x where "find P kept = Some x" "first = fst x"
    by (auto simp: near_duplicate_def Let_def split: if_splits)
  then show ?thesis using find_SomeD by metis
qed

lemma gate_entry_grow:
  assumes "gate_entry D p by_id orig cands j d" and "j \<noteq> first" and "first < length cands"
    and "set (rc_evidence_ids (cands ! first)) \<subseteq> set (rc_evidence_ids merged)"
  shows "gate_entry D p by_id orig (cands[first := merged]) j d"
proof -
  have eq: "cands[first := merged] ! k = (if k = first then merged else cands ! k)" for k
    using assms(3) by (simp add: nth_list_update)
  from assms(1) consider k where "gd_index d = j" "gd_decision d = REJECT" "hd (gd_reasons d) = lit ''duplicate_candidate_in_run''"
      "k < j" "set (rc_evidence_ids (orig ! j)) \<subseteq> set (rc_evidence_ids (cands ! k))"
    | labels where "d = with_reasons labels (evaluate_candidate D p by_id j (cands ! j))"
    unfolding gate_entry_def by blast
  then show ?thesis
  proof cases
    case 1
    then have "set (rc_evidence_ids (orig ! j)) \<subseteq> set (rc_evidence_ids (cands[first := merged] ! k))" using assms(4) by (auto simp: eq)
    from gate_entryI_duplicate [OF 1(1-4) this] show ?thesis .
  next
    case (2 labels)
    have "gate_entry D p by_id orig (cands[first := merged]) j (with_reasons labels (evaluate_candidate D p by_id j (cands[first := merged] ! j)))"
      by (rule gate_entryI_evaluated)
    then show ?thesis using assms(2) by (simp add: eq 2)
  qed
qed

lemma merge_into_inv:
  assumes inv: "gate_inv D p by_id orig i g" and "first < i" and "i < length orig"
  shows "gate_inv D p by_id orig (Suc i) (merge_into D p by_id first label i (orig ! i) g)"
proof -
  let ?m = "merged_candidate (gs_candidates g ! first) (orig ! i)"
  let ?g = "merge_into D p by_id first label i (orig ! i) g"
  let ?cs = "(gs_candidates g)[first := ?m]"
  have len: "length (gs_candidates g) = length orig" "length (gs_decisions g) = i" using inv by (simp_all add: gate_inv_def)
  have first: "first < length (gs_candidates g)" using assms(2,3) len by simp
  have grow: "set (rc_evidence_ids (gs_candidates g ! first)) \<subseteq> set (rc_evidence_ids ?m)"
    "set (rc_evidence_ids (orig ! i)) \<subseteq> set (rc_evidence_ids ?m)" by (simp_all add: merged_candidate_def)
  have cs: "gs_candidates ?g = ?cs" by (simp add: merge_into_def Let_def)
  have nth: "?cs ! k = (if k = first then ?m else gs_candidates g ! k)" for k using first by (simp add: nth_list_update)
  let ?again = "evaluate_candidate D p by_id first ?m"
  define labels where "labels = (if label \<in> set (gd_reasons ?again) then [] else [label])"
  have ds: "gs_decisions ?g = (gs_decisions g)[first := with_reasons labels ?again]
      @ [gate_result i (orig ! i) REJECT 0 0 [lit ''duplicate_candidate_in_run'', lit ''merged_into_index_'' @ py_str_nat first]]"
    by (simp only: merge_into_def Let_def labels_def with_reasons_def evaluate_candidate_ids) simp
  have entry: "gate_entry D p by_id orig ?cs j (gs_decisions ?g ! j)" if lt: "j < Suc i" for j
  proof -
    consider "j = i" | "j = first" "j < i" | "j \<noteq> first" "j < i" using lt assms(2) by linarith
    then show ?thesis
    proof cases
      case 1
      then have "gs_decisions ?g ! j = gate_result i (orig ! i) REJECT 0 0 [lit ''duplicate_candidate_in_run'', lit ''merged_into_index_'' @ py_str_nat first]"
        using len(2) by (simp add: ds nth_append)
      then show ?thesis using 1 grow(2) by (auto intro!: gate_entryI_duplicate [OF _ _ _ assms(2)] simp: gate_result_def nth)
    next
      case 2
      then have "gs_decisions ?g ! j = with_reasons labels ?again" using len(2) by (simp add: ds nth_append)
      then show ?thesis using gate_entryI_evaluated [of D p by_id orig ?cs first labels] 2 nth [of first] by simp
    next
      case 3
      then have "gs_decisions ?g ! j = gs_decisions g ! j" using len(2) by (simp add: ds nth_append)
      moreover have "gate_entry D p by_id orig (gs_candidates g) j (gs_decisions g ! j)" using inv 3 by (simp add: gate_inv_def)
      ultimately show ?thesis using gate_entry_grow [OF _ 3(1) first grow(1)] by simp
    qed
  qed
  have later: "?cs ! j = orig ! j" if "Suc i \<le> j" "j < length orig" for j
    using inv that assms(2) by (simp add: gate_inv_def nth)
  have kept: "rc_content (?cs ! j) = rc_content (orig ! j) \<and> rc_classification (?cs ! j) = rc_classification (orig ! j)
      \<and> set (rc_evidence_ids (orig ! j)) \<subseteq> set (rc_evidence_ids (?cs ! j))" if "j < length orig" for j
    using inv that grow(1) unfolding gate_inv_def nth by (auto simp: merged_candidate_def)
  have idx: "\<forall>x \<in> set (gs_seen ?g). snd x < Suc i" "\<forall>x \<in> set (gs_kept ?g). fst x < Suc i"
    using inv by (auto simp: gate_inv_def merge_into_def Let_def)
  have "length (gs_decisions ?g) = Suc i" using len(2) by (simp add: ds)
  with entry later kept idx len assms(3) show ?thesis unfolding gate_inv_def cs by simp
qed

lemma gate_step_inv:
  assumes inv: "gate_inv G p by_id orig i g" and "i < length orig"
  shows "gate_inv G p by_id orig (Suc i) (gate_step G p by_id (i, orig ! i) g)"
proof (cases "map_of (gs_seen g) (fingerprint G by_id (orig ! i))")
  case (Some first)
  from map_of_SomeD [OF Some] inv have "first < i" by (auto simp: gate_inv_def)
  from merge_into_inv [OF inv this assms(2)] show ?thesis by (simp add: gate_step_def Some)
next
  case None
  show ?thesis
  proof (cases "near_duplicate G p by_id (orig ! i) (gs_kept g)")
    case near: (Some first)
    from near_duplicate_kept [OF near] inv have "first < i" by (auto simp: gate_inv_def)
    from merge_into_inv [OF inv this assms(2)] show ?thesis by (simp add: gate_step_def None near)
  next
    case far: None
    let ?g = "gate_step G p by_id (i, orig ! i) g"
    have g: "gs_candidates ?g = gs_candidates g" "gs_decisions ?g = gs_decisions g @ [evaluate_candidate G p by_id i (orig ! i)]"
      "gs_seen ?g = (fingerprint G by_id (orig ! i), i) # gs_seen g"
      "gs_kept ?g = gs_kept g @ [(i, signature_of G by_id (orig ! i), candidate_tokens G (orig ! i))]"
      by (simp_all add: gate_step_def None far)
    have len: "length (gs_decisions g) = i" using inv by (simp add: gate_inv_def)
    have "gate_entry G p by_id orig (gs_candidates g) j (gs_decisions ?g ! j)" if "j < Suc i" for j
    proof (cases "j = i")
      case True
      have "gs_candidates g ! i = orig ! i" using inv assms(2) by (simp add: gate_inv_def)
      then show ?thesis using gate_entryI_evaluated [of G p by_id orig "gs_candidates g" i "[]"] True len
        by (simp add: g nth_append with_reasons_Nil)
    next
      case False
      then show ?thesis using inv that len by (simp add: gate_inv_def g nth_append)
    qed
    then show ?thesis using inv assms(2) unfolding gate_inv_def g(1,3,4) by (auto simp: g(2) less_Suc_eq)
  qed
qed

lemma gate_fold_inv:
  "gate_inv G p by_id orig i g \<Longrightarrow> i + length cs = length orig \<Longrightarrow> drop i orig = cs \<Longrightarrow>
     gate_inv G p by_id orig (length orig) (fold (gate_step G p by_id) (enumerate i cs) g)"
proof (induction cs arbitrary: i g)
  case (Cons c cs)
  have i: "i < length orig" using Cons.prems(2) by simp
  then have c: "c = orig ! i" "drop (Suc i) orig = cs" using Cons.prems(3) by (simp_all add: Cons_nth_drop_Suc [symmetric])
  have "gate_inv G p by_id orig (Suc i) (gate_step G p by_id (i, c) g)" using gate_step_inv [OF Cons.prems(1) i] c(1) by simp
  from Cons.IH [OF this _ c(2)] Cons.prems(2) show ?case by simp
qed simp

lemma gate_inv_final:
  assumes "gate G p rq res = Inr out"
  shows "\<exists>g. gate_inv G p (evidence_by_id rq) (rr_candidates res) (length (rr_candidates res)) g
    \<and> go_decisions out = gs_decisions g \<and> go_candidates out = gs_candidates g"
proof -
  let ?g0 = "\<lparr>gs_candidates = rr_candidates res, gs_seen = [], gs_kept = [], gs_decisions = []\<rparr>"
  have "gate_inv G p (evidence_by_id rq) (rr_candidates res) 0 ?g0" by (simp add: gate_inv_def)
  from gate_fold_inv [OF this, of "rr_candidates res"] assms show ?thesis
    by (auto simp: gate_def Let_def split: if_splits)
qed

subsection \<open>What a promotion needs\<close>

lemma evaluate_reasons:
  "gd_reasons (evaluate_candidate D p by_id i c) \<noteq> []"
  "hd (gd_reasons (evaluate_candidate D p by_id i c)) \<noteq> lit ''duplicate_candidate_in_run''"
  by (simp_all add: evaluate_candidate_def gate_result_def Let_def lit_def)

lemma evaluate_promotes:
  assumes "gd_decision (evaluate_candidate D p by_id i c) = PROMOTE"
  shows "\<forall>k \<in> set (rc_evidence_ids c). by_id k \<noteq> None"
    and "pp_minimum p \<le> length (rc_evidence_ids c)"
    and "pp_promote p \<le> promotion_confidence (rc_confidence c) (evidence_strength D p (List.map_filter by_id (rc_evidence_ids c)))"
    and "rc_classification c \<notin> {CONTRADICTION, CONTEXT_DEPENDENT, INSUFFICIENT_EVIDENCE}"
proof -
  let ?ids = "rc_evidence_ids c"
  from assms have known: "\<not> list_ex (\<lambda>k. by_id k = None) ?ids"
    by (auto simp: evaluate_candidate_def gate_result_def Let_def split: if_splits)
  then show *: "\<forall>k \<in> set ?ids. by_id k \<noteq> None" by (auto simp: list_ex_iff)
  then have "length (List.map_filter by_id ?ids) = length ?ids" by (induction ?ids arbitrary: c) (auto simp: List.map_filter_def)
  moreover have "pp_minimum p \<le> length (List.map_filter by_id ?ids)"
    using assms known by (auto simp: evaluate_candidate_def gate_result_def Let_def split: if_splits)
  ultimately show "pp_minimum p \<le> length ?ids" by simp
  show "pp_promote p \<le> promotion_confidence (rc_confidence c) (evidence_strength D p (List.map_filter by_id ?ids))"
    and "rc_classification c \<notin> {CONTRADICTION, CONTEXT_DEPENDENT, INSUFFICIENT_EVIDENCE}"
    using assms known by (auto simp: evaluate_candidate_def gate_result_def Let_def split: if_splits)
qed

definition verification_share :: "'a dream_tables_scheme \<Rightarrow> promotion_policy \<Rightarrow> evidence list \<Rightarrow> real" where
  "verification_share D p es =
     (if es = [] then 0 else (7 / 10 * real (length (filter (\<lambda>e. verification_text D e \<in> set (pp_strong p)) es))
        + 3 / 10 * real (length (filter (\<lambda>e. verification_text D e \<noteq> []) es))) / real (length es))"

lemma evidence_strength_le:
  assumes "real (distinct_values ev_id es) \<le> a" "real (distinct_values ev_record_type es) \<le> b" "verification_share D p es \<le> v"
    and "0 \<le> 45 / 300 * a + 4 / 10 * v + 15 / 200 * b"
  shows "evidence_strength D p es \<le> 45 / 300 * a + 4 / 10 * v + 15 / 200 * b"
proof -
  define x y z where "x = min 1 (real (distinct_values ev_id es) / 3)" and "y = min 1 (real (distinct_values ev_record_type es) / 2)"
    and "z = verification_share D p es"
  have "x \<le> a / 3" "y \<le> b / 2" "z \<le> v" using assms by (auto simp: x_def y_def z_def min_def)
  moreover have "evidence_strength D p es = max 0 (min 1 (45 / 100 * x + 4 / 10 * z + 15 / 100 * y))"
    by (simp only: evidence_strength_def verification_share_def x_def y_def z_def Let_def)
  ultimately show ?thesis using assms(4) by (auto simp: max_def min_def)
qed

lemma verification_share_le: "verification_share D p es \<le> 1"
proof -
  have "real (length (filter (\<lambda>e. verification_text D e \<in> set (pp_strong p)) es)) \<le> real (length es)"
    "real (length (filter (\<lambda>e. verification_text D e \<noteq> []) es)) \<le> real (length es)" by simp_all
  then have "7 / 10 * real (length (filter (\<lambda>e. verification_text D e \<in> set (pp_strong p)) es))
      + 3 / 10 * real (length (filter (\<lambda>e. verification_text D e \<noteq> []) es)) \<le> real (length es)" by linarith
  then show ?thesis unfolding verification_share_def by (cases "es = []") (simp_all only: if_True if_False divide_le_eq, simp_all)
qed

lemma verification_share_none:
  assumes "\<forall>e \<in> set es. verification_text D e = []" and "[] \<notin> set (pp_strong p)"
  shows "verification_share D p es = 0"
proof -
  have "filter (\<lambda>e. verification_text D e \<in> set (pp_strong p)) es = []" "filter (\<lambda>e. verification_text D e \<noteq> []) es = []"
    using assms by (auto simp: filter_empty_conv)
  then show ?thesis by (simp add: verification_share_def)
qed

lemma promotion_confidence_le:
  assumes "s \<le> x" "0 \<le> x" shows "promotion_confidence r s \<le> 35 / 100 + 65 / 100 * x"
  using assms by (auto simp: promotion_confidence_def max_def min_def)

lemma distinct_values_le: "distinct_values f xs \<le> n \<longleftrightarrow> card (f ` set xs) \<le> n"
  by (simp add: distinct_values_def distinct_card [symmetric])

text \<open>Without two distinct items, or without any verification, the default threshold is out of reach.\<close>

lemma default_threshold_two:
  assumes "pp_promote default_promotion \<le> promotion_confidence r (evidence_strength D default_promotion es)"
    and same: "\<forall>e \<in> set es. \<forall>e' \<in> set es. ev_id e = ev_id e' \<longrightarrow> e = e'"
  shows "2 \<le> card (ev_id ` set es)"
proof (rule ccontr)
  assume few: "\<not> 2 \<le> card (ev_id ` set es)"
  have inj: "inj_on ev_id (set es)" using same by (simp add: inj_on_def)
  have "card (ev_record_type ` set es) \<le> card (set es)" by (simp add: card_image_le)
  also have "\<dots> = card (ev_id ` set es)" by (rule card_image [OF inj, symmetric])
  finally have "distinct_values ev_id es \<le> 1" "distinct_values ev_record_type es \<le> 1" using few by (simp_all add: distinct_values_le)
  then have "evidence_strength D default_promotion es \<le> 45 / 300 * 1 + 4 / 10 * 1 + 15 / 200 * 1"
    by (intro evidence_strength_le verification_share_le) simp_all
  then have "promotion_confidence r (evidence_strength D default_promotion es) \<le> 35 / 100 + 65 / 100 * (625 / 1000)"
    by (intro promotion_confidence_le) simp_all
  with assms(1) show False by (simp add: default_promotion_def)
qed

lemma default_threshold_verified:
  assumes "pp_promote default_promotion \<le> promotion_confidence r (evidence_strength D default_promotion es)"
  shows "\<exists>e \<in> set es. verification_text D e \<noteq> []"
proof (rule ccontr)
  assume "\<not> ?thesis"
  then have none: "verification_share D default_promotion es = 0"
    by (intro verification_share_none) (auto simp: default_promotion_def lit_def)
  define x y where "x = min 1 (real (distinct_values ev_id es) / 3)" and "y = min 1 (real (distinct_values ev_record_type es) / 2)"
  have "x \<le> 1" "y \<le> 1" by (simp_all add: x_def y_def)
  moreover have "evidence_strength D default_promotion es
      = max 0 (min 1 (45 / 100 * x + 4 / 10 * verification_share D default_promotion es + 15 / 100 * y))"
    by (simp only: evidence_strength_def verification_share_def x_def y_def Let_def)
  ultimately have "evidence_strength D default_promotion es \<le> 6 / 10" by (simp add: none max_def min_def)
  then have "promotion_confidence r (evidence_strength D default_promotion es) \<le> 35 / 100 + 65 / 100 * (6 / 10)"
    by (intro promotion_confidence_le) simp_all
  with assms show False by (simp add: default_promotion_def)
qed


lemma evidence_by_id_key: "evidence_by_id rq k = Some e \<Longrightarrow> ev_id e = k"
  by (auto simp: evidence_by_id_def dest!: map_of_SomeD)

lemma gate_known_evidence:
  assumes "\<forall>k \<in> set ids. evidence_by_id rq k \<noteq> None"
  shows "set (List.map_filter (evidence_by_id rq) ids) = (the \<circ> evidence_by_id rq) ` set ids"
    and "ev_id ` set (List.map_filter (evidence_by_id rq) ids) = set ids"
proof -
  show eq: "set (List.map_filter (evidence_by_id rq) ids) = (the \<circ> evidence_by_id rq) ` set ids"
    using assms by (induction ids) (auto simp: List.map_filter_def)
  have "ev_id (the (evidence_by_id rq k)) = k" if "k \<in> set ids" for k
    using assms that evidence_by_id_key by fastforce
  then show "ev_id ` set (List.map_filter (evidence_by_id rq) ids) = set ids" unfolding eq by (force simp: image_image)
qed

lemma evaluated_is_no_duplicate:
  "hd (gd_reasons (with_reasons labels (evaluate_candidate D p by_id i c))) \<noteq> lit ''duplicate_candidate_in_run''"
  using evaluate_reasons [of D p by_id i c] by (simp add: with_reasons_def)

text \<open>
  C26. The gate decides every candidate of a result once, in order, and keeps the content of every
  candidate. A duplicate is rejected only after all its evidence has been merged into an
  earlier candidate. A promoted candidate cites only evidence of the request, at least the
  minimum number of ids, and is neither a contradiction nor context dependent; under the
  default policy no reasoner's confidence promotes it unless it cites two different items of
  evidence, one of them with a verification.
\<close>

theorem promotion_is_corroborated:
  assumes "gate G p rq res = Inr out" and "i < length (rr_candidates res)"
  shows "length (go_decisions out) = length (rr_candidates res) \<and> length (go_candidates out) = length (rr_candidates res)
    \<and> gd_index (go_decisions out ! i) = i
    \<and> rc_content (go_candidates out ! i) = rc_content (rr_candidates res ! i)
    \<and> set (rc_evidence_ids (rr_candidates res ! i)) \<subseteq> set (rc_evidence_ids (go_candidates out ! i))
    \<and> (hd (gd_reasons (go_decisions out ! i)) = lit ''duplicate_candidate_in_run'' \<longrightarrow>
         gd_decision (go_decisions out ! i) = REJECT \<and> (\<exists>k<i. set (rc_evidence_ids (rr_candidates res ! i)) \<subseteq> set (rc_evidence_ids (go_candidates out ! k))))
    \<and> (gd_decision (go_decisions out ! i) = PROMOTE \<longrightarrow>
         gd_evidence_ids (go_decisions out ! i) = rc_evidence_ids (go_candidates out ! i)
         \<and> set (rc_evidence_ids (go_candidates out ! i)) \<subseteq> dom (evidence_by_id rq)
         \<and> pp_minimum p \<le> length (rc_evidence_ids (go_candidates out ! i))
         \<and> rc_classification (go_candidates out ! i) \<notin> {CONTRADICTION, CONTEXT_DEPENDENT, INSUFFICIENT_EVIDENCE}
         \<and> (p = default_promotion \<longrightarrow> 2 \<le> card (set (rc_evidence_ids (go_candidates out ! i)))
              \<and> (\<exists>k \<in> set (rc_evidence_ids (go_candidates out ! i)). verification_text G (the (evidence_by_id rq k)) \<noteq> [])))"
proof -
  let ?d = "go_decisions out ! i" and ?c = "go_candidates out ! i"
  obtain g where inv: "gate_inv G p (evidence_by_id rq) (rr_candidates res) (length (rr_candidates res)) g"
    and out: "go_decisions out = gs_decisions g" "go_candidates out = gs_candidates g" using gate_inv_final [OF assms(1)] by blast
  have len: "length (go_decisions out) = length (rr_candidates res)" "length (go_candidates out) = length (rr_candidates res)"
    and kept: "rc_content ?c = rc_content (rr_candidates res ! i)" "set (rc_evidence_ids (rr_candidates res ! i)) \<subseteq> set (rc_evidence_ids ?c)"
    and entry: "gate_entry G p (evidence_by_id rq) (rr_candidates res) (go_candidates out) i ?d"
    using inv assms(2) by (simp_all add: gate_inv_def out)
  have idx: "gd_index ?d = i" using entry by (simp add: gate_entry_def)
  have duplicate: "gd_decision ?d = REJECT \<and> (\<exists>k<i. set (rc_evidence_ids (rr_candidates res ! i)) \<subseteq> set (rc_evidence_ids (go_candidates out ! k)))"
    if "hd (gd_reasons ?d) = lit ''duplicate_candidate_in_run''"
    using entry that evaluated_is_no_duplicate unfolding gate_entry_def by metis
  have promoted: "gd_evidence_ids ?d = rc_evidence_ids ?c \<and> set (rc_evidence_ids ?c) \<subseteq> dom (evidence_by_id rq)
      \<and> pp_minimum p \<le> length (rc_evidence_ids ?c) \<and> rc_classification ?c \<notin> {CONTRADICTION, CONTEXT_DEPENDENT, INSUFFICIENT_EVIDENCE}
      \<and> (p = default_promotion \<longrightarrow> 2 \<le> card (set (rc_evidence_ids ?c))
           \<and> (\<exists>k \<in> set (rc_evidence_ids ?c). verification_text G (the (evidence_by_id rq k)) \<noteq> []))"
    if promote: "gd_decision ?d = PROMOTE"
  proof -
    obtain labels where d: "?d = with_reasons labels (evaluate_candidate G p (evidence_by_id rq) i ?c)"
      using entry promote unfolding gate_entry_def by auto
    then have ev: "gd_decision (evaluate_candidate G p (evidence_by_id rq) i ?c) = PROMOTE" using promote by (simp add: with_reasons_def)
    note facts = evaluate_promotes [OF ev]
    note known = gate_known_evidence [OF facts(1)]
    let ?es = "List.map_filter (evidence_by_id rq) (rc_evidence_ids ?c)"
    have same: "\<forall>e \<in> set ?es. \<forall>e' \<in> set ?es. ev_id e = ev_id e' \<longrightarrow> e = e'"
      unfolding known(1) using facts(1) evidence_by_id_key by fastforce
    have "2 \<le> card (set (rc_evidence_ids ?c)) \<and> (\<exists>k \<in> set (rc_evidence_ids ?c). verification_text G (the (evidence_by_id rq k)) \<noteq> [])"
      if p: "p = default_promotion"
      using default_threshold_two [OF facts(3) [unfolded p] same] default_threshold_verified [OF facts(3) [unfolded p]]
      unfolding known(2) unfolding known(1) by auto
    moreover have "gd_evidence_ids ?d = rc_evidence_ids ?c" unfolding d by (simp add: with_reasons_def)
    moreover have "set (rc_evidence_ids ?c) \<subseteq> dom (evidence_by_id rq)" using facts(1) by auto
    ultimately show ?thesis using facts(2,4) by blast
  qed
  from len idx kept duplicate promoted show ?thesis by (intro conjI impI) blast+
qed


definition tested_item :: "nat \<Rightarrow> string \<Rightarrow> evidence" where
  "tested_item i kind = \<lparr>ev_id = [i], ev_record_type = lit kind, ev_content = lit ''abc'', ev_score = None, ev_event_time = None,
     ev_metadata = JObj [(lit ''verification'', JStr (lit ''tested''))]\<rparr>"

definition tested_request :: reason_request where
  "tested_request = \<lparr>rq_id = [114], rq_session = [115], rq_topics = [[97]], rq_start = 7, rq_end = 7, rq_version = [49],
     rq_evidence = [([97], [tested_item 3 ''episode'', tested_item 4 ''event''])]\<rparr>"

definition tested_candidate :: reason_candidate where
  "tested_candidate = \<lparr>rc_entity_name = [97], rc_entity_type = [98], rc_summary = [99], rc_content = [100],
     rc_evidence_ids = [[3], [4]], rc_confidence = 1, rc_classification = NEW_KNOWLEDGE, rc_negative = False, rc_context = JObj []\<rparr>"

definition sample_gate :: gate_tables where
  "sample_gate = \<lparr>tt_casefold = (\<lambda>s. s), tt_word = lower_alnum, tt_digit = ascii_digit, tt_same = (\<lambda>a b. a = b),
     dx_str = (\<lambda>_. []), dx_iso = (\<lambda>_. []), gt_dumps = (\<lambda>_. [])\<rparr>"

definition tested_outcome :: gate_outcome where
  "tested_outcome = \<lparr>go_request_id = [114],
     go_decisions = [evaluate_candidate sample_gate default_promotion (evidence_by_id tested_request) 0 tested_candidate],
     go_candidates = [tested_candidate]\<rparr>"

lemma tested_gate: "gate sample_gate default_promotion tested_request \<lparr>rr_request_id = [114], rr_candidates = [tested_candidate], rr_notes = []\<rparr>
    = Inr tested_outcome"
proof -
  have "near_duplicate G p by_id c [] = None" for G :: gate_tables and p by_id c by (simp add: near_duplicate_def Let_def)
  moreover have "rq_id tested_request = [114]" by (simp add: tested_request_def)
  ultimately show ?thesis by (simp add: gate_def gate_step_def tested_outcome_def)
qed

lemma tested_promoted: "gd_decision (evaluate_candidate sample_gate default_promotion (evidence_by_id tested_request) 0 tested_candidate) = PROMOTE"
proof -
  have by_id: "evidence_by_id tested_request [3] = Some (tested_item 3 ''episode'')" "evidence_by_id tested_request [4] = Some (tested_item 4 ''event'')"
    by (simp_all add: evidence_by_id_def tested_request_def tested_item_def)
  have "verification_text sample_gate (tested_item i k) = lit ''tested''" for i k
    by (simp add: verification_text_def tested_item_def sample_gate_def meta_text_def meta_get_def text_or_empty_def json_str_def
        lit_def py_strip_def py_rstrip_def py_lstrip_def py_space_def)
  moreover have "distinct_values ev_id [tested_item 3 ''episode'', tested_item 4 ''event''] = 2"
    "distinct_values ev_record_type [tested_item 3 ''episode'', tested_item 4 ''event''] = 2" by code_simp+
  ultimately have "evidence_strength sample_gate default_promotion [tested_item 3 ''episode'', tested_item 4 ''event''] = 85 / 100"
    by (simp add: evidence_strength_def default_promotion_def lit_def Let_def)
  moreover have "pp_minimum default_promotion = 2" "pp_promote default_promotion = 78 / 100" by (simp_all add: default_promotion_def)
  ultimately show ?thesis
    by (simp add: evaluate_candidate_def tested_candidate_def by_id List.map_filter_def gate_result_def promotion_confidence_def Let_def)
qed

lemma promotion_is_corroborated_witness:
  "set (rc_evidence_ids (go_candidates tested_outcome ! 0)) \<subseteq> dom (evidence_by_id tested_request)
    \<and> 2 \<le> card (set (rc_evidence_ids (go_candidates tested_outcome ! 0)))"
  using promotion_is_corroborated [OF tested_gate, of 0] tested_promoted by (simp add: tested_outcome_def)

end
