(* ===== verification/Dream_Audit.thy ===== *)
theory Dream_Audit
  imports Dream_Gate "HOL-Library.Product_Lexorder"
begin

text \<open>
  The audit database of dream runs, \<^verbatim>\<open>cyberbrain/dreaming/audit.py\<close>, with the coordinator that
  gates and records a run (\<^verbatim>\<open>promotion.py\<close>) and the resolver of human reviews
  (\<^verbatim>\<open>review.py\<close>). The four SQLite tables are lists of rows; every operation is one transaction,
  so an operation that raises is \<open>Inl\<close> and changes nothing, except where the code runs several
  in turn. Columns that hold JSON texts are modelled by the value; times are microseconds.
\<close>

datatype run_status = RUN_PROCESSING | RUN_EVALUATED | RUN_FAILED

record audit_run =
  au_id :: ustr
  au_session :: ustr
  au_request :: ustr
  au_status :: run_status
  au_evidence :: "ustr list"
  au_snapshot :: "json option"
  au_count :: nat
  au_created :: int
  au_completed :: "int option"
  au_authority :: "json option"

record decision_row =
  de_run :: ustr
  de_index :: nat
  de_candidate :: reason_candidate
  de_decision :: promotion_decision
  de_reasoner :: real
  de_strength :: real
  de_promotion :: real
  de_evidence :: "ustr list"
  de_reasons :: "ustr list"
  de_created :: int

record write_row =
  wr_run :: ustr
  wr_index :: nat
  wr_status :: ustr
  wr_reason :: ustr
  wr_outcome :: "ustr option"
  wr_knowledge :: "ustr option"
  wr_previous :: "ustr option"
  wr_created :: int

record review_row =
  rv_run :: ustr
  rv_index :: nat
  rv_resolution :: ustr
  rv_reviewer :: ustr
  rv_reason :: "ustr option"
  rv_created :: int

record audit =
  ad_runs :: "audit_run list"
  ad_decisions :: "decision_row list"
  ad_writes :: "write_row list"
  ad_reviews :: "review_row list"

definition empty_audit :: audit where
  "empty_audit = \<lparr>ad_runs = [], ad_decisions = [], ad_writes = [], ad_reviews = []\<rparr>"

subsection \<open>Runs\<close>

definition run_by_id :: "ustr \<Rightarrow> audit \<Rightarrow> audit_run option" where
  "run_by_id i a = find (\<lambda>r. au_id r = i) (ad_runs a)"

definition run_by_request :: "ustr \<Rightarrow> audit \<Rightarrow> audit_run option" where
  "run_by_request i a = find (\<lambda>r. au_request r = i) (ad_runs a)"

definition visible_run :: "unicode_tables \<Rightarrow> caller_authority option \<Rightarrow> ustr \<Rightarrow> audit_run option \<Rightarrow> audit_run result" where
  "visible_run U ctx key row =
     (case row of
        None \<Rightarrow> Inl (KeyError key)
      | Some r \<Rightarrow> bindE (snapshot_visible U ctx (au_authority r)) (\<lambda>v. if v then Inr r else Inl (KeyError key)))"

definition assert_run_visible :: "unicode_tables \<Rightarrow> caller_authority option \<Rightarrow> ustr \<Rightarrow> audit \<Rightarrow> unit result" where
  "assert_run_visible U ctx i a = bindE (visible_run U ctx i (run_by_id i a)) (\<lambda>_. Inr ())"

text \<open>
  The row read back is the row written; its evidence ids are a JSON array the program wrote.
\<close>

definition get_run :: "unicode_tables \<Rightarrow> caller_authority option \<Rightarrow> ustr \<Rightarrow> audit \<Rightarrow> audit_run result" where
  "get_run U ctx i a = visible_run U ctx i (run_by_id i a)"

definition get_by_request :: "unicode_tables \<Rightarrow> caller_authority option \<Rightarrow> ustr \<Rightarrow> audit \<Rightarrow> audit_run result" where
  "get_by_request U ctx i a = visible_run U ctx i (run_by_request i a)"

text \<open>
  \<^verbatim>\<open>INSERT ... ON CONFLICT(request_id) DO NOTHING\<close>: SQLite checks the conflict target before the
  primary key, whose conflict is an integrity error. The snapshot of the request is an argument.
\<close>

definition start_run :: "unicode_tables \<Rightarrow> caller_authority option \<Rightarrow> int \<Rightarrow> (reason_request \<Rightarrow> json) \<Rightarrow> ustr \<Rightarrow> reason_request
    \<Rightarrow> audit \<Rightarrow> audit_run result \<times> audit" where
  "start_run U ctx now snapshot i rq a =
     (if run_by_request (rq_id rq) a \<noteq> None then (get_by_request U ctx (rq_id rq) a, a)
      else if run_by_id i a \<noteq> None then (Inl (StorageError (lit ''UNIQUE constraint failed: dream_runs.id'')), a)
      else let a' = a\<lparr>ad_runs := ad_runs a @ [\<lparr>au_id = i, au_session = rq_session rq, au_request = rq_id rq,
             au_status = RUN_PROCESSING, au_evidence = sorted_set (concat (map (map ev_id \<circ> snd) (rq_evidence rq))),
             au_snapshot = Some (snapshot rq), au_count = 0, au_created = now, au_completed = None,
             au_authority = Some (authority_snapshot None ctx)\<rparr>]\<rparr>
           in (get_by_request U ctx (rq_id rq) a', a'))"

definition update_run :: "ustr \<Rightarrow> (audit_run \<Rightarrow> audit_run) \<Rightarrow> audit \<Rightarrow> audit" where
  "update_run i f a = a\<lparr>ad_runs := map (\<lambda>r. if au_id r = i then f r else r) (ad_runs a)\<rparr>"

definition decision_of :: "int \<Rightarrow> ustr \<Rightarrow> reason_candidate list \<Rightarrow> gate_decision \<Rightarrow> decision_row result" where
  "decision_of now i candidates d =
     (if gd_index d < length candidates
      then Inr \<lparr>de_run = i, de_index = gd_index d, de_candidate = candidates ! gd_index d, de_decision = gd_decision d,
             de_reasoner = gd_reasoner d, de_strength = gd_strength d, de_promotion = gd_promotion d,
             de_evidence = gd_evidence_ids d, de_reasons = gd_reasons d, de_created = now\<rparr>
      else Inl (IndexError (lit ''list index out of range'')))"

text \<open>\<^verbatim>\<open>INSERT OR REPLACE\<close> deletes the row with the same key and appends the new one.\<close>

definition replace_decision :: "decision_row \<Rightarrow> decision_row list \<Rightarrow> decision_row list" where
  "replace_decision d ds = filter (\<lambda>x. \<not> (de_run x = de_run d \<and> de_index x = de_index d)) ds @ [d]"

definition complete_run :: "unicode_tables \<Rightarrow> caller_authority option \<Rightarrow> int \<Rightarrow> ustr \<Rightarrow> reason_candidate list \<Rightarrow> gate_decision list
    \<Rightarrow> audit \<Rightarrow> (audit_run \<times> audit) result" where
  "complete_run U ctx now i candidates decisions a =
     bindE (assert_run_visible U ctx i a) (\<lambda>_.
     bindE (mapE (decision_of now i candidates) decisions) (\<lambda>rows.
       let a' = update_run i (\<lambda>r. r\<lparr>au_status := RUN_EVALUATED, au_count := length candidates, au_completed := Some now\<rparr>)
             (a\<lparr>ad_decisions := fold replace_decision rows (ad_decisions a)\<rparr>)
       in bindE (get_run U ctx i a') (\<lambda>r. Inr (r, a'))))"

definition mark_run_failed :: "unicode_tables \<Rightarrow> caller_authority option \<Rightarrow> int \<Rightarrow> ustr \<Rightarrow> audit \<Rightarrow> audit result" where
  "mark_run_failed U ctx now i a =
     bindE (assert_run_visible U ctx i a) (\<lambda>_.
       Inr (update_run i (\<lambda>r. r\<lparr>au_status := RUN_FAILED, au_completed := Some now\<rparr>) a))"

definition request_snapshot :: "unicode_tables \<Rightarrow> caller_authority option \<Rightarrow> ustr \<Rightarrow> audit \<Rightarrow> json result" where
  "request_snapshot U ctx i a =
     bindE (get_run U ctx i a) (\<lambda>r.
       case au_snapshot r of
         None \<Rightarrow> Inl (ValueError (lit ''dream run does not contain a request snapshot''))
       | Some (JObj kvs) \<Rightarrow> Inr (JObj kvs)
       | Some _ \<Rightarrow> Inl (ValueError (lit ''dream request snapshot must be an object'')))"

subsection \<open>Decisions, writes and reviews\<close>

definition decisions_of :: "unicode_tables \<Rightarrow> caller_authority option \<Rightarrow> ustr \<Rightarrow> audit \<Rightarrow> decision_row list result" where
  "decisions_of U ctx i a =
     bindE (assert_run_visible U ctx i a) (\<lambda>_. Inr (sort_key de_index (filter (\<lambda>d. de_run d = i) (ad_decisions a))))"

definition find_decision :: "ustr \<Rightarrow> nat \<Rightarrow> audit \<Rightarrow> decision_row option" where
  "find_decision i n a = find (\<lambda>d. de_run d = i \<and> de_index d = n) (ad_decisions a)"

definition decision_key :: "ustr \<Rightarrow> nat \<Rightarrow> ustr" where
  "decision_key i n = i @ lit '', '' @ py_str_nat n"

definition get_decision :: "unicode_tables \<Rightarrow> caller_authority option \<Rightarrow> ustr \<Rightarrow> nat \<Rightarrow> audit \<Rightarrow> decision_row result" where
  "get_decision U ctx i n a =
     bindE (assert_run_visible U ctx i a) (\<lambda>_.
       case find_decision i n a of None \<Rightarrow> Inl (KeyError (decision_key i n)) | Some d \<Rightarrow> Inr d)"

definition record_write :: "unicode_tables \<Rightarrow> caller_authority option \<Rightarrow> write_row \<Rightarrow> audit \<Rightarrow> audit result" where
  "record_write U ctx w a =
     bindE (assert_run_visible U ctx (wr_run w) a) (\<lambda>_.
       Inr (a\<lparr>ad_writes := filter (\<lambda>x. \<not> (wr_run x = wr_run w \<and> wr_index x = wr_index w)) (ad_writes a) @ [w]\<rparr>))"

definition get_write :: "unicode_tables \<Rightarrow> caller_authority option \<Rightarrow> ustr \<Rightarrow> nat \<Rightarrow> audit \<Rightarrow> write_row option result" where
  "get_write U ctx i n a =
     bindE (assert_run_visible U ctx i a) (\<lambda>_. Inr (find (\<lambda>w. wr_run w = i \<and> wr_index w = n) (ad_writes a)))"

definition writes_of :: "unicode_tables \<Rightarrow> caller_authority option \<Rightarrow> ustr \<Rightarrow> audit \<Rightarrow> write_row list result" where
  "writes_of U ctx i a =
     bindE (assert_run_visible U ctx i a) (\<lambda>_. Inr (sort_key wr_index (filter (\<lambda>w. wr_run w = i) (ad_writes a))))"

definition find_review :: "ustr \<Rightarrow> nat \<Rightarrow> audit \<Rightarrow> review_row option" where
  "find_review i n a = find (\<lambda>r. rv_run r = i \<and> rv_index r = n) (ad_reviews a)"

definition review_resolution :: "unicode_tables \<Rightarrow> caller_authority option \<Rightarrow> ustr \<Rightarrow> nat \<Rightarrow> audit \<Rightarrow> review_row option result" where
  "review_resolution U ctx i n a = bindE (assert_run_visible U ctx i a) (\<lambda>_. Inr (find_review i n a))"

definition approved :: ustr where "approved = lit ''approved''"

definition rejected :: ustr where "rejected = lit ''rejected''"

definition resolve_review :: "unicode_tables \<Rightarrow> caller_authority option \<Rightarrow> int \<Rightarrow> ustr \<Rightarrow> nat \<Rightarrow> ustr \<Rightarrow> ustr \<Rightarrow> ustr option
    \<Rightarrow> audit \<Rightarrow> audit result" where
  "resolve_review U ctx now i n resolution reviewer remark a =
     bindE (assert_run_visible U ctx i a) (\<lambda>_.
       if resolution \<noteq> approved \<and> resolution \<noteq> rejected
       then Inl (ValueError (lit ''review resolution must be approved or rejected''))
       else if py_strip reviewer = [] then Inl (ValueError (lit ''reviewer must not be empty''))
       else case find_decision i n a of
           None \<Rightarrow> Inl (KeyError (decision_key i n))
         | Some d \<Rightarrow>
             if de_decision d \<noteq> REVIEW then Inl (ValueError (lit ''only review candidates can be manually resolved''))
             else if find_review i n a \<noteq> None then Inl (ValueError (lit ''review candidate is already resolved''))
             else Inr (a\<lparr>ad_reviews := ad_reviews a @ [\<lparr>rv_run = i, rv_index = n, rv_resolution = resolution,
                    rv_reviewer = py_strip reviewer, rv_reason = remark, rv_created = now\<rparr>]\<rparr>))"

subsection \<open>The queue of reviews\<close>

text \<open>\<^verbatim>\<open>json_extract\<close> as SQLite gives it: null is NULL, a boolean an integer, an array or object its text.\<close>

fun json_at :: "string list \<Rightarrow> json \<Rightarrow> json option" where
  "json_at [] v = Some v"
| "json_at (k # ks) (JObj kvs) = (case map_of kvs (lit k) of None \<Rightarrow> None | Some v \<Rightarrow> json_at ks v)"
| "json_at (k # ks) _ = None"

definition sql_extract :: "(json \<Rightarrow> ustr) \<Rightarrow> string list \<Rightarrow> json \<Rightarrow> json option" where
  "sql_extract jt path v =
     (case json_at path v of
        None \<Rightarrow> None
      | Some JNull \<Rightarrow> None
      | Some (JBool b) \<Rightarrow> Some (JInt (if b then 1 else 0))
      | Some (JArr xs) \<Rightarrow> Some (JStr (jt (JArr xs)))
      | Some (JObj kvs) \<Rightarrow> Some (JStr (jt (JObj kvs)))
      | Some w \<Rightarrow> Some w)"

text \<open>\<^verbatim>\<open>json_each\<close>: the values of an object or an array.\<close>

definition json_values :: "json option \<Rightarrow> json list" where
  "json_values v = (case v of Some (JObj kvs) \<Rightarrow> map snd kvs | Some (JArr xs) \<Rightarrow> xs | _ \<Rightarrow> [])"

text \<open>The project of a decision: that of all its evidence in the request, if there is just one.\<close>

definition selected_items :: "(json \<Rightarrow> ustr) \<Rightarrow> json option \<Rightarrow> ustr list \<Rightarrow> json list" where
  "selected_items jt snapshot ids =
     filter (\<lambda>e. \<exists>i \<in> set ids. sql_extract jt [''id''] e = Some (JStr i))
       (concat (map (\<lambda>topic. json_values (Some topic))
         (json_values (case snapshot of None \<Rightarrow> None | Some s \<Rightarrow> json_at [''evidence_by_topic''] s))))"

definition decision_project :: "(json \<Rightarrow> ustr) \<Rightarrow> json option \<Rightarrow> decision_row \<Rightarrow> json option" where
  "decision_project jt snapshot d =
     (if de_evidence d \<noteq> []
      then let found = map (sql_extract jt [''metadata'', ''project'']) (selected_items jt snapshot (de_evidence d))
           in if found \<noteq> [] \<and> None \<notin> set found \<and> length (fromkeys found) = 1 then hd found else None
      else sql_extract jt [''project''] (rc_context (de_candidate d)))"

type_synonym review_cursor = "int \<times> ustr \<times> nat"

definition cursor_of :: "decision_row \<Rightarrow> review_cursor" where
  "cursor_of d = (de_created d, de_run d, de_index d)"

text \<open>\<^verbatim>\<open>(d.created_at, d.dream_run_id, d.candidate_index) > (?, ?, ?)\<close> compares as tuples do.\<close>

definition awaits_review :: "(json \<Rightarrow> ustr) \<Rightarrow> caller_authority option \<Rightarrow> review_cursor option \<Rightarrow> ustr option \<Rightarrow> audit
    \<Rightarrow> decision_row \<Rightarrow> bool" where
  "awaits_review jt ctx after project a d \<longleftrightarrow>
     de_decision d = REVIEW \<and> find_review (de_run d) (de_index d) a = None
     \<and> (case after of None \<Rightarrow> True | Some c \<Rightarrow> c < cursor_of d)
     \<and> (case run_by_id (de_run d) a of
          None \<Rightarrow> False
        | Some r \<Rightarrow> (case project of None \<Rightarrow> True | Some v \<Rightarrow> decision_project jt (au_snapshot r) d = Some (JStr v))
            \<and> sql_visible jt ctx (au_authority r))"

definition in_review_order :: "decision_row list \<Rightarrow> decision_row list" where
  "in_review_order = sort_key cursor_of"

fun filterE :: "('a \<Rightarrow> bool result) \<Rightarrow> 'a list \<Rightarrow> 'a list result" where
  "filterE P [] = Inr []"
| "filterE P (x # xs) = bindE (P x) (\<lambda>v. bindE (filterE P xs) (\<lambda>ys. Inr (if v then x # ys else ys)))"

definition pending_reviews :: "unicode_tables \<Rightarrow> (json \<Rightarrow> ustr) \<Rightarrow> caller_authority option \<Rightarrow> int \<Rightarrow> review_cursor option
    \<Rightarrow> ustr option \<Rightarrow> audit \<Rightarrow> decision_row list result" where
  "pending_reviews U jt ctx limit after project a =
     (if limit < 1 \<or> 500 < limit then Inl (ValueError (lit ''limit must be between 1 and 500''))
      else filterE (\<lambda>d. case run_by_id (de_run d) a of
               None \<Rightarrow> Inr False
             | Some r \<Rightarrow> snapshot_visible U ctx (au_authority r))
             (take (nat limit) (in_review_order (filter (awaits_review jt ctx after project a) (ad_decisions a)))))"

subsection \<open>Gating and recording a run\<close>

text \<open>
  The run id that \<^verbatim>\<open>uuid4\<close> would draw and the clock at the two writes are arguments. The gate
  replaces merged candidates in the result, so the candidates after it are returned.
\<close>

definition evaluate_promotion :: "unicode_tables \<Rightarrow> 'a gate_tables_scheme \<Rightarrow> promotion_policy \<Rightarrow> caller_authority option \<Rightarrow> int \<Rightarrow> int
    \<Rightarrow> (reason_request \<Rightarrow> json) \<Rightarrow> ustr \<Rightarrow> reason_request \<Rightarrow> reason_result \<Rightarrow> audit \<Rightarrow> (audit_run \<times> gate_outcome) result \<times> audit" where
  "evaluate_promotion U G p ctx started finished snapshot new_id rq res a =
     (case start_run U ctx started snapshot new_id rq a of
        (Inl e, a1) \<Rightarrow> (Inl e, a1)
      | (Inr run, a1) \<Rightarrow>
          (case bindE (gate G p rq res) (\<lambda>out.
                bindE (complete_run U ctx finished (au_id run) (go_candidates out) (go_decisions out) a1) (\<lambda>(run', a2).
                  Inr (run', out, a2))) of
             Inr (run', out, a2) \<Rightarrow> (Inr (run', out), a2)
           | Inl e \<Rightarrow> (case mark_run_failed U ctx finished (au_id run) a1 of Inr a2 \<Rightarrow> (Inl e, a2) | Inl e' \<Rightarrow> (Inl e', a1))))"

subsection \<open>Applying human reviews\<close>

definition apply_review :: "unicode_tables \<Rightarrow> caller_authority option \<Rightarrow> ustr \<Rightarrow> audit \<Rightarrow> gate_decision \<Rightarrow> gate_decision result" where
  "apply_review U ctx i a d =
     (if gd_decision d \<noteq> REVIEW then Inr d
      else bindE (review_resolution U ctx i (gd_index d) a) (\<lambda>found.
        case found of
          None \<Rightarrow> Inr d
        | Some r \<Rightarrow>
            if rv_resolution r = approved
            then Inr (d\<lparr>gd_decision := PROMOTE, gd_reasons := gd_reasons d @ [lit ''human_review_approved'']\<rparr>)
            else if rv_resolution r = rejected
            then Inr (d\<lparr>gd_decision := REJECT, gd_reasons := gd_reasons d @ [lit ''human_review_rejected'']\<rparr>)
            else Inl (ValueError (lit ''unsupported review resolution: '' @ rv_resolution r))))"

definition apply_reviews :: "unicode_tables \<Rightarrow> caller_authority option \<Rightarrow> ustr \<Rightarrow> audit \<Rightarrow> gate_outcome \<Rightarrow> gate_outcome result" where
  "apply_reviews U ctx i a out =
     bindE (mapE (apply_review U ctx i a) (go_decisions out)) (\<lambda>ds. Inr (out\<lparr>go_decisions := ds\<rparr>))"

subsection \<open>Calls\<close>

datatype audit_op =
    StartRun ustr reason_request json
  | CompleteRun ustr "reason_candidate list" "gate_decision list"
  | FailRun ustr
  | RecordWrite write_row
  | ResolveReview ustr nat ustr ustr "ustr option"

record audit_call =
  ac_ctx :: "caller_authority option"
  ac_now :: int
  ac_op :: audit_op

definition kept_on_error :: "audit \<Rightarrow> audit result \<Rightarrow> audit" where
  "kept_on_error a r = (case r of Inl _ \<Rightarrow> a | Inr a' \<Rightarrow> a')"

definition audit_step :: "unicode_tables \<Rightarrow> audit_call \<Rightarrow> audit \<Rightarrow> audit" where
  "audit_step U call a =
     (let ctx = ac_ctx call; now = ac_now call
      in case ac_op call of
           StartRun i rq snapshot \<Rightarrow> snd (start_run U ctx now (\<lambda>_. snapshot) i rq a)
         | CompleteRun i candidates decisions \<Rightarrow>
             kept_on_error a (bindE (complete_run U ctx now i candidates decisions a) (\<lambda>(_, a'). Inr a'))
         | FailRun i \<Rightarrow> kept_on_error a (mark_run_failed U ctx now i a)
         | RecordWrite w \<Rightarrow> kept_on_error a (record_write U ctx w a)
         | ResolveReview i n resolution reviewer remark \<Rightarrow>
             kept_on_error a (resolve_review U ctx now i n resolution reviewer remark a))"

subsection \<open>What the tables keep\<close>

lemma filterE_subset: "filterE P xs = Inr ys \<Longrightarrow> set ys \<subseteq> set xs"
  by (induction xs arbitrary: ys) (auto split: if_splits)

lemma in_review_order_set [simp]: "set (in_review_order ds) = set ds"
  by (simp add: in_review_order_def)

lemma pending_awaits:
  assumes "pending_reviews U jt ctx limit after project a = Inr ds"
  shows "\<forall>d \<in> set ds. awaits_review jt ctx after project a d \<and> d \<in> set (ad_decisions a)"
proof
  fix d assume d: "d \<in> set ds"
  from assms have "set ds \<subseteq> set (take (nat limit) (in_review_order (filter (awaits_review jt ctx after project a) (ad_decisions a))))"
    by (auto simp: pending_reviews_def dest!: filterE_subset split: if_splits)
  with d have "d \<in> set (in_review_order (filter (awaits_review jt ctx after project a) (ad_decisions a)))"
    using set_take_subset by fast
  then show "awaits_review jt ctx after project a d \<and> d \<in> set (ad_decisions a)" by simp
qed

definition audit_wf :: "audit \<Rightarrow> bool" where
  "audit_wf a \<longleftrightarrow> distinct (map au_id (ad_runs a)) \<and> distinct (map au_request (ad_runs a))
     \<and> distinct (map (\<lambda>d. (de_run d, de_index d)) (ad_decisions a))
     \<and> distinct (map (\<lambda>w. (wr_run w, wr_index w)) (ad_writes a))
     \<and> distinct (map (\<lambda>r. (rv_run r, rv_index r)) (ad_reviews a))
     \<and> list_all (\<lambda>r. rv_resolution r \<in> {approved, rejected} \<and> rv_reviewer r \<noteq> []) (ad_reviews a)"

definition same_run :: "audit_run \<Rightarrow> audit_run \<Rightarrow> bool" where
  "same_run r r' \<longleftrightarrow> au_id r' = au_id r \<and> au_session r' = au_session r \<and> au_request r' = au_request r
     \<and> au_evidence r' = au_evidence r \<and> au_snapshot r' = au_snapshot r \<and> au_created r' = au_created r
     \<and> au_authority r' = au_authority r"

text \<open>Runs keep what identifies them, in their order, and reviews are only added.\<close>

definition trail_kept :: "audit \<Rightarrow> audit \<Rightarrow> bool" where
  "trail_kept a a' \<longleftrightarrow> (\<exists>new. list_all2 same_run (ad_runs a @ new) (ad_runs a')) \<and> (\<exists>new. ad_reviews a' = ad_reviews a @ new)"

lemma same_run_refl [simp]: "same_run r r"
  by (simp add: same_run_def)

lemma trail_kept_refl: "trail_kept a a"
  unfolding trail_kept_def by (auto intro: exI [of _ "[]"] simp: list_all2_refl)

lemma trail_kept_trans:
  assumes "trail_kept a b" and "trail_kept b c"
  shows "trail_kept a c"
proof -
  from assms obtain n1 n2 where r: "list_all2 same_run (ad_runs a @ n1) (ad_runs b)" "list_all2 same_run (ad_runs b @ n2) (ad_runs c)"
    by (auto simp: trail_kept_def)
  have "list_all2 same_run ((ad_runs a @ n1) @ n2) (ad_runs b @ n2)"
    using r(1) by (intro list_all2_appendI) (simp_all add: list_all2_refl)
  then have "list_all2 same_run ((ad_runs a @ n1) @ n2) (ad_runs c)"
    by (rule list_all2_trans [rotated, OF _ r(2)]) (simp add: same_run_def)
  then show ?thesis using assms unfolding trail_kept_def by (auto simp: append_assoc)
qed

lemma trail_kept_find_review: "trail_kept a a' \<Longrightarrow> find_review i n a = Some r \<Longrightarrow> find_review i n a' = Some r"
  by (auto simp: trail_kept_def find_review_def find_append)

lemma trail_kept_request:
  assumes "trail_kept a a'" and "run_by_request i a = Some r"
  shows "\<exists>r'. run_by_request i a' = Some r' \<and> same_run r r'"
proof -
  have *: "list_all2 same_run rs rs' \<Longrightarrow> find (\<lambda>r. au_request r = i) rs = Some r \<Longrightarrow>
      \<exists>r'. find (\<lambda>r. au_request r = i) rs' = Some r' \<and> same_run r r'" for rs rs'
    by (induction rule: list_all2_induct) (auto simp: same_run_def split: if_splits)
  from assms obtain new where "list_all2 same_run (ad_runs a @ new) (ad_runs a')" by (auto simp: trail_kept_def)
  moreover have "find (\<lambda>r. au_request r = i) (ad_runs a @ new) = Some r" using assms(2) by (simp add: run_by_request_def find_append)
  ultimately show ?thesis unfolding run_by_request_def by (rule *)
qed

lemma update_run_trail:
  assumes "\<And>r. same_run r (f r)"
  shows "audit_wf a \<Longrightarrow> audit_wf (update_run i f a)" and "trail_kept a (update_run i f a)"
proof -
  let ?g = "\<lambda>r. if au_id r = i then f r else r"
  have same: "same_run r (?g r)" for r using assms by simp
  then have "map au_id (map ?g rs) = map au_id rs" "map au_request (map ?g rs) = map au_request rs" for rs
    by (auto simp: same_run_def)
  then show "audit_wf a \<Longrightarrow> audit_wf (update_run i f a)" by (simp add: audit_wf_def update_run_def del: map_map)
  have "list_all2 same_run (ad_runs a @ []) (map ?g (ad_runs a))" using same by (simp add: list_all2_map2 list_all2_refl)
  then show "trail_kept a (update_run i f a)" unfolding trail_kept_def update_run_def by (auto intro!: exI [of _ "[]"])
qed

lemma replace_decision_keys:
  "distinct (map (\<lambda>d. (de_run d, de_index d)) ds) \<Longrightarrow> distinct (map (\<lambda>d. (de_run d, de_index d)) (fold replace_decision rows ds))"
proof (induction rows arbitrary: ds)
  case (Cons d rows)
  have "distinct (map (\<lambda>d. (de_run d, de_index d)) (replace_decision d ds))"
    using Cons.prems by (auto simp: replace_decision_def distinct_map_filter)
  from Cons.IH [OF this] show ?case by simp
qed simp

lemma start_run_trail:
  assumes "audit_wf a" shows "audit_wf (snd (start_run U ctx now snapshot i rq a)) \<and> trail_kept a (snd (start_run U ctx now snapshot i rq a))"
proof (cases "run_by_request (rq_id rq) a = None \<and> run_by_id i a = None")
  case True
  then have new: "rq_id rq \<notin> au_request ` set (ad_runs a)" "i \<notin> au_id ` set (ad_runs a)"
    by (auto simp: run_by_request_def run_by_id_def find_None_iff)
  obtain r where r: "snd (start_run U ctx now snapshot i rq a) = a\<lparr>ad_runs := ad_runs a @ [r]\<rparr>" "au_id r = i" "au_request r = rq_id rq"
    using True by (simp add: start_run_def Let_def)
  have "audit_wf (a\<lparr>ad_runs := ad_runs a @ [r]\<rparr>)" using assms new r(2,3) by (auto simp: audit_wf_def)
  moreover have "trail_kept a (a\<lparr>ad_runs := ad_runs a @ [r]\<rparr>)"
    unfolding trail_kept_def
    by (intro conjI exI [of _ "[r]"] exI [of _ "[]"]) (simp_all add: list_all2_refl)
  ultimately show ?thesis unfolding r(1) by blast
next
  case False
  then have "snd (start_run U ctx now snapshot i rq a) = a" by (auto simp: start_run_def Let_def)
  then show ?thesis using assms trail_kept_refl by simp
qed


lemma complete_run_trail:
  assumes "audit_wf a" and "complete_run U ctx now i cs ds a = Inr (r, a')"
  shows "audit_wf a' \<and> trail_kept a a'"
proof -
  from assms(2) obtain rows where a': "a' = update_run i (\<lambda>r. r\<lparr>au_status := RUN_EVALUATED, au_count := length cs, au_completed := Some now\<rparr>)
      (a\<lparr>ad_decisions := fold replace_decision rows (ad_decisions a)\<rparr>)"
    by (auto simp: complete_run_def Let_def)
  let ?b = "a\<lparr>ad_decisions := fold replace_decision rows (ad_decisions a)\<rparr>"
  have "same_run r (r\<lparr>au_status := RUN_EVALUATED, au_count := length cs, au_completed := Some now\<rparr>)" for r
    by (simp add: same_run_def)
  note same = this
  have b: "audit_wf ?b" "trail_kept a ?b" using assms(1) trail_kept_refl [of a] by (simp_all add: audit_wf_def replace_decision_keys trail_kept_def)
  show ?thesis unfolding a'
    using update_run_trail(1) [OF same b(1)] trail_kept_trans [OF b(2) update_run_trail(2) [OF same]] by blast
qed

lemma resolve_review_Inr:
  assumes "resolve_review U ctx now i n resolution reviewer remark a = Inr a'"
  shows "find_review i n a = None \<and> resolution \<in> {approved, rejected} \<and> py_strip reviewer \<noteq> []
    \<and> (\<exists>d. find_decision i n a = Some d \<and> de_decision d = REVIEW)
    \<and> a' = a\<lparr>ad_reviews := ad_reviews a @ [\<lparr>rv_run = i, rv_index = n, rv_resolution = resolution,
                    rv_reviewer = py_strip reviewer, rv_reason = remark, rv_created = now\<rparr>]\<rparr>"
  using assms by (auto simp: resolve_review_def split: if_splits option.splits)

lemma resolve_review_trail:
  assumes "audit_wf a" and "resolve_review U ctx now i n resolution reviewer remark a = Inr a'"
  shows "audit_wf a' \<and> trail_kept a a'"
proof -
  note r = resolve_review_Inr [OF assms(2)]
  then have "(i, n) \<notin> (\<lambda>r. (rv_run r, rv_index r)) ` set (ad_reviews a)" by (auto simp: find_review_def find_None_iff)
  then have "audit_wf a'" using r assms(1) by (auto simp: audit_wf_def)
  moreover have "trail_kept a a'" using r trail_kept_refl [of a] by (auto simp: trail_kept_def)
  ultimately show ?thesis by blast
qed

lemma record_write_trail:
  assumes "audit_wf a" and "record_write U ctx w a = Inr a'"
  shows "audit_wf a' \<and> trail_kept a a'"
proof -
  let ?ws = "filter (\<lambda>x. \<not> (wr_run x = wr_run w \<and> wr_index x = wr_index w)) (ad_writes a) @ [w]"
  from assms(2) have a': "a' = a\<lparr>ad_writes := ?ws\<rparr>" by (auto simp: record_write_def)
  have "distinct (map (\<lambda>w. (wr_run w, wr_index w)) ?ws)" using assms(1) by (auto simp: audit_wf_def distinct_map_filter)
  then have "audit_wf a'" using assms(1) by (simp add: audit_wf_def a' del: map_append)
  moreover have "trail_kept a a'" using trail_kept_refl [of a] by (simp add: trail_kept_def a')
  ultimately show ?thesis by blast
qed

lemma mark_run_failed_trail:
  assumes "audit_wf a" and "mark_run_failed U ctx now i a = Inr a'"
  shows "audit_wf a' \<and> trail_kept a a'"
proof -
  from assms(2) have a': "a' = update_run i (\<lambda>r. r\<lparr>au_status := RUN_FAILED, au_completed := Some now\<rparr>) a"
    by (auto simp: mark_run_failed_def)
  have "same_run r (r\<lparr>au_status := RUN_FAILED, au_completed := Some now\<rparr>)" for r by (simp add: same_run_def)
  from update_run_trail [of "\<lambda>r. r\<lparr>au_status := RUN_FAILED, au_completed := Some now\<rparr>", OF this] assms(1)
  show ?thesis unfolding a' by blast
qed

lemma kept_on_error_trail:
  assumes "\<And>a'. r = Inr a' \<Longrightarrow> audit_wf a' \<and> trail_kept a a'" and "audit_wf a"
  shows "audit_wf (kept_on_error a r) \<and> trail_kept a (kept_on_error a r)"
  using assms trail_kept_refl by (cases r) (simp_all add: kept_on_error_def)

lemma audit_step_trail:
  assumes "audit_wf a" shows "audit_wf (audit_step U call a) \<and> trail_kept a (audit_step U call a)"
proof (cases "ac_op call")
  case (StartRun i rq snapshot)
  then show ?thesis using start_run_trail [OF assms] by (simp add: audit_step_def)
next
  case (CompleteRun i cs ds)
  show ?thesis unfolding audit_step_def Let_def CompleteRun audit_op.case
    by (rule kept_on_error_trail [OF _ assms]) (auto dest: complete_run_trail [OF assms])
next
  case (FailRun i)
  show ?thesis unfolding audit_step_def Let_def FailRun audit_op.case
    by (rule kept_on_error_trail [OF mark_run_failed_trail [OF assms] assms])
next
  case (RecordWrite w)
  show ?thesis unfolding audit_step_def Let_def RecordWrite audit_op.case
    by (rule kept_on_error_trail [OF record_write_trail [OF assms] assms])
next
  case (ResolveReview i n resolution reviewer remark)
  show ?thesis unfolding audit_step_def Let_def ResolveReview audit_op.case
    by (rule kept_on_error_trail [OF resolve_review_trail [OF assms] assms])
qed

interpretation trail: guarded_machine "audit_step U" "\<lambda>_. True" audit_wf trail_kept for U
  by unfold_locales (use audit_step_trail in \<open>auto intro: trail_kept_refl trail_kept_trans\<close>)

text \<open>
  C29. The audit trail is kept: whatever calls follow, keys stay unique, a run that was
  started stays with its session, request, evidence and authority, so that a later start for the
  same request adds nothing and answers with that run or hides it, and a review once
  resolved stays as it is: no later call resolves it again or returns it to the queue.
\<close>

theorem audit_trail_is_kept:
  assumes "audit_wf a"
  shows "audit_wf (fold (audit_step U) calls a)
    \<and> (\<forall>i run. run_by_request i a = Some run \<longrightarrow>
        (\<exists>run'. run_by_request i (fold (audit_step U) calls a) = Some run' \<and> same_run run run'
          \<and> (\<forall>ctx now snapshot new_id rq. rq_id rq = i \<longrightarrow>
               start_run U ctx now snapshot new_id rq (fold (audit_step U) calls a)
                 = (visible_run U ctx i (Some run'), fold (audit_step U) calls a))))
    \<and> (\<forall>i n review. find_review i n a = Some review \<longrightarrow>
        find_review i n (fold (audit_step U) calls a) = Some review
        \<and> (\<forall>ctx now resolution reviewer remark a'.
             resolve_review U ctx now i n resolution reviewer remark (fold (audit_step U) calls a) \<noteq> Inr a')
        \<and> (\<forall>jt ctx limit after project ds. pending_reviews U jt ctx limit after project (fold (audit_step U) calls a) = Inr ds \<longrightarrow>
             list_all (\<lambda>d. (de_run d, de_index d) \<noteq> (i, n)) ds))"
proof -
  let ?a = "fold (audit_step U) calls a"
  have wf: "audit_wf ?a" and kept: "trail_kept a ?a"
    using trail.run_inv [OF _ assms] trail.run_rel [OF _ assms] by (simp_all add: list_all_iff)
  have started: "start_run U ctx now snapshot new_id rq ?a = (visible_run U ctx i (Some run'), ?a)"
    if "run_by_request i ?a = Some run'" "rq_id rq = i" for i run' ctx now snapshot new_id and rq :: reason_request
    using that by (simp add: start_run_def get_by_request_def)
  have once: "resolve_review U ctx now i n resolution reviewer remark ?a \<noteq> Inr a'"
    if "find_review i n ?a = Some review" for i n review ctx now resolution reviewer remark a'
    using resolve_review_Inr [of U ctx now i n resolution reviewer remark ?a a'] that by auto
  have queue: "list_all (\<lambda>d. (de_run d, de_index d) \<noteq> (i, n)) ds"
    if "find_review i n ?a = Some review" "pending_reviews U jt ctx limit after project ?a = Inr ds"
    for i n review jt ctx limit after project ds
    using pending_awaits [OF that(2)] that(1) by (auto simp: list_all_iff awaits_review_def)
  show ?thesis
  proof (intro conjI allI impI)
    show "audit_wf ?a" by (rule wf)
  next
    fix i run assume "run_by_request i a = Some run"
    from trail_kept_request [OF kept this] obtain run' where "run_by_request i ?a = Some run'" "same_run run run'" by blast
    with started show "\<exists>run'. run_by_request i ?a = Some run' \<and> same_run run run' \<and> (\<forall>ctx now snapshot new_id rq. rq_id rq = i \<longrightarrow>
        start_run U ctx now snapshot new_id rq ?a = (visible_run U ctx i (Some run'), ?a))" by blast
  next
    fix i n review assume "find_review i n a = Some review"
    then show "find_review i n ?a = Some review" by (rule trail_kept_find_review [OF kept])
  next
    fix i n review ctx now resolution reviewer remark a' assume "find_review i n a = Some review"
    then have "find_review i n ?a = Some review" by (rule trail_kept_find_review [OF kept])
    then show "resolve_review U ctx now i n resolution reviewer remark ?a \<noteq> Inr a'" by (rule once)
  next
    fix i n review jt ctx limit after project ds assume r: "find_review i n a = Some review"
      and p: "pending_reviews U jt ctx limit after project ?a = Inr ds"
    show "list_all (\<lambda>d. (de_run d, de_index d) \<noteq> (i, n)) ds" by (rule queue [OF trail_kept_find_review [OF kept r] p])
  qed
qed

definition sample_review :: review_row where
  "sample_review = \<lparr>rv_run = [1], rv_index = 0, rv_resolution = approved, rv_reviewer = [97], rv_reason = None, rv_created = 3\<rparr>"

definition sample_pending :: decision_row where
  "sample_pending = \<lparr>de_run = [1], de_index = 1, de_candidate = tested_candidate, de_decision = REVIEW, de_reasoner = 1,
     de_strength = 0, de_promotion = 0, de_evidence = [], de_reasons = [], de_created = 2\<rparr>"

definition sample_audit :: audit where
  "sample_audit = \<lparr>ad_runs = [\<lparr>au_id = [1], au_session = [115], au_request = [114], au_status = RUN_EVALUATED, au_evidence = [],
     au_snapshot = None, au_count = 1, au_created = 1, au_completed = Some 2, au_authority = None\<rparr>],
     ad_decisions = [sample_pending], ad_writes = [], ad_reviews = [sample_review]\<rparr>"

lemma sample_audit_wf: "audit_wf sample_audit"
  by (simp add: audit_wf_def sample_audit_def sample_review_def)

lemma audit_trail_is_kept_witness:
  "find_review [1] 0 (fold (audit_step ascii_tables)
     [\<lparr>ac_ctx = None, ac_now = 9, ac_op = ResolveReview [1] 0 rejected [98] None\<rparr>] sample_audit) = Some sample_review"
proof -
  have "find_review [1] 0 sample_audit = Some sample_review" by (simp add: find_review_def sample_audit_def sample_review_def)
  with audit_trail_is_kept [OF sample_audit_wf] show ?thesis by blast
qed

subsection \<open>An evaluation settles its run\<close>

definition row_of :: "int \<Rightarrow> ustr \<Rightarrow> reason_candidate list \<Rightarrow> gate_decision \<Rightarrow> decision_row" where
  "row_of now i candidates d =
     \<lparr>de_run = i, de_index = gd_index d, de_candidate = candidates ! gd_index d, de_decision = gd_decision d,
      de_reasoner = gd_reasoner d, de_strength = gd_strength d, de_promotion = gd_promotion d,
      de_evidence = gd_evidence_ids d, de_reasons = gd_reasons d, de_created = now\<rparr>"

lemma find_replaced:
  "find (\<lambda>x. de_run x = i \<and> de_index x = n) (replace_decision d ds)
    = (if de_run d = i \<and> de_index d = n then Some d else find (\<lambda>x. de_run x = i \<and> de_index x = n) ds)"
  unfolding replace_decision_def by (induction ds) auto

lemma find_fold_replaced:
  "d \<in> set rows \<Longrightarrow> distinct (map (\<lambda>d. (de_run d, de_index d)) rows) \<Longrightarrow>
    find (\<lambda>x. de_run x = de_run d \<and> de_index x = de_index d) (fold replace_decision rows ds) = Some d"
proof (induction rows arbitrary: ds)
  case (Cons r rows)
  show ?case
  proof (cases "d = r")
    case True
    have "find (\<lambda>x. de_run x = de_run d \<and> de_index x = de_index d) (fold replace_decision rows es)
        = find (\<lambda>x. de_run x = de_run d \<and> de_index x = de_index d) es" for es
    proof -
      have "\<forall>x \<in> set rows. \<not> (de_run x = de_run d \<and> de_index x = de_index d)"
        using Cons.prems(2) True by (force simp: image_iff)
      then show ?thesis by (induction rows arbitrary: es) (auto simp: find_replaced)
    qed
    then show ?thesis using True by (simp add: find_replaced)
  next
    case False
    then show ?thesis using Cons by simp
  qed
qed simp

lemma gate_indices:
  assumes "gate G p rq res = Inr out"
  shows "map gd_index (go_decisions out) = [0..<length (rr_candidates res)] \<and> length (go_candidates out) = length (rr_candidates res)"
proof -
  obtain g where inv: "gate_inv G p (evidence_by_id rq) (rr_candidates res) (length (rr_candidates res)) g"
    and out: "go_decisions out = gs_decisions g" "go_candidates out = gs_candidates g" using gate_inv_final [OF assms] by blast
  have "map gd_index (gs_decisions g) = [0..<length (rr_candidates res)]"
  proof (rule nth_equalityI)
    fix j assume "j < length (map gd_index (gs_decisions g))"
    then show "map gd_index (gs_decisions g) ! j = [0..<length (rr_candidates res)] ! j"
      using inv by (auto simp: gate_inv_def gate_entry_def)
  qed (use inv in \<open>simp add: gate_inv_def\<close>)
  then show ?thesis using inv by (simp add: out gate_inv_def)
qed

lemma started_run:
  assumes "case ctx of None \<Rightarrow> True | Some c \<Rightarrow> caller_wf U c"
    and "run_by_request (rq_id rq) a = None" and "run_by_id i a = None"
  shows "\<exists>run. start_run U ctx now snapshot i rq a = (Inr run, a\<lparr>ad_runs := ad_runs a @ [run]\<rparr>)
    \<and> au_id run = i \<and> au_request run = rq_id rq \<and> au_session run = rq_session rq \<and> au_status run = RUN_PROCESSING
    \<and> snapshot_visible U ctx (au_authority run) = Inr True \<and> au_authority run = Some (authority_snapshot None ctx)
    \<and> au_snapshot run = Some (snapshot rq)"
proof -
  define run where "run = \<lparr>au_id = i, au_session = rq_session rq, au_request = rq_id rq,
             au_status = RUN_PROCESSING, au_evidence = sorted_set (concat (map (map ev_id \<circ> snd) (rq_evidence rq))),
             au_snapshot = Some (snapshot rq), au_count = 0, au_created = now, au_completed = None,
             au_authority = Some (authority_snapshot None ctx)\<rparr>"
  have vis: "snapshot_visible U ctx (au_authority run) = Inr True" using own_snapshot_visible [OF assms(1)] by (simp add: run_def)
  have "run_by_request (rq_id rq) (a\<lparr>ad_runs := ad_runs a @ [run]\<rparr>) = Some run"
    using assms(2) by (simp add: run_by_request_def find_append run_def)
  then have "start_run U ctx now snapshot i rq a = (Inr run, a\<lparr>ad_runs := ad_runs a @ [run]\<rparr>)"
    using assms(2,3) vis by (simp add: start_run_def get_by_request_def visible_run_def run_def)
  with vis show ?thesis by (intro exI [of _ run]) (simp add: run_def)
qed

lemma run_by_id_updated:
  assumes "\<And>r. au_id (f r) = au_id r"
  shows "run_by_id i (update_run i f a) = map_option f (run_by_id i a)"
proof -
  have "find (\<lambda>r. au_id r = i) (map (\<lambda>r. if au_id r = i then f r else r) rs) = map_option f (find (\<lambda>r. au_id r = i) rs)" for rs
    using assms by (induction rs) auto
  then show ?thesis by (simp add: run_by_id_def update_run_def)
qed

lemma fresh_run_by_id: "run_by_id i a = None \<Longrightarrow> au_id run = i \<Longrightarrow> run_by_id i (a\<lparr>ad_runs := ad_runs a @ [run]\<rparr>) = Some run"
  by (simp add: run_by_id_def find_append)

lemma completed_run:
  assumes "run_by_id i a = Some run" and "snapshot_visible U ctx (au_authority run) = Inr True"
    and "map gd_index ds = [0..<length cs]"
  shows "\<exists>run' a'. complete_run U ctx now i cs ds a = Inr (run', a') \<and> run_by_id i a' = Some run'
    \<and> run' = run\<lparr>au_status := RUN_EVALUATED, au_count := length cs, au_completed := Some now\<rparr>
    \<and> (\<forall>d \<in> set ds. find_decision i (gd_index d) a' = Some (row_of now i cs d))"
proof -
  let ?f = "\<lambda>r. r\<lparr>au_status := RUN_EVALUATED, au_count := length cs, au_completed := Some now\<rparr>"
  define rows where "rows = map (row_of now i cs) ds"
  define a' where "a' = update_run i ?f (a\<lparr>ad_decisions := fold replace_decision rows (ad_decisions a)\<rparr>)"
  have idx: "gd_index d < length cs" if "d \<in> set ds" for d
  proof -
    have "gd_index d \<in> set (map gd_index ds)" using that by simp
    then show ?thesis unfolding assms(3) by simp
  qed
  have rows: "mapE (decision_of now i cs) ds = Inr rows" unfolding rows_def
    by (rule mapE_Inr_map) (simp add: decision_of_def row_of_def idx)
  have b: "run_by_id i (a\<lparr>ad_decisions := fold replace_decision rows (ad_decisions a)\<rparr>) = Some run" using assms(1) by (simp add: run_by_id_def)
  have run': "run_by_id i a' = Some (?f run)" unfolding a'_def by (subst run_by_id_updated) (simp_all add: b)
  have "complete_run U ctx now i cs ds a = Inr (?f run, a')"
    using assms(1,2) rows run' by (simp add: complete_run_def assert_run_visible_def visible_run_def get_run_def Let_def a'_def)
  moreover have "find_decision i (gd_index d) a' = Some (row_of now i cs d)" if "d \<in> set ds" for d
  proof -
    have "map (\<lambda>d. (de_run d, de_index d)) rows = map (\<lambda>n. (i, n)) (map gd_index ds)" by (simp add: rows_def row_of_def)
    then have "distinct (map (\<lambda>d. (de_run d, de_index d)) rows)" unfolding assms(3) by (simp add: distinct_map inj_on_def)
    from find_fold_replaced [OF _ this, of "row_of now i cs d"] that show ?thesis
      by (simp add: rows_def find_decision_def a'_def update_run_def row_of_def)
  qed
  ultimately show ?thesis using run' by blast
qed

text \<open>
  Evaluating a reasoning result for a new request leaves a recorded run that is no longer
  processing: with the gate's decision for every candidate, beside the candidate as the gate
  merged it, when the result belongs to the request, and failed when it does not.
\<close>

theorem evaluation_settles_run:
  assumes "case ctx of None \<Rightarrow> True | Some c \<Rightarrow> caller_wf U c"
    and "run_by_request (rq_id rq) a = None" and "run_by_id new_id a = None"
    and "evaluate_promotion U G p ctx started finished snapshot new_id rq res a = (out, a')"
  shows "\<exists>run. run_by_id new_id a' = Some run \<and> au_request run = rq_id rq \<and> au_session run = rq_session rq
    \<and> (if rr_request_id res = rq_id rq
       then \<exists>g. out = Inr (run, g) \<and> gate G p rq res = Inr g \<and> au_status run = RUN_EVALUATED
          \<and> au_count run = length (rr_candidates res)
          \<and> map gd_index (go_decisions g) = [0..<length (rr_candidates res)]
          \<and> list_all (\<lambda>d. \<exists>row. find_decision new_id (gd_index d) a' = Some row \<and> de_decision row = gd_decision d
               \<and> de_candidate row = go_candidates g ! gd_index d \<and> de_evidence row = gd_evidence_ids d) (go_decisions g)
       else au_status run = RUN_FAILED \<and> (\<exists>e. out = Inl e))"
proof -
  obtain run where start: "start_run U ctx started snapshot new_id rq a = (Inr run, a\<lparr>ad_runs := ad_runs a @ [run]\<rparr>)"
    and run: "au_id run = new_id" "au_request run = rq_id rq" "au_session run = rq_session rq"
      "snapshot_visible U ctx (au_authority run) = Inr True"
    using started_run [OF assms(1-3), of started snapshot] by blast
  let ?a = "a\<lparr>ad_runs := ad_runs a @ [run]\<rparr>"
  have here: "run_by_id new_id ?a = Some run" by (rule fresh_run_by_id [OF assms(3) run(1)])
  show ?thesis
  proof (cases "rr_request_id res = rq_id rq")
    case True
    then obtain g where g: "gate G p rq res = Inr g" by (simp add: gate_def Let_def)
    note idx = gate_indices [OF g]
    then have "map gd_index (go_decisions g) = [0..<length (go_candidates g)]" by simp
    from completed_run [OF here run(4) this, of finished] obtain run' a2
      where c: "complete_run U ctx finished new_id (go_candidates g) (go_decisions g) ?a = Inr (run', a2)" "run_by_id new_id a2 = Some run'"
        "run' = run\<lparr>au_status := RUN_EVALUATED, au_count := length (go_candidates g), au_completed := Some finished\<rparr>"
        "\<forall>d \<in> set (go_decisions g). find_decision new_id (gd_index d) a2 = Some (row_of finished new_id (go_candidates g) d)" by blast
    have "(out, a') = (Inr (run', g), a2)" using assms(4) by (simp add: evaluate_promotion_def start g run(1) c(1))
    then show ?thesis using True c(2-4) g run idx
      by (intro exI [of _ run']) (simp add: list_all_iff row_of_def)
  next
    case False
    then obtain e where g: "gate G p rq res = Inl e" by (simp add: gate_def)
    let ?f = "\<lambda>r. r\<lparr>au_status := RUN_FAILED, au_completed := Some finished\<rparr>"
    have "mark_run_failed U ctx finished new_id ?a = Inr (update_run new_id ?f ?a)"
      using here run(4) by (simp add: mark_run_failed_def assert_run_visible_def visible_run_def)
    then have out: "out = Inl e" "a' = update_run new_id ?f ?a" using assms(4) by (simp_all add: evaluate_promotion_def start g run(1))
    have "run_by_id new_id a' = Some (?f run)" unfolding out(2) by (subst run_by_id_updated) (simp_all add: here)
    then show ?thesis using False run out(1) by (intro exI [of _ "?f run"]) simp
  qed
qed

lemma evaluation_settles_run_witness:
  "\<exists>run. run_by_id [1] (snd (evaluate_promotion ascii_tables sample_gate default_promotion None 1 2 (\<lambda>_. JNull) [1] tested_request
      \<lparr>rr_request_id = [114], rr_candidates = [tested_candidate], rr_notes = []\<rparr> empty_audit)) = Some run \<and> au_status run = RUN_EVALUATED"
proof -
  have "run_by_request (rq_id tested_request) empty_audit = None" "run_by_id [1] empty_audit = None"
    by (simp_all add: run_by_request_def run_by_id_def empty_audit_def)
  moreover have "rq_id tested_request = [114]" by (simp add: tested_request_def)
  ultimately show ?thesis
    using evaluation_settles_run [of ascii_tables None tested_request empty_audit "[1]" sample_gate default_promotion 1 2 "\<lambda>_. JNull"
        "\<lparr>rr_request_id = [114], rr_candidates = [tested_candidate], rr_notes = []\<rparr>", OF _ _ _ prod.collapse [symmetric]] by auto
qed

subsection \<open>Pages of reviews\<close>

lemma filterE_all: "(\<And>x. x \<in> set xs \<Longrightarrow> P x = Inr True) \<Longrightarrow> filterE P xs = Inr xs"
  by (induction xs) simp_all

lemma awaits_after:
  "awaits_review jt ctx (Some c) project a d \<longleftrightarrow> awaits_review jt ctx None project a d \<and> c < cursor_of d"
  unfolding awaits_review_def by auto

definition review_list :: "(json \<Rightarrow> ustr) \<Rightarrow> caller_authority option \<Rightarrow> ustr option \<Rightarrow> audit \<Rightarrow> decision_row list" where
  "review_list jt ctx project a = in_review_order (filter (awaits_review jt ctx None project a) (ad_decisions a))"

lemma review_list_strict:
  assumes "audit_wf a" shows "sorted_wrt (<) (map cursor_of (review_list jt ctx project a))"
proof -
  let ?ds = "filter (awaits_review jt ctx None project a) (ad_decisions a)"
  have "inj_on (\<lambda>d. (de_run d, de_index d)) (set (ad_decisions a))" using assms by (simp add: audit_wf_def distinct_map)
  then have "inj_on cursor_of (set ?ds)" by (auto simp: inj_on_def cursor_of_def)
  moreover have "distinct ?ds" using assms by (auto simp: audit_wf_def distinct_map)
  ultimately have "distinct (map cursor_of (review_list jt ctx project a))"
    by (simp add: review_list_def in_review_order_def distinct_map)
  then show ?thesis by (simp add: strict_sorted_iff) (simp add: review_list_def in_review_order_def)
qed

lemma pending_page:
  assumes "\<forall>r \<in> set (ad_runs a). written_snapshot U (au_authority r)" and "1 \<le> n" and "n \<le> 500"
  shows "pending_reviews U jt ctx (int n) after project a
    = Inr (take n (in_review_order (filter (awaits_review jt ctx after project a) (ad_decisions a))))"
proof -
  let ?P = "\<lambda>d. case run_by_id (de_run d) a of None \<Rightarrow> Inr False | Some r \<Rightarrow> snapshot_visible U ctx (au_authority r)"
  have "?P d = Inr True" if "awaits_review jt ctx after project a d" for d
  proof -
    from that obtain r where r: "run_by_id (de_run d) a = Some r" "sql_visible jt ctx (au_authority r)"
      by (auto simp: awaits_review_def split: option.splits)
    then have "r \<in> set (ad_runs a)" by (auto simp: run_by_id_def find_Some_iff)
    with assms(1) r show ?thesis using visible_sql [of U "au_authority r" ctx jt] by simp
  qed
  then have "filterE ?P (take n (in_review_order (filter (awaits_review jt ctx after project a) (ad_decisions a))))
      = Inr (take n (in_review_order (filter (awaits_review jt ctx after project a) (ad_decisions a))))"
    by (intro filterE_all) (auto dest: in_set_takeD)
  then show ?thesis using assms(2,3) by (simp add: pending_reviews_def)
qed

lemma filter_above:
  assumes "sorted_wrt (<) (map f xs)" and "k < length xs"
  shows "filter (\<lambda>x. f (xs ! k) < (f x :: 'b :: linorder)) xs = drop (Suc k) xs"
proof -
  have xs: "xs = take (Suc k) xs @ drop (Suc k) xs" by simp
  have less: "f (xs ! i) < f (xs ! j)" if "i < j" "j < length xs" for i j
    using sorted_wrt_nth_less [OF assms(1), of i j] that by simp
  have "filter (\<lambda>x. f (xs ! k) < f x) (take (Suc k) xs) = []"
  proof -
    have "\<not> f (xs ! k) < f x" if x: "x \<in> set (take (Suc k) xs)" for x
    proof -
      from x obtain i where "i < Suc k" "i < length xs" "x = xs ! i" by (auto simp: in_set_conv_nth)
      then show ?thesis using less [of i k] assms(2) by (cases "i = k") auto
    qed
    then show ?thesis by (simp add: filter_empty_conv)
  qed
  moreover have "filter (\<lambda>x. f (xs ! k) < f x) (drop (Suc k) xs) = drop (Suc k) xs"
  proof -
    have "f (xs ! k) < f x" if x: "x \<in> set (drop (Suc k) xs)" for x
    proof -
      from x obtain j where "j < length xs - Suc k" "x = xs ! (Suc k + j)" by (auto simp: in_set_conv_nth)
      then show ?thesis using less [of k "Suc k + j"] by simp
    qed
    then show ?thesis by simp
  qed
  ultimately show ?thesis by (subst xs) (simp only: filter_append append_Nil)
qed

text \<open>
  Reading the reviews page by page, each from the position of the last row of the one
  before, neither skips nor repeats a row: the pages are the successive pieces of one list, in
  strictly increasing order of time, run and index, of exactly the undecided reviews that the
  caller may see and that belong to the asked project.
\<close>

theorem review_pages_continue:
  assumes "audit_wf a" and "\<forall>r \<in> set (ad_runs a). written_snapshot U (au_authority r)" and "1 \<le> n" and "n \<le> 500"
  shows "\<exists>reviews. set reviews = {d \<in> set (ad_decisions a). awaits_review jt ctx None project a d}
    \<and> sorted_wrt (<) (map cursor_of reviews)
    \<and> pending_reviews U jt ctx (int n) None project a = Inr (take n reviews)
    \<and> (\<forall>k < length reviews. pending_reviews U jt ctx (int n) (Some (cursor_of (reviews ! k))) project a
         = Inr (take n (drop (Suc k) reviews)))"
proof (intro exI conjI allI impI)
  let ?rs = "review_list jt ctx project a"
  show "set ?rs = {d \<in> set (ad_decisions a). awaits_review jt ctx None project a d}" by (auto simp: review_list_def)
  show strict: "sorted_wrt (<) (map cursor_of ?rs)" by (rule review_list_strict [OF assms(1)])
  show "pending_reviews U jt ctx (int n) None project a = Inr (take n ?rs)"
    using pending_page [OF assms(2-4)] by (simp add: review_list_def)
  fix k assume k: "k < length ?rs"
  have "in_review_order (filter (awaits_review jt ctx (Some (cursor_of (?rs ! k))) project a) (ad_decisions a))
      = filter (\<lambda>d. cursor_of (?rs ! k) < cursor_of d) ?rs"
    by (simp only: awaits_after review_list_def in_review_order_def filter_sort [symmetric])
      (auto simp: awaits_after intro!: filter_cong)
  also have "\<dots> = drop (Suc k) ?rs" by (rule filter_above [OF strict k])
  finally show "pending_reviews U jt ctx (int n) (Some (cursor_of (?rs ! k))) project a = Inr (take n (drop (Suc k) ?rs))"
    using pending_page [OF assms(2-4)] by simp
qed

lemma review_pages_continue_witness:
  "\<exists>reviews. sample_pending \<in> set reviews \<and> pending_reviews ascii_tables no_text None 5 None None sample_audit = Inr (take 5 reviews)"
proof -
  have "\<forall>r \<in> set (ad_runs sample_audit). written_snapshot ascii_tables (au_authority r)"
    by (simp add: sample_audit_def written_snapshot_def)
  moreover have "sample_pending \<in> {d \<in> set (ad_decisions sample_audit). awaits_review no_text None None None sample_audit d}"
    by (simp add: sample_audit_def sample_pending_def awaits_review_def find_review_def sample_review_def run_by_id_def)
  ultimately show ?thesis using review_pages_continue [OF sample_audit_wf, of ascii_tables 5 no_text None None] by auto
qed

end
