(* ===== verification/Dream_Writeback.thy ===== *)
theory Dream_Writeback
  imports Dream_Audit Knowledge_Evolution
begin

text \<open>
  Writing promoted candidates as knowledge, \<^verbatim>\<open>cyberbrain/dreaming/writeback.py\<close>. Whether and what
  to store is \<open>plan_write\<close>, which is pure: it skips what is not promoted, blocks candidates whose
  evidence is unknown, not canonical or of mixed identity, and gives the request for the
  knowledge service otherwise. \<open>write_candidate\<close> makes the call through
  \<^verbatim>\<open>knowledge/evolution.py\<close>. Ids that \<^verbatim>\<open>uuid4\<close> draws and the clock are arguments. The linking of related knowledge
  (\<^verbatim>\<open>_build_candidate_relations\<close>) is a parameter that yields the relations extension or nothing.
\<close>

datatype write_status = WRITTEN | SKIPPED_NOT_PROMOTED | BLOCKED_METADATA | BLOCKED_EVIDENCE_ID

fun write_status_value :: "write_status \<Rightarrow> ustr" where
  "write_status_value WRITTEN = lit ''written''"
| "write_status_value SKIPPED_NOT_PROMOTED = lit ''skipped_not_promoted''"
| "write_status_value BLOCKED_METADATA = lit ''blocked_metadata''"
| "write_status_value BLOCKED_EVIDENCE_ID = lit ''blocked_evidence_id''"

record write_result =
  wt_index :: nat
  wt_status :: write_status
  wt_reason :: ustr
  wt_evolution :: "evolution_result option"

definition no_write :: "nat \<Rightarrow> write_status \<Rightarrow> ustr \<Rightarrow> write_result" where
  "no_write i s why = \<lparr>wt_index = i, wt_status = s, wt_reason = why, wt_evolution = None\<rparr>"

record 's knowledge_writer =
  kw_service :: "'s evolution_service"
  kw_tables :: gate_tables
  kw_domain :: "ustr option"
  kw_link :: "store_request \<Rightarrow> ('s, json option) io"
  kw_linking :: bool

definition make_writer :: "'s evolution_service \<Rightarrow> gate_tables \<Rightarrow> ustr option \<Rightarrow> (store_request \<Rightarrow> ('s, json option) io) \<Rightarrow> bool
    \<Rightarrow> 's knowledge_writer" where
  "make_writer V G domain link linking =
     \<lparr>kw_service = V, kw_tables = G,
      kw_domain = (case domain of None \<Rightarrow> None | Some d \<Rightarrow> if py_strip d = [] then None else Some (py_strip d)),
      kw_link = link, kw_linking = linking\<rparr>"

subsection \<open>What the evidence says of a candidate\<close>

text \<open>The distinct non-blank texts of a metadata key over the evidence, a null value counting as missing.\<close>

definition key_text :: "'a dream_tables_scheme \<Rightarrow> string \<Rightarrow> evidence \<Rightarrow> ustr option" where
  "key_text D k e =
     (case meta_get e k of
        None \<Rightarrow> None
      | Some JNull \<Rightarrow> None
      | Some v \<Rightarrow> (let s = py_strip (json_str (dx_str D) v) in if s = [] then None else Some s))"

definition key_texts :: "'a dream_tables_scheme \<Rightarrow> string \<Rightarrow> evidence list \<Rightarrow> ustr list" where
  "key_texts D k es = fromkeys (List.map_filter (key_text D k) es)"

definition nonblank :: "ustr \<Rightarrow> ustr option" where
  "nonblank s = (if py_strip s = [] then None else Some (py_strip s))"

definition context_domains :: "'a dream_tables_scheme \<Rightarrow> evidence list \<Rightarrow> ustr list" where
  "context_domains D es =
     fromkeys (List.map_filter (\<lambda>e. case meta_get e ''context'' of
         Some (JObj kvs) \<Rightarrow> nonblank (text_or_empty (dx_str D) (Some (context_domain (Some (JObj kvs)))))
       | _ \<Rightarrow> None) es)"

definition context_text :: "'a dream_tables_scheme \<Rightarrow> reason_candidate \<Rightarrow> string \<Rightarrow> ustr" where
  "context_text D c k =
     (case rc_context c of JObj kvs \<Rightarrow> py_strip (text_or_empty (dx_str D) (map_of kvs (lit k))) | _ \<Rightarrow> [])"

definition domain_for :: "'s knowledge_writer \<Rightarrow> reason_candidate \<Rightarrow> evidence list \<Rightarrow> ustr option \<Rightarrow> ustr option" where
  "domain_for W c es override =
     (case Option.bind override nonblank of
        Some d \<Rightarrow> Some d
      | None \<Rightarrow>
          (case key_texts (kw_tables W) ''domain'' es of
             [d] \<Rightarrow> Some d
           | _ # _ # _ \<Rightarrow> None
           | [] \<Rightarrow>
               (case context_domains (kw_tables W) es of
                  [d] \<Rightarrow> Some d
                | _ # _ # _ \<Rightarrow> None
                | [] \<Rightarrow> if context_text (kw_tables W) c ''domain'' \<noteq> [] then Some (context_text (kw_tables W) c ''domain'')
                    else kw_domain W)))"

definition verification_for :: "'a dream_tables_scheme \<Rightarrow> evidence list \<Rightarrow> ustr" where
  "verification_for D es =
     (let values = map (verification_text D) es
      in case find (\<lambda>v. v \<in> set values) [lit ''user_confirmed'', lit ''tested'', lit ''observed''] of
           Some v \<Rightarrow> v | None \<Rightarrow> lit ''derived'')"

definition topic_for :: "'a dream_tables_scheme \<Rightarrow> reason_candidate \<Rightarrow> reason_request \<Rightarrow> evidence list \<Rightarrow> ustr result" where
  "topic_for D c rq es =
     (let topics = fromkeys (List.map_filter (\<lambda>e. nonblank (meta_text D e ''topic'')) es)
      in case topics of
           [t] \<Rightarrow> Inr t
         | _ \<Rightarrow>
             if context_text D c ''topic'' \<noteq> [] then Inr (context_text D c ''topic'')
             else (case rq_topics rq of
                 t # _ \<Rightarrow> Inr t
               | [] \<Rightarrow> (case sort topics of
                   t # _ \<Rightarrow> Inr t
                 | [] \<Rightarrow> Inl (ValueError (lit ''unable to resolve canonical topic for Dream candidate'')))))"

text \<open>The four identity dimensions of the evidence, each with one value or none.\<close>

definition attribution_keys :: "(string \<times> identity_dimension) list" where
  "attribution_keys = [(''tenant'', TENANT), (''user'', USER), (''agent'', AGENT), (''project'', PROJECT)]"

fun attribution_of :: "'a dream_tables_scheme \<Rightarrow> evidence list \<Rightarrow> (string \<times> identity_dimension) list
    \<Rightarrow> string + identity_values" where
  "attribution_of D es [] = Inr Map.empty"
| "attribution_of D es ((k, d) # ks) =
     (case key_texts D k es of
        _ # _ # _ \<Rightarrow> Inl k
      | vs \<Rightarrow> bindE (attribution_of D es ks) (\<lambda>rest. Inr (case vs of [v] \<Rightarrow> rest(d \<mapsto> v) | _ \<Rightarrow> rest)))"

subsection \<open>Planning a write\<close>

definition dream_extensions :: "reason_candidate \<Rightarrow> gate_decision \<Rightarrow> dict" where
  "dream_extensions c d =
     [lit ''reasoner_confidence'' \<mapsto> JReal (gd_reasoner d), lit ''evidence_strength'' \<mapsto> JReal (gd_strength d),
      lit ''promotion_confidence'' \<mapsto> JReal (gd_promotion d),
      lit ''dream_classification'' \<mapsto> JStr (classification_value (rc_classification c))]"

definition dream_context :: "reason_candidate \<Rightarrow> dict" where
  "dream_context c =
     (case rc_context c of JObj kvs \<Rightarrow> (map_of kvs)(lit ''reasoning_section'' := None, lit ''task_id'' := None) | _ \<Rightarrow> Map.empty)"

definition dream_meta :: "reason_candidate \<Rightarrow> gate_decision \<Rightarrow> ustr \<Rightarrow> ustr \<Rightarrow> uid list \<Rightarrow> knowledge_meta" where
  "dream_meta c d run verification ids =
     \<lparr>km_summary = Some (rc_summary c), km_identity_trust = lit ''unspecified'', km_ordinary_recall = True,
      km_retention = lit ''default'', km_change_reason = Some (lit ''promoted from Dreaming evidence gate''), km_importance = None,
      km_verification = verification, km_confidence = Some (gd_promotion d), km_provenance = Some (lit ''dream''),
      km_source = Some (lit ''dream_run:'' @ run), km_evidence = ids, km_origin = lit ''dream'', km_dream_run = Some run,
      km_negative = rc_negative c\<rparr>"

text \<open>\<open>None\<close> of the selection is the \<^verbatim>\<open>KeyError\<close> of an id outside the request.\<close>

definition select_evidence :: "(ustr \<rightharpoonup> evidence) \<Rightarrow> ustr list \<Rightarrow> evidence list option" where
  "select_evidence by_id ids = (if list_all (\<lambda>i. by_id i \<noteq> None) ids then Some (map (\<lambda>i. the (by_id i)) ids) else None)"

definition plan_write :: "'s knowledge_writer \<Rightarrow> reason_request \<Rightarrow> reason_candidate \<Rightarrow> gate_decision \<Rightarrow> ustr \<Rightarrow> nat
    \<Rightarrow> ustr option \<Rightarrow> (write_result + store_request) result" where
  "plan_write W rq c d run i override =
     (if gd_decision d \<noteq> PROMOTE
      then Inr (Inl (no_write i SKIPPED_NOT_PROMOTED (lit ''gate_decision='' @ decision_value (gd_decision d))))
      else case select_evidence (evidence_by_id rq) (if gd_evidence_ids d \<noteq> [] then gd_evidence_ids d else rc_evidence_ids c) of
          None \<Rightarrow> Inr (Inl (no_write i BLOCKED_EVIDENCE_ID (lit ''candidate references evidence outside Dream request snapshot'')))
        | Some es \<Rightarrow>
            (case mapE (\<lambda>e. sv_parse_uuid (kw_service W) (ev_id e)) es of
               Inl _ \<Rightarrow> Inr (Inl (no_write i BLOCKED_EVIDENCE_ID (lit ''canonical Knowledge evidence_ids must be UUID point IDs'')))
             | Inr ids \<Rightarrow>
                 (case domain_for W c es override of
                    None \<Rightarrow> Inr (Inl (no_write i BLOCKED_METADATA (lit ''missing_or_ambiguous_domain'')))
                  | Some domain \<Rightarrow>
                      (case attribution_of (kw_tables W) es attribution_keys of
                         Inl k \<Rightarrow> Inr (Inl (no_write i BLOCKED_METADATA (lit ''mixed_identity_'' @ lit k)))
                       | Inr scope \<Rightarrow>
                           bindE (topic_for (kw_tables W) c rq es) (\<lambda>topic.
                             Inr (Inr \<lparr>rq_content = rc_content c, rq_domain = domain, rq_topic = topic, rq_type = rc_entity_type c,
                               rq_name = rc_entity_name c, rq_scope = scope, rq_class = CLASS_KNOWLEDGE,
                               rq_context = Some (dream_context c), rq_extensions = Some (dream_extensions c d), rq_force = False,
                               rq_expected = None,
                               rq_meta = dream_meta c d run (verification_for (kw_tables W) es) ids\<rparr>))))))"

subsection \<open>Writing\<close>

text \<open>\<^verbatim>\<open>except ConfigurationError\<close>, of which an exceeded quota is a subclass.\<close>

fun caught_as_configuration :: "exn \<Rightarrow> bool" where
  "caught_as_configuration (ConfigurationError _) = True"
| "caught_as_configuration (QuotaExceededError _) = True"
| "caught_as_configuration _ = False"

definition evolution_reason :: "evolution_outcome \<Rightarrow> ustr" where
  "evolution_reason x = (case x of INSERT_NEW \<Rightarrow> lit ''insert_new'' | NO_CHANGE \<Rightarrow> lit ''no_change'' | EVOLVE \<Rightarrow> lit ''evolve'')"

definition linked_request :: "'s knowledge_writer \<Rightarrow> store_request \<Rightarrow> ('s, store_request) io" where
  "linked_request W q s =
     (if \<not> kw_linking W then (Inr q, s)
      else case kw_link W q s of
          (Inr (Some bundle), s') \<Rightarrow>
            (Inr (q\<lparr>rq_extensions := map_option (\<lambda>ext. ext(relations_key \<mapsto> bundle)) (rq_extensions q)\<rparr>), s')
        | (_, s') \<Rightarrow> (Inr q, s'))"

definition store_or_retry :: "unicode_tables \<Rightarrow> 's knowledge_writer \<Rightarrow> caller_authority option \<Rightarrow> int \<Rightarrow> uid \<Rightarrow> uid
    \<Rightarrow> store_request \<Rightarrow> store_request \<Rightarrow> ('s, evolution_result) io" where
  "store_or_retry U W ctx now new_id retry_id q linked s =
     (case store_knowledge U (kw_service W) ctx now new_id linked s of
        (Inl e, s') \<Rightarrow> if caught_as_configuration e then store_knowledge U (kw_service W) ctx now retry_id q s' else (Inl e, s')
      | (Inr r, s') \<Rightarrow> (Inr r, s'))"

definition write_candidate :: "unicode_tables \<Rightarrow> 's knowledge_writer \<Rightarrow> caller_authority option \<Rightarrow> int \<Rightarrow> uid \<times> uid \<Rightarrow> reason_request
    \<Rightarrow> reason_candidate \<Rightarrow> gate_decision \<Rightarrow> ustr \<Rightarrow> nat \<Rightarrow> ustr option \<Rightarrow> ('s, write_result) io" where
  "write_candidate U W ctx now ids rq c d run i override =
     bindS (liftS (plan_write W rq c d run i override)) (\<lambda>plan.
       case plan of
         Inl w \<Rightarrow> returnS w
       | Inr q \<Rightarrow>
           bindS (linked_request W q) (\<lambda>linked.
           bindS (store_or_retry U W ctx now (fst ids) (snd ids) q linked) (\<lambda>r.
             returnS \<lparr>wt_index = i, wt_status = WRITTEN, wt_reason = evolution_reason (er_outcome r), wt_evolution = Some r\<rparr>)))"

definition write_promoted :: "unicode_tables \<Rightarrow> 's knowledge_writer \<Rightarrow> caller_authority option \<Rightarrow> int \<Rightarrow> (nat \<Rightarrow> uid \<times> uid)
    \<Rightarrow> reason_request \<Rightarrow> reason_result \<Rightarrow> gate_outcome \<Rightarrow> ustr \<Rightarrow> ('s, write_result list) io" where
  "write_promoted U W ctx now fresh rq res out run =
     (if rr_request_id res \<noteq> rq_id rq \<or> go_request_id out \<noteq> rq_id rq
      then raiseS (ValueError (lit ''request/result/gate request_id mismatch''))
      else mapS (\<lambda>d. if length (rr_candidates res) \<le> gd_index d
                     then raiseS (ValueError (lit ''gate candidate index is out of range''))
                     else write_candidate U W ctx now (fresh (gd_index d)) rq (rr_candidates res ! gd_index d) d run (gd_index d) None)
             (go_decisions out))"

subsection \<open>Writing and auditing\<close>

text \<open>Two components side by side, each with its own state.\<close>

definition on_first :: "('s, 'b) io \<Rightarrow> ('s \<times> 't, 'b) io" where
  "on_first m = (\<lambda>(s, t). case m s of (r, s') \<Rightarrow> (r, (s', t)))"

definition on_second :: "('t \<Rightarrow> 'b result \<times> 't) \<Rightarrow> ('s \<times> 't, 'b) io" where
  "on_second m = (\<lambda>(s, t). case m t of (r, t') \<Rightarrow> (r, (s, t')))"

definition transaction :: "('t \<Rightarrow> 't result) \<Rightarrow> 't \<Rightarrow> unit result \<times> 't" where
  "transaction f t = (case f t of Inl e \<Rightarrow> (Inl e, t) | Inr t' \<Rightarrow> (Inr (), t'))"

definition audit_row_of :: "int \<Rightarrow> ustr \<Rightarrow> write_result \<Rightarrow> write_row" where
  "audit_row_of now run w =
     \<lparr>wr_run = run, wr_index = wt_index w, wr_status = write_status_value (wt_status w), wr_reason = wt_reason w,
      wr_outcome = map_option (\<lambda>r. evolution_reason (er_outcome r)) (wt_evolution w),
      wr_knowledge = map_option er_id (wt_evolution w), wr_previous = Option.bind (wt_evolution w) er_previous, wr_created = now\<rparr>"

definition write_and_audit :: "unicode_tables \<Rightarrow> 's knowledge_writer \<Rightarrow> caller_authority option \<Rightarrow> int \<Rightarrow> (nat \<Rightarrow> uid \<times> uid)
    \<Rightarrow> reason_request \<Rightarrow> reason_result \<Rightarrow> gate_outcome \<Rightarrow> ustr \<Rightarrow> ('s \<times> audit, write_result list) io" where
  "write_and_audit U W ctx now fresh rq res out run =
     bindS (on_first (write_promoted U W ctx now fresh rq res out run)) (\<lambda>ws.
     bindS (forS (\<lambda>w. on_second (transaction (record_write U ctx (audit_row_of now run w)))) ws) (\<lambda>_. returnS ws))"

subsection \<open>What a plan guarantees\<close>

lemma map_filter_eq: "List.map_filter f xs = map (the \<circ> f) (filter (\<lambda>x. f x \<noteq> None) xs)"
  by (induction xs) (auto simp: List.map_filter_def)

lemma key_texts_set: "v \<in> set (key_texts D k es) \<longleftrightarrow> (\<exists>e \<in> set es. key_text D k e = Some v)"
  by (force simp: key_texts_def map_filter_eq)

definition attributed :: "'a dream_tables_scheme \<Rightarrow> evidence list \<Rightarrow> (string \<times> identity_dimension) list \<Rightarrow> identity_values \<Rightarrow> bool" where
  "attributed D es ks scope \<longleftrightarrow>
     (\<forall>(k, d) \<in> set ks. \<forall>e \<in> set es. \<forall>v. key_text D k e = Some v \<longrightarrow> scope d = Some v)
     \<and> (\<forall>d v. scope d = Some v \<longrightarrow> (\<exists>k. (k, d) \<in> set ks \<and> (\<exists>e \<in> set es. key_text D k e = Some v)))"

lemma attribution_of_sound:
  "attribution_of D es ks = Inr scope \<Longrightarrow> distinct (map snd ks) \<Longrightarrow> attributed D es ks scope"
proof (induction ks arbitrary: scope)
  case Nil
  then have "scope = Map.empty" by simp
  then show ?case by (simp add: attributed_def)
next
  case (Cons kd ks)
  obtain k d where kd: "kd = (k, d)" by fastforce
  from Cons.prems(1) obtain rest where rest: "attribution_of D es ks = Inr rest"
    and vs: "(\<exists>v. key_texts D k es = [v] \<and> scope = rest(d \<mapsto> v)) \<or> key_texts D k es = [] \<and> scope = rest"
    by (cases "key_texts D k es" rule: remdups_adj.cases) (auto simp: kd)
  from Cons.IH [OF rest] Cons.prems(2) have IH: "attributed D es ks rest" by simp
  have fresh: "rest d = None"
  proof (rule ccontr)
    assume "rest d \<noteq> None"
    then obtain v where "rest d = Some v" by auto
    then obtain k' where "(k', d) \<in> set ks" using IH unfolding attributed_def by blast
    then show False using Cons.prems(2) by (force simp: kd)
  qed
  have this_key: "key_text D k e = Some v \<Longrightarrow> e \<in> set es \<Longrightarrow> scope d = Some v" for e v
    using vs key_texts_set [of v D k es] by auto
  have other: "d' \<noteq> d \<Longrightarrow> scope d' = rest d'" for d' using vs by auto
  have first: "\<forall>(k', d') \<in> set (kd # ks). \<forall>e \<in> set es. \<forall>v. key_text D k' e = Some v \<longrightarrow> scope d' = Some v"
  proof (intro ballI, clarify)
    fix k' d' e v assume mem: "(k', d') \<in> set (kd # ks)" and e: "e \<in> set es" and v: "key_text D k' e = Some v"
    show "scope d' = Some v"
    proof (cases "(k', d') = kd")
      case True
      then show ?thesis using this_key e v by (simp add: kd)
    next
      case False
      then have m: "(k', d') \<in> set ks" using mem by simp
      then have "d' \<noteq> d" using Cons.prems(2) by (force simp: kd)
      then show ?thesis using IH m e v other by (auto simp: attributed_def)
    qed
  qed
  have second: "\<exists>k'. (k', d') \<in> set (kd # ks) \<and> (\<exists>e \<in> set es. key_text D k' e = Some v)" if v: "scope d' = Some v" for d' v
  proof (cases "d' = d")
    case True
    then have "v \<in> set (key_texts D k es)" using v vs fresh by auto
    then show ?thesis using True by (auto simp: key_texts_set kd)
  next
    case False
    then have "rest d' = Some v" using v other by simp
    then obtain k' where "(k', d') \<in> set ks" "\<exists>e \<in> set es. key_text D k' e = Some v" using IH unfolding attributed_def by blast
    then show ?thesis by (intro exI [of _ k']) simp
  qed
  from first second show ?case unfolding attributed_def by blast
qed

lemma domain_for_evidence:
  assumes "domain_for W c es None = Some dm" and "e \<in> set es" and "key_text (kw_tables W) ''domain'' e = Some v"
  shows "v = dm"
proof -
  have "v \<in> set (key_texts (kw_tables W) ''domain'' es)" using assms(2,3) by (auto simp: key_texts_set)
  with assms(1) show ?thesis by (auto simp: domain_for_def split: list.splits)
qed

definition cited_ids :: "reason_candidate \<Rightarrow> gate_decision \<Rightarrow> ustr list" where
  "cited_ids c d = (if gd_evidence_ids d \<noteq> [] then gd_evidence_ids d else rc_evidence_ids c)"

lemma select_evidence_Some:
  assumes "select_evidence by_id ids = Some es"
  shows "list_all2 (\<lambda>i e. by_id i = Some e) ids es"
  using assms by (auto simp: select_evidence_def list_all_iff list_all2_conv_all_nth split: if_splits)

definition planned_from :: "'s knowledge_writer \<Rightarrow> reason_request \<Rightarrow> reason_candidate \<Rightarrow> gate_decision \<Rightarrow> evidence list
    \<Rightarrow> store_request \<Rightarrow> bool" where
  "planned_from W rq c d es q \<longleftrightarrow> gd_decision d = PROMOTE
     \<and> list_all2 (\<lambda>i e. evidence_by_id rq i = Some e) (cited_ids c d) es
     \<and> mapE (\<lambda>e. sv_parse_uuid (kw_service W) (ev_id e)) es = Inr (km_evidence (rq_meta q))
     \<and> rq_content q = rc_content c \<and> rq_class q = CLASS_KNOWLEDGE
     \<and> attributed (kw_tables W) es attribution_keys (rq_scope q)
     \<and> km_verification (rq_meta q) = verification_for (kw_tables W) es"

lemma plan_write_sound:
  assumes "plan_write W rq c d run i override = Inr (Inr q)"
  shows "\<exists>es. planned_from W rq c d es q \<and> domain_for W c es override = Some (rq_domain q)"
proof -
  have promote: "gd_decision d = PROMOTE" using assms by (auto simp: plan_write_def split: if_splits)
  obtain es where es: "select_evidence (evidence_by_id rq) (cited_ids c d) = Some es"
    using assms promote by (auto simp: plan_write_def cited_ids_def split: option.splits)
  then obtain ids where ids: "mapE (\<lambda>e. sv_parse_uuid (kw_service W) (ev_id e)) es = Inr ids"
    using assms promote by (auto simp: plan_write_def cited_ids_def [symmetric] split: sum.splits)
  then obtain domain where dm: "domain_for W c es override = Some domain"
    using assms promote es by (auto simp: plan_write_def cited_ids_def [symmetric] split: option.splits)
  then obtain scope where sc: "attribution_of (kw_tables W) es attribution_keys = Inr scope"
    using assms promote es ids by (auto simp: plan_write_def cited_ids_def [symmetric] split: sum.splits)
  have "distinct (map snd attribution_keys)" by (simp add: attribution_keys_def)
  from attribution_of_sound [OF sc this] have att: "attributed (kw_tables W) es attribution_keys scope" .
  have q: "rq_content q = rc_content c" "rq_class q = CLASS_KNOWLEDGE" "rq_scope q = scope" "rq_domain q = domain"
    "km_evidence (rq_meta q) = ids" "km_verification (rq_meta q) = verification_for (kw_tables W) es"
    using assms promote es ids dm sc by (auto simp: plan_write_def cited_ids_def [symmetric] dream_meta_def)
  show ?thesis unfolding planned_from_def
    using promote select_evidence_Some [OF es] ids att dm by (intro exI [of _ es]) (simp add: q)
qed

lemma plan_write_blocked:
  "plan_write W rq c d run i override = Inr (Inl w) \<Longrightarrow> wt_status w \<noteq> WRITTEN \<and> wt_evolution w = None \<and> wt_index w = i"
  by (auto simp: plan_write_def no_write_def split: if_splits option.splits sum.splits)


lemma linked_request_kept:
  "\<exists>linked s1. linked_request W q s = (Inr linked, s1) \<and> rq_scope linked = rq_scope q
     \<and> rq_content linked = rq_content q \<and> rq_meta linked = rq_meta q"
proof -
  obtain r s1 where r: "kw_link W q s = (r, s1)" by fastforce
  show ?thesis
  proof (cases "kw_linking W \<and> (\<exists>bundle. r = Inr (Some bundle))")
    case True
    then show ?thesis by (auto simp: linked_request_def r)
  next
    case False
    then have "linked_request W q s = (Inr q, if kw_linking W then s1 else s)"
      by (auto simp: linked_request_def r split: sum.splits option.splits)
    then show ?thesis by simp
  qed
qed

text \<open>The knowledge call a written candidate made: for the plan, perhaps with relations added.\<close>

definition stored_as :: "unicode_tables \<Rightarrow> 's knowledge_writer \<Rightarrow> caller_authority option \<Rightarrow> int \<Rightarrow> store_request \<Rightarrow> evolution_result \<Rightarrow> bool" where
  "stored_as U W ctx now q r \<longleftrightarrow> (\<exists>linked new_id s1 s2. rq_scope linked = rq_scope q \<and> rq_content linked = rq_content q
     \<and> rq_meta linked = rq_meta q \<and> store_knowledge U (kw_service W) ctx now new_id linked s1 = (Inr r, s2))"

text \<open>
  C30. What a dream run writes is attributed to its evidence. A candidate is written only when
  the gate (or a reviewer) promoted it and all the evidence it cites is in the request, with
  canonical ids that the stored record lists; the record's tenant, user, agent and project
  are the one value that this evidence gives for each, so evidence of two projects or tenants
  is never merged into a record, and every stated domain of the evidence is the record's.
  A candidate that is skipped or blocked touches nothing.
\<close>

theorem dream_writes_are_attributed:
  assumes "write_candidate U W ctx now ids rq c d run i override s = (Inr w, s')"
  shows "wt_index w = i
    \<and> (wt_status w \<noteq> WRITTEN \<longrightarrow> s' = s \<and> wt_evolution w = None)
    \<and> (wt_status w = WRITTEN \<longrightarrow> (\<exists>es q r. planned_from W rq c d es q
         \<and> (override = None \<longrightarrow> (\<forall>e \<in> set es. \<forall>v. key_text (kw_tables W) ''domain'' e = Some v \<longrightarrow> v = rq_domain q))
         \<and> stored_as U W ctx now q r \<and> wt_evolution w = Some r))"
proof -
  from assms obtain plan where plan: "plan_write W rq c d run i override = Inr plan"
    by (cases "plan_write W rq c d run i override") (auto simp: write_candidate_def bindS_def liftS_def raiseS_def)
  show ?thesis
  proof (cases plan)
    case (Inl b)
    then have "w = b" "s' = s" using assms plan by (simp_all add: write_candidate_def bindS_def liftS_def returnS_def)
    then show ?thesis using plan_write_blocked [of W rq c d run i override b] plan Inl by simp
  next
    case (Inr q)
    obtain linked s1 where linked: "linked_request W q s = (Inr linked, s1)"
      "rq_scope linked = rq_scope q" "rq_content linked = rq_content q" "rq_meta linked = rq_meta q"
      using linked_request_kept [of W q s] by blast
    from assms plan linked(1) obtain r where stored: "store_or_retry U W ctx now (fst ids) (snd ids) q linked s1 = (Inr r, s')"
      and w: "w = \<lparr>wt_index = i, wt_status = WRITTEN, wt_reason = evolution_reason (er_outcome r), wt_evolution = Some r\<rparr>"
      by (auto simp: write_candidate_def bindS_def liftS_def returnS_def Inr split: sum.splits prod.splits)
    have call: "stored_as U W ctx now q r"
      using stored linked(2-4) unfolding store_or_retry_def stored_as_def by (auto split: prod.splits sum.splits if_splits)
    from plan_write_sound [of W rq c d run i override q] plan Inr obtain es where es: "planned_from W rq c d es q"
      "domain_for W c es override = Some (rq_domain q)" by blast
    then have "\<forall>e \<in> set es. \<forall>v. key_text (kw_tables W) ''domain'' e = Some v \<longrightarrow> v = rq_domain q" if "override = None"
      using domain_for_evidence that by blast
    with es(1) call show ?thesis unfolding w by (intro conjI impI exI [of _ es] exI [of _ q] exI [of _ r]) simp_all
  qed
qed


subsection \<open>A concrete write\<close>

definition tested_writer :: "memory knowledge_writer" where
  "tested_writer = make_writer memory_service sample_gate (Some [100]) (\<lambda>q. returnS None) False"

definition tested_decision :: gate_decision where
  "tested_decision = \<lparr>gd_index = 0, gd_decision = PROMOTE, gd_reasoner = 1, gd_strength = 1, gd_promotion = 1,
     gd_evidence_ids = [[3], [4]], gd_reasons = []\<rparr>"

definition tested_store :: store_request where
  "tested_store = \<lparr>rq_content = [100], rq_domain = [100], rq_topic = [97], rq_type = [98], rq_name = [97], rq_scope = Map.empty,
     rq_class = CLASS_KNOWLEDGE, rq_context = Some (dream_context tested_candidate),
     rq_extensions = Some (dream_extensions tested_candidate tested_decision), rq_force = False, rq_expected = None,
     rq_meta = dream_meta tested_candidate tested_decision [7]
       (verification_for sample_gate [tested_item 3 ''episode'', tested_item 4 ''event'']) [[3], [4]]\<rparr>"

lemma tested_by_id: "evidence_by_id tested_request [3] = Some (tested_item 3 ''episode'')"
  "evidence_by_id tested_request [4] = Some (tested_item 4 ''event'')"
  by (simp_all add: evidence_by_id_def tested_request_def tested_item_def)

lemma tested_plan: "plan_write tested_writer tested_request tested_candidate tested_decision [7] 0 None = Inr (Inr tested_store)"
proof -
  let ?es = "[tested_item 3 ''episode'', tested_item 4 ''event'']"
  have W: "kw_service tested_writer = memory_service" "kw_tables tested_writer = sample_gate" "kw_domain tested_writer = Some [100]"
    by (simp_all add: tested_writer_def make_writer_def py_strip_def py_lstrip_def py_rstrip_def py_space_def)
  have sel: "select_evidence (evidence_by_id tested_request) [[3], [4]] = Some ?es"
    by (simp add: select_evidence_def tested_by_id)
  have parse: "mapE (\<lambda>e. sv_parse_uuid memory_service (ev_id e)) ?es = Inr [[3], [4]]"
    by (simp add: memory_service_def tested_item_def)
  have none: "meta_get (tested_item i kind) k = None" if "k \<noteq> ''verification''" for i kind k
  proof -
    have "lit k \<noteq> lit ''verification''" using that by (simp add: lit_eq_iff)
    then show ?thesis by (simp add: meta_get_def tested_item_def)
  qed
  have keys: "key_texts sample_gate k ?es = []" if "k \<noteq> ''verification''" for k
    using none [OF that] by (simp add: key_texts_def key_text_def List.map_filter_def)
  have ctx: "context_domains sample_gate ?es = []" using none [of "''context''"] by (simp add: context_domains_def List.map_filter_def)
  have blank: "context_text sample_gate tested_candidate k = []" for k
    by (simp add: context_text_def tested_candidate_def text_or_empty_def py_strip_def py_lstrip_def py_rstrip_def)
  have dm: "domain_for tested_writer tested_candidate ?es None = Some [100]" by (simp add: domain_for_def W keys ctx blank)
  have att: "attribution_of sample_gate ?es attribution_keys = Inr Map.empty"
    by (simp add: attribution_keys_def keys)
  have "topic_for sample_gate tested_candidate tested_request ?es = Inr [97]"
    using none [of "''topic''"]
    by (simp add: topic_for_def Let_def meta_text_def text_or_empty_def nonblank_def List.map_filter_def blank tested_request_def
        py_strip_def py_lstrip_def py_rstrip_def)
  with sel parse dm att show ?thesis
    by (simp add: plan_write_def W tested_decision_def tested_store_def tested_candidate_def)
qed


definition tested_record :: knowledge_payload where
  "tested_record = build_record memory_service 0 tested_store (entity_of tested_store Map.empty) [100] [35, 100]
     ((dream_extensions tested_candidate tested_decision)(index_key \<mapsto> JNull)) None"

lemma tested_stored:
  "store_knowledge ascii_tables memory_service None 0 [49] tested_store []
    = (Inr \<lparr>er_outcome = INSERT_NEW, er_id = [49], er_record = tested_record, er_previous = None\<rparr>, [([49], tested_record)])"
proof (rule memory_insert)
  show "rq_class tested_store = CLASS_KNOWLEDGE" "rq_expected tested_store = None" "rq_scope tested_store = Map.empty"
    "the_default Map.empty (rq_extensions tested_store) = dream_extensions tested_candidate tested_decision"
    by (simp_all add: tested_store_def)
  show "index_key \<notin> dom (dream_extensions tested_candidate tested_decision)"
    "dream_extensions tested_candidate tested_decision relations_key = None"
    by (simp_all add: dream_extensions_def index_key_def relations_key_def lit_eq_iff)
  show "normalize_content [100] = Inr [100]" "normalize_content (rq_content tested_store) = Inr [100]"
    by (simp_all add: normalize_content_def tested_store_def py_strip_def py_lstrip_def py_rstrip_def py_space_def)
  show "build_record memory_service 0 tested_store (entity_of tested_store Map.empty) [100] (35 # [100])
     ((dream_extensions tested_candidate tested_decision)(index_key \<mapsto> JNull)) None = tested_record"
    by (simp add: tested_record_def)
  show "validate_knowledge tested_record = Inr tested_record"
    by (simp add: validate_knowledge_def tested_record_def build_record_def tested_store_def dream_meta_def tested_decision_def)
qed

lemma tested_written:
  "write_candidate ascii_tables tested_writer None 0 ([49], [50]) tested_request tested_candidate tested_decision [7] 0 None []
    = (Inr \<lparr>wt_index = 0, wt_status = WRITTEN, wt_reason = lit ''insert_new'',
         wt_evolution = Some \<lparr>er_outcome = INSERT_NEW, er_id = [49], er_record = tested_record, er_previous = None\<rparr>\<rparr>, [([49], tested_record)])"
proof -
  have W: "kw_service tested_writer = memory_service" "\<not> kw_linking tested_writer" by (simp_all add: tested_writer_def make_writer_def)
  have link: "linked_request tested_writer tested_store [] = (Inr tested_store, [])" by (simp add: linked_request_def W)
  have "store_or_retry ascii_tables tested_writer None 0 [49] [50] tested_store tested_store []
      = (Inr \<lparr>er_outcome = INSERT_NEW, er_id = [49], er_record = tested_record, er_previous = None\<rparr>, [([49], tested_record)])"
    by (simp add: store_or_retry_def W tested_stored)
  then show ?thesis
    by (simp add: write_candidate_def bindS_def liftS_def tested_plan link returnS_def evolution_reason_def)
qed

lemma dream_writes_are_attributed_witness:
  "\<exists>es q r. planned_from tested_writer tested_request tested_candidate tested_decision es q
     \<and> stored_as ascii_tables tested_writer None 0 q r"
  using dream_writes_are_attributed [OF tested_written] by auto

end
