(* ===== verification/Dream_Queue.thy ===== *)
theory Dream_Queue
  imports Tenancy_Durable
begin

text \<open>
  The durable queue of dreaming jobs, \<^verbatim>\<open>cyberbrain/dreaming/queue.py\<close>. The SQLite table
  is the list of its rows in row-id order with the next AUTOINCREMENT id; a query that orders
  by a column is a stable sort, so ties keep row-id order, as SQLite does. Every operation
  takes the bound authority (\<^verbatim>\<open>current_authority()\<close>) and the clock it reads and returns its
  result, or the exception it raises, with the table after it. \<^verbatim>\<open>datetime.now(UTC).isoformat()\<close>
  values are integers (their text order is their time order), \<^verbatim>\<open>time.time()\<close> is a real. Columns that hold JSON
  texts are modelled by the value.
\<close>

datatype job_status = PENDING | PROCESSING | PROCESSED | FAILED

record dream_row =
  dr_id :: nat
  dr_session :: ustr
  dr_topics :: "ustr list"
  dr_status :: job_status
  dr_attempts :: int
  dr_created :: int
  dr_updated :: int
  dr_error :: "ustr option"
  dr_authority :: "json option"
  dr_scope_key :: json
  dr_available :: real

record dream_table =
  dt_rows :: "dream_row list"
  dt_next :: nat

record dream_job =
  dj_id :: nat
  dj_session :: ustr
  dj_topics :: "ustr list"
  dj_status :: job_status
  dj_attempts :: int
  dj_created :: int
  dj_updated :: int
  dj_error :: "ustr option"
  dj_authority :: "json option"

definition row_to_job :: "dream_row \<Rightarrow> dream_job" where
  "row_to_job r = \<lparr>dj_id = dr_id r, dj_session = dr_session r, dj_topics = dr_topics r,
     dj_status = dr_status r, dj_attempts = dr_attempts r, dj_created = dr_created r,
     dj_updated = dr_updated r, dj_error = dr_error r, dj_authority = dr_authority r\<rparr>"

subsection \<open>Opening the database\<close>

text \<open>
  \<^verbatim>\<open>_initialize\<close> on a database from before identity scopes: every row is copied with no
  snapshot, the scope key \<^verbatim>\<open>'{}'\<close> and \<^verbatim>\<open>available_at\<close> 0.
\<close>

record legacy_row =
  lr_id :: nat
  lr_session :: ustr
  lr_topics :: "ustr list"
  lr_status :: job_status
  lr_attempts :: int
  lr_created :: int
  lr_updated :: int
  lr_error :: "ustr option"

definition migrate_row :: "legacy_row \<Rightarrow> dream_row" where
  "migrate_row r = \<lparr>dr_id = lr_id r, dr_session = lr_session r, dr_topics = lr_topics r,
     dr_status = lr_status r, dr_attempts = lr_attempts r, dr_created = lr_created r,
     dr_updated = lr_updated r, dr_error = lr_error r, dr_authority = None,
     dr_scope_key = JObj [], dr_available = 0\<rparr>"

definition initialize_legacy :: "legacy_row list \<Rightarrow> dream_table" where
  "initialize_legacy rows =
     \<lparr>dt_rows = map migrate_row rows, dt_next = Suc (foldr (\<lambda>r. max (lr_id r)) rows 0)\<rparr>"

definition empty_queue :: dream_table where
  "empty_queue = \<lparr>dt_rows = [], dt_next = 1\<rparr>"

subsection \<open>Statements over the table\<close>

definition update_where :: "(dream_row \<Rightarrow> bool) \<Rightarrow> (dream_row \<Rightarrow> dream_row) \<Rightarrow> dream_table \<Rightarrow> dream_table" where
  "update_where P f t = t\<lparr>dt_rows := map (\<lambda>r. if P r then f r else r) (dt_rows t)\<rparr>"

definition row_by_id :: "nat \<Rightarrow> dream_table \<Rightarrow> dream_row option" where
  "row_by_id i t = find (\<lambda>r. dr_id r = i) (dt_rows t)"

text \<open>\<^verbatim>\<open>LIMIT ?\<close>; a negative limit is no limit.\<close>

definition sql_limit :: "int \<Rightarrow> 'a list \<Rightarrow> 'a list" where
  "sql_limit n xs = (if n < 0 then xs else take (nat n) xs)"

subsection \<open>Enqueueing and reading\<close>

definition job_key_error :: "nat \<Rightarrow> exn" where
  "job_key_error i = KeyError (py_str_nat i)"

definition enqueue_snapshot :: "unicode_tables \<Rightarrow> caller_authority option \<Rightarrow> ustr \<Rightarrow> json option \<Rightarrow> json result" where
  "enqueue_snapshot U ctx session_id authority =
     bindE (enforce_operation U ctx MEMORY_WRITE [SESSION \<mapsto> session_id]) (\<lambda>plan.
     bindE (case (authority, ctx) of
         (None, Some caller) \<Rightarrow> (case Option.bind plan ep_scope of
             None \<Rightarrow> Inl (TypeError (lit ''effective scope is missing''))
           | Some s \<Rightarrow> bindE (authority_for_authenticated_scope (ca_mode caller) s all_operations)
               (\<lambda>delegated. Inr (authority_snapshot (Some delegated) ctx)))
       | (Some j, _) \<Rightarrow> Inr j
       | (None, None) \<Rightarrow> Inr (authority_snapshot None None)) (\<lambda>snapshot.
     bindE (restore_authority U snapshot) (\<lambda>_. Inr snapshot)))"

definition upsert_job :: "ustr \<Rightarrow> ustr list \<Rightarrow> json \<Rightarrow> json \<Rightarrow> int \<Rightarrow> dream_table \<Rightarrow> dream_table" where
  "upsert_job session_id topics snapshot key now t =
     (if list_ex (\<lambda>r. dr_session r = session_id \<and> dr_scope_key r = key) (dt_rows t)
      then update_where (\<lambda>r. dr_session r = session_id \<and> dr_scope_key r = key)
             (\<lambda>r. r\<lparr>dr_topics := topics, dr_updated := now\<rparr>) t
      else \<lparr>dt_rows = dt_rows t @ [\<lparr>dr_id = dt_next t, dr_session = session_id, dr_topics = topics,
              dr_status = PENDING, dr_attempts = 0, dr_created = now, dr_updated = now, dr_error = None,
              dr_authority = Some snapshot, dr_scope_key = key, dr_available = 0\<rparr>],
            dt_next = Suc (dt_next t)\<rparr>)"

definition visible_job :: "unicode_tables \<Rightarrow> caller_authority option \<Rightarrow> ustr \<Rightarrow> dream_row option \<Rightarrow> dream_job result" where
  "visible_job U ctx session_id row =
     (case row of
        None \<Rightarrow> Inl (KeyError session_id)
      | Some r \<Rightarrow> bindE (snapshot_visible U ctx (dr_authority r)) (\<lambda>v.
          if v then Inr (row_to_job r) else Inl (KeyError session_id)))"

definition get_by_session :: "unicode_tables \<Rightarrow> (json \<Rightarrow> ustr) \<Rightarrow> caller_authority option \<Rightarrow> ustr \<Rightarrow> json option
    \<Rightarrow> dream_table \<Rightarrow> dream_job result" where
  "get_by_session U jt ctx session_id authority t =
     (case authority of
        None \<Rightarrow>
          let rows = filter (\<lambda>r. dr_session r = session_id \<and> sql_visible jt ctx (dr_authority r)) (dt_rows t)
          in if length rows \<noteq> 1 then Inl (KeyError session_id)
             else visible_job U ctx session_id (Some (hd rows))
      | Some snapshot \<Rightarrow>
          bindE (identity_key U snapshot) (\<lambda>key.
            visible_job U ctx session_id
              (find (\<lambda>r. dr_session r = session_id \<and> dr_scope_key r = key) (dt_rows t))))"

definition enqueue :: "unicode_tables \<Rightarrow> (json \<Rightarrow> ustr) \<Rightarrow> caller_authority option \<Rightarrow> int \<Rightarrow> ustr \<Rightarrow> ustr list
    \<Rightarrow> json option \<Rightarrow> dream_table \<Rightarrow> dream_job result \<times> dream_table" where
  "enqueue U jt ctx now session_id topics authority t =
     (case enqueue_snapshot U ctx session_id authority of
        Inl e \<Rightarrow> (Inl e, t)
      | Inr snapshot \<Rightarrow>
          (case identity_key U snapshot of
             Inl e \<Rightarrow> (Inl e, t)
           | Inr key \<Rightarrow>
               let t' = upsert_job session_id topics snapshot key now t
               in (get_by_session U jt ctx session_id (Some snapshot) t', t')))"

definition pending :: "(json \<Rightarrow> ustr) \<Rightarrow> caller_authority option \<Rightarrow> real \<Rightarrow> int \<Rightarrow> dream_table \<Rightarrow> dream_job list" where
  "pending jt ctx clock limit t =
     map row_to_job (sql_limit limit (sort_key dr_created
       (filter (\<lambda>r. dr_status r = PENDING \<and> dr_available r \<le> clock \<and> sql_visible jt ctx (dr_authority r))
         (dt_rows t))))"

subsection \<open>Claiming and finishing\<close>

text \<open>\<^verbatim>\<open>json_extract(authority_json, '$.mode') = ?\<close>, added outside the single-owner mode.\<close>

definition mode_clause :: "deployment_mode \<Rightarrow> json option \<Rightarrow> bool" where
  "mode_clause mode authority \<longleftrightarrow> mode = SINGLE_OWNER \<or>
     (case authority of
        Some (JObj kvs) \<Rightarrow> map_of kvs (lit ''mode'') = Some (JStr (mode_value mode))
      | _ \<Rightarrow> False)"

definition claimable :: "(json \<Rightarrow> ustr) \<Rightarrow> caller_authority option \<Rightarrow> real \<Rightarrow> deployment_mode \<Rightarrow> dream_row \<Rightarrow> bool" where
  "claimable jt ctx clock mode r \<longleftrightarrow> dr_status r = PENDING \<and> dr_available r \<le> clock
     \<and> sql_visible jt ctx (dr_authority r) \<and> mode_clause mode (dr_authority r)"

definition start_attempt :: "int \<Rightarrow> dream_row \<Rightarrow> dream_row" where
  "start_attempt now r =
     r\<lparr>dr_status := PROCESSING, dr_attempts := dr_attempts r + 1, dr_updated := now, dr_error := None\<rparr>"

definition claim_next :: "(json \<Rightarrow> ustr) \<Rightarrow> caller_authority option \<Rightarrow> int \<Rightarrow> real \<Rightarrow> deployment_mode
    \<Rightarrow> dream_table \<Rightarrow> dream_job option result \<times> dream_table" where
  "claim_next jt ctx now clock mode t =
     (case sort_key dr_created (filter (claimable jt ctx clock mode) (dt_rows t)) of
        [] \<Rightarrow> (Inr None, t)
      | row # _ \<Rightarrow>
          let hit = (\<lambda>r. dr_id r = dr_id row \<and> dr_status r = PENDING)
          in if length (filter hit (dt_rows t)) \<noteq> 1 then (Inr None, update_where hit (start_attempt now) t)
             else let t' = update_where hit (start_attempt now) t
                  in (Inr (map_option row_to_job (row_by_id (dr_id row) t')), t'))"

definition assert_visible :: "unicode_tables \<Rightarrow> caller_authority option \<Rightarrow> nat \<Rightarrow> dream_table \<Rightarrow> unit result" where
  "assert_visible U ctx i t =
     (case row_by_id i t of
        None \<Rightarrow> Inl (job_key_error i)
      | Some r \<Rightarrow> bindE (snapshot_visible U ctx (dr_authority r)) (\<lambda>v.
          if v then Inr () else Inl (job_key_error i)))"

definition guarded_update :: "unicode_tables \<Rightarrow> caller_authority option \<Rightarrow> nat \<Rightarrow> (dream_row \<Rightarrow> bool)
    \<Rightarrow> (dream_row \<Rightarrow> dream_row) \<Rightarrow> dream_table \<Rightarrow> bool result \<times> dream_table" where
  "guarded_update U ctx i P f t =
     (case assert_visible U ctx i t of
        Inl e \<Rightarrow> (Inl e, t)
      | Inr _ \<Rightarrow> (Inr (length (filter (\<lambda>r. dr_id r = i \<and> P r) (dt_rows t)) = 1),
                   update_where (\<lambda>r. dr_id r = i \<and> P r) f t))"

definition mark_processing :: "unicode_tables \<Rightarrow> caller_authority option \<Rightarrow> int \<Rightarrow> nat
    \<Rightarrow> dream_table \<Rightarrow> bool result \<times> dream_table" where
  "mark_processing U ctx now i = guarded_update U ctx i (\<lambda>r. dr_status r = PENDING) (start_attempt now)"

definition defer_job :: "unicode_tables \<Rightarrow> caller_authority option \<Rightarrow> int \<Rightarrow> real \<Rightarrow> nat \<Rightarrow> int
    \<Rightarrow> dream_table \<Rightarrow> bool result \<times> dream_table" where
  "defer_job U ctx now clock i retry_after = guarded_update U ctx i (\<lambda>r. dr_status r = PROCESSING)
     (\<lambda>r. r\<lparr>dr_status := PENDING, dr_available := clock + real_of_int retry_after,
            dr_attempts := max (dr_attempts r - 1) 0, dr_error := Some (lit ''quota_exceeded''), dr_updated := now\<rparr>)"

definition update_status :: "unicode_tables \<Rightarrow> caller_authority option \<Rightarrow> int \<Rightarrow> nat \<Rightarrow> job_status \<Rightarrow> bool
    \<Rightarrow> dream_table \<Rightarrow> bool result \<times> dream_table" where
  "update_status U ctx now i status increment = guarded_update U ctx i (\<lambda>_. True)
     (\<lambda>r. if increment
          then r\<lparr>dr_status := status, dr_attempts := dr_attempts r + 1, dr_updated := now, dr_error := None\<rparr>
          else r\<lparr>dr_status := status, dr_updated := now\<rparr>)"

definition mark_processed :: "unicode_tables \<Rightarrow> caller_authority option \<Rightarrow> int \<Rightarrow> nat
    \<Rightarrow> dream_table \<Rightarrow> bool result \<times> dream_table" where
  "mark_processed U ctx now i = update_status U ctx now i PROCESSED False"

definition mark_failed :: "unicode_tables \<Rightarrow> caller_authority option \<Rightarrow> int \<Rightarrow> nat \<Rightarrow> ustr
    \<Rightarrow> dream_table \<Rightarrow> bool result \<times> dream_table" where
  "mark_failed U ctx now i message = guarded_update U ctx i (\<lambda>_. True)
     (\<lambda>r. r\<lparr>dr_status := FAILED, dr_error := Some (take 1000 message), dr_updated := now\<rparr>)"

definition retry_job :: "unicode_tables \<Rightarrow> caller_authority option \<Rightarrow> int \<Rightarrow> nat
    \<Rightarrow> dream_table \<Rightarrow> bool result \<times> dream_table" where
  "retry_job U ctx now i = update_status U ctx now i PENDING False"

subsection \<open>Batches\<close>

text \<open>A selected id list, then one \<^verbatim>\<open>UPDATE ... WHERE id=?\<close> for each.\<close>

definition update_ids :: "nat list \<Rightarrow> (dream_row \<Rightarrow> dream_row) \<Rightarrow> dream_table \<Rightarrow> dream_table" where
  "update_ids ids f t = fold (\<lambda>i. update_where (\<lambda>r. dr_id r = i) f) ids t"

definition retry_failed :: "(json \<Rightarrow> ustr) \<Rightarrow> caller_authority option \<Rightarrow> int \<Rightarrow> int \<Rightarrow> int
    \<Rightarrow> dream_table \<Rightarrow> int result \<times> dream_table" where
  "retry_failed jt ctx now max_attempts limit t =
     (if max_attempts < 1 then (Inl (ValueError (lit ''max_attempts must be >= 1'')), t)
      else let ids = map dr_id (sql_limit limit (sort_key dr_updated
             (filter (\<lambda>r. dr_status r = FAILED \<and> dr_attempts r < max_attempts
                \<and> sql_visible jt ctx (dr_authority r)) (dt_rows t))))
           in (Inr (int (length ids)),
               update_ids ids (\<lambda>r. r\<lparr>dr_status := PENDING, dr_updated := now\<rparr>) t))"

definition requeue_all_failed :: "(json \<Rightarrow> ustr) \<Rightarrow> caller_authority option \<Rightarrow> int \<Rightarrow> int
    \<Rightarrow> dream_table \<Rightarrow> int result \<times> dream_table" where
  "requeue_all_failed jt ctx now limit t =
     (let ids = map dr_id (sql_limit limit (sort_key dr_updated
             (filter (\<lambda>r. dr_status r = FAILED \<and> sql_visible jt ctx (dr_authority r)) (dt_rows t))))
      in (Inr (int (length ids)),
          update_ids ids (\<lambda>r. r\<lparr>dr_status := PENDING, dr_attempts := 0, dr_error := None,
            dr_available := 0, dr_updated := now\<rparr>) t))"

definition recover_processing :: "(json \<Rightarrow> ustr) \<Rightarrow> caller_authority option \<Rightarrow> int \<Rightarrow> int
    \<Rightarrow> dream_table \<Rightarrow> int result \<times> dream_table" where
  "recover_processing jt ctx now max_attempts t =
     (if max_attempts < 1 then (Inl (ValueError (lit ''max_attempts must be >= 1'')), t)
      else let rows = filter (\<lambda>r. dr_status r = PROCESSING \<and> sql_visible jt ctx (dr_authority r)) (dt_rows t)
           in (Inr (int (length rows)),
               fold (\<lambda>row. update_where (\<lambda>r. dr_id r = dr_id row)
                 (\<lambda>r. r\<lparr>dr_status := (if dr_attempts row < max_attempts then PENDING else FAILED),
                        dr_error := Some (lit ''worker_restarted''), dr_updated := now\<rparr>)) rows t))"

subsection \<open>Calls\<close>

datatype dream_op =
    Enqueue ustr "ustr list" "json option"
  | ClaimNext deployment_mode
  | MarkProcessing nat
  | DeferJob nat int
  | MarkProcessed nat
  | MarkFailed nat ustr
  | RetryJob nat
  | RetryFailed int int
  | RequeueAllFailed int
  | RecoverProcessing int

record dream_call =
  dc_ctx :: "caller_authority option"
  dc_now :: int
  dc_clock :: real
  dc_op :: dream_op

definition dream_step :: "unicode_tables \<Rightarrow> (json \<Rightarrow> ustr) \<Rightarrow> dream_call \<Rightarrow> dream_table \<Rightarrow> dream_table" where
  "dream_step U jt call t =
     (let ctx = dc_ctx call; now = dc_now call; clock = dc_clock call
      in case dc_op call of
           Enqueue s topics authority \<Rightarrow> snd (enqueue U jt ctx now s topics authority t)
         | ClaimNext mode \<Rightarrow> snd (claim_next jt ctx now clock mode t)
         | MarkProcessing i \<Rightarrow> snd (mark_processing U ctx now i t)
         | DeferJob i retry_after \<Rightarrow> snd (defer_job U ctx now clock i retry_after t)
         | MarkProcessed i \<Rightarrow> snd (mark_processed U ctx now i t)
         | MarkFailed i message \<Rightarrow> snd (mark_failed U ctx now i message t)
         | RetryJob i \<Rightarrow> snd (retry_job U ctx now i t)
         | RetryFailed m limit \<Rightarrow> snd (retry_failed jt ctx now m limit t)
         | RequeueAllFailed limit \<Rightarrow> snd (requeue_all_failed jt ctx now limit t)
         | RecoverProcessing m \<Rightarrow> snd (recover_processing jt ctx now m t))"

subsection \<open>Well-formed tables\<close>

text \<open>
  What the schema and \<open>enqueue\<close> keep: row ids are unique and below the next one, a session has
  one row per scope key, and a row's scope key is the identity key of its snapshot.
\<close>

definition row_wf :: "unicode_tables \<Rightarrow> dream_row \<Rightarrow> bool" where
  "row_wf U r \<longleftrightarrow> dr_authority r = None \<and> dr_scope_key r = scope_json empty_scope
     \<or> (\<exists>c. caller_wf U c \<and> dr_authority r = Some (snapshot_of c)
          \<and> dr_scope_key r = scope_json (gr_scope (ca_grant c)))"

definition queue_wf :: "unicode_tables \<Rightarrow> dream_table \<Rightarrow> bool" where
  "queue_wf U t \<longleftrightarrow> distinct (map dr_id (dt_rows t)) \<and> (\<forall>r \<in> set (dt_rows t). dr_id r < dt_next t)
     \<and> distinct (map (\<lambda>r. (dr_session r, dr_scope_key r)) (dt_rows t)) \<and> list_all (row_wf U) (dt_rows t)"

text \<open>An authority passed to \<open>enqueue\<close> is one the program wrote.\<close>

definition dream_call_ok :: "unicode_tables \<Rightarrow> dream_call \<Rightarrow> bool" where
  "dream_call_ok U call \<longleftrightarrow> (case dc_ctx call of None \<Rightarrow> True | Some c \<Rightarrow> caller_wf U c)
     \<and> (case dc_op call of Enqueue _ _ authority \<Rightarrow> written_snapshot U authority | _ \<Rightarrow> True)"

text \<open>An update that keeps what identifies a row.\<close>

definition keeps_key :: "(dream_row \<Rightarrow> dream_row) \<Rightarrow> bool" where
  "keeps_key f \<longleftrightarrow> (\<forall>r. dr_id (f r) = dr_id r \<and> dr_session (f r) = dr_session r
     \<and> dr_scope_key (f r) = dr_scope_key r \<and> dr_authority (f r) = dr_authority r)"

lemma update_where_map:
  assumes "keeps_key f"
  shows "map dr_id (dt_rows (update_where P f t)) = map dr_id (dt_rows t)"
    and "map (\<lambda>r. (dr_session r, dr_scope_key r)) (dt_rows (update_where P f t))
      = map (\<lambda>r. (dr_session r, dr_scope_key r)) (dt_rows t)"
    and "dt_next (update_where P f t) = dt_next t"
  using assms by (auto simp: update_where_def keeps_key_def)

lemma row_wf_update: "keeps_key f \<Longrightarrow> row_wf U (f r) \<longleftrightarrow> row_wf U r"
  by (simp add: row_wf_def keeps_key_def)

lemma update_where_wf:
  assumes "keeps_key f" and "queue_wf U t"
  shows "queue_wf U (update_where P f t)"
proof -
  have "list_all (row_wf U) (dt_rows (update_where P f t))"
    using assms(2) by (auto simp: queue_wf_def update_where_def list_all_iff row_wf_update [OF assms(1)])
  moreover have "\<forall>r \<in> set (dt_rows (update_where P f t)). dr_id r < dt_next t"
    using assms by (auto simp: queue_wf_def update_where_def keeps_key_def)
  ultimately show ?thesis
    using assms(2) by (simp add: queue_wf_def update_where_map [OF assms(1)])
qed

lemma update_ids_wf: "keeps_key f \<Longrightarrow> queue_wf U t \<Longrightarrow> queue_wf U (update_ids ids f t)"
  unfolding update_ids_def by (induction ids arbitrary: t) (simp_all add: update_where_wf)

lemma enqueue_snapshot_wf:
  assumes "nfc_stable U" and "case ctx of None \<Rightarrow> True | Some c \<Rightarrow> caller_wf U c" and "written_snapshot U authority"
    and "enqueue_snapshot U ctx session_id authority = Inr snapshot"
  shows "\<exists>c. caller_wf U c \<and> snapshot = snapshot_of c
    \<and> (\<forall>b. ctx = Some b \<longrightarrow> authority = None \<longrightarrow> scope_covers (gr_scope (ca_grant b)) (gr_scope (ca_grant c)))"
proof (cases authority)
  case (Some j)
  with assms(3,4) show ?thesis by (auto simp: written_snapshot_def enqueue_snapshot_def)
next
  case None
  show ?thesis
  proof (cases ctx)
    case None
    with assms(4) \<open>authority = None\<close> show ?thesis
      by (auto simp: enqueue_snapshot_def authority_snapshot_def intro!: exI [of _ single_owner])
  next
    case (Some b)
    with assms(4) \<open>authority = None\<close> obtain plan s d where
      p: "enforce_operation U (Some b) MEMORY_WRITE [SESSION \<mapsto> session_id] = Inr (Some plan)" "ep_scope plan = Some s"
      and d: "authority_for_authenticated_scope (ca_mode b) s all_operations = Inr d"
      and snap: "snapshot = authority_snapshot (Some d) ctx"
      by (auto simp: enqueue_snapshot_def bind_eq_Some_conv split: option.splits)
    from Some assms(2) have b: "caller_wf U b" by simp
    from enforced_scope [OF assms(1) b p(1)] p(2)
    have s: "\<And>e. scope_values s e |\<subseteq>| scope_values (gr_scope (ca_grant b)) e"
      "\<And>e. scope_values (gr_scope (ca_grant b)) e \<noteq> {||} \<Longrightarrow> scope_values s e \<noteq> {||}" by auto
    have "scope_wf U s" using s(1) b by (fastforce simp: scope_wf_def caller_wf_def)
    from authority_for_scope_wf [OF this d] d have "caller_wf U d" and "gr_scope (ca_grant d) = s"
      by (auto simp: authority_for_scope_Inr)
    with s snap Some show ?thesis by (auto simp: scope_covers_def authority_snapshot_def intro!: exI [of _ d])
  qed
qed

text \<open>What \<open>enqueue\<close> does to the table: nothing, or an upsert of a well-formed row.\<close>

lemma enqueue_cases:
  assumes "nfc_stable U" and "case ctx of None \<Rightarrow> True | Some c \<Rightarrow> caller_wf U c" and "written_snapshot U authority"
  shows "snd (enqueue U jt ctx now session_id topics authority t) = t
    \<or> (\<exists>c. caller_wf U c
        \<and> snd (enqueue U jt ctx now session_id topics authority t)
            = upsert_job session_id topics (snapshot_of c) (scope_json (gr_scope (ca_grant c))) now t
        \<and> (\<forall>b. ctx = Some b \<longrightarrow> authority = None \<longrightarrow> scope_covers (gr_scope (ca_grant b)) (gr_scope (ca_grant c))))"
proof (cases "enqueue_snapshot U ctx session_id authority")
  case (Inl e)
  then show ?thesis by (simp add: enqueue_def)
next
  case (Inr snapshot)
  from enqueue_snapshot_wf [OF assms Inr] obtain c where c: "caller_wf U c" "snapshot = snapshot_of c"
    "\<forall>b. ctx = Some b \<longrightarrow> authority = None \<longrightarrow> scope_covers (gr_scope (ca_grant b)) (gr_scope (ca_grant c))" by blast
  have "snd (enqueue U jt ctx now session_id topics authority t)
    = upsert_job session_id topics (snapshot_of c) (scope_json (gr_scope (ca_grant c))) now t"
    using Inr c(1,2) by (simp add: enqueue_def identity_key_snapshot Let_def)
  with c show ?thesis by blast
qed

lemma upsert_job_wf:
  assumes "queue_wf U t" and "caller_wf U c"
  shows "queue_wf U (upsert_job session_id topics (snapshot_of c) (scope_json (gr_scope (ca_grant c))) now t)"
proof (cases "list_ex (\<lambda>r. dr_session r = session_id \<and> dr_scope_key r = scope_json (gr_scope (ca_grant c))) (dt_rows t)")
  case True
  then show ?thesis using assms(1) by (simp add: upsert_job_def update_where_wf keeps_key_def)
next
  case False
  then show ?thesis
    using assms by (auto simp: upsert_job_def queue_wf_def list_ex_iff row_wf_def)
qed

lemma keeps_keys [simp]:
  "keeps_key (start_attempt now)"
  "keeps_key (\<lambda>r. r\<lparr>dr_status := s, dr_updated := now\<rparr>)"
  "keeps_key (\<lambda>r. if b then r\<lparr>dr_status := s, dr_attempts := dr_attempts r + 1, dr_updated := now, dr_error := None\<rparr>
                  else r\<lparr>dr_status := s, dr_updated := now\<rparr>)"
  "keeps_key (\<lambda>r. r\<lparr>dr_status := s, dr_error := e, dr_updated := now\<rparr>)"
  "keeps_key (\<lambda>r. r\<lparr>dr_status := s, dr_available := a, dr_attempts := max (dr_attempts r - 1) 0, dr_error := e, dr_updated := now\<rparr>)"
  "keeps_key (\<lambda>r. r\<lparr>dr_status := s, dr_attempts := 0, dr_error := e, dr_available := a, dr_updated := now\<rparr>)"
  by (simp_all add: keeps_key_def start_attempt_def)

lemma guarded_update_cases:
  "snd (guarded_update U ctx i P f t) = t \<or>
     assert_visible U ctx i t = Inr () \<and> snd (guarded_update U ctx i P f t) = update_where (\<lambda>r. dr_id r = i \<and> P r) f t"
  by (auto simp: guarded_update_def split: sum.splits)

lemma guarded_update_wf: "keeps_key f \<Longrightarrow> queue_wf U t \<Longrightarrow> queue_wf U (snd (guarded_update U' ctx i P f t))"
  using guarded_update_cases [of U' ctx i P f t] update_where_wf by metis

lemma recover_fold_wf:
  "queue_wf U t \<Longrightarrow> queue_wf U (fold (\<lambda>row. update_where (\<lambda>r. dr_id r = dr_id row)
     (\<lambda>r. r\<lparr>dr_status := g row, dr_error := e, dr_updated := now\<rparr>)) rows t)"
  by (induction rows arbitrary: t) (simp_all add: update_where_wf)

lemma claim_next_cases:
  "snd (claim_next jt ctx now clock mode t) = t \<or>
    (\<exists>row rest. sort_key dr_created (filter (claimable jt ctx clock mode) (dt_rows t)) = row # rest
       \<and> snd (claim_next jt ctx now clock mode t)
           = update_where (\<lambda>r. dr_id r = dr_id row \<and> dr_status r = PENDING) (start_attempt now) t)"
  by (auto simp: claim_next_def Let_def split: list.splits)

lemmas job_update_defs = mark_processing_def defer_job_def mark_processed_def mark_failed_def retry_job_def
  update_status_def

lemma dream_step_wf:
  assumes "nfc_stable U" and "dream_call_ok U call" and "queue_wf U t"
  shows "queue_wf U (dream_step U jt call t)"
proof (cases "dc_op call")
  case (Enqueue s topics authority)
  with assms enqueue_cases [OF assms(1), of "dc_ctx call" authority jt "dc_now call" s topics t]
  show ?thesis by (auto simp: dream_step_def dream_call_ok_def Let_def upsert_job_wf)
next
  case (ClaimNext mode)
  with claim_next_cases [of jt "dc_ctx call" "dc_now call" "dc_clock call" mode t] assms(3)
  show ?thesis by (auto simp: dream_step_def Let_def update_where_wf)
next
  case (RetryFailed m limit)
  with assms(3) show ?thesis by (auto simp: dream_step_def Let_def retry_failed_def update_ids_wf)
next
  case (RequeueAllFailed limit)
  with assms(3) show ?thesis by (auto simp: dream_step_def Let_def requeue_all_failed_def update_ids_wf)
next
  case (RecoverProcessing m)
  with assms(3) show ?thesis by (auto simp: dream_step_def Let_def recover_processing_def recover_fold_wf)
qed (use assms(3) in \<open>simp_all add: dream_step_def Let_def job_update_defs guarded_update_wf\<close>)

subsection \<open>What a caller cannot see it cannot change\<close>

definition seen_by :: "(json \<Rightarrow> ustr) \<Rightarrow> caller_authority \<Rightarrow> dream_row \<Rightarrow> bool" where
  "seen_by jt c r = sql_visible jt (Some c) (dr_authority r)"

definition hidden_rows :: "(json \<Rightarrow> ustr) \<Rightarrow> caller_authority \<Rightarrow> dream_table \<Rightarrow> dream_row list" where
  "hidden_rows jt c t = filter (\<lambda>r. \<not> seen_by jt c r) (dt_rows t)"

text \<open>
  A call of a scoped caller. An authority it names when enqueueing must lie within its own scope:
  \<open>enqueue\<close> takes a given snapshot as it is, and with a foreign one it would update the topics of
  a row the caller does not see; only the scheduler, which is bound to no caller, passes one.
\<close>

definition own_authority :: "unicode_tables \<Rightarrow> caller_authority \<Rightarrow> json option \<Rightarrow> bool" where
  "own_authority U c authority \<longleftrightarrow> (case authority of None \<Rightarrow> True
     | Some j \<Rightarrow> \<exists>d. caller_wf U d \<and> j = snapshot_of d \<and> scope_covers (gr_scope (ca_grant c)) (gr_scope (ca_grant d)))"

definition scoped_call :: "unicode_tables \<Rightarrow> caller_authority \<Rightarrow> dream_call \<Rightarrow> bool" where
  "scoped_call U c call \<longleftrightarrow> nfc_stable U \<and> caller_wf U c \<and> dc_ctx call = Some c
     \<and> (case dc_op call of Enqueue _ _ authority \<Rightarrow> own_authority U c authority | _ \<Rightarrow> True)"

lemma hidden_update:
  assumes "keeps_key f" and "\<And>r. r \<in> set (dt_rows t) \<Longrightarrow> P r \<Longrightarrow> seen_by jt c r"
  shows "hidden_rows jt c (update_where P f t) = hidden_rows jt c t"
proof -
  have "filter (\<lambda>r. \<not> seen_by jt c r) (map (\<lambda>r. if P r then f r else r) rs) = filter (\<lambda>r. \<not> seen_by jt c r) rs"
    if "\<And>r. r \<in> set rs \<Longrightarrow> P r \<Longrightarrow> seen_by jt c r" for rs
    using that assms(1) by (induction rs) (auto simp: keeps_key_def seen_by_def)
  from this [OF assms(2)] show ?thesis by (simp add: hidden_rows_def update_where_def)
qed

lemma same_id: "queue_wf U t \<Longrightarrow> r \<in> set (dt_rows t) \<Longrightarrow> r' \<in> set (dt_rows t) \<Longrightarrow> dr_id r = dr_id r' \<Longrightarrow> r = r'"
  by (auto simp: queue_wf_def distinct_map inj_on_def)

text \<open>Updates of rows by id, one after the other.\<close>

definition update_each :: "(nat \<times> (dream_row \<Rightarrow> dream_row)) list \<Rightarrow> dream_table \<Rightarrow> dream_table" where
  "update_each us t = fold (\<lambda>(i, f). update_where (\<lambda>r. dr_id r = i) f) us t"

lemma update_ids_each: "update_ids ids f t = update_each (map (\<lambda>i. (i, f)) ids) t"
  unfolding update_ids_def update_each_def by (induction ids arbitrary: t) simp_all

lemma recover_each:
  "fold (\<lambda>row. update_where (\<lambda>r. dr_id r = dr_id row) (g row)) rows t
     = update_each (map (\<lambda>row. (dr_id row, g row)) rows) t"
  unfolding update_each_def by (induction rows arbitrary: t) simp_all

lemma id_seen_update:
  assumes "keeps_key f" and "\<exists>r \<in> set (dt_rows t). dr_id r = j \<and> seen_by jt c r"
  shows "\<exists>r \<in> set (dt_rows (update_where P f t)). dr_id r = j \<and> seen_by jt c r"
proof -
  from assms(2) obtain r where r: "r \<in> set (dt_rows t)" "dr_id r = j" "seen_by jt c r" by blast
  let ?r = "if P r then f r else r"
  have "?r \<in> set (dt_rows (update_where P f t))" using r(1) by (simp add: update_where_def)
  moreover have "dr_id ?r = j \<and> seen_by jt c ?r" using assms(1) r by (simp add: keeps_key_def seen_by_def)
  ultimately show ?thesis by blast
qed

lemma update_each_hidden:
  assumes "queue_wf U t" and "\<And>i f. (i, f) \<in> set us \<Longrightarrow> keeps_key f \<and> (\<exists>r \<in> set (dt_rows t). dr_id r = i \<and> seen_by jt c r)"
  shows "hidden_rows jt c (update_each us t) = hidden_rows jt c t"
  using assms
proof (induction us arbitrary: t)
  case (Cons u us)
  obtain i f where u: "u = (i, f)" by (cases u)
  let ?t = "update_where (\<lambda>r. dr_id r = i) f t"
  from Cons.prems(2) [of i f] u have k: "keeps_key f" by simp
  from Cons.prems(2) [of i f] u obtain r0 where r0: "r0 \<in> set (dt_rows t)" "dr_id r0 = i" "seen_by jt c r0" by auto
  have "hidden_rows jt c ?t = hidden_rows jt c t"
    using same_id [OF Cons.prems(1) _ r0(1)] r0 by (intro hidden_update [OF k]) auto
  moreover have "hidden_rows jt c (update_each us ?t) = hidden_rows jt c ?t"
  proof (rule Cons.IH [OF update_where_wf [OF k Cons.prems(1)]])
    fix j g assume "(j, g) \<in> set us"
    with Cons.prems(2) [of j g] id_seen_update [OF k, of t j jt c]
    show "keeps_key g \<and> (\<exists>r \<in> set (dt_rows ?t). dr_id r = j \<and> seen_by jt c r)" by simp
  qed
  ultimately show ?case by (simp add: u update_each_def)
qed (simp add: update_each_def)

lemma row_by_id_Some: "row_by_id i t = Some r \<Longrightarrow> r \<in> set (dt_rows t) \<and> dr_id r = i"
  by (auto simp: row_by_id_def find_Some_iff)

lemma row_wf_written: "row_wf U r \<Longrightarrow> written_snapshot U (dr_authority r)"
  by (auto simp: row_wf_def written_snapshot_def)

lemma assert_visible_seen:
  assumes "queue_wf U t" and "assert_visible U (Some c) i t = Inr ()"
  shows "\<exists>r \<in> set (dt_rows t). dr_id r = i \<and> seen_by jt c r"
proof -
  from assms(2) obtain r where r: "row_by_id i t = Some r" and v: "snapshot_visible U (Some c) (dr_authority r) = Inr True"
    by (auto simp: assert_visible_def split: option.splits if_splits)
  note m = row_by_id_Some [OF r]
  with assms(1) have "row_wf U r" by (simp add: queue_wf_def list_all_iff)
  from visible_sql [OF row_wf_written [OF this], of "Some c" jt] v have "seen_by jt c r" by (simp add: seen_by_def)
  with m show ?thesis by blast
qed

lemma guarded_update_hidden:
  assumes "keeps_key f" and "queue_wf U t"
  shows "hidden_rows jt c (snd (guarded_update U (Some c) i P f t)) = hidden_rows jt c t"
  using guarded_update_cases [of U "Some c" i P f t]
proof
  assume a: "assert_visible U (Some c) i t = Inr ()
    \<and> snd (guarded_update U (Some c) i P f t) = update_where (\<lambda>r. dr_id r = i \<and> P r) f t"
  then obtain r0 where "r0 \<in> set (dt_rows t)" "dr_id r0 = i" "seen_by jt c r0"
    using assert_visible_seen [OF assms(2)] by blast
  then have "hidden_rows jt c (update_where (\<lambda>r. dr_id r = i \<and> P r) f t) = hidden_rows jt c t"
    using same_id [OF assms(2)] by (intro hidden_update [OF assms(1)]) blast
  with a show ?thesis by simp
qed simp

lemma limited_rows:
  "r \<in> set (sql_limit n (sort_key k (filter Q rows))) \<Longrightarrow> r \<in> set rows \<and> Q r"
  by (auto simp: sql_limit_def dest!: in_set_takeD split: if_splits)

lemma upsert_job_hidden:
  assumes "queue_wf U t" and "caller_wf U d" and "scope_covers (gr_scope (ca_grant c)) (gr_scope (ca_grant d))"
  shows "hidden_rows jt c (upsert_job session_id topics (snapshot_of d) (scope_json (gr_scope (ca_grant d))) now t)
    = hidden_rows jt c t"
proof (cases "list_ex (\<lambda>r. dr_session r = session_id \<and> dr_scope_key r = scope_json (gr_scope (ca_grant d))) (dt_rows t)")
  case True
  have "seen_by jt c r" if "r \<in> set (dt_rows t)" and key: "dr_scope_key r = scope_json (gr_scope (ca_grant d))" for r
  proof -
    from that(1) assms(1) have "row_wf U r" by (simp add: queue_wf_def list_all_iff)
    then consider "dr_authority r = None" "gr_scope (ca_grant d) = empty_scope"
      | b where "dr_authority r = Some (snapshot_of b)" "gr_scope (ca_grant b) = gr_scope (ca_grant d)"
      using key by (auto simp: row_wf_def scope_json_inj)
    then show ?thesis
    proof cases
      case 1
      moreover have "scope_values empty_scope e = {||}" for e by (cases e) (simp_all add: empty_scope_def)
      ultimately have "as_dict (gr_scope (ca_grant c)) = []"
        using assms(3) by (simp add: scope_covers_def as_dict_eq_Nil)
      then show ?thesis by (simp add: seen_by_def sql_visible_def snapshot_sql_filter_def)
    next
      case 2
      then show ?thesis using assms(3) by (simp add: seen_by_def sql_covers)
    qed
  qed
  with True show ?thesis
    by (simp add: upsert_job_def) (intro hidden_update, auto simp: keeps_key_def)
next
  case False
  have "seen_by jt c r" if "dr_authority r = Some (snapshot_of d)" for r
    using that assms(3) by (simp add: seen_by_def sql_covers)
  with False show ?thesis by (simp add: upsert_job_def hidden_rows_def)
qed

lemma enqueue_given:
  assumes "caller_wf U d"
  shows "snd (enqueue U jt ctx now session_id topics (Some (snapshot_of d)) t) = t
    \<or> snd (enqueue U jt ctx now session_id topics (Some (snapshot_of d)) t)
        = upsert_job session_id topics (snapshot_of d) (scope_json (gr_scope (ca_grant d))) now t"
proof (cases "enqueue_snapshot U ctx session_id (Some (snapshot_of d))")
  case (Inr snapshot)
  then have "snapshot = snapshot_of d" by (auto simp: enqueue_snapshot_def split: option.splits)
  then show ?thesis using Inr assms by (simp add: enqueue_def identity_key_snapshot Let_def)
qed (simp add: enqueue_def)

lemma dream_step_hidden:
  assumes "scoped_call U c call" and "queue_wf U t"
  shows "hidden_rows jt c (dream_step U jt call t) = hidden_rows jt c t"
proof (cases "dc_op call")
  case (Enqueue s topics authority)
  with assms(1) have ctx: "dc_ctx call = Some c" "nfc_stable U" "caller_wf U c" and own: "own_authority U c authority"
    by (auto simp: scoped_call_def)
  show ?thesis
  proof (cases authority)
    case None
    with ctx enqueue_cases [of U "Some c" None jt "dc_now call" s topics t] upsert_job_hidden [OF assms(2)]
    show ?thesis by (auto simp: dream_step_def Let_def Enqueue written_snapshot_def)
  next
    case (Some j)
    with own obtain d where d: "caller_wf U d" "j = snapshot_of d" "scope_covers (gr_scope (ca_grant c)) (gr_scope (ca_grant d))"
      by (auto simp: own_authority_def)
    from enqueue_given [OF d(1), of jt "Some c" "dc_now call" s topics t] upsert_job_hidden [OF assms(2) d(1,3)] ctx(1)
    show ?thesis by (auto simp: dream_step_def Let_def Enqueue Some d(2))
  qed
next
  case (ClaimNext mode)
  with assms(1) have ctx: "dc_ctx call = Some c" by (simp add: scoped_call_def)
  show ?thesis
    using claim_next_cases [of jt "Some c" "dc_now call" "dc_clock call" mode t]
  proof (elim disjE exE conjE)
    fix row rest
    assume s: "sort_key dr_created (filter (claimable jt (Some c) (dc_clock call) mode) (dt_rows t)) = row # rest"
      and u: "snd (claim_next jt (Some c) (dc_now call) (dc_clock call) mode t)
        = update_where (\<lambda>r. dr_id r = dr_id row \<and> dr_status r = PENDING) (start_attempt (dc_now call)) t"
    have "row \<in> set (sort_key dr_created (filter (claimable jt (Some c) (dc_clock call) mode) (dt_rows t)))"
      by (simp only: s) simp
    then have row: "row \<in> set (dt_rows t)" "seen_by jt c row" by (auto simp: claimable_def seen_by_def)
    then have "hidden_rows jt c (update_where (\<lambda>r. dr_id r = dr_id row \<and> dr_status r = PENDING)
        (start_attempt (dc_now call)) t) = hidden_rows jt c t"
      using same_id [OF assms(2)] by (intro hidden_update) (simp, blast)
    with u ctx ClaimNext show ?thesis by (simp add: dream_step_def Let_def)
  qed (simp add: dream_step_def Let_def ClaimNext ctx)
next
  case (RetryFailed m limit)
  with assms(1) have ctx: "dc_ctx call = Some c" by (simp add: scoped_call_def)
  have "hidden_rows jt c (update_ids (map dr_id (sql_limit limit (sort_key dr_updated
      (filter (\<lambda>r. dr_status r = FAILED \<and> dr_attempts r < m \<and> sql_visible jt (Some c) (dr_authority r)) (dt_rows t)))))
      (\<lambda>r. r\<lparr>dr_status := PENDING, dr_updated := dc_now call\<rparr>) t) = hidden_rows jt c t"
    unfolding update_ids_each
    by (rule update_each_hidden [OF assms(2)]) (auto dest!: limited_rows simp: seen_by_def)
  then show ?thesis using RetryFailed ctx by (simp add: dream_step_def Let_def retry_failed_def)
next
  case (RequeueAllFailed limit)
  with assms(1) have ctx: "dc_ctx call = Some c" by (simp add: scoped_call_def)
  have "hidden_rows jt c (update_ids (map dr_id (sql_limit limit (sort_key dr_updated
      (filter (\<lambda>r. dr_status r = FAILED \<and> sql_visible jt (Some c) (dr_authority r)) (dt_rows t)))))
      (\<lambda>r. r\<lparr>dr_status := PENDING, dr_attempts := 0, dr_error := None, dr_available := 0, dr_updated := dc_now call\<rparr>) t)
    = hidden_rows jt c t"
    unfolding update_ids_each
    by (rule update_each_hidden [OF assms(2)]) (auto dest!: limited_rows simp: seen_by_def)
  then show ?thesis using RequeueAllFailed ctx by (simp add: dream_step_def Let_def requeue_all_failed_def)
next
  case (RecoverProcessing m)
  with assms(1) have ctx: "dc_ctx call = Some c" by (simp add: scoped_call_def)
  show ?thesis
    using RecoverProcessing ctx
    by (auto simp: dream_step_def Let_def recover_processing_def recover_each seen_by_def
        intro!: update_each_hidden [OF assms(2)])
qed (use assms in \<open>simp_all add: dream_step_def Let_def scoped_call_def job_update_defs guarded_update_hidden\<close>)

interpretation dream: op_machine "dream_step U jt" "\<lambda>call. nfc_stable U \<and> dream_call_ok U call" "queue_wf U" for U jt
  by unfold_locales (simp add: dream_step_wf)

lemma scoped_call_ok: "scoped_call U c call \<Longrightarrow> dream_call_ok U call"
  by (auto simp: scoped_call_def dream_call_ok_def written_snapshot_def own_authority_def split: dream_op.splits option.splits)

interpretation isolated: guarded_machine "dream_step U jt" "scoped_call U c" "queue_wf U"
    "\<lambda>t t'. hidden_rows jt c t' = hidden_rows jt c t" for U jt c
proof unfold_locales
  show "queue_wf U (dream_step U jt call t)" if "scoped_call U c call" "queue_wf U t" for call t
    using that dream_step_wf scoped_call_ok by (auto simp: scoped_call_def)
  show "hidden_rows jt c (dream_step U jt call t) = hidden_rows jt c t"
    if "scoped_call U c call" "queue_wf U t" for call t
    by (rule dream_step_hidden [OF that])
qed simp_all

subsection \<open>Batches as one pass over the rows\<close>

lemma update_each_rows:
  assumes "distinct (map fst us)" and "\<And>i f. (i, f) \<in> set us \<Longrightarrow> keeps_key f"
  shows "dt_rows (update_each us t) = map (\<lambda>r. case map_of us (dr_id r) of None \<Rightarrow> r | Some f \<Rightarrow> f r) (dt_rows t)
    \<and> dt_next (update_each us t) = dt_next t"
  using assms
proof (induction us arbitrary: t)
  case (Cons u us)
  obtain i f where u: "u = (i, f)" by (cases u)
  from Cons.prems(2) [of i f] u have k: "keeps_key f" by simp
  from Cons.prems(1) u have i: "map_of us i = None" by (simp add: map_of_eq_None_iff)
  have "dt_rows (update_each us (update_where (\<lambda>r. dr_id r = i) f t))
      = map (\<lambda>r. case map_of us (dr_id r) of None \<Rightarrow> r | Some f \<Rightarrow> f r) (dt_rows (update_where (\<lambda>r. dr_id r = i) f t))
      \<and> dt_next (update_each us (update_where (\<lambda>r. dr_id r = i) f t)) = dt_next (update_where (\<lambda>r. dr_id r = i) f t)"
    by (rule Cons.IH) (use Cons.prems in auto)
  moreover have "dr_id (f r) = dr_id r" for r using k by (simp add: keeps_key_def)
  ultimately show ?case using i by (auto simp: u update_each_def update_where_def)
qed (simp add: update_each_def)

lemma queue_wf_distinct: "queue_wf U t \<Longrightarrow> distinct (dt_rows t)"
  by (auto simp: queue_wf_def distinct_map)

lemma selected_update:
  assumes "queue_wf U t" and "set sel \<subseteq> set (dt_rows t)" and "distinct sel" and "\<And>r. keeps_key (g r)"
  shows "update_each (map (\<lambda>row. (dr_id row, g row)) sel) t
    = t\<lparr>dt_rows := map (\<lambda>r. if r \<in> set sel then g r r else r) (dt_rows t)\<rparr>"
proof -
  let ?us = "map (\<lambda>row. (dr_id row, g row)) sel"
  have inj: "inj_on dr_id (set (dt_rows t))" using assms(1) by (simp add: queue_wf_def distinct_map)
  have d: "distinct (map fst ?us)"
    using assms(3) inj_on_subset [OF inj assms(2)] by (simp add: comp_def distinct_map)
  have m: "map_of ?us (dr_id r) = (if r \<in> set sel then Some (g r) else None)" if "r \<in> set (dt_rows t)" for r
  proof (cases "r \<in> set sel")
    case True
    then have "(dr_id r, g r) \<in> set ?us" by auto
    with d True show ?thesis by simp
  next
    case False
    then have "dr_id r \<notin> dr_id ` set sel" using that inj assms(2) by (auto simp: inj_on_def)
    with False show ?thesis by (simp add: map_of_eq_None_iff image_image)
  qed
  have k: "keeps_key f" if "(i, f) \<in> set ?us" for i f using that assms(4) by auto
  have "dt_rows (update_each ?us t) = map (\<lambda>r. if r \<in> set sel then g r r else r) (dt_rows t)
      \<and> dt_next (update_each ?us t) = dt_next t"
    using update_each_rows [where t = t, OF d k] m by (simp cong: map_cong)
  then show ?thesis by (intro dream_table.equality) simp_all
qed

lemma limited_distinct: "distinct rows \<Longrightarrow> distinct (sql_limit n (sort_key k (filter Q rows)))"
  by (simp add: sql_limit_def distinct_take)

lemma batch_update:
  assumes "queue_wf U t" and "keeps_key f"
  shows "update_ids (map dr_id (sql_limit n (sort_key k (filter Q (dt_rows t))))) f t
    = t\<lparr>dt_rows := map (\<lambda>r. if r \<in> set (sql_limit n (sort_key k (filter Q (dt_rows t)))) then f r else r) (dt_rows t)\<rparr>"
proof -
  have "set (sql_limit n (sort_key k (filter Q (dt_rows t)))) \<subseteq> set (dt_rows t)"
    by (auto dest: limited_rows)
  from selected_update [OF assms(1) this limited_distinct [OF queue_wf_distinct [OF assms(1)]], of "\<lambda>_. f"] assms(2)
  show ?thesis by (simp add: update_ids_each comp_def)
qed

lemma recover_rows:
  assumes "queue_wf U t" and "1 \<le> m"
  shows "snd (recover_processing jt ctx now m t) = t\<lparr>dt_rows := map (\<lambda>r.
      if dr_status r = PROCESSING \<and> sql_visible jt ctx (dr_authority r)
      then r\<lparr>dr_status := (if dr_attempts r < m then PENDING else FAILED),
             dr_error := Some (lit ''worker_restarted''), dr_updated := now\<rparr>
      else r) (dt_rows t)\<rparr>"
proof -
  let ?sel = "filter (\<lambda>r. dr_status r = PROCESSING \<and> sql_visible jt ctx (dr_authority r)) (dt_rows t)"
  have "update_each (map (\<lambda>row. (dr_id row, \<lambda>r. r\<lparr>dr_status := (if dr_attempts row < m then PENDING else FAILED),
      dr_error := Some (lit ''worker_restarted''), dr_updated := now\<rparr>)) ?sel) t
    = t\<lparr>dt_rows := map (\<lambda>r. if r \<in> set ?sel then r\<lparr>dr_status := (if dr_attempts r < m then PENDING else FAILED),
      dr_error := Some (lit ''worker_restarted''), dr_updated := now\<rparr> else r) (dt_rows t)\<rparr>"
    using queue_wf_distinct [OF assms(1)] by (intro selected_update [OF assms(1)]) auto
  with assms(2) show ?thesis by (auto simp: recover_processing_def Let_def recover_each cong: map_cong)
qed

subsection \<open>Bounded attempts\<close>

definition attempts_ok :: "int \<Rightarrow> dream_row \<Rightarrow> bool" where
  "attempts_ok m r \<longleftrightarrow> 0 \<le> dr_attempts r \<and> dr_attempts r \<le> m \<and> (dr_status r = PENDING \<longrightarrow> dr_attempts r < m)"

text \<open>The calls of a deployment with a maximum of \<open>m\<close> attempts; a manual \<open>retry\<close> is not among them.\<close>

definition bounded_call :: "unicode_tables \<Rightarrow> int \<Rightarrow> dream_call \<Rightarrow> bool" where
  "bounded_call U m call \<longleftrightarrow> nfc_stable U \<and> dream_call_ok U call \<and>
     (case dc_op call of RetryJob _ \<Rightarrow> False | RetryFailed m' _ \<Rightarrow> m' = m | RecoverProcessing m' \<Rightarrow> m' = m | _ \<Rightarrow> True)"

lemma attempts_update:
  assumes "list_all (attempts_ok m) (dt_rows t)" and "\<And>r. P r \<Longrightarrow> attempts_ok m r \<Longrightarrow> attempts_ok m (f r)"
  shows "list_all (attempts_ok m) (dt_rows (update_where P f t))"
  using assms by (auto simp: list_all_iff update_where_def)

lemma attempts_guarded:
  assumes "list_all (attempts_ok m) (dt_rows t)" and "\<And>r. P r \<Longrightarrow> attempts_ok m r \<Longrightarrow> attempts_ok m (f r)"
  shows "list_all (attempts_ok m) (dt_rows (snd (guarded_update U ctx i P f t)))"
  using assms guarded_update_cases [of U ctx i P f t] attempts_update [OF assms(1), of "\<lambda>r. dr_id r = i \<and> P r" f]
  by auto

lemma attempts_step:
  assumes "1 \<le> m" and "bounded_call U m call" and "queue_wf U t" and "list_all (attempts_ok m) (dt_rows t)"
  shows "list_all (attempts_ok m) (dt_rows (dream_step U jt call t))"
proof (cases "dc_op call")
  case (Enqueue s topics authority)
  have up: "list_all (attempts_ok m) (dt_rows (upsert_job s topics snap key now t))" for snap key now
    using assms(1,4) by (auto simp: upsert_job_def attempts_ok_def intro: attempts_update)
  from enqueue_cases [of U "dc_ctx call" authority jt "dc_now call" s topics t] up assms(2,4) Enqueue
  show ?thesis by (auto simp: dream_step_def Let_def bounded_call_def dream_call_ok_def)
next
  case (ClaimNext mode)
  have "list_all (attempts_ok m) (dt_rows (update_where (\<lambda>r. dr_id r = i \<and> dr_status r = PENDING)
      (start_attempt now) t))" for i now
    by (rule attempts_update [OF assms(4)]) (simp add: attempts_ok_def start_attempt_def)
  with claim_next_cases [of jt "dc_ctx call" "dc_now call" "dc_clock call" mode t] assms(4) ClaimNext
  show ?thesis by (auto simp: dream_step_def Let_def)
next
  case (RetryFailed m' limit)
  with assms(2) have "m' = m" by (simp add: bounded_call_def)
  with RetryFailed assms(1,4) show ?thesis
    by (auto simp: dream_step_def Let_def retry_failed_def batch_update [OF assms(3)] list_all_iff attempts_ok_def
        dest!: limited_rows)
next
  case (RequeueAllFailed limit)
  with assms(1,4) show ?thesis
    by (auto simp: dream_step_def Let_def requeue_all_failed_def batch_update [OF assms(3)] list_all_iff attempts_ok_def)
next
  case (RecoverProcessing m')
  with assms(2) have "m' = m" by (simp add: bounded_call_def)
  with RecoverProcessing assms(4) recover_rows [OF assms(3,1), of jt "dc_ctx call" "dc_now call"] show ?thesis
    by (auto simp: dream_step_def Let_def list_all_iff attempts_ok_def split: if_splits)
next
  case (RetryJob i)
  with assms(2) show ?thesis by (simp add: bounded_call_def)
qed (use assms(1,4) in \<open>auto simp: dream_step_def Let_def job_update_defs attempts_ok_def start_attempt_def
       intro!: attempts_guarded\<close>)

interpretation attempts: op_machine "dream_step U jt" "bounded_call U m"
    "\<lambda>t. 1 \<le> m \<and> queue_wf U t \<and> list_all (attempts_ok m) (dt_rows t)" for U jt m
  by unfold_locales (auto simp: bounded_call_def attempts_step [unfolded bounded_call_def] dream_step_wf)

subsection \<open>One claim\<close>

lemma update_one:
  assumes "queue_wf U t" and "r \<in> set (dt_rows t)" and "P r"
  shows "update_where (\<lambda>x. dr_id x = dr_id r \<and> P x) f t = t\<lparr>dt_rows := map (\<lambda>x. if x = r then f x else x) (dt_rows t)\<rparr>"
    and "length (filter (\<lambda>x. dr_id x = dr_id r \<and> P x) (dt_rows t)) = 1"
    and "f r \<in> set (dt_rows (update_where (\<lambda>x. dr_id x = dr_id r \<and> P x) f t))"
proof -
  have iff: "(dr_id x = dr_id r \<and> P x) \<longleftrightarrow> x = r" if "x \<in> set (dt_rows t)" for x
    using same_id [OF assms(1) that assms(2)] assms(3) by auto
  then show "update_where (\<lambda>x. dr_id x = dr_id r \<and> P x) f t = t\<lparr>dt_rows := map (\<lambda>x. if x = r then f x else x) (dt_rows t)\<rparr>"
    by (simp add: update_where_def cong: map_cong)
  have "filter (\<lambda>x. dr_id x = dr_id r \<and> P x) (dt_rows t) = filter (\<lambda>x. x = r) (dt_rows t)"
    using iff by (rule filter_cong [OF refl])
  moreover have "length (filter (\<lambda>x. x = r) (dt_rows t)) = 1"
    using assms(2) queue_wf_distinct [OF assms(1)] by (simp add: distinct_length_filter Int_absorb1)
  ultimately show "length (filter (\<lambda>x. dr_id x = dr_id r \<and> P x) (dt_rows t)) = 1" by simp
  show "f r \<in> set (dt_rows (update_where (\<lambda>x. dr_id x = dr_id r \<and> P x) f t))"
    using assms by (auto simp: update_where_def)
qed

lemma row_by_id_unique: "queue_wf U t \<Longrightarrow> r \<in> set (dt_rows t) \<Longrightarrow> row_by_id (dr_id r) t = Some r"
proof -
  assume wf: "queue_wf U t" and r: "r \<in> set (dt_rows t)"
  then obtain r' where "row_by_id (dr_id r) t = Some r'"
    by (cases "row_by_id (dr_id r) t") (auto simp: row_by_id_def find_None_iff)
  with row_by_id_Some [OF this] same_id [OF wf] r show "row_by_id (dr_id r) t = Some r" by simp
qed

lemma claim_next_eq:
  assumes "queue_wf U t"
  shows "claim_next jt ctx now clock mode t =
    (case sort_key dr_created (filter (claimable jt ctx clock mode) (dt_rows t)) of
       [] \<Rightarrow> (Inr None, t)
     | r # _ \<Rightarrow> (Inr (Some (row_to_job (start_attempt now r))),
          t\<lparr>dt_rows := map (\<lambda>x. if x = r then start_attempt now x else x) (dt_rows t)\<rparr>))"
proof (cases "sort_key dr_created (filter (claimable jt ctx clock mode) (dt_rows t))")
  case Nil
  then show ?thesis by (simp add: claim_next_def)
next
  case (Cons r rs)
  have "r \<in> set (sort_key dr_created (filter (claimable jt ctx clock mode) (dt_rows t)))" by (simp only: Cons) simp
  then have r: "r \<in> set (dt_rows t)" "dr_status r = PENDING" by (auto simp: claimable_def)
  note u = update_one [where P = "\<lambda>x. dr_status x = PENDING", OF assms r]
  have wf: "queue_wf U (update_where (\<lambda>x. dr_id x = dr_id r \<and> dr_status x = PENDING) (start_attempt now) t)"
    by (rule update_where_wf [OF _ assms]) simp
  from row_by_id_unique [OF wf u(3)]
  have "row_by_id (dr_id r) (update_where (\<lambda>x. dr_id x = dr_id r \<and> dr_status x = PENDING) (start_attempt now) t)
      = Some (start_attempt now r)" by (simp add: start_attempt_def)
  with Cons u(1,2) show ?thesis by (simp add: claim_next_def Let_def)
qed

lemma claim_next_row:
  assumes "queue_wf U t" and "fst (claim_next jt ctx now clock mode t) = Inr (Some job)"
  obtains r where "r \<in> set (dt_rows t)" and "claimable jt ctx clock mode r"
    and "\<And>x. x \<in> set (dt_rows t) \<Longrightarrow> claimable jt ctx clock mode x \<Longrightarrow> dr_created r \<le> dr_created x"
    and "job = row_to_job (start_attempt now r)"
    and "snd (claim_next jt ctx now clock mode t)
      = t\<lparr>dt_rows := map (\<lambda>x. if x = r then start_attempt now x else x) (dt_rows t)\<rparr>"
proof (cases "sort_key dr_created (filter (claimable jt ctx clock mode) (dt_rows t))")
  case Nil
  with assms show ?thesis by (simp add: claim_next_eq)
next
  case (Cons r rs)
  have "r \<in> set (sort_key dr_created (filter (claimable jt ctx clock mode) (dt_rows t)))" by (simp only: Cons) simp
  then have r: "r \<in> set (dt_rows t)" "claimable jt ctx clock mode r" by auto
  have "sorted (map dr_created (r # rs))" by (metis Cons sorted_sort_key)
  moreover have "x \<in> set (r # rs)" if "x \<in> set (dt_rows t)" "claimable jt ctx clock mode x" for x
    unfolding Cons [symmetric] using that by simp
  ultimately have min: "dr_created r \<le> dr_created x" if "x \<in> set (dt_rows t)" "claimable jt ctx clock mode x" for x
    using that by fastforce
  show ?thesis using that [OF r min] assms Cons by (simp add: claim_next_eq)
qed

lemma sort_key_Nil: "sort_key k xs = [] \<longleftrightarrow> xs = []"
  using length_sort [of k xs] by (cases xs) (auto simp del: length_sort)

lemma claim_next_ex:
  assumes "queue_wf U t" and "fst (claim_next jt ctx now clock mode t) = Inr (Some job)"
  shows "\<exists>r. r \<in> set (dt_rows t) \<and> claimable jt ctx clock mode r \<and> job = row_to_job (start_attempt now r)
    \<and> snd (claim_next jt ctx now clock mode t)
      = t\<lparr>dt_rows := map (\<lambda>x. if x = r then start_attempt now x else x) (dt_rows t)\<rparr>"
  by (rule claim_next_row [OF assms]) (intro exI conjI)

lemma replaced_in: "r \<in> set rs \<Longrightarrow> g r \<in> set (map (\<lambda>x. if x = r then g x else x) rs)"
  unfolding set_map by (rule image_eqI [of _ _ r]) simp_all

lemma claim_next_None:
  assumes "queue_wf U t"
  shows "fst (claim_next jt ctx now clock mode t) = Inr None \<longleftrightarrow>
     (\<forall>r \<in> set (dt_rows t). \<not> claimable jt ctx clock mode r)"
proof -
  have "fst (claim_next jt ctx now clock mode t) = Inr None \<longleftrightarrow>
      sort_key dr_created (filter (claimable jt ctx clock mode) (dt_rows t)) = []"
    by (simp add: claim_next_eq [OF assms] split: list.split)
  then show ?thesis by (simp add: sort_key_Nil filter_empty_conv)
qed

subsection \<open>A claimed job stays claimed\<close>

fun releases :: "nat \<Rightarrow> dream_op \<Rightarrow> bool" where
  "releases i (MarkProcessed j) = (i = j)"
| "releases i (MarkFailed j _) = (i = j)"
| "releases i (DeferJob j _) = (i = j)"
| "releases i (RetryJob j) = (i = j)"
| "releases i (RecoverProcessing _) = True"
| "releases i _ = False"

definition held :: "nat \<Rightarrow> dream_table \<Rightarrow> bool" where
  "held i t \<longleftrightarrow> (\<exists>r \<in> set (dt_rows t). dr_id r = i \<and> dr_status r = PROCESSING)"

lemma held_update:
  assumes "held i t" and "keeps_key f" and "\<And>r. dr_id r = i \<Longrightarrow> dr_status r = PROCESSING \<Longrightarrow> P r \<Longrightarrow> dr_status (f r) = PROCESSING"
  shows "held i (update_where P f t)"
proof -
  from assms(1) obtain r where r: "r \<in> set (dt_rows t)" "dr_id r = i" "dr_status r = PROCESSING" by (auto simp: held_def)
  let ?r = "if P r then f r else r"
  have "?r \<in> set (dt_rows (update_where P f t))" using r(1) by (simp add: update_where_def)
  moreover have "dr_id ?r = i \<and> dr_status ?r = PROCESSING" using assms(2,3) r by (simp add: keeps_key_def)
  ultimately show ?thesis unfolding held_def by blast
qed

lemma held_guarded:
  assumes "held i t" and "keeps_key f" and "\<And>r. dr_id r = i \<Longrightarrow> dr_status r = PROCESSING \<Longrightarrow> dr_id r = j \<Longrightarrow> P r \<Longrightarrow> dr_status (f r) = PROCESSING"
  shows "held i (snd (guarded_update U ctx j P f t))"
  using guarded_update_cases [of U ctx j P f t] held_update [OF assms(1,2), of "\<lambda>r. dr_id r = j \<and> P r"] assms(1,3)
  by auto

lemma held_batch:
  assumes "queue_wf U t" and "held i t" and "keeps_key f" and "\<And>r. Q r \<Longrightarrow> dr_status r \<noteq> PROCESSING"
  shows "held i (update_ids (map dr_id (sql_limit n (sort_key k (filter Q (dt_rows t))))) f t)"
proof -
  from assms(2) obtain r where r: "r \<in> set (dt_rows t)" "dr_id r = i" "dr_status r = PROCESSING" by (auto simp: held_def)
  let ?sel = "sql_limit n (sort_key k (filter Q (dt_rows t)))"
  have "r \<notin> set ?sel"
  proof
    assume "r \<in> set ?sel"
    then have "Q r" using limited_rows by fast
    with assms(4) r(3) show False by simp
  qed
  then have "r = (if r \<in> set ?sel then f r else r)" by simp
  from image_eqI [where f = "\<lambda>r. if r \<in> set ?sel then f r else r", OF this r(1)]
  have "r \<in> set (dt_rows (update_ids (map dr_id ?sel) f t))" by (simp add: batch_update [OF assms(1,3)])
  with r(2,3) show ?thesis unfolding held_def by blast
qed

lemma held_step:
  assumes "nfc_stable U" and "dream_call_ok U call" and "\<not> releases i (dc_op call)" and "queue_wf U t" and "held i t"
  shows "held i (dream_step U jt call t)"
proof (cases "dc_op call")
  case (Enqueue s topics authority)
  have up: "held i (upsert_job s topics snap key now t)" for snap key now
  proof (cases "list_ex (\<lambda>r. dr_session r = s \<and> dr_scope_key r = key) (dt_rows t)")
    case True
    then show ?thesis using held_update [OF assms(5)] by (simp add: upsert_job_def keeps_key_def)
  next
    case False
    then show ?thesis using assms(5) by (simp add: upsert_job_def held_def)
  qed
  from enqueue_cases [of U "dc_ctx call" authority jt "dc_now call" s topics t] up assms Enqueue
  show ?thesis by (auto simp: dream_step_def Let_def dream_call_ok_def)
next
  case (ClaimNext mode)
  have "held i (update_where (\<lambda>r. dr_id r = j \<and> dr_status r = PENDING) (start_attempt (dc_now call)) t)" for j
    by (rule held_update [OF assms(5)]) simp_all
  with claim_next_cases [of jt "dc_ctx call" "dc_now call" "dc_clock call" mode t] assms(5) ClaimNext
  show ?thesis by (auto simp: dream_step_def Let_def)
next
  case (RetryFailed m limit)
  with assms(5) held_batch [OF assms(4,5), of "\<lambda>r. r\<lparr>dr_status := PENDING, dr_updated := dc_now call\<rparr>"
      "\<lambda>r. dr_status r = FAILED \<and> dr_attempts r < m \<and> sql_visible jt (dc_ctx call) (dr_authority r)" limit dr_updated]
  show ?thesis by (auto simp: dream_step_def Let_def retry_failed_def)
next
  case (RequeueAllFailed limit)
  with held_batch [OF assms(4,5), of "\<lambda>r. r\<lparr>dr_status := PENDING, dr_attempts := 0, dr_error := None,
      dr_available := 0, dr_updated := dc_now call\<rparr>"
      "\<lambda>r. dr_status r = FAILED \<and> sql_visible jt (dc_ctx call) (dr_authority r)" limit dr_updated]
  show ?thesis by (auto simp: dream_step_def Let_def requeue_all_failed_def)
next
  case (MarkProcessing j)
  then show ?thesis
    by (simp add: dream_step_def Let_def job_update_defs) (rule held_guarded [OF assms(5)], simp_all add: start_attempt_def)
next
  case (DeferJob j retry_after)
  with assms(3) show ?thesis
    by (simp add: dream_step_def Let_def job_update_defs) (rule held_guarded [OF assms(5)], simp_all)
next
  case (MarkProcessed j)
  with assms(3) show ?thesis
    by (simp add: dream_step_def Let_def job_update_defs) (rule held_guarded [OF assms(5)], simp_all add: keeps_key_def)
next
  case (MarkFailed j message)
  with assms(3) show ?thesis
    by (simp add: dream_step_def Let_def job_update_defs) (rule held_guarded [OF assms(5)], simp_all)
next
  case (RetryJob j)
  with assms(3) show ?thesis
    by (simp add: dream_step_def Let_def job_update_defs) (rule held_guarded [OF assms(5)], simp_all add: keeps_key_def)
next
  case (RecoverProcessing m)
  with assms(3) show ?thesis by simp
qed

interpretation holding: op_machine "dream_step U jt" "\<lambda>call. nfc_stable U \<and> dream_call_ok U call \<and> \<not> releases i (dc_op call)"
    "\<lambda>t. queue_wf U t \<and> held i t" for U jt i
  by unfold_locales (simp add: held_step dream_step_wf)

subsection \<open>Properties\<close>

text \<open>
  Claiming takes the oldest: \<open>claim_next\<close> returns nothing exactly when no pending,
  available row is visible to the caller in its mode, leaving the table alone; otherwise the
  job it returns is such a row with the least creation time, now processing with one more
  attempt, and that row is the only one that changes.
\<close>

theorem claim_takes_oldest:
  assumes "queue_wf U t" and "claim_next jt ctx now clock mode t = (out, t')"
  shows "(out = Inr None \<and> t' = t \<and> (\<forall>r \<in> set (dt_rows t). \<not> claimable jt ctx clock mode r))
    \<or> (\<exists>r \<in> set (dt_rows t). claimable jt ctx clock mode r
        \<and> (\<forall>x \<in> set (dt_rows t). claimable jt ctx clock mode x \<longrightarrow> dr_created r \<le> dr_created x)
        \<and> out = Inr (Some (row_to_job (start_attempt now r)))
        \<and> t' = t\<lparr>dt_rows := map (\<lambda>x. if x = r then start_attempt now x else x) (dt_rows t)\<rparr>)"
proof (cases "sort_key dr_created (filter (claimable jt ctx clock mode) (dt_rows t))")
  case Nil
  then have "\<forall>r \<in> set (dt_rows t). \<not> claimable jt ctx clock mode r"
    by (simp add: sort_key_Nil filter_empty_conv)
  with Nil assms show ?thesis by (simp add: claim_next_eq)
next
  case (Cons r rs)
  then obtain job where "fst (claim_next jt ctx now clock mode t) = Inr (Some job)"
    by (simp add: claim_next_eq [OF assms(1)])
  from claim_next_row [OF assms(1) this] obtain q where q: "q \<in> set (dt_rows t)" "claimable jt ctx clock mode q"
    "\<And>x. x \<in> set (dt_rows t) \<Longrightarrow> claimable jt ctx clock mode x \<Longrightarrow> dr_created q \<le> dr_created x"
    "job = row_to_job (start_attempt now q)"
    "t' = t\<lparr>dt_rows := map (\<lambda>x. if x = q then start_attempt now x else x) (dt_rows t)\<rparr>"
    using assms(2) by auto
  with \<open>fst (claim_next jt ctx now clock mode t) = Inr (Some job)\<close> assms(2) show ?thesis by auto
qed

text \<open>
  C6. A claim is exclusive: once a job has been claimed, no sequence of calls by any callers
  that does not finish, defer, retry or recover it makes \<open>claim_next\<close> hand it out again.
\<close>

theorem claim_is_exclusive:
  assumes "nfc_stable U" and "queue_wf U t" and "fst (claim_next jt ctx now clock mode t) = Inr (Some job)"
    and "list_all (\<lambda>call. dream_call_ok U call \<and> \<not> releases (dj_id job) (dc_op call)) calls"
    and "fst (claim_next jt ctx' now' clock' mode' (fold (dream_step U jt) calls (snd (claim_next jt ctx now clock mode t))))
      = Inr (Some job')"
  shows "dj_id job' \<noteq> dj_id job"
proof
  let ?t = "snd (claim_next jt ctx now clock mode t)"
  assume same: "dj_id job' = dj_id job"
  obtain r where r: "r \<in> set (dt_rows t)" "job = row_to_job (start_attempt now r)"
    "?t = t\<lparr>dt_rows := map (\<lambda>x. if x = r then start_attempt now x else x) (dt_rows t)\<rparr>"
    using claim_next_ex [OF assms(2,3)] by blast
  have "start_attempt now r \<in> set (dt_rows ?t)"
    unfolding r(3) using replaced_in [OF r(1), of "start_attempt now"] by simp
  then have held: "held (dj_id job) ?t"
    unfolding held_def by (intro bexI [of _ "start_attempt now r"]) (simp_all add: r(2) row_to_job_def start_attempt_def)
  have wf: "queue_wf U ?t"
    using claim_next_cases [of jt ctx now clock mode t] assms(2) update_where_wf by auto
  from holding.run_inv [of U "dj_id job" calls ?t jt] assms(1,4) held wf
  have after: "queue_wf U (fold (dream_step U jt) calls ?t)" "held (dj_id job) (fold (dream_step U jt) calls ?t)"
    by (auto simp: list_all_iff)
  obtain q where q: "q \<in> set (dt_rows (fold (dream_step U jt) calls ?t))" "dr_status q = PENDING"
    "job' = row_to_job (start_attempt now' q)"
    using claim_next_ex [OF after(1) assms(5)] unfolding claimable_def by blast
  from after(2) obtain h where h: "h \<in> set (dt_rows (fold (dream_step U jt) calls ?t))"
    "dr_id h = dj_id job" "dr_status h = PROCESSING" by (auto simp: held_def)
  have "dr_id q = dr_id h" using q(3) h(2) same by (simp add: row_to_job_def start_attempt_def)
  with same_id [OF after(1) q(1) h(1)] q(2) h(3) show False by simp
qed

text \<open>
  C12. Attempts are bounded: starting from an empty queue, whatever sequence of enqueues,
  claims, completions, deferrals, retries of failed jobs and recoveries a deployment with at
  most \<open>m\<close> attempts performs, no job is ever started more than \<open>m\<close> times without a requeue.
\<close>

theorem attempts_bounded:
  assumes "1 \<le> m" and "list_all (bounded_call U m) calls" and "r \<in> set (dt_rows (fold (dream_step U jt) calls empty_queue))"
  shows "0 \<le> dr_attempts r \<and> dr_attempts r \<le> m \<and> (dr_status r = PENDING \<longrightarrow> dr_attempts r < m)"
proof -
  have "1 \<le> m \<and> queue_wf U empty_queue \<and> list_all (attempts_ok m) (dt_rows empty_queue)"
    using assms(1) by (simp add: queue_wf_def empty_queue_def)
  from attempts.run_inv [OF assms(2) this] assms(3) show ?thesis
    by (auto simp: list_all_iff attempts_ok_def)
qed

text \<open>
  C10. A caller changes only what it sees: whatever sequence of queue operations a scoped
  caller performs, the rows outside its scope are the same afterwards, in the same order. A job
  it enqueues goes to its own authority, or to one it names that lies within its scope.
\<close>

theorem queue_isolation:
  assumes "nfc_stable U" and "caller_wf U c" and "queue_wf U t"
    and "list_all (\<lambda>call. dc_ctx call = Some c
      \<and> (case dc_op call of Enqueue _ _ authority \<Rightarrow> own_authority U c authority | _ \<Rightarrow> True)) calls"
  shows "hidden_rows jt c (fold (dream_step U jt) calls t) = hidden_rows jt c t"
proof (rule isolated.run_rel [OF _ assms(3)])
  show "list_all (scoped_call U c) calls" using assms(1,2,4) by (simp add: list_all_iff scoped_call_def)
qed

text \<open>
  Deferring costs nothing: when the worker, bound to the job's own snapshot, defers the
  job it just claimed because of a quota, the claim and the deferral together leave the row
  as it was, with its attempt count, except for the time it is available from, the recorded
  reason and the update time.
\<close>

theorem defer_undoes_claim:
  assumes "queue_wf U t" and "list_all (\<lambda>r. 0 \<le> dr_attempts r) (dt_rows t)"
    and "fst (claim_next jt ctx now clock mode t) = Inr (Some job)"
    and "dj_authority job = Some snapshot" and "restore_authority U snapshot = Inr worker"
  shows "\<exists>r \<in> set (dt_rows t). claimable jt ctx clock mode r \<and> job = row_to_job (start_attempt now r)
    \<and> defer_job U (Some worker) now' clock' (dj_id job) retry_after (snd (claim_next jt ctx now clock mode t))
      = (Inr True, t\<lparr>dt_rows := map (\<lambda>x. if x = r then x\<lparr>dr_available := clock' + real_of_int retry_after,
           dr_error := Some (lit ''quota_exceeded''), dr_updated := now'\<rparr> else x) (dt_rows t)\<rparr>)"
proof -
  let ?t = "snd (claim_next jt ctx now clock mode t)"
  obtain r where r: "r \<in> set (dt_rows t)" "claimable jt ctx clock mode r" "job = row_to_job (start_attempt now r)"
    and t: "?t = t\<lparr>dt_rows := map (\<lambda>x. if x = r then start_attempt now x else x) (dt_rows t)\<rparr>"
    using claim_next_ex [OF assms(1,3)] by blast
  let ?q = "start_attempt now r"
  have q: "?q \<in> set (dt_rows ?t)" "dr_status ?q = PROCESSING" "dr_id ?q = dj_id job"
    unfolding t using replaced_in [OF r(1), of "start_attempt now"]
    by (simp_all add: r(3) row_to_job_def start_attempt_def)
  have wf: "queue_wf U ?t"
    using claim_next_cases [of jt ctx now clock mode t] assms(1) update_where_wf by auto
  have "row_wf U ?q" using wf q(1) by (simp add: queue_wf_def list_all_iff)
  moreover have a: "dr_authority ?q = Some snapshot" using assms(4) r(3) by (simp add: row_to_job_def)
  ultimately obtain c where c: "caller_wf U c" "snapshot = snapshot_of c" by (auto simp: row_wf_def)
  with assms(5) have "worker = c" by (simp add: restore_snapshot)
  then have "snapshot_visible U (Some worker) (Some snapshot) = Inr True"
    using python_visible [OF c(1), of c] c(2) by (simp add: scope_covers_def)
  with row_by_id_unique [OF wf q(1)] a q(3) have vis: "assert_visible U (Some worker) (dj_id job) ?t = Inr ()"
    by (simp add: assert_visible_def)
  let ?f = "\<lambda>r. r\<lparr>dr_status := PENDING, dr_available := clock' + real_of_int retry_after,
            dr_attempts := max (dr_attempts r - 1) 0, dr_error := Some (lit ''quota_exceeded''), dr_updated := now'\<rparr>"
  let ?g = "\<lambda>x. x\<lparr>dr_available := clock' + real_of_int retry_after, dr_error := Some (lit ''quota_exceeded''), dr_updated := now'\<rparr>"
  note single = update_one [where P = "\<lambda>x. dr_status x = PROCESSING", OF wf q(1,2)]
  have "0 \<le> dr_attempts r" "dr_status r = PENDING"
    using r(1,2) assms(2) by (simp_all add: claimable_def list_all_iff)
  then have restored: "?f ?q = ?g r"
    by (intro dream_row.equality) (simp_all add: start_attempt_def)
  have the_row: "x = r" if "x \<in> set (dt_rows t)" "x = ?q" for x
    using same_id [OF assms(1) that(1) r(1)] that(2) by (simp add: start_attempt_def)
  have "map (\<lambda>x. if x = ?q then ?f x else x) (dt_rows ?t) = map (\<lambda>x. if x = r then ?g x else x) (dt_rows t)"
    using restored the_row by (auto simp: t)
  with single(1,2) q(3) vis r t show ?thesis
    by (intro bexI [of _ r]) (auto simp: defer_job_def guarded_update_def)
qed

text \<open>
  Recovery leaves nothing half done: after \<open>recover_processing\<close> no row visible to the
  worker is processing; each row that was is pending again if it has attempts left and failed
  otherwise, with its attempt count kept, and every other row is as before.
\<close>

theorem recovery_settles:
  assumes "queue_wf U t" and "1 \<le> m"
  shows "dt_rows (snd (recover_processing jt ctx now m t)) = map (\<lambda>r.
      if dr_status r = PROCESSING \<and> sql_visible jt ctx (dr_authority r)
      then r\<lparr>dr_status := (if dr_attempts r < m then PENDING else FAILED),
             dr_error := Some (lit ''worker_restarted''), dr_updated := now\<rparr>
      else r) (dt_rows t)
    \<and> list_all (\<lambda>r. sql_visible jt ctx (dr_authority r) \<longrightarrow> dr_status r \<noteq> PROCESSING)
        (dt_rows (snd (recover_processing jt ctx now m t)))"
  by (auto simp: recover_rows [OF assms] list_all_iff split: if_splits)

subsection \<open>Witnesses\<close>

text \<open>A queue with one pending job of each of two tenants.\<close>

definition example_row :: "nat \<Rightarrow> nat \<Rightarrow> dream_row" where
  "example_row i v = \<lparr>dr_id = i, dr_session = [115], dr_topics = [], dr_status = PENDING, dr_attempts = 0,
     dr_created = int i, dr_updated = int i, dr_error = None,
     dr_authority = Some (snapshot_of (example_caller v)),
     dr_scope_key = scope_json (gr_scope (ca_grant (example_caller v))), dr_available = 0\<rparr>"

definition example_queue :: dream_table where
  "example_queue = \<lparr>dt_rows = [example_row 1 97, example_row 2 99], dt_next = 3\<rparr>"

lemma example_scopes_differ: "gr_scope (ca_grant (example_caller 97)) \<noteq> gr_scope (ca_grant (example_caller 99))"
  by (simp add: example_caller_def example_scope_def empty_scope_def)

lemma example_queue_wf: "queue_wf ascii_tables example_queue"
proof -
  have "row_wf ascii_tables (example_row i v)" if "v \<in> {97..122}" for i v
    using example_caller_wf [OF that] by (auto simp: row_wf_def example_row_def)
  then show ?thesis
    using example_scopes_differ by (simp add: queue_wf_def example_queue_def scope_json_inj) (simp add: example_row_def scope_json_inj)
qed

lemma example_claimable: "claimable jt None 0 SINGLE_OWNER (example_row i v)"
  by (simp add: claimable_def example_row_def sql_visible_def snapshot_sql_filter_def mode_clause_def)

lemma example_first_claim:
  "claim_next no_text None 5 0 SINGLE_OWNER example_queue =
     (Inr (Some (row_to_job (start_attempt 5 (example_row 1 97)))),
      \<lparr>dt_rows = [start_attempt 5 (example_row 1 97), example_row 2 99], dt_next = 3\<rparr>)"
proof -
  have "sort_key dr_created (filter (claimable no_text None 0 SINGLE_OWNER) (dt_rows example_queue))
      = [example_row 1 97, example_row 2 99]"
    unfolding example_queue_def by (simp add: example_claimable) (simp add: example_row_def)
  then show ?thesis
    unfolding claim_next_eq [OF example_queue_wf] by (simp add: example_queue_def) (simp add: example_row_def)
qed

lemma example_second_claim:
  "fst (claim_next no_text None 6 0 SINGLE_OWNER
     \<lparr>dt_rows = [start_attempt 5 (example_row 1 97), example_row 2 99], dt_next = 3\<rparr>)
   = Inr (Some (row_to_job (start_attempt 6 (example_row 2 99))))"
proof -
  have "\<not> claimable no_text None 0 SINGLE_OWNER (start_attempt 5 (example_row 1 97))"
    by (simp add: claimable_def start_attempt_def)
  then have s: "sort_key dr_created (filter (claimable no_text None 0 SINGLE_OWNER)
      [start_attempt 5 (example_row 1 97), example_row 2 99]) = [example_row 2 99]"
    by (simp add: example_claimable)
  show ?thesis
    unfolding claim_next_def dream_table.select_convs s
    by (simp add: Let_def example_row_def start_attempt_def update_where_def row_by_id_def)
qed

theorem claim_takes_oldest_witness:
  "\<exists>r \<in> set (dt_rows example_queue). claimable no_text None 0 SINGLE_OWNER r
     \<and> fst (claim_next no_text None 5 0 SINGLE_OWNER example_queue) = Inr (Some (row_to_job (start_attempt 5 r)))"
  using claim_takes_oldest [OF example_queue_wf example_first_claim] by (auto simp: example_first_claim)

theorem claim_is_exclusive_witness:
  "dj_id (row_to_job (start_attempt 6 (example_row 2 99))) \<noteq> dj_id (row_to_job (start_attempt 5 (example_row 1 97)))"
  by (rule claim_is_exclusive [OF nfc_stable_ascii example_queue_wf, of no_text None 5 0 SINGLE_OWNER _ "[]" None 6 0 SINGLE_OWNER])
    (simp_all add: example_first_claim example_second_claim [simplified])

definition example_enqueue :: dream_call where
  "example_enqueue = \<lparr>dc_ctx = None, dc_now = 1, dc_clock = 0, dc_op = Enqueue [115] [] None\<rparr>"

lemma example_enqueue_step:
  "\<exists>r. dt_rows (dream_step ascii_tables no_text example_enqueue empty_queue) = [r]"
proof -
  have "enqueue_snapshot ascii_tables None [115] None = Inr (snapshot_of single_owner)"
    using restore_snapshot [OF single_owner_wf]
    by (simp add: enqueue_snapshot_def enforce_operation_def authority_snapshot_def)
  then show ?thesis
    by (simp add: dream_step_def example_enqueue_def Let_def enqueue_def identity_key_snapshot upsert_job_def
        empty_queue_def)
qed

theorem attempts_bounded_witness:
  "\<exists>r \<in> set (dt_rows (fold (dream_step ascii_tables no_text) [example_enqueue] empty_queue)). dr_attempts r \<le> 3"
proof -
  obtain r where r: "r \<in> set (dt_rows (fold (dream_step ascii_tables no_text) [example_enqueue] empty_queue))"
    using example_enqueue_step by force
  have "list_all (bounded_call ascii_tables 3) [example_enqueue]"
    by (simp add: bounded_call_def dream_call_ok_def example_enqueue_def written_snapshot_def)
  from attempts_bounded [OF _ this r] r show ?thesis by auto
qed

theorem queue_isolation_witness:
  "hidden_rows no_text (example_caller 97)
     (fold (dream_step ascii_tables no_text)
       [\<lparr>dc_ctx = Some (example_caller 97), dc_now = 5, dc_clock = 0, dc_op = ClaimNext MULTI_USER\<rparr>,
        \<lparr>dc_ctx = Some (example_caller 97), dc_now = 6, dc_clock = 0, dc_op = MarkFailed 2 []\<rparr>,
        \<lparr>dc_ctx = Some (example_caller 97), dc_now = 7, dc_clock = 0,
          dc_op = Enqueue [115] [] (Some (snapshot_of (example_caller 97)))\<rparr>] example_queue)
   = hidden_rows no_text (example_caller 97) example_queue"
proof -
  have "own_authority ascii_tables (example_caller 97) (Some (snapshot_of (example_caller 97)))"
    unfolding own_authority_def option.case
    by (intro exI [of _ "example_caller 97"]) (simp add: example_caller_wf scope_covers_def)
  then show ?thesis by (intro queue_isolation [OF nfc_stable_ascii _ example_queue_wf]) (simp_all add: example_caller_wf)
qed

theorem defer_undoes_claim_witness:
  "\<exists>r \<in> set (dt_rows example_queue).
     defer_job ascii_tables (Some (example_caller 97)) 7 1 1 60 (snd (claim_next no_text None 5 0 SINGLE_OWNER example_queue))
      = (Inr True, example_queue\<lparr>dt_rows := map (\<lambda>x. if x = r then x\<lparr>dr_available := 1 + real_of_int 60,
           dr_error := Some (lit ''quota_exceeded''), dr_updated := 7\<rparr> else x) (dt_rows example_queue)\<rparr>)"
proof -
  have "list_all (\<lambda>r. 0 \<le> dr_attempts r) (dt_rows example_queue)" by (simp add: example_queue_def example_row_def)
  moreover have "dj_authority (row_to_job (start_attempt 5 (example_row 1 97))) = Some (snapshot_of (example_caller 97))"
    and id: "dj_id (row_to_job (start_attempt 5 (example_row 1 97))) = 1"
    by (simp_all add: row_to_job_def start_attempt_def example_row_def)
  moreover have "restore_authority ascii_tables (snapshot_of (example_caller 97)) = Inr (example_caller 97)"
    by (rule restore_snapshot) (simp add: example_caller_wf)
  ultimately show ?thesis
    using defer_undoes_claim [OF example_queue_wf, of no_text None 5 0 SINGLE_OWNER
        "row_to_job (start_attempt 5 (example_row 1 97))" "snapshot_of (example_caller 97)" "example_caller 97" 7 1 60]
    by (auto simp: example_first_claim)
qed

theorem recovery_settles_witness:
  "list_all (\<lambda>r. dr_status r \<noteq> PROCESSING) (dt_rows (snd (recover_processing no_text None 9 3
     (snd (claim_next no_text None 5 0 SINGLE_OWNER example_queue)))))"
proof -
  have "queue_wf ascii_tables (snd (claim_next no_text None 5 0 SINGLE_OWNER example_queue))"
    using claim_next_cases [of no_text None 5 0 SINGLE_OWNER example_queue] example_queue_wf update_where_wf by auto
  from recovery_settles [OF this, of 3 no_text None 9, THEN conjunct2] show ?thesis
    by (simp add: sql_visible_def snapshot_sql_filter_def)
qed

end
