(* ===== verification/Dream_Worker.thy ===== *)
theory Dream_Worker
  imports Dream_Writeback Dream_Queue Tenancy_Quota Error_Model Episodic_Memory
begin

text \<open>
  The dreaming worker: loading a session's episodes (\<^verbatim>\<open>cyberbrain/dreaming/session.py\<close>), the dry
  run of \<^verbatim>\<open>engine.py\<close>, and the processing of one claimed job (\<^verbatim>\<open>worker.py\<close>), which charges the
  quota, loads, reasons, gates, writes and settles the job. The worker gets its parts at
  construction, so it is defined over any of them; \<open>assemble_worker\<close> puts the modelled ones
  together. Metrics are not modelled.
\<close>

subsection \<open>Episodes of a session\<close>

text \<open>Raw payloads are dictionaries; a search filter matches the session and the caller's scope.\<close>

datatype session_condition = SessionIs ustr | WithinScope repo_condition

fun session_meets :: "session_condition \<Rightarrow> dict \<Rightarrow> bool" where
  "session_meets (SessionIs v) p = (p (dimension_value SESSION) = Some (JStr v))"
| "session_meets (WithinScope c) p = payload_match c (payload_scope p)"

type_synonym 's session_store = "('s, dict, dict, session_condition) point_repository"

text \<open>\<^verbatim>\<open>datetime.fromisoformat\<close>, \<^verbatim>\<open>isoformat\<close>, \<^verbatim>\<open>str\<close>, \<^verbatim>\<open>UUID\<close> and \<^verbatim>\<open>repr\<close> are parameters.\<close>

record 's session_loader =
  sl_unicode :: unicode_tables
  sl_store :: "'s session_store"
  sl_limit :: nat
  sl_parse_time :: "ustr \<Rightarrow> timestamp option"
  sl_iso :: "int \<Rightarrow> ustr"
  sl_str :: "json \<Rightarrow> ustr"
  sl_parse_uuid :: "ustr \<Rightarrow> uid result"
  sl_repr :: "ustr \<Rightarrow> ustr"

definition make_session_loader :: "unicode_tables \<Rightarrow> 's session_store \<Rightarrow> int \<Rightarrow> (ustr \<Rightarrow> timestamp option) \<Rightarrow> (int \<Rightarrow> ustr)
    \<Rightarrow> (json \<Rightarrow> ustr) \<Rightarrow> (ustr \<Rightarrow> uid result) \<Rightarrow> (ustr \<Rightarrow> ustr) \<Rightarrow> 's session_loader result" where
  "make_session_loader U store limit parse_time iso_text py_str parse_uuid py_repr =
     (if limit < 1 then Inl (ValueError (lit ''limit must be >= 1''))
      else Inr \<lparr>sl_unicode = U, sl_store = store, sl_limit = nat limit, sl_parse_time = parse_time, sl_iso = iso_text, sl_str = py_str,
             sl_parse_uuid = parse_uuid, sl_repr = py_repr\<rparr>)"

text \<open>\<^verbatim>\<open>value.replace("Z", "+00:00")\<close>.\<close>

definition utc_suffix :: "ustr \<Rightarrow> ustr" where
  "utc_suffix s = concat (map (\<lambda>c. if c = 90 then lit ''+00:00'' else [c]) s)"

text \<open>
  \<^verbatim>\<open>datetime.fromtimestamp(x, tz=UTC)\<close> rounds to a microsecond, ties to even, and fails outside the
  years 1 to 9999; numbers above ten billion are milliseconds.
\<close>

definition timestamp_time :: "real \<Rightarrow> int option" where
  "timestamp_time x =
     (let seconds = (if 10000000000 < x then x / 1000 else x); t = timedelta_us seconds
      in if -62135596800000000 \<le> t \<and> t < 253402300800000000 then Some t else None)"

definition loaded_time :: "'s session_loader \<Rightarrow> json option \<Rightarrow> int option" where
  "loaded_time L v =
     (case v of
        Some (JStr s) \<Rightarrow> (case sl_parse_time L (utc_suffix s) of Some (Aware t) \<Rightarrow> Some t | Some (Naive t) \<Rightarrow> Some t | None \<Rightarrow> None)
      | Some j \<Rightarrow> Option.bind (json_number j) timestamp_time
      | None \<Rightarrow> None)"

definition loaded_snippet :: "'s session_loader \<Rightarrow> uid \<times> dict \<Rightarrow> snippet option" where
  "loaded_snippet L point =
     (case point of (i, p) \<Rightarrow>
        let content = py_strip (text_or_empty (sl_str L) (p (lit ''content'')))
        in if content = [] then None
           else map_option (\<lambda>t. \<lparr>sn_content = content, sn_time = Aware t,
                  sn_project = nonblank (text_or_empty (sl_str L) (p (lit ''project''))), sn_evidence = nonblank i\<rparr>)
                (loaded_time L (p (lit ''event_time''))))"

definition snippet_instant :: "snippet \<Rightarrow> int" where
  "snippet_instant s = (case sn_time s of Aware t \<Rightarrow> t | Naive t \<Rightarrow> t)"

definition session_points :: "'s session_loader \<Rightarrow> caller_authority option \<Rightarrow> ustr \<Rightarrow> ('s, (uid \<times> dict) list) io" where
  "session_points L ctx v =
     bindS (liftS (enforce_operation (sl_unicode L) ctx BACKGROUND_EVIDENCE_READ [SESSION \<mapsto> v])) (\<lambda>plan.
     bindS (liftS (scope_conditions plan)) (\<lambda>scope.
       pr_scroll (sl_store L) (SessionIs v # map WithinScope scope) (sl_limit L)))"

definition load_session :: "'s session_loader \<Rightarrow> caller_authority option \<Rightarrow> ustr \<Rightarrow> ('s, snippet list) io" where
  "load_session L ctx session_id =
     (let v = py_strip session_id
      in if v = [] then raiseS (ValueError (lit ''session_id must not be empty''))
         else bindS (session_points L ctx v) (\<lambda>points.
           let episodes = sort_key snippet_instant (List.map_filter (loaded_snippet L) points)
           in if episodes = [] then raiseS (ValueError (lit ''session '' @ sl_repr L v @ lit '' has no usable episodic evidence'')) else returnS episodes))"

definition session_patch :: "'s session_loader \<Rightarrow> dream_status \<Rightarrow> ustr option \<Rightarrow> int option \<Rightarrow> dict" where
  "session_patch L status run dreamed =
     ([lit ''dream_status'' \<mapsto> JStr (dream_status_value status)]
      ++ (case run of None \<Rightarrow> Map.empty | Some r \<Rightarrow> [lit ''dream_run_id'' \<mapsto> JStr r])
      ++ (case dreamed of None \<Rightarrow> Map.empty | Some t \<Rightarrow> [lit ''dreamed_at'' \<mapsto> JStr (sl_iso L t)]))"

definition update_session :: "'s session_loader \<Rightarrow> caller_authority option \<Rightarrow> ustr \<Rightarrow> dream_status \<Rightarrow> ustr option \<Rightarrow> int option
    \<Rightarrow> ('s, nat) io" where
  "update_session L ctx session_id status run dreamed =
     (let v = py_strip session_id
      in if v = [] then raiseS (ValueError (lit ''session_id must not be empty''))
         else bindS (liftS (enforce_operation (sl_unicode L) ctx MEMORY_WRITE [SESSION \<mapsto> v])) (\<lambda>_.
           bindS (session_points L ctx v) (\<lambda>points.
             if sl_limit L \<le> length points
             then raiseS (ValueError (lit ''session '' @ sl_repr L v @ lit '' reached episode status update limit '' @ py_str_nat (sl_limit L)))
             else bindS (forS (\<lambda>(i, p). bindS (liftS (sl_parse_uuid L i)) (\<lambda>point_id.
                      pr_set_payload (sl_store L) point_id (session_patch L status run dreamed))) points)
                    (\<lambda>_. returnS (length points)))))"

subsection \<open>The dry run\<close>

definition dry_run :: "'a dream_tables_scheme \<Rightarrow> 's engine \<Rightarrow> (reason_request \<Rightarrow> ('s, reason_result) io) \<Rightarrow> ustr \<Rightarrow> snippet list \<Rightarrow> ustr
    \<Rightarrow> nat \<Rightarrow> ustr list \<Rightarrow> ('s, reason_request \<times> reason_result) io" where
  "dry_run D E reasoner fresh episodes session_id topic_limit focal_topics =
     bindS (prepare_request D E fresh episodes session_id topic_limit focal_topics) (\<lambda>rq.
     bindS (reasoner rq) (\<lambda>res.
       if rr_request_id res \<noteq> rq_id rq then raiseS (ValueError (lit ''reasoner response request_id does not match request''))
       else returnS (rq, res)))"

subsection \<open>One job\<close>

text \<open>The parts the worker is constructed with; each runs under the authority bound to the job.\<close>

record 'w worker =
  wk_load :: "caller_authority \<Rightarrow> ustr \<Rightarrow> ('w, snippet list) io"
  wk_dry_run :: "caller_authority \<Rightarrow> snippet list \<Rightarrow> ustr \<Rightarrow> ustr list \<Rightarrow> ('w, reason_request \<times> reason_result) io"
  wk_evaluate :: "caller_authority \<Rightarrow> reason_request \<Rightarrow> reason_result \<Rightarrow> ('w, ustr \<times> gate_outcome) io"
  wk_write :: "caller_authority \<Rightarrow> reason_request \<Rightarrow> reason_result \<Rightarrow> gate_outcome \<Rightarrow> ustr \<Rightarrow> ('w, write_result list) io"
  wk_update :: "caller_authority \<Rightarrow> ustr \<Rightarrow> dream_status \<Rightarrow> ustr option \<Rightarrow> int option \<Rightarrow> ('w, nat) io"
  wk_quota :: "quota_policy option"
  wk_mode :: deployment_mode
  wk_repr :: "ustr \<Rightarrow> ustr"

record 'w worker_state =
  ws_queue :: dream_table
  ws_usage :: usage_table
  ws_world :: 'w

record worker_result =
  wx_job :: nat
  wx_session :: ustr
  wx_status :: ustr
  wx_run :: "ustr option"
  wx_writes :: "write_result list"
  wx_error :: "ustr option"

definition in_world :: "('w, 'a) io \<Rightarrow> ('w worker_state, 'a) io" where
  "in_world m st = (case m (ws_world st) of (r, w) \<Rightarrow> (r, st\<lparr>ws_world := w\<rparr>))"

definition in_queue :: "(dream_table \<Rightarrow> 'a result \<times> dream_table) \<Rightarrow> ('w worker_state, 'a) io" where
  "in_queue m st = (case m (ws_queue st) of (r, t) \<Rightarrow> (r, st\<lparr>ws_queue := t\<rparr>))"

definition charge_quota :: "unicode_tables \<Rightarrow> 'w worker \<Rightarrow> caller_authority \<Rightarrow> real \<Rightarrow> ('w worker_state, unit) io" where
  "charge_quota U W c clock st =
     (case wk_quota W of
        None \<Rightarrow> (Inr (), st)
      | Some policy \<Rightarrow>
          (case reserve U policy c [(QUOTA_BACKGROUND_REASONING, 1)] clock (ws_usage st) of
             Inl e \<Rightarrow> (Inl e, st)
           | Inr usage \<Rightarrow> (Inr (), st\<lparr>ws_usage := usage\<rparr>)))"

text \<open>The \<^verbatim>\<open>try\<close> block up to the evaluation, which gives the run its id, and the rest of it.\<close>

definition evaluate_job :: "unicode_tables \<Rightarrow> 'w worker \<Rightarrow> caller_authority \<Rightarrow> real \<Rightarrow> dream_job
    \<Rightarrow> ('w worker_state, reason_request \<times> reason_result \<times> gate_outcome \<times> ustr) io" where
  "evaluate_job U W c clock job =
     bindS (charge_quota U W c clock) (\<lambda>_.
     bindS (in_world (wk_load W c (dj_session job))) (\<lambda>episodes.
     bindS (in_world (wk_dry_run W c episodes (dj_session job) (dj_topics job))) (\<lambda>(rq, res).
     bindS (in_world (wk_evaluate W c rq res)) (\<lambda>(run, out). returnS (rq, res, out, run)))))"

text \<open>The gate has replaced merged candidates in the result that is written.\<close>

definition finish_job :: "unicode_tables \<Rightarrow> 'w worker \<Rightarrow> caller_authority \<Rightarrow> int \<Rightarrow> dream_job
    \<Rightarrow> reason_request \<times> reason_result \<times> gate_outcome \<times> ustr \<Rightarrow> ('w worker_state, write_result list) io" where
  "finish_job U W c now job = (\<lambda>(rq, res, out, run).
     bindS (in_world (wk_write W c rq (res\<lparr>rr_candidates := go_candidates out\<rparr>) out run)) (\<lambda>writes.
     bindS (in_world (wk_update W c (dj_session job) DREAM_PROCESSED (Some run) (Some now))) (\<lambda>_.
     bindS (in_queue (mark_processed U (Some c) now (dj_id job))) (\<lambda>_. returnS writes))))"

definition attempt_job :: "unicode_tables \<Rightarrow> 'w worker \<Rightarrow> caller_authority \<Rightarrow> int \<Rightarrow> real \<Rightarrow> dream_job \<Rightarrow> 'w worker_state
    \<Rightarrow> ustr option \<times> write_result list result \<times> 'w worker_state" where
  "attempt_job U W c now clock job st =
     (case evaluate_job U W c clock job st of
        (Inl e, st1) \<Rightarrow> (None, Inl e, st1)
      | (Inr x, st1) \<Rightarrow> (Some (snd (snd (snd x))), finish_job U W c now job x st1))"

definition worker_answer :: "dream_job \<Rightarrow> string \<Rightarrow> ustr option \<Rightarrow> write_result list \<Rightarrow> ustr option \<Rightarrow> worker_result" where
  "worker_answer job status run writes error =
     \<lparr>wx_job = dj_id job, wx_session = dj_session job, wx_status = lit status, wx_run = run, wx_writes = writes, wx_error = error\<rparr>"

definition fail_job :: "unicode_tables \<Rightarrow> 'w worker \<Rightarrow> caller_authority \<Rightarrow> int \<Rightarrow> dream_job \<Rightarrow> ustr option \<Rightarrow> exn
    \<Rightarrow> ('w worker_state, worker_result) io" where
  "fail_job U W c now job run e st =
     (let st1 = snd (in_world (wk_update W c (dj_session job) DREAM_FAILED run None) st)
      in bindS (in_queue (mark_failed U (Some c) now (dj_id job) (exn_str (wk_repr W) e))) (\<lambda>_.
           returnS (worker_answer job ''failed'' run [] (Some (exn_str (wk_repr W) e)))) st1)"

definition process_scoped_job :: "unicode_tables \<Rightarrow> 'w worker \<Rightarrow> caller_authority \<Rightarrow> int \<Rightarrow> real \<Rightarrow> dream_job
    \<Rightarrow> ('w worker_state, worker_result) io" where
  "process_scoped_job U W c now clock job st =
     (if dj_status job \<noteq> PROCESSING then (Inl (ValueError (lit ''Dream job must be claimed before processing'')), st)
      else case attempt_job U W c now clock job st of
          (run, Inr writes, st') \<Rightarrow> (Inr (worker_answer job ''processed'' run writes None), st')
        | (run, Inl (QuotaExceededError retry_after), st') \<Rightarrow>
            bindS (in_queue (defer_job U (Some c) now clock (dj_id job) retry_after)) (\<lambda>_.
              returnS (worker_answer job ''deferred'' None [] (Some (lit ''quota_exceeded'')))) st'
        | (run, Inl e, st') \<Rightarrow> fail_job U W c now job run e st')"

definition process_job :: "unicode_tables \<Rightarrow> 'w worker \<Rightarrow> int \<Rightarrow> real \<Rightarrow> dream_job \<Rightarrow> ('w worker_state, worker_result) io" where
  "process_job U W now clock job =
     bindS (liftS (if wk_mode W = SINGLE_OWNER then Inr ()
         else case dj_authority job of
             None \<Rightarrow> Inl (ValueError (lit ''legacy or incompatible job requires an explicit migration''))
           | Some j \<Rightarrow> bindE (restore_authority U j) (\<lambda>c.
               if ca_mode c \<noteq> wk_mode W then Inl (ValueError (lit ''legacy or incompatible job requires an explicit migration''))
               else Inr ()))) (\<lambda>_.
     bindS (liftS (job_authority U (dj_authority job))) (\<lambda>c. process_scoped_job U W c now clock job))"

definition process_next :: "unicode_tables \<Rightarrow> (json \<Rightarrow> ustr) \<Rightarrow> caller_authority option \<Rightarrow> 'w worker \<Rightarrow> int \<Rightarrow> real
    \<Rightarrow> ('w worker_state, worker_result option) io" where
  "process_next U jt ctx W now clock =
     bindS (in_queue (claim_next jt ctx now clock (wk_mode W))) (\<lambda>claimed.
       case claimed of
         None \<Rightarrow> returnS None
       | Some job \<Rightarrow> bindS (process_job U W now clock job) (\<lambda>r. returnS (Some r)))"

subsection \<open>The modelled parts together\<close>

definition assemble_worker :: "unicode_tables \<Rightarrow> 's session_loader \<Rightarrow> gate_tables \<Rightarrow> (caller_authority \<Rightarrow> 's engine)
    \<Rightarrow> (caller_authority \<Rightarrow> reason_request \<Rightarrow> ('s, reason_result) io) \<Rightarrow> 's knowledge_writer \<Rightarrow> (reason_request \<Rightarrow> json)
    \<Rightarrow> int \<Rightarrow> ustr \<times> ustr \<times> (nat \<Rightarrow> uid \<times> uid) \<Rightarrow> quota_policy option \<Rightarrow> deployment_mode \<Rightarrow> (ustr \<Rightarrow> ustr)
    \<Rightarrow> ('s \<times> audit) worker" where
  "assemble_worker U L G E reasoner K snapshot now fresh quota mode py_repr =
     \<lparr>wk_load = (\<lambda>c i. on_first (load_session L (Some c) i)),
      wk_dry_run = (\<lambda>c episodes i topics. on_first (dry_run G (E c) (reasoner c) (fst fresh) episodes i 3 topics)),
      wk_evaluate = (\<lambda>c rq res. on_second (\<lambda>a.
        case evaluate_promotion U G default_promotion (Some c) now now snapshot (fst (snd fresh)) rq res a of
          (Inl e, a') \<Rightarrow> (Inl e, a') | (Inr (run, out), a') \<Rightarrow> (Inr (au_id run, out), a'))),
      wk_write = (\<lambda>c rq res out run. write_and_audit U K (Some c) now (snd (snd fresh)) rq res out run),
      wk_update = (\<lambda>c i status run dreamed. on_first (update_session L (Some c) i status run dreamed)),
      wk_quota = quota, wk_mode = mode, wk_repr = py_repr\<rparr>"

subsection \<open>What happens to the claimed row\<close>

definition replace_row :: "dream_row \<Rightarrow> dream_row \<Rightarrow> dream_table \<Rightarrow> dream_table" where
  "replace_row r q t = t\<lparr>dt_rows := map (\<lambda>x. if x = r then q else x) (dt_rows t)\<rparr>"

lemma claimed_update:
  assumes "queue_wf U t" and "r \<in> set (dt_rows t)" and "dr_status r = PENDING" and "job_authority U (dr_authority r) = Inr c"
    and "P (start_attempt now r)" and "keeps_key f"
  shows "guarded_update U (Some c) (dr_id r) P f (replace_row r (start_attempt now r) t)
    = (Inr True, replace_row r (f (start_attempt now r)) t)"
proof -
  let ?q = "start_attempt now r"
  let ?t = "replace_row r ?q t"
  note claim = update_one(1) [where P = "\<lambda>x. dr_status x = PENDING" and f = "start_attempt now", OF assms(1-3)]
  have t: "?t = update_where (\<lambda>x. dr_id x = dr_id r \<and> dr_status x = PENDING) (start_attempt now) t"
    using claim by (simp add: replace_row_def cong: if_cong)
  have wf: "queue_wf U ?t" unfolding t by (rule update_where_wf [OF _ assms(1)]) simp
  have q: "?q \<in> set (dt_rows ?t)" using replaced_in [OF assms(2), of "\<lambda>_. ?q"] by (simp add: replace_row_def)
  have id: "dr_id ?q = dr_id r" "dr_authority ?q = dr_authority r" by (simp_all add: start_attempt_def)
  have "snapshot_visible U (Some c) (dr_authority r) = Inr True"
  proof (cases "dr_authority r")
    case None
    then have "c = single_owner" using assms(4) by (simp add: job_authority_def)
    then show ?thesis using None by (simp add: snapshot_visible_def single_owner_def as_dict_def)
  next
    case (Some j)
    have "row_wf U r" using assms(1,2) by (simp add: queue_wf_def list_all_iff)
    then obtain c' where c': "caller_wf U c'" "j = snapshot_of c'" using Some by (auto simp: row_wf_def)
    then have "c = c'" using assms(4) Some by (simp add: job_authority_def restore_snapshot)
    then show ?thesis using python_visible [OF c'(1), of c'] c'(2) Some by (simp add: scope_covers_def)
  qed
  then have vis: "assert_visible U (Some c) (dr_id r) ?t = Inr ()"
    using row_by_id_unique [OF wf q] id by (simp add: assert_visible_def)
  note single = update_one(1) [where P = P and f = f, OF wf q assms(5)] update_one(2) [where P = P, OF wf q assms(5)]
  have "x = r" if "x \<in> set (dt_rows t)" "x = ?q" for x using same_id [OF assms(1) that(1) assms(2)] that(2) id by simp
  then have "map (\<lambda>x. if x = ?q then f ?q else x) (dt_rows ?t) = map (\<lambda>x. if x = r then f ?q else x) (dt_rows t)"
    by (auto simp: replace_row_def)
  with single vis id show ?thesis by (simp add: guarded_update_def replace_row_def cong: if_cong)
qed

lemma in_world_queue: "in_world m st = (r, st') \<Longrightarrow> ws_queue st' = ws_queue st"
  by (auto simp: in_world_def split: prod.splits)

lemma charge_quota_queue: "charge_quota U W c clock st = (r, st') \<Longrightarrow> ws_queue st' = ws_queue st"
  by (auto simp: charge_quota_def split: option.splits sum.splits)

lemma bindS_cases:
  assumes "bindS m f s = (r, s')"
  obtains (failed) e where "m s = (Inl e, s')" "r = Inl e" | (passed) x s1 where "m s = (Inr x, s1)" "f x s1 = (r, s')"
  using assms by (cases "m s" rule: prod.exhaust; cases "fst (m s)") (auto simp: bindS_def)


lemma attempt_job_queue:
  assumes "mark_processed U (Some c) now (dj_id job) (ws_queue st) = (Inr b, q)"
    and "attempt_job U W c now clock job st = (run, out, st')"
  shows "ws_queue st' = (case out of Inl _ \<Rightarrow> ws_queue st | Inr _ \<Rightarrow> q)"
proof -
  have same: "ws_queue s' = ws_queue st"
    if "evaluate_job U W c clock job st = (r, s')" for r s'
    using that unfolding evaluate_job_def
    by (auto elim!: bindS_cases dest!: in_world_queue charge_quota_queue simp: returnS_def split: prod.splits)
  have settled: "ws_queue s' = (case r of Inl _ \<Rightarrow> ws_queue s | Inr _ \<Rightarrow> q)"
    if "finish_job U W c now job x s = (r, s')" "ws_queue s = ws_queue st" for x r s s'
    using that assms(1) unfolding finish_job_def
    by (auto elim!: bindS_cases dest!: in_world_queue simp: returnS_def in_queue_def split: prod.splits)
  show ?thesis
  proof (cases "evaluate_job U W c clock job st" rule: prod.exhaust)
    case (Pair r s1)
    show ?thesis
    proof (cases r)
      case (Inl e)
      then show ?thesis using assms(2) Pair same [OF Pair] by (auto simp: attempt_job_def)
    next
      case (Inr x)
      then have "finish_job U W c now job x s1 = (out, st')" using assms(2) Pair by (simp add: attempt_job_def)
      from settled [OF this same [OF Pair]] show ?thesis using same [OF Pair] by (simp cong: sum.case_cong)
    qed
  qed
qed


lemma claimed_authority:
  assumes "queue_wf U t" and "r \<in> set (dt_rows t)" and "mode_clause mode (dr_authority r)"
  shows "\<exists>c. job_authority U (dr_authority r) = Inr c \<and> (mode = SINGLE_OWNER \<or> dr_authority r \<noteq> None \<and> ca_mode c = mode)"
proof -
  have "row_wf U r" using assms(1,2) by (simp add: queue_wf_def list_all_iff)
  then consider "dr_authority r = None" | c where "caller_wf U c" "dr_authority r = Some (snapshot_of c)"
    by (auto simp: row_wf_def)
  then show ?thesis
  proof cases
    case 1
    then show ?thesis using assms(3) by (auto simp: job_authority_def mode_clause_def)
  next
    case 2
    have "ca_mode c = mode" if "mode \<noteq> SINGLE_OWNER"
    proof -
      from assms(3) 2(2) that have "mode_value (ca_mode c) = mode_value mode"
        by (simp add: mode_clause_def snapshot_of_def lit_def)
      then show ?thesis by (cases "ca_mode c"; cases mode) (simp_all add: lit_def)
    qed
    then show ?thesis using 2 by (auto simp: job_authority_def restore_snapshot)
  qed
qed

definition settled_row :: "real \<Rightarrow> dream_row \<Rightarrow> worker_result \<Rightarrow> dream_row \<Rightarrow> bool" where
  "settled_row clock r res q \<longleftrightarrow>
     wx_job res = dr_id r \<and> wx_session res = dr_session r \<and> dr_authority q = dr_authority r \<and> dr_id q = dr_id r
     \<and> (wx_status res = lit ''processed'' \<and> dr_status q = PROCESSED \<and> dr_attempts q = dr_attempts r + 1 \<and> dr_error q = None
         \<and> wx_run res \<noteq> None \<and> wx_error res = None
      \<or> wx_status res = lit ''deferred'' \<and> dr_status q = PENDING \<and> dr_attempts q = max (dr_attempts r) 0
         \<and> (\<exists>k. dr_available q = clock + real_of_int k) \<and> wx_writes res = []
      \<or> wx_status res = lit ''failed'' \<and> dr_status q = FAILED \<and> dr_attempts q = dr_attempts r + 1 \<and> wx_writes res = []
         \<and> (\<exists>message. wx_error res = Some message \<and> dr_error q = Some (take 1000 message)))"

lemma fail_job_settles:
  assumes "queue_wf U t" and "r \<in> set (dt_rows t)" and "dr_status r = PENDING" and "job_authority U (dr_authority r) = Inr c"
    and "ws_queue st = replace_row r (start_attempt now r) t"
    and "fail_job U W c now (row_to_job (start_attempt now r)) run e st = (out, st')"
  shows "\<exists>res q. out = Inr res \<and> ws_queue st' = replace_row r q t \<and> settled_row clock r res q"
proof -
  let ?q = "start_attempt now r" and ?m = "exn_str (wk_repr W) e"
  let ?f = "\<lambda>x. x\<lparr>dr_status := FAILED, dr_error := Some (take 1000 ?m), dr_updated := now\<rparr>"
  let ?st = "snd (in_world (wk_update W c (dr_session r) DREAM_FAILED run None) st)"
  have id: "dj_id (row_to_job ?q) = dr_id r" "dj_session (row_to_job ?q) = dr_session r"
    by (simp_all add: row_to_job_def start_attempt_def)
  have "ws_queue ?st = replace_row r ?q t"
    using in_world_queue [OF surjective_pairing, of "wk_update W c (dr_session r) DREAM_FAILED run None" st] assms(5) by simp
  moreover have "guarded_update U (Some c) (dr_id r) (\<lambda>_. True) ?f (replace_row r ?q t) = (Inr True, replace_row r (?f ?q) t)"
    by (rule claimed_update [OF assms(1-4)]) simp_all
  ultimately have "out = Inr (worker_answer (row_to_job ?q) ''failed'' run [] (Some ?m))" "ws_queue st' = replace_row r (?f ?q) t"
    using assms(6) by (auto simp: fail_job_def id in_queue_def mark_failed_def returnS_def bindS_def Let_def)
  moreover have "settled_row clock r (worker_answer (row_to_job ?q) ''failed'' run [] (Some ?m)) (?f ?q)"
    by (simp add: settled_row_def worker_answer_def id) (simp add: start_attempt_def)
  ultimately show ?thesis by blast
qed


lemma scoped_job_settles:
  assumes "queue_wf U t" and "r \<in> set (dt_rows t)" and "dr_status r = PENDING" and "job_authority U (dr_authority r) = Inr c"
    and "ws_queue st = replace_row r (start_attempt now r) t"
    and "process_scoped_job U W c now clock (row_to_job (start_attempt now r)) st = (out, st')"
  shows "\<exists>res q. out = Inr res \<and> ws_queue st' = replace_row r q t \<and> settled_row clock r res q"
proof -
  let ?q = "start_attempt now r" and ?job = "row_to_job (start_attempt now r)"
  have id: "dj_id ?job = dr_id r" "dj_session ?job = dr_session r" "dj_status ?job = PROCESSING"
    by (simp_all add: row_to_job_def start_attempt_def)
  obtain run answer st1 where a: "attempt_job U W c now clock ?job st = (run, answer, st1)" by (rule prod_cases3)
  have marked: "mark_processed U (Some c) now (dj_id ?job) (ws_queue st)
      = (Inr True, replace_row r (?q\<lparr>dr_status := PROCESSED, dr_updated := now\<rparr>) t)"
    unfolding id assms(5) mark_processed_def update_status_def by (subst claimed_update [OF assms(1-4)]) simp_all
  note queue = attempt_job_queue [OF marked a]
  show ?thesis
  proof (cases answer)
    case (Inr writes)
    then have "run \<noteq> None" using a by (auto simp: attempt_job_def split: prod.splits sum.splits)
    moreover have "out = Inr (worker_answer ?job ''processed'' run writes None)" "st' = st1"
      using assms(6) a Inr by (simp_all add: process_scoped_job_def id)
    moreover have "settled_row clock r (worker_answer ?job ''processed'' run writes None)
        (?q\<lparr>dr_status := PROCESSED, dr_updated := now\<rparr>)" if "run \<noteq> None"
      using that by (simp add: settled_row_def worker_answer_def id) (simp add: start_attempt_def)
    ultimately show ?thesis using queue Inr by auto
  next
    case (Inl e)
    then have q1: "ws_queue st1 = replace_row r ?q t" using queue assms(5) by simp
    show ?thesis
    proof (cases "\<exists>k. e = QuotaExceededError k")
      case True
      then obtain k where e: "e = QuotaExceededError k" by blast
      let ?f = "\<lambda>x. x\<lparr>dr_status := PENDING, dr_available := clock + real_of_int k,
            dr_attempts := max (dr_attempts x - 1) 0, dr_error := Some (lit ''quota_exceeded''), dr_updated := now\<rparr>"
      have u: "guarded_update U (Some c) (dr_id r) (\<lambda>x. dr_status x = PROCESSING) ?f (replace_row r ?q t)
          = (Inr True, replace_row r (?f ?q) t)"
        by (rule claimed_update [OF assms(1-4)]) (simp_all add: start_attempt_def)
      have "out = Inr (worker_answer ?job ''deferred'' None [] (Some (lit ''quota_exceeded'')))" "ws_queue st' = replace_row r (?f ?q) t"
        using assms(6) a Inl e u by (auto simp: process_scoped_job_def id in_queue_def defer_job_def returnS_def bindS_def q1)
      moreover have "settled_row clock r (worker_answer ?job ''deferred'' None [] (Some (lit ''quota_exceeded''))) (?f ?q)"
        by (simp add: settled_row_def worker_answer_def id) (auto simp: start_attempt_def)
      ultimately show ?thesis by blast
    next
      case False
      then have "fail_job U W c now ?job run e st1 = (out, st')"
        using assms(6) a Inl by (cases e) (simp_all add: process_scoped_job_def id)
      from fail_job_settles [OF assms(1-4) q1 this] show ?thesis .
    qed
  qed
qed

text \<open>
  C28. Every call of \<open>process_next\<close> on a well-formed queue returns: the worker answers that nothing
  is waiting, and then no row could be claimed and nothing changed, or it takes one claimable row
  through its whole life cycle and settles it, whatever the session loader, the reasoner, the
  gate, the writer, the session update or the quota did: the row ends processed, failed with the
  error of the answer and a counted attempt, or pending again with the attempt given back and a
  later availability, never still processing, its authority is kept, and no other row changes.
\<close>

theorem worker_settles_jobs:
  assumes "queue_wf U (ws_queue st)"
    and "process_next U jt ctx W now clock st = (out, st')"
  shows "out = Inr None \<and> st' = st \<and> \<not> list_ex (claimable jt ctx clock (wk_mode W)) (dt_rows (ws_queue st))
    \<or> (\<exists>r q res. r \<in> set (dt_rows (ws_queue st)) \<and> claimable jt ctx clock (wk_mode W) r
         \<and> out = Inr (Some res) \<and> ws_queue st' = replace_row r q (ws_queue st) \<and> settled_row clock r res q)"
proof (cases "claim_next jt ctx now clock (wk_mode W) (ws_queue st)" rule: prod.exhaust)
  case (Pair claimed q1)
  let ?t = "ws_queue st"
  from claim_next_eq [OF assms(1), of jt ctx now clock "wk_mode W"]
  have claimed: "claimed = Inr None \<and> q1 = ?t \<or> (\<exists>job. claimed = Inr (Some job))"
    using Pair by (auto split: list.splits)
  show ?thesis
  proof (cases "claimed = Inr None \<and> q1 = ?t")
    case True
    with Pair claim_next_None [OF assms(1), of jt ctx now clock "wk_mode W"]
    have "\<forall>r \<in> set (dt_rows ?t). \<not> claimable jt ctx clock (wk_mode W) r" by simp
    with True Pair assms(2) show ?thesis
      by (auto simp: process_next_def in_queue_def bindS_def returnS_def list_ex_iff)
  next
    case False
    with claimed obtain job where job: "claimed = Inr (Some job)" by blast
    then have "fst (claim_next jt ctx now clock (wk_mode W) ?t) = Inr (Some job)" using Pair by simp
    from claim_next_ex [OF assms(1) this] obtain r where
      r: "r \<in> set (dt_rows ?t)" "claimable jt ctx clock (wk_mode W) r" "job = row_to_job (start_attempt now r)"
      "q1 = replace_row r (start_attempt now r) ?t"
      using Pair by (auto simp: replace_row_def)
    then have p: "dr_status r = PENDING" "mode_clause (wk_mode W) (dr_authority r)" by (simp_all add: claimable_def)
    from claimed_authority [OF assms(1) r(1) p(2)] obtain c where
      c: "job_authority U (dr_authority r) = Inr c" "wk_mode W = SINGLE_OWNER \<or> dr_authority r \<noteq> None \<and> ca_mode c = wk_mode W" by blast
    have auth: "dj_authority job = dr_authority r" by (simp add: r(3) row_to_job_def start_attempt_def)
    let ?st = "st\<lparr>ws_queue := q1\<rparr>"
    obtain out1 where run: "process_scoped_job U W c now clock job ?st = (out1, st')" "out = bindE out1 (\<lambda>x. Inr (Some x))"
    proof (cases "process_scoped_job U W c now clock job ?st" rule: prod.exhaust)
      case (Pair o1 s1)
      have "process_job U W now clock job ?st = (o1, s1)"
        using c Pair by (auto simp: process_job_def auth bindS_def liftS_def job_authority_def split: option.splits)
      then have "out = bindE o1 (\<lambda>x. Inr (Some x))" "st' = s1"
        using assms(2) \<open>claim_next jt ctx now clock (wk_mode W) ?t = (claimed, q1)\<close> job
        by (auto simp: process_next_def in_queue_def bindS_def returnS_def split: sum.splits)
      then show thesis using that Pair by simp
    qed
    from scoped_job_settles [OF assms(1) r(1) p(1) c(1) _ run(1) [unfolded r(3)]] obtain res q where
      "out1 = Inr res" "ws_queue st' = replace_row r q ?t" "settled_row clock r res q" using r(4) by auto
    then show ?thesis using r(1,2) run(2) by auto
  qed
qed


definition example_worker :: "unit worker" where
  "example_worker =
     \<lparr>wk_load = (\<lambda>_ _. raiseS (ValueError (lit ''session has no usable episodic evidence''))),
      wk_dry_run = (\<lambda>_ _ _ _. raiseS (ValueError [])), wk_evaluate = (\<lambda>_ _ _. raiseS (ValueError [])),
      wk_write = (\<lambda>_ _ _ _ _. returnS []), wk_update = (\<lambda>_ _ _ _ _. returnS 1),
      wk_quota = None, wk_mode = SINGLE_OWNER, wk_repr = (\<lambda>s. s)\<rparr>"

definition example_world :: "unit worker_state" where
  "example_world = \<lparr>ws_queue = example_queue, ws_usage = Map.empty, ws_world = ()\<rparr>"

lemma worker_settles_jobs_witness:
  "\<exists>r q res. r \<in> set (dt_rows example_queue)
     \<and> fst (process_next ascii_tables no_text None example_worker 5 0 example_world) = Inr (Some res)
     \<and> ws_queue (snd (process_next ascii_tables no_text None example_worker 5 0 example_world)) = replace_row r q example_queue
     \<and> settled_row 0 r res q"
proof -
  have q: "ws_queue example_world = example_queue" "wk_mode example_worker = SINGLE_OWNER"
    by (simp_all add: example_world_def example_worker_def)
  have some: "list_ex (claimable no_text None 0 SINGLE_OWNER) (dt_rows example_queue)"
    by (simp add: example_queue_def example_claimable)
  have wf: "queue_wf ascii_tables (ws_queue example_world)" by (simp add: q example_queue_wf)
  from worker_settles_jobs [OF wf surjective_pairing, of no_text None example_worker 5 0] some
  show ?thesis unfolding q by blast
qed

end
