(* ===== verification/Retrieval.thy ===== *)
theory Retrieval
  imports Regex Point_Store "HOL-Library.AList" "HOL-Library.Product_Lexorder" "HOL-Library.Multiset"
begin

text \<open>
  Retrieval of knowledge: the lexical scorer, the reciprocal rank fusion with its signals and the
  in-memory engine (\<^verbatim>\<open>cyberbrain/retrieval/\<close>: \<^verbatim>\<open>models.py\<close>, \<^verbatim>\<open>lexical.py\<close>, \<^verbatim>\<open>literal.py\<close>,
  \<^verbatim>\<open>signals.py\<close>, \<^verbatim>\<open>fusion.py\<close>, \<^verbatim>\<open>engine.py\<close>, \<^verbatim>\<open>baseline.py\<close>, \<^verbatim>\<open>runtime.py\<close>), and the service
  that searches under the caller's authority (\<^verbatim>\<open>cyberbrain/knowledge/search.py\<close>). Floats are
  reals. The store may change between two reads, so a read answers for the state it leaves. The
  literal shadow observer only feeds metrics and is not modelled.
\<close>

subsection \<open>Tokens\<close>

definition token_chars :: "text_tables \<Rightarrow> pattern" where
  "token_chars T = Plus (Chars (\<lambda>c. tt_word T c \<or> c = 46 \<or> c = 45))"

definition tokenize :: "text_tables \<Rightarrow> ustr \<Rightarrow> ustr list" where
  "tokenize T s = map (tt_casefold T) (findall T (token_chars T) s)"

text \<open>\<^verbatim>\<open>p{m,n}\<close> tries the longest repetition first; a hexadecimal digit ignores case.\<close>

primrec up_to :: "nat \<Rightarrow> pattern \<Rightarrow> pattern" where
  "up_to 0 p = Empty"
| "up_to (Suc n) p = Alt (Seq p (up_to n p)) Empty"

primrec exactly :: "nat \<Rightarrow> pattern \<Rightarrow> pattern" where
  "exactly 0 p = Empty"
| "exactly (Suc n) p = Seq p (exactly n p)"

definition between :: "nat \<Rightarrow> nat \<Rightarrow> pattern \<Rightarrow> pattern" where
  "between m n p = Seq (exactly m p) (up_to (n - m) p)"

definition Bounded :: "pattern \<Rightarrow> pattern" where
  "Bounded p = Seq Boundary (Seq p Boundary)"

definition literal_pattern :: "text_tables \<Rightarrow> pattern" where
  "literal_pattern T =
     (let hex = Chars (\<lambda>c. ascii_digit c \<or> list_ex (\<lambda>d. tt_same T d c) [97..<103]);
          digits = Plus (Chars (tt_digit T)); word = token_chars T
      in Choice [Bounded (between 7 40 hex),
                 Bounded (Seq digits (Seq (Literal [46]) (Seq digits (up_to 1 (Seq (Literal [46]) digits))))),
                 Bounded (between 4 5 (Chars (tt_digit T))),
                 Bounded (Seq word (Seq (Literal [58]) word)),
                 Bounded (Seq digits (Seq (Literal [47]) digits))])"

definition literal_heavy_query :: "text_tables \<Rightarrow> ustr \<Rightarrow> bool" where
  "literal_heavy_query T query = searches T (literal_pattern T) query"

subsection \<open>The lexical scorer\<close>

record bm25_document =
  bd_id :: ustr
  bd_text :: ustr

text \<open>The term counts of a document are the list of its tokens with their numbers.\<close>

record bm25_corpus =
  bc_documents :: "bm25_document list"
  bc_k1 :: real
  bc_b :: real
  bc_tf :: "ustr \<rightharpoonup> (ustr \<times> nat) list"
  bc_lengths :: "ustr \<rightharpoonup> nat"

definition counter :: "ustr list \<Rightarrow> (ustr \<times> nat) list" where
  "counter ts = map (\<lambda>t. (t, count_list ts t)) (fromkeys ts)"

definition make_corpus :: "text_tables \<Rightarrow> bm25_document list \<Rightarrow> real \<Rightarrow> real \<Rightarrow> bm25_corpus result" where
  "make_corpus T documents k1 b =
     (if k1 \<le> 0 then Inl (ValueError (lit ''k1 must be positive''))
      else if \<not> (0 \<le> b \<and> b \<le> 1) then Inl (ValueError (lit ''b must be between 0 and 1''))
      else let tf = map_of (rev (map (\<lambda>d. (bd_id d, counter (tokenize T (bd_text d)))) documents))
           in Inr \<lparr>bc_documents = documents, bc_k1 = k1, bc_b = b, bc_tf = tf,
                bc_lengths = (\<lambda>i. map_option (\<lambda>c. sum_list (map snd c)) (tf i))\<rparr>)"

definition term_frequency :: "bm25_corpus \<Rightarrow> ustr \<Rightarrow> ustr \<Rightarrow> nat" where
  "term_frequency C i t = (case bc_tf C i of None \<Rightarrow> 0 | Some c \<Rightarrow> the_default 0 (map_of c t))"

definition doc_length :: "bm25_corpus \<Rightarrow> ustr \<Rightarrow> nat" where
  "doc_length C i = the_default 0 (bc_lengths C i)"

definition idf :: "nat \<Rightarrow> nat \<Rightarrow> real" where
  "idf n df = ln (1 + (real n - real df + 1 / 2) / (real df + 1 / 2))"

definition term_score :: "bm25_corpus \<Rightarrow> real \<Rightarrow> nat \<Rightarrow> nat \<Rightarrow> nat \<Rightarrow> nat \<Rightarrow> real" where
  "term_score C avg_len n df len freq =
     (if freq = 0 then 0
      else idf n df * (real freq * (bc_k1 C + 1)
        / (real freq + bc_k1 C * (1 - bc_b C + bc_b C * real len / (if avg_len = 0 then 1 else avg_len)))))"

definition selected_documents :: "bm25_corpus \<Rightarrow> ustr list option \<Rightarrow> bm25_document list" where
  "selected_documents C ids =
     (case ids of None \<Rightarrow> bc_documents C | Some is \<Rightarrow> filter (\<lambda>d. bd_id d \<in> set is) (bc_documents C))"

definition bm25_score :: "text_tables \<Rightarrow> bm25_corpus \<Rightarrow> ustr \<Rightarrow> ustr list option \<Rightarrow> (ustr \<times> real) list" where
  "bm25_score T C query ids =
     (let documents = selected_documents C ids; tokens = tokenize T query
      in if documents = [] then []
         else if tokens = [] then map (\<lambda>d. (bd_id d, 0)) documents
         else
           let n = length documents;
               avg_len = real (sum_list (map (\<lambda>d. doc_length C (bd_id d)) documents)) / real n;
               df = (\<lambda>t. length (filter (\<lambda>d. 0 < term_frequency C (bd_id d) t) documents));
               score = (\<lambda>i. sum_list (map (\<lambda>t. term_score C avg_len n (df t) (doc_length C i) (term_frequency C i t)) tokens))
           in sort_key (\<lambda>(i, s). (- s, i)) (map (\<lambda>d. (bd_id d, py_round 8 (score (bd_id d)))) documents))"

subsection \<open>Signals and fusion\<close>

text \<open>A hit without its cosine score and metadata, which the ranking does not read.\<close>

record retrieval_hit =
  rh_id :: ustr
  rh_text :: ustr
  rh_project :: "ustr option"
  rh_topic :: "ustr option"
  rh_entity :: "ustr option"
  rh_status :: "ustr option"
  rh_time :: "int option"

record ranked_hit =
  rk_id :: ustr
  rk_score :: real
  rk_parts :: "(ustr \<times> real) list"

text \<open>The keyword arguments \<^verbatim>\<open>project\<close> to \<^verbatim>\<open>not_after\<close>.\<close>

record hit_filter =
  hf_project :: "ustr option"
  hf_topic :: "ustr option"
  hf_entity :: "ustr option"
  hf_status :: "ustr option"
  hf_not_after :: "int option"

record signal_bonus =
  sb_project :: real
  sb_topic :: real
  sb_entity :: real
  sb_active :: real

definition default_bonus :: signal_bonus where
  "default_bonus = \<lparr>sb_project = 1 / 100, sb_topic = 5 / 1000, sb_entity = 5 / 1000, sb_active = 3 / 1000\<rparr>"

definition contributions :: "signal_bonus \<Rightarrow> hit_filter \<Rightarrow> retrieval_hit \<Rightarrow> bool \<times> (ustr \<times> real) list" where
  "contributions B f h =
     (if hf_project f \<noteq> None \<and> rh_project h \<noteq> hf_project f then (False, [(lit ''project_mismatch'', -1)])
      else if hf_topic f \<noteq> None \<and> rh_topic h \<noteq> hf_topic f then (False, [(lit ''topic_mismatch'', -1)])
      else if hf_entity f \<noteq> None \<and> rh_entity h \<noteq> hf_entity f then (False, [(lit ''entity_mismatch'', -1)])
      else if hf_status f \<noteq> None \<and> rh_status h \<noteq> hf_status f then (False, [(lit ''status_mismatch'', -1)])
      else if (case (hf_not_after f, rh_time h) of (Some limit, Some t) \<Rightarrow> limit < t | _ \<Rightarrow> False)
      then (False, [(lit ''future_ineligible'', -1)])
      else (True,
        (if hf_project f \<noteq> None then [(lit ''project_match'', sb_project B)] else [])
        @ (if hf_topic f \<noteq> None then [(lit ''topic_match'', sb_topic B)] else [])
        @ (if hf_entity f \<noteq> None then [(lit ''entity_match'', sb_entity B)] else [])
        @ (if rh_status h = Some (lit ''active'') then [(lit ''active_status'', sb_active B)] else [])))"

record fusion_candidate =
  fc_hit :: retrieval_hit
  fc_semantic :: "nat option"
  fc_lexical :: "nat option"

record rank_fusion =
  rf_constant :: int
  rf_semantic :: real
  rf_lexical :: real
  rf_signals :: signal_bonus

definition make_fusion :: "int \<Rightarrow> real \<Rightarrow> real \<Rightarrow> signal_bonus \<Rightarrow> rank_fusion result" where
  "make_fusion k semantic lexical B =
     (if k < 1 then Inl (ValueError (lit ''rank_constant must be positive''))
      else if semantic < 0 \<or> lexical < 0 then Inl (ValueError (lit ''channel weights must not be negative''))
      else Inr \<lparr>rf_constant = k, rf_semantic = semantic, rf_lexical = lexical, rf_signals = B\<rparr>)"

definition default_fusion :: rank_fusion where
  "default_fusion = \<lparr>rf_constant = 60, rf_semantic = 1, rf_lexical = 1, rf_signals = default_bonus\<rparr>"

text \<open>What a candidate offers to its id, and \<^verbatim>\<open>current[key] = max(current.get(key, 0.0), value)\<close>.\<close>

definition offers :: "rank_fusion \<Rightarrow> hit_filter \<Rightarrow> fusion_candidate \<Rightarrow> (ustr \<times> real) list" where
  "offers F f c =
     (case fc_semantic c of None \<Rightarrow> [] | Some r \<Rightarrow> [(lit ''semantic_rrf'', rf_semantic F / (of_int (rf_constant F) + real r))])
     @ (case fc_lexical c of None \<Rightarrow> [] | Some r \<Rightarrow> [(lit ''lexical_rrf'', rf_lexical F / (of_int (rf_constant F) + real r))])
     @ snd (contributions (rf_signals F) f (fc_hit c))"

definition raise_part :: "ustr \<times> real \<Rightarrow> (ustr \<times> real) list \<Rightarrow> (ustr \<times> real) list" where
  "raise_part = (\<lambda>(k, v) parts. AList.update k (max (the_default 0 (map_of parts k)) v) parts)"

definition merge_candidate :: "rank_fusion \<Rightarrow> hit_filter \<Rightarrow> fusion_candidate \<Rightarrow> (ustr \<times> (ustr \<times> real) list) list
    \<Rightarrow> (ustr \<times> (ustr \<times> real) list) list" where
  "merge_candidate F f c merged =
     (if \<not> fst (contributions (rf_signals F) f (fc_hit c)) then merged
      else let i = rh_id (fc_hit c)
           in AList.update i (fold raise_part (offers F f c) (the_default [] (map_of merged i))) merged)"

definition fuse :: "rank_fusion \<Rightarrow> hit_filter \<Rightarrow> fusion_candidate list \<Rightarrow> ranked_hit list" where
  "fuse F f candidates =
     sort_key (\<lambda>h. (- rk_score h, rk_id h))
       (map (\<lambda>(i, parts). \<lparr>rk_id = i, rk_score = py_round 8 (sum_list (map snd parts)), rk_parts = parts\<rparr>)
         (fold (merge_candidate F f) candidates []))"

subsection \<open>The in-memory engine\<close>

record query_result =
  qr_semantic :: "ranked_hit list"
  qr_lexical :: "ranked_hit list"
  qr_hybrid :: "ranked_hit list"

definition rank_hits :: "string \<Rightarrow> ustr list \<Rightarrow> ranked_hit list" where
  "rank_hits key ids = map (\<lambda>(rank, i). \<lparr>rk_id = i, rk_score = py_round 8 (1 / real rank), rk_parts = [(lit key, real rank)]\<rparr>)
     (enumerate 1 ids)"

definition baseline_results :: "ustr list \<Rightarrow> ranked_hit list" where
  "baseline_results ids = rank_hits ''baseline_rank'' ids"

text \<open>A rank table \<^verbatim>\<open>{item.id: rank}\<close> over enumerated ids: the last rank of an id counts.\<close>

definition rank_table :: "ustr list \<Rightarrow> ustr \<rightharpoonup> nat" where
  "rank_table ids = map_of (rev (map (\<lambda>(r, i). (i, r)) (enumerate 1 ids)))"

definition hybrid_query :: "text_tables \<Rightarrow> retrieval_hit list \<Rightarrow> rank_fusion \<Rightarrow> ustr \<Rightarrow> ustr list \<Rightarrow> hit_filter \<Rightarrow> query_result result" where
  "hybrid_query T hits F query semantic_ids f =
     bindE (make_corpus T (map (\<lambda>h. \<lparr>bd_id = rh_id h, bd_text = rh_text h\<rparr>) hits) (3 / 2) (3 / 4)) (\<lambda>C.
       let by_id = map_of (rev (map (\<lambda>h. (rh_id h, h)) hits));
           semantic = filter (\<lambda>h. by_id (rk_id h) \<noteq> None) (rank_hits ''semantic_rank'' semantic_ids);
           lexical = map (\<lambda>(i, s). \<lparr>rk_id = i, rk_score = s, rk_parts = [(lit ''bm25'', s)]\<rparr>)
             (filter (\<lambda>(i, s). 0 < s) (bm25_score T C query None));
           semantic_rank = rank_table (map rk_id semantic);
           lexical_rank = rank_table (map rk_id lexical);
           ids = sort (remdups (map rk_id semantic @ map rk_id lexical))
       in Inr \<lparr>qr_semantic = semantic, qr_lexical = lexical,
            qr_hybrid = fuse F f (map (\<lambda>i. \<lparr>fc_hit = the (by_id i), fc_semantic = semantic_rank i, fc_lexical = lexical_rank i\<rparr>) ids)\<rparr>)"

subsection \<open>Searching knowledge\<close>

text \<open>
  The filter clauses the service builds; the second is a value that may also be missing. A read
  answers for the state it leaves: points that exist then and meet the conditions, without
  repetition, and no more than asked for.
\<close>

datatype recall_condition = HasValue ustr json | HasValueOrMissing ustr json | InScope repo_condition | HasId "ustr list"

definition empty_field :: "json option \<Rightarrow> bool" where
  "empty_field v = (v \<in> {None, Some JNull, Some (JArr [])})"

fun recall_meets :: "recall_condition \<Rightarrow> uid \<times> dict \<Rightarrow> bool" where
  "recall_meets (HasValue k v) x = (snd x k = Some v)"
| "recall_meets (HasValueOrMissing k v) x = (snd x k = Some v \<or> empty_field (snd x k))"
| "recall_meets (InScope c) x = payload_match c (payload_scope (snd x))"
| "recall_meets (HasId ids) x = (fst x \<in> set ids)"

record 's recall_store =
  rs_retrieve :: "uid \<Rightarrow> recall_condition list \<Rightarrow> ('s, (uid \<times> dict) option) io"
  rs_search :: "real list \<Rightarrow> int \<Rightarrow> recall_condition list \<Rightarrow> real option \<Rightarrow> ('s, ((uid \<times> dict) \<times> real option) list) io"
  rs_scroll :: "recall_condition list \<Rightarrow> int \<Rightarrow> ('s, (uid \<times> dict) list) io"

definition fresh_points :: "('s \<Rightarrow> uid \<rightharpoonup> dict) \<Rightarrow> 's \<Rightarrow> recall_condition list \<Rightarrow> int \<Rightarrow> (uid \<times> dict) list \<Rightarrow> bool" where
  "fresh_points pts s cs n xs \<longleftrightarrow> distinct (map fst xs) \<and> int (length xs) \<le> max n 0
     \<and> list_all (\<lambda>x. pts s (fst x) = Some (snd x) \<and> list_all (\<lambda>c. recall_meets c x) cs) xs"

definition recall_store_ok :: "'s recall_store \<Rightarrow> ('s \<Rightarrow> uid \<rightharpoonup> dict) \<Rightarrow> bool" where
  "recall_store_ok R pts \<longleftrightarrow>
     (\<forall>i cs s x s'. rs_retrieve R i cs s = (Inr (Some x), s') \<longrightarrow> fst x = i \<and> fresh_points pts s' cs 1 [x])
   \<and> (\<forall>v n cs t s xs s'. rs_search R v n cs t s = (Inr xs, s') \<longrightarrow> fresh_points pts s' cs n (map fst xs))
   \<and> (\<forall>cs n s xs s'. rs_scroll R cs n s = (Inr xs, s') \<longrightarrow> fresh_points pts s' cs n xs)"

datatype retrieval_mode = VECTOR | LITERAL | HYBRID

fun mode_name :: "retrieval_mode \<Rightarrow> ustr" where
  "mode_name VECTOR = lit ''vector''"
| "mode_name LITERAL = lit ''literal''"
| "mode_name HYBRID = lit ''hybrid''"

record retrieval_policy =
  rp_mode :: retrieval_mode
  rp_max_records :: int
  rp_multiplier :: int

definition make_retrieval_policy :: "ustr \<Rightarrow> int \<Rightarrow> int \<Rightarrow> retrieval_policy result" where
  "make_retrieval_policy mode max_records multiplier =
     (case filter (\<lambda>m. mode_name m = mode) [VECTOR, LITERAL, HYBRID] of
        [] \<Rightarrow> Inl (ValueError (lit ''unknown Knowledge retrieval mode''))
      | m # _ \<Rightarrow>
          if \<not> (1 \<le> max_records \<and> max_records \<le> 50000)
          then Inl (ValueError (lit ''retrieval max_records must be between 1 and 50000''))
          else if \<not> (1 \<le> multiplier \<and> multiplier \<le> 10)
          then Inl (ValueError (lit ''retrieval candidate_multiplier must be between 1 and 10''))
          else Inr \<lparr>rp_mode = m, rp_max_records = max_records, rp_multiplier = multiplier\<rparr>)"

definition uses_lexical :: "text_tables \<Rightarrow> retrieval_policy \<Rightarrow> ustr \<Rightarrow> bool" where
  "uses_lexical T P query \<longleftrightarrow> rp_mode P = HYBRID \<or> rp_mode P = LITERAL \<and> literal_heavy_query T query"

definition candidate_limit :: "retrieval_policy \<Rightarrow> int \<Rightarrow> int" where
  "candidate_limit P limit = max limit (min 500 (limit * rp_multiplier P))"

definition plain_hit :: "ustr \<Rightarrow> retrieval_hit" where
  "plain_hit i = \<lparr>rh_id = i, rh_text = [], rh_project = None, rh_topic = None, rh_entity = None, rh_status = None, rh_time = None\<rparr>"

definition no_filter :: hit_filter where
  "no_filter = \<lparr>hf_project = None, hf_topic = None, hf_entity = None, hf_status = None, hf_not_after = None\<rparr>"

text \<open>The order of the ids, with the fused scores when there are any.\<close>

definition order_ids :: "retrieval_mode \<Rightarrow> ustr list \<Rightarrow> ustr list \<Rightarrow> ustr list \<times> (ustr \<rightharpoonup> real)" where
  "order_ids mode semantic_ids lexical_ids =
     (if mode = HYBRID
      then let ranked = fuse default_fusion no_filter
             (map (\<lambda>i. \<lparr>fc_hit = plain_hit i, fc_semantic = rank_table semantic_ids i, fc_lexical = rank_table lexical_ids i\<rparr>)
               (sort (remdups (semantic_ids @ lexical_ids))))
           in (map rk_id ranked, map_of (map (\<lambda>h. (rk_id h, rk_score h)) ranked))
      else (fromkeys (lexical_ids @ semantic_ids), Map.empty))"

definition json_real :: "real option \<Rightarrow> json" where
  "json_real v = (case v of None \<Rightarrow> JNull | Some x \<Rightarrow> JReal x)"

definition ranked_row :: "retrieval_mode \<Rightarrow> real option \<Rightarrow> real option \<Rightarrow> real option \<Rightarrow> uid \<times> dict \<Rightarrow> dict" where
  "ranked_row mode cosine fused lexical x =
     (snd x)(lit ''id'' \<mapsto> JStr (fst x), lit ''score'' \<mapsto> json_real cosine,
       lit ''_retrieval'' \<mapsto> JObj [(lit ''method'', JStr (mode_name mode)), (lit ''ranking_score'', json_real fused),
         (lit ''lexical_score'', json_real lexical)])"

definition lexical_hits :: "text_tables \<Rightarrow> retrieval_policy \<Rightarrow> (json \<Rightarrow> ustr) \<Rightarrow> ustr \<Rightarrow> int \<Rightarrow> (uid \<times> dict) list
    \<Rightarrow> (ustr \<times> real) list result" where
  "lexical_hits T P py_str query limit points =
     (if rp_max_records P < int (length points)
      then Inl (StorageError (lit ''Knowledge lexical corpus exceeds configured max_records''))
      else bindE (make_corpus T (map (\<lambda>(i, p). \<lparr>bd_id = i, bd_text = text_or_empty py_str (p (lit ''content''))\<rparr>) points) (3 / 2) (3 / 4)) (\<lambda>C.
        Inr (take (nat (candidate_limit P limit)) (filter (\<lambda>(i, s). 0 < s) (bm25_score T C query None)))))"

definition rank_knowledge :: "text_tables \<Rightarrow> 's recall_store \<Rightarrow> (json \<Rightarrow> ustr) \<Rightarrow> ustr \<Rightarrow> ((uid \<times> dict) \<times> real option) list
    \<Rightarrow> recall_condition list \<Rightarrow> int \<Rightarrow> retrieval_policy \<Rightarrow> ('s, dict list) io" where
  "rank_knowledge T R py_str query vector_points conditions limit P =
     bindS (rs_scroll R conditions (rp_max_records P + 1)) (\<lambda>points.
     bindS (liftS (lexical_hits T P py_str query limit points)) (\<lambda>lexical.
       let semantic_ids = fromkeys (map (\<lambda>x. fst (fst x)) vector_points);
           cosine = map_of (rev (map (\<lambda>x. (fst (fst x), snd x)) vector_points));
           (ordered, scores) = order_ids (rp_mode P) semantic_ids (map fst lexical);
           selected = take (nat limit) ordered
       in if selected = [] then returnS []
          else bindS (rs_scroll R (conditions @ [HasId selected]) (int (length selected))) (\<lambda>current.
            returnS (List.map_filter (\<lambda>i. map_option (\<lambda>p. ranked_row (rp_mode P) (Option.bind (cosine i) (\<lambda>v. v)) (scores i)
                (map_of (rev lexical) i) (i, p)) (map_of (rev current) i)) selected))))"

subsection \<open>The service\<close>

record 's knowledge_search =
  ks_store :: "'s recall_store"
  ks_unicode :: unicode_tables
  ks_text :: text_tables
  ks_embed :: "ustr \<Rightarrow> real list result"
  ks_threshold :: "real option"
  ks_policy :: retrieval_policy
  ks_str :: "json \<Rightarrow> ustr"
  ks_int :: "ustr \<Rightarrow> int option"

text \<open>Keyword filters: texts by name, absent or \<^verbatim>\<open>None\<close>.\<close>

type_synonym recall_filters = "(ustr \<times> ustr option) list"

definition filter_selectors :: "recall_filters \<Rightarrow> identity_values" where
  "filter_selectors filters d = (case map_of filters (dimension_value d) of Some v \<Rightarrow> v | None \<Rightarrow> None)"

definition field_conditions :: "recall_filters \<Rightarrow> recall_condition list" where
  "field_conditions filters = List.map_filter (\<lambda>(k, v). map_option (\<lambda>s. HasValue k (JStr s)) v) filters"

definition knowledge_get :: "'s knowledge_search \<Rightarrow> caller_authority \<Rightarrow> uid \<Rightarrow> ('s, dict option) io" where
  "knowledge_get K authority point_id =
     bindS (liftS (enforce_operation (ks_unicode K) (Some authority) KNOWLEDGE_GET Map.empty)) (\<lambda>plan.
     bindS (liftS (scope_conditions plan)) (\<lambda>scope.
     bindS (rs_retrieve (ks_store K) point_id (map InScope scope)) (\<lambda>point.
       returnS (map_option (\<lambda>(i, p). [lit ''id'' \<mapsto> JStr i] ++ p) point))))"

definition status_filter :: "recall_filters \<Rightarrow> json" where
  "status_filter filters =
     (case map_of filters (lit ''status'') of
        None \<Rightarrow> JStr (lit ''active'')
      | Some None \<Rightarrow> JNull
      | Some (Some s) \<Rightarrow> JStr s)"

definition search_conditions :: "recall_filters \<Rightarrow> repo_condition list \<Rightarrow> recall_condition list" where
  "search_conditions filters scope =
     [HasValue (lit ''status'') (status_filter filters),
      HasValueOrMissing (lit ''record_class'') (JStr (lit ''knowledge'')),
      HasValueOrMissing (lit ''ordinary_recall'') (JBool True)]
     @ field_conditions (filter (\<lambda>(k, v). k \<noteq> lit ''status'') filters) @ map InScope scope"

definition vector_row :: "(uid \<times> dict) \<times> real option \<Rightarrow> dict" where
  "vector_row = (\<lambda>((i, p), score). [lit ''id'' \<mapsto> JStr i, lit ''score'' \<mapsto> json_real score] ++ p)"

definition search_knowledge :: "'s knowledge_search \<Rightarrow> caller_authority option \<Rightarrow> ustr \<Rightarrow> int \<Rightarrow> recall_filters \<Rightarrow> ('s, dict list) io" where
  "search_knowledge K ctx query limit filters =
     bindS (liftS (enforce_operation (ks_unicode K) ctx KNOWLEDGE_SEARCH (filter_selectors filters))) (\<lambda>plan.
     bindS (liftS (scope_conditions plan)) (\<lambda>scope.
       let conditions = search_conditions filters scope;
           lexical = uses_lexical (ks_text K) (ks_policy K) query \<and> 0 < limit
       in bindS (liftS (ks_embed K query)) (\<lambda>vector.
          bindS (rs_search (ks_store K) vector (if lexical then candidate_limit (ks_policy K) limit else limit) conditions (ks_threshold K)) (\<lambda>points.
            if lexical then rank_knowledge (ks_text K) (ks_store K) (ks_str K) query points conditions limit (ks_policy K)
            else returnS (map vector_row points)))))"

text \<open>\<^verbatim>\<open>int(item.get("version", 0))\<close>; the sort is stable also in reverse.\<close>

definition version_number :: "'s knowledge_search \<Rightarrow> json option \<Rightarrow> int result" where
  "version_number K v =
     (case v of
        None \<Rightarrow> Inr 0
      | Some (JInt n) \<Rightarrow> Inr n
      | Some (JBool b) \<Rightarrow> Inr (if b then 1 else 0)
      | Some (JReal x) \<Rightarrow> Inr (if x < 0 then \<lceil>x\<rceil> else \<lfloor>x\<rfloor>)
      | Some (JStr s) \<Rightarrow> (case ks_int K s of Some n \<Rightarrow> Inr n | None \<Rightarrow> Inl (ValueError (lit ''invalid literal for int()'')))
      | _ \<Rightarrow> Inl (TypeError (lit ''int() argument must be a string or a real number'')))"

definition timeline :: "'s knowledge_search \<Rightarrow> caller_authority option \<Rightarrow> ustr \<Rightarrow> ustr \<Rightarrow> ustr \<Rightarrow> ustr \<Rightarrow> int \<Rightarrow> recall_filters
    \<Rightarrow> ('s, dict list) io" where
  "timeline K ctx domain topic entity_type entity_name limit filters =
     bindS (liftS (enforce_operation (ks_unicode K) ctx KNOWLEDGE_TIMELINE (filter_selectors filters))) (\<lambda>plan.
     bindS (liftS (scope_conditions plan)) (\<lambda>scope.
     bindS (rs_scroll (ks_store K)
        ([HasValue (lit ''domain'') (JStr domain), HasValue (lit ''topic'') (JStr topic),
          HasValue (lit ''entity_type'') (JStr entity_type), HasValue (lit ''entity_name'') (JStr entity_name)]
         @ map InScope scope @ field_conditions filters) limit) (\<lambda>points.
     bindS (liftS (mapE (\<lambda>(i, p). let row = [lit ''id'' \<mapsto> JStr i] ++ p
          in bindE (version_number K (row (lit ''version''))) (\<lambda>v. Inr (v, row))) points)) (\<lambda>rows.
       returnS (map snd (sort_key (\<lambda>(v, row). - v) rows))))))"

subsection \<open>A corpus and its parts\<close>

lemma map_of_filter_key: "map_of (filter (\<lambda>x. P (fst x)) xs) k = (if P k then map_of xs k else None)"
  by (induction xs) auto

lemma make_corpus_Inr:
  assumes "make_corpus T docs k1 b = Inr C"
  shows "bc_documents C = docs" "bc_k1 C = k1" "bc_b C = b" "0 < k1" "0 \<le> b" "b \<le> 1"
    "bc_tf C = map_of (rev (map (\<lambda>d. (bd_id d, counter (tokenize T (bd_text d)))) docs))"
    "bc_lengths C = (\<lambda>i. map_option (\<lambda>c. sum_list (map snd c)) (bc_tf C i))"
  using assms by (auto simp: make_corpus_def Let_def split: if_splits)

lemma counter_length: "sum_list (map snd (counter ts)) = length ts"
proof -
  have "sum_list (map snd (counter ts)) = (\<Sum>t \<in> set (fromkeys ts). count_list ts t)"
    by (simp add: counter_def comp_def sum_list_distinct_conv_sum_set)
  then show ?thesis using sum_count_set [of ts "set ts"] by simp
qed

lemma subset_lookup:
  assumes "make_corpus T docs k1 b = Inr C" and "make_corpus T (filter (\<lambda>d. bd_id d \<in> set ids) docs) k1 b = Inr C'"
    and "i \<in> set ids"
  shows "term_frequency C' i = term_frequency C i" and "doc_length C' i = doc_length C i"
proof -
  let ?g = "\<lambda>d. (bd_id d, counter (tokenize T (bd_text d)))"
  have "rev (map ?g (filter (\<lambda>d. bd_id d \<in> set ids) docs)) = filter (\<lambda>x. fst x \<in> set ids) (rev (map ?g docs))"
    by (induction docs) simp_all
  then have "bc_tf C' i = bc_tf C i"
    using assms(3) by (simp add: make_corpus_Inr [OF assms(1)] make_corpus_Inr [OF assms(2)] map_of_filter_key [where P = "\<lambda>j. j \<in> set ids"])
  then show "term_frequency C' i = term_frequency C i" "doc_length C' i = doc_length C i"
    by (auto simp: term_frequency_def doc_length_def make_corpus_Inr(8) [OF assms(1)] make_corpus_Inr(8) [OF assms(2)] fun_eq_iff)
qed

lemma idf_nonneg: "df \<le> n \<Longrightarrow> 0 \<le> idf n df"
  unfolding idf_def by (intro ln_ge_zero) simp

lemma term_score_nonneg:
  assumes "0 < bc_k1 C" and "0 \<le> bc_b C" and "bc_b C \<le> 1" and "df \<le> n" and "0 \<le> avg_len"
  shows "0 \<le> term_score C avg_len n df len freq"
proof -
  have "0 \<le> bc_k1 C * (1 - bc_b C + bc_b C * real len / (if avg_len = 0 then 1 else avg_len))"
    using assms by (intro mult_nonneg_nonneg add_nonneg_nonneg divide_nonneg_nonneg) auto
  then show ?thesis
    using assms idf_nonneg [OF assms(4)] unfolding term_score_def
    by (auto intro!: mult_nonneg_nonneg divide_nonneg_nonneg add_nonneg_nonneg)
qed

text \<open>
  C32. Scoring a part of a corpus is scoring a fresh corpus of just that part, as the class
  promises: restricting the document ids gives the same ranking with the same scores as
  building a scorer over the selected documents, also when ids repeat. The ranking lists every
  selected document, no score is negative, the order is falling score and then id, and only a
  document that contains a token of the query has a positive score.
\<close>

theorem bm25_subset_is_fresh:
  assumes "make_corpus T docs k1 b = Inr C" and "make_corpus T (filter (\<lambda>d. bd_id d \<in> set ids) docs) k1 b = Inr C'"
  shows "bm25_score T C query (Some ids) = bm25_score T C' query None
    \<and> mset (map fst (bm25_score T C query (Some ids))) = mset (map bd_id (filter (\<lambda>d. bd_id d \<in> set ids) docs))
    \<and> list_all (\<lambda>(i, s). 0 \<le> s \<and> (0 < s \<longrightarrow> list_ex (\<lambda>t. 0 < term_frequency C i t) (tokenize T query)))
        (bm25_score T C query (Some ids))
    \<and> (tokenize T query \<noteq> [] \<longrightarrow> sorted (map (\<lambda>(i, s). (- s, i)) (bm25_score T C query (Some ids))))"
proof -
  define D where "D = filter (\<lambda>d. bd_id d \<in> set ids) docs"
  note C = make_corpus_Inr [OF assms(1)] and C' = make_corpus_Inr [OF assms(2)]
  have sel: "selected_documents C (Some ids) = D" "selected_documents C' None = D"
    by (simp_all add: selected_documents_def C C' D_def)
  have same: "term_frequency C' (bd_id d) = term_frequency C (bd_id d)" "doc_length C' (bd_id d) = doc_length C (bd_id d)"
    if "d \<in> set D" for d
    using subset_lookup [OF assms, of "bd_id d"] that by (auto simp: D_def)
  have ts: "term_score C' = term_score C" by (simp add: fun_eq_iff term_score_def C C')
  define avg_len where "avg_len = real (sum_list (map (\<lambda>d. doc_length C (bd_id d)) D)) / real (length D)"
  define df where "df t = length (filter (\<lambda>d. 0 < term_frequency C (bd_id d) t) D)" for t
  define score where "score i = sum_list (map (\<lambda>t. term_score C avg_len (length D) (df t) (doc_length C i) (term_frequency C i t))
      (tokenize T query))" for i
  have eq: "bm25_score T C query (Some ids) = (if D = [] then [] else if tokenize T query = [] then map (\<lambda>d. (bd_id d, 0)) D
      else sort_key (\<lambda>(i, s). (- s, i)) (map (\<lambda>d. (bd_id d, py_round 8 (score (bd_id d)))) D))"
    by (simp add: bm25_score_def sel Let_def avg_len_def df_def score_def)
  have dfs: "length (filter (\<lambda>d. 0 < term_frequency C' (bd_id d) t) D) = df t" for t
    unfolding df_def by (rule arg_cong [of _ _ length]) (rule filter_cong, simp_all add: same)
  have "bm25_score T C' query None = bm25_score T C query (Some ids)"
    unfolding eq by (simp add: bm25_score_def sel Let_def dfs ts score_def avg_len_def same cong: map_cong)
  moreover have "0 \<le> score i" for i
    unfolding score_def using C
    by (intro sum_list_nonneg) (auto intro!: term_score_nonneg simp: avg_len_def df_def)
  moreover have "list_ex (\<lambda>t. 0 < term_frequency C i t) (tokenize T query)" if "0 < py_round 8 (score i)" for i
  proof (rule ccontr)
    assume "\<not> ?thesis"
    then have zero: "map (\<lambda>t. term_score C avg_len (length D) (df t) (doc_length C i) (term_frequency C i t)) (tokenize T query)
        = map (\<lambda>_. 0) (tokenize T query)"
      by (simp add: list_ex_iff term_score_def)
    have "score i = of_int 0" unfolding score_def zero by (simp add: sum_list_0)
    with that py_round_int [of 8 0] show False by simp
  qed
  ultimately show ?thesis
    unfolding eq D_def [symmetric]
    by (auto simp: list_all_iff py_round_nonneg comp_def multiset.map_comp)
qed

definition example_tables :: text_tables where
  "example_tables = \<lparr>tt_casefold = (\<lambda>s. s), tt_word = lower_alnum, tt_digit = ascii_digit, tt_same = (\<lambda>a b. a = b)\<rparr>"

definition example_documents :: "bm25_document list" where
  "example_documents = [\<lparr>bd_id = [1], bd_text = lit ''blue sky''\<rparr>, \<lparr>bd_id = [2], bd_text = lit ''grey sky''\<rparr>]"

lemma bm25_subset_is_fresh_witness:
  "\<exists>C C'. make_corpus example_tables example_documents (3 / 2) (3 / 4) = Inr C
     \<and> make_corpus example_tables (take 1 example_documents) (3 / 2) (3 / 4) = Inr C'
     \<and> bm25_score example_tables C (lit ''sky'') (Some [[1]]) = bm25_score example_tables C' (lit ''sky'') None"
proof -
  have part: "filter (\<lambda>d. bd_id d \<in> set [[1]]) example_documents = take 1 example_documents"
    by (simp add: example_documents_def)
  obtain C where C: "make_corpus example_tables example_documents (3 / 2) (3 / 4) = Inr C"
    by (simp add: make_corpus_def Let_def)
  obtain C' where C': "make_corpus example_tables (take 1 example_documents) (3 / 2) (3 / 4) = Inr C'"
    by (simp add: make_corpus_def Let_def)
  from bm25_subset_is_fresh [OF C, of "[[1]]" C'] C' C show ?thesis unfolding part by blast
qed

subsection \<open>What fusion keeps of its candidates\<close>

text \<open>Each key of an id has the largest value offered for it, or 0 if all are negative.\<close>

definition parts_for :: "(ustr \<Rightarrow> real set) \<Rightarrow> (ustr \<times> real) list \<Rightarrow> bool" where
  "parts_for S parts \<longleftrightarrow> distinct (map fst parts)
     \<and> (\<forall>k. finite (S k) \<and> map_of parts k = (if S k = {} then None else Some (Max (insert 0 (S k)))))"

lemma raise_part_for:
  assumes "parts_for S parts"
  shows "parts_for (S(k := insert v (S k))) (raise_part (k, v) parts)"
proof -
  have fin: "finite (S k')" for k' using assms by (simp add: parts_for_def)
  have "max (the_default 0 (map_of parts k)) v = Max (insert 0 (insert v (S k)))"
  proof (cases "S k = {}")
    case True
    then show ?thesis using assms by (simp add: parts_for_def the_default_def)
  next
    case False
    then show ?thesis using assms fin [of k] by (simp add: parts_for_def the_default_def max.left_commute max.commute)
  qed
  then show ?thesis
    using assms by (auto simp: parts_for_def raise_part_def update_conv' distinct_update)
qed

lemma raise_parts_for:
  "parts_for S parts \<Longrightarrow> parts_for (\<lambda>k. S k \<union> {v. (k, v) \<in> set os}) (fold raise_part os parts)"
proof (induction os arbitrary: S parts)
  case (Cons o1 os)
  obtain k v where o1: "o1 = (k, v)" by fastforce
  have "(\<lambda>k'. (S(k := insert v (S k))) k' \<union> {u. (k', u) \<in> set os}) = (\<lambda>k'. S k' \<union> {u. (k', u) \<in> set (o1 # os)})"
    by (auto simp: o1 fun_eq_iff)
  with Cons.IH [OF raise_part_for [OF Cons.prems, of k v]] show ?case by (simp add: o1)
qed simp

definition allowed :: "rank_fusion \<Rightarrow> hit_filter \<Rightarrow> fusion_candidate \<Rightarrow> bool" where
  "allowed F f c = fst (contributions (rf_signals F) f (fc_hit c))"

definition offered :: "rank_fusion \<Rightarrow> hit_filter \<Rightarrow> fusion_candidate list \<Rightarrow> ustr \<Rightarrow> ustr \<Rightarrow> real set" where
  "offered F f cs i k = {v. \<exists>c \<in> set cs. allowed F f c \<and> rh_id (fc_hit c) = i \<and> (k, v) \<in> set (offers F f c)}"

definition merged_for :: "rank_fusion \<Rightarrow> hit_filter \<Rightarrow> fusion_candidate list \<Rightarrow> (ustr \<times> (ustr \<times> real) list) list \<Rightarrow> bool" where
  "merged_for F f cs merged \<longleftrightarrow> distinct (map fst merged)
     \<and> fst ` set merged = {i. \<exists>c \<in> set cs. allowed F f c \<and> rh_id (fc_hit c) = i}
     \<and> (\<forall>(i, parts) \<in> set merged. parts_for (offered F f cs i) parts)"

lemma parts_for_Nil: "parts_for (\<lambda>_. {}) []"
  by (simp add: parts_for_def)

lemma offered_empty: "\<not> (\<exists>c \<in> set cs. allowed F f c \<and> rh_id (fc_hit c) = i) \<Longrightarrow> offered F f cs i = (\<lambda>_. {})"
  by (auto simp: offered_def fun_eq_iff)

lemma merge_step:
  assumes "merged_for F f cs merged"
  shows "merged_for F f (cs @ [c]) (merge_candidate F f c merged)"
proof (cases "allowed F f c")
  case False
  then have "offered F f (cs @ [c]) = offered F f cs" by (auto simp: offered_def fun_eq_iff)
  with False assms show ?thesis by (auto simp: merged_for_def merge_candidate_def allowed_def)
next
  case True
  define i where "i = rh_id (fc_hit c)"
  define parts where "parts = fold raise_part (offers F f c) (the_default [] (map_of merged i))"
  have d: "distinct (map fst merged)" using assms by (simp add: merged_for_def)
  have m: "merge_candidate F f c merged = AList.update i parts merged"
    using True by (simp add: merge_candidate_def allowed_def parts_def i_def Let_def)
  have old: "parts_for (offered F f cs i) (the_default [] (map_of merged i))"
  proof (cases "map_of merged i")
    case None
    then have "\<not> (\<exists>c \<in> set cs. allowed F f c \<and> rh_id (fc_hit c) = i)"
      using assms unfolding merged_for_def map_of_eq_None_iff by blast
    then show ?thesis using None offered_empty [of cs F f i] parts_for_Nil by (simp add: the_default_def)
  next
    case (Some ps)
    then show ?thesis using assms map_of_SomeD [OF Some] by (auto simp: merged_for_def the_default_def)
  qed
  have off: "(\<lambda>k. offered F f cs i k \<union> {v. (k, v) \<in> set (offers F f c)}) = offered F f (cs @ [c]) i"
    using True by (auto simp: offered_def i_def fun_eq_iff)
  have new: "parts_for (offered F f (cs @ [c]) i) parts"
    using raise_parts_for [OF old, of "offers F f c"] by (simp add: parts_def off)
  have other: "offered F f (cs @ [c]) j = offered F f cs j" if "j \<noteq> i" for j
    using that by (auto simp: offered_def i_def fun_eq_iff)
  have "set (AList.update i parts merged) = insert (i, parts) {x \<in> set merged. fst x \<noteq> i}"
  proof -
    have "(j, q) \<in> set (AList.update i parts merged) \<longleftrightarrow> (j, q) = (i, parts) \<or> ((j, q) \<in> set merged \<and> j \<noteq> i)" for j q
      using map_of_eq_Some_iff [OF distinct_update [OF d, of i parts], of j q] map_of_eq_Some_iff [OF d, of j q]
      by (auto simp: update_conv' split: if_splits)
    then show ?thesis by (auto simp: set_eq_iff)
  qed
  moreover have "distinct (map fst (AList.update i parts merged))" by (rule distinct_update [OF d])
  moreover have "fst ` insert (i, parts) {x \<in> set merged. fst x \<noteq> i} = insert i (fst ` set merged)" by auto
  ultimately show ?thesis
    using assms True new other unfolding m merged_for_def by (auto simp: i_def)
qed

lemma merged_ok: "merged_for F f cs (fold (merge_candidate F f) cs [])"
proof (induction cs rule: rev_induct)
  case (snoc c cs)
  then show ?case using merge_step [of F f cs _ c] by simp
qed (simp add: merged_for_def)

definition hit_view :: "ranked_hit \<Rightarrow> ustr \<times> real \<times> (ustr \<rightharpoonup> real)" where
  "hit_view h = (rk_id h, rk_score h, map_of (rk_parts h))"

lemma parts_unique:
  assumes "parts_for S p" and "parts_for S q"
  shows "map_of p = map_of q" and "sum_list (map snd p) = sum_list (map snd q)"
proof -
  show m: "map_of p = map_of q" using assms by (auto simp: parts_for_def fun_eq_iff)
  have d: "distinct (map fst p)" "distinct (map fst q)" using assms by (simp_all add: parts_for_def)
  then have "set p = set q" using m map_of_inject_set by blast
  then have "mset p = mset q" using d by (simp add: set_eq_iff_mset_eq_distinct distinct_map)
  then have "mset (map snd p) = mset (map snd q)" by simp
  then show "sum_list (map snd p) = sum_list (map snd q)" by (metis sum_mset_sum_list)
qed

definition fused_hits :: "rank_fusion \<Rightarrow> hit_filter \<Rightarrow> fusion_candidate list \<Rightarrow> ranked_hit list" where
  "fused_hits F f cs = map (\<lambda>(i, parts). \<lparr>rk_id = i, rk_score = py_round 8 (sum_list (map snd parts)), rk_parts = parts\<rparr>)
     (fold (merge_candidate F f) cs [])"

lemma fuse_sorts: "fuse F f cs = sort_key (\<lambda>h. (- rk_score h, rk_id h)) (fused_hits F f cs)"
  by (simp add: fuse_def fused_hits_def)

lemma fused_ids: "map rk_id (fused_hits F f cs) = map fst (fold (merge_candidate F f) cs [])"
  by (simp add: fused_hits_def comp_def case_prod_unfold)

lemma fused_distinct: "distinct (map rk_id (fused_hits F f cs))"
  using merged_ok [of F f cs] by (simp add: fused_ids merged_for_def)

lemma fused_id_set: "rk_id ` set (fused_hits F f cs) = {i. \<exists>c \<in> set cs. allowed F f c \<and> rh_id (fc_hit c) = i}"
  using merged_ok [of F f cs] fused_ids [of F f cs] unfolding merged_for_def set_map [symmetric] by simp

lemma fused_parts:
  assumes "h \<in> set (fused_hits F f cs)"
  shows "parts_for (offered F f cs (rk_id h)) (rk_parts h)" and "rk_score h = py_round 8 (sum_list (map snd (rk_parts h)))"
  using assms merged_ok [of F f cs] by (auto simp: fused_hits_def merged_for_def)

lemma fuse_distinct: "distinct (map rk_id (fuse F f cs))"
  using fused_distinct [of F f cs] unfolding fuse_sorts distinct_map by (simp add: inj_on_def)

lemma fused_view_subset:
  assumes "set cs = set cs'"
  shows "hit_view ` set (fused_hits F f cs) \<subseteq> hit_view ` set (fused_hits F f cs')"
proof
  fix x assume "x \<in> hit_view ` set (fused_hits F f cs)"
  then obtain h where h: "h \<in> set (fused_hits F f cs)" "x = hit_view h" by auto
  have same: "offered F f cs = offered F f cs'" using assms by (simp add: offered_def fun_eq_iff)
  have "rk_id h \<in> rk_id ` set (fused_hits F f cs)" using h(1) by simp
  then have "rk_id h \<in> rk_id ` set (fused_hits F f cs')" unfolding fused_id_set assms .
  then obtain h' where h': "h' \<in> set (fused_hits F f cs')" "rk_id h' = rk_id h" by auto
  have "parts_for (offered F f cs (rk_id h)) (rk_parts h')" using fused_parts(1) [OF h'(1)] h'(2) same by simp
  from parts_unique [OF fused_parts(1) [OF h(1)] this] have "hit_view h = hit_view h'"
    by (simp add: hit_view_def h'(2) fused_parts(2) [OF h(1)] fused_parts(2) [OF h'(1)])
  with h h'(1) show "x \<in> hit_view ` set (fused_hits F f cs')" by auto
qed

text \<open>
  Fusion depends only on which candidates there are, not on their order or repetition: two
  candidate lists with the same elements give the same ranking, the same scores and the same
  contributions. The ranking names each allowed id once and nothing else, in the order of
  falling score and then id, and the contribution of a key is the largest value a candidate of
  that id offers for it.
\<close>

theorem fusion_is_canonical:
  assumes "set cs = set cs'"
  shows "map hit_view (fuse F f cs) = map hit_view (fuse F f cs')
    \<and> distinct (map rk_id (fuse F f cs))
    \<and> set (map rk_id (fuse F f cs)) = rh_id ` fc_hit ` Set.filter (allowed F f) (set cs)
    \<and> sorted (map (\<lambda>h. (- rk_score h, rk_id h)) (fuse F f cs))
    \<and> list_all (\<lambda>h. parts_for (offered F f cs (rk_id h)) (rk_parts h)) (fuse F f cs)"
proof -
  define K where "K = (\<lambda>v :: ustr \<times> real \<times> (ustr \<rightharpoonup> real). (- fst (snd v), fst v))"
  have key: "map K (map hit_view hs) = map (\<lambda>h. (- rk_score h, rk_id h)) hs" for hs
    by (simp add: K_def hit_view_def)
  have view: "distinct (map hit_view hs)" "inj_on K (set (map hit_view hs))" if "distinct (map rk_id hs)" for hs
  proof -
    have inj: "inj_on rk_id (set hs)" "distinct hs" using that by (simp_all add: distinct_map)
    then show "distinct (map hit_view hs)" by (auto simp: distinct_map inj_on_def hit_view_def)
    show "inj_on K (set (map hit_view hs))"
      using inj(1) by (auto simp: inj_on_def K_def hit_view_def)
  qed
  have eq: "set (map hit_view (fused_hits F f cs)) = set (map hit_view (fused_hits F f cs'))"
    unfolding set_map by (rule subset_antisym [OF fused_view_subset [OF assms] fused_view_subset [OF assms [symmetric]]])
  have "mset (map hit_view (fused_hits F f cs)) = mset (map hit_view (fused_hits F f cs'))"
    using eq set_eq_iff_mset_eq_distinct [OF view(1) [OF fused_distinct] view(1) [OF fused_distinct]] by blast
  then have ms: "mset (map hit_view (fuse F f cs)) = mset (map hit_view (fused_hits F f cs))"
    "mset (map hit_view (fuse F f cs')) = mset (map hit_view (fused_hits F f cs))"
    by (simp_all add: fuse_sorts)
  have sorted: "sorted (map K (map hit_view (fuse F f xs)))" for xs
    unfolding key by (simp add: fuse_sorts)
  have inj: "inj_on K (set (map hit_view (fused_hits F f cs)))" by (rule view(2) [OF fused_distinct])
  have "sort_key K (map hit_view (fused_hits F f cs)) = map hit_view (fuse F f cs)"
    "sort_key K (map hit_view (fused_hits F f cs)) = map hit_view (fuse F f cs')"
    using sort_key_inj_key_eq [OF ms(1) [symmetric] inj sorted] sort_key_inj_key_eq [OF ms(2) [symmetric] inj sorted] by simp_all
  then have "map hit_view (fuse F f cs) = map hit_view (fuse F f cs')" by simp
  moreover have "set (map rk_id (fuse F f cs)) = rh_id ` fc_hit ` Set.filter (allowed F f) (set cs)"
    using fused_id_set [of F f cs] by (auto simp: fuse_sorts)
  moreover have "list_all (\<lambda>h. parts_for (offered F f cs (rk_id h)) (rk_parts h)) (fuse F f cs)"
    using fused_parts(1) by (auto simp: fuse_sorts list_all_iff)
  moreover have "sorted (map (\<lambda>h. (- rk_score h, rk_id h)) (fuse F f cs))" by (simp add: fuse_sorts)
  ultimately show ?thesis using fuse_distinct by blast
qed

definition example_candidates :: "fusion_candidate list" where
  "example_candidates = [\<lparr>fc_hit = plain_hit [1], fc_semantic = Some 1, fc_lexical = None\<rparr>,
     \<lparr>fc_hit = plain_hit [2], fc_semantic = Some 2, fc_lexical = Some 1\<rparr>]"

lemma fusion_is_canonical_witness:
  "map hit_view (fuse default_fusion no_filter example_candidates)
     = map hit_view (fuse default_fusion no_filter (rev example_candidates @ example_candidates))
   \<and> map rk_id (fuse default_fusion no_filter example_candidates) = [[2], [1]]"
proof -
  have "map rk_id (fuse default_fusion no_filter example_candidates) = [[2], [1]]"
    by (simp add: fuse_def example_candidates_def merge_candidate_def contributions_def default_fusion_def no_filter_def
        plain_hit_def offers_def raise_part_def Let_def lit_eq_iff the_default_def py_round_def round_even_def default_bonus_def)
  moreover have "set example_candidates = set (rev example_candidates @ example_candidates)" by simp
  ultimately show ?thesis using fusion_is_canonical [of example_candidates _ default_fusion no_filter] by blast
qed

subsection \<open>What a search returns\<close>

lemma recall_store_laws:
  assumes "recall_store_ok R pts"
  shows retrieved_fresh: "rs_retrieve R i cs s = (Inr (Some x), s') \<Longrightarrow> fst x = i \<and> fresh_points pts s' cs 1 [x]"
    and searched_fresh: "rs_search R v n cs t s = (Inr found, s') \<Longrightarrow> fresh_points pts s' cs n (map fst found)"
    and scrolled_fresh: "rs_scroll R cs n s = (Inr xs, s') \<Longrightarrow> fresh_points pts s' cs n xs"
  using assms unfolding recall_store_ok_def by blast+

lemma distinct_order_ids: "distinct semantic_ids \<Longrightarrow> distinct (fst (order_ids mode semantic_ids lexical_ids))"
  using fuse_distinct by (simp add: order_ids_def Let_def)

text \<open>A row shows a point: the payload, apart from the fields the service adds.\<close>

definition shows_point :: "dict \<Rightarrow> uid \<times> dict \<Rightarrow> bool" where
  "shows_point row x \<longleftrightarrow> (\<forall>k. k \<notin> {lit ''id'', lit ''score'', lit ''_retrieval''} \<longrightarrow> row k = snd x k)"

lemma map_filter_rows:
  assumes "distinct ids" and "\<And>i p. look i = Some p \<Longrightarrow> i \<in> set ids \<Longrightarrow> Q (i, p)"
  shows "\<exists>xs. length xs \<le> length ids \<and> distinct (map fst xs) \<and> list_all Q xs
    \<and> list_all2 (\<lambda>row x. row = g x) (List.map_filter (\<lambda>i. map_option (\<lambda>p. g (i, p)) (look i)) ids) xs"
proof (intro exI conjI)
  let ?xs = "List.map_filter (\<lambda>i. map_option (Pair i) (look i)) ids"
  have ids: "map fst ?xs = filter (\<lambda>i. look i \<noteq> None) ids"
    by (induction ids) (auto simp: List.map_filter_def)
  show "length ?xs \<le> length ids" using ids by (metis length_filter_le length_map)
  show "distinct (map fst ?xs)" unfolding ids using assms(1) by simp
  show "list_all Q ?xs" using assms(2) by (auto simp: list_all_iff List.map_filter_def)
  show "list_all2 (\<lambda>row x. row = g x) (List.map_filter (\<lambda>i. map_option (\<lambda>p. g (i, p)) (look i)) ids) ?xs"
    by (induction ids) (auto simp: List.map_filter_def)
qed

lemma ranked_rows:
  assumes "recall_store_ok R pts" and "0 < limit"
    and "rank_knowledge T R py_str query found cs limit P s = (Inr rows, s')"
  shows "\<exists>xs. fresh_points pts s' cs limit xs \<and> list_all2 shows_point rows xs"
proof -
  obtain points s1 lexical where first: "lexical_hits T P py_str query limit points = Inr lexical"
    and rest: "(let semantic_ids = fromkeys (map (\<lambda>x. fst (fst x)) found);
           cosine = map_of (rev (map (\<lambda>x. (fst (fst x), snd x)) found));
           (ordered, scores) = order_ids (rp_mode P) semantic_ids (map fst lexical);
           selected = take (nat limit) ordered
       in if selected = [] then returnS []
          else bindS (rs_scroll R (cs @ [HasId selected]) (int (length selected))) (\<lambda>current.
            returnS (List.map_filter (\<lambda>i. map_option (\<lambda>p. ranked_row (rp_mode P) (Option.bind (cosine i) (\<lambda>v. v)) (scores i)
                (map_of (rev lexical) i) (i, p)) (map_of (rev current) i)) selected))) s1 = (Inr rows, s')"
    using assms(3) unfolding rank_knowledge_def by (auto simp: bindS_Inr)
  obtain ordered scores where o: "order_ids (rp_mode P) (fromkeys (map (\<lambda>x. fst (fst x)) found)) (map fst lexical) = (ordered, scores)"
    by fastforce
  define selected where "selected = take (nat limit) ordered"
  have d: "distinct selected"
    using distinct_order_ids [of "fromkeys (map (\<lambda>x. fst (fst x)) found)" "rp_mode P" "map fst lexical"] o
    by (simp add: selected_def)
  show ?thesis
  proof (cases "selected = []")
    case True
    then have "rows = []" using rest o by (simp add: selected_def Let_def returnS_def)
    then show ?thesis by (intro exI [of _ "[]"]) (simp add: fresh_points_def)
  next
    case False
    then obtain current g where c: "rs_scroll R (cs @ [HasId selected]) (int (length selected)) s1 = (Inr current, s')"
      and rows: "rows = List.map_filter (\<lambda>i. map_option (\<lambda>p. ranked_row (rp_mode P) (fst (g i)) (scores i) (snd (g i)) (i, p))
          (map_of (rev current) i)) selected"
      using rest o by (auto simp: selected_def Let_def returnS_def bindS_Inr
          intro!: that [where g = "\<lambda>i. (Option.bind (map_of (rev (map (\<lambda>x. (fst (fst x), snd x)) found)) i) (\<lambda>v. v), map_of (rev lexical) i)"])
    let ?Q = "\<lambda>x. pts s' (fst x) = Some (snd x) \<and> list_all (\<lambda>k. recall_meets k x) cs"
    have "?Q (i, p)" if "map_of (rev current) i = Some p" for i p
      using scrolled_fresh [OF assms(1) c] map_of_SomeD [OF that] by (auto simp: fresh_points_def list_all_iff)
    then obtain xs where xs: "length xs \<le> length selected" "distinct (map fst xs)" "list_all ?Q xs"
      "list_all2 (\<lambda>row x. row = ranked_row (rp_mode P) (fst (g (fst x))) (scores (fst x)) (snd (g (fst x))) x) rows xs"
      using map_filter_rows [OF d, of "map_of (rev current)" ?Q "\<lambda>x. ranked_row (rp_mode P) (fst (g (fst x))) (scores (fst x)) (snd (g (fst x))) x"]
      unfolding rows by auto
    have "list_all2 shows_point rows xs"
      by (rule list_all2_mono [OF xs(4)]) (auto simp: shows_point_def ranked_row_def)
    moreover have "length selected \<le> nat limit" by (simp add: selected_def)
    then have "int (length xs) \<le> limit" using xs(1) assms(2) by linarith
    ultimately show ?thesis using xs(2,3) assms(2) by (auto simp: fresh_points_def)
  qed
qed

lemma vector_rows: "list_all2 shows_point (map vector_row found) (map fst found)"
  by (auto simp: list_all2_map1 list_all2_map2 list_all2_same shows_point_def vector_row_def map_add_def split: option.splits)

lemma search_conditions_meet:
  "list_all (\<lambda>k. recall_meets k (i, p)) (search_conditions filters scope) \<Longrightarrow>
     p (lit ''status'') = Some (status_filter filters)
     \<and> p (lit ''record_class'') \<in> {Some (JStr (lit ''knowledge'')), None, Some JNull, Some (JArr [])}
     \<and> p (lit ''ordinary_recall'') \<in> {Some (JBool True), None, Some JNull, Some (JArr [])}"
  by (simp add: search_conditions_def empty_field_def)

lemma field_condition_in:
  "(k, Some x) \<in> set filters \<Longrightarrow> k \<noteq> lit ''status'' \<Longrightarrow> HasValue k (JStr x) \<in> set (search_conditions filters scope)"
  by (force simp: search_conditions_def field_conditions_def List.map_filter_def)

text \<open>
  C31. What a knowledge search returns is current and inside the caller's scope, whichever way
  it ranks and whatever selectors it is given. Even when other writers change the store between
  the reads of the call, every row shows a point as it is stored at the last read, that has the
  asked status (active by default), is ordinary knowledge, meets every field filter and lies
  inside the grant of the caller; no point appears twice, and there are no more rows than asked
  for.
\<close>

theorem search_is_current:
  assumes "nfc_stable (ks_unicode K)" and "caller_wf (ks_unicode K) c" and "recall_store_ok (ks_store K) pts" and "0 < limit"
    and "search_knowledge K (Some c) query limit filters s = (Inr rows, s')"
  shows "\<exists>xs. list_all2 shows_point rows xs \<and> distinct (map fst xs) \<and> int (length rows) \<le> limit
    \<and> list_all (\<lambda>(i, p). pts s' i = Some p \<and> p (lit ''status'') = Some (status_filter filters)
        \<and> p (lit ''record_class'') \<in> {Some (JStr (lit ''knowledge'')), None, Some JNull, Some (JArr [])}
        \<and> p (lit ''ordinary_recall'') \<in> {Some (JBool True), None, Some JNull, Some (JArr [])}
        \<and> list_all (\<lambda>(k, v). k = lit ''status'' \<or> v = None \<or> p k = map_option JStr v) filters
        \<and> inside c (payload_scope p)) xs"
proof -
  obtain plan scope vector found s1 where
    plan: "enforce_operation (ks_unicode K) (Some c) KNOWLEDGE_SEARCH (filter_selectors filters) = Inr plan"
    and scope: "scope_conditions plan = Inr scope"
    and read: "rs_search (ks_store K) vector (if uses_lexical (ks_text K) (ks_policy K) query \<and> 0 < limit
        then candidate_limit (ks_policy K) limit else limit) (search_conditions filters scope) (ks_threshold K) s = (Inr found, s1)"
    and rest: "(if uses_lexical (ks_text K) (ks_policy K) query \<and> 0 < limit
        then rank_knowledge (ks_text K) (ks_store K) (ks_str K) query found (search_conditions filters scope) limit (ks_policy K)
        else returnS (map vector_row found)) s1 = (Inr rows, s')"
    using assms(5) unfolding search_knowledge_def by (auto simp: bindS_Inr Let_def)
  obtain xs where xs: "fresh_points pts s' (search_conditions filters scope) limit xs" "list_all2 shows_point rows xs"
  proof (cases "uses_lexical (ks_text K) (ks_policy K) query")
    case True
    with rest assms(4) have "rank_knowledge (ks_text K) (ks_store K) (ks_str K) query found (search_conditions filters scope) limit
        (ks_policy K) s1 = (Inr rows, s')" by simp
    from ranked_rows [OF assms(3,4) this] that show ?thesis by blast
  next
    case False
    with rest have "rows = map vector_row found" "s' = s1" by (auto simp: returnS_def)
    moreover have "fresh_points pts s1 (search_conditions filters scope) limit (map fst found)"
      using searched_fresh [OF assms(3) read] False by simp
    ultimately show ?thesis using that vector_rows by blast
  qed
  have "inside c (payload_scope p)" if "list_all (\<lambda>k. recall_meets k (i, p)) (search_conditions filters scope)" for i p
  proof -
    have "payload_match k (payload_scope p)" if "k \<in> set scope" for k
      using \<open>list_all (\<lambda>k. recall_meets k (i, p)) (search_conditions filters scope)\<close> that
      by (auto simp: search_conditions_def list_all_iff dest!: bspec [of _ _ "InScope k"])
    then show ?thesis
      using read_selects_inside [OF assms(1,2) keyword_match_payload plan _ scope, of "payload_scope p"] by (simp add: mk_spec_def)
  qed
  note inside = this
  have field: "k = lit ''status'' \<or> v = None \<or> p k = map_option JStr v"
    if "list_all (\<lambda>k. recall_meets k (i, p)) (search_conditions filters scope)" "(k, v) \<in> set filters" for i p k v
  proof (cases v)
    case (Some x)
    show ?thesis
    proof (cases "k = lit ''status''")
      case False
      with that(2) Some have "HasValue k (JStr x) \<in> set (search_conditions filters scope)" using field_condition_in by blast
      with that(1) have "recall_meets (HasValue k (JStr x)) (i, p)" unfolding list_all_iff by blast
      then show ?thesis using Some by simp
    qed simp
  qed simp
  have "list_all (\<lambda>(i, p). pts s' i = Some p \<and> p (lit ''status'') = Some (status_filter filters)
        \<and> p (lit ''record_class'') \<in> {Some (JStr (lit ''knowledge'')), None, Some JNull, Some (JArr [])}
        \<and> p (lit ''ordinary_recall'') \<in> {Some (JBool True), None, Some JNull, Some (JArr [])}
        \<and> list_all (\<lambda>(k, v). k = lit ''status'' \<or> v = None \<or> p k = map_option JStr v) filters
        \<and> inside c (payload_scope p)) xs"
    unfolding list_all_iff
  proof (rule ballI)
    fix x assume x: "x \<in> set xs"
    obtain i p where ip: "x = (i, p)" by fastforce
    have "pts s' i = Some p" "list_all (\<lambda>k. recall_meets k (i, p)) (search_conditions filters scope)"
      using xs(1) x by (auto simp: fresh_points_def list_all_iff ip)
    note now = this(1) and meets = this(2)
    have "\<forall>(k, v) \<in> set filters. k = lit ''status'' \<or> v = None \<or> p k = map_option JStr v" using field [OF meets] by blast
    then show "case x of (i, p) \<Rightarrow> pts s' i = Some p \<and> p (lit ''status'') = Some (status_filter filters)
        \<and> p (lit ''record_class'') \<in> {Some (JStr (lit ''knowledge'')), None, Some JNull, Some (JArr [])}
        \<and> p (lit ''ordinary_recall'') \<in> {Some (JBool True), None, Some JNull, Some (JArr [])}
        \<and> (\<forall>(k, v) \<in> set filters. k = lit ''status'' \<or> v = None \<or> p k = map_option JStr v)
        \<and> inside c (payload_scope p)"
      unfolding ip prod.case using now search_conditions_meet [OF meets] inside [OF meets] by blast
  qed
  moreover have "int (length rows) \<le> limit"
    using xs assms(4) list_all2_lengthD [OF xs(2)] by (simp add: fresh_points_def)
  ultimately show ?thesis using xs by (auto simp: fresh_points_def)
qed

definition listed_recall :: "recall_condition list \<Rightarrow> int \<Rightarrow> (uid \<times> dict) list \<Rightarrow> (uid \<times> dict) list" where
  "listed_recall cs n s = take (nat n) (filter (\<lambda>x. list_all (\<lambda>c. recall_meets c x) cs) (AList.clearjunk s))"

definition in_memory_recall :: "(uid \<times> dict) list recall_store" where
  "in_memory_recall =
     \<lparr>rs_retrieve = (\<lambda>i cs s. (Inr (case listed_recall (HasId [i] # cs) 1 s of [] \<Rightarrow> None | x # _ \<Rightarrow> Some x), s)),
      rs_search = (\<lambda>v n cs t s. (Inr (map (\<lambda>x. (x, Some 1)) (listed_recall cs n s)), s)),
      rs_scroll = (\<lambda>cs n s. (Inr (listed_recall cs n s), s))\<rparr>"

lemma listed_recall_fresh: "fresh_points map_of s cs n (listed_recall cs n s)"
proof -
  have d: "distinct (map fst (AList.clearjunk s))" by (rule distinct_clearjunk)
  have "distinct (map fst (filter (\<lambda>x. list_all (\<lambda>c. recall_meets c x) cs) (AList.clearjunk s)))"
    by (rule distinct_map_filter [OF d])
  then have "distinct (map fst (listed_recall cs n s))"
    unfolding listed_recall_def take_map [symmetric] by (rule distinct_take)
  moreover have "map_of s (fst x) = Some (snd x) \<and> list_all (\<lambda>c. recall_meets c x) cs" if "x \<in> set (listed_recall cs n s)" for x
  proof -
    from in_set_takeD [OF that [unfolded listed_recall_def]]
    have x: "x \<in> set (AList.clearjunk s)" "list_all (\<lambda>c. recall_meets c x) cs" by simp_all
    then have "map_of (AList.clearjunk s) (fst x) = Some (snd x)" by (intro map_of_is_SomeI [OF d]) simp
    with x(2) show ?thesis by (simp only: map_of_clearjunk simp_thms)
  qed
  moreover have "length (listed_recall cs n s) \<le> nat n" by (simp add: listed_recall_def)
  then have "int (length (listed_recall cs n s)) \<le> max n 0" by linarith
  ultimately show ?thesis unfolding fresh_points_def list_all_iff by blast
qed

lemma in_memory_recall_ok: "recall_store_ok in_memory_recall map_of"
proof -
  have "fst x = i \<and> fresh_points map_of s cs 1 [x]" if "listed_recall (HasId [i] # cs) 1 s = x # xs" for i cs s x xs
    using listed_recall_fresh [of s "HasId [i] # cs" 1] unfolding that by (auto simp: fresh_points_def)
  then show ?thesis
    by (auto simp: recall_store_ok_def in_memory_recall_def comp_def listed_recall_fresh split: list.splits)
qed

definition example_search :: "(uid \<times> dict) list knowledge_search" where
  "example_search =
     \<lparr>ks_store = in_memory_recall, ks_unicode = ascii_tables, ks_text = example_tables, ks_embed = (\<lambda>_. Inr []), ks_threshold = None,
      ks_policy = \<lparr>rp_mode = VECTOR, rp_max_records = 10, rp_multiplier = 3\<rparr>, ks_str = (\<lambda>_. []), ks_int = (\<lambda>_. None)\<rparr>"

definition example_point :: "nat \<Rightarrow> dict" where
  "example_point t = [lit ''tenant'' \<mapsto> JStr [t], lit ''user'' \<mapsto> JStr [98], lit ''status'' \<mapsto> JStr (lit ''active'')]"

lemma example_point_scope: "payload_scope (example_point t) = [TENANT \<mapsto> [t], USER \<mapsto> [98]]"
proof
  fix d show "payload_scope (example_point t) d = ([TENANT \<mapsto> [t], USER \<mapsto> [98]]) d"
    by (cases d) (simp_all add: payload_scope_def example_point_def lit_eq_iff)
qed

lemma search_is_current_witness:
  "\<exists>rows s' xs. search_knowledge example_search (Some (example_caller 97)) [] 5 [] [([1], example_point 97), ([2], example_point 99)]
       = (Inr rows, s')
     \<and> list_all2 shows_point rows xs \<and> distinct (map fst xs) \<and> int (length rows) \<le> 5
     \<and> list_all (\<lambda>(i, p). p (lit ''status'') = Some (JStr (lit ''active'')) \<and> inside (example_caller 97) (payload_scope p)) xs"
proof -
  let ?s = "[([1], example_point 97), ([2], example_point 99)]"
  have w: "caller_wf ascii_tables (example_caller 97)" by (rule example_caller_wf) simp
  have sel: "filter_selectors [] = Map.empty" by (simp add: filter_selectors_def fun_eq_iff)
  obtain plan where p: "enforce_operation ascii_tables (Some (example_caller 97)) KNOWLEDGE_SEARCH Map.empty = Inr (Some plan)"
    using enforce_read_total [OF w, of KNOWLEDGE_SEARCH] by (auto simp: mk_spec_def example_caller_def)
  obtain ks where ks: "scope_conditions (Some plan) = Inr ks"
    using scope_conditions_total [OF nfc_stable_ascii w p] by auto
  obtain rows s' where run: "search_knowledge example_search (Some (example_caller 97)) [] 5 [] ?s = (Inr rows, s')"
    using p ks sel by (simp add: search_knowledge_def example_search_def uses_lexical_def in_memory_recall_def Let_def bindS_def returnS_def)
  have "recall_store_ok (ks_store example_search) map_of" by (simp add: example_search_def in_memory_recall_ok)
  from search_is_current [OF _ _ this _ run] w obtain xs where
    "list_all2 shows_point rows xs" "distinct (map fst xs)" "int (length rows) \<le> 5"
    "list_all (\<lambda>(i, p). map_of s' i = Some p \<and> p (lit ''status'') = Some (status_filter [])
        \<and> p (lit ''record_class'') \<in> {Some (JStr (lit ''knowledge'')), None, Some JNull, Some (JArr [])}
        \<and> p (lit ''ordinary_recall'') \<in> {Some (JBool True), None, Some JNull, Some (JArr [])}
        \<and> list_all (\<lambda>(k, v). k = lit ''status'' \<or> v = None \<or> p k = map_option JStr v) []
        \<and> inside (example_caller 97) (payload_scope p)) xs"
    by (auto simp: example_search_def)
  then show ?thesis using run by (auto simp: status_filter_def list_all_iff intro!: exI [of _ rows] exI [of _ s'] exI [of _ xs])
qed

end
