(* ===== verification/Relations.thy ===== *)
theory Relations
  imports Knowledge_Evolution "HOL-Library.Product_Lexorder"
begin

text \<open>
  Relations between knowledge entities, \<^verbatim>\<open>cyberbrain/relations/\<close>: references, edges and bundles with
  their validation (\<^verbatim>\<open>models.py\<close>), the rebuildable projection (\<^verbatim>\<open>index.py\<close>), the scoped and budgeted
  reads (\<^verbatim>\<open>storage.py\<close>) and the merging of proposals and reviews (\<^verbatim>\<open>review.py\<close>). Canonical JSON
  texts, SHA-256 and the parsing of a stored bundle are parameters; a pydantic validation error
  is a \<open>ValueError\<close>.
\<close>

subsection \<open>References\<close>

record entity_ref =
  ef_domain :: ustr
  ef_topic :: ustr
  ef_type :: ustr
  ef_name :: ustr
  ef_context :: dict
  ef_scope :: identity_values

datatype relation_kind = DEPENDS_ON | PART_OF | SUPPORTS | CONTRADICTS | CAUSES

fun relation_value :: "relation_kind \<Rightarrow> ustr" where
  "relation_value DEPENDS_ON = lit ''depends_on''"
| "relation_value PART_OF = lit ''part_of''"
| "relation_value SUPPORTS = lit ''supports''"
| "relation_value CONTRADICTS = lit ''contradicts''"
| "relation_value CAUSES = lit ''causes''"

text \<open>The record type of a piece of evidence is knowledge or an episode.\<close>

record evidence_ref =
  vr_episode :: bool
  vr_id :: uid

definition record_type :: "bool \<Rightarrow> ustr" where
  "record_type episode = (if episode then lit ''episode'' else lit ''knowledge'')"

record relation_edge =
  ed_id :: ustr
  ed_kind :: relation_kind
  ed_source :: entity_ref
  ed_target :: entity_ref
  ed_record :: uid
  ed_evidence :: "evidence_ref list"
  ed_status :: relation_status
  ed_from :: int
  ed_until :: "int option"
  ed_note :: "ustr option"

text \<open>\<^verbatim>\<open>canonical_json\<close> of the objects that are fingerprinted, and the parts outside the program.\<close>

record relation_tables =
  rt_unicode :: unicode_tables
  rt_sha :: "ustr \<Rightarrow> ustr"
  rt_context_text :: "dict \<Rightarrow> ustr result"
  rt_ref_text :: "entity_ref \<Rightarrow> ustr"
  rt_link_text :: "ustr \<Rightarrow> ustr list \<Rightarrow> ustr"
  rt_bundle_text :: "relation_edge list \<Rightarrow> ustr"
  rt_json_text :: "json \<Rightarrow> ustr"
  rt_parse :: "json \<Rightarrow> relation_edge list result"

definition ref_key :: "relation_tables \<Rightarrow> entity_ref \<Rightarrow> ustr" where
  "ref_key T r = rt_sha T (rt_ref_text T r)"

definition bundle_digest :: "relation_tables \<Rightarrow> relation_edge list \<Rightarrow> ustr" where
  "bundle_digest T es = rt_sha T (rt_bundle_text T es)"

text \<open>The number of bytes of \<^verbatim>\<open>str.encode("utf-8")\<close>.\<close>

definition utf8_length :: "ustr \<Rightarrow> nat" where
  "utf8_length s = sum_list (map (\<lambda>c. if c < 128 then 1 else if c < 2048 then 2 else if c < 65536 then 3 else 4) s)"

definition label_ok :: "ustr \<Rightarrow> bool" where
  "label_ok s \<longleftrightarrow> 1 \<le> length s \<and> length s \<le> 256 \<and> py_strip s = s \<and> list_all (\<lambda>c. \<not> (c < 32 \<or> c = 127)) s"

definition scope_canonical :: "unicode_tables \<Rightarrow> identity_values \<Rightarrow> bool" where
  "scope_canonical U v \<longleftrightarrow> list_all (\<lambda>d. case v d of None \<Rightarrow> True | Some x \<Rightarrow> normalize_identifier U x = Inr x) dimension_order"

definition make_ref :: "relation_tables \<Rightarrow> entity_ref \<Rightarrow> entity_ref result" where
  "make_ref T r =
     (if \<not> list_all label_ok [ef_domain r, ef_topic r, ef_type r, ef_name r]
      then Inl (ValueError (lit ''entity identity must use exact canonical labels''))
      else case rt_context_text T (ef_context r) of
          Inl _ \<Rightarrow> Inl (ValueError (lit ''entity context must be finite JSON''))
        | Inr s \<Rightarrow>
            if 16384 < utf8_length s then Inl (ValueError (lit ''entity context exceeds 16384 bytes''))
            else if \<not> scope_canonical (rt_unicode T) (ef_scope r)
            then Inl (ValueError (lit ''relation scope must use canonical normalized identifiers''))
            else Inr r)"

subsection \<open>Edges and bundles\<close>

definition canonical_evidence :: "evidence_ref list \<Rightarrow> evidence_ref list" where
  "canonical_evidence es = sort_key (\<lambda>e. (record_type (vr_episode e), vr_id e)) (remdups es)"

definition link_id :: "relation_tables \<Rightarrow> relation_kind \<Rightarrow> entity_ref \<Rightarrow> entity_ref \<Rightarrow> ustr" where
  "link_id T kind source target =
     (let ends = [ref_key T source, ref_key T target]
      in rt_sha T (rt_link_text T (relation_value kind) (if kind = CONTRADICTS then sort ends else ends)))"

definition edge_time :: "timestamp \<Rightarrow> int result" where
  "edge_time t = (case t of Aware x \<Rightarrow> Inr x | Naive _ \<Rightarrow> Inl (ValueError (lit ''relation time requires an explicit timezone'')))"

text \<open>\<^verbatim>\<open>RelationEdge\<close> from its raw fields; a missing relation id is filled in.\<close>

record raw_edge =
  re_id :: "ustr option"
  re_kind :: relation_kind
  re_source :: entity_ref
  re_target :: entity_ref
  re_record :: uid
  re_evidence :: "evidence_ref list"
  re_status :: relation_status
  re_from :: timestamp
  re_until :: "timestamp option"
  re_note :: "ustr option"

definition make_edge :: "relation_tables \<Rightarrow> raw_edge \<Rightarrow> relation_edge result" where
  "make_edge T e =
     bindE (make_ref T (re_source e)) (\<lambda>source.
     bindE (make_ref T (re_target e)) (\<lambda>target.
     if re_evidence e = [] \<or> 32 < length (re_evidence e) then Inl (ValueError (lit ''evidence''))
     else bindE (edge_time (re_from e)) (\<lambda>valid_from.
     bindE (case re_until e of None \<Rightarrow> Inr None | Some t \<Rightarrow> bindE (edge_time t) (\<lambda>x. Inr (Some x))) (\<lambda>valid_until.
     if (case re_note e of None \<Rightarrow> False | Some n \<Rightarrow> n = [] \<or> 1000 < length n) then Inl (ValueError (lit ''review_note''))
     else if ref_key T source = ref_key T target then Inl (ValueError (lit ''self relations are not admitted''))
     else if ef_scope source \<noteq> ef_scope target then Inl (ValueError (lit ''cross-partition relations are not admitted''))
     else if (case valid_until of None \<Rightarrow> False | Some x \<Rightarrow> x \<le> valid_from)
     then Inl (ValueError (lit ''valid_until must follow valid_from''))
     else if re_status e \<noteq> R_PROPOSED \<and> py_strip (the_default [] (re_note e)) = []
     then Inl (ValueError (lit ''reviewed relations require a review note''))
     else if re_id e \<noteq> None \<and> re_id e \<noteq> Some (link_id T (re_kind e) source target)
     then Inl (ValueError (lit ''relation_id does not match canonical endpoints and kind''))
     else Inr \<lparr>ed_id = link_id T (re_kind e) source target, ed_kind = re_kind e, ed_source = source, ed_target = target,
            ed_record = re_record e, ed_evidence = canonical_evidence (re_evidence e), ed_status = re_status e,
            ed_from = valid_from, ed_until = valid_until, ed_note = re_note e\<rparr>))))"

definition make_bundle :: "relation_edge list \<Rightarrow> relation_edge list result" where
  "make_bundle es =
     (if 64 < length es then Inl (ValueError (lit ''edges''))
      else if 128 < length (remdups (concat (map ed_evidence es)))
      then Inl (ValueError (lit ''relation bundle exceeds 128 distinct evidence references''))
      else if \<not> distinct (map ed_id es) then Inl (ValueError (lit ''duplicate relation identity''))
      else Inr (sort_key ed_id es))"

definition bundle_from_extensions :: "relation_tables \<Rightarrow> dict \<Rightarrow> relation_edge list result" where
  "bundle_from_extensions T ext = (case ext relations_key of None \<Rightarrow> Inr [] | Some v \<Rightarrow> rt_parse T v)"

subsection \<open>Nodes and their projection\<close>

text \<open>
  A canonical payload as far as relations read it: a validated knowledge record, or an episode
  with its event time. \<open>nd_ordinary\<close>: its class is plain knowledge. Other payloads are known by their identity values only.
\<close>

record node =
  nd_id :: uid
  nd_episode :: bool
  nd_ref :: entity_ref
  nd_status :: knowledge_status
  nd_version :: int
  nd_created :: int
  nd_event :: int
  nd_recall :: bool
  nd_live :: bool
  nd_extensions :: dict
  nd_ordinary :: bool
  nd_content :: ustr

datatype relation_payload = Readable node | Illegible identity_values

type_synonym relation_point = "uid \<times> relation_payload"

definition unavailable :: exn where
  "unavailable = ConfigurationError (lit ''relation endpoint or evidence unavailable'')"

definition canonical_node :: "bool \<Rightarrow> relation_point \<Rightarrow> node result" where
  "canonical_node episode point =
     (case snd point of
        Illegible _ \<Rightarrow> Inl unavailable
      | Readable n \<Rightarrow> if nd_id n = fst point \<and> nd_episode n = episode then Inr n else Inl unavailable)"

definition projection :: "relation_tables \<Rightarrow> node \<Rightarrow> json result" where
  "projection T n =
     bindE (bundle_from_extensions T (nd_extensions n)) (\<lambda>edges.
       case make_ref T (nd_ref n) of
         Inl _ \<Rightarrow> if edges \<noteq> [] then Inl (ConfigurationError (lit ''relation owner identity is not indexable''))
                 else Inr (JObj [(lit ''schema_version'', JInt 1), (lit ''eligible'', JBool False)])
       | Inr owner \<Rightarrow>
           if list_ex (\<lambda>e. ref_key T (ed_source e) \<noteq> ref_key T owner) edges
           then Inl (ConfigurationError (lit ''relation source differs from canonical Knowledge identity''))
           else Inr (JObj [(lit ''schema_version'', JInt 1), (lit ''eligible'', JBool True), (lit ''owner_key'', JStr (ref_key T owner)),
              (lit ''target_keys'', JArr (map JStr (sort (remdups (map (\<lambda>e. ref_key T (ed_target e)) (filter (\<lambda>e. ed_status e = R_ACCEPTED) edges)))))),
              (lit ''bundle_digest'', JStr (bundle_digest T edges))]))"

definition verify_projection :: "relation_tables \<Rightarrow> node \<Rightarrow> unit result" where
  "verify_projection T n =
     bindE (projection T n) (\<lambda>v.
       if rt_json_text T (the_default JNull (nd_extensions n index_key)) \<noteq> rt_json_text T v
       then Inl (ConfigurationError (lit ''relation index is missing or inconsistent; rebuild required'')) else Inr ())"

definition stored_owner :: "node \<Rightarrow> ustr option" where
  "stored_owner n =
     (case nd_extensions n index_key of
        Some (JObj kvs) \<Rightarrow> Option.bind (map_of kvs (lit ''owner_key'')) json_text
      | _ \<Rightarrow> None)"

subsection \<open>Reads within scope and budget\<close>

datatype relation_condition =
    OfType bool
  | OrdinaryClass
  | WithIds "uid list"
  | CreatedBy int
  | ActiveOnly
  | Recallable
  | LifecycleActive
  | ClassEmpty
  | RecallEmpty
  | Partition identity_dimension "ustr option"
  | OwnedBy "ustr list"
  | Targets "ustr list"
  | AnyOf "relation_condition list"
  | Indexed
  | Authorized repo_condition

fun payload_identity :: "relation_payload \<Rightarrow> identity_values" where
  "payload_identity (Readable n) = ef_scope (nd_ref n)"
| "payload_identity (Illegible v) = v"

text \<open>The pages of the store: points, and whether more would follow.\<close>

type_synonym 's pages = "bool \<Rightarrow> relation_condition list \<Rightarrow> relation_condition list \<Rightarrow> nat \<Rightarrow> ('s, relation_point list \<times> bool) io"

record 's relation_index =
  ix_unicode :: unicode_tables
  ix_pages :: "'s pages"
  ix_background :: bool
  ix_verified :: bool

definition index_conditions :: "'s relation_index \<Rightarrow> caller_authority option \<Rightarrow> bool \<Rightarrow> repo_condition list result" where
  "index_conditions I ctx episode =
     (case ctx of
        None \<Rightarrow> Inl (ConfigurationError (lit ''relation reads require authenticated authority''))
      | Some c \<Rightarrow> bindE (enforce_operation (ix_unicode I) (Some c)
           (if ix_background I then BACKGROUND_EVIDENCE_READ else if episode then MEMORY_GET else KNOWLEDGE_GET) Map.empty) scope_conditions)"

text \<open>\<^verbatim>\<open>ReadBudget.charge\<close>: the state carries the calls used.\<close>

definition charge :: "nat \<Rightarrow> ('s \<times> nat, unit) io" where
  "charge maximum = (\<lambda>(s, used). if maximum \<le> used then (Inl (TraversalLimit (lit ''storage_calls'')), (s, used)) else (Inr (), (s, Suc used)))"

definition on_store :: "('s, 'a) io \<Rightarrow> ('s \<times> 'b, 'a) io" where
  "on_store m = (\<lambda>(s, b). case m s of (r, s') \<Rightarrow> (r, (s', b)))"

definition index_read :: "'s relation_index \<Rightarrow> caller_authority option \<Rightarrow> nat \<Rightarrow> bool \<Rightarrow> relation_condition list \<Rightarrow> relation_condition list
    \<Rightarrow> nat \<Rightarrow> bool \<Rightarrow> ('s \<times> nat, relation_point list) io" where
  "index_read I ctx maximum episode must must_not limit all_needed =
     bindS (liftS (index_conditions I ctx episode)) (\<lambda>scope.
     bindS (charge maximum) (\<lambda>_.
     bindS (on_store (ix_pages I episode (map Authorized scope @ must) must_not limit)) (\<lambda>(points, continues).
       if all_needed \<and> continues then raiseS (TraversalLimit (lit ''candidate_capacity'')) else returnS points)))"

definition knowledge_only :: "relation_condition list" where
  "knowledge_only = [OfType False, OrdinaryClass]"

definition require_ready :: "'s relation_index \<Rightarrow> caller_authority option \<Rightarrow> nat \<Rightarrow> ('s \<times> nat, unit) io" where
  "require_ready I ctx maximum =
     bindS (liftS (index_conditions I ctx False)) (\<lambda>_.
       if \<not> ix_verified I then raiseS (ConfigurationError (lit ''relation indexes have not been verified''))
       else bindS (index_read I ctx maximum False knowledge_only [Indexed] 1 False) (\<lambda>points.
         if points \<noteq> [] then raiseS (ConfigurationError (lit ''relation index is missing; rebuild required'')) else returnS ()))"

subsection \<open>Proposals and reviews\<close>

text \<open>What a proposal and a review make of the source's bundle, before it is stored.\<close>

definition add_proposal :: "relation_edge \<Rightarrow> relation_edge list \<Rightarrow> relation_edge list result" where
  "add_proposal e known =
     (case find (\<lambda>x. ed_id x = ed_id e) known of
        None \<Rightarrow> Inr (known @ [e])
      | Some x \<Rightarrow> if x \<noteq> e then Inl (ConflictError (lit ''proposal cannot replace an existing assertion'')) else Inr known)"

fun add_proposals :: "relation_edge list \<Rightarrow> relation_edge list \<Rightarrow> relation_edge list result" where
  "add_proposals [] known = Inr known"
| "add_proposals (e # es) known = bindE (add_proposal e known) (add_proposals es)"

definition propose_bundle :: "relation_edge list \<Rightarrow> relation_edge list \<Rightarrow> relation_edge list result" where
  "propose_bundle proposed previous =
     (if proposed = [] \<or> list_ex (\<lambda>e. ed_status e \<noteq> R_PROPOSED) proposed
      then Inl (ConfigurationError (lit ''proposal must contain only proposed assertions''))
      else bindE (add_proposals proposed previous) make_bundle)"

definition raw_of :: "relation_edge \<Rightarrow> raw_edge" where
  "raw_of e = \<lparr>re_id = Some (ed_id e), re_kind = ed_kind e, re_source = ed_source e, re_target = ed_target e, re_record = ed_record e,
     re_evidence = ed_evidence e, re_status = ed_status e, re_from = Aware (ed_from e), re_until = map_option Aware (ed_until e),
     re_note = ed_note e\<rparr>"

definition review_bundle :: "relation_tables \<Rightarrow> ustr \<Rightarrow> relation_status \<Rightarrow> ustr \<Rightarrow> relation_edge list \<Rightarrow> relation_edge list result" where
  "review_bundle T i status note previous =
     (if status \<noteq> R_ACCEPTED \<and> status \<noteq> R_REJECTED then Inl (ValueError (lit ''review status must be accepted or rejected''))
      else bindE (mapE (\<lambda>e. if ed_id e = i then make_edge T ((raw_of e)\<lparr>re_status := status, re_note := Some note\<rparr>) else Inr e) previous) (\<lambda>es.
        if \<not> list_ex (\<lambda>e. ed_id e = i) previous then Inl (ConfigurationError (lit ''relation assertion unavailable''))
        else make_bundle es))"

subsection \<open>Stored edges validate again\<close>

lemma sort_key_sorted: "sorted (map f xs) \<Longrightarrow> sort_key f xs = xs"
  by (induction xs) (auto simp: insort_is_Cons)

lemma canonical_evidence_idem: "canonical_evidence (canonical_evidence es) = canonical_evidence es"
proof -
  have "distinct (canonical_evidence es)" by (simp add: canonical_evidence_def)
  then have "canonical_evidence (canonical_evidence es) = sort_key (\<lambda>e. (record_type (vr_episode e), vr_id e)) (canonical_evidence es)"
    unfolding canonical_evidence_def [of "canonical_evidence es"] by (simp only: distinct_remdups_id)
  also have "\<dots> = canonical_evidence es" by (rule sort_key_sorted) (simp add: canonical_evidence_def)
  finally show ?thesis .
qed

lemma canonical_evidence_length: "canonical_evidence es = [] \<longleftrightarrow> es = []" "length (canonical_evidence es) \<le> length es"
proof -
  have "set (canonical_evidence es) = set es" by (simp add: canonical_evidence_def)
  then show "canonical_evidence es = [] \<longleftrightarrow> es = []" by (metis set_empty)
qed (simp add: canonical_evidence_def length_remdups_leq)

lemma make_ref_Inr: "make_ref T r = Inr r' \<Longrightarrow> r' = r"
  by (auto simp: make_ref_def split: if_splits sum.splits)

text \<open>What a validated edge is: the conditions of the two validators, on canonical fields.\<close>

definition edge_ok :: "relation_tables \<Rightarrow> relation_edge \<Rightarrow> bool" where
  "edge_ok T e \<longleftrightarrow> make_ref T (ed_source e) = Inr (ed_source e) \<and> make_ref T (ed_target e) = Inr (ed_target e)
     \<and> ed_evidence e \<noteq> [] \<and> length (ed_evidence e) \<le> 32 \<and> canonical_evidence (ed_evidence e) = ed_evidence e
     \<and> (case ed_note e of None \<Rightarrow> True | Some n \<Rightarrow> n \<noteq> [] \<and> length n \<le> 1000)
     \<and> ref_key T (ed_source e) \<noteq> ref_key T (ed_target e) \<and> ef_scope (ed_source e) = ef_scope (ed_target e)
     \<and> (case ed_until e of None \<Rightarrow> True | Some x \<Rightarrow> ed_from e < x)
     \<and> (ed_status e \<noteq> R_PROPOSED \<longrightarrow> py_strip (the_default [] (ed_note e)) \<noteq> [])
     \<and> ed_id e = link_id T (ed_kind e) (ed_source e) (ed_target e)"

lemma make_edge_ok:
  assumes "make_edge T x = Inr e"
  shows "edge_ok T e"
proof -
  obtain source target valid_from valid_until where r: "make_ref T (re_source x) = Inr source" "make_ref T (re_target x) = Inr target"
    and c: "\<not> (re_evidence x = [] \<or> 32 < length (re_evidence x))"
      "\<not> (case re_note x of None \<Rightarrow> False | Some n \<Rightarrow> n = [] \<or> 1000 < length n)" "ref_key T source \<noteq> ref_key T target"
      "ef_scope source = ef_scope target" "\<not> (case valid_until of None \<Rightarrow> False | Some x \<Rightarrow> x \<le> valid_from)"
      "\<not> (re_status x \<noteq> R_PROPOSED \<and> py_strip (the_default [] (re_note x)) = [])"
    and e: "e = \<lparr>ed_id = link_id T (re_kind x) source target, ed_kind = re_kind x, ed_source = source, ed_target = target,
            ed_record = re_record x, ed_evidence = canonical_evidence (re_evidence x), ed_status = re_status x,
            ed_from = valid_from, ed_until = valid_until, ed_note = re_note x\<rparr>"
    using assms unfolding make_edge_def bindE_eq_Inr by (auto split: if_splits)
  have "make_ref T source = Inr source" "make_ref T target = Inr target" using r make_ref_Inr by metis+
  moreover have "length (canonical_evidence (re_evidence x)) \<le> 32"
    using c(1) canonical_evidence_length(2) [of "re_evidence x"] by linarith
  ultimately show ?thesis using c
    by (auto simp: edge_ok_def e canonical_evidence_idem canonical_evidence_length(1) split: option.splits)
qed

lemma make_edge_reviewed:
  assumes "edge_ok T e" and "status \<noteq> R_PROPOSED"
  shows "make_edge T ((raw_of e)\<lparr>re_status := status, re_note := Some note\<rparr>) =
    (if note = [] \<or> 1000 < length note then Inl (ValueError (lit ''review_note''))
     else if py_strip note = [] then Inl (ValueError (lit ''reviewed relations require a review note''))
     else Inr (e\<lparr>ed_status := status, ed_note := Some note\<rparr>))"
  using assms by (cases "ed_until e") (auto simp: make_edge_def raw_of_def edge_ok_def edge_time_def)

text \<open>
  C35. A relation edge that was accepted by the validators is accepted again, as it is, when it is
  read back: its evidence stays canonical, its relation id matches its ends, and its times and its
  note pass.
\<close>

theorem edge_revalidates:
  assumes "make_edge T x = Inr e"
  shows "make_edge T (raw_of e) = Inr e"
proof -
  have "edge_ok T e" by (rule make_edge_ok [OF assms])
  then show ?thesis
    by (cases "ed_until e"; cases "ed_note e") (auto simp: make_edge_def raw_of_def edge_ok_def edge_time_def)
qed

subsection \<open>Proposals and reviews\<close>

lemma add_proposal_Inr:
  assumes "add_proposal e known = Inr es"
  shows "(es = known \<and> e \<in> set known) \<or> es = known @ [e]"
proof (cases "find (\<lambda>x. ed_id x = ed_id e) known")
  case (Some x)
  then have "x \<in> set known" by (auto simp: find_Some_iff)
  then show ?thesis using assms Some by (auto simp: add_proposal_def split: if_splits)
qed (use assms in \<open>simp add: add_proposal_def\<close>)

lemma add_proposals_Inr: "add_proposals es known = Inr after \<Longrightarrow> set es \<subseteq> set after \<and> (\<exists>zs. after = known @ zs \<and> set zs \<subseteq> set es)"
proof (induction es arbitrary: known)
  case (Cons e es)
  then obtain k where k: "add_proposal e known = Inr k" "add_proposals es k = Inr after" by auto
  with Cons.IH obtain zs where zs: "set es \<subseteq> set after" "after = k @ zs" "set zs \<subseteq> set es" by blast
  from add_proposal_Inr [OF k(1)] show ?case
  proof
    assume "k = known \<and> e \<in> set known"
    then show ?thesis using zs by auto
  next
    assume "k = known @ [e]"
    then show ?thesis using zs by auto
  qed
qed simp

lemma make_bundle_Inr: "make_bundle es = Inr b \<Longrightarrow> b = sort_key ed_id es \<and> distinct (map ed_id es)"
  by (auto simp: make_bundle_def split: if_splits)

text \<open>
  C36. What a review makes of a source's bundle: it succeeds only on an assertion that is there,
  with a status that settles it and a note that says something, and changes exactly the status and
  the note of that assertion; the bundle keeps every other edge as it was, in the order of the ids.
\<close>

theorem review_changes_one:
  assumes "list_all (\<lambda>e. \<exists>x. make_edge T x = Inr e) previous" and "review_bundle T i status note previous = Inr es"
  shows "status \<in> {R_ACCEPTED, R_REJECTED} \<and> py_strip note \<noteq> [] \<and> i \<in> ed_id ` set previous \<and> distinct (map ed_id es)
    \<and> es = sort_key ed_id (map (\<lambda>e. if ed_id e = i then e\<lparr>ed_status := status, ed_note := Some note\<rparr> else e) previous)"
proof -
  have st: "status \<in> {R_ACCEPTED, R_REJECTED}" using assms(2) by (auto simp: review_bundle_def split: if_splits)
  then have np: "status \<noteq> R_PROPOSED" by auto
  let ?f = "\<lambda>e. if ed_id e = i then make_edge T ((raw_of e)\<lparr>re_status := status, re_note := Some note\<rparr>) else Inr e"
  let ?g = "\<lambda>e. if ed_id e = i then e\<lparr>ed_status := status, ed_note := Some note\<rparr> else e"
  obtain ys where ys: "mapE ?f previous = Inr ys" and ex: "list_ex (\<lambda>e. ed_id e = i) previous" and b: "make_bundle ys = Inr es"
    using assms(2) st by (auto simp: review_bundle_def split: if_splits)
  obtain e where e: "e \<in> set previous" "ed_id e = i" using ex by (auto simp: list_ex_iff)
  have ok: "edge_ok T x" if "x \<in> set previous" for x using that assms(1) make_edge_ok unfolding list_all_iff by blast
  from mapE_ok [OF ys e(1)] e(2) obtain y where "make_edge T ((raw_of e)\<lparr>re_status := status, re_note := Some note\<rparr>) = Inr y" by auto
  then have says: "note \<noteq> [] \<and> length note \<le> 1000 \<and> py_strip note \<noteq> []"
    unfolding make_edge_reviewed [OF ok [OF e(1)] np] by (auto split: if_splits)
  then have "?f x = Inr (?g x)" if "x \<in> set previous" for x using make_edge_reviewed [OF ok [OF that] np] by simp
  then have "mapE ?f previous = Inr (map ?g previous)" by (rule mapE_Inr_map)
  then have "ys = map ?g previous" using ys by simp
  moreover have "distinct (map ed_id (sort_key ed_id ys))" if "distinct (map ed_id ys)"
    using that by (simp add: distinct_map)
  ultimately show ?thesis using make_bundle_Inr [OF b] st says e by auto
qed

text \<open>
  A proposal never settles anything: the bundle after it holds every edge it held before,
  unchanged, and beyond those only edges of the proposal, all merely proposed.
\<close>

theorem proposals_never_accept:
  assumes "propose_bundle proposed previous = Inr es"
  shows "set previous \<subseteq> set es \<and> list_all (\<lambda>e. e \<in> set previous \<or> e \<in> set proposed \<and> ed_status e = R_PROPOSED) es
    \<and> distinct (map ed_id es) \<and> filter (\<lambda>e. ed_status e = R_ACCEPTED) es = sort_key ed_id (filter (\<lambda>e. ed_status e = R_ACCEPTED) previous)"
proof -
  obtain after where p: "list_all (\<lambda>e. ed_status e = R_PROPOSED) proposed" and a: "add_proposals proposed previous = Inr after"
    and b: "make_bundle after = Inr es"
    using assms by (auto simp: propose_bundle_def list_all_iff list_ex_iff split: if_splits)
  obtain zs where zs: "set proposed \<subseteq> set after" "after = previous @ zs" "set zs \<subseteq> set proposed" using add_proposals_Inr [OF a] by blast
  have new: "ed_status e = R_PROPOSED" if "e \<in> set zs" for e using that zs(3) p by (auto simp: list_all_iff)
  then have "filter (\<lambda>e. ed_status e = R_ACCEPTED) zs = []" by (auto simp: filter_empty_conv)
  then have accepted: "filter (\<lambda>e. ed_status e = R_ACCEPTED) (sort_key ed_id after) = sort_key ed_id (filter (\<lambda>e. ed_status e = R_ACCEPTED) previous)"
    by (simp add: filter_sort zs(2))
  have es: "es = sort_key ed_id after" "distinct (map ed_id after)" using make_bundle_Inr [OF b] by simp_all
  have "distinct (map ed_id es)" using es by (simp add: distinct_map)
  with es(1) accepted zs new show ?thesis by (auto simp: list_all_iff)
qed

subsection \<open>Witnesses\<close>

text \<open>Two entities of one user, the first of which depends on the second.\<close>

definition example_ref :: "nat \<Rightarrow> entity_ref" where
  "example_ref k = \<lparr>ef_domain = [97], ef_topic = [97], ef_type = [97], ef_name = [k], ef_context = Map.empty,
     ef_scope = [TENANT \<mapsto> [97], USER \<mapsto> [98]]\<rparr>"

definition example_edge :: relation_edge where
  "example_edge = \<lparr>ed_id = relation_value DEPENDS_ON @ [97, 98], ed_kind = DEPENDS_ON, ed_source = example_ref 97, ed_target = example_ref 98,
     ed_record = [98], ed_evidence = [\<lparr>vr_episode = False, vr_id = [97]\<rparr>], ed_status = R_ACCEPTED, ed_from = 0, ed_until = None,
     ed_note = Some [97]\<rparr>"

definition example_relations :: relation_tables where
  "example_relations = \<lparr>rt_unicode = ascii_tables, rt_sha = id, rt_context_text = (\<lambda>_. Inr []), rt_ref_text = ef_name,
     rt_link_text = (\<lambda>k es. k @ concat es), rt_bundle_text = concat \<circ> map ed_id, rt_json_text = (\<lambda>_. []),
     rt_parse = (\<lambda>_. Inr [example_edge])\<rparr>"

lemma example_ref_keys [simp]: "ref_key example_relations (example_ref k) = [k]"
  by (simp add: ref_key_def example_relations_def example_ref_def)

lemma example_reference: "k \<in> {97, 98} \<Longrightarrow> make_ref example_relations (example_ref k) = Inr (example_ref k)"
proof -
  assume k: "k \<in> {97, 98}"
  have c: "normalize_identifier ascii_tables [97] = Inr [97]" "normalize_identifier ascii_tables [98] = Inr [98]"
    using canonical_id_ascii [of 97] canonical_id_ascii [of 98] by (simp_all add: canonical_id_def)
  have labels: "label_ok [97]" "label_ok [98]"
    by (simp_all add: label_ok_def py_strip_def py_lstrip_def py_rstrip_def py_space_def)
  have T: "rt_unicode example_relations = ascii_tables" "rt_context_text example_relations x = Inr []" for x
    by (simp_all add: example_relations_def)
  have scope: "scope_canonical ascii_tables (ef_scope (example_ref k))"
    by (simp add: scope_canonical_def dimension_order_def c example_ref_def)
  have "list_all label_ok [ef_domain (example_ref k), ef_topic (example_ref k), ef_type (example_ref k), ef_name (example_ref k)]"
    using k labels by (auto simp: example_ref_def)
  with scope show ?thesis by (simp add: make_ref_def T utf8_length_def)
qed

lemma example_scope_same: "ef_scope (example_ref k) = [TENANT \<mapsto> [97], USER \<mapsto> [98]]"
  by (simp add: example_ref_def)

lemma example_link: "link_id example_relations DEPENDS_ON (example_ref 97) (example_ref 98) = relation_value DEPENDS_ON @ [97, 98]"
  by (simp add: link_id_def Let_def) (simp add: example_relations_def)

lemma example_label: "py_strip [97] = [97]"
  by (simp add: py_strip_def py_lstrip_def py_rstrip_def py_space_def)

lemma example_edge_valid: "make_edge example_relations \<lparr>re_id = None, re_kind = DEPENDS_ON, re_source = example_ref 97, re_target = example_ref 98,
     re_record = [98], re_evidence = [\<lparr>vr_episode = False, vr_id = [97]\<rparr>, \<lparr>vr_episode = False, vr_id = [97]\<rparr>],
     re_status = s, re_from = Aware 0, re_until = None, re_note = Some [97]\<rparr> = Inr (example_edge\<lparr>ed_status := s\<rparr>)"
  by (simp add: make_edge_def example_reference edge_time_def example_scope_same example_label example_link canonical_evidence_def)
    (simp add: example_edge_def)

lemma edge_revalidates_witness: "make_edge example_relations (raw_of example_edge) = Inr example_edge"
  using edge_revalidates [OF example_edge_valid [of R_ACCEPTED]] by (simp add: example_edge_def)

lemma proposals_never_accept_witness:
  "propose_bundle [example_edge\<lparr>ed_status := R_PROPOSED\<rparr>] [] = Inr [example_edge\<lparr>ed_status := R_PROPOSED\<rparr>]
   \<and> filter (\<lambda>e. ed_status e = R_ACCEPTED) [example_edge\<lparr>ed_status := R_PROPOSED\<rparr>] = []"
proof -
  have run: "propose_bundle [example_edge\<lparr>ed_status := R_PROPOSED\<rparr>] [] = Inr [example_edge\<lparr>ed_status := R_PROPOSED\<rparr>]"
    by (simp add: propose_bundle_def add_proposal_def make_bundle_def example_edge_def)
  from proposals_never_accept [OF run] run show ?thesis by simp
qed

lemma review_changes_one_witness:
  "review_bundle example_relations (ed_id example_edge) R_ACCEPTED [97] [example_edge\<lparr>ed_status := R_PROPOSED\<rparr>] = Inr [example_edge]
   \<and> [example_edge] = sort_key ed_id (map (\<lambda>e. if ed_id e = ed_id example_edge then e\<lparr>ed_status := R_ACCEPTED, ed_note := Some [97]\<rparr> else e)
       [example_edge\<lparr>ed_status := R_PROPOSED\<rparr>])"
proof -
  have e: "edge_ok example_relations (example_edge\<lparr>ed_status := R_PROPOSED\<rparr>)" by (rule make_edge_ok [OF example_edge_valid])
  have run: "review_bundle example_relations (ed_id example_edge) R_ACCEPTED [97] [example_edge\<lparr>ed_status := R_PROPOSED\<rparr>] = Inr [example_edge]"
    by (simp add: review_bundle_def make_edge_reviewed [OF e] example_label make_bundle_def) (simp add: example_edge_def)
  have "list_all (\<lambda>e. \<exists>x. make_edge example_relations x = Inr e) [example_edge\<lparr>ed_status := R_PROPOSED\<rparr>]"
    using example_edge_valid [of R_PROPOSED] by auto
  from review_changes_one [OF this run] run show ?thesis by simp
qed

end
