(* ===== verification/Relation_Traversal.thy ===== *)
theory Relation_Traversal
  imports Relations
begin

text \<open>
  Bounded breadth-first search over reviewed relations, \<^verbatim>\<open>cyberbrain/relations/traversal.py\<close>. The
  search keeps its paths, the nodes and edges they use and the reasons why it was cut short; a
  read that exceeds its budget ends it with what has been found. Sets are lists without
  repetition.
\<close>

subsection \<open>Policy and results\<close>

datatype direction = OUT | IN | BOTH

record traversal_policy =
  tp_depth :: nat
  tp_max_nodes :: nat
  tp_max_edges :: nat
  tp_max_paths :: nat
  tp_max_calls :: nat
  tp_direction :: direction
  tp_kinds :: "relation_kind list"
  tp_as_of :: "int option"

definition make_traversal_policy :: "int \<Rightarrow> int \<Rightarrow> int \<Rightarrow> int \<Rightarrow> int \<Rightarrow> direction \<Rightarrow> relation_kind list \<Rightarrow> timestamp option
    \<Rightarrow> traversal_policy result" where
  "make_traversal_policy depth nodes edges paths calls direction kinds as_of =
     (if \<not> (1 \<le> depth \<and> depth \<le> 3) then Inl (ValueError (lit ''depth''))
      else if \<not> (1 \<le> nodes \<and> nodes \<le> 128) then Inl (ValueError (lit ''max_nodes''))
      else if \<not> (1 \<le> edges \<and> edges \<le> 256) then Inl (ValueError (lit ''max_edges''))
      else if \<not> (1 \<le> paths \<and> paths \<le> 512) then Inl (ValueError (lit ''max_paths''))
      else if \<not> (1 \<le> calls \<and> calls \<le> 32) then Inl (ValueError (lit ''max_storage_calls''))
      else bindE (case as_of of None \<Rightarrow> Inr None | Some (Aware t) \<Rightarrow> Inr (Some t)
                  | Some (Naive _) \<Rightarrow> Inl (ValueError (lit ''as_of requires a timezone''))) (\<lambda>t.
        Inr \<lparr>tp_depth = nat depth, tp_max_nodes = nat nodes, tp_max_edges = nat edges, tp_max_paths = nat paths,
          tp_max_calls = nat calls, tp_direction = direction, tp_kinds = kinds, tp_as_of = t\<rparr>))"

record step =
  sp_relation :: ustr
  sp_kind :: relation_kind
  sp_forward :: bool
  sp_owner :: uid
  sp_version :: int
  sp_record :: uid
  sp_evidence :: "evidence_ref list"
  sp_from :: int
  sp_until :: "int option"

record path =
  pa_keys :: "ustr list"
  pa_records :: "uid list"
  pa_steps :: "step list"

record search =
  ss_paths :: "path list"
  ss_nodes :: "ustr list"
  ss_edges :: "ustr list"
  ss_reasons :: "ustr list"

record traversal_result =
  tr_search :: search
  tr_calls :: nat
  tr_at :: int
  tr_historical :: bool

subsection \<open>What is eligible\<close>

definition evolution_state :: "node \<Rightarrow> ustr option" where
  "evolution_state n = Option.bind (nd_extensions n evolution_state_key) json_text"

definition unsettled :: "node \<Rightarrow> bool" where
  "unsettled n \<longleftrightarrow> evolution_state n \<in> {Some pending_activation, Some (lit ''aborted'')}"

definition eligible :: "int \<Rightarrow> node \<Rightarrow> bool" where
  "eligible at_time n \<longleftrightarrow> nd_recall n \<and> nd_live n \<and> nd_created n \<le> at_time
     \<and> (nd_episode n \<or> nd_status n \<in> {K_ACTIVE, K_SUPERSEDED} \<and> \<not> unsettled n)"

definition edge_holds :: "traversal_policy \<Rightarrow> int \<Rightarrow> relation_edge \<Rightarrow> bool" where
  "edge_holds P at_time e \<longleftrightarrow> ed_status e = R_ACCEPTED \<and> ed_kind e \<in> set (tp_kinds P) \<and> ed_from e \<le> at_time
     \<and> (case ed_until e of None \<Rightarrow> True | Some t \<Rightarrow> at_time < t)"

definition follows_out :: "traversal_policy \<Rightarrow> relation_edge \<Rightarrow> bool" where
  "follows_out P e \<longleftrightarrow> tp_direction P \<noteq> IN \<or> ed_kind e = CONTRADICTS"

definition follows_in :: "traversal_policy \<Rightarrow> relation_edge \<Rightarrow> bool" where
  "follows_in P e \<longleftrightarrow> tp_direction P \<noteq> OUT \<or> ed_kind e = CONTRADICTS"

definition touches :: "relation_tables \<Rightarrow> traversal_policy \<Rightarrow> ustr list \<Rightarrow> relation_edge \<Rightarrow> bool" where
  "touches T P keys e \<longleftrightarrow> (ref_key T (ed_source e) \<in> set keys \<and> follows_out P e) \<or> (ref_key T (ed_target e) \<in> set keys \<and> follows_in P e)"

text \<open>The edges an owner asserts that matter here; its projection must be intact.\<close>

definition claims_of :: "relation_tables \<Rightarrow> traversal_policy \<Rightarrow> int \<Rightarrow> ustr list \<Rightarrow> relation_point
    \<Rightarrow> (node \<times> relation_edge) list result" where
  "claims_of T P at_time keys point =
     bindE (canonical_node False point) (\<lambda>n.
     bindE (verify_projection T n) (\<lambda>_.
       if \<not> eligible at_time n then Inr []
       else bindE (bundle_from_extensions T (nd_extensions n)) (\<lambda>edges.
         Inr (map (Pair n) (filter (\<lambda>e. edge_holds P at_time e \<and> touches T P keys e) edges)))))"

subsection \<open>The heads of entities\<close>

definition head_entry :: "relation_tables \<Rightarrow> int \<Rightarrow> relation_point \<Rightarrow> (ustr \<times> node) option result" where
  "head_entry T at_time point =
     bindE (canonical_node False point) (\<lambda>n.
     bindE (verify_projection T n) (\<lambda>_.
       case make_ref T (nd_ref n) of
         Inl _ \<Rightarrow> Inr None
       | Inr r \<Rightarrow> if at_time < nd_created n \<or> unsettled n then Inr None else Inr (Some (ref_key T r, n))))"

definition head_of :: "traversal_policy \<Rightarrow> node list \<Rightarrow> node option result" where
  "head_of P members =
     (let candidates = (case tp_as_of P of
            Some _ \<Rightarrow> filter (\<lambda>n. list_all (\<lambda>m. nd_version m \<le> nd_version n) members) members
          | None \<Rightarrow> filter (\<lambda>n. nd_status n = K_ACTIVE) members)
      in case candidates of
           [] \<Rightarrow> Inr None
         | [n] \<Rightarrow> Inr (if nd_status n \<in> {K_ACTIVE, K_SUPERSEDED} then Some n else None)
         | _ \<Rightarrow> Inl (ConfigurationError (lit ''ambiguous relation entity head'')))"

definition head_map :: "relation_tables \<Rightarrow> traversal_policy \<Rightarrow> int \<Rightarrow> relation_point list \<Rightarrow> (ustr \<times> node) list result" where
  "head_map T P at_time points =
     bindE (mapE (head_entry T at_time) points) (\<lambda>found.
       let entries = List.map_filter id found
       in bindE (mapE (\<lambda>k. bindE (head_of P (map snd (filter (\<lambda>x. fst x = k) entries))) (\<lambda>h. Inr (map_option (Pair k) h)))
            (fromkeys (map fst entries))) (\<lambda>heads. Inr (List.map_filter id heads)))"

subsection \<open>Following edges\<close>

record level_view =
  lv_heads :: "ustr \<rightharpoonup> node"
  lv_knowledge :: "uid \<rightharpoonup> node"
  lv_episodes :: "uid \<rightharpoonup> node"

definition same_scope :: "identity_values \<Rightarrow> node \<Rightarrow> bool" where
  "same_scope scope n \<longleftrightarrow> list_all (\<lambda>d. (d = SESSION \<and> scope d = None) \<or> ef_scope (nd_ref n) d = scope d) dimension_order"

definition proof_holds :: "int \<Rightarrow> identity_values \<Rightarrow> level_view \<Rightarrow> evidence_ref \<Rightarrow> bool" where
  "proof_holds at_time scope L v =
     (case (if vr_episode v then lv_episodes L else lv_knowledge L) (vr_id v) of
        None \<Rightarrow> False
      | Some n \<Rightarrow> eligible at_time n \<and> (vr_episode v \<longrightarrow> nd_event n \<le> at_time) \<and> same_scope scope n)"

definition make_step :: "node \<Rightarrow> relation_edge \<Rightarrow> bool \<Rightarrow> step" where
  "make_step owner e forward =
     \<lparr>sp_relation = ed_id e, sp_kind = ed_kind e, sp_forward = forward, sp_owner = nd_id owner, sp_version = nd_version owner,
      sp_record = ed_record e, sp_evidence = ed_evidence e, sp_from = ed_from e, sp_until = ed_until e\<rparr>"

text \<open>A transition: where it starts, where it ends, the record there and the step.\<close>

type_synonym transition = "ustr \<times> ustr \<times> uid \<times> step"

definition transitions :: "relation_tables \<Rightarrow> traversal_policy \<Rightarrow> int \<Rightarrow> identity_values \<Rightarrow> level_view \<Rightarrow> node \<times> relation_edge
    \<Rightarrow> transition list" where
  "transitions T P at_time scope L claim =
     (case claim of (owner, e) \<Rightarrow>
        let s = ref_key T (ed_source e); t = ref_key T (ed_target e) in
        case (lv_heads L s, lv_heads L t) of
          (Some source, Some target) \<Rightarrow>
            if nd_id source \<noteq> nd_id owner \<or> nd_id target \<noteq> ed_record e \<or> \<not> eligible at_time source \<or> \<not> eligible at_time target
               \<or> \<not> list_all (proof_holds at_time scope L) (ed_evidence e)
            then []
            else (if follows_out P e then [(s, t, nd_id target, make_step owner e True)] else [])
               @ (if follows_in P e then [(t, s, nd_id source, make_step owner e False)] else [])
        | _ \<Rightarrow> [])"

definition add_reason :: "string \<Rightarrow> search \<Rightarrow> search" where
  "add_reason r S = S\<lparr>ss_reasons := List.insert (lit r) (ss_reasons S)\<rparr>"

definition extend_path :: "traversal_policy \<Rightarrow> path \<Rightarrow> transition \<Rightarrow> search \<times> path list \<Rightarrow> search \<times> path list" where
  "extend_path P p t acc =
     (case t of (_, goal, endpoint, st) \<Rightarrow> case acc of (S, next) \<Rightarrow>
        if goal \<in> set (pa_keys p) then (S, next)
        else if goal \<notin> set (ss_nodes S) \<and> tp_max_nodes P \<le> length (ss_nodes S) then (add_reason ''nodes'' S, next)
        else if sp_relation st \<notin> set (ss_edges S) \<and> tp_max_edges P \<le> length (ss_edges S) then (add_reason ''edges'' S, next)
        else if tp_max_paths P \<le> length (ss_paths S) then (add_reason ''paths'' S, next)
        else let q = \<lparr>pa_keys = pa_keys p @ [goal], pa_records = pa_records p @ [endpoint], pa_steps = pa_steps p @ [st]\<rparr>
             in (S\<lparr>ss_paths := ss_paths S @ [q], ss_nodes := List.insert goal (ss_nodes S),
                   ss_edges := List.insert (sp_relation st) (ss_edges S)\<rparr>, next @ [q]))"

definition follow_path :: "traversal_policy \<Rightarrow> int \<Rightarrow> level_view \<Rightarrow> transition list \<Rightarrow> path \<Rightarrow> search \<times> path list \<Rightarrow> search \<times> path list" where
  "follow_path P at_time L ts p acc =
     (case lv_heads L (last (pa_keys p)) of
        None \<Rightarrow> acc
      | Some h \<Rightarrow>
          if nd_id h \<noteq> last (pa_records p) \<or> \<not> eligible at_time h then acc
          else fold (extend_path P p) (sort_key (\<lambda>(_, goal, _, st). (goal, sp_relation st)) (filter (\<lambda>t. fst t = last (pa_keys p)) ts)) acc)"

subsection \<open>One level\<close>

definition partition :: "identity_values \<Rightarrow> bool \<Rightarrow> relation_condition list" where
  "partition scope session = map (\<lambda>d. Partition d (scope d)) (filter (\<lambda>d. d \<noteq> SESSION \<or> session) dimension_order)"

record traverser =
  tv_tables :: relation_tables
  tv_policy :: traversal_policy
  tv_caller :: "caller_authority option"
  tv_at :: int
  tv_scope :: identity_values

definition level_read :: "'s relation_index \<Rightarrow> traverser \<Rightarrow> bool \<Rightarrow> relation_condition list \<Rightarrow> ('s \<times> nat, relation_point list) io" where
  "level_read I V episode must = index_read I (tv_caller V) (tp_max_calls (tv_policy V)) episode must [] 256 True"

definition time_conditions :: "traverser \<Rightarrow> relation_condition list" where
  "time_conditions V = [CreatedBy (tv_at V)]"

definition current_conditions :: "traversal_policy \<Rightarrow> relation_condition list" where
  "current_conditions P = (if tp_as_of P \<noteq> None then [] else [ActiveOnly])"

definition owner_keys :: "relation_tables \<Rightarrow> (node \<times> relation_edge) list \<Rightarrow> ustr list" where
  "owner_keys T claims = concat (map (\<lambda>(_, e). [ref_key T (ed_source e), ref_key T (ed_target e)]) claims)"

definition proof_ids :: "bool \<Rightarrow> (node \<times> relation_edge) list \<Rightarrow> uid list" where
  "proof_ids episode claims = sort (remdups (map vr_id (filter (\<lambda>v. vr_episode v = episode) (concat (map (\<lambda>(_, e). ed_evidence e) claims)))))"

definition node_map :: "bool \<Rightarrow> relation_point list \<Rightarrow> (uid \<rightharpoonup> node) result" where
  "node_map episode points = bindE (mapE (canonical_node episode) points) (\<lambda>ns. Inr (map_of (rev (map (\<lambda>n. (nd_id n, n)) ns))))"

definition read_view :: "'s relation_index \<Rightarrow> traverser \<Rightarrow> ustr list \<Rightarrow> (node \<times> relation_edge) list \<Rightarrow> ('s \<times> nat, level_view) io" where
  "read_view I V keys claims =
     (let T = tv_tables V; scope = tv_scope V; head_keys = sort (remdups (keys @ owner_keys T claims));
          proofs = partition scope (scope SESSION \<noteq> None)
      in bindS (level_read I V False (knowledge_only @ proofs @ time_conditions V
             @ [AnyOf ([OwnedBy head_keys] @ (if proof_ids False claims \<noteq> [] then [WithIds (proof_ids False claims)] else []))])) (\<lambda>records.
         bindS (liftS (node_map False records)) (\<lambda>knowledge.
         bindS (liftS (head_map T (tv_policy V) (tv_at V)
             (filter (\<lambda>x. case snd x of Readable n \<Rightarrow> (case stored_owner n of Some k \<Rightarrow> k \<in> set head_keys | None \<Rightarrow> False) | Illegible _ \<Rightarrow> False) records))) (\<lambda>heads.
         bindS (if proof_ids True claims = [] then returnS Map.empty
                else bindS (level_read I V True (proofs @ [OfType True, WithIds (proof_ids True claims)])) (\<lambda>points.
                  liftS (node_map True points))) (\<lambda>episodes.
           returnS \<lparr>lv_heads = map_of heads, lv_knowledge = knowledge, lv_episodes = episodes\<rparr>)))))"

definition search_level :: "'s relation_index \<Rightarrow> traverser \<Rightarrow> path list \<Rightarrow> search \<Rightarrow> ('s \<times> nat, search \<times> path list) io" where
  "search_level I V frontier S =
     (let T = tv_tables V; P = tv_policy V; keys = sort (remdups (map (\<lambda>p. last (pa_keys p)) frontier))
      in bindS (level_read I V False (knowledge_only @ partition (tv_scope V) True @ time_conditions V @ current_conditions P
             @ [AnyOf [OwnedBy keys, Targets keys]])) (\<lambda>owners.
         bindS (liftS (mapE (claims_of T P (tv_at V) keys) owners)) (\<lambda>found.
         bindS (read_view I V keys (concat found)) (\<lambda>L.
           returnS (fold (follow_path P (tv_at V) L (concat (map (transitions T P (tv_at V) (tv_scope V) L) (concat found)))) frontier (S, []))))))"

text \<open>
  The loop over the levels. A \<^verbatim>\<open>TraversalLimit\<close> leaves the search as it was before its level,
  for paths are added only after the reads of a level.
\<close>

primrec search_levels :: "'s relation_index \<Rightarrow> traverser \<Rightarrow> nat \<Rightarrow> path list \<Rightarrow> search \<Rightarrow> 's \<times> nat \<Rightarrow> search result \<times> ('s \<times> nat)" where
  "search_levels I V 0 frontier S w = (Inr S, w)"
| "search_levels I V (Suc n) frontier S w =
     (if frontier = [] then (Inr S, w)
      else case search_level I V frontier S w of
          (Inl (TraversalLimit m), w') \<Rightarrow> (Inr (S\<lparr>ss_reasons := List.insert m (ss_reasons S)\<rparr>), w')
        | (Inl e, w') \<Rightarrow> (Inl e, w')
        | (Inr (S', next), w') \<Rightarrow>
            search_levels I V n next (if n = 0 \<and> next \<noteq> [] then add_reason ''depth'' S' else S') w')"

subsection \<open>Traversal\<close>

definition empty_search :: search where
  "empty_search = \<lparr>ss_paths = [], ss_nodes = [], ss_edges = [], ss_reasons = []\<rparr>"

definition resolve_time :: "traversal_policy \<Rightarrow> int \<Rightarrow> int result" where
  "resolve_time P now =
     (case tp_as_of P of
        None \<Rightarrow> Inr now
      | Some t \<Rightarrow> if t \<le> now then Inr t
          else if t - now \<le> 3600000000 then Inr now
          else Inl (ValueError (lit ''as_of cannot be in the future'')))"

definition seed_path :: "relation_tables \<Rightarrow> entity_ref \<times> node \<Rightarrow> path" where
  "seed_path T x = \<lparr>pa_keys = [ref_key T (fst x)], pa_records = [nd_id (snd x)], pa_steps = []\<rparr>"

text \<open>The seeds with their references, all of one partition.\<close>

definition check_seeds :: "relation_tables \<Rightarrow> int \<Rightarrow> uid list \<Rightarrow> relation_point list \<Rightarrow> (entity_ref \<times> node) list result" where
  "check_seeds T at_time ids points =
     bindE (mapE (canonical_node False) points) (\<lambda>seeds.
       if set (map nd_id seeds) \<noteq> set ids \<or> \<not> list_all (eligible at_time) seeds
       then Inl (ConfigurationError (lit ''relation seed unavailable''))
       else bindE (mapE (\<lambda>n. make_ref T (nd_ref n)) seeds) (\<lambda>refs.
         if length (remdups (map (\<lambda>r. map (ef_scope r) dimension_order) refs)) \<noteq> 1
         then Inl (ConfigurationError (lit ''relation seeds must share one partition''))
         else bindE (mapE (verify_projection T) seeds) (\<lambda>_. Inr (zip refs seeds))))"

definition read_seeds :: "'s relation_index \<Rightarrow> relation_tables \<Rightarrow> traversal_policy \<Rightarrow> caller_authority option \<Rightarrow> int \<Rightarrow> uid list
    \<Rightarrow> ('s \<times> nat, (entity_ref \<times> node) list) io" where
  "read_seeds I T P ctx at_time ids =
     bindS (require_ready I ctx (tp_max_calls P)) (\<lambda>_.
     bindS (index_read I ctx (tp_max_calls P) False (knowledge_only @ [WithIds ids, CreatedBy at_time] @ current_conditions P) [] 256 True) (\<lambda>points.
       liftS (check_seeds T at_time ids points)))"

definition explore :: "'s relation_index \<Rightarrow> relation_tables \<Rightarrow> traversal_policy \<Rightarrow> caller_authority option \<Rightarrow> int \<Rightarrow> uid list
    \<Rightarrow> 's \<times> nat \<Rightarrow> search result \<times> ('s \<times> nat)" where
  "explore I T P ctx at_time ids w =
     (case read_seeds I T P ctx at_time ids w of
        (Inl (TraversalLimit m), w') \<Rightarrow> (Inr (empty_search\<lparr>ss_reasons := [m]\<rparr>), w')
      | (Inl e, w') \<Rightarrow> (Inl e, w')
      | (Inr seeds, w') \<Rightarrow>
          search_levels I \<lparr>tv_tables = T, tv_policy = P, tv_caller = ctx, tv_at = at_time, tv_scope = ef_scope (fst (hd seeds))\<rparr>
            (tp_depth P) (map (seed_path T) seeds)
            (empty_search\<lparr>ss_nodes := remdups (map (\<lambda>x. ref_key T (fst x)) seeds)\<rparr>) w')"

definition traverse :: "'s relation_index \<Rightarrow> relation_tables \<Rightarrow> traversal_policy \<Rightarrow> caller_authority option \<Rightarrow> int \<Rightarrow> uid list
    \<Rightarrow> ('s, traversal_result) io" where
  "traverse I T P ctx now seed_ids s =
     (if seed_ids = [] \<or> tp_max_nodes P < length seed_ids
      then (Inl (ValueError (lit ''seed count must be within node budget'')), s)
      else case resolve_time P now of
          Inl e \<Rightarrow> (Inl e, s)
        | Inr t \<Rightarrow>
            (case explore I T P ctx t (sort (remdups seed_ids)) (s, 0) of
               (Inl e, (s', _)) \<Rightarrow> (Inl e, s')
             | (Inr S, (s', used)) \<Rightarrow>
                 (Inr \<lparr>tr_search = S\<lparr>ss_reasons := sort (ss_reasons S)\<rparr>, tr_calls = used, tr_at = t, tr_historical = tp_as_of P \<noteq> None\<rparr>, s')))"

subsection \<open>What the search promises\<close>

text \<open>
  The law of the store: a page holds points of distinct ids that meet the conditions of the
  query on identity values and ids.
\<close>

fun selected :: "relation_condition \<Rightarrow> relation_point \<Rightarrow> bool" where
  "selected (Authorized k) x = payload_match k (payload_identity (snd x))"
| "selected (Partition d v) x = (payload_identity (snd x) d = v)"
| "selected (WithIds js) x = (fst x \<in> set js)"
| "selected _ x = True"

definition pages_ok :: "'s relation_index \<Rightarrow> bool" where
  "pages_ok I \<longleftrightarrow> (\<forall>episode must must_not n s xs more s'. ix_pages I episode must must_not n s = (Inr (xs, more), s') \<longrightarrow>
     distinct (map fst xs) \<and> list_all (\<lambda>k. list_all (selected k) xs) must)"

text \<open>
  What a store has answered. \<open>trail\<close> reads off the state the pages answered so far, whatever they
  were; this restricts no store, for \<open>recorded\<close> adds such a record to any of them.
\<close>

definition page_points :: "(relation_point list \<times> bool) result \<Rightarrow> relation_point list" where
  "page_points r = (case r of Inl _ \<Rightarrow> [] | Inr (xs, _) \<Rightarrow> xs)"

type_synonym 's page_trail = "'s \<Rightarrow> relation_point list list"

definition logs_pages :: "'s relation_index \<Rightarrow> 's page_trail \<Rightarrow> bool" where
  "logs_pages I trail \<longleftrightarrow> (\<forall>episode must must_not n s r s'. ix_pages I episode must must_not n s = (r, s') \<longrightarrow>
     trail s' = trail s @ [page_points r])"

definition recorded :: "'s relation_index \<Rightarrow> ('s \<times> relation_point list list) relation_index" where
  "recorded I = \<lparr>ix_unicode = ix_unicode I,
     ix_pages = (\<lambda>episode must must_not n (s, pages). case ix_pages I episode must must_not n s of (r, s') \<Rightarrow> (r, (s', pages @ [page_points r]))),
     ix_background = ix_background I, ix_verified = ix_verified I\<rparr>"

lemma recorded_logs: "logs_pages (recorded I) snd" "pages_ok I \<Longrightarrow> pages_ok (recorded I)"
  unfolding logs_pages_def pages_ok_def recorded_def by (auto split: prod.splits) blast+

text \<open>The points of the pages answered from the \<open>k\<close>-th on.\<close>

definition since :: "nat \<Rightarrow> 's page_trail \<Rightarrow> 's \<times> nat \<Rightarrow> relation_point set" where
  "since k trail w = set (concat (drop k (trail (fst w))))"

text \<open>
  A record that counts at a time, an assertion that does, and the directions a policy allows, said
  without the code's own tests.
\<close>

definition counts_at :: "int \<Rightarrow> node \<Rightarrow> bool" where
  "counts_at t n \<longleftrightarrow> nd_recall n \<and> nd_live n \<and> nd_created n \<le> t
     \<and> (\<not> nd_episode n \<longrightarrow> (nd_status n = K_ACTIVE \<or> nd_status n = K_SUPERSEDED) \<and> \<not> unsettled n)"

definition asserted_at :: "int \<Rightarrow> relation_edge \<Rightarrow> bool" where
  "asserted_at t e \<longleftrightarrow> ed_status e = R_ACCEPTED \<and> ed_from e \<le> t \<and> (\<forall>u. ed_until e = Some u \<longrightarrow> t < u)"

definition allowed_way :: "direction \<Rightarrow> relation_kind \<Rightarrow> bool \<Rightarrow> bool" where
  "allowed_way d k forward \<longleftrightarrow> k = CONTRADICTS \<or> d = BOTH \<or> d = (if forward then OUT else IN)"

text \<open>
  A node that was read, that the caller may see and that counts at the time, in the partition of
  the seeds. \<open>S\<close> is what has been read.
\<close>

definition permitted :: "relation_point set \<Rightarrow> caller_authority \<Rightarrow> int \<Rightarrow> identity_values \<Rightarrow> node \<Rightarrow> bool" where
  "permitted S c t scope n \<longleftrightarrow> (nd_id n, Readable n) \<in> S \<and> counts_at t n \<and> inside c (ef_scope (nd_ref n)) \<and> same_scope scope n"

definition evidenced :: "relation_point set \<Rightarrow> caller_authority \<Rightarrow> int \<Rightarrow> identity_values \<Rightarrow> relation_edge \<Rightarrow> bool" where
  "evidenced S c t scope e \<longleftrightarrow> list_all (\<lambda>v. \<exists>n. nd_id n = vr_id v \<and> nd_episode n = vr_episode v \<and> permitted S c t scope n
     \<and> (vr_episode v \<longrightarrow> nd_event n \<le> t)) (ed_evidence e)"

text \<open>
  A step from one entity to the next is an edge of an intact bundle of an admitted owner, accepted,
  valid and of an allowed kind, followed in an allowed direction, whose ends are the owner and the
  admitted head of the target with the recorded id, which is active unless the traversal is
  historical, and all of whose evidence is admitted; owner, target and evidence were read.
\<close>

definition justified :: "relation_tables \<Rightarrow> traversal_policy \<Rightarrow> relation_point set \<Rightarrow> caller_authority \<Rightarrow> int \<Rightarrow> identity_values
    \<Rightarrow> ustr \<Rightarrow> uid \<Rightarrow> ustr \<Rightarrow> uid \<Rightarrow> step \<Rightarrow> bool" where
  "justified T P S c t scope here i there j st \<longleftrightarrow> (\<exists>owner target es e.
     permitted S c t scope owner \<and> permitted S c t scope target \<and> verify_projection T owner = Inr ()
     \<and> bundle_from_extensions T (nd_extensions owner) = Inr es \<and> e \<in> set es \<and> asserted_at t e \<and> ed_kind e \<in> set (tp_kinds P)
     \<and> allowed_way (tp_direction P) (ed_kind e) (sp_forward st)
     \<and> nd_id target = ed_record e \<and> ref_key T (nd_ref target) = ref_key T (ed_target e)
     \<and> (tp_as_of P = None \<longrightarrow> nd_status target = K_ACTIVE) \<and> evidenced S c t scope e \<and> st = make_step owner e (sp_forward st)
     \<and> (if sp_forward st
         then here = ref_key T (ed_source e) \<and> i = nd_id owner \<and> there = ref_key T (ed_target e) \<and> j = nd_id target
         else here = ref_key T (ed_target e) \<and> i = nd_id target \<and> there = ref_key T (ed_source e) \<and> j = nd_id owner))"

text \<open>The paths a search may report, as a specification of its own.\<close>

inductive walk :: "relation_tables \<Rightarrow> traversal_policy \<Rightarrow> relation_point set \<Rightarrow> caller_authority \<Rightarrow> int \<Rightarrow> identity_values \<Rightarrow> uid list
    \<Rightarrow> ustr list \<Rightarrow> uid list \<Rightarrow> step list \<Rightarrow> bool"
  for T P S c t scope ids where
  start: "nd_id n \<in> set ids \<Longrightarrow> permitted S c t scope n \<Longrightarrow> walk T P S c t scope ids [ref_key T (nd_ref n)] [nd_id n] []"
| follow: "walk T P S c t scope ids ks rs sts \<Longrightarrow> justified T P S c t scope (last ks) (last rs) k i st \<Longrightarrow> k \<notin> set ks
    \<Longrightarrow> walk T P S c t scope ids (ks @ [k]) (rs @ [i]) (sts @ [st])"

lemma permitted_mono: "permitted S c t scope n \<Longrightarrow> S \<subseteq> S' \<Longrightarrow> permitted S' c t scope n"
  by (auto simp: permitted_def)

lemma evidenced_mono: "evidenced S c t scope e \<Longrightarrow> S \<subseteq> S' \<Longrightarrow> evidenced S' c t scope e"
  unfolding evidenced_def list_all_iff using permitted_mono by meson

lemma justified_mono:
  assumes "justified T P S c t scope here i there j st" and "S \<subseteq> S'"
  shows "justified T P S' c t scope here i there j st"
  using assms(1) permitted_mono [OF _ assms(2)] evidenced_mono [OF _ assms(2)] unfolding justified_def
  by (elim exE conjE) (intro exI conjI, assumption+ | blast+)

lemma walk_mono: "walk T P S c t scope ids ks rs sts \<Longrightarrow> S \<subseteq> S' \<Longrightarrow> walk T P S' c t scope ids ks rs sts"
  by (induction rule: walk.induct) (auto intro: walk.intros permitted_mono justified_mono)

lemma walk_simple: "walk T P S c t scope ids ks rs sts \<Longrightarrow> distinct ks \<and> length rs = length ks \<and> length ks = Suc (length sts)"
  by (induction rule: walk.induct) auto

subsection \<open>Reads\<close>

lemma returnS_Inr: "returnS x s = (Inr y, s') \<longleftrightarrow> y = x \<and> s' = s"
  by (auto simp: returnS_def)

lemma index_conditions_inside:
  assumes "nfc_stable (ix_unicode I)" and "caller_wf (ix_unicode I) c" and "index_conditions I (Some c) episode = Inr ks"
    and "\<forall>k \<in> set ks. payload_match k v"
  shows "inside c v"
proof -
  let ?op = "if ix_background I then BACKGROUND_EVIDENCE_READ else if episode then MEMORY_GET else KNOWLEDGE_GET"
  obtain plan where plan: "enforce_operation (ix_unicode I) (Some c) ?op Map.empty = Inr plan" "scope_conditions plan = Inr ks"
    using assms(3) by (auto simp: index_conditions_def)
  have "os_storage_filter (operation_specs ?op)" by (simp add: mk_spec_def)
  from read_selects_inside [OF assms(1,2) keyword_match_payload plan(1) this plan(2) assms(4)] show ?thesis .
qed

lemma index_read_points:
  assumes "nfc_stable (ix_unicode I)" and "caller_wf (ix_unicode I) c" and "pages_ok I"
    and "index_read I (Some c) m episode must must_not n b w = (Inr xs, w')"
  shows "distinct (map fst xs) \<and> list_all (\<lambda>x. inside c (payload_identity (snd x)) \<and> list_all (\<lambda>k. selected k x) must) xs"
proof -
  obtain ks more w1 where ks: "index_conditions I (Some c) episode = Inr ks"
    and pages: "on_store (ix_pages I episode (map Authorized ks @ must) must_not n) w1 = (Inr (xs, more), w')"
    using assms(4) by (auto simp: index_read_def bindS_Inr returnS_def raiseS_def split: if_splits)
  obtain s s' where "ix_pages I episode (map Authorized ks @ must) must_not n s = (Inr (xs, more), s')"
    using pages by (auto simp: on_store_def split: prod.splits)
  then have d: "distinct (map fst xs)" and all: "list_all (\<lambda>k. list_all (selected k) xs) (map Authorized ks @ must)"
    using assms(3) unfolding pages_ok_def by blast+
  have "inside c (payload_identity (snd x))" if x: "x \<in> set xs" for x
  proof -
    have "selected (Authorized k) x" if "k \<in> set ks" for k
    proof -
      have "Authorized k \<in> set (map Authorized ks @ must)" using that by simp
      with all x show ?thesis unfolding list_all_iff by blast
    qed
    then show ?thesis using index_conditions_inside [OF assms(1,2) ks] by simp
  qed
  with d all show ?thesis by (auto simp: list_all_iff)
qed

text \<open>What a computation does to the trail and to the number of calls: as many pages, as many calls.\<close>

definition tallies :: "'s page_trail \<Rightarrow> ('s \<times> nat, 'a) io \<Rightarrow> bool" where
  "tallies trail f \<longleftrightarrow> (\<forall>w r w'. f w = (r, w') \<longrightarrow> (\<exists>ps. trail (fst w') = trail (fst w) @ ps \<and> snd w' = snd w + length ps))"

lemma tallies_bind [intro]:
  assumes "tallies trail f" and "\<And>x. tallies trail (g x)"
  shows "tallies trail (bindS f g)"
  unfolding tallies_def
proof (intro allI impI)
  fix w r w' assume run: "bindS f g w = (r, w')"
  obtain q w1 where q: "f w = (q, w1)" using prod.exhaust by blast
  then obtain ps where ps: "trail (fst w1) = trail (fst w) @ ps \<and> snd w1 = snd w + length ps" using assms(1) unfolding tallies_def by blast
  show "\<exists>ps. trail (fst w') = trail (fst w) @ ps \<and> snd w' = snd w + length ps"
  proof (cases q)
    case (Inl e)
    then have "w' = w1" using run q by (simp add: bindS_def)
    then show ?thesis using ps by blast
  next
    case (Inr x)
    then have "g x w1 = (r, w')" using run q by (simp add: bindS_def)
    then obtain qs where "trail (fst w') = trail (fst w1) @ qs \<and> snd w' = snd w1 + length qs" using assms(2) unfolding tallies_def by blast
    then show ?thesis using ps by (intro exI [of _ "ps @ qs"]) simp
  qed
qed

lemma tallies_simps [simp, intro]: "tallies trail (liftS r)" "tallies trail (returnS x)" "tallies trail (raiseS e)"
  by (simp_all add: tallies_def liftS_def returnS_def raiseS_def)

lemma index_read_answer:
  assumes "logs_pages I trail" and "index_read I ctx m episode must must_not n b w = (r, w')"
  shows "(w' = w \<and> (\<exists>e. r = Inl e)) \<or> (\<exists>page. trail (fst w') = trail (fst w) @ [page] \<and> snd w' = Suc (snd w) \<and> (\<forall>xs. r = Inr xs \<longrightarrow> xs = page))"
proof (cases "index_conditions I ctx episode")
  case (Inr ks)
  obtain s u where w: "w = (s, u)" by fastforce
  obtain q s' where q: "ix_pages I episode (map Authorized ks @ must) must_not n s = (q, s')" using prod.exhaust by blast
  then have "trail s' = trail s @ [page_points q]" using assms(1) unfolding logs_pages_def by blast
  then show ?thesis using assms(2) Inr q
    by (cases q) (auto simp: index_read_def w charge_def bindS_def liftS_def on_store_def page_points_def returnS_def raiseS_def split: if_splits prod.splits)
qed (use assms(2) in \<open>auto simp: index_read_def bindS_def liftS_def raiseS_def\<close>)

lemma tallies_read [intro]: "logs_pages I trail \<Longrightarrow> tallies trail (index_read I ctx m episode must must_not n b)"
  unfolding tallies_def using index_read_answer [of I trail ctx m episode must must_not n b] by fastforce

lemma since_grows:
  assumes "tallies trail f" and "f w = (r, w')" and "k \<le> length (trail (fst w))"
  shows "since k trail w \<subseteq> since k trail w'" and "k \<le> length (trail (fst w'))"
  using assms unfolding tallies_def since_def by fastforce+

lemma index_read_since:
  assumes "logs_pages I trail" and "index_read I ctx m episode must must_not n b w = (Inr xs, w')" and "k \<le> length (trail (fst w))"
  shows "set xs \<subseteq> since k trail w'"
  using index_read_answer [OF assms(1,2)] assms(3) by (auto simp: since_def)

definition keeps :: "nat \<Rightarrow> ('s \<times> nat, 'a) io \<Rightarrow> bool" where
  "keeps m f \<longleftrightarrow> (\<forall>w. snd w \<le> m \<longrightarrow> snd (snd (f w)) \<le> m)"

lemma keeps_bind [intro]: "keeps m f \<Longrightarrow> (\<And>x. keeps m (g x)) \<Longrightarrow> keeps m (bindS f g)"
  unfolding keeps_def bindS_def by (fastforce split: prod.splits sum.splits)

lemma keeps_simps [simp, intro]:
  "keeps m (liftS r)" "keeps m (returnS x)" "keeps m (raiseS e)" "keeps m (charge m)" "keeps m (on_store f)"
  by (simp_all add: keeps_def liftS_def returnS_def raiseS_def charge_def on_store_def split: prod.splits)

lemma keeps_read [intro]: "keeps m (index_read I ctx m episode must must_not n b)"
  unfolding index_read_def by (intro keeps_bind keeps_simps) (auto split: prod.splits)

subsection \<open>The view of a level\<close>

text \<open>The setting of a search: a caller with a well-formed grant, and a store that keeps its law.\<close>

definition search_setting :: "'s relation_index \<Rightarrow> 's page_trail \<Rightarrow> traverser \<Rightarrow> caller_authority \<Rightarrow> bool" where
  "search_setting I trail V c \<longleftrightarrow> nfc_stable (ix_unicode I) \<and> caller_wf (ix_unicode I) c \<and> pages_ok I \<and> logs_pages I trail
     \<and> tv_caller V = Some c"

definition in_reach :: "caller_authority \<Rightarrow> identity_values \<Rightarrow> node \<Rightarrow> bool" where
  "in_reach c scope n \<longleftrightarrow> inside c (ef_scope (nd_ref n)) \<and> same_scope scope n"

lemma eligible_counts: "eligible t n \<longleftrightarrow> counts_at t n"
  by (auto simp: eligible_def counts_at_def)

lemma edge_holds_asserted: "edge_holds P t e \<longleftrightarrow> asserted_at t e \<and> ed_kind e \<in> set (tp_kinds P)"
  by (auto simp: edge_holds_def asserted_at_def split: option.splits)

lemma follows_allowed: "follows_out P e \<longleftrightarrow> allowed_way (tp_direction P) (ed_kind e) True"
  "follows_in P e \<longleftrightarrow> allowed_way (tp_direction P) (ed_kind e) False"
  by (cases "tp_direction P"; simp add: follows_out_def follows_in_def allowed_way_def)+

lemma permitted_reach: "permitted S c t scope n \<longleftrightarrow> (nd_id n, Readable n) \<in> S \<and> eligible t n \<and> in_reach c scope n"
  by (auto simp: permitted_def in_reach_def eligible_counts)

lemma canonical_node_Inr: "canonical_node episode p = Inr n \<longleftrightarrow> snd p = Readable n \<and> nd_id n = fst p \<and> nd_episode n = episode"
  by (auto simp: canonical_node_def split: relation_payload.splits)

lemma partition_scope:
  assumes "list_all (\<lambda>k. selected k x) (partition scope session)" and "snd x = Readable n" and "session \<or> scope SESSION = None"
  shows "same_scope scope n"
proof -
  have "d = SESSION \<and> scope d = None \<or> ef_scope (nd_ref n) d = scope d" for d
  proof (cases "d = SESSION \<and> \<not> session")
    case False
    then have "Partition d (scope d) \<in> set (partition scope session)" by (simp add: partition_def)
    with assms(1) have "selected (Partition d (scope d)) x" unfolding list_all_iff by blast
    with assms(2) show ?thesis by simp
  qed (use assms(3) in auto)
  then show ?thesis by (simp add: same_scope_def list_all_iff)
qed

lemma level_read_reach:
  assumes "search_setting I trail V c" and "level_read I V episode must w = (Inr xs, w')"
    and "set (partition (tv_scope V) session) \<subseteq> set must" and "session \<or> tv_scope V SESSION = None"
    and "x \<in> set xs" and "snd x = Readable n"
  shows "in_reach c (tv_scope V) n"
proof -
  have "list_all (\<lambda>x. inside c (payload_identity (snd x)) \<and> list_all (\<lambda>k. selected k x) must) xs"
    using index_read_points [of I c "tp_max_calls (tv_policy V)" episode must "[]" 256 True w xs w'] assms(1,2)
    by (simp add: search_setting_def level_read_def)
  then have "inside c (ef_scope (nd_ref n))" "list_all (\<lambda>k. selected k x) (partition (tv_scope V) session)"
    using assms(3,5,6) by (auto simp: list_all_iff)
  then show ?thesis using partition_scope assms(4,6) by (simp add: in_reach_def)
qed

lemma level_read_since:
  "search_setting I trail V c \<Longrightarrow> level_read I V episode must w = (Inr xs, w') \<Longrightarrow> k \<le> length (trail (fst w)) \<Longrightarrow> set xs \<subseteq> since k trail w'"
  unfolding level_read_def by (erule (1) index_read_since [rotated]) (simp add: search_setting_def)

text \<open>What the view of a level holds: nodes that were read, within reach, and the heads of their entities.\<close>

definition view_ok :: "relation_tables \<Rightarrow> traversal_policy \<Rightarrow> relation_point set \<Rightarrow> caller_authority \<Rightarrow> identity_values \<Rightarrow> level_view \<Rightarrow> bool" where
  "view_ok T P S c scope L \<longleftrightarrow>
     (\<forall>k n. lv_heads L k = Some n \<longrightarrow> (nd_id n, Readable n) \<in> S \<and> in_reach c scope n \<and> ref_key T (nd_ref n) = k
        \<and> (tp_as_of P = None \<longrightarrow> nd_status n = K_ACTIVE))
     \<and> (\<forall>i n. lv_knowledge L i = Some n \<longrightarrow> (nd_id n, Readable n) \<in> S \<and> in_reach c scope n \<and> nd_id n = i \<and> \<not> nd_episode n)
     \<and> (\<forall>i n. lv_episodes L i = Some n \<longrightarrow> (nd_id n, Readable n) \<in> S \<and> in_reach c scope n \<and> nd_id n = i \<and> nd_episode n)"

lemma node_map_Inr:
  assumes "node_map episode xs = Inr f" and "f i = Some n"
  shows "nd_id n = i \<and> nd_episode n = episode \<and> (nd_id n, Readable n) \<in> set xs"
proof -
  obtain ns where ns: "mapE (canonical_node episode) xs = Inr ns" and f: "f = map_of (rev (map (\<lambda>n. (nd_id n, n)) ns))"
    using assms(1) by (auto simp: node_map_def)
  have "(i, n) \<in> set (rev (map (\<lambda>n. (nd_id n, n)) ns))" using assms(2) unfolding f by (rule map_of_SomeD)
  then have n: "n \<in> set ns" "nd_id n = i" by auto
  from mapE_source [OF ns n(1)] obtain x where "x \<in> set xs" "canonical_node episode x = Inr n" by blast
  with n(2) show ?thesis by (cases x) (auto simp: canonical_node_Inr)
qed

lemma head_entry_Some: "head_entry T t x = Inr (Some (k, n)) \<Longrightarrow> x = (nd_id n, Readable n) \<and> k = ref_key T (nd_ref n)"
proof -
  assume "head_entry T t x = Inr (Some (k, n))"
  then obtain m where m: "canonical_node False x = Inr m"
    and r: "(case make_ref T (nd_ref m) of Inl _ \<Rightarrow> Inr None
       | Inr r \<Rightarrow> if t < nd_created m \<or> unsettled m then Inr None else Inr (Some (ref_key T r, m))) = (Inr (Some (k, n)) :: exn + _)"
    by (auto simp: head_entry_def)
  obtain q where q: "make_ref T (nd_ref m) = Inr q" using r by (cases "make_ref T (nd_ref m)") auto
  with r have "n = m" "k = ref_key T q" by (auto split: if_splits)
  moreover have "q = nd_ref m" by (rule make_ref_Inr [OF q])
  ultimately show ?thesis using m by (cases x) (auto simp: canonical_node_Inr)
qed

lemma head_of_Some: "head_of P ms = Inr (Some n) \<Longrightarrow> n \<in> set ms \<and> (tp_as_of P = None \<longrightarrow> nd_status n = K_ACTIVE)"
proof -
  assume h: "head_of P ms = Inr (Some n)"
  let ?cs = "case tp_as_of P of
            Some _ \<Rightarrow> filter (\<lambda>n. list_all (\<lambda>m. nd_version m \<le> nd_version n) ms) ms
          | None \<Rightarrow> filter (\<lambda>n. nd_status n = K_ACTIVE) ms"
  have "n \<in> set ?cs" using h by (auto simp: head_of_def Let_def split: list.splits if_splits)
  then show ?thesis by (auto split: option.splits)
qed

lemma head_map_Inr:
  assumes "head_map T P t xs = Inr hs" and "(k, n) \<in> set hs"
  shows "(nd_id n, Readable n) \<in> set xs \<and> ref_key T (nd_ref n) = k \<and> (tp_as_of P = None \<longrightarrow> nd_status n = K_ACTIVE)"
proof -
  obtain found heads where found: "mapE (head_entry T t) xs = Inr found"
    and heads: "mapE (\<lambda>k. bindE (head_of P (map snd (filter (\<lambda>x. fst x = k) (List.map_filter id found))))
        (\<lambda>h. Inr (map_option (Pair k) h))) (fromkeys (map fst (List.map_filter id found))) = Inr heads"
    and hs: "hs = List.map_filter id heads"
    using assms(1) by (auto simp: head_map_def Let_def)
  have "Some (k, n) \<in> set heads" using assms(2) by (auto simp: hs map_filter_def)
  from mapE_source [OF heads this] obtain k' where
    "bindE (head_of P (map snd (filter (\<lambda>x. fst x = k') (List.map_filter id found)))) (\<lambda>h. Inr (map_option (Pair k') h)) = Inr (Some (k, n))"
    by blast
  then have "head_of P (map snd (filter (\<lambda>x. fst x = k) (List.map_filter id found))) = Inr (Some n)" by auto
  from head_of_Some [OF this] have "Some (k, n) \<in> set found" and active: "tp_as_of P = None \<longrightarrow> nd_status n = K_ACTIVE"
    by (auto simp: map_filter_def)
  from mapE_source [OF found this(1)] obtain x where "x \<in> set xs" "head_entry T t x = Inr (Some (k, n))" by blast
  with head_entry_Some [OF this(2)] active show ?thesis by auto
qed

lemma level_read_tallies: "logs_pages I trail \<Longrightarrow> tallies trail (level_read I V episode must)"
  unfolding level_read_def by (rule tallies_read)

lemma read_view_tallies: "logs_pages I trail \<Longrightarrow> tallies trail (read_view I V keys claims)"
  unfolding read_view_def Let_def by (auto intro!: tallies_bind level_read_tallies)

lemma read_view_ok:
  assumes "search_setting I trail V c" and "read_view I V keys claims w = (Inr L, w')" and k: "k \<le> length (trail (fst w))"
  shows "view_ok (tv_tables V) (tv_policy V) (since k trail w') c (tv_scope V) L"
proof -
  let ?b = "tv_scope V SESSION \<noteq> None"
  let ?keys = "sort (remdups (keys @ owner_keys (tv_tables V) claims))"
  let ?proofs = "partition (tv_scope V) ?b"
  let ?must = "knowledge_only @ ?proofs @ time_conditions V
    @ [AnyOf ([OwnedBy ?keys] @ (if proof_ids False claims \<noteq> [] then [WithIds (proof_ids False claims)] else []))]"
  let ?sel = "\<lambda>x. case snd x of Readable n \<Rightarrow> (case stored_owner n of Some k \<Rightarrow> k \<in> set ?keys | None \<Rightarrow> False) | Illegible _ \<Rightarrow> False"
  let ?read = "level_read I V True (?proofs @ [OfType True, WithIds (proof_ids True claims)])"
  let ?episodes = "if proof_ids True claims = [] then returnS Map.empty else bindS ?read (\<lambda>ps. liftS (node_map True ps))"
  obtain xs w1 knowledge heads episodes where xs: "level_read I V False ?must w = (Inr xs, w1)"
    and kn: "node_map False xs = Inr knowledge" and hd: "head_map (tv_tables V) (tv_policy V) (tv_at V) (filter ?sel xs) = Inr heads"
    and read: "?episodes w1 = (Inr episodes, w')" and L: "L = \<lparr>lv_heads = map_of heads, lv_knowledge = knowledge, lv_episodes = episodes\<rparr>"
    using assms(2) unfolding read_view_def Let_def bindS_Inr liftS_Inr returnS_Inr by blast
  have must: "set ?proofs \<subseteq> set ?must" by auto
  have logs: "logs_pages I trail" using assms(1) by (simp add: search_setting_def)
  have k1: "k \<le> length (trail (fst w1))" by (rule since_grows(2) [OF level_read_tallies [OF logs] xs k])
  have "tallies trail ?episodes" using logs by (auto intro!: tallies_bind level_read_tallies)
  from since_grows(1) [OF this read k1] have more: "since k trail w1 \<subseteq> since k trail w'" .
  note reach = level_read_reach [OF assms(1)] and since = level_read_since [OF assms(1)]
  have first: "(nd_id n, Readable n) \<in> since k trail w' \<and> in_reach c (tv_scope V) n" if "(nd_id n, Readable n) \<in> set xs" for n
    using reach [OF xs must _ that] since [OF xs k] more that by auto
  have "(nd_id n, Readable n) \<in> since k trail w' \<and> in_reach c (tv_scope V) n \<and> ref_key (tv_tables V) (nd_ref n) = j
      \<and> (tp_as_of (tv_policy V) = None \<longrightarrow> nd_status n = K_ACTIVE)" if "map_of heads j = Some n" for j n
    using head_map_Inr [OF hd map_of_SomeD [OF that]] first by auto
  moreover have "(nd_id n, Readable n) \<in> since k trail w' \<and> in_reach c (tv_scope V) n \<and> nd_id n = i \<and> \<not> nd_episode n"
    if "knowledge i = Some n" for i n
    using node_map_Inr [OF kn that] first by auto
  moreover have "(nd_id n, Readable n) \<in> since k trail w' \<and> in_reach c (tv_scope V) n \<and> nd_id n = i \<and> nd_episode n"
    if some: "episodes i = Some n" for i n
  proof -
    have "proof_ids True claims \<noteq> []" using read some by (auto simp: returnS_Inr)
    then obtain ys where ys: "?read w1 = (Inr ys, w')" "node_map True ys = Inr episodes"
      using read by (auto simp: bindS_Inr)
    have n: "nd_id n = i" "nd_episode n" "(nd_id n, Readable n) \<in> set ys" using node_map_Inr [OF ys(2) some] by auto
    have "in_reach c (tv_scope V) n" by (rule reach [OF ys(1) _ _ n(3), of ?b]) auto
    then show ?thesis using n since [OF ys(1) k1] by auto
  qed
  ultimately show ?thesis unfolding view_ok_def L level_view.simps by blast
qed

subsection \<open>The steps of a level are justified\<close>

definition sound_claim :: "relation_tables \<Rightarrow> traversal_policy \<Rightarrow> relation_point set \<Rightarrow> caller_authority \<Rightarrow> int \<Rightarrow> identity_values \<Rightarrow> node \<times> relation_edge \<Rightarrow> bool" where
  "sound_claim T P S c t scope claim \<longleftrightarrow> (case claim of (owner, e) \<Rightarrow> permitted S c t scope owner \<and> verify_projection T owner = Inr ()
     \<and> (\<exists>es. bundle_from_extensions T (nd_extensions owner) = Inr es \<and> e \<in> set es) \<and> edge_holds P t e)"

lemma claims_of_sound:
  assumes "claims_of T P t keys x = Inr cs" and "claim \<in> set cs" and "x \<in> S" and "\<And>n. snd x = Readable n \<Longrightarrow> in_reach c scope n"
  shows "sound_claim T P S c t scope claim"
proof -
  obtain n where n: "canonical_node False x = Inr n" "verify_projection T n = Inr ()"
    and r: "(if \<not> eligible t n then Inr [] else bindE (bundle_from_extensions T (nd_extensions n)) (\<lambda>edges.
         Inr (map (Pair n) (filter (\<lambda>e. edge_holds P t e \<and> touches T P keys e) edges)))) = Inr cs"
    using assms(1) by (auto simp: claims_of_def)
  have "eligible t n" using r assms(2) by (cases "eligible t n") auto
  moreover from this r assms(2) obtain es e where "bundle_from_extensions T (nd_extensions n) = Inr es" "claim = (n, e)" "e \<in> set es" "edge_holds P t e"
    by auto
  moreover have "in_reach c scope n" using n(1) assms(4) by (simp add: canonical_node_Inr)
  moreover have "(nd_id n, Readable n) \<in> S" using n(1) assms(3) by (cases x) (simp add: canonical_node_Inr)
  ultimately show ?thesis using n(2) by (simp add: sound_claim_def permitted_reach)
qed

lemma proofs_evidenced:
  assumes "view_ok T P S c scope L" and "list_all (proof_holds t scope L) (ed_evidence e)"
  shows "evidenced S c t scope e"
  unfolding evidenced_def list_all_iff
proof
  fix v assume "v \<in> set (ed_evidence e)"
  with assms(2) have "proof_holds t scope L v" by (simp add: list_all_iff)
  then obtain n where n: "(if vr_episode v then lv_episodes L else lv_knowledge L) (vr_id v) = Some n"
    and ok: "eligible t n" "vr_episode v \<longrightarrow> nd_event n \<le> t"
    by (auto simp: proof_holds_def split: option.splits)
  have "(nd_id n, Readable n) \<in> S \<and> in_reach c scope n \<and> nd_id n = vr_id v \<and> nd_episode n = vr_episode v"
  proof (cases "vr_episode v")
    case True
    then have "lv_episodes L (vr_id v) = Some n" using n by simp
    with assms(1) True show ?thesis unfolding view_ok_def by blast
  next
    case False
    then have "lv_knowledge L (vr_id v) = Some n" using n by simp
    with assms(1) False show ?thesis unfolding view_ok_def by blast
  qed
  with ok show "\<exists>n. nd_id n = vr_id v \<and> nd_episode n = vr_episode v \<and> permitted S c t scope n \<and> (vr_episode v \<longrightarrow> nd_event n \<le> t)"
    by (auto simp: permitted_reach)
qed

definition sound_transition :: "relation_tables \<Rightarrow> traversal_policy \<Rightarrow> relation_point set \<Rightarrow> caller_authority \<Rightarrow> int \<Rightarrow> identity_values \<Rightarrow> level_view \<Rightarrow> transition \<Rightarrow> bool" where
  "sound_transition T P S c t scope L x \<longleftrightarrow> (case x of (here, there, j, st) \<Rightarrow>
     \<exists>h. lv_heads L here = Some h \<and> justified T P S c t scope here (nd_id h) there j st)"

lemma transitions_sound:
  assumes L: "view_ok T P S c scope L" and claim: "sound_claim T P S c t scope claim" and x: "x \<in> set (transitions T P t scope L claim)"
  shows "sound_transition T P S c t scope L x"
proof -
  obtain owner e where oe: "claim = (owner, e)" by fastforce
  let ?s = "ref_key T (ed_source e)" and ?t = "ref_key T (ed_target e)"
  obtain source target where heads: "lv_heads L ?s = Some source" "lv_heads L ?t = Some target"
    using x unfolding oe transitions_def Let_def prod.case by (cases "lv_heads L ?s"; cases "lv_heads L ?t") simp_all
  let ?xs = "(if follows_out P e then [(?s, ?t, nd_id target, make_step owner e True)] else [])
               @ (if follows_in P e then [(?t, ?s, nd_id source, make_step owner e False)] else [])"
  let ?bad = "nd_id source \<noteq> nd_id owner \<or> nd_id target \<noteq> ed_record e \<or> \<not> eligible t source \<or> \<not> eligible t target
     \<or> \<not> list_all (proof_holds t scope L) (ed_evidence e)"
  have "x \<in> set (if ?bad then [] else ?xs)" using x by (simp only: oe transitions_def Let_def prod.case heads option.case)
  then have "\<not> ?bad" and x': "x \<in> set ?xs" by (cases ?bad; simp only: if_True if_False; simp)+
  then have ok: "nd_id source = nd_id owner" "nd_id target = ed_record e" "eligible t target" "list_all (proof_holds t scope L) (ed_evidence e)"
    by simp_all
  have target: "permitted S c t scope target" "ref_key T (nd_ref target) = ?t" "tp_as_of P = None \<longrightarrow> nd_status target = K_ACTIVE"
    using L heads(2) ok(3) unfolding view_ok_def permitted_reach by blast+
  have proofs: "evidenced S c t scope e" by (rule proofs_evidenced [OF L ok(4)])
  obtain es where owner: "permitted S c t scope owner" "verify_projection T owner = Inr ()"
    "bundle_from_extensions T (nd_extensions owner) = Inr es" "e \<in> set es" "edge_holds P t e"
    using claim by (auto simp: sound_claim_def oe)
  note facts = owner target proofs ok(1,2) heads edge_holds_asserted follows_allowed
  from x' consider (forward) "follows_out P e" "x = (?s, ?t, nd_id target, make_step owner e True)"
    | (backward) "follows_in P e" "x = (?t, ?s, nd_id source, make_step owner e False)"
    by (auto split: if_splits)
  then show ?thesis
  proof cases
    case forward
    have "justified T P S c t scope ?s (nd_id source) ?t (nd_id target) (make_step owner e True)"
      unfolding justified_def by (intro exI [of _ owner] exI [of _ target] exI [of _ es] exI [of _ e]) (use facts forward in \<open>simp add: make_step_def\<close>)
    then show ?thesis using heads forward by (simp add: sound_transition_def)
  next
    case backward
    have "justified T P S c t scope ?t (nd_id target) ?s (nd_id source) (make_step owner e False)"
      unfolding justified_def by (intro exI [of _ owner] exI [of _ target] exI [of _ es] exI [of _ e]) (use facts backward in \<open>simp add: make_step_def\<close>)
    then show ?thesis using heads backward by (simp add: sound_transition_def)
  qed
qed

subsection \<open>The search keeps its invariant\<close>

text \<open>
  What holds of the paths of a search, of whatever kind of path: \<open>Q\<close> of the reported ones, \<open>F\<close>
  of the frontier, the counts in_budget their maxima, and every key and relation of a path counted.
\<close>

definition counted :: "search \<Rightarrow> path \<Rightarrow> bool" where
  "counted S p \<longleftrightarrow> set (pa_keys p) \<subseteq> set (ss_nodes S) \<and> sp_relation ` set (pa_steps p) \<subseteq> set (ss_edges S)"

definition in_budget :: "traversal_policy \<Rightarrow> search \<Rightarrow> bool" where
  "in_budget P S \<longleftrightarrow> distinct (ss_nodes S) \<and> distinct (ss_edges S) \<and> length (ss_nodes S) \<le> tp_max_nodes P
     \<and> length (ss_edges S) \<le> tp_max_edges P \<and> length (ss_paths S) \<le> tp_max_paths P \<and> list_all (counted S) (ss_paths S)"

definition bounded_acc :: "traversal_policy \<Rightarrow> nat \<Rightarrow> nat \<Rightarrow> search \<times> path list \<Rightarrow> bool" where
  "bounded_acc P depth n acc \<longleftrightarrow> in_budget P (fst acc)
     \<and> list_all (\<lambda>p. pa_steps p \<noteq> [] \<and> length (pa_steps p) \<le> depth) (ss_paths (fst acc))
     \<and> list_all (\<lambda>p. counted (fst acc) p \<and> length (pa_steps p) = n) (snd acc)"

definition walked :: "relation_tables \<Rightarrow> traversal_policy \<Rightarrow> relation_point set \<Rightarrow> caller_authority \<Rightarrow> int \<Rightarrow> identity_values \<Rightarrow> uid list \<Rightarrow> path \<Rightarrow> bool" where
  "walked T P S c t scope ids p \<longleftrightarrow> walk T P S c t scope ids (pa_keys p) (pa_records p) (pa_steps p)"

definition walked_acc :: "relation_tables \<Rightarrow> traversal_policy \<Rightarrow> relation_point set \<Rightarrow> caller_authority \<Rightarrow> int \<Rightarrow> identity_values \<Rightarrow> uid list \<Rightarrow> search \<times> path list \<Rightarrow> bool" where
  "walked_acc T P S c t scope ids acc \<longleftrightarrow> list_all (walked T P S c t scope ids) (ss_paths (fst acc)) \<and> list_all (walked T P S c t scope ids) (snd acc)"

lemma walked_acc_mono: "walked_acc T P S c t scope ids acc \<Longrightarrow> S \<subseteq> S' \<Longrightarrow> walked_acc T P S' c t scope ids acc"
  unfolding walked_acc_def walked_def list_all_iff using walk_mono by blast

lemma counted_mono: "counted S p \<Longrightarrow> set (ss_nodes S) \<subseteq> set (ss_nodes S') \<Longrightarrow> set (ss_edges S) \<subseteq> set (ss_edges S') \<Longrightarrow> counted S' p"
  unfolding counted_def by blast

lemma extend_path_cases:
  obtains "extend_path P p (s, goal, j, st) (S, ps) = (S, ps)"
  | r where "extend_path P p (s, goal, j, st) (S, ps) = (add_reason r S, ps)"
  | q where "goal \<notin> set (pa_keys p)" "goal \<in> set (ss_nodes S) \<or> length (ss_nodes S) < tp_max_nodes P"
    "sp_relation st \<in> set (ss_edges S) \<or> length (ss_edges S) < tp_max_edges P" "length (ss_paths S) < tp_max_paths P"
    "q = \<lparr>pa_keys = pa_keys p @ [goal], pa_records = pa_records p @ [j], pa_steps = pa_steps p @ [st]\<rparr>"
    "extend_path P p (s, goal, j, st) (S, ps) = (S\<lparr>ss_paths := ss_paths S @ [q], ss_nodes := List.insert goal (ss_nodes S),
                   ss_edges := List.insert (sp_relation st) (ss_edges S)\<rparr>, ps @ [q])"
  unfolding extend_path_def Let_def prod.case by (cases "goal \<in> set (pa_keys p)"; force simp: not_le split: if_splits)

lemma extend_bounded:
  assumes "bounded_acc P depth (Suc n) acc" and "counted (fst acc) p" and "length (pa_steps p) = n" and "Suc n \<le> depth"
  shows "bounded_acc P depth (Suc n) (extend_path P p x acc) \<and> (\<forall>q. counted (fst acc) q \<longrightarrow> counted (fst (extend_path P p x acc)) q)"
proof -
  obtain S ps where acc: "acc = (S, ps)" by fastforce
  obtain s goal j st where x: "x = (s, goal, j, st)" by (cases x) auto
  show ?thesis
  proof (cases rule: extend_path_cases [of P p s goal j st S ps])
    case 1
    then show ?thesis using assms(1) by (simp add: acc x)
  next
    case (2 r)
    have "counted (add_reason r S) q \<longleftrightarrow> counted S q" for q by (simp add: counted_def add_reason_def)
    then have "counted (add_reason r S) = counted S" by auto
    then show ?thesis using assms(1) 2 by (auto simp: acc x bounded_acc_def in_budget_def) (simp_all add: add_reason_def)
  next
    case (3 q)
    let ?S = "S\<lparr>ss_paths := ss_paths S @ [q], ss_nodes := List.insert goal (ss_nodes S),
                   ss_edges := List.insert (sp_relation st) (ss_edges S)\<rparr>"
    have mono: "counted ?S r" if "counted S r" for r by (rule counted_mono [OF that]) auto
    have q: "counted ?S q" "length (pa_steps q) = Suc n" "pa_steps q \<noteq> []"
      using assms(2,3) by (auto simp: acc 3(5) counted_def)
    have "in_budget P ?S" using assms(1) 3 q(1) mono
      by (auto simp: bounded_acc_def in_budget_def acc distinct_insert list_all_iff List.insert_def)
    moreover have "list_all (\<lambda>r. counted ?S r \<and> length (pa_steps r) = Suc n) (ps @ [q])"
      using assms(1) q mono by (auto simp: bounded_acc_def acc list_all_iff)
    moreover have "list_all (\<lambda>r. pa_steps r \<noteq> [] \<and> length (pa_steps r) \<le> depth) (ss_paths S @ [q])"
      using assms(1,4) q by (auto simp: bounded_acc_def acc list_all_iff)
    ultimately show ?thesis using mono by (simp add: acc x 3(6) bounded_acc_def)
  qed
qed

lemma extend_walked:
  assumes "walked_acc T P S c t scope ids acc" and "walked T P S c t scope ids p"
    and "justified T P S c t scope (last (pa_keys p)) (last (pa_records p)) (fst (snd x)) (fst (snd (snd x))) (snd (snd (snd x)))"
  shows "walked_acc T P S c t scope ids (extend_path P p x acc)"
proof -
  obtain R ps where acc: "acc = (R, ps)" by fastforce
  obtain s goal j st where x: "x = (s, goal, j, st)" by (cases x) auto
  show ?thesis
  proof (cases rule: extend_path_cases [of P p s goal j st R ps])
    case 1
    then show ?thesis using assms(1) by (simp add: acc x)
  next
    case (2 r)
    then show ?thesis using assms(1) by (simp add: acc x walked_acc_def add_reason_def)
  next
    case (3 q)
    have "walked T P S c t scope ids q"
      using walk.follow [of T P S c t scope ids "pa_keys p" "pa_records p" "pa_steps p" goal j st] assms(2,3) 3(1)
      by (simp add: walked_def 3(5) x)
    then show ?thesis using assms(1) by (simp add: acc x 3(6) walked_acc_def)
  qed
qed

lemma follow_bounded:
  assumes "bounded_acc P depth (Suc n) acc" and "counted (fst acc) p" and "length (pa_steps p) = n" and "Suc n \<le> depth"
  shows "bounded_acc P depth (Suc n) (follow_path P t L ts p acc) \<and> (\<forall>q. counted (fst acc) q \<longrightarrow> counted (fst (follow_path P t L ts p acc)) q)"
proof -
  let ?I = "\<lambda>a. bounded_acc P depth (Suc n) a \<and> (\<forall>q. counted (fst acc) q \<longrightarrow> counted (fst a) q)"
  have "?I (fold (extend_path P p) xs acc)" for xs
  proof (rule fold_invariant [of xs "\<lambda>_. True" ?I])
    fix x a assume "?I a"
    then show "?I (extend_path P p x a)" using extend_bounded [of P depth n a p x] assms(2-4) by blast
  qed (use assms(1) in simp_all)
  then show ?thesis using assms(1) by (auto simp: follow_path_def split: option.split)
qed

lemma follow_walked:
  assumes "walked_acc T P S c t scope ids acc" and "walked T P S c t scope ids p" and "list_all (sound_transition T P S c t scope L) ts"
  shows "walked_acc T P S c t scope ids (follow_path P t L ts p acc)"
proof (cases "lv_heads L (last (pa_keys p))")
  case (Some h)
  show ?thesis
  proof (cases "nd_id h \<noteq> last (pa_records p) \<or> \<not> eligible t h")
    case False
    let ?J = "\<lambda>x. justified T P S c t scope (last (pa_keys p)) (last (pa_records p)) (fst (snd x)) (fst (snd (snd x))) (snd (snd (snd x)))"
    let ?xs = "sort_key (\<lambda>(_, goal, _, st). (goal, sp_relation st)) (filter (\<lambda>x. fst x = last (pa_keys p)) ts)"
    have "walked_acc T P S c t scope ids (fold (extend_path P p) ?xs acc)"
    proof (rule fold_invariant [of ?xs ?J])
      fix x assume "x \<in> set ?xs"
      then have "sound_transition T P S c t scope L x" "fst x = last (pa_keys p)" using assms(3) by (auto simp: list_all_iff)
      then show "?J x" using Some False by (cases x) (auto simp: sound_transition_def)
    qed (use assms(1) extend_walked [OF _ assms(2)] in auto)
    then show ?thesis using Some False by (simp add: follow_path_def)
  qed (use assms(1) Some in \<open>simp add: follow_path_def\<close>)
qed (use assms(1) in \<open>simp add: follow_path_def\<close>)

lemma level_bounded:
  assumes "search_level I V frontier S w = (Inr (S', ps), w')" and "Suc n \<le> depth" and "bounded_acc (tv_policy V) depth n (S, frontier)"
  shows "bounded_acc (tv_policy V) depth (Suc n) (S', ps)"
proof -
  obtain L ts where res: "(S', ps) = fold (follow_path (tv_policy V) (tv_at V) L ts) frontier (S, [])"
    using assms(1) by (auto simp: search_level_def Let_def bindS_Inr returnS_Inr)
  let ?Q = "\<lambda>p. counted S p \<and> length (pa_steps p) = n"
  let ?I = "\<lambda>a. bounded_acc (tv_policy V) depth (Suc n) a \<and> (\<forall>q. counted S q \<longrightarrow> counted (fst a) q)"
  have "?I (fold (follow_path (tv_policy V) (tv_at V) L ts) frontier (S, []))"
  proof (rule fold_invariant [of frontier ?Q ?I])
    fix p a assume "?Q p" and "?I a"
    then show "?I (follow_path (tv_policy V) (tv_at V) L ts p a)"
      using follow_bounded [of "tv_policy V" depth n a p "tv_at V" L ts] assms(2) by blast
  qed (use assms(3) in \<open>simp_all add: bounded_acc_def list_all_iff\<close>)
  then show ?thesis by (simp add: res)
qed

lemma level_keeps: "keeps (tp_max_calls (tv_policy V)) (search_level I V frontier S)"
  unfolding search_level_def read_view_def level_read_def Let_def
  by (auto intro!: keeps_bind split: prod.split)

lemma levels_bounded:
  assumes "search_levels I V m frontier S w = (Inr R, w')" and "n + m \<le> depth" and "bounded_acc (tv_policy V) depth n (S, frontier)"
    and "snd w \<le> tp_max_calls (tv_policy V)"
  shows "in_budget (tv_policy V) R \<and> list_all (\<lambda>p. pa_steps p \<noteq> [] \<and> length (pa_steps p) \<le> depth) (ss_paths R)
    \<and> snd w' \<le> tp_max_calls (tv_policy V)"
  using assms
proof (induction m arbitrary: n frontier S w)
  case 0
  then show ?case by (simp add: bounded_acc_def)
next
  case (Suc m)
  obtain r w1 where r: "search_level I V frontier S w = (r, w1)" using prod.exhaust by blast
  have calls: "snd w1 \<le> tp_max_calls (tv_policy V)" using level_keeps [of V I frontier S] r Suc.prems(4) unfolding keeps_def by (metis snd_conv)
  have cut: "counted (S\<lparr>ss_reasons := rs\<rparr>) = counted S" for rs S by (simp add: counted_def fun_eq_iff)
  show ?case
  proof (cases "frontier = []")
    case True
    then show ?thesis using Suc.prems by (simp add: bounded_acc_def)
  next
    case False
    show ?thesis
    proof (cases r)
      case (Inl e)
      then obtain u where "e = TraversalLimit u" using Suc.prems(1) r False by (cases e) auto
      then have "R = S\<lparr>ss_reasons := List.insert u (ss_reasons S)\<rparr>" "w' = w1" using Suc.prems(1) r False Inl by auto
      then show ?thesis using Suc.prems(3) calls by (simp add: bounded_acc_def in_budget_def cut)
    next
      case (Inr a)
      obtain S' ps where a: "a = (S', ps)" by fastforce
      let ?S = "if m = 0 \<and> ps \<noteq> [] then add_reason ''depth'' S' else S'"
      have run: "search_levels I V m ps ?S w1 = (Inr R, w')" using Suc.prems(1) r False Inr a by simp
      have "bounded_acc (tv_policy V) depth (Suc n) (S', ps)"
        using level_bounded [of I V frontier S w S' ps w1 n depth] r Inr a Suc.prems(2,3) by simp
      then have "bounded_acc (tv_policy V) depth (Suc n) (?S, ps)"
        by (simp add: bounded_acc_def in_budget_def cut add_reason_def)
      from Suc.IH [OF run _ this calls] Suc.prems(2) show ?thesis by simp
    qed
  qed
qed

lemma search_level_tallies: "logs_pages I trail \<Longrightarrow> tallies trail (search_level I V frontier S)"
  unfolding search_level_def Let_def by (auto intro!: tallies_bind level_read_tallies read_view_tallies)

lemma level_walked:
  assumes "search_setting I trail V c" and "search_level I V frontier S w = (Inr (S', ps), w')" and k: "k \<le> length (trail (fst w))"
    and "walked_acc (tv_tables V) (tv_policy V) (since k trail w) c (tv_at V) (tv_scope V) ids (S, frontier)"
  shows "walked_acc (tv_tables V) (tv_policy V) (since k trail w') c (tv_at V) (tv_scope V) ids (S', ps)"
proof -
  let ?keys = "sort (remdups (map (\<lambda>p. last (pa_keys p)) frontier))"
  let ?must = "knowledge_only @ partition (tv_scope V) True @ time_conditions V @ current_conditions (tv_policy V) @ [AnyOf [OwnedBy ?keys, Targets ?keys]]"
  obtain owners w1 found L where owners: "level_read I V False ?must w = (Inr owners, w1)"
    and found: "mapE (claims_of (tv_tables V) (tv_policy V) (tv_at V) ?keys) owners = Inr found"
    and L: "read_view I V ?keys (concat found) w1 = (Inr L, w')"
    and res: "(S', ps) = fold (follow_path (tv_policy V) (tv_at V) L
       (concat (map (transitions (tv_tables V) (tv_policy V) (tv_at V) (tv_scope V) L) (concat found)))) frontier (S, [])"
    using assms(2) unfolding search_level_def Let_def bindS_Inr liftS_Inr returnS_Inr by blast
  let ?ts = "concat (map (transitions (tv_tables V) (tv_policy V) (tv_at V) (tv_scope V) L) (concat found))"
  let ?R = "since k trail w'"
  let ?sound = "sound_claim (tv_tables V) (tv_policy V) ?R c (tv_at V) (tv_scope V)"
  have logs: "logs_pages I trail" using assms(1) by (simp add: search_setting_def)
  note g1 = since_grows [OF level_read_tallies [OF logs] owners k]
  note g2 = since_grows [OF read_view_tallies [OF logs] L g1(2)]
  have view: "view_ok (tv_tables V) (tv_policy V) ?R c (tv_scope V) L" by (rule read_view_ok [OF assms(1) L g1(2)])
  have "?sound claim" if "claim \<in> set (concat found)" for claim
  proof -
    from that obtain cs where cs: "cs \<in> set found" "claim \<in> set cs" by auto
    with mapE_source [OF found] obtain x where x: "x \<in> set owners" "claims_of (tv_tables V) (tv_policy V) (tv_at V) ?keys x = Inr cs" by blast
    have "in_reach c (tv_scope V) n" if "snd x = Readable n" for n
      by (rule level_read_reach [OF assms(1) owners, of True]) (use x that in auto)
    moreover have "x \<in> ?R" using level_read_since [OF assms(1) owners k] x(1) g2(1) by blast
    ultimately show ?thesis using claims_of_sound [OF x(2) cs(2)] by blast
  qed
  then have ts: "list_all (sound_transition (tv_tables V) (tv_policy V) ?R c (tv_at V) (tv_scope V) L) ?ts"
    using transitions_sound [OF view] by (fastforce simp: list_all_iff)
  let ?I = "walked_acc (tv_tables V) (tv_policy V) ?R c (tv_at V) (tv_scope V) ids"
  have start: "?I (S, frontier)" by (rule walked_acc_mono [OF assms(4)]) (use g1(1) g2(1) in blast)
  have "?I (fold (follow_path (tv_policy V) (tv_at V) L ?ts) frontier (S, []))"
  proof (rule fold_invariant [of frontier "walked (tv_tables V) (tv_policy V) ?R c (tv_at V) (tv_scope V) ids" ?I])
    fix p a assume "walked (tv_tables V) (tv_policy V) ?R c (tv_at V) (tv_scope V) ids p" and "?I a"
    then show "?I (follow_path (tv_policy V) (tv_at V) L ?ts p a)" using follow_walked [OF _ _ ts] by blast
  qed (use start in \<open>simp_all add: walked_acc_def list_all_iff\<close>)
  then show ?thesis by (simp add: res)
qed

lemma levels_tally:
  assumes "logs_pages I trail" and "search_levels I V m frontier S w = (r, w')"
  shows "\<exists>ps. trail (fst w') = trail (fst w) @ ps \<and> snd w' = snd w + length ps"
  using assms(2)
proof (induction m arbitrary: frontier S w)
  case (Suc m)
  obtain q w1 where q: "search_level I V frontier S w = (q, w1)" using prod.exhaust by blast
  then obtain ps where ps: "trail (fst w1) = trail (fst w) @ ps" "snd w1 = snd w + length ps"
    using search_level_tallies [OF assms(1)] unfolding tallies_def by blast
  show ?case
  proof (cases "frontier = []")
    case False
    show ?thesis
    proof (cases q)
      case (Inl e)
      then have "w' = w1" using Suc.prems q False by (cases e) auto
      with ps show ?thesis by blast
    next
      case (Inr a)
      obtain S' qs where a: "a = (S', qs)" by fastforce
      have "\<exists>S''. search_levels I V m qs S'' w1 = (r, w')" using Suc.prems q False Inr a by auto
      with Suc.IH obtain qs where "trail (fst w') = trail (fst w1) @ qs" "snd w' = snd w1 + length qs" by blast
      with ps show ?thesis by (intro exI [of _ "ps @ qs"]) simp
    qed
  qed (use Suc.prems in simp)
qed simp

lemma levels_walked:
  assumes "search_setting I trail V c" and "search_levels I V m frontier S w = (Inr R, w')" and "k \<le> length (trail (fst w))"
    and "walked_acc (tv_tables V) (tv_policy V) (since k trail w) c (tv_at V) (tv_scope V) ids (S, frontier)"
  shows "list_all (walked (tv_tables V) (tv_policy V) (since k trail w') c (tv_at V) (tv_scope V) ids) (ss_paths R)"
  using assms(2-4)
proof (induction m arbitrary: frontier S w)
  case 0
  then show ?case by (simp add: walked_acc_def)
next
  case (Suc m)
  obtain r w1 where r: "search_level I V frontier S w = (r, w1)" using prod.exhaust by blast
  have logs: "logs_pages I trail" using assms(1) by (simp add: search_setting_def)
  note g = since_grows [OF search_level_tallies [OF logs] r Suc.prems(2)]
  show ?case
  proof (cases "frontier = []")
    case True
    then show ?thesis using Suc.prems by (simp add: walked_acc_def)
  next
    case False
    show ?thesis
    proof (cases r)
      case (Inl e)
      then obtain u where "e = TraversalLimit u" using Suc.prems(1) r False by (cases e) auto
      then have "R = S\<lparr>ss_reasons := List.insert u (ss_reasons S)\<rparr>" "w' = w1" using Suc.prems(1) r False Inl by auto
      then show ?thesis using walked_acc_mono [OF Suc.prems(3) g(1)] by (simp add: walked_acc_def)
    next
      case (Inr a)
      obtain S' ps where a: "a = (S', ps)" by fastforce
      have "walked_acc (tv_tables V) (tv_policy V) (since k trail w1) c (tv_at V) (tv_scope V) ids (S', ps)"
        using level_walked [OF assms(1) _ Suc.prems(2,3), of S' ps w1] r Inr a by simp
      then have "walked_acc (tv_tables V) (tv_policy V) (since k trail w1) c (tv_at V) (tv_scope V) ids
          (if m = 0 \<and> ps \<noteq> [] then add_reason ''depth'' S' else S', ps)"
        by (simp add: walked_acc_def add_reason_def)
      from Suc.IH [OF _ g(2) this] Suc.prems(1) r False Inr a show ?thesis by simp
    qed
  qed
qed

subsection \<open>The whole traversal\<close>

lemma make_ref_same: "make_ref T r = Inr r' \<Longrightarrow> r' = r"
  by (rule make_ref_Inr)

lemma check_seeds_Inr:
  assumes "check_seeds T t ids xs = Inr seeds"
  shows "seeds \<noteq> []" and "map (nd_id \<circ> snd) seeds = map fst xs" and "set (map (nd_id \<circ> snd) seeds) = set ids"
    and "list_all (\<lambda>(r, n). r = nd_ref n \<and> eligible t n \<and> ef_scope r = ef_scope (fst (hd seeds)) \<and> (nd_id n, Readable n) \<in> set xs) seeds"
proof -
  obtain ns refs where ns: "mapE (canonical_node False) xs = Inr ns" and refs: "mapE (\<lambda>n. make_ref T (nd_ref n)) ns = Inr refs"
    and ok: "set (map nd_id ns) = set ids" "list_all (eligible t) ns" "length (remdups (map (\<lambda>r. map (ef_scope r) dimension_order) refs)) = 1"
    and seeds: "seeds = zip refs ns"
    using assms by (auto simp: check_seeds_def split: if_splits)
  have len: "length refs = length ns" "length ns = length xs" using mapE_length [OF refs] mapE_length [OF ns] by simp_all
  have "list_all2 (\<lambda>n r. r = nd_ref n) ns refs"
    using refs unfolding mapE_eq_Inr by (rule list_all2_mono) (rule make_ref_same)
  then have eq: "refs = map nd_ref ns" by (auto simp: list_all2_conv_all_nth len intro: nth_equalityI)
  have "list_all2 (\<lambda>x n. nd_id n = fst x) xs ns"
    using ns unfolding mapE_eq_Inr by (rule list_all2_mono) (simp add: canonical_node_Inr)
  then have ids: "map nd_id ns = map fst xs" by (auto simp: list_all2_conv_all_nth len intro: nth_equalityI)
  have z: "seeds = map (\<lambda>n. (nd_ref n, n)) ns" unfolding seeds eq by (induction ns) auto
  show "map (nd_id \<circ> snd) seeds = map fst xs" unfolding z by (simp add: comp_def ids)
  show "set (map (nd_id \<circ> snd) seeds) = set ids" using ok(1) by (simp add: z comp_def image_image)
  obtain s where s: "remdups (map (\<lambda>r. map (ef_scope r) dimension_order) refs) = [s]" using ok(3) by (auto simp: length_Suc_conv)
  then have "set (map (\<lambda>r. map (ef_scope r) dimension_order) refs) = {s}" by (metis list.set(1,2) set_remdups)
  then have same: "map (ef_scope (nd_ref n)) dimension_order = s" if "n \<in> set ns" for n using that eq by auto
  have "refs \<noteq> []" using s by auto
  then have ne: "ns \<noteq> []" using len by auto
  then show "seeds \<noteq> []" by (simp add: z)
  have hd: "fst (hd (map (\<lambda>n. (nd_ref n, n)) ns)) = nd_ref (hd ns)" using ne by (simp add: hd_map)
  have "ef_scope (nd_ref n) = ef_scope (nd_ref (hd ns))" if "n \<in> set ns" for n
  proof
    fix d
    have "map (ef_scope (nd_ref n)) dimension_order = map (ef_scope (nd_ref (hd ns))) dimension_order"
      using same [OF that] same [of "hd ns"] ne by simp
    then show "ef_scope (nd_ref n) d = ef_scope (nd_ref (hd ns)) d" by (simp add: map_eq_conv)
  qed
  moreover have "(nd_id n, Readable n) \<in> set xs" if n: "n \<in> set ns" for n
  proof -
    from mapE_source [OF ns n] obtain x where x: "x \<in> set xs" "canonical_node False x = Inr n" by blast
    then have "x = (nd_id n, Readable n)" by (simp add: canonical_node_Inr prod_eq_iff)
    with x(1) show ?thesis by simp
  qed
  ultimately show "list_all (\<lambda>(r, n). r = nd_ref n \<and> eligible t n \<and> ef_scope r = ef_scope (fst (hd seeds)) \<and> (nd_id n, Readable n) \<in> set xs) seeds"
    using ok(2) by (auto simp: z list_all_iff hd)
qed

lemma seeds_keep: "keeps (tp_max_calls P) (read_seeds I T P ctx t ids)"
  unfolding read_seeds_def require_ready_def by (auto intro!: keeps_bind)

lemma ready_tallies: "logs_pages I trail \<Longrightarrow> tallies trail (require_ready I ctx m)"
  unfolding require_ready_def by (auto intro!: tallies_bind tallies_read)

lemma seeds_tally: "logs_pages I trail \<Longrightarrow> tallies trail (read_seeds I T P ctx t ids)"
  unfolding read_seeds_def by (auto intro!: tallies_bind tallies_read ready_tallies)

lemma levels_keep:
  "search_levels I V m frontier S w = (r, w') \<Longrightarrow> snd w \<le> tp_max_calls (tv_policy V) \<Longrightarrow> snd w' \<le> tp_max_calls (tv_policy V)"
proof (induction m arbitrary: frontier S w)
  case (Suc m)
  obtain q w1 where q: "search_level I V frontier S w = (q, w1)" using prod.exhaust by blast
  have calls: "snd w1 \<le> tp_max_calls (tv_policy V)" using level_keeps [of V I frontier S] q Suc.prems(2) unfolding keeps_def by (metis snd_conv)
  show ?case
  proof (cases "frontier = []")
    case False
    show ?thesis
    proof (cases q)
      case (Inl e)
      then have "w' = w1" using Suc.prems q False by (cases e) auto
      with calls show ?thesis by simp
    next
      case (Inr a)
      obtain S' ps where a: "a = (S', ps)" by fastforce
      have "\<exists>S''. search_levels I V m ps S'' w1 = (r, w')" using Suc.prems q False Inr a by auto
      with Suc.IH calls show ?thesis by blast
    qed
  qed (use Suc.prems in simp)
qed simp

lemma explore_tally:
  assumes "logs_pages I trail" and "explore I T P ctx t ids w = (r, w')" and "snd w \<le> tp_max_calls P"
  shows "(\<exists>ps. trail (fst w') = trail (fst w) @ ps \<and> snd w' = snd w + length ps) \<and> snd w' \<le> tp_max_calls P"
proof -
  obtain q w1 where q: "read_seeds I T P ctx t ids w = (q, w1)" using prod.exhaust by blast
  have calls: "snd w1 \<le> tp_max_calls P" using seeds_keep [of P I T ctx t ids] q assms(3) unfolding keeps_def by (metis snd_conv)
  from q obtain ps where ps: "trail (fst w1) = trail (fst w) @ ps" "snd w1 = snd w + length ps"
    using seeds_tally [OF assms(1)] unfolding tallies_def by blast
  show ?thesis
  proof (cases q)
    case (Inl e)
    then have "w' = w1" using assms(2) q by (cases e) (auto simp: explore_def)
    with ps calls show ?thesis by blast
  next
    case (Inr seeds)
    let ?V = "\<lparr>tv_tables = T, tv_policy = P, tv_caller = ctx, tv_at = t, tv_scope = ef_scope (fst (hd seeds))\<rparr>"
    have run: "search_levels I ?V (tp_depth P) (map (seed_path T) seeds)
        (empty_search\<lparr>ss_nodes := remdups (map (\<lambda>x. ref_key T (fst x)) seeds)\<rparr>) w1 = (r, w')"
      using assms(2) q Inr by (simp add: explore_def)
    from levels_tally [OF assms(1) run] obtain qs where "trail (fst w') = trail (fst w1) @ qs" "snd w' = snd w1 + length qs" by blast
    with ps have "\<exists>ps. trail (fst w') = trail (fst w) @ ps \<and> snd w' = snd w + length ps" by (intro exI [of _ "ps @ qs"]) simp
    moreover have "snd w' \<le> tp_max_calls P" using levels_keep [OF run] calls by simp
    ultimately show ?thesis ..
  qed
qed

lemma explore_cases:
  assumes "explore I T P ctx t ids w = (Inr R, w')" and "snd w \<le> tp_max_calls P"
  obtains m where "R = empty_search\<lparr>ss_reasons := [m]\<rparr>" "snd w' \<le> tp_max_calls P"
  | seeds xs w1 w2 where "index_read I ctx (tp_max_calls P) False (knowledge_only @ [WithIds ids, CreatedBy t] @ current_conditions P) [] 256 True w2
       = (Inr xs, w1)" and "check_seeds T t ids xs = Inr seeds" and "snd w1 \<le> tp_max_calls P"
    "search_levels I \<lparr>tv_tables = T, tv_policy = P, tv_caller = ctx, tv_at = t, tv_scope = ef_scope (fst (hd seeds))\<rparr>
       (tp_depth P) (map (seed_path T) seeds) (empty_search\<lparr>ss_nodes := remdups (map (\<lambda>x. ref_key T (fst x)) seeds)\<rparr>) w1 = (Inr R, w')"
    "require_ready I ctx (tp_max_calls P) w = (Inr (), w2)"
proof -
  obtain r w1 where r: "read_seeds I T P ctx t ids w = (r, w1)" using prod.exhaust by blast
  have calls: "snd w1 \<le> tp_max_calls P" using seeds_keep [of P I T ctx t ids] r assms(2) unfolding keeps_def by (metis snd_conv)
  show thesis
  proof (cases r)
    case (Inl e)
    then obtain u where "e = TraversalLimit u" using assms(1) r by (cases e) (auto simp: explore_def)
    then show thesis using assms(1) r Inl calls by (auto simp: explore_def intro: that(1))
  next
    case (Inr seeds)
    obtain xs w2 where xs: "index_read I ctx (tp_max_calls P) False (knowledge_only @ [WithIds ids, CreatedBy t] @ current_conditions P) [] 256 True w2
       = (Inr xs, w1)" "check_seeds T t ids xs = Inr seeds" "require_ready I ctx (tp_max_calls P) w = (Inr (), w2)"
      using r Inr unfolding read_seeds_def by (auto simp: bindS_Inr)
    have "search_levels I \<lparr>tv_tables = T, tv_policy = P, tv_caller = ctx, tv_at = t, tv_scope = ef_scope (fst (hd seeds))\<rparr>
       (tp_depth P) (map (seed_path T) seeds) (empty_search\<lparr>ss_nodes := remdups (map (\<lambda>x. ref_key T (fst x)) seeds)\<rparr>) w1 = (Inr R, w')"
      using assms(1) r Inr by (simp add: explore_def)
    from that(2) [OF xs(1,2) calls this xs(3)] show thesis .
  qed
qed

lemma traverse_explore:
  assumes "traverse I T P ctx now seed_ids s = (Inr R, s')"
  shows "length (remdups seed_ids) \<le> tp_max_nodes P \<and> (\<exists>S. explore I T P ctx (tr_at R) (sort (remdups seed_ids)) (s, 0) = (Inr S, (s', tr_calls R))
     \<and> tr_search R = S\<lparr>ss_reasons := sort (ss_reasons S)\<rparr> \<and> resolve_time P now = Inr (tr_at R))"
proof -
  have "length seed_ids \<le> tp_max_nodes P" using assms by (auto simp: traverse_def split: if_splits)
  then have "length (remdups seed_ids) \<le> tp_max_nodes P" using length_remdups_leq [of seed_ids] by linarith
  then show ?thesis using assms by (auto simp: traverse_def split: if_splits sum.splits prod.splits)
qed

lemma explore_bounded:
  assumes "pages_ok I" and "explore I T P ctx t ids (s, 0) = (Inr R, w')" and "distinct ids" and "length ids \<le> tp_max_nodes P"
  shows "in_budget P R \<and> list_all (\<lambda>p. pa_steps p \<noteq> [] \<and> length (pa_steps p) \<le> tp_depth P) (ss_paths R) \<and> snd w' \<le> tp_max_calls P"
proof (cases rule: explore_cases [OF assms(2)])
  case 1
  show ?case by simp
next
  case (2 m)
  then show ?thesis by (simp add: empty_search_def in_budget_def)
next
  case (3 seeds xs w1 w2)
  let ?V = "\<lparr>tv_tables = T, tv_policy = P, tv_caller = ctx, tv_at = t, tv_scope = ef_scope (fst (hd seeds))\<rparr>"
  let ?S = "empty_search\<lparr>ss_nodes := remdups (map (\<lambda>x. ref_key T (fst x)) seeds)\<rparr>"
  obtain ks more s1 s2 where "ix_pages I False (map Authorized ks @ knowledge_only @ [WithIds ids, CreatedBy t] @ current_conditions P) [] 256 s1
       = (Inr (xs, more), s2)"
    using 3(1) by (auto simp: index_read_def on_store_def bindS_Inr returnS_def raiseS_def split: if_splits prod.splits)
  then have "distinct (map fst xs)" using assms(1) unfolding pages_ok_def by blast
  then have "length seeds = card (set ids)"
    using check_seeds_Inr(2,3) [OF 3(2)] by (metis distinct_card length_map)
  then have "length (remdups (map (\<lambda>x. ref_key T (fst x)) seeds)) \<le> tp_max_nodes P"
    using assms(4) card_length [of ids] length_remdups_leq [of "map (\<lambda>x. ref_key T (fst x)) seeds"] by simp
  then have "bounded_acc P (tp_depth P) 0 (?S, map (seed_path T) seeds)"
    by (auto simp: bounded_acc_def in_budget_def empty_search_def list_all_iff seed_path_def counted_def)
  from levels_bounded [OF 3(4), of 0 "tp_depth P"] this 3(3) show ?thesis by simp
qed

lemma explore_walked:
  assumes U: "nfc_stable (ix_unicode I)" "caller_wf (ix_unicode I) c" and I: "pages_ok I" "logs_pages I trail"
    and run: "explore I T P (Some c) t ids (s, 0) = (Inr R, w')"
  shows "\<exists>scope. list_all (walked T P (since (length (trail s)) trail w') c t scope ids) (ss_paths R)"
proof (cases rule: explore_cases [OF run])
  case 1
  show ?case by simp
next
  case (2 m)
  then show ?thesis by (simp add: empty_search_def)
next
  case (3 seeds xs w1 w2)
  let ?k = "length (trail s)"
  let ?scope = "ef_scope (fst (hd seeds))"
  let ?V = "\<lparr>tv_tables = T, tv_policy = P, tv_caller = Some c, tv_at = t, tv_scope = ?scope\<rparr>"
  let ?S = "empty_search\<lparr>ss_nodes := remdups (map (\<lambda>x. ref_key T (fst x)) seeds)\<rparr>"
  have set: "search_setting I trail ?V c" using U I by (simp add: search_setting_def)
  have reads: "list_all (\<lambda>x. inside c (payload_identity (snd x))) xs"
    using index_read_points [OF U I(1) 3(1)] by (simp add: list_all_iff)
  have k: "?k \<le> length (trail (fst w2))" by (rule since_grows(2) [OF ready_tallies [OF I(2)] 3(5)]) simp
  note g = since_grows [OF tallies_read [OF I(2)] 3(1) k]
  have seen: "set xs \<subseteq> since ?k trail w1" by (rule index_read_since [OF I(2) 3(1) k])
  have "walked T P (since ?k trail w1) c t ?scope ids (seed_path T x)" if "x \<in> set seeds" for x
  proof -
    obtain r n where x: "x = (r, n)" by fastforce
    have n: "r = nd_ref n" "eligible t n" "ef_scope r = ?scope" "(nd_id n, Readable n) \<in> set xs"
      using check_seeds_Inr(4) [OF 3(2)] that unfolding x list_all_iff by blast+
    then have "inside c (ef_scope (nd_ref n))" using reads by (auto simp: list_all_iff)
    moreover have "same_scope ?scope n" using n(1,3) by (simp add: same_scope_def list_all_iff)
    moreover have "nd_id n \<in> set ids" using check_seeds_Inr(3) [OF 3(2)] that x by force
    ultimately show ?thesis using walk.start [of n ids "since ?k trail w1" c t ?scope T P] n seen
      by (auto simp: walked_def seed_path_def x permitted_def eligible_counts)
  qed
  then have "walked_acc T P (since ?k trail w1) c t ?scope ids (?S, map (seed_path T) seeds)"
    by (auto simp: walked_acc_def empty_search_def list_all_iff)
  then have "list_all (walked T P (since ?k trail w') c t ?scope ids) (ss_paths R)" using levels_walked [OF set 3(4) g(2)] by simp
  then show ?thesis by blast
qed


text \<open>
  C34. A relation traversal stays within its policy: however it ends, the store has answered no more
  calls than the policy allows; and a result counts exactly the calls that were made, reports no
  more nodes, relations and paths than allowed, and counts every entity and relation of its paths.
\<close>

theorem traversal_is_bounded:
  assumes "pages_ok I" and "logs_pages I trail" and "traverse I T P ctx now seed_ids s = (r, s')"
  shows "\<exists>pages. trail s' = trail s @ pages \<and> length pages \<le> tp_max_calls P
    \<and> (\<forall>R. r = Inr R \<longrightarrow> tr_calls R = length pages
        \<and> length (ss_nodes (tr_search R)) \<le> tp_max_nodes P \<and> length (ss_edges (tr_search R)) \<le> tp_max_edges P
        \<and> length (ss_paths (tr_search R)) \<le> tp_max_paths P \<and> list_all (counted (tr_search R)) (ss_paths (tr_search R)))"
proof (cases "s' = s \<and> (\<exists>e. r = Inl e)")
  case False
  obtain t q u where q: "explore I T P ctx t (sort (remdups seed_ids)) (s, 0) = (q, (s', u))"
    and r: "r = map_sum id (\<lambda>S. \<lparr>tr_search = S\<lparr>ss_reasons := sort (ss_reasons S)\<rparr>, tr_calls = u, tr_at = t, tr_historical = tp_as_of P \<noteq> None\<rparr>) q"
    and len: "length seed_ids \<le> tp_max_nodes P"
    using assms(3) False by (auto simp: traverse_def split: if_splits sum.splits prod.splits)
  have ids: "distinct (sort (remdups seed_ids))" "length (sort (remdups seed_ids)) \<le> tp_max_nodes P"
    using le_trans [OF length_remdups_leq len] by simp_all
  obtain pages where pages: "trail s' = trail s @ pages" "u = length pages" "u \<le> tp_max_calls P"
    using explore_tally [OF assms(2) q] by auto
  have "\<forall>R. r = Inr R \<longrightarrow> tr_calls R = length pages
        \<and> length (ss_nodes (tr_search R)) \<le> tp_max_nodes P \<and> length (ss_edges (tr_search R)) \<le> tp_max_edges P
        \<and> length (ss_paths (tr_search R)) \<le> tp_max_paths P \<and> list_all (counted (tr_search R)) (ss_paths (tr_search R))"
  proof (cases q)
    case (Inr S)
    have "counted (S\<lparr>ss_reasons := rs\<rparr>) = counted S" for rs by (simp add: counted_def fun_eq_iff)
    then show ?thesis using explore_bounded [OF assms(1) q [unfolded Inr] ids] r Inr pages(2) by (simp add: in_budget_def)
  qed (simp add: r)
  with pages show ?thesis by blast
qed auto

subsection \<open>Witnesses\<close>

text \<open>The two related entities in a store.\<close>

definition example_node :: "nat \<Rightarrow> node" where
  "example_node k = \<lparr>nd_id = [k], nd_episode = False, nd_ref = example_ref k, nd_status = K_ACTIVE, nd_version = 1, nd_created = 0,
     nd_event = 0, nd_recall = True, nd_live = True,
     nd_extensions = (if k = 97 then [relations_key \<mapsto> JArr []] else Map.empty)(index_key \<mapsto> JObj [(lit ''owner_key'', JStr [k])]),
     nd_ordinary = True, nd_content = [k]\<rparr>"

definition example_page :: "relation_condition list \<Rightarrow> relation_condition list \<Rightarrow> relation_point list" where
  "example_page must must_not = (if must_not \<noteq> [] then []
     else filter (\<lambda>x. list_all (\<lambda>k. selected k x) must) [([97], Readable (example_node 97)), ([98], Readable (example_node 98))])"

text \<open>A store that keeps what it has answered.\<close>

definition example_index :: "relation_point list list relation_index" where
  "example_index = \<lparr>ix_unicode = ascii_tables,
     ix_pages = (\<lambda>episode must must_not n s. (Inr (example_page must must_not, False), s @ [example_page must must_not])),
     ix_background = False, ix_verified = True\<rparr>"

definition example_traversal :: traversal_policy where
  "example_traversal = \<lparr>tp_depth = 1, tp_max_nodes = 4, tp_max_edges = 4, tp_max_paths = 4, tp_max_calls = 8, tp_direction = OUT,
     tp_kinds = [DEPENDS_ON], tp_as_of = None\<rparr>"

lemma example_index_ok: "pages_ok example_index" "logs_pages example_index id"
  by (auto simp: pages_ok_def logs_pages_def example_index_def example_page_def page_points_def list_all_iff)

lemma example_read:
  assumes "operation_specs op = mk_spec READ True False"
  shows "\<exists>plan. enforce_operation ascii_tables (Some (example_caller 97)) op Map.empty = Inr plan
    \<and> scope_conditions plan = Inr [MatchValue TENANT [97], MatchValue USER [98]]"
proof -
  have m: "ca_mode (example_caller 97) = MULTI_USER" by (simp add: example_caller_def)
  let ?cs = "[\<lparr>fc_field = TENANT, fc_operator = OP_EQ, fc_values = [[97]]\<rparr>, \<lparr>fc_field = USER, fc_operator = OP_EQ, fc_values = [[98]]\<rparr>]"
  have f: "filter_stage (mk_spec READ True False) (example_scope [97] [98]) {|TENANT, USER|} = Inr (Some ?cs)"
    by (simp add: filter_stage_def mk_spec_def build_storage_filter_def dimension_order_def example_scope_def required_list_def)
  have "plan_enforcement ascii_tables (example_caller 97) op empty_scope = Inr \<lparr>ep_operation = op, ep_class = READ, ep_allow = True,
      ep_reason = ENFORCEMENT_ALLOWED, ep_required = {|TENANT, USER|}, ep_scope = Some (example_scope [97] [98]), ep_filter = Some ?cs,
      ep_attribution = None\<rparr>"
    using assms f by (simp add: plan_enforcement_def m example_plan attribution_stage_def Let_def) (simp add: mk_spec_def)
  then have "enforce_operation ascii_tables (Some (example_caller 97)) op Map.empty = Inr (Some \<lparr>ep_operation = op, ep_class = READ, ep_allow = True,
      ep_reason = ENFORCEMENT_ALLOWED, ep_required = {|TENANT, USER|}, ep_scope = Some (example_scope [97] [98]), ep_filter = Some ?cs,
      ep_attribution = None\<rparr>)"
    by (simp add: enforce_operation_def normalize_selectors_empty requested_raw_Nil)
  then show ?thesis by (simp add: scope_conditions_def storage_filter_to_repository_filter_def repository_condition_def)
qed

lemma example_conditions: "index_conditions example_index (Some (example_caller 97)) episode = Inr [MatchValue TENANT [97], MatchValue USER [98]]"
proof -
  let ?op = "if episode then MEMORY_GET else KNOWLEDGE_GET"
  have "operation_specs ?op = mk_spec READ True False" by simp
  from example_read [OF this] obtain plan where plan: "enforce_operation ascii_tables (Some (example_caller 97)) ?op Map.empty = Inr plan"
    "scope_conditions plan = Inr [MatchValue TENANT [97], MatchValue USER [98]]" by blast
  have "index_conditions example_index (Some (example_caller 97)) episode
      = bindE (enforce_operation ascii_tables (Some (example_caller 97)) ?op Map.empty) scope_conditions"
    by (simp only: index_conditions_def example_index_def option.case relation_index.simps if_False)
  then show ?thesis by (simp only: plan bindE_simps)
qed

lemma example_level:
  "index_read example_index (Some (example_caller 97)) 8 episode must must_not n b (s, u) =
     (if 8 \<le> u then (Inl (TraversalLimit (lit ''storage_calls'')), (s, u))
      else (Inr (example_page must must_not), (s @ [example_page must must_not], Suc u)))"
proof -
  have "example_page ([Authorized (MatchValue TENANT [97]), Authorized (MatchValue USER [98])] @ must) must_not = example_page must must_not"
    by (auto simp: example_page_def example_node_def example_ref_def)
  then show ?thesis unfolding index_read_def example_conditions bindS_liftS
    by (simp add: bindS_def charge_def on_store_def example_index_def returnS_def)
qed

lemma example_extensions:
  "bundle_from_extensions example_relations (nd_extensions (example_node 97)) = Inr [example_edge]"
  "bundle_from_extensions example_relations (nd_extensions (example_node 98)) = Inr []"
  by (simp_all add: bundle_from_extensions_def example_node_def relations_key_def index_key_def lit_eq_iff example_relations_def)

lemma example_intact: "verify_projection example_relations (example_node 97) = Inr ()" "verify_projection example_relations (example_node 98) = Inr ()"
proof -
  have "nd_ref (example_node k) = example_ref k" for k by (simp add: example_node_def)
  moreover have "rt_json_text example_relations j = []" for j by (simp add: example_relations_def)
  moreover have "ed_source example_edge = example_ref 97" by (simp add: example_edge_def)
  ultimately show "verify_projection example_relations (example_node 97) = Inr ()" "verify_projection example_relations (example_node 98) = Inr ()"
    by (simp_all add: verify_projection_def projection_def example_extensions example_reference)
qed

lemma example_eligible: "eligible 5 (example_node k)"
  by (simp add: eligible_def example_node_def unsettled_def evolution_state_def evolution_state_key_def index_key_def relations_key_def lit_eq_iff)

definition example_view :: level_view where
  "example_view = \<lparr>lv_heads = [[97] \<mapsto> example_node 97, [98] \<mapsto> example_node 98],
     lv_knowledge = [[97] \<mapsto> example_node 97, [98] \<mapsto> example_node 98], lv_episodes = Map.empty\<rparr>"


definition example_path :: path where
  "example_path = \<lparr>pa_keys = [[97], [98]], pa_records = [[97], [98]], pa_steps = [make_step (example_node 97) example_edge True]\<rparr>"

lemma example_step: "make_step (example_node 97) example_edge True = \<lparr>sp_relation = ed_id example_edge, sp_kind = DEPENDS_ON, sp_forward = True,
    sp_owner = [97], sp_version = 1, sp_record = [98], sp_evidence = [\<lparr>vr_episode = False, vr_id = [97]\<rparr>], sp_from = 0, sp_until = None\<rparr>"
  by (simp add: make_step_def example_node_def example_edge_def)

lemma example_canonical: "canonical_node False ([k], Readable (example_node k)) = Inr (example_node k)"
  by (simp add: canonical_node_def example_node_def)

lemma example_fields [simp]: "nd_ref (example_node k) = example_ref k" "nd_id (example_node k) = [k]" "nd_created (example_node k) = 0"
  "nd_status (example_node k) = K_ACTIVE" "nd_version (example_node k) = 1" "ef_scope (example_ref k) = [TENANT \<mapsto> [97], USER \<mapsto> [98]]"
  "stored_owner (example_node k) = Some [k]" "unsettled (example_node k) = False"
  by (simp_all add: example_node_def example_ref_def stored_owner_def unsettled_def evolution_state_def evolution_state_key_def index_key_def
      relations_key_def lit_eq_iff)

abbreviation example_points :: "relation_point list" where
  "example_points \<equiv> [([97], Readable (example_node 97)), ([98], Readable (example_node 98))]"

lemma example_seeds: "check_seeds example_relations 5 [[97]] [([97], Readable (example_node 97))] = Inr [(example_ref 97, example_node 97)]"
  by (simp add: check_seeds_def example_canonical example_eligible example_reference example_intact dimension_order_def)

lemma example_claims: "mapE (claims_of example_relations example_traversal 5 [[97]]) example_points = Inr [[(example_node 97, example_edge)], []]"
  by (simp add: claims_of_def example_canonical example_intact example_eligible example_extensions edge_holds_def touches_def follows_out_def)
    (simp add: example_edge_def example_traversal_def)

lemma example_heads: "head_map example_relations example_traversal 5 example_points = Inr [([97], example_node 97), ([98], example_node 98)]"
  by (simp add: head_map_def head_entry_def example_canonical example_intact example_reference map_filter_def fromkeys_def head_of_def
      example_traversal_def Let_def)

lemma example_nodes: "node_map False example_points = Inr [[97] \<mapsto> example_node 97, [98] \<mapsto> example_node 98]"
  by (simp add: node_map_def example_canonical fun_upd_twist)

definition example_traverser :: traverser where
  "example_traverser = \<lparr>tv_tables = example_relations, tv_policy = example_traversal, tv_caller = Some (example_caller 97), tv_at = 5,
     tv_scope = [TENANT \<mapsto> [97], USER \<mapsto> [98]]\<rparr>"

lemma example_bounds [simp]: "tp_max_calls example_traversal = 8" "tp_as_of example_traversal = None" "tp_depth example_traversal = 1"
  "tp_max_nodes example_traversal = 4" "tp_max_edges example_traversal = 4" "tp_max_paths example_traversal = 4" "tp_direction example_traversal = OUT"
  by (simp_all add: example_traversal_def)

lemma example_traverser_fields [simp]: "tv_tables example_traverser = example_relations" "tv_policy example_traverser = example_traversal"
  "tv_caller example_traverser = Some (example_caller 97)" "tv_at example_traverser = 5" "tv_scope example_traverser = [TENANT \<mapsto> [97], USER \<mapsto> [98]]"
  by (simp_all add: example_traverser_def)

lemma example_edge_fields [simp]: "ed_source example_edge = example_ref 97" "ed_target example_edge = example_ref 98" 
  "ed_evidence example_edge = [\<lparr>vr_episode = False, vr_id = [97]\<rparr>]" "ed_record example_edge = [98]" "ed_kind example_edge = DEPENDS_ON"
  by (simp_all add: example_edge_def)

lemma example_selected:
  assumes "u < 8" and "list_all (\<lambda>k. selected k ([97], Readable (example_node 97)) \<and> selected k ([98], Readable (example_node 98))) must"
  shows "level_read example_index example_traverser episode must (s, u) = (Inr example_points, (s @ [example_points], Suc u))"
proof -
  have "example_page must [] = example_points" using assms(2) by (simp add: example_page_def list_all_iff)
  then show ?thesis using assms(1) by (simp add: level_read_def example_level)
qed

lemma example_read_view:
  "read_view example_index example_traverser [[97]] [(example_node 97, example_edge)] (s, 3) = (Inr example_view, (s @ [example_points], 4))"
proof -
  let ?sel = "\<lambda>ks x. case snd x of Readable n \<Rightarrow> (case stored_owner n of Some k \<Rightarrow> k \<in> set ks | None \<Rightarrow> False) | Illegible _ \<Rightarrow> False"
  have keys: "sort (remdups ([[97]] @ owner_keys example_relations [(example_node 97, example_edge)])) = [[97], [98]]"
    by (simp add: owner_keys_def)
  have ids: "proof_ids False [(example_node 97, example_edge)] = [[97]]" "proof_ids True [(example_node 97, example_edge)] = []"
    by (simp_all add: proof_ids_def)
  have sel: "filter (?sel [[97], [98]]) example_points = example_points" by simp
  have swap: "[[98::nat] \<mapsto> example_node 98, [97] \<mapsto> example_node 97] = [[97] \<mapsto> example_node 97, [98] \<mapsto> example_node 98]"
    by (rule fun_upd_twist) simp
  have "level_read example_index example_traverser False (knowledge_only @ partition (tv_scope example_traverser) (tv_scope example_traverser SESSION \<noteq> None)
      @ time_conditions example_traverser @ [AnyOf ([OwnedBy [[97], [98]]] @ [WithIds [[97]]])]) (s, 3) = (Inr example_points, (s @ [example_points], Suc 3))"
    by (rule example_selected) (simp_all add: knowledge_only_def partition_def time_conditions_def dimension_order_def)
  then show ?thesis
    unfolding read_view_def Let_def example_traverser_fields keys ids
    by (simp add: bindS_def liftS_def example_nodes sel example_heads returnS_def example_view_def swap)
qed

lemma example_walk:
  "search_level example_index example_traverser [seed_path example_relations (example_ref 97, example_node 97)] (empty_search\<lparr>ss_nodes := [[97]]\<rparr>) (s, 2)
   = (Inr (empty_search\<lparr>ss_paths := [example_path], ss_nodes := [[98], [97]], ss_edges := [ed_id example_edge]\<rparr>, [example_path]),
      (s @ [example_points, example_points], 4))"
proof -
  have "level_read example_index example_traverser False (knowledge_only @ partition (tv_scope example_traverser) True @ time_conditions example_traverser
      @ current_conditions example_traversal @ [AnyOf [OwnedBy [[97]], Targets [[97]]]]) (s, 2) = (Inr example_points, (s @ [example_points], Suc 2))"
    by (rule example_selected) (simp_all add: knowledge_only_def partition_def time_conditions_def current_conditions_def dimension_order_def)
  moreover have "transitions example_relations example_traversal 5 [TENANT \<mapsto> [97], USER \<mapsto> [98]] example_view (example_node 97, example_edge)
      = [([97], [98], [98], make_step (example_node 97) example_edge True)]"
    by (simp add: transitions_def example_view_def example_eligible proof_holds_def same_scope_def dimension_order_def follows_out_def follows_in_def Let_def)
  moreover have "follow_path example_traversal 5 example_view [([97], [98], [98], make_step (example_node 97) example_edge True)]
      (seed_path example_relations (example_ref 97, example_node 97)) (empty_search\<lparr>ss_nodes := [[97]]\<rparr>, [])
      = (empty_search\<lparr>ss_paths := [example_path], ss_nodes := [[98], [97]], ss_edges := [ed_id example_edge]\<rparr>, [example_path])"
    by (simp add: follow_path_def example_view_def example_eligible seed_path_def extend_path_def empty_search_def example_step example_path_def Let_def)
  ultimately show ?thesis
    by (simp add: search_level_def Let_def bindS_def liftS_def returnS_def seed_path_def example_claims example_read_view del: mapE.simps)
qed

definition example_pages :: "relation_point list list" where
  "example_pages = [[], [([97], Readable (example_node 97))], example_points, example_points]"

lemma example_traverse:
  "traverse example_index example_relations example_traversal (Some (example_caller 97)) 5 [[97]] []
   = (Inr \<lparr>tr_search = empty_search\<lparr>ss_paths := [example_path], ss_nodes := [[98], [97]], ss_edges := [ed_id example_edge], ss_reasons := [lit ''depth'']\<rparr>,
       tr_calls = 4, tr_at = 5, tr_historical = False\<rparr>, example_pages)"
proof -
  have verified: "ix_verified example_index" by (simp add: example_index_def)
  have ready: "require_ready example_index (Some (example_caller 97)) 8 ([], 0) = (Inr (), ([[]], 1))"
    unfolding require_ready_def example_conditions bindS_liftS by (simp add: verified bindS_def example_level returnS_def example_page_def)
  have "index_read example_index (Some (example_caller 97)) 8 False
      (knowledge_only @ [WithIds [[97]], CreatedBy 5] @ current_conditions example_traversal) [] 256 True ([[]], 1)
      = (Inr [([97], Readable (example_node 97))], ([[], [([97], Readable (example_node 97))]], 2))"
    by (simp add: example_level example_page_def knowledge_only_def current_conditions_def)
  then have seeds: "read_seeds example_index example_relations example_traversal (Some (example_caller 97)) 5 [[97]] ([], 0)
      = (Inr [(example_ref 97, example_node 97)], ([[], [([97], Readable (example_node 97))]], 2))"
    by (simp add: read_seeds_def bindS_def liftS_def ready example_seeds)
  have "search_levels example_index example_traverser 1 [seed_path example_relations (example_ref 97, example_node 97)]
      (empty_search\<lparr>ss_nodes := [[97]]\<rparr>) ([[], [([97], Readable (example_node 97))]], 2)
    = (Inr (empty_search\<lparr>ss_paths := [example_path], ss_nodes := [[98], [97]], ss_edges := [ed_id example_edge], ss_reasons := [lit ''depth'']\<rparr>), (example_pages, 4))"
    using example_walk by (simp add: add_reason_def empty_search_def example_pages_def)
  then show ?thesis
    by (simp add: traverse_def resolve_time_def explore_def seeds example_traverser_def)
qed


lemma traversal_is_bounded_witness:
  "\<exists>R. traverse example_index example_relations example_traversal (Some (example_caller 97)) 5 [[97]] [] = (Inr R, example_pages)
    \<and> ss_paths (tr_search R) = [example_path] \<and> counted (tr_search R) example_path \<and> tr_calls R = length example_pages
    \<and> length example_pages \<le> 8"
  using traversal_is_bounded [OF example_index_ok example_traverse] by (simp add: example_traverse)

end
