(* ===== verification/Relation_Admission.thy ===== *)
theory Relation_Admission
  imports Relation_Traversal "HOL-Library.AList"
begin

text \<open>
  Writing relations: the admission of explicit assertions (\<^verbatim>\<open>relations/admission.py\<close>), the review
  service (\<^verbatim>\<open>relations/review.py\<close>), the rebuilding of the projection (\<^verbatim>\<open>relations/storage.py\<close>) and the
  census of the offline rollout (\<^verbatim>\<open>relations/maintenance.py\<close>). The point store and the evolution
  service are parameters; the files of a checkpoint are not modelled.
\<close>

subsection \<open>Admission\<close>

text \<open>What admission remembers between its edges: the targets it read, and the evidence.\<close>

record admission_cache =
  ac_targets :: "uid \<times> bool \<rightharpoonup> relation_point"
  ac_evidence :: "evidence_ref \<rightharpoonup> node"

record 's admission_store =
  as_unicode :: unicode_tables
  as_tables :: relation_tables
  as_retrieve :: "bool \<Rightarrow> uid \<Rightarrow> relation_condition list \<Rightarrow> ('s, relation_point option) io"
  as_episodes :: bool

definition parse_bundle :: "relation_tables \<Rightarrow> json \<Rightarrow> relation_edge list result" where
  "parse_bundle T raw =
     (case rt_parse T raw of
        Inl (ValueError _) \<Rightarrow> Inl (ConfigurationError (lit ''invalid relations schema or assertion''))
      | Inl (TypeError _) \<Rightarrow> Inl (ConfigurationError (lit ''invalid relations schema or assertion''))
      | r \<Rightarrow> r)"

definition check_edge :: "relation_tables \<Rightarrow> caller_authority option \<Rightarrow> entity_ref \<Rightarrow> relation_edge \<Rightarrow> unit result" where
  "check_edge T ctx source e =
     (if ref_key T (ed_source e) \<noteq> ref_key T source
      then Inl (ConfigurationError (lit ''relation source differs from canonical Knowledge identity''))
      else if ed_status e \<noteq> R_PROPOSED then require_review_authority ctx else Inr ())"

definition target_conditions :: "identity_values \<Rightarrow> repo_condition list \<Rightarrow> bool \<Rightarrow> relation_condition list" where
  "target_conditions scope ks historical =
     partition scope True @ map Authorized ks
     @ (if historical then [OrdinaryClass] else [ActiveOnly, AnyOf [OrdinaryClass, ClassEmpty], AnyOf [Recallable, RecallEmpty]])"

definition evidence_conditions :: "identity_values \<Rightarrow> repo_condition list \<Rightarrow> bool \<Rightarrow> relation_condition list" where
  "evidence_conditions scope ks episode =
     partition scope (scope SESSION \<noteq> None) @ map Authorized ks @ OfType episode # (if episode then [] else [OrdinaryClass])"

definition canonical_at :: "bool \<Rightarrow> uid \<Rightarrow> relation_point option \<Rightarrow> node result" where
  "canonical_at episode i p =
     (case p of None \<Rightarrow> Inl unavailable | Some q \<Rightarrow> if fst q = i then canonical_node episode q else Inl unavailable)"

definition admit_target :: "'s admission_store \<Rightarrow> identity_values \<Rightarrow> repo_condition list \<Rightarrow> relation_edge \<Rightarrow> admission_cache
    \<Rightarrow> ('s, admission_cache) io" where
  "admit_target A scope ks e C =
     (let historical = (ed_status e = R_REJECTED) in
      bindS (case ac_targets C (ed_record e, historical) of
          Some p \<Rightarrow> returnS (Some p)
        | None \<Rightarrow> as_retrieve A False (ed_record e) (target_conditions scope ks historical)) (\<lambda>found.
        case found of
          None \<Rightarrow> raiseS unavailable
        | Some p \<Rightarrow> bindS (liftS (canonical_at False (ed_record e) (Some p))) (\<lambda>n.
            case make_ref (as_tables A) (nd_ref n) of
              Inl _ \<Rightarrow> raiseS unavailable
            | Inr r \<Rightarrow> if ref_key (as_tables A) r \<noteq> ref_key (as_tables A) (ed_target e) then raiseS unavailable
                else returnS (C\<lparr>ac_targets := (ac_targets C)((ed_record e, historical) \<mapsto> p)\<rparr>))))"

definition admit_proof :: "'s admission_store \<Rightarrow> identity_values \<Rightarrow> (bool \<Rightarrow> repo_condition list result) \<Rightarrow> bool \<Rightarrow> evidence_ref
    \<Rightarrow> admission_cache \<Rightarrow> ('s, admission_cache) io" where
  "admit_proof A scope conditions historical v C =
     (case ac_evidence C v of
        Some n \<Rightarrow> if \<not> historical \<and> \<not> nd_recall n then raiseS unavailable else returnS C
      | None \<Rightarrow>
          bindS (liftS (conditions (vr_episode v))) (\<lambda>ks.
          bindS (as_retrieve A (vr_episode v) (vr_id v) (evidence_conditions scope ks (vr_episode v))) (\<lambda>p.
          bindS (liftS (canonical_at (vr_episode v) (vr_id v) p)) (\<lambda>n.
            if \<not> historical \<and> \<not> nd_recall n then raiseS unavailable
            else returnS (C\<lparr>ac_evidence := (ac_evidence C)(v \<mapsto> n)\<rparr>)))))"

primrec passS :: "('a \<Rightarrow> 'c \<Rightarrow> ('s, 'c) io) \<Rightarrow> 'a list \<Rightarrow> 'c \<Rightarrow> ('s, 'c) io" where
  "passS f [] c = returnS c"
| "passS f (x # xs) c = bindS (f x c) (passS f xs)"

definition admit_edge :: "'s admission_store \<Rightarrow> identity_values \<Rightarrow> repo_condition list \<Rightarrow> (bool \<Rightarrow> repo_condition list result)
    \<Rightarrow> relation_edge \<Rightarrow> admission_cache \<Rightarrow> ('s, admission_cache) io" where
  "admit_edge A scope ks conditions e C =
     bindS (admit_target A scope ks e C) (passS (admit_proof A scope conditions (ed_status e = R_REJECTED)) (ed_evidence e))"

text \<open>The permission checks come before any read.\<close>

definition admit_relations :: "'s admission_store \<Rightarrow> caller_authority option \<Rightarrow> entity_ref \<Rightarrow> json \<Rightarrow> ('s, relation_edge list) io" where
  "admit_relations A ctx source raw =
     (let U = as_unicode A; T = as_tables A in
      bindS (liftS (parse_bundle T raw)) (\<lambda>edges.
      bindS (liftS (mapE (check_edge T ctx source) edges)) (\<lambda>_.
      bindS (liftS (enforce_operation U ctx KNOWLEDGE_GET Map.empty)) (\<lambda>knowledge.
      let episodes = list_ex vr_episode (concat (map ed_evidence edges)) in
      bindS (liftS (if episodes then enforce_operation U ctx MEMORY_GET Map.empty else Inr None)) (\<lambda>episode.
      if episodes \<and> \<not> as_episodes A
      then raiseS (ConfigurationError (lit ''episodic relation evidence repository is not configured''))
      else bindS (liftS (scope_conditions knowledge)) (\<lambda>ks.
        let conditions = (\<lambda>b. scope_conditions (if b then episode else knowledge)) in
        bindS (passS (admit_edge A (ef_scope source) ks conditions) edges \<lparr>ac_targets = Map.empty, ac_evidence = Map.empty\<rparr>) (\<lambda>_.
          returnS edges)))))))"

subsection \<open>The review service\<close>

definition within_budget :: "nat \<Rightarrow> ('s \<times> nat, 'a) io \<Rightarrow> ('s, 'a) io" where
  "within_budget used m s = (case m (s, used) of (r, (s', _)) \<Rightarrow> (r, s'))"

definition source_conditions :: "uid \<Rightarrow> relation_condition list" where
  "source_conditions i = [WithIds [i], OfType False, OrdinaryClass, ActiveOnly, Recallable, LifecycleActive]"

definition relation_source :: "'s relation_index \<Rightarrow> relation_tables \<Rightarrow> caller_authority option \<Rightarrow> uid \<Rightarrow> ('s, node) io" where
  "relation_source I T ctx i =
     (if (case ctx of None \<Rightarrow> True | Some c \<Rightarrow> WRITE |\<notin>| gr_operations (ca_grant c))
      then raiseS (ConfigurationError (lit ''relation proposal/review requires canonical write authority''))
      else bindS (within_budget 0 (index_read I ctx 1 False (source_conditions i) [] 256 True)) (\<lambda>points.
        if length points \<noteq> 1 then raiseS (ConfigurationError (lit ''relation source unavailable''))
        else bindS (liftS (canonical_at False i (Some (hd points)))) (\<lambda>n.
             bindS (liftS (enforce_operation (ix_unicode I) ctx KNOWLEDGE_WRITE (ef_scope (nd_ref n)))) (\<lambda>_.
             bindS (liftS (if index_key \<in> dom (nd_extensions n) then verify_projection T n else Inr ())) (\<lambda>_.
               returnS n)))))"

text \<open>\<open>store\<close> is the evolution service: it stores the source again with the given relations.\<close>

definition propose :: "'s relation_index \<Rightarrow> relation_tables \<Rightarrow> (node \<Rightarrow> relation_edge list \<Rightarrow> ('s, 'r) io) \<Rightarrow> caller_authority option
    \<Rightarrow> uid \<Rightarrow> relation_edge list \<Rightarrow> ('s, 'r) io" where
  "propose I T store ctx i proposed =
     bindS (liftS (bindE (mapE (make_edge T) (map raw_of proposed)) make_bundle)) (\<lambda>edges.
     if edges = [] \<or> list_ex (\<lambda>e. ed_status e \<noteq> R_PROPOSED) edges
     then raiseS (ConfigurationError (lit ''proposal must contain only proposed assertions''))
     else bindS (relation_source I T ctx i) (\<lambda>n.
          bindS (liftS (bundle_from_extensions T (nd_extensions n))) (\<lambda>previous.
          bindS (liftS (propose_bundle edges previous)) (store n))))"

definition review_relation :: "'s relation_index \<Rightarrow> relation_tables \<Rightarrow> (node \<Rightarrow> relation_edge list \<Rightarrow> ('s, 'r) io) \<Rightarrow> caller_authority option
    \<Rightarrow> uid \<Rightarrow> ustr \<Rightarrow> relation_status \<Rightarrow> ustr \<Rightarrow> ('s, 'r) io" where
  "review_relation I T store ctx i relation status note_text =
     bindS (liftS (require_review_authority ctx)) (\<lambda>_.
     if status \<notin> {R_ACCEPTED, R_REJECTED} then raiseS (ValueError (lit ''review status must be accepted or rejected''))
     else bindS (relation_source I T ctx i) (\<lambda>n.
          bindS (liftS (bundle_from_extensions T (nd_extensions n))) (\<lambda>previous.
          bindS (liftS (review_bundle T relation status note_text previous)) (store n))))"

subsection \<open>Rebuilding the projection\<close>

definition pending_projection :: "relation_tables \<Rightarrow> relation_point \<Rightarrow> (uid \<times> dict) result" where
  "pending_projection T point =
     bindE (canonical_node False point) (\<lambda>n.
     bindE (projection T n) (\<lambda>v. Inr (fst point, (nd_extensions n)(index_key \<mapsto> v))))"

text \<open>The whole page is checked before anything is written.\<close>

definition rebuild :: "'s relation_index \<Rightarrow> relation_tables \<Rightarrow> (uid \<Rightarrow> dict \<Rightarrow> ('s, unit) io) \<Rightarrow> caller_authority option
    \<Rightarrow> int \<Rightarrow> ('s, nat) io" where
  "rebuild I T set_extensions ctx maximum =
     bindS (liftS (require_review_authority ctx)) (\<lambda>_.
     bindS (liftS (enforce_operation (ix_unicode I) ctx KNOWLEDGE_WRITE Map.empty)) (\<lambda>_.
     if \<not> (1 \<le> maximum \<and> maximum \<le> 256) then raiseS (ValueError (lit ''rebuild maximum_records must be between 1 and 256''))
     else bindS (within_budget 0 (index_read I ctx 1 False knowledge_only [] (nat maximum) True)) (\<lambda>points.
          bindS (liftS (mapE (pending_projection T) points)) (\<lambda>pending.
          bindS (forS (\<lambda>(i, ext). set_extensions i ext) pending) (\<lambda>_. returnS (length pending))))))"

subsection \<open>The census\<close>

record relation_scan =
  sc_id :: uid
  sc_raw :: json
  sc_extensions :: dict
  sc_projection :: json

record relation_census =
  rc_hash :: ustr
  rc_records :: nat
  rc_missing :: nat
  rc_eligible :: nat
  rc_assertions :: nat
  rc_pages :: nat

text \<open>
  The maintenance service: its limits, the pages of the store (points with their raw payloads, and
  where the next page starts), the fingerprint of a census's source, and the writes.
\<close>

record 's relation_maintenance =
  mt_index :: "'s relation_index"
  mt_tables :: relation_tables
  mt_page :: "relation_condition list \<Rightarrow> ustr option \<Rightarrow> ('s, (relation_point \<times> json) list \<times> ustr option) io"
  mt_hash :: "identity_scope \<Rightarrow> (uid \<times> json) list \<Rightarrow> ustr"
  mt_prepare :: "('s, unit) io"
  mt_write :: "uid \<Rightarrow> dict \<Rightarrow> ('s, unit) io"
  mt_records :: nat
  mt_bytes :: nat

definition make_maintenance_limits :: "int \<Rightarrow> int \<Rightarrow> (nat \<times> nat) result" where
  "make_maintenance_limits records bytes =
     (if \<not> (1 \<le> records \<and> records \<le> 50000)
      then Inl (ValueError (lit ''maintenance record limit must be between 1 and 50000''))
      else if \<not> (1024 \<le> bytes \<and> bytes \<le> 67108864)
      then Inl (ValueError (lit ''maintenance payload limit must be between 1024 and 67108864''))
      else Inr (nat records, nat bytes))"

text \<open>The raw payload without its projection.\<close>

definition extensions_field :: ustr where
  "extensions_field = lit ''extensions''"

definition strip_extensions :: "json option \<Rightarrow> json" where
  "strip_extensions v = (case v of Some (JObj es) \<Rightarrow> JObj (filter (\<lambda>x. fst x \<noteq> index_key) es) | _ \<Rightarrow> JObj [])"

definition strip_index :: "json \<Rightarrow> json" where
  "strip_index raw = (case raw of
     JObj kvs \<Rightarrow> JObj (AList.update extensions_field (strip_extensions (map_of kvs extensions_field)) kvs)
   | v \<Rightarrow> v)"

fun scan_points :: "'s relation_maintenance \<Rightarrow> (relation_point \<times> json) list \<Rightarrow> nat \<Rightarrow> relation_scan list \<Rightarrow> (nat \<times> relation_scan list) result" where
  "scan_points M [] bytes records = Inr (bytes, records)"
| "scan_points M ((point, raw) # points) bytes records =
     bindE (canonical_node False point) (\<lambda>n.
     bindE (projection (mt_tables M) n) (\<lambda>v.
     bindE (if index_key \<in> dom (nd_extensions n) then verify_projection (mt_tables M) n else Inr ()) (\<lambda>_.
       let stripped = strip_index raw; bytes' = bytes + utf8_length (rt_json_text (mt_tables M) stripped)
       in if mt_records M \<le> length records \<or> mt_bytes M < bytes'
          then Inl (ConfigurationError (lit ''relation census capacity exceeded''))
          else scan_points M points bytes' (records @ [\<lparr>sc_id = fst point, sc_raw = stripped, sc_extensions = nd_extensions n, sc_projection = v\<rparr>]))))"

lemma scan_points_length:
  "scan_points M points bytes records = Inr (bytes', records') \<Longrightarrow>
     length records' = length records + length points \<and> (points \<noteq> [] \<longrightarrow> length records' \<le> mt_records M)"
proof (induction points arbitrary: bytes records)
  case (Cons p points)
  obtain point raw where p: "p = (point, raw)" by fastforce
  let ?stripped = "strip_index raw"
  let ?bytes = "bytes + utf8_length (rt_json_text (mt_tables M) ?stripped)"
  let ?rows = "\<lambda>(n :: node) v. records @ [\<lparr>sc_id = fst point, sc_raw = ?stripped, sc_extensions = nd_extensions n, sc_projection = v\<rparr>]"
  from Cons.prems obtain n :: node and v where r: "(if mt_records M \<le> length records \<or> mt_bytes M < ?bytes
      then Inl (ConfigurationError (lit ''relation census capacity exceeded'')) else scan_points M points ?bytes (?rows n v)) = Inr (bytes', records')"
    unfolding p scan_points.simps bindE_eq_Inr Let_def by (elim exE conjE) (erule that)
  then have fits: "\<not> (mt_records M \<le> length records \<or> mt_bytes M < ?bytes)" by (auto split: if_splits)
  with r have "scan_points M points ?bytes (?rows n v) = Inr (bytes', records')" by simp
  from Cons.IH [OF this] fits show ?case by (cases points) auto
qed simp

text \<open>
  The pages one after the other. Every page that has a successor holds a point, and the records
  are limited, so the loop ends.
\<close>

function scan_pages :: "'s relation_maintenance \<Rightarrow> relation_condition list \<Rightarrow> ustr option \<Rightarrow> ustr list \<Rightarrow> nat \<Rightarrow> nat
    \<Rightarrow> relation_scan list \<Rightarrow> 's \<Rightarrow> (relation_scan list \<times> nat) result \<times> 's" where
  "scan_pages M query offset offsets pages bytes records s =
     (case mt_page M query offset s of
        (Inl e, s') \<Rightarrow> (Inl e, s')
      | (Inr (points, continuation), s') \<Rightarrow>
          (case scan_points M points bytes records of
             Inl e \<Rightarrow> (Inl e, s')
           | Inr (bytes', records') \<Rightarrow>
               (case continuation of
                  None \<Rightarrow> (Inr (records', Suc pages), s')
                | Some marker \<Rightarrow>
                    if points = [] \<or> marker \<in> set offsets
                    then (Inl (ConfigurationError (lit ''relation census continuation is inconsistent'')), s')
                    else scan_pages M query (Some marker) (marker # offsets) (Suc pages) bytes' records' s')))"
  by pat_completeness auto

termination
proof (relation "measure (\<lambda>(M, _, _, _, _, _, records, _). mt_records M - length records)", goal_cases)
  case 1
  then show ?case by simp
next
  case (2 M query offset offsets pages bytes records s r s' a points continuation b bytes' records' marker)
  from 2(4) 2(5) have "scan_points M points bytes records = Inr (bytes', records')" by simp
  from scan_points_length [OF this] 2(7) show ?case by (cases points) auto
qed

definition projection_eligible :: "json \<Rightarrow> bool" where
  "projection_eligible v = (case v of JObj kvs \<Rightarrow> map_of kvs (lit ''eligible'') = Some (JBool True) | _ \<Rightarrow> False)"

definition finish_scan :: "'s relation_maintenance \<Rightarrow> identity_scope \<Rightarrow> relation_scan list \<times> nat \<Rightarrow> (relation_census \<times> relation_scan list) result" where
  "finish_scan M scope found =
     (case found of (records, pages) \<Rightarrow>
        let rows = sort_key sc_id records in
        if \<not> distinct (map sc_id rows) then Inl (ConflictError (lit ''relation census contains duplicate point IDs''))
        else bindE (mapE (\<lambda>r. bundle_from_extensions (mt_tables M) (sc_extensions r)) rows) (\<lambda>bundles.
          Inr (\<lparr>rc_hash = mt_hash M scope (map (\<lambda>r. (sc_id r, sc_raw r)) rows), rc_records = length rows,
             rc_missing = length (filter (\<lambda>r. index_key \<notin> dom (sc_extensions r)) rows),
             rc_eligible = length (filter (\<lambda>r. projection_eligible (sc_projection r)) rows),
             rc_assertions = sum_list (map length bundles), rc_pages = pages\<rparr>, rows)))"

definition scan :: "'s relation_maintenance \<Rightarrow> caller_authority option \<Rightarrow> ('s, relation_census \<times> relation_scan list) io" where
  "scan M ctx =
     bindS (liftS (require_review_authority ctx)) (\<lambda>_.
     bindS (liftS (index_conditions (mt_index M) ctx False)) (\<lambda>ks.
     bindS (scan_pages M (map Authorized ks @ knowledge_only) None [] 0 0 []) (\<lambda>found.
       case ctx of
         None \<Rightarrow> raiseS (AttributeError [])
       | Some c \<Rightarrow> liftS (finish_scan M (gr_scope (ca_grant c)) found))))"

text \<open>
  \<^verbatim>\<open>apply\<close>, with the outcome of the checks on the checkpoint's files given: the projection is written
  where it is missing, and a second census must find the same source and nothing missing.
\<close>

definition rollout :: "'s relation_maintenance \<Rightarrow> caller_authority option \<Rightarrow> bool \<Rightarrow> unit result \<Rightarrow> ustr \<Rightarrow> ('s, relation_census) io" where
  "rollout M ctx quiesced checkpoint expected =
     (if \<not> quiesced then raiseS (ConfigurationError (lit ''relation rollout requires quiesced canonical writers''))
      else bindS (liftS (require_review_authority ctx)) (\<lambda>_.
      bindS (liftS (enforce_operation (ix_unicode (mt_index M)) ctx KNOWLEDGE_WRITE Map.empty)) (\<lambda>_.
      bindS (liftS checkpoint) (\<lambda>_.
      bindS (scan M ctx) (\<lambda>(before, records).
      if rc_hash before \<noteq> expected then raiseS (ConflictError (lit ''canonical data changed; capture a fresh relation checkpoint''))
      else bindS (mt_prepare M) (\<lambda>_.
      bindS (forS (\<lambda>r. if index_key \<in> dom (sc_extensions r) then returnS ()
                      else mt_write M (sc_id r) ((sc_extensions r)(index_key \<mapsto> sc_projection r))) records) (\<lambda>_.
      bindS (scan M ctx) (\<lambda>(final, _).
        if rc_hash final \<noteq> rc_hash before \<or> rc_records final \<noteq> rc_records before \<or> rc_missing final \<noteq> 0
        then raiseS (ConflictError (lit ''relation projection verification failed''))
        else returnS final))))))))"

lemma scan_pages_bounded:
  "scan_pages M query offset offsets pages bytes records s = (Inr (rows, n), s') \<Longrightarrow> length records \<le> mt_records M
    \<Longrightarrow> length rows \<le> mt_records M \<and> n + length records \<le> Suc (pages + length rows)"
proof (induction M query offset offsets pages bytes records s rule: scan_pages.induct)
  case (1 M query offset offsets pages bytes records s)
  obtain points continuation s1 where page: "mt_page M query offset s = (Inr (points, continuation), s1)"
    using "1.prems"(1) by (auto simp: scan_pages.simps [of M query offset] split: prod.splits sum.splits)
  obtain bytes' records' where pts: "scan_points M points bytes records = Inr (bytes', records')"
    using "1.prems"(1) page by (auto simp: scan_pages.simps [of M query offset] split: sum.splits)
  note len = scan_points_length [OF pts]
  then have fits: "length records' \<le> mt_records M" using "1.prems"(2) by (cases points) auto
  show ?case
  proof (cases continuation)
    case None
    then have "rows = records'" "n = Suc pages" using "1.prems"(1) page pts by (simp_all add: scan_pages.simps [of M query offset])
    then show ?thesis using len fits by simp
  next
    case (Some marker)
    have ne: "\<not> (points = [] \<or> marker \<in> set offsets)"
    proof
      assume "points = [] \<or> marker \<in> set offsets"
      then show False using "1.prems"(1) page pts Some by (simp add: scan_pages.simps [of M query offset])
    qed
    have run: "scan_pages M query (Some marker) (marker # offsets) (Suc pages) bytes' records' s1 = (Inr (rows, n), s')"
      using "1.prems"(1) page pts Some ne by (simp add: scan_pages.simps [of M query offset])
    have "length rows \<le> mt_records M \<and> n + length records' \<le> Suc (Suc pages + length rows)"
      by (rule "1.IH" [OF page [symmetric] refl refl pts refl Some ne run fits])
    then show ?thesis using len ne by (cases points) auto
  qed
qed

subsection \<open>What is written is the projection\<close>

lemma keys_differ: "relations_key \<noteq> index_key"
  by (simp add: relations_key_def index_key_def lit_eq_iff)

lemma projection_kept: "projection T (n\<lparr>nd_extensions := (nd_extensions n)(index_key \<mapsto> v)\<rparr>) = projection T n"
  by (simp add: projection_def bundle_from_extensions_def keys_differ)

lemma projection_verifies: "projection T n = Inr v \<Longrightarrow> verify_projection T (n\<lparr>nd_extensions := (nd_extensions n)(index_key \<mapsto> v)\<rparr>) = Inr ()"
  by (simp add: verify_projection_def projection_kept)

text \<open>
  What a rebuild writes for the points it read: to each point its own extensions, changed in the
  projection alone, and with the result in place the projection of the point verifies. The writes
  are worked out for the whole page before the first of them is made.
\<close>

theorem rebuild_writes_projection:
  assumes "mapE (pending_projection T) points = Inr pending"
  shows "list_all2 (\<lambda>point (i, ext). \<exists>n. snd point = Readable n \<and> i = nd_id n
      \<and> ext(index_key := nd_extensions n index_key) = nd_extensions n
      \<and> verify_projection T (n\<lparr>nd_extensions := ext\<rparr>) = Inr ()) points pending"
proof -
  have "\<exists>n. snd point = Readable n \<and> fst x = nd_id n \<and> (snd x)(index_key := nd_extensions n index_key) = nd_extensions n
      \<and> verify_projection T (n\<lparr>nd_extensions := snd x\<rparr>) = Inr ()" if pending: "pending_projection T point = Inr x" for point x
  proof -
    obtain n v where n: "canonical_node False point = Inr n" "projection T n = Inr v" "x = (fst point, (nd_extensions n)(index_key \<mapsto> v))"
      using pending by (auto simp: pending_projection_def)
    then show ?thesis using projection_verifies [OF n(2)] by (auto simp: canonical_node_Inr)
  qed
  then show ?thesis using assms unfolding mapE_eq_Inr by (auto elim!: list_all2_mono)
qed

subsection \<open>Admission is grounded\<close>

text \<open>The law of the store: a point retrieved under conditions meets those on identity values.\<close>

definition admission_store_ok :: "'s admission_store \<Rightarrow> bool" where
  "admission_store_ok A \<longleftrightarrow> (\<forall>episode i cs s p s'. as_retrieve A episode i cs s = (Inr (Some p), s') \<longrightarrow> list_all (\<lambda>k. selected k p) cs)"

text \<open>
  What a store has answered: \<open>trail\<close> reads off the state the points retrieved so far. No store is
  ruled out by it: a state with a record of the answers has one.
\<close>

definition retrieved :: "relation_point option result \<Rightarrow> relation_point list" where
  "retrieved r = (case r of Inr (Some p) \<Rightarrow> [p] | _ \<Rightarrow> [])"

definition logs_retrievals :: "'s admission_store \<Rightarrow> ('s \<Rightarrow> relation_point list) \<Rightarrow> bool" where
  "logs_retrievals A trail \<longleftrightarrow> (\<forall>episode i cs s r s'. as_retrieve A episode i cs s = (r, s') \<longrightarrow> trail s' = trail s @ retrieved r)"

definition appends :: "('s \<Rightarrow> relation_point list) \<Rightarrow> 's \<Rightarrow> 's \<Rightarrow> bool" where
  "appends trail s s' \<longleftrightarrow> (\<exists>ps. trail s' = trail s @ ps)"

definition seen_since :: "nat \<Rightarrow> ('s \<Rightarrow> relation_point list) \<Rightarrow> 's \<Rightarrow> relation_point set" where
  "seen_since k trail s = set (drop k (trail s))"

lemma appends_refl: "appends trail s s"
  by (simp add: appends_def)

lemma appends_trans: "appends trail s s' \<Longrightarrow> appends trail s' s'' \<Longrightarrow> appends trail s s''"
  unfolding appends_def by (metis append_assoc)

lemma appends_length: "appends trail s s' \<Longrightarrow> k \<le> length (trail s) \<Longrightarrow> k \<le> length (trail s')"
  by (auto simp: appends_def)

lemma appends_seen: "appends trail s s' \<Longrightarrow> k \<le> length (trail s) \<Longrightarrow> seen_since k trail s \<subseteq> seen_since k trail s'"
  by (auto simp: appends_def seen_since_def)

lemma retrieve_appends:
  assumes "logs_retrievals A trail" and "as_retrieve A episode i cs s = (r, s')"
  shows "appends trail s s'" and "r = Inr (Some p) \<Longrightarrow> k \<le> length (trail s) \<Longrightarrow> p \<in> seen_since k trail s'"
proof -
  have "trail s' = trail s @ retrieved r" using assms unfolding logs_retrievals_def by blast
  then show "appends trail s s'" and "r = Inr (Some p) \<Longrightarrow> k \<le> length (trail s) \<Longrightarrow> p \<in> seen_since k trail s'"
    by (auto simp: appends_def seen_since_def retrieved_def)
qed

text \<open>
  A record that was read and lies in reach. \<open>S\<close> is what has been read; the target of an edge and
  every piece of its evidence must be of this kind.
\<close>

definition read_within :: "relation_point set \<Rightarrow> caller_authority \<Rightarrow> identity_values \<Rightarrow> node \<Rightarrow> bool" where
  "read_within S c scope n \<longleftrightarrow> (nd_id n, Readable n) \<in> S \<and> in_reach c scope n"

definition cache_ok :: "relation_point set \<Rightarrow> caller_authority \<Rightarrow> identity_values \<Rightarrow> admission_cache \<Rightarrow> bool" where
  "cache_ok S c scope C \<longleftrightarrow> (\<forall>k p n. ac_targets C k = Some p \<longrightarrow> p = (nd_id n, Readable n) \<longrightarrow> read_within S c scope n)
     \<and> (\<forall>v n. ac_evidence C v = Some n \<longrightarrow> nd_id n = vr_id v \<and> nd_episode n = vr_episode v \<and> read_within S c scope n)"

definition target_grounded :: "relation_tables \<Rightarrow> relation_point set \<Rightarrow> caller_authority \<Rightarrow> identity_values \<Rightarrow> relation_edge \<Rightarrow> bool" where
  "target_grounded T S c scope e \<longleftrightarrow> (\<exists>n. nd_id n = ed_record e \<and> \<not> nd_episode n \<and> read_within S c scope n
     \<and> make_ref T (nd_ref n) = Inr (nd_ref n) \<and> ref_key T (nd_ref n) = ref_key T (ed_target e))"

definition proof_grounded :: "relation_point set \<Rightarrow> caller_authority \<Rightarrow> identity_values \<Rightarrow> bool \<Rightarrow> evidence_ref \<Rightarrow> bool" where
  "proof_grounded S c scope historical v \<longleftrightarrow> (\<exists>n. nd_id n = vr_id v \<and> nd_episode n = vr_episode v \<and> read_within S c scope n
     \<and> (\<not> historical \<longrightarrow> nd_recall n))"

lemma read_within_mono: "read_within S c scope n \<Longrightarrow> S \<subseteq> S' \<Longrightarrow> read_within S' c scope n"
  by (auto simp: read_within_def)

lemma grounded_mono:
  "S \<subseteq> S' \<Longrightarrow> cache_ok S c scope C \<Longrightarrow> cache_ok S' c scope C"
  "S \<subseteq> S' \<Longrightarrow> target_grounded T S c scope e \<Longrightarrow> target_grounded T S' c scope e"
  "S \<subseteq> S' \<Longrightarrow> proof_grounded S c scope historical v \<Longrightarrow> proof_grounded S' c scope historical v"
  unfolding cache_ok_def target_grounded_def proof_grounded_def by (blast dest: read_within_mono [rotated])+

lemma canonical_at_Inr: "canonical_at episode i p = Inr n \<longleftrightarrow> p = Some (i, Readable n) \<and> nd_id n = i \<and> nd_episode n = episode"
  by (cases p) (auto simp: canonical_at_def canonical_node_Inr prod_eq_iff)

lemma passS_invariant:
  assumes "passS f xs c s = (Inr c', s')" and "I c s"
    and "\<And>x c s c' s'. x \<in> set xs \<Longrightarrow> I c s \<Longrightarrow> f x c s = (Inr c', s') \<Longrightarrow> I c' s' \<and> Q x s' \<and> appends trail s s'"
    and "\<And>x s s'. k \<le> length (trail s) \<Longrightarrow> Q x s \<Longrightarrow> appends trail s s' \<Longrightarrow> Q x s'" and "k \<le> length (trail s)"
  shows "I c' s' \<and> list_all (\<lambda>x. Q x s') xs \<and> appends trail s s'"
  using assms(1-3,5)
proof (induction xs arbitrary: c s)
  case (Cons x xs)
  obtain c1 s1 where 1: "f x c s = (Inr c1, s1)" "passS f xs c1 s1 = (Inr c', s')" using Cons.prems(1) by (auto simp: bindS_Inr)
  have i: "I c1 s1 \<and> Q x s1 \<and> appends trail s s1" using Cons.prems(3) [OF _ Cons.prems(2) 1(1)] by simp
  then have ap: "appends trail s s1" by simp
  have k: "k \<le> length (trail s1)" by (rule appends_length [OF ap Cons.prems(4)])
  have "I c' s' \<and> list_all (\<lambda>x. Q x s') xs \<and> appends trail s1 s'"
  proof (rule Cons.IH [OF 1(2)])
    show "I c1 s1" using i by simp
    show "I c' s' \<and> Q y s' \<and> appends trail s s'" if "y \<in> set xs" "I c s" "f y c s = (Inr c', s')" for y c s c' s'
      using Cons.prems(3) [OF _ that(2,3)] that(1) by simp
  qed (rule k)
  then have rest: "I c' s'" "list_all (\<lambda>x. Q x s') xs" "appends trail s1 s'" by simp_all
  have "Q x s'" by (rule assms(4) [OF k _ rest(3)]) (use i in simp)
  with rest appends_trans [OF ap rest(3)] show ?case by simp
qed (simp add: returnS_def appends_refl)

lemma partition_reach:
  assumes "list_all (\<lambda>k. selected k p) (partition scope session @ map Authorized ks @ rest)" and "session \<or> scope SESSION = None"
    and "\<And>v. \<forall>k \<in> set ks. payload_match k v \<Longrightarrow> inside c v" and "snd p = Readable n"
  shows "in_reach c scope n"
proof -
  have "same_scope scope n" using partition_scope [of p scope session n] assms(1,2,4) by simp
  moreover have "\<forall>k \<in> set ks. payload_match k (ef_scope (nd_ref n))" using assms(1) by (simp add: list_all_iff ball_Un assms(4))
  ultimately show ?thesis using assms(3) by (simp add: in_reach_def)
qed

lemma admit_target_ok:
  assumes law: "admission_store_ok A" "logs_retrievals A trail" and ks: "\<And>v. \<forall>k \<in> set ks. payload_match k v \<Longrightarrow> inside c v"
    and hyps: "cache_ok (seen_since k trail s) c scope C" "admit_target A scope ks e C s = (Inr C', s')" and k: "k \<le> length (trail s)"
  shows "cache_ok (seen_since k trail s') c scope C' \<and> target_grounded (as_tables A) (seen_since k trail s') c scope e \<and> appends trail s s'"
proof -
  let ?h = "ed_status e = R_REJECTED"
  obtain p s1 n where p: "(case ac_targets C (ed_record e, ?h) of Some p \<Rightarrow> returnS (Some p)
        | None \<Rightarrow> as_retrieve A False (ed_record e) (target_conditions scope ks ?h)) s = (Inr (Some p), s1)"
    and n: "canonical_at False (ed_record e) (Some p) = Inr n"
    and rest: "(case make_ref (as_tables A) (nd_ref n) of Inl _ \<Rightarrow> raiseS unavailable
        | Inr r \<Rightarrow> if ref_key (as_tables A) r \<noteq> ref_key (as_tables A) (ed_target e) then raiseS unavailable
            else returnS (C\<lparr>ac_targets := (ac_targets C)((ed_record e, ?h) \<mapsto> p)\<rparr>)) s1 = (Inr C', s')"
    using hyps(2) unfolding admit_target_def Let_def bindS_Inr
    by (auto simp: bindS_Inr raiseS_def split: option.splits)
  have pn: "p = (nd_id n, Readable n)" using n by (simp add: canonical_at_Inr)
  have reach: "read_within (seen_since k trail s1) c scope n \<and> appends trail s s1"
  proof (cases "ac_targets C (ed_record e, ?h)")
    case None
    then have r: "as_retrieve A False (ed_record e) (target_conditions scope ks ?h) s = (Inr (Some p), s1)" using p by simp
    then have "list_all (\<lambda>k. selected k p) (target_conditions scope ks ?h)" using law unfolding admission_store_ok_def by blast
    then have "list_all (\<lambda>k. selected k p) (partition scope True @ map Authorized ks
        @ (if ?h then [OrdinaryClass] else [ActiveOnly, AnyOf [OrdinaryClass, ClassEmpty], AnyOf [Recallable, RecallEmpty]]))"
      by (simp only: target_conditions_def)
    from partition_reach [OF this _ ks] have "in_reach c scope n" using pn by simp
    then show ?thesis using retrieve_appends [OF law(2) r] k pn by (simp add: read_within_def)
  next
    case (Some q)
    then have "q = p" "s1 = s" using p by (simp_all add: returnS_def)
    then have "read_within (seen_since k trail s) c scope n" using hyps(1) Some pn unfolding cache_ok_def by blast
    with \<open>s1 = s\<close> show ?thesis by (simp add: appends_refl)
  qed
  obtain r where r: "make_ref (as_tables A) (nd_ref n) = Inr r" using rest by (cases "make_ref (as_tables A) (nd_ref n)") (auto simp: raiseS_def)
  then have key: "ref_key (as_tables A) r = ref_key (as_tables A) (ed_target e)" "C' = C\<lparr>ac_targets := (ac_targets C)((ed_record e, ?h) \<mapsto> p)\<rparr>" "s' = s1"
    using rest by (auto simp: raiseS_def returnS_def split: if_splits)
  have "r = nd_ref n" using r by (rule make_ref_same)
  then have "target_grounded (as_tables A) (seen_since k trail s1) c scope e"
    using reach r key(1) n by (auto simp: target_grounded_def canonical_at_Inr)
  moreover have "cache_ok (seen_since k trail s1) c scope C" by (rule grounded_mono(1) [OF appends_seen [OF conjunct2 [OF reach] k] hyps(1)])
  then have "cache_ok (seen_since k trail s1) c scope C'" using reach pn unfolding key(2) by (auto simp: cache_ok_def)
  ultimately show ?thesis using reach key(3) by simp
qed

lemma admit_proof_ok:
  assumes law: "admission_store_ok A" "logs_retrievals A trail"
    and hyps: "cache_ok (seen_since k trail s) c scope C" "admit_proof A scope conditions historical v C s = (Inr C', s')" and k: "k \<le> length (trail s)"
    and cond: "\<And>ks w. conditions (vr_episode v) = Inr ks \<Longrightarrow> \<forall>k \<in> set ks. payload_match k w \<Longrightarrow> inside c w"
  shows "cache_ok (seen_since k trail s') c scope C' \<and> proof_grounded (seen_since k trail s') c scope historical v \<and> appends trail s s'"
proof (cases "ac_evidence C v")
  case (Some n)
  then have c: "C' = C" "s' = s" "\<not> historical \<longrightarrow> nd_recall n" using hyps(2) by (auto simp: admit_proof_def raiseS_def returnS_def split: if_splits)
  have "nd_id n = vr_id v \<and> nd_episode n = vr_episode v \<and> read_within (seen_since k trail s) c scope n"
    using hyps(1) Some unfolding cache_ok_def by blast
  then have "proof_grounded (seen_since k trail s) c scope historical v" using c(3) unfolding proof_grounded_def by blast
  then show ?thesis using hyps(1) appends_refl unfolding c(1,2) by simp
next
  case None
  obtain ks' p s1 n where ks': "conditions (vr_episode v) = Inr ks'"
    and p: "as_retrieve A (vr_episode v) (vr_id v) (evidence_conditions scope ks' (vr_episode v)) s = (Inr p, s1)"
    and n: "canonical_at (vr_episode v) (vr_id v) p = Inr n"
    and rest: "(if \<not> historical \<and> \<not> nd_recall n then raiseS unavailable
            else returnS (C\<lparr>ac_evidence := (ac_evidence C)(v \<mapsto> n)\<rparr>)) s1 = (Inr C', s')"
    using hyps(2) None by (auto simp: admit_proof_def bindS_Inr)
  have r: "as_retrieve A (vr_episode v) (vr_id v) (evidence_conditions scope ks' (vr_episode v)) s = (Inr (Some (vr_id v, Readable n)), s1)"
    using p n by (simp add: canonical_at_Inr)
  then have "list_all (\<lambda>k. selected k (vr_id v, Readable n)) (evidence_conditions scope ks' (vr_episode v))"
    using law unfolding admission_store_ok_def by blast
  then have reach: "in_reach c scope n"
    using partition_reach [OF _ _ cond [OF ks'], of "(vr_id v, Readable n)" scope "scope SESSION \<noteq> None"] by (auto simp: evidence_conditions_def)
  have C': "C' = C\<lparr>ac_evidence := (ac_evidence C)(v \<mapsto> n)\<rparr>" "\<not> historical \<longrightarrow> nd_recall n" "s' = s1"
    using rest by (auto simp: raiseS_def returnS_def split: if_splits)
  have ap: "appends trail s s1" and seen: "(vr_id v, Readable n) \<in> seen_since k trail s1"
    using retrieve_appends [OF law(2) r] k by simp_all
  have within: "read_within (seen_since k trail s1) c scope n" using seen reach n by (simp add: read_within_def canonical_at_Inr)
  have "cache_ok (seen_since k trail s1) c scope C" using grounded_mono(1) [OF appends_seen [OF ap k] hyps(1)] .
  then show ?thesis using ap within n C'(2) unfolding C'(1,3) by (auto simp: cache_ok_def proof_grounded_def canonical_at_Inr)
qed

lemma admit_edge_ok:
  assumes law: "admission_store_ok A" "logs_retrievals A trail" and ks: "\<And>v. \<forall>k \<in> set ks. payload_match k v \<Longrightarrow> inside c v"
    and hyps: "cache_ok (seen_since k trail s) c scope C" "admit_edge A scope ks conditions e C s = (Inr C', s')" and k: "k \<le> length (trail s)"
    and cond: "\<And>v ks w. v \<in> set (ed_evidence e) \<Longrightarrow> conditions (vr_episode v) = Inr ks \<Longrightarrow> \<forall>k \<in> set ks. payload_match k w \<Longrightarrow> inside c w"
  shows "cache_ok (seen_since k trail s') c scope C' \<and> (target_grounded (as_tables A) (seen_since k trail s') c scope e
    \<and> list_all (proof_grounded (seen_since k trail s') c scope (ed_status e = R_REJECTED)) (ed_evidence e)) \<and> appends trail s s'"
proof -
  let ?h = "ed_status e = R_REJECTED"
  obtain C1 s1 where t: "admit_target A scope ks e C s = (Inr C1, s1)"
    and p: "passS (admit_proof A scope conditions ?h) (ed_evidence e) C1 s1 = (Inr C', s')"
    using hyps(2) by (auto simp: admit_edge_def bindS_Inr)
  have t': "cache_ok (seen_since k trail s1) c scope C1" "target_grounded (as_tables A) (seen_since k trail s1) c scope e" "appends trail s s1"
    using admit_target_ok [OF law ks hyps(1) t k] by blast+
  have k1: "k \<le> length (trail s1)" by (rule appends_length [OF t'(3) k])
  have "(cache_ok (seen_since k trail s') c scope C' \<and> k \<le> length (trail s'))
      \<and> list_all (\<lambda>v. proof_grounded (seen_since k trail s') c scope ?h v) (ed_evidence e) \<and> appends trail s1 s'"
  proof (rule passS_invariant [OF p, where I = "\<lambda>C s. cache_ok (seen_since k trail s) c scope C \<and> k \<le> length (trail s)"])
    show "cache_ok (seen_since k trail s1) c scope C1 \<and> k \<le> length (trail s1)" using t' k1 by simp
    show "(cache_ok (seen_since k trail s'') c scope C'' \<and> k \<le> length (trail s'')) \<and> proof_grounded (seen_since k trail s'') c scope ?h v \<and> appends trail s s''"
      if "v \<in> set (ed_evidence e)" "cache_ok (seen_since k trail s) c scope D \<and> k \<le> length (trail s)" "admit_proof A scope conditions ?h v D s = (Inr C'', s'')"
      for v D s C'' s''
    proof -
      have in_scope: "inside c w" if "conditions (vr_episode v) = Inr ks" "\<forall>k \<in> set ks. payload_match k w" for ks w
        using cond \<open>v \<in> set (ed_evidence e)\<close> that by blast
      have ok: "cache_ok (seen_since k trail s'') c scope C'' \<and> proof_grounded (seen_since k trail s'') c scope ?h v \<and> appends trail s s''"
        by (rule admit_proof_ok [OF law conjunct1 [OF that(2)] that(3) conjunct2 [OF that(2)]]) (rule in_scope)
      then have "appends trail s s''" by simp
      from appends_length [OF this conjunct2 [OF that(2)]] ok show ?thesis by simp
    qed
  qed (rule grounded_mono(3) [OF appends_seen], assumption+, rule k1)
  then have rest: "cache_ok (seen_since k trail s') c scope C'" "list_all (proof_grounded (seen_since k trail s') c scope ?h) (ed_evidence e)"
    "appends trail s1 s'" by simp_all
  have "target_grounded (as_tables A) (seen_since k trail s') c scope e" by (rule grounded_mono(2) [OF appends_seen [OF rest(3) k1] t'(2)])
  with rest appends_trans [OF t'(3) rest(3)] show ?thesis by simp
qed

lemma admit_relations_Inr:
  assumes "admit_relations A ctx source raw s = (Inr es, s')"
  shows "\<exists>us knowledge episode ks C. mapE (check_edge (as_tables A) ctx source) es = Inr us
    \<and> enforce_operation (as_unicode A) ctx KNOWLEDGE_GET Map.empty = Inr knowledge \<and> scope_conditions knowledge = Inr ks
    \<and> (if list_ex vr_episode (concat (map ed_evidence es)) then enforce_operation (as_unicode A) ctx MEMORY_GET Map.empty else Inr None) = Inr episode
    \<and> passS (admit_edge A (ef_scope source) ks (\<lambda>b. scope_conditions (if b then episode else knowledge))) es
        \<lparr>ac_targets = Map.empty, ac_evidence = Map.empty\<rparr> s = (Inr C, s')"
proof -
  obtain edges us knowledge episode where 1: "mapE (check_edge (as_tables A) ctx source) edges = Inr us"
    "enforce_operation (as_unicode A) ctx KNOWLEDGE_GET Map.empty = Inr knowledge"
    "(if list_ex vr_episode (concat (map ed_evidence edges)) then enforce_operation (as_unicode A) ctx MEMORY_GET Map.empty else Inr None) = Inr episode"
    and rest: "(if list_ex vr_episode (concat (map ed_evidence edges)) \<and> \<not> as_episodes A
      then raiseS (ConfigurationError (lit ''episodic relation evidence repository is not configured''))
      else bindS (liftS (scope_conditions knowledge)) (\<lambda>ks.
        bindS (passS (admit_edge A (ef_scope source) ks (\<lambda>b. scope_conditions (if b then episode else knowledge))) edges
          \<lparr>ac_targets = Map.empty, ac_evidence = Map.empty\<rparr>) (\<lambda>_. returnS edges))) s = (Inr es, s')"
    using assms unfolding admit_relations_def Let_def bindS_Inr liftS_Inr by blast
  from rest obtain ks C where "scope_conditions knowledge = Inr ks" "edges = es"
    "passS (admit_edge A (ef_scope source) ks (\<lambda>b. scope_conditions (if b then episode else knowledge))) edges
          \<lparr>ac_targets = Map.empty, ac_evidence = Map.empty\<rparr> s = (Inr C, s')"
    by (auto simp: bindS_Inr raiseS_def returnS_Inr split: if_splits)
  with 1 show ?thesis by blast
qed

text \<open>
  C37. Admission grounds what it admits: every admitted edge starts at the entity that is stored,
  is settled only if the caller may review, points to a knowledge record with the target's identity,
  and rests on evidence that may be recalled unless the edge is rejected. The target and every piece
  of evidence are among the records the store answered during this admission, and lie inside the
  caller's grant and in the partition of the source.
\<close>

theorem admission_is_grounded:
  assumes "nfc_stable (as_unicode A)" and "caller_wf (as_unicode A) c" and "admission_store_ok A" and "logs_retrievals A trail"
    and "admit_relations A (Some c) source raw s = (Inr es, s')"
  shows "\<exists>points. trail s' = trail s @ points \<and> list_all (\<lambda>e. ref_key (as_tables A) (ed_source e) = ref_key (as_tables A) source
      \<and> (ed_status e = R_PROPOSED \<or> ADMIN_REVIEW |\<in>| gr_operations (ca_grant c))
      \<and> target_grounded (as_tables A) (set points) c (ef_scope source) e
      \<and> list_all (proof_grounded (set points) c (ef_scope source) (ed_status e = R_REJECTED)) (ed_evidence e)) es"
proof -
  let ?T = "as_tables A" and ?U = "as_unicode A"
  let ?episodes = "list_ex vr_episode (concat (map ed_evidence es))"
  obtain knowledge episode ks C where chk: "mapE (check_edge ?T (Some c) source) es = Inr C"
    and kp: "enforce_operation ?U (Some c) KNOWLEDGE_GET Map.empty = Inr knowledge" "scope_conditions knowledge = Inr ks"
    and ep: "(if ?episodes then enforce_operation ?U (Some c) MEMORY_GET Map.empty else Inr None) = Inr episode"
    and run: "\<exists>C'. passS (admit_edge A (ef_scope source) ks (\<lambda>b. scope_conditions (if b then episode else knowledge))) es
        \<lparr>ac_targets = Map.empty, ac_evidence = Map.empty\<rparr> s = (Inr C', s')"
    using admit_relations_Inr [OF assms(5)] by blast
  let ?conditions = "\<lambda>b. scope_conditions (if b then episode else knowledge)"
  have read: "os_storage_filter (operation_specs KNOWLEDGE_GET)" "os_storage_filter (operation_specs MEMORY_GET)" by (simp_all add: mk_spec_def)
  have kin: "inside c w" if "scope_conditions knowledge = Inr ks'" "\<forall>k \<in> set ks'. payload_match k w" for ks' w
    using read_selects_inside [OF assms(1,2) keyword_match_payload kp(1) read(1) that] .
  have ein: "inside c w" if "?episodes" "scope_conditions episode = Inr ks'" "\<forall>k \<in> set ks'. payload_match k w" for ks' w
    using read_selects_inside [OF assms(1,2) keyword_match_payload _ read(2) that(2,3)] ep that(1) by simp
  obtain C' where run': "passS (admit_edge A (ef_scope source) ks ?conditions) es \<lparr>ac_targets = Map.empty, ac_evidence = Map.empty\<rparr> s = (Inr C', s')"
    using run by blast
  let ?k = "length (trail s)"
  let ?I = "\<lambda>D s. cache_ok (seen_since ?k trail s) c (ef_scope source) D \<and> ?k \<le> length (trail s)"
  let ?Q = "\<lambda>e s. target_grounded ?T (seen_since ?k trail s) c (ef_scope source) e
      \<and> list_all (proof_grounded (seen_since ?k trail s) c (ef_scope source) (ed_status e = R_REJECTED)) (ed_evidence e)"
  have "?I C' s' \<and> list_all (\<lambda>e. ?Q e s') es \<and> appends trail s s'"
  proof (rule passS_invariant [OF run', where I = ?I and Q = ?Q and k = ?k])
    show "?I \<lparr>ac_targets = Map.empty, ac_evidence = Map.empty\<rparr> s" by (simp add: cache_ok_def)
    show "?Q e s2" if "?k \<le> length (trail s1)" "?Q e s1" "appends trail s1 s2" for e s1 s2
      using that(2) grounded_mono(2,3) [OF appends_seen [OF that(3,1)]] unfolding list_all_iff by blast
    fix e D s1 D' s2
    assume e: "e \<in> set es" and D: "?I D s1" and step: "admit_edge A (ef_scope source) ks ?conditions e D s1 = (Inr D', s2)"
    have within: "inside c w" if "v \<in> set (ed_evidence e)" "?conditions (vr_episode v) = Inr ks'" "\<forall>k \<in> set ks'. payload_match k w" for v ks' w
    proof (cases "vr_episode v")
      case True
      then have "?episodes" using that(1) e by (auto simp: list_ex_iff)
      then show ?thesis using ein that(2,3) True by simp
    qed (use kin that in simp)
    then show "?I D' s2 \<and> ?Q e s2 \<and> appends trail s1 s2"
    proof -
      have ok: "cache_ok (seen_since ?k trail s2) c (ef_scope source) D' \<and> ?Q e s2 \<and> appends trail s1 s2"
        by (rule admit_edge_ok [OF assms(3,4) kin [OF kp(2)] conjunct1 [OF D] step conjunct2 [OF D]]) (assumption, rule within)
      then have "appends trail s1 s2" by simp
      from appends_length [OF this conjunct2 [OF D]] ok show ?thesis by simp
    qed
  qed simp
  moreover from this obtain points where points: "trail s' = trail s @ points" unfolding appends_def by blast
  then have "seen_since ?k trail s' = set points" by (simp add: seen_since_def)
  moreover have "ref_key ?T (ed_source e) = ref_key ?T source \<and> (ed_status e = R_PROPOSED \<or> ADMIN_REVIEW |\<in>| gr_operations (ca_grant c))"
    if "e \<in> set es" for e
  proof -
    from mapE_ok [OF chk that] obtain u where "check_edge ?T (Some c) source e = Inr u" by blast
    then show ?thesis by (auto simp: check_edge_def require_review_authority_def split: if_splits)
  qed
  ultimately show ?thesis using points by (intro exI [of _ points]) (simp add: list_all_iff)
qed

subsection \<open>Witnesses\<close>

lemma rebuild_writes_projection_witness:
  "\<exists>a b. mapE (pending_projection example_relations) example_points
      = Inr [([97], (nd_extensions (example_node 97))(index_key \<mapsto> a)), ([98], (nd_extensions (example_node 98))(index_key \<mapsto> b))]
    \<and> verify_projection example_relations ((example_node 97)\<lparr>nd_extensions := (nd_extensions (example_node 97))(index_key \<mapsto> a)\<rparr>) = Inr ()"
proof -
  obtain a b where p: "projection example_relations (example_node 97) = Inr a" "projection example_relations (example_node 98) = Inr b"
    using example_intact by (auto simp: verify_projection_def)
  have run: "mapE (pending_projection example_relations) example_points
      = Inr [([97], (nd_extensions (example_node 97))(index_key \<mapsto> a)), ([98], (nd_extensions (example_node 98))(index_key \<mapsto> b))]"
    by (simp add: pending_projection_def example_canonical p)
  from rebuild_writes_projection [OF run]
  have "verify_projection example_relations ((example_node 97)\<lparr>nd_extensions := (nd_extensions (example_node 97))(index_key \<mapsto> a)\<rparr>) = Inr ()"
    by auto
  with run show ?thesis by blast
qed

text \<open>A store that keeps the records it has answered.\<close>

definition example_admission :: "relation_point list admission_store" where
  "example_admission = \<lparr>as_unicode = ascii_tables, as_tables = example_relations,
     as_retrieve = (\<lambda>episode i cs s. let found = find (\<lambda>x. fst x = i \<and> list_all (\<lambda>k. selected k x) cs) example_points
       in (Inr found, s @ retrieved (Inr found))), as_episodes = False\<rparr>"

lemma example_admission_ok: "admission_store_ok example_admission" "logs_retrievals example_admission id"
  by (auto simp: admission_store_ok_def logs_retrievals_def example_admission_def Let_def find_Some_iff split: if_splits)

lemma admission_is_grounded_witness:
  "fst (admit_relations example_admission (Some (example_caller 97)) (example_ref 97) JNull []) = Inr [example_edge]
    \<and> target_grounded example_relations (set (rev example_points)) (example_caller 97) (ef_scope (example_ref 97)) example_edge
    \<and> list_all (proof_grounded (set (rev example_points)) (example_caller 97) (ef_scope (example_ref 97)) False) (ed_evidence example_edge)"
proof -
  have T: "as_tables example_admission = example_relations" "as_unicode example_admission = ascii_tables" by (simp_all add: example_admission_def)
  have w: "caller_wf (as_unicode example_admission) (example_caller 97)" "nfc_stable (as_unicode example_admission)"
    using example_caller_wf [of 97] nfc_stable_ascii by (simp_all add: T)
  have "operation_specs KNOWLEDGE_GET = mk_spec READ True False" by simp
  from example_read [OF this] obtain plan where plan: "enforce_operation ascii_tables (Some (example_caller 97)) KNOWLEDGE_GET Map.empty = Inr plan"
    "scope_conditions plan = Inr [MatchValue TENANT [97], MatchValue USER [98]]" by blast
  have review: "require_review_authority (Some (example_caller 97)) = Inr ()" by (simp add: require_review_authority_def example_caller_def)
  have raw: "parse_bundle example_relations JNull = Inr [example_edge]" by (simp add: parse_bundle_def example_relations_def)
  have status: "ed_status example_edge = R_ACCEPTED" by (simp add: example_edge_def)
  let ?ks = "[MatchValue TENANT [97], MatchValue USER [98]] :: repo_condition list"
  let ?scope = "[TENANT \<mapsto> [97 :: nat], USER \<mapsto> [98]] :: identity_values"
  have target: "as_retrieve example_admission False [98] (target_conditions ?scope ?ks False) s = (Inr (Some ([98], Readable (example_node 98))), s @ [([98], Readable (example_node 98))])" for s
    by (simp add: example_admission_def retrieved_def target_conditions_def partition_def dimension_order_def)
  have evidence: "as_retrieve example_admission False [97] (evidence_conditions ?scope ?ks False) s = (Inr (Some ([97], Readable (example_node 97))), s @ [([97], Readable (example_node 97))])" for s
    by (simp add: example_admission_def retrieved_def evidence_conditions_def partition_def dimension_order_def)
  have n: "\<not> nd_episode (example_node k)" "nd_recall (example_node k)" for k by (simp_all add: example_node_def)
  have t: "admit_target example_admission ?scope ?ks example_edge \<lparr>ac_targets = Map.empty, ac_evidence = Map.empty\<rparr> s
      = (Inr \<lparr>ac_targets = [([98], False) \<mapsto> ([98], Readable (example_node 98))], ac_evidence = Map.empty\<rparr>, s @ [([98], Readable (example_node 98))])" for s
    by (simp add: admit_target_def Let_def status bindS_def target canonical_at_def example_canonical liftS_def T example_reference returnS_def)
  have p: "admit_proof example_admission ?scope (\<lambda>b. scope_conditions (if b then None else plan)) False \<lparr>vr_episode = False, vr_id = [97]\<rparr>
      \<lparr>ac_targets = X, ac_evidence = Map.empty\<rparr> s
      = (Inr \<lparr>ac_targets = X, ac_evidence = [\<lparr>vr_episode = False, vr_id = [97]\<rparr> \<mapsto> example_node 97]\<rparr>, s @ [([97], Readable (example_node 97))])" for X s
    by (simp add: admit_proof_def plan bindS_def liftS_def evidence canonical_at_def example_canonical n returnS_def)
  have run: "admit_relations example_admission (Some (example_caller 97)) (example_ref 97) JNull [] = (Inr [example_edge], rev example_points)"
    by (simp add: admit_relations_def Let_def T bindS_def liftS_def raw check_edge_def status review plan admit_edge_def t p returnS_def)
  from admission_is_grounded [OF w(2,1) example_admission_ok run] show ?thesis by (simp add: run T status)
qed

end
