(* ===== verification/Relation_Recall.thy ===== *)
theory Relation_Recall
  imports Relation_Admission Token_Budget Dream_Planner
begin

text \<open>
  Recalling related knowledge with its proofs (\<^verbatim>\<open>relations/recall.py\<close>) and offering it to a dream as
  evidence (\<^verbatim>\<open>relations/dream.py\<close>). The paths of a traversal are checked again on records read once
  more, and packed as long as they fit. How a result is rendered as JSON (before and
  after its last fields are set), and the fields a payload shows, are parameters.
\<close>

subsection \<open>Requests and results\<close>

record recall_request =
  rq_seeds :: "uid list"
  rq_policy :: traversal_policy
  rq_context_tokens :: int
  rq_record_tokens :: int

definition make_recall_request :: "uid list \<Rightarrow> traversal_policy \<Rightarrow> int \<Rightarrow> int \<Rightarrow> recall_request result" where
  "make_recall_request seeds P context_tokens record_tokens =
     (if \<not> (1 \<le> length seeds \<and> length seeds \<le> 128) then Inl (ValueError (lit ''seed_ids''))
      else if \<not> (512 \<le> context_tokens \<and> context_tokens \<le> 16384) then Inl (ValueError (lit ''context_tokens''))
      else if \<not> (32 \<le> record_tokens \<and> record_tokens \<le> 1024) then Inl (ValueError (lit ''record_tokens''))
      else Inr \<lparr>rq_seeds = seeds, rq_policy = P, rq_context_tokens = context_tokens, rq_record_tokens = record_tokens\<rparr>)"

text \<open>A record of the result: the payload it shows, its text and whether that was clipped.\<close>

record recalled_record =
  rd_node :: node
  rd_text :: ustr
  rd_clipped :: bool

record recall_result =
  rs_paths :: "path list"
  rs_records :: "(ustr \<times> recalled_record) list"
  rs_traversal :: traversal_result
  rs_calls :: nat
  rs_reasons :: "ustr list"
  rs_budget :: int
  rs_estimate :: int

record 's recall_service =
  rv_index :: "'s relation_index"
  rv_tables :: relation_tables
  rv_counter :: token_counter
  rv_render :: "bool \<Rightarrow> recall_result \<Rightarrow> ustr"

subsection \<open>Hydration\<close>

definition path_ids :: "bool \<Rightarrow> path list \<Rightarrow> uid list" where
  "path_ids episode paths = sort (remdups (concat (map (\<lambda>p.
     (if episode then [] else pa_records p @ map sp_owner (pa_steps p))
     @ map vr_id (filter (\<lambda>v. vr_episode v = episode) (concat (map sp_evidence (pa_steps p))))) paths)))"

type_synonym payloads = "evidence_ref \<rightharpoonup> node"

definition payload_key :: "bool \<Rightarrow> uid \<Rightarrow> evidence_ref" where
  "payload_key episode i = \<lparr>vr_episode = episode, vr_id = i\<rparr>"

definition hydrate_kind :: "'s recall_service \<Rightarrow> caller_authority option \<Rightarrow> nat \<Rightarrow> bool \<Rightarrow> uid list \<Rightarrow> payloads \<Rightarrow> ('s \<times> nat, payloads) io" where
  "hydrate_kind V ctx maximum episode ids ps =
     (if ids = [] then returnS ps
      else bindS (index_read (rv_index V) ctx maximum episode [WithIds ids, OfType episode] [] 256 True) (\<lambda>points.
           bindS (liftS (mapE (canonical_node episode) points)) (\<lambda>ns.
             returnS (fold (\<lambda>n m. m(payload_key episode (nd_id n) \<mapsto> n)) ns ps))))"

definition hydrate :: "'s recall_service \<Rightarrow> caller_authority option \<Rightarrow> nat \<Rightarrow> path list \<Rightarrow> ('s \<times> nat, payloads) io" where
  "hydrate V ctx maximum paths =
     bindS (hydrate_kind V ctx maximum False (path_ids False paths) Map.empty)
       (hydrate_kind V ctx maximum True (path_ids True paths))"

subsection \<open>Checking a path again\<close>

definition recall_visible :: "traversal_policy \<Rightarrow> int \<Rightarrow> bool \<Rightarrow> node \<Rightarrow> bool" where
  "recall_visible P t endpoint n \<longleftrightarrow> nd_recall n \<and> nd_live n \<and> nd_created n \<le> t
     \<and> (if nd_episode n then nd_event n \<le> t
        else nd_ordinary n \<and> nd_status n \<in> {K_ACTIVE, K_SUPERSEDED} \<and> \<not> unsettled n
          \<and> (\<not> endpoint \<or> tp_as_of P \<noteq> None \<or> nd_status n = K_ACTIVE))"

definition shown :: "traversal_policy \<Rightarrow> int \<Rightarrow> bool \<Rightarrow> payloads \<Rightarrow> evidence_ref \<Rightarrow> bool" where
  "shown P t endpoint ps v = (case ps v of None \<Rightarrow> False | Some n \<Rightarrow> recall_visible P t endpoint n)"

text \<open>\<^verbatim>\<open>all(...)\<close> over the records and their keys, as long as it holds.\<close>

fun keys_match :: "relation_tables \<Rightarrow> payloads \<Rightarrow> uid list \<Rightarrow> ustr list \<Rightarrow> bool result" where
  "keys_match T ps [] [] = Inr True"
| "keys_match T ps (i # is') (k # ks) =
     (case ps (payload_key False i) of
        None \<Rightarrow> Inl (KeyError i)
      | Some n \<Rightarrow> bindE (make_ref T (nd_ref n)) (\<lambda>r. if ref_key T r \<noteq> k then Inr False else keys_match T ps is' ks))"
| "keys_match T ps _ _ = Inl (ValueError (lit ''zip() argument lengths differ''))"

definition same_edge :: "traversal_policy \<Rightarrow> int \<Rightarrow> relation_tables \<Rightarrow> ustr list \<Rightarrow> step \<Rightarrow> relation_edge \<Rightarrow> bool" where
  "same_edge P t T ends st e \<longleftrightarrow>
     ed_status e = R_ACCEPTED \<and> ed_record e = sp_record st \<and> ed_from e \<le> t \<and> (case ed_until e of None \<Rightarrow> True | Some u \<Rightarrow> t < u)
     \<and> ends = (let s = ref_key T (ed_source e); g = ref_key T (ed_target e) in if sp_forward st then [s, g] else [g, s])
     \<and> sp_kind st = ed_kind e \<and> sp_from st = ed_from e \<and> sp_until st = ed_until e \<and> ed_evidence e = sp_evidence st"

definition proof_shown :: "traversal_policy \<Rightarrow> int \<Rightarrow> payloads \<Rightarrow> identity_values \<Rightarrow> evidence_ref \<Rightarrow> bool" where
  "proof_shown P t ps scope v = (case ps v of None \<Rightarrow> False | Some n \<Rightarrow> recall_visible P t False n \<and> same_scope scope n)"

text \<open>The steps of a path; the references of those passed are collected even when it fails.\<close>

fun check_steps :: "relation_tables \<Rightarrow> traversal_policy \<Rightarrow> int \<Rightarrow> payloads \<Rightarrow> ustr list \<Rightarrow> step list \<Rightarrow> bool \<times> evidence_ref list
    \<Rightarrow> (bool \<times> evidence_ref list) result" where
  "check_steps T P t ps keys [] (valid, refs) = Inr (valid, refs)"
| "check_steps T P t ps keys (st # sts) (valid, refs) =
     (case ps (payload_key False (sp_owner st)) of
        None \<Rightarrow> Inr (False, refs)
      | Some owner \<Rightarrow>
          if \<not> recall_visible P t True owner \<or> nd_version owner \<noteq> sp_version st then Inr (False, refs)
          else bindE (verify_projection T owner) (\<lambda>_.
               bindE (bundle_from_extensions T (nd_extensions owner)) (\<lambda>es.
                 case find (\<lambda>e. ed_id e = sp_relation st) es of
                   None \<Rightarrow> Inr (False, refs)
                 | Some e \<Rightarrow>
                     if \<not> same_edge P t T (take 2 keys) st e then Inr (False, refs)
                     else check_steps T P t ps (tl keys) sts
                       (valid \<and> list_all (proof_shown P t ps (ef_scope (ed_source e))) (ed_evidence e),
                        refs @ payload_key False (sp_owner st) # ed_evidence e))))"

definition check_path :: "relation_tables \<Rightarrow> traversal_policy \<Rightarrow> int \<Rightarrow> payloads \<Rightarrow> path \<Rightarrow> (bool \<times> evidence_ref list) result" where
  "check_path T P t ps p =
     (let refs = map (payload_key False) (pa_records p); seen = list_all (shown P t True ps) refs in
      bindE (if seen then keys_match T ps (pa_records p) (pa_keys p) else Inr False) (\<lambda>valid.
        check_steps T P t ps (pa_keys p) (pa_steps p) (valid, refs)))"

subsection \<open>Packing\<close>

definition record_key :: "evidence_ref \<Rightarrow> ustr" where
  "record_key v = record_type (vr_episode v) @ lit '':'' @ vr_id v"

definition show_record :: "token_counter \<Rightarrow> int \<Rightarrow> node \<Rightarrow> recalled_record" where
  "show_record K tokens n = \<lparr>rd_node = n, rd_text = clip_to_tokens K (nd_content n) tokens,
     rd_clipped = (tokens < estimate_tokens K (nd_content n))\<rparr>"

definition add_record :: "token_counter \<Rightarrow> int \<Rightarrow> payloads \<Rightarrow> evidence_ref \<Rightarrow> (ustr \<times> recalled_record) list
    \<Rightarrow> (ustr \<times> recalled_record) list result" where
  "add_record K tokens ps v rows =
     (case ps v of None \<Rightarrow> Inl (KeyError (record_key v)) | Some n \<Rightarrow> Inr (AList.update (record_key v) (show_record K tokens n) rows))"

primrec passE :: "('a \<Rightarrow> 'c \<Rightarrow> 'c result) \<Rightarrow> 'a list \<Rightarrow> 'c \<Rightarrow> 'c result" where
  "passE f [] c = Inr c"
| "passE f (x # xs) c = bindE (f x c) (passE f xs)"

definition note_reason :: "string \<Rightarrow> ustr list \<Rightarrow> ustr list" where
  "note_reason r rs = List.insert (lit r) rs"

text \<open>The result so far and the reasons, for one more path.\<close>

definition recall_path :: "'s recall_service \<Rightarrow> recall_request \<Rightarrow> int \<Rightarrow> payloads \<Rightarrow> path \<Rightarrow> recall_result \<times> ustr list
    \<Rightarrow> (recall_result \<times> ustr list) result" where
  "recall_path V Q t ps p acc =
     (case acc of (R, reasons) \<Rightarrow>
      bindE (check_path (rv_tables V) (rq_policy Q) t ps p) (\<lambda>(valid, refs).
      if \<not> valid then Inr (R, note_reason ''revalidation'' reasons)
      else bindE (passE (add_record (rv_counter V) (rq_record_tokens Q) ps)
             (sort_key (\<lambda>v. (record_type (vr_episode v), vr_id v)) (remdups refs)) (rs_records R)) (\<lambda>rows.
        let proposed = R\<lparr>rs_paths := rs_paths R @ [p], rs_records := rows\<rparr>
        in if rq_context_tokens Q - 64 < estimate_tokens (rv_counter V) (rv_render V False proposed)
           then Inr (R, note_reason ''context_tokens'' reasons)
           else Inr (proposed, reasons))))"

primrec settle_estimate :: "'s recall_service \<Rightarrow> nat \<Rightarrow> recall_result \<Rightarrow> recall_result" where
  "settle_estimate V 0 R = R"
| "settle_estimate V (Suc n) R = settle_estimate V n (R\<lparr>rs_estimate := estimate_tokens (rv_counter V) (rv_render V True R)\<rparr>)"

definition start_recall :: "recall_request \<Rightarrow> traversal_result \<Rightarrow> recall_result" where
  "start_recall Q found = \<lparr>rs_paths = [], rs_records = [], rs_traversal = found, rs_calls = tr_calls found,
     rs_reasons = ss_reasons (tr_search found), rs_budget = rq_context_tokens Q, rs_estimate = 0\<rparr>"

definition finish_recall :: "'s recall_service \<Rightarrow> nat \<Rightarrow> recall_result \<times> ustr list \<Rightarrow> recall_result" where
  "finish_recall V used acc = (case acc of (R, reasons) \<Rightarrow> settle_estimate V 3 (R\<lparr>rs_calls := used, rs_reasons := sort reasons\<rparr>))"

text \<open>A read over the budget leaves no path, for the proofs of the paths are not complete then.\<close>

definition pack_recall :: "'s recall_service \<Rightarrow> caller_authority option \<Rightarrow> recall_request \<Rightarrow> traversal_result \<Rightarrow> ('s, recall_result) io" where
  "pack_recall V ctx Q found s =
     (case hydrate V ctx (tp_max_calls (rq_policy Q)) (ss_paths (tr_search found)) (s, tr_calls found) of
        (Inl e, (s', used)) \<Rightarrow>
          ((case e of
              TraversalLimit m \<Rightarrow> Inr (finish_recall V used (start_recall Q found, List.insert m (ss_reasons (tr_search found))))
            | _ \<Rightarrow> Inl e), s')
      | (Inr ps, (s', used)) \<Rightarrow>
          (bindE (passE (recall_path V Q (tr_at found) ps) (ss_paths (tr_search found)) (start_recall Q found, ss_reasons (tr_search found)))
             (\<lambda>acc. Inr (finish_recall V used acc)), s'))"

definition recall :: "'s recall_service \<Rightarrow> caller_authority option \<Rightarrow> int \<Rightarrow> recall_request \<Rightarrow> ('s, recall_result) io" where
  "recall V ctx now Q = bindS (traverse (rv_index V) (rv_tables V) (rq_policy Q) ctx now (rq_seeds Q)) (pack_recall V ctx Q)"

subsection \<open>Expanding a dream's evidence\<close>

text \<open>
  The renderings of paths, times and items, and the parsing of ids, are parameters. A recalled
  record shows the fields \<^verbatim>\<open>topic\<close>, \<^verbatim>\<open>entity_name\<close> and \<^verbatim>\<open>version\<close> its payload has.
\<close>

record 's relation_expander =
  rx_service :: "'s recall_service"
  rx_total :: int
  rx_context :: int
  rx_calls :: int
  rx_uuid :: "ustr \<Rightarrow> uid result"
  rx_path :: "path \<Rightarrow> json"
  rx_iso :: "int \<Rightarrow> ustr"
  rx_field :: "node \<Rightarrow> ustr \<Rightarrow> json option"
  rx_dump :: "evidence list \<Rightarrow> ustr"

definition make_expander :: "'s relation_expander \<Rightarrow> 's relation_expander result" where
  "make_expander X =
     (if \<not> (1 \<le> rx_total X \<and> rx_total X \<le> 32) \<or> \<not> (512 \<le> rx_context X \<and> rx_context X \<le> 16384)
      then Inl (ValueError (lit ''invalid Dream relation evidence budget''))
      else if \<not> (1 \<le> rx_calls X \<and> rx_calls X \<le> 32) then Inl (ValueError (lit ''invalid Dream relation read budget''))
      else Inr X)"

definition evidence_partition :: "evidence \<Rightarrow> json option list" where
  "evidence_partition e = map (\<lambda>d. case ev_metadata e of
       JObj kvs \<Rightarrow> (case map_of kvs (dimension_value d) of Some JNull \<Rightarrow> None | v \<Rightarrow> v)
     | _ \<Rightarrow> None) dimension_order"

definition seed_groups :: "evidence list \<Rightarrow> ustr list list" where
  "seed_groups seed =
     (let known = filter (\<lambda>e. ev_record_type e = lit ''knowledge'') seed
      in map (\<lambda>k. map ev_id (filter (\<lambda>e. evidence_partition e = k) known)) (fromkeys (map evidence_partition known)))"

type_synonym item_key = "ustr \<times> ustr"

definition item_ref :: "evidence \<Rightarrow> item_key" where
  "item_ref e = (ev_record_type e, ev_id e)"

definition path_refs :: "path \<Rightarrow> item_key list" where
  "path_refs p = remdups (map (Pair (lit ''knowledge'')) (pa_records p)
     @ map (\<lambda>v. (record_type (vr_episode v), vr_id v)) (concat (map sp_evidence (pa_steps p))))"

definition expansion_metadata :: "'s relation_expander \<Rightarrow> recall_result \<Rightarrow> bucket \<Rightarrow> node \<Rightarrow> path list \<Rightarrow> json" where
  "expansion_metadata X R b n paths =
     JObj ([(lit ''relation_paths'', JArr (map (rx_path X) paths)), (lit ''relation_as_of'', JStr (rx_iso X (tr_at (rs_traversal R)))),
        (lit ''relation_bucket'', JStr (bk_name b)), (lit ''relation_truncated'', JBool (rs_reasons R \<noteq> [])),
        (lit ''relation_truncation_reasons'', JArr (map JStr (rs_reasons R)))]
      @ List.map_filter (\<lambda>k. map_option (Pair k) (rx_field X n k)) [lit ''topic'', lit ''entity_name'', lit ''version''])"

definition expansion_item :: "'s relation_expander \<Rightarrow> recall_result \<Rightarrow> bucket \<Rightarrow> path list \<Rightarrow> item_key \<Rightarrow> evidence result" where
  "expansion_item X R b paths ref =
     (case map_of (rs_records R) (fst ref @ lit '':'' @ snd ref) of
        None \<Rightarrow> Inl (KeyError (fst ref @ lit '':'' @ snd ref))
      | Some r \<Rightarrow> let n = rd_node r in
          Inr \<lparr>ev_id = snd ref, ev_record_type = fst ref, ev_content = rd_text r, ev_score = None,
             ev_event_time = Some (if nd_episode n then nd_event n else nd_created n),
             ev_metadata = expansion_metadata X R b n (filter (\<lambda>p. ref \<in> set (path_refs p)) paths)\<rparr>)"

definition build_items :: "'s relation_expander \<Rightarrow> recall_result \<Rightarrow> bucket \<Rightarrow> item_key list \<Rightarrow> path list \<Rightarrow> evidence list result" where
  "build_items X R b seen paths =
     mapE (expansion_item X R b paths) (sort (remdups (filter (\<lambda>ref. ref \<notin> set seen) (concat (map path_refs paths)))))"

text \<open>One more path, if the items it adds still fit: the paths selected and the items packed.\<close>

definition pack_path :: "'s relation_expander \<Rightarrow> recall_result \<Rightarrow> bucket \<Rightarrow> evidence list \<Rightarrow> item_key list \<Rightarrow> path
    \<Rightarrow> path list \<times> evidence list \<Rightarrow> (path list \<times> evidence list) result" where
  "pack_path X R b result seen p acc =
     (case acc of (chosen, packed) \<Rightarrow>
      bindE (build_items X R b seen (chosen @ [p])) (\<lambda>proposed.
        if rx_total X < int (length (result @ proposed))
           \<or> rx_context X < estimate_tokens (rv_counter (rx_service X)) (rx_dump X (result @ proposed))
        then Inr (chosen, packed) else Inr (chosen @ [p], proposed)))"

record relation_expansion =
  re_result :: "evidence list"
  re_seen :: "item_key list"
  re_calls :: int
  re_tokens :: int

definition expansion_policy :: "bucket \<Rightarrow> int \<Rightarrow> traversal_policy result" where
  "expansion_policy b calls =
     make_traversal_policy 2 32 64 32 calls OUT [DEPENDS_ON, PART_OF, SUPPORTS, CONTRADICTS, CAUSES] (Some (Aware (bk_end b)))"

definition expansion_request :: "'s relation_expander \<Rightarrow> bucket \<Rightarrow> relation_expansion \<Rightarrow> ustr list \<Rightarrow> recall_request result" where
  "expansion_request X b E ids =
     bindE (expansion_policy b (re_calls E)) (\<lambda>P.
     bindE (mapE (rx_uuid X) (take 32 ids)) (\<lambda>seeds. make_recall_request seeds P (re_tokens E) 256))"

definition configuration_error :: "exn \<Rightarrow> bool" where
  "configuration_error e = (case e of ConfigurationError _ \<Rightarrow> True | QuotaExceededError _ \<Rightarrow> True | _ \<Rightarrow> False)"

definition expand_group :: "'s relation_expander \<Rightarrow> caller_authority option \<Rightarrow> int \<Rightarrow> bucket \<Rightarrow> ustr list \<Rightarrow> relation_expansion
    \<Rightarrow> ('s, relation_expansion) io" where
  "expand_group X ctx now b ids E s =
     (case bindS (liftS (expansion_request X b E ids)) (recall (rx_service X) ctx now) s of
        (Inl e, s') \<Rightarrow> (if configuration_error e then Inr E else Inl e, s')
      | (Inr R, s') \<Rightarrow>
          (bindE (passE (pack_path X R b (re_result E) (re_seen E)) (rs_paths R) ([], [])) (\<lambda>(_, packed).
             Inr \<lparr>re_result = re_result E @ packed, re_seen = re_seen E @ map item_ref packed,
               re_calls = re_calls E - int (rs_calls R), re_tokens = re_tokens E - rs_estimate R\<rparr>), s'))"

primrec expand_groups :: "'s relation_expander \<Rightarrow> caller_authority option \<Rightarrow> int \<Rightarrow> bucket \<Rightarrow> ustr list list \<Rightarrow> relation_expansion
    \<Rightarrow> ('s, relation_expansion) io" where
  "expand_groups X ctx now b [] E = returnS E"
| "expand_groups X ctx now b (ids # groups) E =
     (if re_calls E < 1 \<or> re_tokens E < 512 \<or> rx_total X \<le> int (length (re_result E)) then returnS E
      else bindS (expand_group X ctx now b ids E) (expand_groups X ctx now b groups))"

definition expand_relations :: "'s relation_expander \<Rightarrow> caller_authority option \<Rightarrow> int \<Rightarrow> evidence list \<Rightarrow> bucket \<Rightarrow> ('s, evidence list) io" where
  "expand_relations X ctx now seed b =
     bindS (liftS (enforce_operation (ix_unicode (rv_index (rx_service X))) ctx BACKGROUND_EVIDENCE_READ Map.empty)) (\<lambda>_.
     bindS (expand_groups X ctx now b (seed_groups seed)
         \<lparr>re_result = [], re_seen = map item_ref seed, re_calls = rx_calls X, re_tokens = rx_context X\<rparr>) (\<lambda>E.
       returnS (re_result E)))"

subsection \<open>Recalled paths are confirmed\<close>

text \<open>\<open>S\<close> is what the second read answered: the record is among it, under its id, and within the caller's grant.\<close>

definition reread :: "relation_point set \<Rightarrow> caller_authority \<Rightarrow> evidence_ref \<Rightarrow> node \<Rightarrow> bool" where
  "reread S c v n \<longleftrightarrow> (nd_id n, Readable n) \<in> S \<and> nd_id n = vr_id v \<and> nd_episode n = vr_episode v \<and> inside c (ef_scope (nd_ref n))"

definition payloads_ok :: "relation_point set \<Rightarrow> caller_authority \<Rightarrow> payloads \<Rightarrow> bool" where
  "payloads_ok S c ps \<longleftrightarrow> (\<forall>v n. ps v = Some n \<longrightarrow> reread S c v n)"

lemma payloads_ok_mono: "payloads_ok S c ps \<Longrightarrow> S \<subseteq> S' \<Longrightarrow> payloads_ok S' c ps"
  unfolding payloads_ok_def reread_def by blast

text \<open>
  A record that still counts, said without the code's own test, and more strictly at the ends of a
  step, which must be current unless the recall is historical.
\<close>

definition still_counts :: "traversal_policy \<Rightarrow> int \<Rightarrow> bool \<Rightarrow> node \<Rightarrow> bool" where
  "still_counts P t endpoint n \<longleftrightarrow> counts_at t n \<and> (nd_episode n \<longrightarrow> nd_event n \<le> t) \<and> (\<not> nd_episode n \<longrightarrow> nd_ordinary n)
     \<and> (endpoint \<and> tp_as_of P = None \<and> \<not> nd_episode n \<longrightarrow> nd_status n = K_ACTIVE)"

lemma recall_visible_counts: "recall_visible P t endpoint n \<longleftrightarrow> still_counts P t endpoint n"
  by (auto simp: recall_visible_def still_counts_def counts_at_def)

text \<open>
  A step holds on the records read again: its owner, as it was read then, shows it at the same version,
  in an intact bundle, accepted and valid, between the same entities, and all of its evidence was
  read then and counts.
\<close>

definition confirmed_step :: "relation_tables \<Rightarrow> traversal_policy \<Rightarrow> relation_point set \<Rightarrow> caller_authority \<Rightarrow> int \<Rightarrow> ustr list \<Rightarrow> step \<Rightarrow> bool" where
  "confirmed_step T P S c t ends st \<longleftrightarrow> (\<exists>owner es e. reread S c (payload_key False (sp_owner st)) owner \<and> still_counts P t True owner
     \<and> nd_version owner = sp_version st \<and> verify_projection T owner = Inr ()
     \<and> bundle_from_extensions T (nd_extensions owner) = Inr es \<and> e \<in> set es \<and> asserted_at t e
     \<and> ed_id e = sp_relation st \<and> ed_kind e = sp_kind st \<and> ed_record e = sp_record st \<and> ed_evidence e = sp_evidence st
     \<and> ends = map (ref_key T) (if sp_forward st then [ed_source e, ed_target e] else [ed_target e, ed_source e])
     \<and> list_all (\<lambda>v. \<exists>n. reread S c v n \<and> still_counts P t False n \<and> same_scope (ef_scope (ed_source e)) n) (ed_evidence e))"

lemma same_edge_asserted:
  "same_edge P t T ends st e \<Longrightarrow> asserted_at t e \<and> ed_kind e = sp_kind st \<and> ed_record e = sp_record st \<and> ed_evidence e = sp_evidence st
     \<and> ends = map (ref_key T) (if sp_forward st then [ed_source e, ed_target e] else [ed_target e, ed_source e])"
  by (auto simp: same_edge_def asserted_at_def Let_def split: option.splits if_splits)

fun confirmed_steps :: "relation_tables \<Rightarrow> traversal_policy \<Rightarrow> relation_point set \<Rightarrow> caller_authority \<Rightarrow> int \<Rightarrow> ustr list \<Rightarrow> step list \<Rightarrow> bool" where
  "confirmed_steps T P S c t ks [] = True"
| "confirmed_steps T P S c t (k # l # ks) (st # sts) = (confirmed_step T P S c t [k, l] st \<and> confirmed_steps T P S c t (l # ks) sts)"
| "confirmed_steps T P S c t _ _ = False"

definition confirmed_path :: "relation_tables \<Rightarrow> traversal_policy \<Rightarrow> relation_point set \<Rightarrow> caller_authority \<Rightarrow> int \<Rightarrow> path \<Rightarrow> bool" where
  "confirmed_path T P S c t p \<longleftrightarrow> list_all2 (\<lambda>i k. \<exists>n. reread S c (payload_key False i) n \<and> still_counts P t True n
       \<and> make_ref T (nd_ref n) = Inr (nd_ref n) \<and> ref_key T (nd_ref n) = k) (pa_records p) (pa_keys p)
     \<and> confirmed_steps T P S c t (pa_keys p) (pa_steps p)"

lemma hydrate_kind_tallies: "logs_pages (rv_index V) trail \<Longrightarrow> tallies trail (hydrate_kind V ctx m episode ids ps)"
  unfolding hydrate_kind_def by (auto intro!: tallies_bind tallies_read)

lemma hydrate_tallies: "logs_pages (rv_index V) trail \<Longrightarrow> tallies trail (hydrate V ctx m paths)"
  unfolding hydrate_def by (auto intro!: tallies_bind hydrate_kind_tallies)

lemma hydrate_kind_ok:
  assumes U: "nfc_stable (ix_unicode (rv_index V))" "caller_wf (ix_unicode (rv_index V)) c" "pages_ok (rv_index V)" "logs_pages (rv_index V) trail"
    and "payloads_ok (since k trail w) c ps" and run: "hydrate_kind V (Some c) m episode ids ps w = (Inr qs, w')" and k: "k \<le> length (trail (fst w))"
  shows "payloads_ok (since k trail w') c qs"
proof (cases "ids = []")
  case False
  then obtain points ns where read: "index_read (rv_index V) (Some c) m episode [WithIds ids, OfType episode] [] 256 True w = (Inr points, w')"
    and ns: "mapE (canonical_node episode) points = Inr ns" and qs: "qs = fold (\<lambda>n m. m(payload_key episode (nd_id n) \<mapsto> n)) ns ps"
    using run by (auto simp: hydrate_kind_def bindS_Inr returnS_Inr)
  let ?S = "since k trail w'"
  have new: "set points \<subseteq> ?S" by (rule index_read_since [OF U(4) read k])
  have "nd_episode n = episode \<and> inside c (ef_scope (nd_ref n)) \<and> (nd_id n, Readable n) \<in> ?S" if "n \<in> set ns" for n
  proof -
    from mapE_source [OF ns that] obtain x where x: "x \<in> set points" "canonical_node episode x = Inr n" by blast
    have "list_all (\<lambda>x. inside c (payload_identity (snd x))) points" using index_read_points [OF U(1-3) read] by (simp add: list_all_iff)
    with x have "inside c (payload_identity (snd x))" by (simp add: list_all_iff)
    moreover have "x = (nd_id n, Readable n)" using x(2) by (simp add: canonical_node_Inr prod_eq_iff)
    ultimately show ?thesis using x new by (auto simp: canonical_node_Inr)
  qed
  moreover have "payloads_ok ?S c ps" by (rule payloads_ok_mono [OF assms(5) since_grows(1) [OF tallies_read [OF U(4)] read k]])
  ultimately have "payloads_ok ?S c (fold (\<lambda>n m. m(payload_key episode (nd_id n) \<mapsto> n)) ns ps)"
  proof (induction ns arbitrary: ps)
    case (Cons n ns)
    have "reread ?S c (payload_key episode (nd_id n)) n" using Cons.prems(1) [of n] by (simp add: reread_def payload_key_def)
    then have "payloads_ok ?S c (ps(payload_key episode (nd_id n) \<mapsto> n))" using Cons.prems(2) by (simp add: payloads_ok_def)
    with Cons.IH Cons.prems(1) show ?case by (simp del: fun_upd_apply)
  qed simp
  then show ?thesis by (simp add: qs)
qed (use assms(5) run in \<open>simp add: hydrate_kind_def returnS_def\<close>)

lemma hydrate_ok:
  assumes U: "nfc_stable (ix_unicode (rv_index V))" "caller_wf (ix_unicode (rv_index V)) c" "pages_ok (rv_index V)" "logs_pages (rv_index V) trail"
    and "hydrate V (Some c) m paths w = (Inr ps, w')" and k: "k \<le> length (trail (fst w))"
  shows "payloads_ok (since k trail w') c ps"
proof -
  obtain qs w1 where q: "hydrate_kind V (Some c) m False (path_ids False paths) Map.empty w = (Inr qs, w1)"
    "hydrate_kind V (Some c) m True (path_ids True paths) qs w1 = (Inr ps, w')"
    using assms(5) by (auto simp: hydrate_def bindS_Inr)
  have k1: "k \<le> length (trail (fst w1))" by (rule since_grows(2) [OF hydrate_kind_tallies [OF U(4)] q(1) k])
  have "payloads_ok (since k trail w) c Map.empty" by (simp add: payloads_ok_def)
  from hydrate_kind_ok [OF U hydrate_kind_ok [OF U this q(1) k] q(2) k1] show ?thesis .
qed

lemma hydrate_keeps: "keeps m (hydrate V ctx m paths)"
proof -
  have "keeps m (hydrate_kind V ctx m episode ids ps)" for episode ids ps
    unfolding hydrate_kind_def by (auto intro!: keeps_bind)
  then show ?thesis unfolding hydrate_def by (auto intro!: keeps_bind)
qed

lemma keys_match_True:
  assumes "keys_match T ps rs ks = Inr True" and "payloads_ok S c ps" and "list_all (shown P t True ps) (map (payload_key False) rs)"
  shows "list_all2 (\<lambda>i k. \<exists>n. reread S c (payload_key False i) n \<and> still_counts P t True n
     \<and> make_ref T (nd_ref n) = Inr (nd_ref n) \<and> ref_key T (nd_ref n) = k) rs ks"
  using assms
proof (induction T ps rs ks rule: keys_match.induct)
  case (2 T ps i rs k ks)
  from 2(2) obtain n where n: "ps (payload_key False i) = Some n"
    and r: "bindE (make_ref T (nd_ref n)) (\<lambda>r. if ref_key T r \<noteq> k then Inr False else keys_match T ps rs ks) = Inr True"
    by (auto split: option.splits)
  then obtain r where r: "make_ref T (nd_ref n) = Inr r" "ref_key T r = k" "keys_match T ps rs ks = Inr True" by (auto split: if_splits)
  have same: "r = nd_ref n" by (rule make_ref_same [OF r(1)])
  have "reread S c (payload_key False i) n" using 2(3) n by (simp add: payloads_ok_def)
  moreover have "still_counts P t True n" using 2(4) n by (simp add: shown_def recall_visible_counts)
  ultimately have "\<exists>n. reread S c (payload_key False i) n \<and> still_counts P t True n
     \<and> make_ref T (nd_ref n) = Inr (nd_ref n) \<and> ref_key T (nd_ref n) = k" using r(1,2) unfolding same by blast
  moreover have "list_all2 (\<lambda>i k. \<exists>n. reread S c (payload_key False i) n \<and> still_counts P t True n
     \<and> make_ref T (nd_ref n) = Inr (nd_ref n) \<and> ref_key T (nd_ref n) = k) rs ks"
    using 2(1) [OF n _ r(3) 2(3)] r(2) 2(4) by auto
  ultimately show ?case by simp
qed simp_all

lemma check_steps_True:
  assumes "check_steps T P t ps keys sts (valid, refs) = Inr (True, refs')" and "payloads_ok S c ps"
  shows "valid \<and> confirmed_steps T P S c t keys sts"
  using assms(1)
proof (induction sts arbitrary: keys valid refs)
  case (Cons st sts)
  obtain owner where owner: "ps (payload_key False (sp_owner st)) = Some owner" using Cons.prems by (auto split: option.splits)
  have vis: "recall_visible P t True owner" "nd_version owner = sp_version st" using Cons.prems owner by (auto split: if_splits)
  then obtain es where es: "verify_projection T owner = Inr ()" "bundle_from_extensions T (nd_extensions owner) = Inr es"
    using Cons.prems owner by auto
  obtain e where e: "find (\<lambda>e. ed_id e = sp_relation st) es = Some e" using Cons.prems owner vis es by (auto split: option.splits)
  have same: "same_edge P t T (take 2 keys) st e" using Cons.prems owner vis es e by (auto split: if_splits)
  let ?ok = "list_all (proof_shown P t ps (ef_scope (ed_source e))) (ed_evidence e)"
  have "check_steps T P t ps (tl keys) sts (valid \<and> ?ok, refs @ payload_key False (sp_owner st) # ed_evidence e) = Inr (True, refs')"
    using Cons.prems owner vis es e same by simp
  from Cons.IH [OF this] have rest: "valid \<and> ?ok" "confirmed_steps T P S c t (tl keys) sts" by simp_all
  have "length (take 2 keys) = 2" using same by (auto simp: same_edge_def Let_def split: if_splits)
  then obtain k l ks where keys: "keys = k # l # ks" by (cases keys; cases "tl keys") auto
  have "\<exists>n. reread S c v n \<and> still_counts P t False n \<and> same_scope (ef_scope (ed_source e)) n" if "v \<in> set (ed_evidence e)" for v
    using rest(1) that assms(2) by (auto simp: list_all_iff proof_shown_def payloads_ok_def recall_visible_counts split: option.splits dest!: bspec [of _ _ v])
  moreover have "e \<in> set es" "ed_id e = sp_relation st" using e by (auto simp: find_Some_iff)
  moreover have "reread S c (payload_key False (sp_owner st)) owner" using owner assms(2) by (simp add: payloads_ok_def)
  ultimately have "confirmed_step T P S c t [k, l] st"
    using vis es same_edge_asserted [OF same] unfolding confirmed_step_def list_all_iff keys recall_visible_counts by (intro exI [of _ owner] exI [of _ es] exI [of _ e]) simp
  then show ?case using rest by (simp add: keys)
qed simp

lemma check_path_True:
  assumes "check_path T P t ps p = Inr (True, refs)" and "payloads_ok S c ps"
  shows "confirmed_path T P S c t p"
proof -
  let ?refs = "map (payload_key False) (pa_records p)"
  let ?seen = "list_all (shown P t True ps) ?refs"
  obtain valid where v: "(if ?seen then keys_match T ps (pa_records p) (pa_keys p) else Inr False) = Inr valid"
    and steps: "check_steps T P t ps (pa_keys p) (pa_steps p) (valid, ?refs) = Inr (True, refs)"
    using assms(1) by (auto simp: check_path_def Let_def)
  note ok = check_steps_True [OF steps assms(2)]
  then have "?seen" "keys_match T ps (pa_records p) (pa_keys p) = Inr True" using v by (auto split: if_splits)
  from keys_match_True [OF this(2) assms(2) this(1)] ok show ?thesis by (simp add: confirmed_path_def)
qed

lemma passE_invariant:
  assumes "passE f xs c = Inr c'" and "I c" and "\<And>x c c'. x \<in> set xs \<Longrightarrow> I c \<Longrightarrow> f x c = Inr c' \<Longrightarrow> I c'"
  shows "I c'"
  using assms
proof (induction xs arbitrary: c)
  case (Cons x xs)
  obtain c1 where 1: "f x c = Inr c1" "passE f xs c1 = Inr c'" using Cons.prems(1) by auto
  show ?case
  proof (rule Cons.IH [OF 1(2)])
    show "I c1" using Cons.prems(3) [OF _ Cons.prems(2) 1(1)] by simp
    show "I c'" if "x \<in> set xs" "I c" "f x c = Inr c'" for x c c' using Cons.prems(3) [OF _ that(2,3)] that(1) by simp
  qed
qed simp

subsection \<open>What a recall returns\<close>

text \<open>A record as it is shown: one that was read again, under its key, with its text clipped to its budget.\<close>

definition shown_ok :: "token_counter \<Rightarrow> int \<Rightarrow> relation_point set \<Rightarrow> caller_authority \<Rightarrow> ustr \<times> recalled_record \<Rightarrow> bool" where
  "shown_ok K n S c row \<longleftrightarrow> (let node = rd_node (snd row); key = payload_key (nd_episode node) (nd_id node) in
     fst row = record_key key \<and> reread S c key node
     \<and> rd_text (snd row) = clip_to_tokens K (nd_content node) n \<and> estimate_tokens K (rd_text (snd row)) \<le> n)"

text \<open>What holds of the result while paths are packed; its last three fields are still those it started with.\<close>

definition packed_ok :: "'s recall_service \<Rightarrow> recall_request \<Rightarrow> relation_point set \<Rightarrow> caller_authority \<Rightarrow> traversal_result \<Rightarrow> recall_result \<Rightarrow> bool" where
  "packed_ok V Q S c found R \<longleftrightarrow>
     list_all (\<lambda>p. p \<in> set (ss_paths (tr_search found)) \<and> confirmed_path (rv_tables V) (rq_policy Q) S c (tr_at found) p) (rs_paths R)
     \<and> list_all (shown_ok (rv_counter V) (rq_record_tokens Q) S c) (rs_records R)
     \<and> (rs_paths R \<noteq> [] \<longrightarrow> estimate_tokens (rv_counter V) (rv_render V False R) \<le> rq_context_tokens Q - 64)
     \<and> rs_traversal R = found \<and> rs_budget R = rq_context_tokens Q
     \<and> rs_calls R = tr_calls found \<and> rs_reasons R = ss_reasons (tr_search found) \<and> rs_estimate R = 0"

lemma add_record_ok:
  assumes "counter_ok K" and "0 \<le> n" and "payloads_ok S c ps" and "add_record K n ps v rows = Inr rows'"
    and "list_all (shown_ok K n S c) rows"
  shows "list_all (shown_ok K n S c) rows'"
proof -
  obtain m where m: "ps v = Some m" "rows' = AList.update (record_key v) (show_record K n m) rows"
    using assms(4) by (auto simp: add_record_def split: option.splits)
  have v: "reread S c v m" using m(1) assms(3) by (simp add: payloads_ok_def)
  then have "payload_key (nd_episode m) (nd_id m) = v" by (simp add: reread_def payload_key_def)
  moreover have "estimate_tokens K (clip_to_tokens K (nd_content m) n) \<le> n" using clip_budget [OF assms(1), of "nd_content m" n] assms(2) by simp
  ultimately have "shown_ok K n S c (record_key v, show_record K n m)" using v by (simp add: shown_ok_def show_record_def Let_def)
  moreover have "set rows' \<subseteq> insert (record_key v, show_record K n m) (set rows)"
    unfolding m(2) by (induction rows) (auto split: if_splits)
  ultimately show ?thesis using assms(5) by (auto simp: list_all_iff)
qed

lemma recall_path_ok:
  assumes "counter_ok (rv_counter V)" and "0 \<le> rq_record_tokens Q" and "payloads_ok S c ps" and "p \<in> set (ss_paths (tr_search found))"
    and "packed_ok V Q S c found (fst acc)" and "recall_path V Q (tr_at found) ps p acc = Inr acc'"
  shows "packed_ok V Q S c found (fst acc')"
proof -
  obtain R reasons where acc: "acc = (R, reasons)" by fastforce
  obtain valid refs where chk: "check_path (rv_tables V) (rq_policy Q) (tr_at found) ps p = Inr (valid, refs)" using assms(6) by (auto simp: recall_path_def acc)
  show ?thesis
  proof (cases valid)
    case False
    then have "fst acc' = R" using assms(6) chk by (auto simp: recall_path_def acc)
    then show ?thesis using assms(5) by (simp add: acc)
  next
    case True
    let ?refs = "sort_key (\<lambda>v. (record_type (vr_episode v), vr_id v)) (remdups refs)"
    obtain rows where rows: "passE (add_record (rv_counter V) (rq_record_tokens Q) ps) ?refs (rs_records R) = Inr rows"
      and res: "(let proposed = R\<lparr>rs_paths := rs_paths R @ [p], rs_records := rows\<rparr>
        in if rq_context_tokens Q - 64 < estimate_tokens (rv_counter V) (rv_render V False proposed)
           then Inr (R, note_reason ''context_tokens'' reasons) else Inr (proposed, reasons)) = (Inr acc' :: exn + _)"
      using assms(6) chk True by (auto simp: recall_path_def acc)
    let ?ok = "list_all (shown_ok (rv_counter V) (rq_record_tokens Q) S c)"
    have "?ok (rs_records R)" using assms(5) by (simp add: packed_ok_def acc)
    then have "?ok rows" using passE_invariant [OF rows, of ?ok] add_record_ok [OF assms(1-3)] by blast
    moreover have "confirmed_path (rv_tables V) (rq_policy Q) S c (tr_at found) p" using check_path_True [OF _ assms(3)] chk True by simp
    ultimately show ?thesis using res assms(4,5) by (auto simp: packed_ok_def acc Let_def split: if_splits)
  qed
qed

lemma settle_estimate_keeps: "\<exists>n. settle_estimate V k R = R\<lparr>rs_estimate := n\<rparr>"
proof (induction k arbitrary: R)
  case 0
  have "R = R\<lparr>rs_estimate := rs_estimate R\<rparr>" by simp
  then show ?case by (metis settle_estimate.simps(1))
next
  case (Suc k)
  obtain n where "settle_estimate V k (R\<lparr>rs_estimate := estimate_tokens (rv_counter V) (rv_render V True R)\<rparr>)
    = (R\<lparr>rs_estimate := estimate_tokens (rv_counter V) (rv_render V True R)\<rparr>)\<lparr>rs_estimate := n\<rparr>" using Suc by blast
  then show ?case by auto
qed

text \<open>
  C38. A recall reads the records of the paths it found a second time and returns only paths that this
  second read confirms: each record on the path is among what it answered, within the caller's grant,
  still visible and still the entity the path says; each step is still shown by its owner as read
  then, at the version the first read saw, accepted and valid, with all its evidence read then, visible
  and in the partition of the step's source. Every record shown is one of those read then, its text clipped to the
  request's budget for a record. The paths come from a traversal of the seeds, the calls counted
  are exactly the calls of both reads and stay within the policy, and the packed result, as it is
  before its last fields are set, leaves the reserved 64 tokens of the budget free.
\<close>

theorem recall_is_confirmed:
  assumes "nfc_stable (ix_unicode (rv_index V))" and "caller_wf (ix_unicode (rv_index V)) c" and "pages_ok (rv_index V)"
    and "logs_pages (rv_index V) trail" and "counter_ok (rv_counter V)" and "make_recall_request seeds P tokens record_tokens = Inr Q"
    and "recall V (Some c) now Q s = (Inr R, s')"
  shows "\<exists>t s1 first second. traverse (rv_index V) (rv_tables V) P (Some c) now seeds s = (Inr t, s1)
    \<and> trail s1 = trail s @ first \<and> trail s' = trail s1 @ second
    \<and> list_all (\<lambda>p. p \<in> set (ss_paths (tr_search t)) \<and> confirmed_path (rv_tables V) P (set (concat second)) c (tr_at t) p) (rs_paths R)
    \<and> list_all (shown_ok (rv_counter V) record_tokens (set (concat second)) c) (rs_records R)
    \<and> rs_traversal R = t \<and> rs_budget R = tokens \<and> rs_calls R = length first + length second \<and> rs_calls R \<le> tp_max_calls P
    \<and> (rs_paths R = [] \<or> estimate_tokens (rv_counter V)
         (rv_render V False (R\<lparr>rs_calls := tr_calls t, rs_reasons := ss_reasons (tr_search t), rs_estimate := 0\<rparr>)) \<le> tokens - 64)"
proof -
  have Q: "rq_seeds Q = seeds" "rq_policy Q = P" "rq_context_tokens Q = tokens" "rq_record_tokens Q = record_tokens" "32 \<le> record_tokens"
    using assms(6) by (auto simp: make_recall_request_def split: if_splits)
  obtain found s1 where tr: "traverse (rv_index V) (rv_tables V) P (Some c) now seeds s = (Inr found, s1)"
    and run: "pack_recall V (Some c) Q found s1 = (Inr R, s')"
    using assms(7) by (auto simp: recall_def Q bindS_Inr)
  let ?start = "start_recall Q found" and ?reasons = "ss_reasons (tr_search found)"
  obtain first where first: "trail s1 = trail s @ first" "tr_calls found = length first" and calls: "tr_calls found \<le> tp_max_calls P"
  proof -
    obtain S where S: "explore (rv_index V) (rv_tables V) P (Some c) (tr_at found) (sort (remdups seeds)) (s, 0) = (Inr S, (s1, tr_calls found))"
      using traverse_explore [OF tr] by blast
    from explore_tally [OF assms(4) this] that show thesis by auto
  qed
  obtain h s2 used where h: "hydrate V (Some c) (tp_max_calls P) (ss_paths (tr_search found)) (s1, tr_calls found) = (h, (s2, used))"
    by (metis prod.exhaust)
  have s': "s' = s2" using run h by (auto simp: pack_recall_def Q split: sum.splits)
  obtain second where second: "trail s' = trail s1 @ second" "used = tr_calls found + length second"
    using hydrate_tallies [OF assms(4), of "Some c" "tp_max_calls P" "ss_paths (tr_search found)"] h unfolding s' tallies_def by fastforce
  let ?S = "set (concat second)"
  have since: "since (length (trail s1)) trail (s2, used) = ?S" using second(1) by (simp add: since_def s')
  have used: "used \<le> tp_max_calls P"
    using hydrate_keeps [of "tp_max_calls P" V "Some c" "ss_paths (tr_search found)"] h calls unfolding keeps_def by (metis snd_conv)
  have ok0: "packed_ok V Q ?S c found ?start" by (simp add: packed_ok_def start_recall_def)
  obtain acc where acc: "packed_ok V Q ?S c found (fst acc)" "R = finish_recall V used acc"
  proof (cases h)
    case (Inl e)
    then have r: "(case e of TraversalLimit m \<Rightarrow> Inr (finish_recall V used (?start, List.insert m ?reasons)) | _ \<Rightarrow> Inl e) = (Inr R :: exn + _)"
      using run h by (simp add: pack_recall_def Q)
    then obtain m where "e = TraversalLimit m" by (cases e) auto
    then have "R = finish_recall V used (?start, List.insert m ?reasons)" using r by simp
    then show thesis using ok0 that [of "(?start, List.insert m ?reasons)"] by simp
  next
    case (Inr ps)
    then obtain acc where a: "passE (recall_path V Q (tr_at found) ps) (ss_paths (tr_search found)) (?start, ?reasons) = Inr acc"
      and R: "R = finish_recall V used acc" using run h by (auto simp: pack_recall_def Q)
    have "hydrate V (Some c) (tp_max_calls P) (ss_paths (tr_search found)) (s1, tr_calls found) = (Inr ps, (s2, used))" using h Inr by simp
    from hydrate_ok [OF assms(1-4) this, of "length (trail s1)"] have ps: "payloads_ok ?S c ps" unfolding since by simp
    have "packed_ok V Q ?S c found (fst acc)"
    proof (rule passE_invariant [OF a])
      show "packed_ok V Q ?S c found (fst (?start, ?reasons))" using ok0 by simp
    qed (rule recall_path_ok [OF assms(5) _ ps], use Q in simp_all)
    with R that show thesis by blast
  qed
  obtain R0 reasons where a: "acc = (R0, reasons)" by fastforce
  obtain n where R: "R = R0\<lparr>rs_calls := used, rs_reasons := sort reasons\<rparr>\<lparr>rs_estimate := n\<rparr>"
    using acc(2) settle_estimate_keeps [of V 3 "R0\<lparr>rs_calls := used, rs_reasons := sort reasons\<rparr>"] by (auto simp: finish_recall_def a)
  have R0: "packed_ok V Q ?S c found R0" using acc(1) by (simp add: a)
  then have same: "R\<lparr>rs_calls := tr_calls found, rs_reasons := ss_reasons (tr_search found), rs_estimate := 0\<rparr> = R0"
    by (simp add: R packed_ok_def)
  have facts: "rs_paths R = rs_paths R0" "rs_records R = rs_records R0" "rs_calls R = used" "rs_traversal R = rs_traversal R0" "rs_budget R = rs_budget R0"
    by (simp_all add: R)
  show ?thesis
    using R0 tr used first second unfolding packed_ok_def Q same facts
    by - (rule exI [of _ found], rule exI [of _ s1], rule exI [of _ first], rule exI [of _ second], unfold same facts, auto)
qed

subsection \<open>The expansion of a dream's evidence\<close>

lemma expansion_item_ref: "expansion_item X R b paths ref = Inr e \<Longrightarrow> item_ref e = ref"
  by (auto simp: expansion_item_def item_ref_def Let_def split: option.splits)

lemma build_items_refs:
  assumes "build_items X R b seen paths = Inr items"
  shows "distinct (map item_ref items) \<and> set (map item_ref items) \<inter> set seen = {}"
proof -
  let ?refs = "sort (remdups (filter (\<lambda>ref. ref \<notin> set seen) (concat (map path_refs paths))))"
  have "list_all2 (\<lambda>ref e. expansion_item X R b paths ref = Inr e) ?refs items"
    using assms unfolding build_items_def mapE_eq_Inr .
  then have "list_all2 (\<lambda>ref e. ref = item_ref e) ?refs items" by (rule list_all2_mono) (simp add: expansion_item_ref)
  then have "?refs = map item_ref items" by (induction rule: list_all2_induct) simp_all
  moreover have "distinct ?refs" "set ?refs \<inter> set seen = {}" by auto
  ultimately show ?thesis by simp
qed

definition relation_expansion_ok :: "'s relation_expander \<Rightarrow> evidence list \<Rightarrow> relation_expansion \<Rightarrow> bool" where
  "relation_expansion_ok X seed E \<longleftrightarrow> int (length (re_result E)) \<le> rx_total X
     \<and> (re_result E = [] \<or> estimate_tokens (rv_counter (rx_service X)) (rx_dump X (re_result E)) \<le> rx_context X)
     \<and> distinct (map item_ref (re_result E)) \<and> set (re_seen E) = item_ref ` (set seed \<union> set (re_result E))
     \<and> item_ref ` set (re_result E) \<inter> item_ref ` set seed = {}"

lemma expand_group_ok:
  assumes "relation_expansion_ok X seed E" and "expand_group X ctx now b ids E s = (Inr E', s')"
  shows "relation_expansion_ok X seed E'"
proof -
  obtain r s1 where r: "bindS (liftS (expansion_request X b E ids)) (recall (rx_service X) ctx now) s = (r, s1)"
    using prod.exhaust by blast
  show ?thesis
  proof (cases r)
    case (Inl e)
    then have "E' = E" using assms(2) r by (auto simp: expand_group_def split: if_splits)
    then show ?thesis using assms(1) by simp
  next
    case (Inr R)
    then obtain acc where acc: "passE (pack_path X R b (re_result E) (re_seen E)) (rs_paths R) ([], []) = Inr acc"
      and E': "E' = \<lparr>re_result = re_result E @ snd acc, re_seen = re_seen E @ map item_ref (snd acc),
               re_calls = re_calls E - int (rs_calls R), re_tokens = re_tokens E - rs_estimate R\<rparr>"
      using assms(2) r by (auto simp: expand_group_def)
    let ?I = "\<lambda>acc. distinct (map item_ref (snd acc)) \<and> set (map item_ref (snd acc)) \<inter> set (re_seen E) = {}
      \<and> (snd acc = [] \<or> (int (length (re_result E @ snd acc)) \<le> rx_total X
         \<and> estimate_tokens (rv_counter (rx_service X)) (rx_dump X (re_result E @ snd acc)) \<le> rx_context X))"
    have "?I acc"
    proof (rule passE_invariant [OF acc])
      fix p c c' assume "?I c" and step: "pack_path X R b (re_result E) (re_seen E) p c = Inr c'"
      obtain chosen packed where c: "c = (chosen, packed)" by fastforce
      obtain proposed where pr: "build_items X R b (re_seen E) (chosen @ [p]) = Inr proposed"
        using step by (auto simp: pack_path_def c)
      have "c' = c \<or> snd c' = proposed \<and> int (length (re_result E @ proposed)) \<le> rx_total X
          \<and> estimate_tokens (rv_counter (rx_service X)) (rx_dump X (re_result E @ proposed)) \<le> rx_context X"
        using step pr by (auto simp: pack_path_def c split: if_splits)
      then show "?I c'"
      proof
        assume "c' = c"
        with \<open>?I c\<close> show ?thesis by simp
      next
        assume new: "snd c' = proposed \<and> int (length (re_result E @ proposed)) \<le> rx_total X
          \<and> estimate_tokens (rv_counter (rx_service X)) (rx_dump X (re_result E @ proposed)) \<le> rx_context X"
        with build_items_refs [OF pr] show ?thesis by metis
      qed
    qed simp
    then show ?thesis using assms(1) unfolding relation_expansion_ok_def E' by auto
  qed
qed

lemma expand_groups_ok:
  "relation_expansion_ok X seed E \<Longrightarrow> expand_groups X ctx now b groups E s = (Inr E', s') \<Longrightarrow> relation_expansion_ok X seed E'"
proof (induction groups arbitrary: E s)
  case (Cons ids groups)
  show ?case
  proof (cases "re_calls E < 1 \<or> re_tokens E < 512 \<or> rx_total X \<le> int (length (re_result E))")
    case True
    then have "E' = E" using Cons.prems(2) by (simp add: returnS_Inr)
    then show ?thesis using Cons.prems(1) by simp
  next
    case False
    then obtain E1 s1 where "expand_group X ctx now b ids E s = (Inr E1, s1)" "expand_groups X ctx now b groups E1 s1 = (Inr E', s')"
      using Cons.prems(2) by (auto simp: bindS_Inr)
    then show ?thesis using Cons.IH expand_group_ok [OF Cons.prems(1)] by blast
  qed
qed (simp add: returnS_Inr)

text \<open>
  The relation evidence added to a bucket stays within the expander's number of items and token
  budget, repeats nothing, and adds nothing the seed already holds.
\<close>

lemma expansion_is_bounded:
  assumes "make_expander X = Inr X" and "expand_relations X ctx now seed b s = (Inr items, s')"
  shows "int (length items) \<le> rx_total X
    \<and> (items = [] \<or> estimate_tokens (rv_counter (rx_service X)) (rx_dump X items) \<le> rx_context X)
    \<and> distinct (map item_ref items) \<and> item_ref ` set items \<inter> item_ref ` set seed = {}"
proof -
  let ?E = "\<lparr>re_result = [], re_seen = map item_ref seed, re_calls = rx_calls X, re_tokens = rx_context X\<rparr>"
  obtain E s1 where E: "expand_groups X ctx now b (seed_groups seed) ?E s1 = (Inr E, s')" "items = re_result E"
    using assms(2) by (auto simp: expand_relations_def bindS_Inr returnS_Inr)
  have "0 \<le> rx_total X" using assms(1) by (auto simp: make_expander_def split: if_splits)
  then have "relation_expansion_ok X seed ?E" by (simp add: relation_expansion_ok_def)
  from expand_groups_ok [OF this E(1)] show ?thesis by (simp add: relation_expansion_ok_def E(2))
qed

subsection \<open>Witness\<close>

definition example_recall :: "relation_point list list recall_service" where
  "example_recall = \<lparr>rv_index = example_index, rv_tables = example_relations, rv_counter = \<lparr>chars_per_token = 4\<rparr>, rv_render = (\<lambda>_ _. [])\<rparr>"

definition example_payloads :: payloads where
  "example_payloads = [payload_key False [97] \<mapsto> example_node 97, payload_key False [98] \<mapsto> example_node 98]"

lemma example_recall_fields [simp]: "rv_index example_recall = example_index" "rv_tables example_recall = example_relations"
  "rv_counter example_recall = \<lparr>chars_per_token = 4\<rparr>" "rv_render example_recall x R = []"
  by (simp_all add: example_recall_def)

lemma example_hydrate: "hydrate example_recall (Some (example_caller 97)) 8 [example_path] (s, 4) = (Inr example_payloads, (s @ [example_points], 5))"
proof -
  have ids: "path_ids False [example_path] = [[97], [98]]" "path_ids True [example_path] = []"
    by (simp_all add: path_ids_def example_path_def example_step)
  have "index_read example_index (Some (example_caller 97)) 8 False [WithIds [[97], [98]], OfType False] [] 256 True (s, 4)
      = (Inr example_points, (s @ [example_points], 5))"
    by (simp add: example_level example_page_def)
  then show ?thesis
    by (simp add: hydrate_def hydrate_kind_def ids bindS_def liftS_def example_canonical returnS_def example_payloads_def)
qed

lemma example_check: "check_path example_relations example_traversal 5 example_payloads example_path
    = Inr (True, [payload_key False [97], payload_key False [98], payload_key False [97], payload_key False [97]])"
proof -
  have vis: "recall_visible example_traversal 5 b (example_node k)" for b k
    by (simp add: recall_visible_def) (simp add: example_node_def)
  have keys: "payload_key False [98] \<noteq> payload_key False [97]" by (simp add: payload_key_def)
  have found: "example_payloads (payload_key False [97]) = Some (example_node 97)" "example_payloads (payload_key False [98]) = Some (example_node 98)"
    using keys by (simp_all add: example_payloads_def)
  have e: "same_edge example_traversal 5 example_relations [[97], [98]] (make_step (example_node 97) example_edge True) example_edge"
    by (simp add: same_edge_def example_step Let_def) (simp add: example_edge_def)
  have v: "\<lparr>vr_episode = False, vr_id = [97]\<rparr> = payload_key False [97]" by (simp add: payload_key_def)
  have p: "proof_shown example_traversal 5 example_payloads [TENANT \<mapsto> [97], USER \<mapsto> [98]] (payload_key False [97])"
    by (simp add: proof_shown_def found vis same_scope_def dimension_order_def)
  have st: "sp_owner (make_step (example_node 97) example_edge True) = [97]" "sp_version (make_step (example_node 97) example_edge True) = 1"
    "sp_relation (make_step (example_node 97) example_edge True) = ed_id example_edge" by (simp_all add: make_step_def)
  show ?thesis
    by (simp add: check_path_def Let_def example_path_def shown_def found vis example_reference st example_intact example_extensions e v p)
qed

definition example_recall_request :: recall_request where
  "example_recall_request = \<lparr>rq_seeds = [[97]], rq_policy = example_traversal, rq_context_tokens = 512, rq_record_tokens = 32\<rparr>"

lemma example_recalled: "\<exists>R. recall example_recall (Some (example_caller 97)) 5 example_recall_request [] = (Inr R, example_pages @ [example_points])
    \<and> rs_paths R = [example_path]"
proof -
  have Q: "rq_policy example_recall_request = example_traversal" "rq_seeds example_recall_request = [[97]]"
    "rq_context_tokens example_recall_request = 512" "rq_record_tokens example_recall_request = 32"
    by (simp_all add: example_recall_request_def)
  have keys: "payload_key False [98] \<noteq> payload_key False [97]" by (simp add: payload_key_def)
  have refs: "sort_key (\<lambda>v. (record_type (vr_episode v), vr_id v))
      (remdups [payload_key False [97], payload_key False [98], payload_key False [97], payload_key False [97]])
      = [payload_key False [97], payload_key False [98]]"
    by (simp add: payload_key_def)
  have found: "example_payloads (payload_key False [97]) = Some (example_node 97)" "example_payloads (payload_key False [98]) = Some (example_node 98)"
    using keys by (simp_all add: example_payloads_def)
  have step: "\<exists>R0 rs'. recall_path example_recall example_recall_request 5 example_payloads example_path (R, rs) = Inr (R0, rs')
      \<and> rs_paths R0 = rs_paths R @ [example_path]" for R rs
    by (simp add: recall_path_def example_check Q refs add_record_def found Let_def)
  obtain R0 rs' where packed: "recall_path example_recall example_recall_request 5 example_payloads example_path (R, rs) = Inr (R0 R rs, rs' R rs)"
    "rs_paths (R0 R rs) = rs_paths R @ [example_path]" for R rs
    using step by metis
  obtain found where tr: "traverse example_index example_relations example_traversal (Some (example_caller 97)) 5 [[97]] [] = (Inr found, example_pages)"
    "ss_paths (tr_search found) = [example_path]" "tr_calls found = 4" "tr_at found = 5"
    using example_traverse by simp
  let ?acc = "(start_recall example_recall_request found, ss_reasons (tr_search found))"
  have run: "recall example_recall (Some (example_caller 97)) 5 example_recall_request []
      = (Inr (finish_recall example_recall 5 (R0 (fst ?acc) (snd ?acc), rs' (fst ?acc) (snd ?acc))), example_pages @ [example_points])"
    by (simp add: recall_def bindS_def Q tr pack_recall_def example_hydrate packed)
  obtain n where "finish_recall example_recall 5 (R0 (fst ?acc) (snd ?acc), rs' (fst ?acc) (snd ?acc))
      = (R0 (fst ?acc) (snd ?acc))\<lparr>rs_calls := 5, rs_reasons := sort (rs' (fst ?acc) (snd ?acc))\<rparr>\<lparr>rs_estimate := n\<rparr>"
    using settle_estimate_keeps unfolding finish_recall_def by (metis case_prod_conv)
  then have "rs_paths (finish_recall example_recall 5 (R0 (fst ?acc) (snd ?acc), rs' (fst ?acc) (snd ?acc))) = rs_paths (fst ?acc) @ [example_path]"
    by (simp add: packed(2))
  then show ?thesis using run by (auto simp: start_recall_def)
qed

lemma recall_is_confirmed_witness:
  "\<exists>R. recall example_recall (Some (example_caller 97)) 5 example_recall_request [] = (Inr R, example_pages @ [example_points])
    \<and> rs_paths R = [example_path] \<and> rs_calls R = 5
    \<and> confirmed_path example_relations example_traversal (set example_points) (example_caller 97) 5 example_path
    \<and> list_all (shown_ok \<lparr>chars_per_token = 4\<rparr> 32 (set example_points) (example_caller 97)) (rs_records R)"
proof -
  have w: "caller_wf (ix_unicode (rv_index example_recall)) (example_caller 97)" "nfc_stable (ix_unicode (rv_index example_recall))"
    using example_caller_wf [of 97] nfc_stable_ascii by (simp_all add: example_index_def)
  have ok: "pages_ok (rv_index example_recall)" "logs_pages (rv_index example_recall) id" "counter_ok (rv_counter example_recall)"
    by (simp_all add: example_index_ok counter_ok_def)
  have Q: "make_recall_request [[97]] example_traversal 512 32 = Inr example_recall_request"
    by (simp add: make_recall_request_def example_recall_request_def)
  obtain R where R: "recall example_recall (Some (example_caller 97)) 5 example_recall_request [] = (Inr R, example_pages @ [example_points])"
    "rs_paths R = [example_path]"
    using example_recalled by blast
  from recall_is_confirmed [OF w(2,1) ok Q R(1)] obtain t s1 first second where
    t: "traverse example_index example_relations example_traversal (Some (example_caller 97)) 5 [[97]] [] = (Inr t, s1)"
    and trails: "s1 = first" "example_pages @ [example_points] = s1 @ second" "rs_calls R = length first + length second"
    and conf: "confirmed_path example_relations example_traversal (set (concat second)) (example_caller 97) (tr_at t) example_path"
      "list_all (shown_ok \<lparr>chars_per_token = 4\<rparr> 32 (set (concat second)) (example_caller 97)) (rs_records R)"
    using R(2) by auto
  have "s1 = example_pages" "tr_at t = 5" using t example_traverse by auto
  moreover from this trails have "second = [example_points]" "first = example_pages" by simp_all
  ultimately show ?thesis using R conf trails(3) by (auto simp: example_pages_def)
qed

end
