(* ===== verification/Dream_Relations.thy ===== *)
theory Dream_Relations
  imports Relation_Admission
begin

text \<open>
  The relation links of a promoted dream candidate (\<^verbatim>\<open>_build_candidate_relations\<close> and its call in
  \<^verbatim>\<open>dreaming/writeback.py\<close>): the nearest active records of the partition are linked as supported by
  the candidate. The embedding and the search are parameters, and every exception means no links.
\<close>

text \<open>A point the search found, as far as the code reads it: its raw reference may be unreadable.\<close>

record link_match =
  lm_id :: "uid result"
  lm_active :: bool
  lm_knowledge :: bool
  lm_ref :: "entity_ref result"

record 's linker =
  lk_tables :: relation_tables
  lk_embed :: "ustr \<Rightarrow> real list result"
  lk_search :: "real list \<Rightarrow> relation_condition list \<Rightarrow> ('s, link_match list) io"

definition link_conditions :: "identity_values \<Rightarrow> relation_condition list" where
  "link_conditions scope = partition scope True @ [ActiveOnly, OfType False, OrdinaryClass]"

definition link_text :: "ustr \<Rightarrow> ustr \<Rightarrow> ustr \<Rightarrow> ustr" where
  "link_text topic name summary = py_strip (topic @ lit '' '' @ name @ lit '' '' @ take 100 summary)"

definition may_review :: "caller_authority option \<Rightarrow> bool" where
  "may_review ctx = (case ctx of None \<Rightarrow> False | Some c \<Rightarrow> ADMIN_REVIEW |\<in>| gr_operations (ca_grant c))"

definition link_note :: ustr where
  "link_note = lit ''Automated dream semantic relation link''"

definition link_edge :: "relation_tables \<Rightarrow> bool \<Rightarrow> int \<Rightarrow> entity_ref \<Rightarrow> uid list \<Rightarrow> link_match \<Rightarrow> relation_edge option result" where
  "link_edge T reviewed now source evidence m =
     (if \<not> lm_active m \<or> \<not> lm_knowledge m then Inr None
      else case bindE (lm_ref m) (make_ref T) of
          Inl _ \<Rightarrow> Inr None
        | Inr target \<Rightarrow>
            if ref_key T target = ref_key T source then Inr None
            else bindE (lm_id m) (\<lambda>i.
              bindE (make_edge T \<lparr>re_id = None, re_kind = SUPPORTS, re_source = source, re_target = target, re_record = i,
                  re_evidence = (case evidence of [] \<Rightarrow> [] | v # _ \<Rightarrow> [\<lparr>vr_episode = True, vr_id = v\<rparr>]),
                  re_status = (if reviewed then R_ACCEPTED else R_PROPOSED), re_from = Aware now, re_until = None, re_note = Some link_note\<rparr>) (\<lambda>e.
                Inr (Some e))))"

definition build_candidate_relations :: "'s linker \<Rightarrow> caller_authority option \<Rightarrow> int \<Rightarrow> entity_ref \<Rightarrow> ustr \<Rightarrow> ustr \<Rightarrow> ustr \<Rightarrow> uid list
    \<Rightarrow> ('s, relation_edge list) io" where
  "build_candidate_relations K ctx now source topic name summary evidence =
     bindS (liftS (lk_embed K (link_text topic name summary))) (\<lambda>vector.
     bindS (lk_search K vector (link_conditions (ef_scope source))) (\<lambda>matches.
     bindS (liftS (mapE (link_edge (lk_tables K) (may_review ctx) now source evidence) matches)) (\<lambda>found.
       let edges = List.map_filter id found
       in if edges = [] then returnS [] else liftS (make_bundle edges))))"

text \<open>The links of a candidate: none if anything fails. The reference is built without a context.\<close>

definition link_candidate :: "'s linker \<Rightarrow> caller_authority option \<Rightarrow> int \<Rightarrow> entity_ref \<Rightarrow> ustr \<Rightarrow> uid list \<Rightarrow> 's \<Rightarrow> relation_edge list \<times> 's" where
  "link_candidate K ctx now r summary evidence s =
     (case make_ref (lk_tables K) (r\<lparr>ef_context := Map.empty\<rparr>) of
        Inl _ \<Rightarrow> ([], s)
      | Inr source \<Rightarrow>
          (case build_candidate_relations K ctx now source (ef_topic r) (ef_name r) summary evidence s of
             (Inl _, s') \<Rightarrow> ([], s')
           | (Inr edges, s') \<Rightarrow> (edges, s')))"

lemma link_edge_Some:
  assumes "link_edge T reviewed now source evidence m = Inr (Some e)"
  shows "ed_source e = source \<and> ed_kind e = SUPPORTS \<and> ed_status e = (if reviewed then R_ACCEPTED else R_PROPOSED)
    \<and> ref_key T (ed_target e) \<noteq> ref_key T source \<and> evidence \<noteq> [] \<and> ed_evidence e = [\<lparr>vr_episode = True, vr_id = hd evidence\<rparr>] \<and> edge_ok T e"
proof -
  obtain target i where t: "bindE (lm_ref m) (make_ref T) = Inr target" "ref_key T target \<noteq> ref_key T source"
    and e: "make_edge T \<lparr>re_id = None, re_kind = SUPPORTS, re_source = source, re_target = target, re_record = i,
                  re_evidence = (case evidence of [] \<Rightarrow> [] | v # _ \<Rightarrow> [\<lparr>vr_episode = True, vr_id = v\<rparr>]),
                  re_status = (if reviewed then R_ACCEPTED else R_PROPOSED), re_from = Aware now, re_until = None, re_note = Some link_note\<rparr> = Inr e"
    using assms unfolding link_edge_def by (auto split: if_splits sum.splits)
  have "evidence \<noteq> []" using e by (cases evidence) (auto simp: make_edge_def)
  then have v: "(case evidence of [] \<Rightarrow> [] | v # _ \<Rightarrow> [\<lparr>vr_episode = True, vr_id = v\<rparr>]) = [\<lparr>vr_episode = True, vr_id = hd evidence\<rparr>]"
    by (cases evidence) auto
  from e [unfolded v] obtain s2 t2 where s2: "make_ref T source = Inr s2" "make_ref T target = Inr t2"
    and f: "ed_source e = s2" "ed_target e = t2" "ed_kind e = SUPPORTS" "ed_status e = (if reviewed then R_ACCEPTED else R_PROPOSED)"
      "ed_evidence e = canonical_evidence [\<lparr>vr_episode = True, vr_id = hd evidence\<rparr>]"
    unfolding make_edge_def by (auto split: if_splits)
  have "s2 = source" "t2 = target" using s2 make_ref_Inr by blast+
  then show ?thesis using f t(2) \<open>evidence \<noteq> []\<close> make_edge_ok [OF e] by (simp add: canonical_evidence_def)
qed

lemma link_candidate_edges:
  assumes "link_candidate K ctx now r summary evidence s = (edges, s')" and "e \<in> set edges"
  shows "ed_source e = r\<lparr>ef_context := Map.empty\<rparr> \<and> ed_kind e = SUPPORTS \<and> (ed_status e = R_ACCEPTED \<longrightarrow> may_review ctx)
    \<and> ref_key (lk_tables K) (ed_target e) \<noteq> ref_key (lk_tables K) (ed_source e)
    \<and> evidence \<noteq> [] \<and> ed_evidence e = [\<lparr>vr_episode = True, vr_id = hd evidence\<rparr>] \<and> edge_ok (lk_tables K) e"
proof -
  let ?T = "lk_tables K"
  obtain source where src: "make_ref ?T (r\<lparr>ef_context := Map.empty\<rparr>) = Inr source"
    and b: "build_candidate_relations K ctx now source (ef_topic r) (ef_name r) summary evidence s = (Inr edges, s')"
    using assms unfolding link_candidate_def by (auto split: sum.splits prod.splits)
  have same: "source = r\<lparr>ef_context := Map.empty\<rparr>" by (rule make_ref_Inr [OF src])
  obtain matches found where f: "mapE (link_edge ?T (may_review ctx) now source evidence) matches = Inr found"
    and edges: "List.map_filter id found = [] \<and> edges = [] \<or> make_bundle (List.map_filter id found) = Inr edges"
    using b unfolding build_candidate_relations_def Let_def by (auto simp: bindS_Inr returnS_Inr split: if_splits)
  have "e \<in> set (List.map_filter id found)"
    using edges assms(2) make_bundle_Inr [of "List.map_filter id found" edges] by auto
  then have "Some e \<in> set found" by (auto simp: map_filter_def)
  from mapE_source [OF f this] obtain m where "link_edge ?T (may_review ctx) now source evidence m = Inr (Some e)" by blast
  from link_edge_Some [OF this] show ?thesis by (auto simp: same split: if_splits)
qed

text \<open>
  C39. The links of a candidate whose context is not empty are never admitted: they start at the
  reference without the context, so the admission of the store call, which compares with the whole
  reference, refuses them, whatever the store holds.
\<close>

theorem dream_links_refused:
  assumes "link_candidate K ctx now r summary evidence s = (edges, s')" and "edges \<noteq> []" and "as_tables A = lk_tables K"
    and "parse_bundle (as_tables A) raw = Inr edges" and "ref_key (lk_tables K) r \<noteq> ref_key (lk_tables K) (r\<lparr>ef_context := Map.empty\<rparr>)"
  shows "admit_relations A ctx r raw t = (Inl (ConfigurationError (lit ''relation source differs from canonical Knowledge identity'')), t)"
proof -
  obtain e es where es: "edges = e # es" using assms(2) by (cases edges) auto
  have "ed_source e = r\<lparr>ef_context := Map.empty\<rparr>" using link_candidate_edges [OF assms(1), of e] es by simp
  then have "check_edge (as_tables A) ctx r e = Inl (ConfigurationError (lit ''relation source differs from canonical Knowledge identity''))"
    using assms(3,5) by (simp add: check_edge_def)
  then have "mapE (check_edge (as_tables A) ctx r) edges = Inl (ConfigurationError (lit ''relation source differs from canonical Knowledge identity''))"
    by (simp add: es)
  then show ?thesis by (simp add: admit_relations_def Let_def bindS_def liftS_def raiseS_def assms(4))
qed

subsection \<open>Witness\<close>

text \<open>Tables whose reference texts tell a context from none.\<close>

definition linking_tables :: relation_tables where
  "linking_tables = example_relations\<lparr>rt_ref_text := (\<lambda>r. ef_name r @ (case ef_context r (lit ''topic'') of None \<Rightarrow> [] | Some _ \<Rightarrow> [33]))\<rparr>"

definition example_linker :: "unit linker" where
  "example_linker = \<lparr>lk_tables = linking_tables, lk_embed = (\<lambda>_. Inr []),
     lk_search = (\<lambda>v cs s. (Inr [\<lparr>lm_id = Inr [98], lm_active = True, lm_knowledge = True, lm_ref = Inr (example_ref 98)\<rparr>], s))\<rparr>"

definition linked_ref :: entity_ref where
  "linked_ref = (example_ref 97)\<lparr>ef_context := [lit ''topic'' \<mapsto> JStr [97]]\<rparr>"

lemma example_link_edge: "\<exists>e. link_candidate example_linker None 0 linked_ref [97] [[5]] () = ([e], ())"
proof -
  have ref: "make_ref linking_tables (example_ref k) = Inr (example_ref k)" if "k \<in> {97, 98}" for k
  proof -
    have "make_ref linking_tables r = make_ref example_relations r" for r by (simp add: make_ref_def linking_tables_def)
    then show ?thesis using example_reference [OF that] by simp
  qed
  have base: "linked_ref\<lparr>ef_context := Map.empty\<rparr> = example_ref 97" by (simp add: linked_ref_def example_ref_def)
  have key: "ref_key linking_tables (example_ref k) = [k]" for k
    by (simp add: ref_key_def linking_tables_def example_relations_def example_ref_def)
  have note_ok: "link_note \<noteq> []" "length link_note \<le> 1000" by (simp_all add: link_note_def lit_def)
  let ?m = "\<lparr>lm_id = Inr [98], lm_active = True, lm_knowledge = True, lm_ref = Inr (example_ref 98)\<rparr>"
  obtain e where e: "link_edge linking_tables False 0 (example_ref 97) [[5]] ?m = Inr (Some e)"
    by (simp add: link_edge_def ref key make_edge_def edge_time_def example_scope_same note_ok canonical_evidence_def not_less)
  have "make_bundle [e] = Inr [e]" using link_edge_Some [OF e] by (simp add: make_bundle_def)
  then have "build_candidate_relations example_linker None 0 (example_ref 97) (ef_topic linked_ref) (ef_name linked_ref) [97] [[5]] () = (Inr [e], ())"
    using e by (simp add: build_candidate_relations_def example_linker_def bindS_def liftS_def may_review_def map_filter_def)
  then show ?thesis
    unfolding link_candidate_def base by (simp add: example_linker_def ref [of 97])
qed

lemma dream_links_refused_witness:
  "\<exists>e. link_candidate example_linker None 0 linked_ref [97] [[5]] () = ([e], ())
    \<and> admit_relations (example_admission\<lparr>as_tables := linking_tables\<lparr>rt_parse := (\<lambda>_. Inr [e])\<rparr>\<rparr>) None linked_ref JNull []
      = (Inl (ConfigurationError (lit ''relation source differs from canonical Knowledge identity'')), [])"
proof -
  obtain e where e: "link_candidate example_linker None 0 linked_ref [97] [[5]] () = ([e], ())" using example_link_edge by blast
  let ?T = "linking_tables\<lparr>rt_parse := (\<lambda>_. Inr [e])\<rparr>"
  let ?K = "example_linker\<lparr>lk_tables := ?T\<rparr>"
  have r: "make_ref ?T = make_ref linking_tables" by (intro ext) (simp add: make_ref_def)
  have k: "ref_key ?T = ref_key linking_tables" by (intro ext) (simp add: ref_key_def)
  have l: "link_id ?T = link_id linking_tables" by (intro ext) (simp add: link_id_def k)
  have m: "make_edge ?T = make_edge linking_tables" by (intro ext) (simp only: make_edge_def r k l)
  have n: "link_edge ?T = link_edge linking_tables" by (intro ext) (simp only: link_edge_def r k m)
  have b: "build_candidate_relations ?K = build_candidate_relations example_linker"
    by (intro ext) (simp add: build_candidate_relations_def n example_linker_def)
  have run: "link_candidate ?K None 0 linked_ref [97] [[5]] () = ([e], ())"
    using e unfolding link_candidate_def b by (simp add: r example_linker_def [THEN arg_cong, of lk_tables])
  have differ: "ref_key (lk_tables ?K) linked_ref \<noteq> ref_key (lk_tables ?K) (linked_ref\<lparr>ef_context := Map.empty\<rparr>)"
    by (simp add: ref_key_def linking_tables_def example_relations_def linked_ref_def example_ref_def)
  have raw: "parse_bundle ?T JNull = Inr [e]" by (simp add: parse_bundle_def)
  from dream_links_refused [OF run _ _ _ differ, of "example_admission\<lparr>as_tables := ?T\<rparr>" JNull "[]"] raw e show ?thesis by auto
qed

end
