(* ===== verification/Spec2Isabelle.thy ===== *)
theory Spec2Isabelle
  imports Token_Budget Error_Model Tenancy_Quota Reason_Board Working_Memory Knowledge_Evolution Prediction_Learning Lifecycle Salience Dream_Worker Retrieval Relation_Recall Dream_Relations
begin

text \<open>
  CyberBrain keeps the long-term memory of software agents. All paths below are under
  \<^verbatim>\<open>src/cyberbrain/\<close>. Its parts work together as follows. Every service call runs under a bound
  authority (\<^verbatim>\<open>tenancy/\<close>) that decides, narrows and attributes what it may touch, and is charged
  against quotas. Episodes (\<^verbatim>\<open>memory/\<close>) and knowledge (\<^verbatim>\<open>knowledge/\<close>) are points of an external
  vector store; a knowledge record evolves through staged, recoverable versions. Searches rank
  what the store finds (\<^verbatim>\<open>retrieval/\<close>), and reviewed relations between entities (\<^verbatim>\<open>relations/\<close>) are
  kept in the records, traversed within bounds and recalled with their proofs. Working memory
  (\<^verbatim>\<open>working_memory/\<close>, with \<^verbatim>\<open>salience/\<close> and \<^verbatim>\<open>core/token_budget.py\<close>) selects what an agent is shown
  within a token budget. Predictions (\<^verbatim>\<open>cognition/\<close>) are recorded and later resolved. Dreaming
  (\<^verbatim>\<open>dreaming/\<close>) turns the episodes of finished sessions into knowledge: jobs wait in a durable
  queue, a worker claims one, plans topics and collects evidence, splits the reasoning into small
  tasks that outside consumers lease from a durable inbox, assembles their answers or a fallback,
  passes the candidates through an evidence gate, audits the decisions and writes what was
  promoted. Lifecycle evaluation (\<^verbatim>\<open>lifecycle/\<close>) annotates aging records.

  \<^bold>\<open>Which theory models which part.\<close> Definitions keep the names of the code; each
  theory opens with the files it models, and states are records, durable tables lists of rows.

  \<^item> \<open>Prelude\<close>: Python strings as code point lists, the exception hierarchy, \<^verbatim>\<open>str.strip\<close>, results
    that raise, and the contracts \<open>op_machine\<close> and \<open>guarded_machine\<close>: operations that keep an
    invariant, and a relation, along every sequence of calls.
  \<^item> \<open>Error_Model\<close>, \<open>Token_Budget\<close>, \<open>Content\<close>: \<^verbatim>\<open>core/error_model.py\<close>, \<^verbatim>\<open>core/token_budget.py\<close>,
    \<^verbatim>\<open>core/content.py\<close>.
  \<^item> \<open>Tenancy_Models\<close>, \<open>Tenancy_Policy\<close>, \<open>Tenancy_Runtime\<close>, \<open>Tenancy_Durable\<close>, \<open>Tenancy_Quota\<close>:
    identifiers, scopes, grants; the policy decision, storage filters, attribution and
    enforcement; the entry points of the services; snapshots stored with durable rows; quotas
    and the transactional limiter.
  \<^item> \<open>Point_Store\<close>: computations over the external store (\<^verbatim>\<open>storage/base.py\<close>).
  \<^item> \<open>Episodic_Memory\<close>, \<open>Knowledge_Evolution\<close>: \<^verbatim>\<open>memory/service.py\<close>, \<^verbatim>\<open>knowledge/evolution.py\<close>.
  \<^item> \<open>Salience\<close>, \<open>Working_Memory\<close>: \<^verbatim>\<open>salience/\<close>, \<^verbatim>\<open>working_memory/\<close>.
  \<^item> \<open>Prediction_Learning\<close>: \<^verbatim>\<open>cognition/prediction.py\<close>, \<^verbatim>\<open>cognition/calibration.py\<close>.
  \<^item> \<open>Lifecycle\<close>: \<^verbatim>\<open>lifecycle/\<close>.
  \<^item> \<open>Dream_Queue\<close>, \<open>Reason_Contracts\<close>, \<open>Reason_Inbox\<close>: \<^verbatim>\<open>dreaming/queue.py\<close>,
    \<^verbatim>\<open>reasoner_provider/contracts.py\<close>, \<^verbatim>\<open>dreaming/reason_task_inbox.py\<close>; \<open>Reason_Board\<close> is the
    inbox's abstract specification.
  \<^item> \<open>Regex\<close>, \<open>Dream_Relevance\<close>, \<open>Dream_Planner\<close>: the fragment of Python's \<^verbatim>\<open>re\<close> that the patterns
    use, \<^verbatim>\<open>dreaming/relevance.py\<close>, \<^verbatim>\<open>dreaming/planner.py\<close>, \<^verbatim>\<open>associative.py\<close> and \<^verbatim>\<open>engine.py\<close>.
  \<^item> \<open>Dream_Reasoning\<close>, \<open>Dream_Gate\<close>: \<^verbatim>\<open>dreaming/orchestration.py\<close>, \<^verbatim>\<open>reasoner.py\<close>,
    \<^verbatim>\<open>run_reasoner.py\<close>; \<^verbatim>\<open>dreaming/gate.py\<close>.
  \<^item> \<open>Dream_Audit\<close>, \<open>Dream_Writeback\<close>, \<open>Dream_Worker\<close>: \<^verbatim>\<open>dreaming/audit.py\<close>, \<^verbatim>\<open>promotion.py\<close>,
    \<^verbatim>\<open>review.py\<close>; \<^verbatim>\<open>writeback.py\<close>; \<^verbatim>\<open>session.py\<close> and \<^verbatim>\<open>worker.py\<close>, where \<open>assemble_worker\<close> puts the
    modelled parts together as the service does.

  \<^item> \<open>Retrieval\<close>: \<^verbatim>\<open>retrieval/\<close> and \<^verbatim>\<open>knowledge/search.py\<close>: BM25 and literal ranking, their fusion with
    the vector rank, and searches of knowledge; the store may change between two reads.
  \<^item> \<open>Relations\<close>, \<open>Relation_Traversal\<close>, \<open>Relation_Admission\<close>, \<open>Relation_Recall\<close>: references, edges,
    bundles, projection and scoped reads; the bounded search; admission, reviews, rebuilding and
    rollout; recall and the expansion of a dream's evidence. \<open>Dream_Relations\<close>: the links
    that \<^verbatim>\<open>dreaming/writeback.py\<close> builds for a promoted candidate.

  \<^bold>\<open>What is proved.\<close> Isolation: whatever selectors a caller passes, reads stay in its
  grant and writes of one tenant are never selected by another; a scoped caller's queue calls and
  quota charges leave other scopes' rows alone; the Python and SQL visibility tests agree. Durable
  state machines: a claimed job or leased task is not handed out twice, attempts are bounded,
  a decided task keeps its answer, the inbox refines the board on which a task is open or decided
  once, the audit trail is kept, review pages neither skip nor repeat. Knowledge: wherever a store
  call stops, the entity is settled or recoverable, recovery completes it, versions are numbered
  one up and stale reviews are rejected. Selection: the budget and the policy's order are kept and
  an item is emitted once; search results are current records of the grant, and ranking a subset
  with the whole corpus's statistics is ranking it afresh. Relations: an edge validates again as it
  was stored, a review changes one assertion; what admission, traversal and recall rest on is among the
  records the store answered to their own reads, inside the caller's grant: the targets and evidence of an
  admitted edge, the owners, targets and evidence along a reported path, which is a walk over accepted,
  valid relations within the policy's bounds, and once more, on a second read, all that a recall confirms. Dreaming: a request stays in its project, a run terminates and uses
  exactly the winning answers, promotion needs corroboration, a written record is attributed to
  the evidence it cites, and a claimed job is always settled. Each theory names its properties
  (C1 and so on) in front of the theorem; a theorem with hypotheses has a witness that applies it
  to concrete data.

  \<^bold>\<open>Conventions and bounds.\<close> Every exception is a value of \<open>exn\<close>, every call that may
  raise gives a sum, and a call on state returns the state it leaves also when it raises. Times
  are integers in microseconds, monotonic clocks and floats are reals (so rounding error of
  floating point is not modelled; \<^verbatim>\<open>round\<close> and \<^verbatim>\<open>timedelta\<close> round ties to even). SQL tables keep row
  order and \<^verbatim>\<open>ORDER BY\<close> is a stable sort. Locks and transactions make an operation atomic, so
  interleaving is a sequence of whole operations; between the writes of a knowledge store call the
  process may stop at any point. The waiting loop of a dream run is a \<open>partial_function\<close>, shown
  to return when sleeping lets at least the asked time pass; all other recursion is total. Search
  results of a store call are the ten nearest, so the theorems on evolution assume at most ten
  active versions per entity.

  \<^bold>\<open>Parameters.\<close> Outside the program, and arguments of the definitions that use them:
  the Unicode tables (normalization, case folding, \<^verbatim>\<open>re\<close>'s classes; assumed stable where used),
  SHA-256 and UUID generation, \<^verbatim>\<open>json.dumps\<close>, \<^verbatim>\<open>str\<close> and \<^verbatim>\<open>repr\<close> of values, ISO timestamps, the
  embedding service, the vector store (a record of calls; \<open>point_store_ok\<close> and \<open>repository_ok\<close>
  state its documented behaviour, and \<open>logs_pages\<close> and \<open>logs_retrievals\<close> that its state can be read for what
  it has answered, which restricts no store: \<open>recorded\<close> adds such a record), the secret scanner, the fallback reasoner, other parties that
  use the inbox at the same time, and the passing of time. Hypotheses about them are named
  definitions, and witnesses instantiate them with executable functions.

  \<^bold>\<open>Not modelled.\<close> Metrics and logging; thread locks beyond atomicity; HTTP, MCP and
  command-line transport (\<^verbatim>\<open>mcp/\<close>, \<^verbatim>\<open>api/\<close>); network clients (\<^verbatim>\<open>storage/qdrant.py\<close>, \<^verbatim>\<open>embedding/\<close>,
  \<^verbatim>\<open>reasoner_provider/http.py\<close>); environment and files (\<^verbatim>\<open>core/settings.py\<close>, \<^verbatim>\<open>tenancy/identity.py\<close>);
  one-off migrations, backups, benchmarks and scripts; the retrieval shadow; the dreaming scheduler
  and its HTTP fallback router; the cognitive runtime path, self model, concepts, reasoning engine
  and agent adapter. \<open>Dream_Writeback\<close> takes the links of a candidate and
  \<open>Knowledge_Evolution\<close> the relation checks of a store call as parameters.
\<close>

end
